(* ===== verification/Prelude.thy ===== *)
theory Prelude
  imports Complex_Main "HOL-Library.Word"
begin

text \<open>
  Shared vocabulary of the development: the collections of rewrite rules the component
  proofs draw on, the machine-integer operations of the Rust standard library that the
  code uses (\<open>saturating_add\<close>, \<open>saturating_sub\<close>), the monotonic clock
  (\<open>std::time::Duration\<close> and \<open>tokio::time::Instant\<close> in nanoseconds), and the
  few generic list and option lemmas that several components need.
\<close>

unbundle bit_operations_syntax

named_theorems float_simps \<open>evaluation rules of the IEEE operations\<close>
named_theorems fsm_frame \<open>which fields an operation of the detector leaves alone\<close>
named_theorems nav_frame \<open>which fields an operation of the dead reckoner leaves alone\<close>
named_theorems mon_frame \<open>which fields an operation of the autopilot monitor leaves alone\<close>

type_synonym u8 = "8 word"
type_synonym u16 = "16 word"
type_synonym u32 = "32 word"
type_synonym u64 = "64 word"

section \<open>Saturating machine integers\<close>

definition saturating_add :: "'a::len word \<Rightarrow> 'a word \<Rightarrow> 'a word" where
  "saturating_add a b = (if 2 ^ LENGTH('a) \<le> unat a + unat b then - 1 else a + b)"

definition saturating_sub :: "'a::len word \<Rightarrow> 'a word \<Rightarrow> 'a word" where
  "saturating_sub a b = (if a < b then 0 else a - b)"

lemma unat_max_word: "unat (- 1 :: 'a::len word) = 2 ^ LENGTH('a) - 1"
  by transfer (simp add: take_bit_minus_one_eq_mask mask_eq_exp_minus_1 nat_diff_distrib nat_power_eq)

lemma unat_saturating_add:
  "unat (saturating_add a (b :: 'a::len word)) = min (unat a + unat b) (2 ^ LENGTH('a) - 1)"
proof (cases "2 ^ LENGTH('a) \<le> unat a + unat b")
  case True
  then show ?thesis
    by (simp add: saturating_add_def unat_max_word)
next
  case False
  then have "unat (a + b) = unat a + unat b"
    by (simp add: unat_word_ariths)
  with False show ?thesis
    by (simp add: saturating_add_def)
qed

lemma unat_saturating_sub: "unat (saturating_sub a b) = unat a - unat b"
  by (simp add: saturating_sub_def unat_sub word_less_nat_alt word_le_nat_alt)

lemma saturating_add_ge: "(a :: 'a::len word) \<le> saturating_add a b"
proof -
  have "unat a \<le> 2 ^ LENGTH('a) - 1"
    using unsigned_less [where w = a and 'a = nat] by linarith
  then show ?thesis
    by (simp add: word_le_nat_alt unat_saturating_add)
qed

section \<open>The monotonic clock\<close>

text \<open>
  An \<open>Instant\<close> is a point of the monotonic clock in nanoseconds from an arbitrary
  epoch, a \<open>Duration\<close> a number of nanoseconds. \<open>saturating_duration_since\<close> is
  zero when the other instant is later.
\<close>

type_synonym instant = nat
type_synonym duration = nat

definition saturating_duration_since :: "instant \<Rightarrow> instant \<Rightarrow> duration" where
  "saturating_duration_since t earlier = t - earlier"

text \<open>\<open>as_nanos() as u64\<close>: the \<open>u128\<close> count cut to its low 64 bits.\<close>

definition nanos_u64 :: "duration \<Rightarrow> u64" where
  "nanos_u64 d = word_of_nat d"

lemma unat_nanos_u64: "d < 2 ^ 64 \<Longrightarrow> unat (nanos_u64 d) = d"
  by (simp add: nanos_u64_def unat_of_nat)

section \<open>Lists and options\<close>

lemma fold_preserves:
  assumes "P s" and "\<And>x s. x \<in> set xs \<Longrightarrow> P s \<Longrightarrow> P (f x s)"
  shows "P (fold f xs s)"
  using assms by (induction xs arbitrary: s) auto

lemma dropWhile_suffix_ex: "\<exists>ys. xs = ys @ dropWhile P xs"
  by (metis takeWhile_dropWhile_id)

lemma set_dropWhile_subset: "set (dropWhile P xs) \<subseteq> set xs"
  by (auto dest: set_dropWhileD)

lemma map_filter_eq_append_Cons:
  "List.map_filter f xs = bs @ y # cs \<Longrightarrow>
     \<exists>us x vs. xs = us @ x # vs \<and> f x = Some y \<and> List.map_filter f us = bs \<and> List.map_filter f vs = cs"
proof (induction xs arbitrary: bs)
  case (Cons a xs)
  show ?case
  proof (cases "f a")
    case None
    with Cons.prems have "List.map_filter f xs = bs @ y # cs" by (simp add: List.map_filter_simps)
    from Cons.IH [OF this] obtain us x vs where "xs = us @ x # vs" "f x = Some y"
      "List.map_filter f us = bs" "List.map_filter f vs = cs" by blast
    with None show ?thesis by (intro exI [of _ "a # us"] exI [of _ x] exI [of _ vs]) (simp add: List.map_filter_simps)
  next
    case (Some z)
    show ?thesis
    proof (cases bs)
      case Nil
      with Some Cons.prems show ?thesis
        by (intro exI [of _ "[]"] exI [of _ a] exI [of _ xs]) (simp add: List.map_filter_simps)
    next
      case (Cons b bs')
      with Some Cons.prems have "List.map_filter f xs = bs' @ y # cs" "z = b" by (simp_all add: List.map_filter_simps)
      with Cons.IH obtain us x vs where "xs = us @ x # vs" "f x = Some y"
        "List.map_filter f us = bs'" "List.map_filter f vs = cs" by blast
      with Some \<open>z = b\<close> Cons show ?thesis
        by (intro exI [of _ "a # us"] exI [of _ x] exI [of _ vs]) (simp add: List.map_filter_simps)
    qed
  qed
qed (simp add: List.map_filter_simps)

end
