(* ===== verification/Bounded_Map.thy ===== *)
theory Bounded_Map
  imports Prelude "HOL-Library.AList"
begin

text \<open>
  The two receipt maps of the autopilot monitor (\<open>acks_by_cmd\<close> and
  \<open>params_by_name\<close> of \<open>src/src/mav/monitor.rs\<close>) are hash maps that hold at most 64
  entries and, past that, drop the entry with the oldest receipt time. A map is its list
  of entries in iteration order; \<open>min_by_key\<close> takes the first of several equal minima
  in that order. The locale states what the users of such a map rely on; both maps
  interpret it.
\<close>

definition RECEIPT_CAP :: nat where "RECEIPT_CAP = 64"

fun min_by_key :: "('k \<times> 'v \<Rightarrow> 'c::linorder) \<Rightarrow> ('k \<times> 'v) list \<Rightarrow> ('k \<times> 'v) option" where
  "min_by_key f [] = None"
| "min_by_key f (x # xs) =
     (case min_by_key f xs of None \<Rightarrow> Some x | Some y \<Rightarrow> if f y < f x then Some y else Some x)"

definition evict_oldest :: "('v \<Rightarrow> u64) \<Rightarrow> ('k \<times> 'v) list \<Rightarrow> ('k \<times> 'v) list" where
  "evict_oldest stamp m =
     (if RECEIPT_CAP < length m
      then (case min_by_key (stamp \<circ> snd) m of Some (k, _) \<Rightarrow> AList.delete k m | None \<Rightarrow> m)
      else m)"

definition receipt_put :: "('v \<Rightarrow> u64) \<Rightarrow> 'k \<Rightarrow> 'v \<Rightarrow> ('k \<times> 'v) list \<Rightarrow> ('k \<times> 'v) list" where
  "receipt_put stamp k v m = evict_oldest stamp (AList.update k v m)"

definition receipt_ok :: "('k \<times> 'v) list \<Rightarrow> bool" where
  "receipt_ok m \<longleftrightarrow> distinct (map fst m) \<and> length m \<le> RECEIPT_CAP"

section \<open>The interface\<close>

locale receipt_map =
  fixes put :: "'k \<Rightarrow> 'v \<Rightarrow> 'm \<Rightarrow> 'm"
    and look :: "'m \<Rightarrow> 'k \<Rightarrow> 'v option"
    and ok :: "'m \<Rightarrow> bool"
    and stamp :: "'v \<Rightarrow> u64"
  assumes ok_put: "ok m \<Longrightarrow> ok (put k v m)"
    and look_put: "ok m \<Longrightarrow> look (put k v m) j = None \<or> look (put k v m) j = (if j = k then Some v else look m j)"
    and put_kept: "ok m \<Longrightarrow> look m j = Some w \<Longrightarrow> j \<noteq> k \<Longrightarrow> stamp w < stamp v \<Longrightarrow> look (put k v m) k = Some v"
    and drop_oldest: "ok m \<Longrightarrow> j \<noteq> k \<Longrightarrow> look m j = Some w \<Longrightarrow> look (put k v m) j = None
      \<Longrightarrow> look (put k v m) i = Some x \<Longrightarrow> stamp w \<le> stamp x"
begin

fun puts :: "('k \<times> 'v) list \<Rightarrow> 'm \<Rightarrow> 'm" where
  "puts [] m = m"
| "puts ((k, v) # es) m = puts es (put k v m)"

lemma ok_puts: "ok m \<Longrightarrow> ok (puts es m)"
  by (induction es arbitrary: m) (auto simp: ok_put)

lemma puts_append: "puts (es @ fs) m = puts fs (puts es m)"
  by (induction es arbitrary: m) auto

text \<open>An answer is always the latest record for the key.\<close>

lemma look_puts_latest:
  assumes "ok m" and "look m j = None" and "look (puts es m) j = Some v"
  shows "\<exists>bs cs. es = bs @ (j, v) # cs \<and> j \<notin> fst ` set cs"
  using assms
proof (induction es rule: rev_induct)
  case Nil
  then show ?case by simp
next
  case (snoc e es)
  obtain k w where e: "e = (k, w)" by (cases e)
  have ok: "ok (puts es m)" using snoc.prems(1) by (rule ok_puts)
  from snoc.prems(3) have p: "look (put k w (puts es m)) j = Some v" by (simp add: puts_append e)
  show ?case
  proof (cases "j = k")
    case True
    with look_put [OF ok, of k w j] p have "v = w" by auto
    with True show ?thesis by (intro exI [of _ es] exI [of _ "[]"]) (simp add: e)
  next
    case False
    with look_put [OF ok, of k w j] p have "look (puts es m) j = Some v" by auto
    with snoc obtain bs cs where "es = bs @ (j, v) # cs" "j \<notin> fst ` set cs" by blast
    with False show ?thesis by (intro exI [of _ bs] exI [of _ "cs @ [e]"]) (simp add: e)
  qed
qed

end

section \<open>The list of entries implements the interface\<close>

lemma min_by_key_least:
  "min_by_key f xs = Some x \<Longrightarrow> x \<in> set xs \<and> (\<forall>y \<in> set xs. f x \<le> f y)"
proof (induction xs arbitrary: x)
  case (Cons a xs)
  show ?case
  proof (cases "min_by_key f xs")
    case None
    then have "xs = []" by (cases xs) (auto split: option.splits if_splits)
    with Cons.prems None show ?thesis by simp
  next
    case (Some y)
    with Cons.IH [OF Some] Cons.prems show ?thesis by (auto split: if_splits)
  qed
qed simp

lemma min_by_key_Some: "xs \<noteq> [] \<Longrightarrow> \<exists>x. min_by_key f xs = Some x"
  by (cases xs) (auto split: option.splits)

lemma length_update: "length (AList.update k v m) \<le> Suc (length m)"
  by (induction m) auto

lemma length_delete: "k \<in> fst ` set m \<Longrightarrow> length (AList.delete k m) < length m"
proof -
  assume "k \<in> fst ` set m"
  then obtain v where "(k, v) \<in> set m" by auto
  then show ?thesis unfolding AList.delete_eq by (rule length_filter_less) simp
qed

lemma evict_oldest_cases:
  assumes "distinct (map fst m)"
  obtains (fits) "length m \<le> RECEIPT_CAP" "evict_oldest stamp m = m"
  | (evicts) k w where "RECEIPT_CAP < length m" "evict_oldest stamp m = AList.delete k m"
      "map_of m k = Some w" "\<forall>j x. map_of m j = Some x \<longrightarrow> stamp w \<le> stamp x"
proof (cases "RECEIPT_CAP < length m")
  case True
  then have "m \<noteq> []" by auto
  then obtain k w where mn: "min_by_key (stamp \<circ> snd) m = Some (k, w)"
    using min_by_key_Some by (metis surj_pair)
  from min_by_key_least [OF mn] have "(k, w) \<in> set m" "\<forall>y \<in> set m. stamp w \<le> stamp (snd y)" by auto
  with True mn assms show ?thesis
    by (intro evicts [of k w]) (auto simp: evict_oldest_def dest: map_of_SomeD)
qed (auto simp: evict_oldest_def intro: fits)

lemma receipt_ok_put:
  assumes "receipt_ok m" shows "receipt_ok (receipt_put stamp k v m)"
proof -
  let ?u = "AList.update k v m"
  have d: "distinct (map fst ?u)" using assms by (simp add: receipt_ok_def distinct_update)
  from d show ?thesis
  proof (cases rule: evict_oldest_cases [of _ stamp])
    case fits
    with d show ?thesis by (simp add: receipt_put_def receipt_ok_def)
  next
    case (evicts j w)
    then have "j \<in> fst ` set ?u" by (metis domIff dom_map_of_conv_image_fst option.distinct(1))
    then have "length (AList.delete j ?u) < length ?u" by (rule length_delete)
    with evicts(2) d length_update [of k v m] assms show ?thesis
      by (simp add: receipt_put_def receipt_ok_def distinct_delete)
  qed
qed

lemma receipt_look_put:
  assumes "receipt_ok m"
  shows "map_of (receipt_put stamp k v m) j = None
    \<or> map_of (receipt_put stamp k v m) j = (if j = k then Some v else map_of m j)"
proof -
  have "distinct (map fst (AList.update k v m))" using assms by (simp add: receipt_ok_def distinct_update)
  then show ?thesis
    by (cases rule: evict_oldest_cases [of _ stamp])
      (auto simp: receipt_put_def update_conv' delete_conv')
qed

lemma receipt_drop_oldest:
  assumes "receipt_ok m" and "map_of (AList.update k v m) j = Some w"
    and "map_of (receipt_put stamp k v m) j = None" and "map_of (receipt_put stamp k v m) i = Some x"
  shows "stamp w \<le> stamp x"
proof -
  have "distinct (map fst (AList.update k v m))" using assms(1) by (simp add: receipt_ok_def distinct_update)
  then show ?thesis
  proof (cases rule: evict_oldest_cases [of _ stamp])
    case fits
    then show ?thesis using assms(2,3) by (simp add: receipt_put_def)
  next
    case (evicts j' w')
    then have "map_of (AList.update k v m) i = Some x" "j' = j" "w' = w"
      using assms(2-4) by (auto simp: receipt_put_def delete_conv' split: if_splits)
    then show ?thesis using evicts(4) by blast
  qed
qed

lemma receipt_put_kept:
  assumes "receipt_ok m" and "map_of m j = Some w" and "j \<noteq> k" and "stamp w < stamp v"
  shows "map_of (receipt_put stamp k v m) k = Some v"
proof -
  have "distinct (map fst (AList.update k v m))" using assms(1) by (simp add: receipt_ok_def distinct_update)
  then show ?thesis
  proof (cases rule: evict_oldest_cases [of _ stamp])
    case fits
    then show ?thesis by (simp add: receipt_put_def update_conv')
  next
    case (evicts j' w')
    have "map_of (AList.update k v m) j = Some w" using assms(2,3) by (simp add: update_conv')
    then have "stamp w' \<le> stamp w" using evicts(4) by blast
    then have "j' \<noteq> k" using evicts(3) assms(4) by (auto simp: update_conv')
    then show ?thesis using evicts(2) by (simp add: receipt_put_def delete_conv' update_conv')
  qed
qed

lemma receipt_map_list: "receipt_map (receipt_put stamp) map_of receipt_ok stamp"
proof unfold_locales
  fix m :: "('a \<times> 'b) list" and k j i v w x
  assume ok: "receipt_ok m" and "j \<noteq> k" "map_of m j = Some w"
    and "map_of (receipt_put stamp k v m) j = None" "map_of (receipt_put stamp k v m) i = Some x"
  then show "stamp w \<le> stamp x" by (intro receipt_drop_oldest [OF ok]) (simp_all add: update_conv')
qed (rule receipt_ok_put receipt_look_put receipt_put_kept; assumption)+

section \<open>A flooded receipt map\<close>

lemma min_by_key_head: "\<forall>y \<in> set xs. f x \<le> f y \<Longrightarrow> min_by_key f (x # xs) = Some x"
  by (auto split: option.splits dest!: min_by_key_least)

lemma update_new: "k \<notin> fst ` set m \<Longrightarrow> AList.update k v m = m @ [(k, v)]"
  by (induction m) auto

lemma delete_new: "k \<notin> fst ` set m \<Longrightarrow> AList.delete k m = m"
  by (induction m) auto

text \<open>Receipts of distinct keys with rising times: the map holds the newest 64, in order of arrival.\<close>

definition newest :: "('k \<times> 'v) list \<Rightarrow> ('k \<times> 'v) list" where
  "newest es = drop (length es - RECEIPT_CAP) es"

lemma receipt_put_newest:
  assumes "distinct (map fst (es @ [(k, v)]))" and "sorted_wrt (<) (map (stamp \<circ> snd) (es @ [(k, v)]))"
  shows "receipt_put stamp k v (newest es) = newest (es @ [(k, v)])"
proof -
  have "k \<notin> fst ` set (newest es)" using assms(1) in_set_dropD unfolding newest_def by force
  then have put: "receipt_put stamp k v (newest es) = evict_oldest stamp (newest es @ [(k, v)])"
    by (simp add: receipt_put_def update_new)
  show ?thesis
  proof (cases "RECEIPT_CAP \<le> length es")
    case False
    then show ?thesis unfolding put by (simp add: evict_oldest_def newest_def)
  next
    case True
    then have len: "length (newest es) = RECEIPT_CAP" by (simp add: newest_def)
    then obtain x xs where m: "newest es = x # xs" by (cases "newest es") (auto simp: RECEIPT_CAP_def)
    have m': "newest es @ [(k, v)] = drop (length es - RECEIPT_CAP) (es @ [(k, v)])" by (simp add: newest_def)
    have d: "distinct (map fst (newest es @ [(k, v)]))"
      unfolding m' drop_map [symmetric] using assms(1) by (rule distinct_drop)
    have "sorted_wrt (<) (map (stamp \<circ> snd) (newest es @ [(k, v)]))"
      unfolding m' drop_map [symmetric] using assms(2) by (rule sorted_wrt_drop)
    then have "\<forall>y \<in> set (xs @ [(k, v)]). (stamp \<circ> snd) x \<le> (stamp \<circ> snd) y"
      unfolding m by (auto intro: less_imp_le)
    then have "min_by_key (stamp \<circ> snd) (newest es @ [(k, v)]) = Some x"
      unfolding m append_Cons by (rule min_by_key_head)
    moreover have "AList.delete (fst x) (newest es @ [(k, v)]) = xs @ [(k, v)]"
      using d by (auto simp: m delete_new)
    moreover have "xs = drop (Suc (length es) - RECEIPT_CAP) es"
      using True m by (metis Suc_diff_le drop_Suc list.sel(3) newest_def tl_drop)
    moreover have "Suc 0 - RECEIPT_CAP = 0" by (simp add: RECEIPT_CAP_def)
    ultimately show ?thesis
      using len True unfolding put by (cases x) (simp add: evict_oldest_def newest_def)
  qed
qed

lemma newest_none: "k \<notin> fst ` set es \<Longrightarrow> map_of (newest es) k = None"
  by (auto simp: newest_def map_of_eq_None_iff dest: in_set_dropD)

lemma newest_last:
  assumes "k \<notin> fst ` set es"
  shows "map_of (newest (es @ [(k, v)])) k = Some v"
proof -
  have "map_of (drop n es) k = None" for n
    using assms by (auto simp: map_of_eq_None_iff dest: in_set_dropD)
  then show ?thesis by (simp add: newest_def RECEIPT_CAP_def map_add_def)
qed

end
