(* ===== verification/Floats.thy ===== *)
theory Floats
  imports Prelude "HOL-Library.Log_Nat"
begin

text \<open>
  IEEE-754 arithmetic as the Rust code uses it: binary64 (\<open>f64\<close>) and binary32
  (\<open>f32\<close>), round to nearest, ties to even, with NaN, both infinities and both zeros.
  A finite number is its exact rational value, so comparisons are exact and every
  arithmetic operation is the exact rational result rounded once. All definitions
  compute. \<open>f64\<close> and \<open>f32\<close> values share the type \<open>fl\<close>: the operations
  take the format, \<open>as f32\<close> rounds, \<open>as f64\<close> is the identity.
\<close>

section \<open>Values\<close>

datatype fl = FNaN | FPInf | FNInf | FNegZero | FNum rat

type_synonym f64 = fl
type_synonym f32 = fl

fun is_nan :: "fl \<Rightarrow> bool" where
  "is_nan FNaN = True"
| "is_nan _ = False"

fun is_finite :: "fl \<Rightarrow> bool" where
  "is_finite FNaN = False"
| "is_finite FPInf = False"
| "is_finite FNInf = False"
| "is_finite _ = True"

text \<open>The exact value of a finite number; infinities and NaN have the dummy value 0.\<close>

fun fval :: "fl \<Rightarrow> rat" where
  "fval (FNum r) = r"
| "fval _ = 0"

fun frank :: "fl \<Rightarrow> int" where
  "frank FNInf = - 1"
| "frank FPInf = 1"
| "frank _ = 0"

fun sign_neg :: "fl \<Rightarrow> bool" where
  "sign_neg FNInf = True"
| "sign_neg FNegZero = True"
| "sign_neg (FNum r) = (r < 0)"
| "sign_neg _ = False"

section \<open>Comparisons\<close>

definition flt :: "fl \<Rightarrow> fl \<Rightarrow> bool" where
  "flt a b \<longleftrightarrow> \<not> is_nan a \<and> \<not> is_nan b \<and>
     (frank a < frank b \<or> frank a = frank b \<and> fval a < fval b)"

definition fle :: "fl \<Rightarrow> fl \<Rightarrow> bool" where
  "fle a b \<longleftrightarrow> \<not> is_nan a \<and> \<not> is_nan b \<and>
     (frank a < frank b \<or> frank a = frank b \<and> fval a \<le> fval b)"

definition feq :: "fl \<Rightarrow> fl \<Rightarrow> bool" where
  "feq a b \<longleftrightarrow> \<not> is_nan a \<and> \<not> is_nan b \<and> frank a = frank b \<and> fval a = fval b"

abbreviation fgt :: "fl \<Rightarrow> fl \<Rightarrow> bool" where "fgt a b \<equiv> flt b a"
abbreviation fge :: "fl \<Rightarrow> fl \<Rightarrow> bool" where "fge a b \<equiv> fle b a"

section \<open>Rounding\<close>

record format =
  prec :: nat
  qmin :: int
  emax :: int

definition B64 :: format where "B64 = \<lparr>prec = 53, qmin = - 1074, emax = 1024\<rparr>"
definition B32 :: format where "B32 = \<lparr>prec = 24, qmin = - 149, emax = 128\<rparr>"

definition pow2 :: "int \<Rightarrow> rat" where
  "pow2 e = 2 powi e"

text \<open>\<open>ilog2 x\<close> is the binary exponent of a positive rational: \<open>pow2 (ilog2 x) \<le> x < pow2 (ilog2 x + 1)\<close>.\<close>

definition ilog2 :: "rat \<Rightarrow> int" where
  "ilog2 x = (if 1 \<le> x then bitlen \<lfloor>x\<rfloor> - 1 else - bitlen (\<lceil>1 / x\<rceil> - 1))"

text \<open>Nearest integer, ties to even.\<close>

definition rne :: "rat \<Rightarrow> int" where
  "rne x = (let f = \<lfloor>x\<rfloor>; r = x - of_int f
            in if r < 1 / 2 then f else if 1 / 2 < r then f + 1
               else if even f then f else f + 1)"

definition qexp :: "format \<Rightarrow> rat \<Rightarrow> int" where
  "qexp F x = max (ilog2 \<bar>x\<bar> - int (prec F) + 1) (qmin F)"

definition rnd :: "format \<Rightarrow> rat \<Rightarrow> rat" where
  "rnd F x = (if x = 0 then 0
              else of_int (rne (x / pow2 (qexp F x))) * pow2 (qexp F x))"

text \<open>The float nearest to \<open>x\<close>; \<open>neg\<close> is the sign of a zero result.\<close>

definition fround :: "format \<Rightarrow> bool \<Rightarrow> rat \<Rightarrow> fl" where
  "fround F neg x =
     (let r = rnd F x
      in if pow2 (emax F) \<le> r then FPInf
         else if r \<le> - pow2 (emax F) then FNInf
         else if r = 0 then (if neg then FNegZero else FNum 0)
         else FNum r)"

section \<open>Arithmetic\<close>

fun fneg :: "fl \<Rightarrow> fl" where
  "fneg FNaN = FNaN"
| "fneg FPInf = FNInf"
| "fneg FNInf = FPInf"
| "fneg FNegZero = FNum 0"
| "fneg (FNum r) = (if r = 0 then FNegZero else FNum (- r))"

fun fabs :: "fl \<Rightarrow> fl" where
  "fabs FNaN = FNaN"
| "fabs FNegZero = FNum 0"
| "fabs (FNum r) = FNum \<bar>r\<bar>"
| "fabs _ = FPInf"

definition finf :: "bool \<Rightarrow> fl" where
  "finf neg = (if neg then FNInf else FPInf)"

definition fadd :: "format \<Rightarrow> fl \<Rightarrow> fl \<Rightarrow> fl" where
  "fadd F a b =
     (if is_nan a \<or> is_nan b then FNaN
      else if \<not> is_finite a \<and> \<not> is_finite b then (if a = b then a else FNaN)
      else if \<not> is_finite a then a
      else if \<not> is_finite b then b
      else let s = fval a + fval b
           in fround F (if s = 0 then sign_neg a \<and> sign_neg b else s < 0) s)"

definition fsub :: "format \<Rightarrow> fl \<Rightarrow> fl \<Rightarrow> fl" where
  "fsub F a b = fadd F a (fneg b)"

definition fmul :: "format \<Rightarrow> fl \<Rightarrow> fl \<Rightarrow> fl" where
  "fmul F a b =
     (let neg = (sign_neg a \<noteq> sign_neg b)
      in if is_nan a \<or> is_nan b then FNaN
         else if \<not> is_finite a \<or> \<not> is_finite b
              then (if (is_finite a \<and> fval a = 0) \<or> (is_finite b \<and> fval b = 0) then FNaN
                    else finf neg)
         else fround F neg (fval a * fval b))"

definition fdiv :: "format \<Rightarrow> fl \<Rightarrow> fl \<Rightarrow> fl" where
  "fdiv F a b =
     (let neg = (sign_neg a \<noteq> sign_neg b)
      in if is_nan a \<or> is_nan b then FNaN
         else if \<not> is_finite a then (if \<not> is_finite b then FNaN else finf neg)
         else if \<not> is_finite b then (if neg then FNegZero else FNum 0)
         else if fval b = 0 then (if fval a = 0 then FNaN else finf neg)
         else fround F neg (fval a / fval b))"

text \<open>
  Square root: the integer square root of the argument scaled by \<open>4 ^ k\<close>, with a
  half added when it is not exact. With \<open>k\<close> so large that the integer root has at
  least two bits more than the format's precision, rounding that value is rounding the
  real square root.
\<close>

function isqrt_search :: "int \<Rightarrow> int \<Rightarrow> int \<Rightarrow> int" where
  "isqrt_search n lo hi =
     (if hi \<le> lo + 1 then lo
      else let m = (lo + hi) div 2
           in if m * m \<le> n then isqrt_search n m hi else isqrt_search n lo m)"
  by pat_completeness auto
termination
  by (relation "measure (\<lambda>(n, lo, hi). nat (hi - lo))") (auto simp: Let_def)

declare isqrt_search.simps [simp del]

definition isqrt :: "int \<Rightarrow> int" where
  "isqrt n = isqrt_search n 0 (n + 1)"

definition sqrt_shift :: "format \<Rightarrow> rat \<Rightarrow> nat" where
  "sqrt_shift F x = nat (int (prec F) + 2 - ilog2 x div 2)"

definition sqrt_approx :: "format \<Rightarrow> rat \<Rightarrow> rat" where
  "sqrt_approx F x =
     (let k = sqrt_shift F x; y = x * 4 ^ k; s = isqrt \<lfloor>y\<rfloor>
      in (if of_int (s * s) = y then of_int s else of_int s + 1 / 2) / 2 ^ k)"

definition fsqrt :: "format \<Rightarrow> fl \<Rightarrow> fl" where
  "fsqrt F a =
     (if is_nan a then FNaN
      else if is_finite a \<and> fval a = 0 then a
      else if sign_neg a then FNaN
      else if \<not> is_finite a then a
      else fround F False (sqrt_approx F (fval a)))"

text \<open>\<open>f64::max\<close> and \<open>min\<close> return the other operand when one is NaN.\<close>

definition fmax :: "fl \<Rightarrow> fl \<Rightarrow> fl" where
  "fmax a b = (if is_nan a then b else if is_nan b then a else if flt a b then b else a)"

definition fmin :: "fl \<Rightarrow> fl \<Rightarrow> fl" where
  "fmin a b = (if is_nan a then b else if is_nan b then a else if flt b a then b else a)"

text \<open>\<open>fclampv\<close> is the body of \<open>clamp\<close>; \<open>x.clamp(lo, hi)\<close> panics (\<open>None\<close>) unless \<open>lo \<le> hi\<close>; a NaN argument stays NaN.\<close>

definition fclampv :: "fl \<Rightarrow> fl \<Rightarrow> fl \<Rightarrow> fl" where
  "fclampv x lo hi = (if flt x lo then lo else if fgt x hi then hi else x)"

definition fclamp :: "fl \<Rightarrow> fl \<Rightarrow> fl \<Rightarrow> fl option" where
  "fclamp x lo hi = (if fle lo hi then Some (fclampv x lo hi) else None)"

section \<open>Conversions\<close>

definition of_int_fl :: "format \<Rightarrow> int \<Rightarrow> fl" where
  "of_int_fl F n = fround F False (of_int n)"

text \<open>A decimal literal of the source, rounded to the literal's type.\<close>

definition lit :: "format \<Rightarrow> rat \<Rightarrow> fl" where
  "lit F r = fround F (r < 0) r"

definition to_f32 :: "f64 \<Rightarrow> f32" where
  "to_f32 a = (case a of FNum r \<Rightarrow> fround B32 (r < 0) r | _ \<Rightarrow> a)"

text \<open>\<open>x as i64\<close> and \<open>x as usize\<close>: truncate towards zero, saturate, NaN becomes 0.\<close>

definition ftrunc :: "rat \<Rightarrow> int" where
  "ftrunc r = (if 0 \<le> r then \<lfloor>r\<rfloor> else \<lceil>r\<rceil>)"

definition cast_int :: "int \<Rightarrow> int \<Rightarrow> fl \<Rightarrow> int" where
  "cast_int lo hi a =
     (case a of FNaN \<Rightarrow> 0 | FPInf \<Rightarrow> hi | FNInf \<Rightarrow> lo | FNegZero \<Rightarrow> 0
      | FNum r \<Rightarrow> max lo (min hi (ftrunc r)))"

definition cast_i64 :: "fl \<Rightarrow> int" where
  "cast_i64 = cast_int (- (2 ^ 63)) (2 ^ 63 - 1)"

definition cast_usize :: "fl \<Rightarrow> nat" where
  "cast_usize a = nat (cast_int 0 (2 ^ 64 - 1) a)"

definition fceil :: "fl \<Rightarrow> fl" where
  "fceil a = (case a of FNum r \<Rightarrow> (if \<lceil>r\<rceil> = 0 \<and> r < 0 then FNegZero else FNum (of_int \<lceil>r\<rceil>)) | _ \<Rightarrow> a)"

text \<open>\<open>Duration::as_secs_f64\<close>: whole seconds plus the sub-second nanoseconds over \<open>1e9\<close>.\<close>

definition as_secs_f64 :: "duration \<Rightarrow> f64" where
  "as_secs_f64 d = fadd B64 (of_int_fl B64 (int (d div 10 ^ 9)))
     (fdiv B64 (of_int_fl B64 (int (d mod 10 ^ 9))) (FNum (10 ^ 9)))"

text \<open>\<open>to_radians\<close> multiplies by the rounded constant \<open>PI / 180\<close> of the type.\<close>

definition pi_fl :: "format \<Rightarrow> fl" where
  "pi_fl F = lit F (314159265358979323846264338327950288 / 10 ^ 35)"

definition to_radians :: "format \<Rightarrow> fl \<Rightarrow> fl" where
  "to_radians F a = fmul F a (fdiv F (pi_fl F) (FNum 180))"

section \<open>Rounding is monotone and exact on representable values\<close>

lemma pow2_pos [simp]: "0 < pow2 e"
  by (simp add: pow2_def)

lemma pow2_add: "pow2 (a + b) = pow2 a * pow2 b"
  by (simp add: pow2_def power_int_add)

lemma pow2_nat: "0 \<le> e \<Longrightarrow> pow2 e = of_int (2 ^ nat e)"
  by (simp add: pow2_def power_int_def)

lemma pow2_0 [simp]: "pow2 0 = 1" by (simp add: pow2_def)

lemma pow2_mono: "a \<le> b \<Longrightarrow> pow2 a \<le> pow2 b"
  by (simp add: pow2_def power_int_increasing)

lemma pow2_minus: "pow2 (- e) = 1 / pow2 e"
  by (simp add: pow2_def power_int_minus divide_inverse)

lemma pow2_less_iff: "pow2 a < pow2 b \<longleftrightarrow> a < b"
  by (metis linorder_not_le pow2_mono pow2_def power_int_strict_increasing one_less_numeral_iff semiring_norm(76))

lemma ilog2_bounds:
  assumes "0 < x" shows "pow2 (ilog2 x) \<le> x" and "x < pow2 (ilog2 x + 1)"
proof -
  have "pow2 (ilog2 x) \<le> x \<and> x < pow2 (ilog2 x + 1)"
  proof (cases "1 \<le> x")
    case True
    define n where "n = \<lfloor>x\<rfloor>"
    from True have n: "1 \<le> n" "of_int n \<le> x" "x < of_int n + 1"
      unfolding n_def by (simp_all add: le_floor_iff) linarith
    then have b: "2 ^ nat (bitlen n - 1) \<le> n" "n < 2 ^ nat (bitlen n)" "1 \<le> bitlen n"
      using bitlen_bounds [of n] bitlen_eq_zero_iff [of n] bitlen_nonneg [of n] by auto
    have "of_int (2 ^ nat (bitlen n - 1)) \<le> x" "x < of_int (2 ^ nat (bitlen n))"
    proof -
      have "(of_int (2 ^ nat (bitlen n - 1)) :: rat) \<le> of_int n"
        using b(1) by (simp only: of_int_le_iff)
      then show "of_int (2 ^ nat (bitlen n - 1)) \<le> x" using n(2) by linarith
      have "(of_int (n + 1) :: rat) \<le> of_int (2 ^ nat (bitlen n))"
        using b(2) by (simp only: of_int_le_iff)
      then show "x < of_int (2 ^ nat (bitlen n))" using n(3) by simp
    qed
    with True b(3) show ?thesis
      by (simp add: ilog2_def n_def [symmetric] pow2_nat)
  next
    case False
    define m where "m = \<lceil>1 / x\<rceil> - 1"
    from False assms have "1 < 1 / x" by simp
    then have m: "1 \<le> m" "1 / x \<le> of_int m + 1" "of_int m < 1 / x"
      unfolding m_def by (auto simp: ceiling_less_iff less_ceiling_iff) linarith+
    then have b: "2 ^ nat (bitlen m - 1) \<le> m" "m < 2 ^ nat (bitlen m)" "1 \<le> bitlen m"
      using bitlen_bounds [of m] bitlen_eq_zero_iff [of m] bitlen_nonneg [of m] by auto
    have "pow2 (bitlen m - 1) < 1 / x" "1 / x \<le> pow2 (bitlen m)"
    proof -
      have "(of_int (2 ^ nat (bitlen m - 1)) :: rat) \<le> of_int m"
        using b(1) by (simp only: of_int_le_iff)
      then have "of_int (2 ^ nat (bitlen m - 1)) < 1 / x" using m(3) by (rule le_less_trans)
      then show "pow2 (bitlen m - 1) < 1 / x" using b(3) by (simp add: pow2_nat)
      have "(of_int (m + 1) :: rat) \<le> of_int (2 ^ nat (bitlen m))"
        using b(2) by (simp only: of_int_le_iff)
      then show "1 / x \<le> pow2 (bitlen m)" using m(2) b(3) by (simp add: pow2_nat)
    qed
    then have "x < 1 / pow2 (bitlen m - 1)" "1 / pow2 (bitlen m) \<le> x"
      using assms by (simp_all add: field_simps)
    then show ?thesis using False
      by (simp add: ilog2_def m_def [symmetric] flip: pow2_minus)
  qed
  then show "pow2 (ilog2 x) \<le> x" and "x < pow2 (ilog2 x + 1)" by auto
qed

lemma rne_of_int [simp]: "rne (of_int n) = n"
  by (simp add: rne_def)

lemma rne_bounds: "\<lfloor>x\<rfloor> \<le> rne x" "rne x \<le> \<lfloor>x\<rfloor> + 1"
  by (simp_all add: rne_def Let_def)

lemma rne_mono: "x \<le> y \<Longrightarrow> rne x \<le> rne y"
proof -
  assume le: "x \<le> y"
  then have "\<lfloor>x\<rfloor> \<le> \<lfloor>y\<rfloor>" by (rule floor_mono)
  then consider "\<lfloor>x\<rfloor> < \<lfloor>y\<rfloor>" | "\<lfloor>x\<rfloor> = \<lfloor>y\<rfloor>" by linarith
  then show ?thesis
  proof cases
    case 1
    then show ?thesis using rne_bounds(2) [of x] rne_bounds(1) [of y] by linarith
  next
    case 2
    with le show ?thesis by (simp add: rne_def Let_def)
  qed
qed

lemma rne_minus: "rne (- x) = - rne x"
proof -
  define f r where "f = \<lfloor>x\<rfloor>" and "r = x - of_int f"
  then have r: "0 \<le> r" "r < 1" and x: "x = of_int f + r"
    by (simp_all add: f_def r_def) linarith
  show ?thesis
  proof (cases "r = 0")
    case True
    then show ?thesis using x by (metis add.right_neutral of_int_minus rne_of_int)
  next
    case False
    then have "\<lfloor>- x\<rfloor> = - f - 1" using r x by (simp add: floor_unique)
    moreover have "- x - of_int (- f - 1) = 1 - r" using x by simp
    ultimately show ?thesis
      by (simp add: rne_def Let_def flip: f_def r_def)
  qed
qed


text \<open>The values a format has.\<close>

definition representable :: "format \<Rightarrow> rat \<Rightarrow> bool" where
  "representable F x \<longleftrightarrow>
     (\<exists>m e. x = of_int m * pow2 e \<and> \<bar>m\<bar> < 2 ^ prec F \<and> qmin F \<le> e)"

lemma rnd_0 [simp]: "rnd F 0 = 0"
  by (simp add: rnd_def)

lemma rnd_minus: "rnd F (- x) = - rnd F x"
  by (simp add: rnd_def qexp_def rne_minus)

text \<open>A multiple of the quantum of \<open>x\<close> on one side of \<open>x\<close> stays on that side.\<close>

lemma rnd_ge_multiple:
  assumes "0 < x" and "of_int m * pow2 (qexp F x) \<le> x"
  shows "of_int m * pow2 (qexp F x) \<le> rnd F x"
proof -
  have "of_int m \<le> x / pow2 (qexp F x)"
    using assms(2) by (simp add: field_simps)
  then have "rne (of_int m) \<le> rne (x / pow2 (qexp F x))" by (rule rne_mono)
  then have "(of_int m :: rat) \<le> of_int (rne (x / pow2 (qexp F x)))"
    by (simp only: of_int_le_iff rne_of_int)
  then show ?thesis using assms(1) by (simp add: rnd_def mult_right_mono less_imp_le)
qed

lemma rnd_le_multiple:
  assumes "0 < x" and "x \<le> of_int m * pow2 (qexp F x)"
  shows "rnd F x \<le> of_int m * pow2 (qexp F x)"
proof -
  have "x / pow2 (qexp F x) \<le> of_int m"
    using assms(2) by (simp add: field_simps)
  then have "rne (x / pow2 (qexp F x)) \<le> rne (of_int m)" by (rule rne_mono)
  then have "of_int (rne (x / pow2 (qexp F x))) \<le> (of_int m :: rat)"
    by (simp only: of_int_le_iff rne_of_int)
  then show ?thesis using assms(1) by (simp add: rnd_def mult_right_mono less_imp_le)
qed

lemma pow2_split: "q \<le> e \<Longrightarrow> pow2 e = of_int (2 ^ nat (e - q)) * pow2 q"
  by (metis add.commute diff_add_cancel diff_ge_0_iff_ge pow2_add pow2_nat mult.commute)

lemma ilog2_mono: "0 < x \<Longrightarrow> x \<le> y \<Longrightarrow> ilog2 x \<le> ilog2 y"
proof -
  assume "0 < x" "x \<le> y"
  then have "pow2 (ilog2 x) < pow2 (ilog2 y + 1)"
    using ilog2_bounds(1) [of x] ilog2_bounds(2) [of y] by linarith
  then show ?thesis by (simp add: pow2_less_iff)
qed

lemma rnd_nonneg: "0 \<le> x \<Longrightarrow> 0 \<le> rnd F x"
  using rnd_ge_multiple [of x 0 F] by (cases "x = 0") auto

lemma rnd_mono_pos:
  assumes p: "1 \<le> prec F" and x: "0 < x" and le: "x \<le> y"
  shows "rnd F x \<le> rnd F y"
proof (cases "qexp F x = qexp F y")
  case True
  with x le have "rne (x / pow2 (qexp F x)) \<le> rne (y / pow2 (qexp F y))"
    by (intro rne_mono) (simp add: divide_right_mono less_imp_le)
  with x le True show ?thesis by (simp add: rnd_def mult_right_mono less_imp_le)
next
  case False
  from ilog2_mono [OF x le] have "qexp F x \<le> qexp F y"
    using x le by (simp add: qexp_def)
  with False have q: "qexp F x < qexp F y" by simp
  then have e: "ilog2 x < ilog2 y" and qy: "qexp F y = ilog2 y - int (prec F) + 1"
    using x le by (auto simp: qexp_def max_def split: if_splits)
  have qx: "qexp F x \<le> ilog2 y" and qy': "qexp F y \<le> ilog2 y"
    using q qy p by linarith+
  have "x \<le> pow2 (ilog2 y)"
    using ilog2_bounds(2) [OF x] pow2_mono [of "ilog2 x + 1" "ilog2 y"] e by simp
  then have "rnd F x \<le> pow2 (ilog2 y)"
    using rnd_le_multiple [OF x] pow2_split [OF qx] by metis
  also have "pow2 (ilog2 y) \<le> rnd F y"
    using rnd_ge_multiple [of y] ilog2_bounds(1) [of y] pow2_split [OF qy'] x le
    by (metis less_le_trans)
  finally show ?thesis .
qed

lemma rnd_mono:
  assumes "1 \<le> prec F" and "x \<le> y" shows "rnd F x \<le> rnd F y"
proof (cases "0 < x")
  case True
  then show ?thesis using assms by (intro rnd_mono_pos)
next
  case x: False
  show ?thesis
  proof (cases "0 \<le> y")
    case True
    have "0 \<le> rnd F (- x)" using x by (intro rnd_nonneg) simp
    moreover have "0 \<le> rnd F y" using True by (rule rnd_nonneg)
    ultimately show ?thesis by (simp add: rnd_minus)
  next
    case False
    then have "rnd F (- y) \<le> rnd F (- x)"
      using assms by (intro rnd_mono_pos) auto
    then show ?thesis by (simp add: rnd_minus)
  qed
qed

lemma rnd_representable_pos:
  assumes "0 < x" and "representable F x" shows "rnd F x = x"
proof -
  from assms(2) obtain m e where x: "x = of_int m * pow2 e" and m: "\<bar>m\<bar> < 2 ^ prec F"
    and e: "qmin F \<le> e" by (auto simp: representable_def)
  have "(of_int m :: rat) < of_int (2 ^ prec F)"
    using m by (simp only: of_int_less_iff)
  then have "x < pow2 (int (prec F) + e)"
    by (simp add: x pow2_add pow2_nat)
  then have "pow2 (ilog2 x) < pow2 (int (prec F) + e)"
    using ilog2_bounds(1) [OF assms(1)] by linarith
  then have q: "qexp F x \<le> e"
    using e assms(1) by (simp add: qexp_def pow2_less_iff)
  have "of_int (m * 2 ^ nat (e - qexp F x)) * pow2 (qexp F x)
      = of_int m * (of_int (2 ^ nat (e - qexp F x)) * pow2 (qexp F x))" by simp
  also have "\<dots> = of_int m * pow2 e" by (simp only: pow2_split [OF q, symmetric])
  also have "\<dots> = x" by (rule x [symmetric])
  finally have mult: "of_int (m * 2 ^ nat (e - qexp F x)) * pow2 (qexp F x) = x" .
  then show ?thesis
    using rnd_ge_multiple [OF assms(1), of "m * 2 ^ nat (e - qexp F x)" F]
      rnd_le_multiple [OF assms(1), of "m * 2 ^ nat (e - qexp F x)" F]
    unfolding mult by (intro antisym) simp_all
qed

lemma representable_minus: "representable F (- x) = representable F x"
proof -
  have "representable F (- x)" if "representable F x" for x
    using that unfolding representable_def by (metis abs_minus_cancel mult_minus_left of_int_minus)
  from this [of x] this [of "- x"] show ?thesis by auto
qed

lemma rnd_representable: "representable F x \<Longrightarrow> rnd F x = x"
proof (cases "0 < x")
  case True
  then show "representable F x \<Longrightarrow> rnd F x = x" by (rule rnd_representable_pos)
next
  case False
  assume r: "representable F x"
  show ?thesis
  proof (cases "x = 0")
    case True
    then show ?thesis by simp
  next
    case nz: False
    with False r have "rnd F (- x) = - x"
      by (intro rnd_representable_pos) (simp_all add: representable_minus)
    then show ?thesis by (simp add: rnd_minus)
  qed
qed

lemma representable_int:
  "\<bar>n\<bar> < 2 ^ prec F \<Longrightarrow> qmin F \<le> 0 \<Longrightarrow> representable F (of_int n)"
  unfolding representable_def by (intro exI [of _ n] exI [of _ 0]) simp

lemma representable_dyadic:
  "\<bar>n\<bar> < 2 ^ prec F \<Longrightarrow> qmin F \<le> - int k \<Longrightarrow> representable F (of_int n / 2 ^ k)"
  unfolding representable_def
  by (intro exI [of _ n] exI [of _ "- int k"]) (simp add: pow2_minus pow2_nat)

text \<open>
  What the components use of rounding, whatever the format: it is monotone, odd and exact
  on the representable values, so a representable bound of an exact result bounds the
  rounded one.
\<close>

locale rounding =
  fixes rd :: "rat \<Rightarrow> rat" and rep :: "rat \<Rightarrow> bool"
  assumes rd_mono: "x \<le> y \<Longrightarrow> rd x \<le> rd y"
    and rd_rep: "rep x \<Longrightarrow> rd x = x"
    and rd_minus: "rd (- x) = - rd x"
    and rep_0: "rep 0"
begin

lemma rd_zero [simp]: "rd 0 = 0" by (rule rd_rep [OF rep_0])

lemma rd_ge: "rep a \<Longrightarrow> a \<le> x \<Longrightarrow> a \<le> rd x"
  using rd_mono rd_rep by metis

lemma rd_le: "rep a \<Longrightarrow> x \<le> a \<Longrightarrow> rd x \<le> a"
  using rd_mono rd_rep by metis

lemma rd_nonneg: "0 \<le> x \<Longrightarrow> 0 \<le> rd x"
  by (rule rd_ge [OF rep_0])

lemma rd_nonpos: "x \<le> 0 \<Longrightarrow> rd x \<le> 0"
  by (rule rd_le [OF rep_0])

lemma rd_between: "rep a \<Longrightarrow> rep b \<Longrightarrow> a \<le> x \<Longrightarrow> x \<le> b \<Longrightarrow> a \<le> rd x \<and> rd x \<le> b"
  using rd_ge rd_le by blast

lemma rd_abs_le: "rep b \<Longrightarrow> \<bar>x\<bar> \<le> b \<Longrightarrow> \<bar>rd x\<bar> \<le> b"
  using rd_le [of b x] rd_le [of b "- x"] by (auto simp: rd_minus abs_le_iff)

end

interpretation b64: rounding "rnd B64" "representable B64"
  by unfold_locales
    (auto simp: B64_def rnd_representable rnd_minus
      intro: rnd_mono representable_int [of 0, simplified])

interpretation b32: rounding "rnd B32" "representable B32"
  by unfold_locales
    (auto simp: B32_def rnd_representable rnd_minus
      intro: rnd_mono representable_int [of 0, simplified])

section \<open>Comparisons of floats\<close>

lemma fl_cmp_FNum [simp, float_simps]:
  "flt (FNum a) (FNum b) \<longleftrightarrow> a < b"
  "fle (FNum a) (FNum b) \<longleftrightarrow> a \<le> b"
  "feq (FNum a) (FNum b) \<longleftrightarrow> a = b"
  by (simp_all add: flt_def fle_def feq_def)

lemma fl_cmp_NaN [simp, float_simps]:
  "\<not> flt FNaN b" "\<not> flt a FNaN" "\<not> fle FNaN b" "\<not> fle a FNaN" "\<not> feq FNaN b" "\<not> feq a FNaN"
  by (simp_all add: flt_def fle_def feq_def)

lemma fl_cmp_NegZero [simp, float_simps]:
  "flt FNegZero b = flt (FNum 0) b" "flt b FNegZero = flt b (FNum 0)"
  "fle FNegZero b = fle (FNum 0) b" "fle b FNegZero = fle b (FNum 0)"
  "feq FNegZero b = feq (FNum 0) b" "feq b FNegZero = feq b (FNum 0)"
  by (simp_all add: flt_def fle_def feq_def)

lemma fl_cmp_Inf [simp, float_simps]:
  "flt FPInf b = False" "flt (FNum a) FPInf = True" "flt FNInf (FNum a) = True" "flt b FNInf = False"
  "flt FNInf FPInf = True" "fle (FNum a) FPInf = True" "fle FPInf (FNum a) = False"
  "fle FNInf (FNum a) = True" "fle (FNum a) FNInf = False" "fle FNInf FPInf = True"
  "fle FPInf FNInf = False" "fle FPInf FPInf = True" "fle FNInf FNInf = True"
  by (cases b; simp add: flt_def fle_def)+

lemma flt_imp_fle: "flt a b \<Longrightarrow> fle a b"
  by (auto simp: flt_def fle_def)

lemma fle_trans: "fle a b \<Longrightarrow> fle b c \<Longrightarrow> fle a c"
  by (auto simp: fle_def)

lemma flt_fle_trans: "flt a b \<Longrightarrow> fle b c \<Longrightarrow> flt a c"
  by (auto simp: flt_def fle_def)

lemma fle_flt_trans: "fle a b \<Longrightarrow> flt b c \<Longrightarrow> flt a c"
  by (auto simp: flt_def fle_def)

lemma not_flt: "\<not> is_nan a \<Longrightarrow> \<not> is_nan b \<Longrightarrow> \<not> flt a b \<longleftrightarrow> fle b a"
  by (auto simp: flt_def fle_def)

lemma not_fle: "\<not> is_nan a \<Longrightarrow> \<not> is_nan b \<Longrightarrow> \<not> fle a b \<longleftrightarrow> flt b a"
  by (auto simp: flt_def fle_def)

lemma fle_flt_False: "fle a b \<Longrightarrow> \<not> flt b a"
  by (auto simp: flt_def fle_def)

lemma fle_not_nan: "fle a b \<Longrightarrow> \<not> is_nan a \<and> \<not> is_nan b"
  by (simp add: fle_def)

lemma flt_not_nan: "flt a b \<Longrightarrow> \<not> is_nan a \<and> \<not> is_nan b"
  by (simp add: flt_def)

lemma fle_refl [simp]: "fle a a \<longleftrightarrow> \<not> is_nan a"
  by (simp add: fle_def)

lemma flt_irrefl [simp]: "\<not> flt a a"
  by (simp add: flt_def)

lemma is_finite_not_nan: "is_finite a \<Longrightarrow> \<not> is_nan a"
  by (cases a) auto

lemma fle_finite: "is_finite a \<Longrightarrow> is_finite b \<Longrightarrow> fle a b \<longleftrightarrow> fval a \<le> fval b"
  by (cases a; cases b) auto

lemma flt_finite: "is_finite a \<Longrightarrow> is_finite b \<Longrightarrow> flt a b \<longleftrightarrow> fval a < fval b"
  by (cases a; cases b) auto

section \<open>Maximum and minimum\<close>

lemma is_nan_fmax [simp]: "is_nan (fmax a b) \<longleftrightarrow> is_nan a \<and> is_nan b"
  by (auto simp: fmax_def)

lemma fmax_ge_left: "\<not> is_nan a \<Longrightarrow> fle a (fmax a b)"
  by (auto simp: fmax_def intro: flt_imp_fle)

lemma fmax_ge_right: "\<not> is_nan b \<Longrightarrow> fle b (fmax a b)"
  by (auto simp: fmax_def not_flt)

lemma fmax_nonneg: "fle (FNum 0) (fmax a (FNum 0))"
  by (rule fmax_ge_right) simp

lemma fle_fmaxD: "fle (fmax a b) c \<Longrightarrow> \<not> is_nan a \<Longrightarrow> fle a c"
  using fle_trans fmax_ge_left by blast

lemma fmax_lub: "fle a c \<Longrightarrow> fle b c \<Longrightarrow> fle (fmax a b) c"
  by (auto simp: fmax_def)

lemma fmax_flt: "flt (fmax a b) c \<longleftrightarrow> (flt a c \<or> is_nan a) \<and> (flt b c \<or> is_nan b) \<and> \<not> (is_nan a \<and> is_nan b)"
  by (auto simp: fmax_def flt_def split: if_splits)

lemma fmax_zero_num [simp]: "fmax (FNum r) (FNum 0) = FNum (max r 0)"
  by (simp add: fmax_def max_def)

section \<open>Rounded results\<close>

lemma fround_not_nan [simp]: "\<not> is_nan (fround F s x)"
  by (simp add: fround_def Let_def)

lemma fround_mono:
  assumes "1 \<le> prec F" and "x \<le> y" shows "fle (fround F s x) (fround F s' y)"
proof -
  have p: "0 < pow2 (emax F)" by simp
  show ?thesis
    using rnd_mono [OF assms] p by (auto simp: fround_def Let_def)
qed

lemma fround_exact:
  "representable F x \<Longrightarrow> \<bar>x\<bar> < pow2 (emax F) \<Longrightarrow> x \<noteq> 0 \<or> \<not> s \<Longrightarrow> fround F s x = FNum x"
  by (auto simp: fround_def Let_def rnd_representable abs_less_iff)

lemma fround_zero [simp]: "fround F False 0 = FNum 0"
  by (simp add: fround_def Let_def not_le)

lemma fround_nonneg: "1 \<le> prec F \<Longrightarrow> 0 \<le> x \<Longrightarrow> fle (FNum 0) (fround F s x)"
  using fround_mono [of F 0 x False s] by simp

lemma prec_pos [simp]: "Suc 0 \<le> prec B64" "Suc 0 \<le> prec B32"
  by (simp_all add: B64_def B32_def)

lemma representable_numeral:
  "(numeral k :: int) < 2 ^ prec F \<Longrightarrow> qmin F \<le> 0 \<Longrightarrow> representable F (numeral k)"
  using representable_int [of "numeral k" F] by simp

lemma pow2_emax_gt: "(2 :: rat) ^ 64 \<le> pow2 (emax B64)" "(2 :: rat) ^ 64 \<le> pow2 (emax B32)"
  by (simp_all add: B64_def B32_def pow2_nat)

text \<open>Small integers are exact in both formats.\<close>

lemma fround_int:
  assumes "F = B64 \<or> F = B32" and "\<bar>n\<bar> < 2 ^ 24" and "n \<noteq> 0 \<or> \<not> s"
  shows "fround F s (of_int n) = FNum (of_int n)"
proof (rule fround_exact)
  show "representable F (of_int n)"
    using assms(1,2) by (intro representable_int) (auto simp: B64_def B32_def)
  have "\<bar>of_int n :: rat\<bar> < of_int (2 ^ 24)"
    using assms(2) by (simp only: of_int_abs [symmetric] of_int_less_iff)
  then show "\<bar>of_int n :: rat\<bar> < pow2 (emax F)"
    using pow2_emax_gt assms(1) by auto
qed (use assms(3) in simp)

lemma fround_numeral [simp, float_simps]:
  "numeral k < (2 ^ 24 :: int) \<Longrightarrow> fround B64 s (numeral k) = FNum (numeral k)"
  "numeral k < (2 ^ 24 :: int) \<Longrightarrow> fround B32 s (numeral k) = FNum (numeral k)"
  "numeral k < (2 ^ 24 :: int) \<Longrightarrow> fround B64 s (- numeral k) = FNum (- numeral k)"
  "numeral k < (2 ^ 24 :: int) \<Longrightarrow> fround B32 s (- numeral k) = FNum (- numeral k)"
  "fround B64 s 1 = FNum 1" "fround B32 s 1 = FNum 1"
  using fround_int [of B64 "numeral k" s] fround_int [of B32 "numeral k" s]
    fround_int [of B64 "- numeral k" s] fround_int [of B32 "- numeral k" s]
    fround_int [of B64 1 s] fround_int [of B32 1 s] by simp_all

section \<open>Addition, subtraction and multiplication\<close>

lemma is_nan_fneg [simp]: "is_nan (fneg a) = is_nan a"
  by (cases a) auto

lemma is_finite_fneg [simp]: "is_finite (fneg a) = is_finite a"
  by (cases a) auto

lemma fval_fneg [simp]: "is_finite a \<Longrightarrow> fval (fneg a) = - fval a"
  by (cases a) auto

lemma fadd_finite:
  "is_finite a \<Longrightarrow> is_finite b \<Longrightarrow> \<exists>s. fadd F a b = fround F s (fval a + fval b)"
  by (cases a; cases b) (auto simp: fadd_def Let_def simp del: fround_zero)

lemma fsub_finite:
  "is_finite a \<Longrightarrow> is_finite b \<Longrightarrow> \<exists>s. fsub F a b = fround F s (fval a - fval b)"
  using fadd_finite [of a "fneg b" F] by (simp add: fsub_def)

lemma fadd_not_nan: "is_finite a \<Longrightarrow> is_finite b \<Longrightarrow> \<not> is_nan (fadd F a b)"
  using fadd_finite [of a b F] by auto

lemma fsub_not_nan: "is_finite a \<Longrightarrow> is_finite b \<Longrightarrow> \<not> is_nan (fsub F a b)"
  using fsub_finite [of a b F] by auto

lemma fsub_nan_left [simp]: "fsub F FNaN b = FNaN"
  by (simp add: fsub_def fadd_def)

lemma fsub_nan_right [simp]: "fsub F a FNaN = FNaN"
  by (simp add: fsub_def fadd_def)

text \<open>Subtraction is monotone in its first and antitone in its second argument.\<close>

lemma fsub_mono:
  assumes "1 \<le> prec F" and "is_finite a" "is_finite a'" "is_finite b" "is_finite b'"
    and "fle a a'" and "fle b' b"
  shows "fle (fsub F a b) (fsub F a' b')"
proof -
  obtain s s' where "fsub F a b = fround F s (fval a - fval b)"
      and "fsub F a' b' = fround F s' (fval a' - fval b')"
    using fsub_finite [of a b F] fsub_finite [of a' b' F] assms by auto
  moreover have "fval a - fval b \<le> fval a' - fval b'"
    using assms by (simp add: fle_finite)
  ultimately show ?thesis using assms(1) by (simp add: fround_mono)
qed

lemma fsub_nonneg:
  assumes "1 \<le> prec F" "is_finite a" "is_finite b" "fle b a"
  shows "fle (FNum 0) (fsub F a b)"
proof -
  obtain s where "fsub F a b = fround F s (fval a - fval b)"
    using fsub_finite assms by blast
  then show ?thesis using assms by (simp add: fround_nonneg fle_finite)
qed

lemma fadd_FNum: "fadd F (FNum a) (FNum b) = fround F (a + b < 0) (a + b)"
proof (cases "a + b = 0")
  case True
  then have "\<not> (a < 0 \<and> b < 0)" by auto
  then have "fround F (a < 0 \<and> b < 0) 0 = FNum 0" by (simp only: if_False fround_zero not_False_eq_True)
  with True show ?thesis by (simp add: fadd_def)
qed (simp add: fadd_def Let_def)

lemma fsub_FNum: "fsub F (FNum a) (FNum b) = fround F (a - b < 0) (a - b)"
proof (cases "b = 0")
  case True
  then show ?thesis by (simp add: fsub_def fadd_def Let_def)
next
  case False
  then show ?thesis using fadd_FNum [of F a "- b"] by (simp add: fsub_def)
qed

lemma fmul_finite:
  "is_finite a \<Longrightarrow> is_finite b \<Longrightarrow> \<exists>s. fmul F a b = fround F s (fval a * fval b)"
  by (auto simp: fmul_def Let_def is_finite_not_nan)

lemma fmul_FNum: "fmul F (FNum a) (FNum b) = fround F ((a < 0) \<noteq> (b < 0)) (a * b)"
  by (simp add: fmul_def)

lemma fmul_not_nan: "is_finite a \<Longrightarrow> is_finite b \<Longrightarrow> \<not> is_nan (fmul F a b)"
  using fmul_finite [of a b F] by auto

lemma fmul_nonneg:
  assumes "1 \<le> prec F" "is_finite a" "is_finite b" "fle (FNum 0) a" "fle (FNum 0) b"
  shows "fle (FNum 0) (fmul F a b)"
proof -
  obtain s where "fmul F a b = fround F s (fval a * fval b)"
    using fmul_finite assms by blast
  moreover have "0 \<le> fval a * fval b"
    using assms fle_finite [of "FNum 0"] by simp
  ultimately show ?thesis using assms(1) by (simp add: fround_nonneg)
qed

lemma fmul_self_nonneg: "1 \<le> prec F \<Longrightarrow> is_finite a \<Longrightarrow> fle (FNum 0) (fmul F a a)"
  using fmul_finite [of a a F] by (auto simp: fround_nonneg)

lemma fadd_nonneg:
  assumes "1 \<le> prec F" and "fle (FNum 0) a" and "fle (FNum 0) b"
  shows "fle (FNum 0) (fadd F a b)"
proof (cases "is_finite a \<and> is_finite b")
  case True
  then obtain s where "fadd F a b = fround F s (fval a + fval b)"
    using fadd_finite by blast
  moreover have "0 \<le> fval a + fval b"
    using True assms fle_finite [of "FNum 0" a] fle_finite [of "FNum 0" b] by simp
  ultimately show ?thesis using assms(1) by (simp add: fround_nonneg)
next
  case False
  with assms show ?thesis by (cases a; cases b) (auto simp: fadd_def)
qed

lemma fdiv_finite:
  "is_finite a \<Longrightarrow> is_finite b \<Longrightarrow> fval b \<noteq> 0 \<Longrightarrow> \<exists>s. fdiv F a b = fround F s (fval a / fval b)"
  by (auto simp: fdiv_def Let_def is_finite_not_nan)

lemma fdiv_FNum:
  "b \<noteq> 0 \<Longrightarrow> fdiv F (FNum a) (FNum b) = fround F ((a < 0) \<noteq> (b < 0)) (a / b)"
  by (simp add: fdiv_def)

lemmas fl_ops_FNum [float_simps] = fadd_FNum fsub_FNum fmul_FNum fdiv_FNum

section \<open>Absolute value, square root and conversions\<close>

lemma fabs_nonneg: "\<not> is_nan a \<Longrightarrow> fle (FNum 0) (fabs a)"
  by (cases a) auto

lemma is_finite_fabs [simp]: "is_finite (fabs a) = is_finite a"
  by (cases a) auto

lemma isqrt_search_bounds:
  assumes "0 \<le> lo" "lo * lo \<le> n" "n < hi * hi" "lo < hi"
  shows "0 \<le> isqrt_search n lo hi \<and> isqrt_search n lo hi * isqrt_search n lo hi \<le> n \<and>
    n < (isqrt_search n lo hi + 1) * (isqrt_search n lo hi + 1)"
  using assms
proof (induction n lo hi rule: isqrt_search.induct)
  case (1 n lo hi)
  show ?case
  proof (cases "hi \<le> lo + 1")
    case True
    with "1.prems" have "hi = lo + 1" by simp
    with "1.prems" show ?thesis by (simp add: isqrt_search.simps [of n lo "lo + 1"])
  next
    case False
    define m where "m = (lo + hi) div 2"
    have m: "lo < m" "m < hi" "0 \<le> m" using False "1.prems" by (auto simp: m_def)
    show ?thesis
      using "1.IH" (1) [OF False m_def] "1.IH" (2) [OF False m_def] "1.prems" m False
      by (cases "m * m \<le> n") (simp_all add: isqrt_search.simps [of n lo hi] Let_def flip: m_def)
  qed
qed

lemma isqrt_bounds:
  assumes "0 \<le> n"
  shows "0 \<le> isqrt n" "isqrt n * isqrt n \<le> n" "n < (isqrt n + 1) * (isqrt n + 1)"
proof -
  have "n < (n + 1) * (n + 1)" using assms by (simp add: algebra_simps add_pos_nonneg)
  then show "0 \<le> isqrt n" "isqrt n * isqrt n \<le> n" "n < (isqrt n + 1) * (isqrt n + 1)"
    using isqrt_search_bounds [of 0 n "n + 1"] assms by (simp_all add: isqrt_def)
qed

lemma sqrt_approx_nonneg: "0 \<le> x \<Longrightarrow> 0 \<le> sqrt_approx F x"
  using isqrt_bounds(1) [of "\<lfloor>x * 4 ^ sqrt_shift F x\<rfloor>"] by (simp add: sqrt_approx_def Let_def)

lemma fsqrt_nonneg:
  "1 \<le> prec F \<Longrightarrow> fle (FNum 0) a \<Longrightarrow> fle (FNum 0) (fsqrt F a)"
  by (cases a) (auto simp: fsqrt_def sqrt_approx_nonneg fround_nonneg)

lemma is_nan_fsqrt: "is_nan (fsqrt F a) \<longleftrightarrow> is_nan a \<or> flt a (FNum 0)"
  by (cases a) (auto simp: fsqrt_def)

lemma is_nan_to_f32 [simp]: "is_nan (to_f32 a) = is_nan a"
  by (cases a) (auto simp: to_f32_def)

lemma fle_Inf [simp]: "\<not> is_nan a \<Longrightarrow> fle a FPInf" "\<not> is_nan a \<Longrightarrow> fle FNInf a"
  by (cases a; simp)+

lemma to_f32_mono: "fle a b \<Longrightarrow> fle (to_f32 a) (to_f32 b)"
  by (cases a; cases b) (auto simp: to_f32_def fround_mono fround_nonneg
      intro: fround_mono [of B32 _ 0 _ False, simplified])

lemma to_f32_nonneg: "fle (FNum 0) a \<Longrightarrow> fle (FNum 0) (to_f32 a)"
  using to_f32_mono [of "FNum 0" a] by (simp add: to_f32_def)

section \<open>Interval reasoning\<close>

text \<open>
  A finite float whose value lies in a closed interval. With representable bounds the
  interval rules of exact arithmetic hold for the rounded operations.
\<close>

definition fin_in :: "rat \<Rightarrow> rat \<Rightarrow> fl \<Rightarrow> bool" where
  "fin_in a b x \<longleftrightarrow> is_finite x \<and> a \<le> fval x \<and> fval x \<le> b"

definition bound_ok :: "format \<Rightarrow> rat \<Rightarrow> bool" where
  "bound_ok F a \<longleftrightarrow> representable F a \<and> \<bar>a\<bar> < pow2 (emax F)"

lemma fin_in_FNum [simp]: "fin_in a b (FNum r) \<longleftrightarrow> a \<le> r \<and> r \<le> b"
  by (simp add: fin_in_def)

lemma fin_in_finite: "fin_in a b x \<Longrightarrow> is_finite x"
  by (simp add: fin_in_def)

lemma fin_in_weaken: "fin_in a b x \<Longrightarrow> a' \<le> a \<Longrightarrow> b \<le> b' \<Longrightarrow> fin_in a' b' x"
  by (auto simp: fin_in_def)

lemma fin_in_fle: "fin_in a b x \<Longrightarrow> c \<le> a \<Longrightarrow> fle (FNum c) x"
  by (cases x) (auto simp: fin_in_def)

lemma fround_in:
  assumes "1 \<le> prec F" "bound_ok F a" "bound_ok F b" "a \<le> x" "x \<le> b"
  shows "fin_in a b (fround F s x)"
proof -
  have "a \<le> rnd F x" "rnd F x \<le> b"
    using rnd_mono [OF assms(1) assms(4)] rnd_mono [OF assms(1) assms(5)] assms(2,3)
    by (simp_all add: bound_ok_def rnd_representable)
  then show ?thesis
    using assms(2,3) by (auto simp: fin_in_def fround_def Let_def bound_ok_def)
qed

lemma fadd_in:
  assumes "1 \<le> prec F" "fin_in a b x" "fin_in c d y" "bound_ok F (a + c)" "bound_ok F (b + d)"
  shows "fin_in (a + c) (b + d) (fadd F x y)"
proof -
  obtain s where eq: "fadd F x y = fround F s (fval x + fval y)"
    using fadd_finite assms(2,3) fin_in_finite by blast
  show ?thesis unfolding eq using assms(2,3)
    by (intro fround_in assms(1,4,5)) (auto simp: fin_in_def)
qed

lemma fsub_in:
  assumes "1 \<le> prec F" "fin_in a b x" "fin_in c d y" "bound_ok F (a - d)" "bound_ok F (b - c)"
  shows "fin_in (a - d) (b - c) (fsub F x y)"
proof -
  obtain s where eq: "fsub F x y = fround F s (fval x - fval y)"
    using fsub_finite assms(2,3) fin_in_finite by blast
  show ?thesis unfolding eq using assms(2,3)
    by (intro fround_in assms(1,4,5)) (auto simp: fin_in_def)
qed

lemma fmul_in_pos:
  assumes "1 \<le> prec F" "fin_in a b x" "fin_in c d y" "0 \<le> a" "0 \<le> c"
    "lo \<le> a * c" "b * d \<le> hi" "bound_ok F lo" "bound_ok F hi"
  shows "fin_in lo hi (fmul F x y)"
proof -
  obtain s where eq: "fmul F x y = fround F s (fval x * fval y)"
    using fmul_finite assms(2,3) fin_in_finite by blast
  have "a * c \<le> fval x * fval y" "fval x * fval y \<le> b * d"
    using assms by (auto simp: fin_in_def intro!: mult_mono)
  then show ?thesis unfolding eq using assms by (intro fround_in) auto
qed

lemma fmax_in: "fin_in a b x \<Longrightarrow> fin_in a' b' y \<Longrightarrow> fin_in (max a a') (max b b') (fmax x y)"
  by (cases x; cases y) (auto simp: fin_in_def fmax_def)

lemma bound_ok_int:
  assumes "F = B64 \<or> F = B32" and "\<bar>n\<bar> < 2 ^ 24"
  shows "bound_ok F (of_int n)"
proof -
  have "\<bar>of_int n :: rat\<bar> < of_int (2 ^ 24)"
    using assms(2) by (simp only: of_int_abs [symmetric] of_int_less_iff)
  then have "\<bar>of_int n :: rat\<bar> < pow2 (emax F)"
    using pow2_emax_gt assms(1) by auto
  moreover have "representable F (of_int n)"
    using assms by (intro representable_int) (auto simp: B64_def B32_def)
  ultimately show ?thesis by (simp add: bound_ok_def)
qed

lemma bound_ok_dyadic:
  assumes "F = B64 \<or> F = B32" and "\<bar>n\<bar> < 2 ^ 24" and "k \<le> 100"
  shows "bound_ok F (of_int n / 2 ^ k)"
proof -
  have "\<bar>of_int n :: rat\<bar> < of_int (2 ^ 24)"
    using assms(2) by (simp only: of_int_abs [symmetric] of_int_less_iff)
  moreover have "\<bar>of_int n / 2 ^ k :: rat\<bar> \<le> \<bar>of_int n\<bar> / 1"
    unfolding abs_divide by (intro divide_left_mono) simp_all
  ultimately have "\<bar>of_int n / 2 ^ k :: rat\<bar> < 2 ^ 24" by simp
  then have "\<bar>of_int n / 2 ^ k :: rat\<bar> < pow2 (emax F)"
    using pow2_emax_gt assms(1) by auto
  moreover have "representable F (of_int n / 2 ^ k)"
    using assms by (intro representable_dyadic) (auto simp: B64_def B32_def)
  ultimately show ?thesis by (simp add: bound_ok_def)
qed

lemma representable_rnd:
  assumes p: "1 \<le> prec F" shows "representable F (rnd F x)"
proof -
  have pos: "representable F (rnd F x)" if x: "0 < x" for x
  proof -
    define q m where "q = qexp F x" and "m = rne (x / pow2 q)"
    have eq: "rnd F x = of_int m * pow2 q" using x by (simp add: rnd_def q_def m_def)
    have q: "qmin F \<le> q" and q': "ilog2 x + 1 \<le> int (prec F) + q"
      using x by (simp_all add: q_def qexp_def)
    have "x / pow2 q \<le> of_int (2 ^ prec F)"
    proof -
      have "x < pow2 (int (prec F) + q)"
        using ilog2_bounds(2) [OF x] pow2_mono [OF q'] by linarith
      then show ?thesis by (simp add: pow2_add pow2_nat field_simps)
    qed
    then have "m \<le> 2 ^ prec F" using rne_mono [of "x / pow2 q" "of_int (2 ^ prec F)"]
      unfolding rne_of_int m_def by blast
    moreover have "0 \<le> m" using rne_mono [of "of_int 0" "x / pow2 q"] x unfolding m_def rne_of_int by (simp add: less_imp_le)
    ultimately consider "\<bar>m\<bar> < 2 ^ prec F" | "m = 2 ^ prec F" by linarith
    then show ?thesis
    proof cases
      case 1
      then show ?thesis unfolding representable_def using eq q by blast
    next
      case 2
      have "rnd F x = of_int (2 ^ (prec F - 1)) * pow2 (q + 1)"
        using p by (simp add: eq 2 pow2_add pow2_nat power_eq_if [of 2 "prec F"])
      moreover have "\<bar>2 ^ (prec F - 1) :: int\<bar> < 2 ^ prec F" using p by simp
      ultimately show ?thesis unfolding representable_def using q by fastforce
    qed
  qed
  consider "x = 0" | "0 < x" | "0 < - x" by linarith
  then show ?thesis
  proof cases
    case 1
    have "representable F (of_int 0 * pow2 (qmin F))"
      unfolding representable_def by (intro exI [of _ 0] exI [of _ "qmin F"]) simp
    with 1 show ?thesis by simp
  next
    case 2
    then show ?thesis by (rule pos)
  next
    case 3
    then have "representable F (rnd F (- x))" by (rule pos)
    then show ?thesis by (simp add: rnd_minus representable_minus)
  qed
qed

lemma fround_bound_ok:
  "1 \<le> prec F \<Longrightarrow> is_finite (fround F s x) \<Longrightarrow> bound_ok F (fval (fround F s x))"
  using representable_rnd [of F x] representable_rnd [of F 0]
  by (auto simp: fround_def Let_def bound_ok_def abs_less_iff split: if_splits)

lemma clamp_unit: "\<not> is_nan x \<Longrightarrow> fin_in 0 1 (fclampv x (FNum 0) (FNum 1))"
  by (cases x) (auto simp: fclampv_def fin_in_def)

lemma fdiv_not_nan: "is_finite a \<Longrightarrow> fgt b (FNum 0) \<Longrightarrow> \<not> is_nan (fdiv F a b)"
  by (cases a; cases b) (auto simp: fdiv_def finf_def Let_def)

lemma finite_between: "fle (FNum 0) x \<Longrightarrow> fle x y \<Longrightarrow> is_finite y \<Longrightarrow> is_finite x"
  by (cases x; cases y) auto

section \<open>Values of a format\<close>

definition in_format :: "format \<Rightarrow> fl \<Rightarrow> bool" where
  "in_format F a \<longleftrightarrow> (is_finite a \<longrightarrow> bound_ok F (fval a))"

lemma in_format_fround [simp]: "1 \<le> prec F \<Longrightarrow> in_format F (fround F s x)"
  by (simp add: in_format_def fround_bound_ok)

lemma in_format_fadd [simp]: "1 \<le> prec F \<Longrightarrow> in_format F (fadd F a b)"
proof (cases "is_finite a \<and> is_finite b")
  case True
  moreover assume "1 \<le> prec F"
  moreover obtain s where "fadd F a b = fround F s (fval a + fval b)" using True fadd_finite by blast
  ultimately show ?thesis by simp
next
  case False
  then show ?thesis by (auto simp: fadd_def in_format_def)
qed

text \<open>Adding something that is not negative does not decrease.\<close>

lemma fadd_ge_left:
  assumes p: "1 \<le> prec F" and f: "in_format F a" and a: "\<not> is_nan a" "a \<noteq> FNInf" and b: "fle (FNum 0) b"
  shows "fle a (fadd F a b)"
proof (cases "is_finite a \<and> is_finite b")
  case True
  then obtain s where e: "fadd F a b = fround F s (fval a + fval b)" using fadd_finite by blast
  have "0 \<le> fval b" using b True by (simp add: fle_finite)
  then have "fle (fround F False (fval a)) (fadd F a b)" using p by (simp add: e fround_mono)
  moreover have "fround F False (fval a) = FNum (fval a)"
    using f True by (intro fround_exact) (simp_all add: in_format_def bound_ok_def)
  ultimately show ?thesis using True by (cases a) (auto simp: e)
next
  case False
  then show ?thesis using a b by (cases a; cases b) (auto simp: fadd_def)
qed

lemma fsub_antimono:
  assumes "1 \<le> prec F" "is_finite t" "is_finite a" "fle a s"
  shows "fle (fsub F t s) (fsub F t a)"
proof (cases "is_finite s")
  case True
  then show ?thesis using assms by (intro fsub_mono) (simp_all add: is_finite_not_nan)
next
  case False
  then have "s = FPInf" using assms(3,4) by (cases s; cases a) auto
  then show ?thesis using assms(2) fsub_not_nan [OF assms(2,3)] by (auto simp: fsub_def fadd_def is_finite_not_nan)
qed

end
