(* ===== verification/Monitor.thy ===== *)
theory Monitor
  imports Bounded_Map Floats
begin

text \<open>
  The autopilot monitor, \<open>src/src/mav/monitor.rs\<close>: what the listener has recorded about
  the connected autopilot. The fields are atomics that other tasks read while the listener
  writes, so \<open>record_heartbeat\<close> is given as the list of its stores, and a concurrent
  reader may run between any two of them. The two mutex-protected maps are the receipt
  maps of \<open>Bounded_Map\<close>.
\<close>

section \<open>Autopilot modes\<close>

datatype vehicle_profile = ArduCopter | Px4

definition ARDUCOPTER_MODE_RTL :: u32 where "ARDUCOPTER_MODE_RTL = 6"
definition ARDUCOPTER_MODE_SMART_RTL :: u32 where "ARDUCOPTER_MODE_SMART_RTL = 21"
definition ARDUCOPTER_MODE_LAND :: u32 where "ARDUCOPTER_MODE_LAND = 9"
definition PX4_MAIN_MODE_AUTO :: u8 where "PX4_MAIN_MODE_AUTO = 4"
definition PX4_SUB_MODE_AUTO_RTL :: u8 where "PX4_SUB_MODE_AUTO_RTL = 5"
definition PX4_SUB_MODE_AUTO_LAND :: u8 where "PX4_SUB_MODE_AUTO_LAND = 6"
definition PX4_SUB_MODE_AUTO_RTGS :: u8 where "PX4_SUB_MODE_AUTO_RTGS = 7"
definition PX4_SUB_MODE_AUTO_DESCEND :: u8 where "PX4_SUB_MODE_AUTO_DESCEND = 20"

definition px4_split_mode :: "u32 \<Rightarrow> u8 \<times> u8" where
  "px4_split_mode custom_mode =
     (ucast (drop_bit 16 custom_mode AND 0xFF), ucast (drop_bit 24 custom_mode AND 0xFF))"

definition px4_encode_mode :: "u8 \<Rightarrow> u8 \<Rightarrow> u32" where
  "px4_encode_mode main sub = push_bit 24 (ucast sub) OR push_bit 16 (ucast main)"

definition profile_display :: "vehicle_profile \<Rightarrow> string" where
  "profile_display p = (case p of ArduCopter \<Rightarrow> ''ardu-copter'' | Px4 \<Rightarrow> ''px4'')"

text \<open>The error of \<open>from_str\<close> carries the rejected text.\<close>

definition profile_from_str :: "string \<Rightarrow> string + vehicle_profile" where
  "profile_from_str s =
     (if s \<in> {''ardu-copter'', ''ardu_copter'', ''arducopter''} then Inr ArduCopter
      else if s \<in> {''px4'', ''px4-copter'', ''px4-fixed-wing'', ''px4-rover''} then Inr Px4
      else Inl s)"

definition is_rtl_mode :: "vehicle_profile \<Rightarrow> u32 \<Rightarrow> bool" where
  "is_rtl_mode p custom_mode =
     (case p of
        ArduCopter \<Rightarrow> custom_mode \<in> {ARDUCOPTER_MODE_RTL, ARDUCOPTER_MODE_SMART_RTL, ARDUCOPTER_MODE_LAND}
      | Px4 \<Rightarrow> (let (main, sub) = px4_split_mode custom_mode
          in main = PX4_MAIN_MODE_AUTO \<and>
             sub \<in> {PX4_SUB_MODE_AUTO_RTL, PX4_SUB_MODE_AUTO_LAND, PX4_SUB_MODE_AUTO_RTGS,
                    PX4_SUB_MODE_AUTO_DESCEND}))"

definition MAV_MODE_FLAG_SAFETY_ARMED :: u8 where "MAV_MODE_FLAG_SAFETY_ARMED = 0x80"
definition MAV_MODE_FLAG_CUSTOM_MODE_ENABLED :: u8 where "MAV_MODE_FLAG_CUSTOM_MODE_ENABLED = 0x01"
definition MAV_AUTOPILOT_ARDUPILOTMEGA :: u8 where "MAV_AUTOPILOT_ARDUPILOTMEGA = 3"
definition MAV_AUTOPILOT_PX4 :: u8 where "MAV_AUTOPILOT_PX4 = 12"

definition expected_autopilot_byte :: "vehicle_profile \<Rightarrow> u8" where
  "expected_autopilot_byte p =
     (case p of ArduCopter \<Rightarrow> MAV_AUTOPILOT_ARDUPILOTMEGA | Px4 \<Rightarrow> MAV_AUTOPILOT_PX4)"

section \<open>State\<close>

record param_echo =
  echo_value :: f32
  param_type :: u8
  recv_ns :: u64
  recv_count :: u64

text \<open>A socket address: the IP address, for IPv6 the flow label and scope, and the port.\<close>

record socket_addr =
  sa_ip :: nat
  sa_scope :: nat
  sa_port :: u16

record mav_monitor =
  last_heartbeat_ns :: u64
  current_custom_mode :: u32
  mode_changed_at_ns :: u64
  heartbeat_ever :: bool
  current_base_mode :: u8
  current_autopilot :: u8
  system_status :: u8
  last_ack_packed :: u32
  last_ack_ns :: u64
  acks_by_cmd :: "(u16 \<times> (u16 \<times> u64)) list"
  params_by_name :: "(u8 list \<times> param_echo) list"
  locked_source :: "socket_addr option"

definition monitor_new :: mav_monitor where
  "monitor_new = \<lparr>last_heartbeat_ns = 0, current_custom_mode = 0, mode_changed_at_ns = 0,
     heartbeat_ever = False, current_base_mode = 0, current_autopilot = 0, system_status = 0,
     last_ack_packed = 0, last_ack_ns = 0, acks_by_cmd = [], params_by_name = [], locked_source = None\<rparr>"

section \<open>Operations\<close>

text \<open>The fields of a HEARTBEAT that the monitor records, with the receipt time.\<close>

record heartbeat =
  hb_now :: instant
  hb_custom_mode :: u32
  hb_base_mode :: u8
  hb_system_status :: u8
  hb_autopilot :: u8

definition since_boot_ns :: "instant \<Rightarrow> instant \<Rightarrow> u64" where
  "since_boot_ns now boot = nanos_u64 (saturating_duration_since now boot)"

text \<open>The stores of \<open>record_heartbeat\<close> in program order; the last two are the conditional store and the swap.\<close>

definition heartbeat_stores :: "instant \<Rightarrow> heartbeat \<Rightarrow> bool \<Rightarrow> (mav_monitor \<Rightarrow> mav_monitor) list" where
  "heartbeat_stores boot hb mode_changed =
     (let ns = since_boot_ns (hb_now hb) boot
      in [(\<lambda>m. m\<lparr>last_heartbeat_ns := ns\<rparr>),
          (\<lambda>m. m\<lparr>current_custom_mode := hb_custom_mode hb\<rparr>),
          (\<lambda>m. m\<lparr>current_base_mode := hb_base_mode hb\<rparr>),
          (\<lambda>m. m\<lparr>system_status := hb_system_status hb\<rparr>),
          (\<lambda>m. m\<lparr>current_autopilot := hb_autopilot hb\<rparr>),
          (\<lambda>m. if mode_changed then m\<lparr>mode_changed_at_ns := ns\<rparr> else m),
          (\<lambda>m. m\<lparr>heartbeat_ever := True\<rparr>)])"

definition record_heartbeat :: "instant \<Rightarrow> heartbeat \<Rightarrow> mav_monitor \<Rightarrow> bool \<times> mav_monitor" where
  "record_heartbeat boot hb m =
     (let mode_changed = (current_custom_mode m \<noteq> hb_custom_mode hb);
          was_first = (\<not> heartbeat_ever m)
      in (mode_changed \<or> was_first, fold (\<lambda>st. st) (heartbeat_stores boot hb mode_changed) m))"

definition is_armed :: "mav_monitor \<Rightarrow> bool" where
  "is_armed m \<longleftrightarrow> current_base_mode m AND MAV_MODE_FLAG_SAFETY_ARMED \<noteq> 0"

definition record_ack :: "instant \<Rightarrow> instant \<Rightarrow> u16 \<Rightarrow> u16 \<Rightarrow> mav_monitor \<Rightarrow> mav_monitor" where
  "record_ack now boot command result m =
     (let packed = push_bit 16 (ucast command) OR ucast result;
          ns = since_boot_ns now boot
      in m\<lparr>last_ack_packed := packed, last_ack_ns := ns,
           acks_by_cmd := receipt_put snd command (result, ns) (acks_by_cmd m)\<rparr>)"

definition last_ack :: "mav_monitor \<Rightarrow> (u16 \<times> u16) option" where
  "last_ack m =
     (let packed = last_ack_packed m
      in if packed = 0 then None
         else Some (ucast (drop_bit 16 packed), ucast (packed AND 0xFFFF)))"

definition last_ack_for_cmd :: "mav_monitor \<Rightarrow> u16 \<Rightarrow> (u16 \<times> u64) option" where
  "last_ack_for_cmd m command = map_of (acks_by_cmd m) command"

definition param_name :: "u8 list \<Rightarrow> u8 list" where
  "param_name param_id = takeWhile (\<lambda>b. b \<noteq> 0) param_id"

definition record_param_value ::
    "instant \<Rightarrow> instant \<Rightarrow> u8 list \<Rightarrow> f32 \<Rightarrow> u8 \<Rightarrow> mav_monitor \<Rightarrow> mav_monitor" where
  "record_param_value now boot param_id value ty m =
     (let ns = since_boot_ns now boot;
          name = param_name param_id
      in if name = [] then m
         else let prior = (case map_of (params_by_name m) name of Some e \<Rightarrow> recv_count e | None \<Rightarrow> 0);
                  entry = \<lparr>echo_value = value, param_type = ty, recv_ns = ns,
                           recv_count = saturating_add prior 1\<rparr>
              in m\<lparr>params_by_name := receipt_put recv_ns name entry (params_by_name m)\<rparr>)"

definition last_param_value :: "mav_monitor \<Rightarrow> u8 list \<Rightarrow> param_echo option" where
  "last_param_value m name = map_of (params_by_name m) name"

definition heartbeat_fresh :: "mav_monitor \<Rightarrow> instant \<Rightarrow> instant \<Rightarrow> u64 \<Rightarrow> bool" where
  "heartbeat_fresh m now boot staleness_ns \<longleftrightarrow>
     heartbeat_ever m \<and> saturating_sub (since_boot_ns now boot) (last_heartbeat_ns m) \<le> staleness_ns"

definition check_or_lock_source ::
    "socket_addr \<Rightarrow> u16 option \<Rightarrow> mav_monitor \<Rightarrow> bool \<times> mav_monitor" where
  "check_or_lock_source src expected_port m =
     (case locked_source m of
        Some locked \<Rightarrow> (locked = src, m)
      | None \<Rightarrow>
          (case expected_port of
             Some want \<Rightarrow>
               (if sa_port src \<noteq> want then (False, m) else (True, m\<lparr>locked_source := Some src\<rparr>))
           | None \<Rightarrow> (True, m\<lparr>locked_source := Some src\<rparr>)))"

section \<open>The receipt maps\<close>

interpretation acks: receipt_map "receipt_put (snd :: u16 \<times> u64 \<Rightarrow> u64)" map_of receipt_ok snd
  by (rule receipt_map_list)

interpretation params: receipt_map "receipt_put recv_ns" map_of receipt_ok "recv_ns :: param_echo \<Rightarrow> u64"
  by (rule receipt_map_list)

section \<open>Heartbeats and a concurrent reader\<close>

text \<open>
  The monitor after a list of heartbeats, and at the point inside the next one after its
  first \<open>k\<close> stores: every state a concurrent reader can load from.
\<close>

fun after_heartbeats :: "instant \<Rightarrow> heartbeat list \<Rightarrow> mav_monitor \<Rightarrow> mav_monitor" where
  "after_heartbeats boot [] m = m"
| "after_heartbeats boot (hb # hbs) m = after_heartbeats boot hbs (snd (record_heartbeat boot hb m))"

definition monitor_at :: "instant \<Rightarrow> heartbeat list \<Rightarrow> nat \<Rightarrow> nat \<Rightarrow> mav_monitor" where
  "monitor_at boot hbs i k =
     (let m = after_heartbeats boot (take i hbs) monitor_new; hb = hbs ! i
      in fold (\<lambda>st. st) (take k (heartbeat_stores boot hb (current_custom_mode m \<noteq> hb_custom_mode hb))) m)"

abbreviation hb_ns :: "instant \<Rightarrow> heartbeat \<Rightarrow> u64" where
  "hb_ns boot hb \<equiv> since_boot_ns (hb_now hb) boot"

lemma after_heartbeats_append:
  "after_heartbeats boot (xs @ ys) m = after_heartbeats boot ys (after_heartbeats boot xs m)"
  by (induction xs arbitrary: m) simp_all

lemma after_heartbeats_Suc:
  "i < length hbs \<Longrightarrow> after_heartbeats boot (take (Suc i) hbs) m
     = snd (record_heartbeat boot (hbs ! i) (after_heartbeats boot (take i hbs) m))"
  by (simp add: take_Suc_conv_app_nth after_heartbeats_append)

lemma record_heartbeat_sel [simp]:
  "current_custom_mode (snd (record_heartbeat boot hb m)) = hb_custom_mode hb"
  "last_heartbeat_ns (snd (record_heartbeat boot hb m)) = hb_ns boot hb"
  "current_base_mode (snd (record_heartbeat boot hb m)) = hb_base_mode hb"
  "mode_changed_at_ns (snd (record_heartbeat boot hb m))
     = (if current_custom_mode m \<noteq> hb_custom_mode hb then hb_ns boot hb else mode_changed_at_ns m)"
  "acks_by_cmd (snd (record_heartbeat boot hb m)) = acks_by_cmd m"
  "params_by_name (snd (record_heartbeat boot hb m)) = params_by_name m"
  "locked_source (snd (record_heartbeat boot hb m)) = locked_source m"
  by (simp_all add: record_heartbeat_def heartbeat_stores_def Let_def)

lemma take_stores: "k \<le> 7 \<Longrightarrow> k \<in> {0, 1, 2, 3, 4, 5, 6, 7}" for k :: nat
  by auto

text \<open>A reader sees the mode of a heartbeat from its second store on, the change time from its sixth on.\<close>

lemma monitor_at_mode:
  assumes "i < length hbs" and "k \<le> 7"
  shows "current_custom_mode (monitor_at boot hbs i k)
    = current_custom_mode (after_heartbeats boot (take (if 2 \<le> k then Suc i else i) hbs) monitor_new)"
  using take_stores [OF assms(2)] assms(1)
  by (auto simp: monitor_at_def heartbeat_stores_def Let_def after_heartbeats_Suc numeral_eq_Suc)

lemma monitor_at_changed:
  assumes "i < length hbs" and "k \<le> 7"
  shows "mode_changed_at_ns (monitor_at boot hbs i k)
    = mode_changed_at_ns (after_heartbeats boot (take (if 6 \<le> k then Suc i else i) hbs) monitor_new)"
  using take_stores [OF assms(2)] assms(1)
  by (auto simp: monitor_at_def heartbeat_stores_def Let_def after_heartbeats_Suc numeral_eq_Suc)

lemma hb_ns_mono:
  assumes "sorted (map hb_now hbs)" and "\<forall>h \<in> set hbs. hb_now h - boot < 2 ^ 64"
    and "a \<le> b" and "b < length hbs"
  shows "hb_ns boot (hbs ! a) \<le> hb_ns boot (hbs ! b)"
proof -
  have "hb_now (hbs ! a) \<le> hb_now (hbs ! b)" using assms(1,3,4) by (simp add: sorted_iff_nth_mono)
  moreover have "hb_now (hbs ! a) - boot < 2 ^ 64" "hb_now (hbs ! b) - boot < 2 ^ 64"
    using assms(2,3,4) by (meson le_less_trans nth_mem)+
  ultimately show ?thesis
    by (simp add: since_boot_ns_def saturating_duration_since_def word_le_nat_alt unat_nanos_u64)
qed

text \<open>The recorded change time only grows.\<close>

lemma changed_is_recent:
  assumes "sorted (map hb_now hbs)" and "\<forall>h \<in> set hbs. hb_now h - boot < 2 ^ 64" and "i < length hbs"
  shows "mode_changed_at_ns (after_heartbeats boot (take i hbs) monitor_new) \<le> hb_ns boot (hbs ! i)"
  using assms(3)
proof (induction i)
  case (Suc i)
  then show ?case
    using hb_ns_mono [OF assms(1,2), of i "Suc i"] by (auto simp: after_heartbeats_Suc intro: order_trans)
qed (simp add: monitor_new_def)

lemma changed_mono:
  assumes "sorted (map hb_now hbs)" and "\<forall>h \<in> set hbs. hb_now h - boot < 2 ^ 64"
    and "i \<le> j" and "j \<le> length hbs"
  shows "mode_changed_at_ns (after_heartbeats boot (take i hbs) monitor_new)
    \<le> mode_changed_at_ns (after_heartbeats boot (take j hbs) monitor_new)"
  using assms(3,4)
proof (induction j rule: dec_induct)
  case (step n)
  then show ?case
    using changed_is_recent [OF assms(1,2), of n] by (auto simp: after_heartbeats_Suc)
qed simp

lemma changed_by_heartbeat:
  assumes "j \<le> length hbs" and "sent < mode_changed_at_ns (after_heartbeats boot (take j hbs) monitor_new)"
  shows "\<exists>n < j. sent < hb_ns boot (hbs ! n)
    \<and> hb_custom_mode (hbs ! n) = current_custom_mode (after_heartbeats boot (take j hbs) monitor_new)
    \<and> current_custom_mode (after_heartbeats boot (take n hbs) monitor_new) \<noteq> hb_custom_mode (hbs ! n)"
  using assms
proof (induction j)
  case (Suc j)
  then show ?case
    by (cases "current_custom_mode (after_heartbeats boot (take j hbs) monitor_new) \<noteq> hb_custom_mode (hbs ! j)")
      (auto simp: after_heartbeats_Suc less_Suc_eq)
qed (simp add: monitor_new_def)

section \<open>Properties\<close>

text \<open>
  Encoding and splitting a PX4 mode are inverse: the split of an encoded pair is the
  pair, and a mode word whose reserved low half is zero is the encoding of its split. So
  every encoded pair with main mode AUTO and one of the four landing-class sub modes, and
  no other encoded pair, counts as return-to-launch for PX4.
\<close>

theorem px4_mode_roundtrip:
  "px4_split_mode (px4_encode_mode main sub) = (main, sub)
   \<and> px4_encode_mode (fst (px4_split_mode w)) (snd (px4_split_mode w)) = w AND 0xFFFF0000
   \<and> (is_rtl_mode Px4 (px4_encode_mode main sub) \<longleftrightarrow> main = 4 \<and> sub \<in> {5, 6, 7, 20})"
proof -
  have m: "(0xFF :: u32) = mask 8" "(0xFFFF0000 :: u32) = push_bit 16 (mask 16)"
    by (simp_all add: mask_eq_exp_minus_1 push_bit_eq_mult)
  have beyond: "\<not> bit main (8 + n)" for n using bit_imp_le_length [of main "8 + n"] by auto
  have shifted: "24 + (n - 24) = (if 24 \<le> n then n else 24)" for n :: nat by simp
  have split: "px4_split_mode (px4_encode_mode main sub) = (main, sub)"
    unfolding px4_split_mode_def px4_encode_mode_def m
    by (auto intro!: bit_word_eqI simp: bit_simps beyond)
  moreover have "px4_encode_mode (fst (px4_split_mode w)) (snd (px4_split_mode w)) = w AND 0xFFFF0000"
    unfolding px4_split_mode_def px4_encode_mode_def m
    by (rule bit_word_eqI) (auto simp: bit_simps shifted split: if_splits)
  moreover have "is_rtl_mode Px4 (px4_encode_mode main sub) \<longleftrightarrow> main = 4 \<and> sub \<in> {5, 6, 7, 20}"
    by (simp add: is_rtl_mode_def split PX4_MAIN_MODE_AUTO_def PX4_SUB_MODE_AUTO_RTL_def
        PX4_SUB_MODE_AUTO_LAND_def PX4_SUB_MODE_AUTO_RTGS_def PX4_SUB_MODE_AUTO_DESCEND_def)
  ultimately show ?thesis by blast
qed

text \<open>
  C11. The causality gate is sound under every interleaving of the reader with the
  listener: the controller loads the change time first and the mode afterwards, possibly
  in the middle of \<open>record_heartbeat\<close>. When the change time it saw is after its send
  time, the mode it saw is the mode of a heartbeat that was received after the send and
  that changed the mode.
\<close>

theorem torn_read_is_causal:
  assumes "sorted (map hb_now hbs)" and "\<forall>h \<in> set hbs. hb_now h - boot < 2 ^ 64"
    and "j < length hbs" and "k \<le> 7" and "l \<le> 7" and "i < j \<or> i = j \<and> k \<le> l"
    and "sent < mode_changed_at_ns (monitor_at boot hbs i k)"
  shows "\<exists>n \<le> j. sent < since_boot_ns (hb_now (hbs ! n)) boot
    \<and> hb_custom_mode (hbs ! n) = current_custom_mode (monitor_at boot hbs j l)
    \<and> current_custom_mode (after_heartbeats boot (take n hbs) monitor_new) \<noteq> hb_custom_mode (hbs ! n)"
proof -
  define i' j' where "i' = (if 6 \<le> k then Suc i else i)" and "j' = (if 2 \<le> l then Suc j else j)"
  have le: "i' \<le> j'" "j' \<le> length hbs" "j' \<le> Suc j"
    using assms(3,6) by (auto simp: i'_def j'_def)
  have "sent < mode_changed_at_ns (after_heartbeats boot (take i' hbs) monitor_new)"
    using assms(3-7) monitor_at_changed [of i hbs k boot] by (auto simp: i'_def)
  then have "sent < mode_changed_at_ns (after_heartbeats boot (take j' hbs) monitor_new)"
    using changed_mono [OF assms(1,2) le(1,2)] by (rule less_le_trans)
  from changed_by_heartbeat [OF le(2) this] obtain n where "n < j'" "sent < hb_ns boot (hbs ! n)"
    "hb_custom_mode (hbs ! n) = current_custom_mode (after_heartbeats boot (take j' hbs) monitor_new)"
    "current_custom_mode (after_heartbeats boot (take n hbs) monitor_new) \<noteq> hb_custom_mode (hbs ! n)" by blast
  then show ?thesis
    using monitor_at_mode [OF assms(3,5), of boot] le(3) by (intro exI [of _ n]) (auto simp: j'_def)
qed

definition hb_rtl :: "instant \<Rightarrow> heartbeat" where
  "hb_rtl t = \<lparr>hb_now = t, hb_custom_mode = 6, hb_base_mode = 0x80, hb_system_status = 4, hb_autopilot = 3\<rparr>"

theorem torn_read_is_causal_witness:
  "\<exists>n \<le> 1. (50 :: u64) < since_boot_ns (hb_now ([hb_rtl 60, hb_rtl 70] ! n)) 0
    \<and> hb_custom_mode ([hb_rtl 60, hb_rtl 70] ! n) = current_custom_mode (monitor_at 0 [hb_rtl 60, hb_rtl 70] 1 1)
    \<and> current_custom_mode (after_heartbeats 0 (take n [hb_rtl 60, hb_rtl 70]) monitor_new)
        \<noteq> hb_custom_mode ([hb_rtl 60, hb_rtl 70] ! n)"
  by (rule torn_read_is_causal [where i = 0 and k = 6])
    (simp_all add: hb_rtl_def monitor_at_def heartbeat_stores_def monitor_new_def since_boot_ns_def
      saturating_duration_since_def nanos_u64_def)

section \<open>What the listener can do to the monitor\<close>

datatype mon_op =
    MonHeartbeat heartbeat
  | MonAck instant u16 u16
  | MonParam instant "u8 list" f32 u8
  | MonSource socket_addr "u16 option"

fun mon_apply :: "instant \<Rightarrow> mon_op \<Rightarrow> mav_monitor \<Rightarrow> mav_monitor" where
  "mon_apply boot (MonHeartbeat hb) m = snd (record_heartbeat boot hb m)"
| "mon_apply boot (MonAck now c r) m = record_ack now boot c r m"
| "mon_apply boot (MonParam now pid x ty) m = record_param_value now boot pid x ty m"
| "mon_apply boot (MonSource src port) m = snd (check_or_lock_source src port m)"

definition mon_run :: "instant \<Rightarrow> mon_op list \<Rightarrow> mav_monitor \<Rightarrow> mav_monitor" where
  "mon_run boot ops m = fold (mon_apply boot) ops m"

lemma mon_run_simps [simp]:
  "mon_run boot [] m = m" "mon_run boot (op # ops) m = mon_run boot ops (mon_apply boot op m)"
  "mon_run boot (xs @ ys) m = mon_run boot ys (mon_run boot xs m)"
  by (simp_all add: mon_run_def)

definition mon_ok :: "mav_monitor \<Rightarrow> bool" where
  "mon_ok m \<longleftrightarrow> receipt_ok (acks_by_cmd m) \<and> receipt_ok (params_by_name m)"

lemma mon_ok_new: "mon_ok monitor_new"
  by (simp add: mon_ok_def monitor_new_def receipt_ok_def)

lemma check_or_lock_frame [simp, mon_frame]:
  "acks_by_cmd (snd (check_or_lock_source src port m)) = acks_by_cmd m"
  "params_by_name (snd (check_or_lock_source src port m)) = params_by_name m"
  by (auto simp: check_or_lock_source_def split: option.splits)

lemma record_ack_frame [simp, mon_frame]:
  "params_by_name (record_ack now boot c r m) = params_by_name m"
  "locked_source (record_ack now boot c r m) = locked_source m"
  "acks_by_cmd (record_ack now boot c r m) = receipt_put snd c (r, since_boot_ns now boot) (acks_by_cmd m)"
  by (simp_all add: record_ack_def Let_def)

lemma record_param_frame [simp, mon_frame]:
  "acks_by_cmd (record_param_value now boot pid x ty m) = acks_by_cmd m"
  "locked_source (record_param_value now boot pid x ty m) = locked_source m"
  by (simp_all add: record_param_value_def Let_def)

lemma mon_ok_apply: "mon_ok m \<Longrightarrow> mon_ok (mon_apply boot op m)"
  by (cases op) (auto simp: mon_ok_def receipt_ok_put record_param_value_def Let_def)

lemma mon_ok_run: "mon_ok m \<Longrightarrow> mon_ok (mon_run boot ops m)"
  unfolding mon_run_def by (rule fold_preserves) (simp_all add: mon_ok_apply)

definition ack_entry :: "instant \<Rightarrow> mon_op \<Rightarrow> (u16 \<times> (u16 \<times> u64)) option" where
  "ack_entry boot op = (case op of MonAck now c r \<Rightarrow> Some (c, (r, since_boot_ns now boot)) | _ \<Rightarrow> None)"

lemma acks_of_run: "acks_by_cmd (mon_run boot ops m) = acks.puts (List.map_filter (ack_entry boot) ops) (acks_by_cmd m)"
proof (induction ops arbitrary: m)
  case (Cons op ops)
  then show ?case by (cases op) (simp_all add: ack_entry_def List.map_filter_simps)
qed (simp add: List.map_filter_simps)

text \<open>The receipt count of a parameter, and how it grows.\<close>

definition echo_count :: "mav_monitor \<Rightarrow> u8 list \<Rightarrow> u64" where
  "echo_count m name = (case last_param_value m name of Some e \<Rightarrow> recv_count e | None \<Rightarrow> 0)"

definition is_echo_of :: "u8 list \<Rightarrow> mon_op \<Rightarrow> bool" where
  "is_echo_of name op = (case op of MonParam now pid x ty \<Rightarrow> param_name pid = name | _ \<Rightarrow> False)"

lemma record_param_look:
  assumes "mon_ok m"
  shows "last_param_value (record_param_value now boot pid x ty m) name \<in>
    {None, if param_name pid = name \<and> name \<noteq> []
           then Some \<lparr>echo_value = x, param_type = ty, recv_ns = since_boot_ns now boot,
                      recv_count = saturating_add (echo_count m name) 1\<rparr>
           else last_param_value m name}"
proof -
  define v where "v = \<lparr>echo_value = x, param_type = ty, recv_ns = since_boot_ns now boot,
      recv_count = saturating_add (echo_count m (param_name pid)) 1\<rparr>"
  have "receipt_ok (params_by_name m)" using assms by (simp add: mon_ok_def)
  note p = receipt_look_put [OF this, of recv_ns "param_name pid" v name]
  have "record_param_value now boot pid x ty m =
      (if param_name pid = [] then m else m\<lparr>params_by_name := receipt_put recv_ns (param_name pid) v (params_by_name m)\<rparr>)"
    by (simp add: record_param_value_def v_def echo_count_def last_param_value_def Let_def)
  with p show ?thesis by (auto simp: last_param_value_def v_def)
qed

lemma echo_count_apply:
  assumes "mon_ok m"
  shows "unat (echo_count (mon_apply boot op m) name) \<le> unat (echo_count m name) + (if is_echo_of name op then 1 else 0)"
proof (cases op)
  case (MonParam now pid x ty)
  then show ?thesis
    using record_param_look [OF assms, of now boot pid x ty name]
    by (auto simp: echo_count_def is_echo_of_def unat_saturating_add split: if_splits)
qed (auto simp: echo_count_def last_param_value_def is_echo_of_def)

lemma echo_count_run:
  assumes "mon_ok m"
  shows "unat (echo_count (mon_run boot ops m) name) \<le> unat (echo_count m name) + length (filter (is_echo_of name) ops)"
  using assms
proof (induction ops arbitrary: m)
  case (Cons op ops)
  then show ?case using echo_count_apply [OF Cons.prems, of boot op name] Cons.IH [OF mon_ok_apply [OF Cons.prems], of boot op]
    by (auto split: if_splits)
qed simp

text \<open>The recorded echo is the latest one.\<close>

lemma last_param_run:
  assumes "mon_ok m" and "name \<noteq> []" and "last_param_value m name = None" and "last_param_value (mon_run boot ops m) name = Some e"
  shows "\<exists>us now pid vs. ops = us @ MonParam now pid (echo_value e) (param_type e) # vs \<and> param_name pid = name
     \<and> recv_ns e = since_boot_ns now boot \<and> filter (is_echo_of name) vs = []"
  using assms
proof (induction ops rule: rev_induct)
  case (snoc op ops)
  let ?m = "mon_run boot ops m"
  have ok: "mon_ok ?m" using mon_ok_run [OF snoc.prems(1)] .
  have last: "last_param_value (mon_apply boot op ?m) name = Some e" using snoc.prems(4) by simp
  show ?case
  proof (cases "is_echo_of name op \<and> name \<noteq> []")
    case True
    then obtain now pid x ty where op: "op = MonParam now pid x ty" "param_name pid = name"
      by (auto simp: is_echo_of_def split: mon_op.splits)
    then have "echo_value e = x \<and> param_type e = ty \<and> recv_ns e = since_boot_ns now boot"
      using last True record_param_look [OF ok, of now boot pid x ty name] by auto
    with op show ?thesis by (intro exI [of _ ops] exI [of _ now] exI [of _ pid] exI [of _ "[]"]) simp
  next
    case False
    have "last_param_value ?m name = Some e"
    proof (cases op)
      case (MonParam now pid x ty)
      then show ?thesis
        using last False record_param_look [OF ok, of now boot pid x ty name]
        by (auto simp: is_echo_of_def split: if_splits)
    qed (use last in \<open>auto simp: last_param_value_def\<close>)
    with snoc obtain us now pid vs where "ops = us @ MonParam now pid (echo_value e) (param_type e) # vs"
      "param_name pid = name" "recv_ns e = since_boot_ns now boot" "filter (is_echo_of name) vs = []" by blast
    then show ?thesis using False snoc.prems(2)
      by (intro exI [of _ us] exI [of _ now] exI [of _ pid] exI [of _ "vs @ [op]"]) simp
  qed
qed simp

text \<open>
  The acknowledgement the verifier looks up is the latest one for that command,
  whatever other traffic the listener records, and the map never holds more than 64
  commands: after any sequence of recordings, an answer for a command is the result and
  receipt time of an acknowledgement of it, and no later acknowledgement of it followed.
\<close>

theorem ack_lookup_latest:
  assumes "last_ack_for_cmd (mon_run boot ops monitor_new) c = Some (res, ns)"
  shows "(\<exists>us now vs. ops = us @ MonAck now c res # vs \<and> ns = since_boot_ns now boot
      \<and> (\<forall>now' res'. MonAck now' c res' \<notin> set vs))
    \<and> length (acks_by_cmd (mon_run boot ops monitor_new)) \<le> 64"
proof
  have "map_of (acks.puts (List.map_filter (ack_entry boot) ops) []) c = Some (res, ns)"
    using assms acks_of_run [of boot ops monitor_new] by (simp add: last_ack_for_cmd_def monitor_new_def)
  then obtain bs cs where b: "List.map_filter (ack_entry boot) ops = bs @ (c, (res, ns)) # cs" "c \<notin> fst ` set cs"
    using acks.look_puts_latest [of "[]" c "List.map_filter (ack_entry boot) ops"] by (auto simp: receipt_ok_def)
  from map_filter_eq_append_Cons [OF b(1)] obtain us x vs where
    s: "ops = us @ x # vs" "ack_entry boot x = Some (c, (res, ns))" "List.map_filter (ack_entry boot) vs = cs" by blast
  from s(2) obtain now where x: "x = MonAck now c res" "ns = since_boot_ns now boot"
    by (auto simp: ack_entry_def split: mon_op.splits)
  have "MonAck now' c res' \<notin> set vs" for now' res'
  proof
    assume "MonAck now' c res' \<in> set vs"
    then have "(c, (res', since_boot_ns now' boot)) \<in> set cs"
      unfolding s(3) [symmetric] List.map_filter_def by (force simp: ack_entry_def)
    then show False using b(2) by force
  qed
  then show "\<exists>us now vs. ops = us @ MonAck now c res # vs \<and> ns = since_boot_ns now boot
      \<and> (\<forall>now' res'. MonAck now' c res' \<notin> set vs)"
    using s(1) x by blast
  show "length (acks_by_cmd (mon_run boot ops monitor_new)) \<le> 64"
    using mon_ok_run [OF mon_ok_new, of boot ops] by (simp add: mon_ok_def receipt_ok_def RECEIPT_CAP_def)
qed

definition ack_traffic :: "mon_op list" where
  "ack_traffic = [MonAck 10 20 4, MonHeartbeat (hb_rtl 15), MonAck 20 20 0, MonAck 30 176 0]"

theorem ack_lookup_latest_witness:
  "(\<exists>us now vs. ack_traffic = us @ MonAck now 20 0 # vs \<and> since_boot_ns 20 0 = since_boot_ns now 0
      \<and> (\<forall>now' res'. MonAck now' 20 res' \<notin> set vs))
    \<and> length (acks_by_cmd (mon_run 0 ack_traffic monitor_new)) \<le> 64"
  by (rule ack_lookup_latest)
    (simp add: ack_traffic_def last_ack_for_cmd_def receipt_put_def evict_oldest_def RECEIPT_CAP_def monitor_new_def)

lemma locked_run: "locked_source m = Some src \<Longrightarrow> locked_source (mon_run boot ops m) = Some src"
  unfolding mon_run_def
proof (rule fold_preserves)
  fix op and m :: mav_monitor assume "locked_source m = Some src"
  then show "locked_source (mon_apply boot op m) = Some src"
    by (cases op) (simp_all add: check_or_lock_source_def)
qed

text \<open>
  The endpoint lock is permanent: once a source has been accepted, whatever the
  listener does afterwards the lock names that source, and a later packet is accepted
  exactly when it comes from it. With a configured port, the first accepted source has
  that port.
\<close>

theorem source_lock_permanent:
  assumes "check_or_lock_source src port m = (True, m')"
  shows "locked_source (mon_run boot ops m') = Some src
    \<and> (fst (check_or_lock_source src2 port2 (mon_run boot ops m')) \<longleftrightarrow> src2 = src)
    \<and> (locked_source m = None \<longrightarrow> port \<noteq> None \<longrightarrow> port = Some (sa_port src))"
proof -
  have "locked_source m' = Some src" "locked_source m = None \<longrightarrow> port \<noteq> None \<longrightarrow> port = Some (sa_port src)"
    using assms by (auto simp: check_or_lock_source_def split: option.splits if_splits)
  then show ?thesis using locked_run [of m' src boot ops] by (auto simp: check_or_lock_source_def)
qed

theorem source_lock_permanent_witness:
  "locked_source (mon_run 0 [MonSource \<lparr>sa_ip = 2, sa_scope = 0, sa_port = 14550\<rparr> None]
      (monitor_new\<lparr>locked_source := Some \<lparr>sa_ip = 1, sa_scope = 0, sa_port = 14550\<rparr>\<rparr>)) = Some \<lparr>sa_ip = 1, sa_scope = 0, sa_port = 14550\<rparr>"
  using source_lock_permanent [of "\<lparr>sa_ip = 1, sa_scope = 0, sa_port = 14550\<rparr>" "Some 14550" monitor_new
      "monitor_new\<lparr>locked_source := Some \<lparr>sa_ip = 1, sa_scope = 0, sa_port = 14550\<rparr>\<rparr>" 0]
  by (simp add: check_or_lock_source_def monitor_new_def)

text \<open>
  Every vehicle profile is read back from its printed form, and the heartbeat byte
  expected for a profile determines the profile.
\<close>

lemma profile_roundtrip:
  "profile_from_str (profile_display p) = Inr p
   \<and> (expected_autopilot_byte p = expected_autopilot_byte q \<longleftrightarrow> p = q)"
  by (cases p; cases q) (simp_all add: profile_from_str_def profile_display_def expected_autopilot_byte_def
      MAV_AUTOPILOT_ARDUPILOTMEGA_def MAV_AUTOPILOT_PX4_def)

end
