(* ===== verification/Types.thy ===== *)
theory Types
  imports Floats
begin

text \<open>
  The data every component shares: \<open>src/src/types.rs\<close> and \<open>src/src/error.rs\<close>.
  The enum of detector states carries the order of severity, Normal, Suspicious, Spoofed.
  The payload of an event, one constructor of \<open>detail\<close> per place of the code that builds one,
  is in \<open>Fusion\<close>.
\<close>

section \<open>Timestamps and sensor samples\<close>

record timestamp =
  mono :: instant
  utc :: "int option"

definition at_mono :: "instant \<Rightarrow> timestamp" where
  "at_mono m = \<lparr>mono = m, utc = None\<rparr>"

definition with_utc :: "timestamp \<Rightarrow> int \<Rightarrow> timestamp" where
  "with_utc t u = t\<lparr>utc := Some u\<rparr>"

definition elapsed_since :: "timestamp \<Rightarrow> timestamp \<Rightarrow> duration" where
  "elapsed_since t earlier = saturating_duration_since (mono t) (mono earlier)"

record gps_fix =
  fix_t :: timestamp
  lat_deg :: f64
  lon_deg :: f64
  alt_m :: f64
  speed_mps :: "f64 option"
  course_deg :: "f64 option"
  hdop :: "f32 option"
  sats :: "u8 option"

text \<open>Three-component arrays \<open>[f32; 3]\<close> and \<open>[f64; 3]\<close>.\<close>

record vec3 =
  v0 :: fl
  v1 :: fl
  v2 :: fl

definition vec3_zero :: vec3 where
  "vec3_zero = \<lparr>v0 = FNum 0, v1 = FNum 0, v2 = FNum 0\<rparr>"

definition vec3_map :: "(fl \<Rightarrow> fl) \<Rightarrow> vec3 \<Rightarrow> vec3" where
  "vec3_map f a = \<lparr>v0 = f (v0 a), v1 = f (v1 a), v2 = f (v2 a)\<rparr>"

definition vec3_map2 :: "(fl \<Rightarrow> fl \<Rightarrow> fl) \<Rightarrow> vec3 \<Rightarrow> vec3 \<Rightarrow> vec3" where
  "vec3_map2 f a b = \<lparr>v0 = f (v0 a) (v0 b), v1 = f (v1 a) (v1 b), v2 = f (v2 a) (v2 b)\<rparr>"

definition vec3_finite :: "vec3 \<Rightarrow> bool" where
  "vec3_finite a \<longleftrightarrow> is_finite (v0 a) \<and> is_finite (v1 a) \<and> is_finite (v2 a)"

record imu_sample =
  imu_t :: timestamp
  accel_mps2 :: vec3
  gyro_rps :: vec3

section \<open>Local tangent-plane vectors\<close>

text \<open>\<open>NedPos\<close> and \<open>NedVel\<close> have the same three fields.\<close>

record ned =
  ned_n :: f64
  ned_e :: f64
  ned_d :: f64

type_synonym ned_pos = ned
type_synonym ned_vel = ned

definition ned_default :: ned where
  "ned_default = \<lparr>ned_n = FNum 0, ned_e = FNum 0, ned_d = FNum 0\<rparr>"

definition ned_sub :: "ned \<Rightarrow> ned \<Rightarrow> ned" where
  "ned_sub a b = \<lparr>ned_n = fsub B64 (ned_n a) (ned_n b), ned_e = fsub B64 (ned_e a) (ned_e b),
     ned_d = fsub B64 (ned_d a) (ned_d b)\<rparr>"

definition ned_add :: "ned \<Rightarrow> ned \<Rightarrow> ned" where
  "ned_add a b = \<lparr>ned_n = fadd B64 (ned_n a) (ned_n b), ned_e = fadd B64 (ned_e a) (ned_e b),
     ned_d = fadd B64 (ned_d a) (ned_d b)\<rparr>"

definition horizontal_norm :: "ned \<Rightarrow> f64" where
  "horizontal_norm p =
     fsqrt B64 (fadd B64 (fmul B64 (ned_n p) (ned_n p)) (fmul B64 (ned_e p) (ned_e p)))"

section \<open>Detector states and event kinds\<close>

datatype nav_state_kind = Normal | Suspicious | Spoofed

instantiation nav_state_kind :: linorder
begin

definition severity :: "nav_state_kind \<Rightarrow> nat" where
  "severity s = (case s of Normal \<Rightarrow> 0 | Suspicious \<Rightarrow> 1 | Spoofed \<Rightarrow> 2)"

definition less_eq_nav_state_kind :: "nav_state_kind \<Rightarrow> nav_state_kind \<Rightarrow> bool" where
  "less_eq_nav_state_kind a b \<longleftrightarrow> severity a \<le> severity b"

definition less_nav_state_kind :: "nav_state_kind \<Rightarrow> nav_state_kind \<Rightarrow> bool" where
  "less_nav_state_kind a b \<longleftrightarrow> severity a < severity b"

instance
  by standard
    (auto simp: less_eq_nav_state_kind_def less_nav_state_kind_def severity_def
      split: nav_state_kind.splits)

end

lemma nav_state_kind_less [simp]:
  "Normal < Suspicious" "Suspicious < Spoofed" "Normal < Spoofed"
  "Normal \<le> s" "s \<le> Spoofed"
  by (cases s; simp add: less_eq_nav_state_kind_def less_nav_state_kind_def severity_def)+

datatype spoof_kind =
    KJump | KDrift | KStateTransition | KSyncWarning | KActionFailed | KActionAcked
  | KActionUnconfirmed | KLinkDown | KLinkRestored | KPilotModeChange | KBootAnchorRejected
  | KPreflightFailed | KPreflightPassed | KDwellPauseExceeded | KFrozenGps
  | KForensicDumpWritten | KForensicDumpFailed | KForensicDumpSuppressed

section \<open>Errors\<close>

datatype detect_error = BufferEmpty | GpsOutsideBuffer int

datatype nav_error = NotInitialized | NonFinite string

datatype action_error = AlreadyEngaged | SinkWrite string

datatype ingest_error = NmeaParse string | I2c string | SourceEnded

datatype fs_error =
    FsIngest ingest_error | FsNav nav_error | FsDetect detect_error | FsAction action_error
  | ChannelClosed | FsConfig string | FsIo string | FsJson string

section \<open>Lemmas\<close>

lemma horizontal_norm_nonneg:
  assumes "is_finite (ned_n p)" and "is_finite (ned_e p)"
  shows "fle (FNum 0) (horizontal_norm p)"
  unfolding horizontal_norm_def
  by (intro fsqrt_nonneg fadd_nonneg fmul_self_nonneg assms) simp_all

end
