(* ===== verification/Controller.thy ===== *)
theory Controller
  imports Monitor Types
begin

text \<open>
  The flight controllers: the trait \<open>FlightController\<close> of \<open>src/src/action/mod.rs\<close>
  as a locale, the console controller (\<open>src/src/action/console.rs\<close>) and the MAVLink
  controller (\<open>src/src/mav/controller.rs\<close>) as its interpretations. The MAVLink controller
  reads the monitor that the listener writes concurrently: a poll of a read-back loop is
  given with the monitor state each of its loads sees and the clock at its deadline test.
  The outcome of sending a datagram is an input.
\<close>

section \<open>MAVLink messages and constants\<close>

datatype mav_cmd = MAV_CMD_NAV_RETURN_TO_LAUNCH | MAV_CMD_DO_SET_MODE
datatype mav_param_type = MAV_PARAM_TYPE_INT8 | MAV_PARAM_TYPE_INT32

text \<open>\<open>CommandLong\<close> has the target, the command and its first three parameters; the code sends zero for the other four and for \<open>confirmation\<close>.\<close>

datatype mav_message =
    CommandLong u8 u8 mav_cmd f32 f32 f32
  | ParamSet u8 u8 "u8 list" f32 mav_param_type

definition MAV_RESULT_ACCEPTED :: u16 where "MAV_RESULT_ACCEPTED = 0"
definition MAV_CMD_NAV_RETURN_TO_LAUNCH_ID :: u16 where "MAV_CMD_NAV_RETURN_TO_LAUNCH_ID = 20"
definition MAV_CMD_DO_SET_MODE_ID :: u16 where "MAV_CMD_DO_SET_MODE_ID = 176"
definition COMMAND_REPEAT :: nat where "COMMAND_REPEAT = 3"
definition COMMAND_SPACING :: duration where "COMMAND_SPACING = 100 * 10 ^ 6"
definition RTB_VERIFY_WINDOW :: duration where "RTB_VERIFY_WINDOW = 10 * 10 ^ 9"
definition RTB_VERIFY_POLL :: duration where "RTB_VERIFY_POLL = 200 * 10 ^ 6"
definition RTB_VERIFY_DWELL_POLLS :: u8 where "RTB_VERIFY_DWELL_POLLS = 3"
definition SEVER_VERIFY_WINDOW :: duration where "SEVER_VERIFY_WINDOW = 3 * 10 ^ 9"
definition SEVER_VERIFY_POLL :: duration where "SEVER_VERIFY_POLL = 150 * 10 ^ 6"
definition SEVER_CONFIRMED_EPS :: f32 where "SEVER_CONFIRMED_EPS = lit B32 (1 / 2)"
definition SEVER_VERIFY_DWELL_ECHOES :: u8 where "SEVER_VERIFY_DWELL_ECHOES = 2"

definition bytes :: "string \<Rightarrow> u8 list" where
  "bytes s = map (\<lambda>c. word_of_nat (of_char c)) s"

definition sever_gps_param :: "vehicle_profile \<Rightarrow> u8 list \<times> mav_param_type" where
  "sever_gps_param p =
     (case p of ArduCopter \<Rightarrow> (bytes ''GPS_TYPE'', MAV_PARAM_TYPE_INT8)
              | Px4 \<Rightarrow> (bytes ''EKF2_GPS_CTRL'', MAV_PARAM_TYPE_INT32))"

definition sever_echo_confirms :: "param_echo \<Rightarrow> u64 \<Rightarrow> u64 \<Rightarrow> u8 \<Rightarrow> bool" where
  "sever_echo_confirms echo sent_at baseline_count expected_ty \<longleftrightarrow>
     (let causal = (sent_at < recv_ns echo);
          typed_zero = (flt (fabs (echo_value echo)) SEVER_CONFIRMED_EPS \<and> param_type echo = expected_ty);
          dwell_met = (ucast SEVER_VERIFY_DWELL_ECHOES \<le> saturating_sub (recv_count echo) baseline_count)
      in causal \<and> typed_zero \<and> dwell_met)"

section \<open>The MAVLink controller\<close>

record mav_controller =
  link_boot :: instant
  target_system :: u8
  target_component :: u8
  profile :: vehicle_profile
  rtb_sent_at_ns :: u64
  sever_sent_at_ns :: u64
  sever_echo_baseline :: u64

definition mav_new :: "instant \<Rightarrow> u8 \<Rightarrow> u8 \<Rightarrow> vehicle_profile \<Rightarrow> mav_controller" where
  "mav_new boot sys cmp p = \<lparr>link_boot = boot, target_system = sys, target_component = cmp,
     profile = p, rtb_sent_at_ns = 0, sever_sent_at_ns = 0, sever_echo_baseline = 0\<rparr>"

definition now_ns :: "mav_controller \<Rightarrow> instant \<Rightarrow> u64" where
  "now_ns c now = since_boot_ns now (link_boot c)"

definition f32_of_u8 :: "u8 \<Rightarrow> f32" where
  "f32_of_u8 w = FNum (of_nat (unat w))"

definition engage_rtb_message :: "mav_controller \<Rightarrow> mav_message" where
  "engage_rtb_message c =
     (case profile c of
        ArduCopter \<Rightarrow> CommandLong (target_system c) (target_component c) MAV_CMD_NAV_RETURN_TO_LAUNCH
          (FNum 0) (FNum 0) (FNum 0)
      | Px4 \<Rightarrow> CommandLong (target_system c) (target_component c) MAV_CMD_DO_SET_MODE
          (f32_of_u8 MAV_MODE_FLAG_CUSTOM_MODE_ENABLED) (f32_of_u8 PX4_MAIN_MODE_AUTO)
          (f32_of_u8 PX4_SUB_MODE_AUTO_RTL))"

text \<open>
  \<open>send_repeated\<close>: \<open>send n\<close> is the outcome of the \<open>n\<close>-th attempt. The loop carries
  the last error and the number of successes; the result comes with the messages handed
  to the link.
\<close>

definition send_attempt ::
    "(nat \<Rightarrow> fs_error + unit) \<Rightarrow> nat \<Rightarrow> fs_error option \<times> nat \<Rightarrow> fs_error option \<times> nat" where
  "send_attempt send n = (\<lambda>(last_err, succeeded).
     case send n of Inr _ \<Rightarrow> (last_err, succeeded + 1) | Inl e \<Rightarrow> (Some e, succeeded))"

definition send_repeated ::
    "(nat \<Rightarrow> fs_error + unit) \<Rightarrow> mav_message \<Rightarrow> (fs_error + unit) \<times> mav_message list" where
  "send_repeated send msg =
     (let (last_err, succeeded) = fold (send_attempt send) [1..<COMMAND_REPEAT + 1] (None, 0)
      in (if 0 < succeeded then Inr ()
          else Inl (case last_err of Some e \<Rightarrow> e | None \<Rightarrow> FsIo ''no send attempted''),
          replicate COMMAND_REPEAT msg))"

text \<open>\<open>copy_from_slice\<close> into the first \<open>name.len()\<close> of sixteen zero bytes; it panics when the name is longer.\<close>

definition param_id_of :: "u8 list \<Rightarrow> u8 list option" where
  "param_id_of name = (if length name \<le> 16 then Some (name @ replicate (16 - length name) 0) else None)"

definition mav_sever_gps ::
    "(nat \<Rightarrow> fs_error + unit) \<Rightarrow> instant \<Rightarrow> mav_monitor \<Rightarrow> mav_controller
     \<Rightarrow> ((fs_error + unit) \<times> mav_message list \<times> mav_controller) option" where
  "mav_sever_gps send now m c =
     (let (name, ty) = sever_gps_param (profile c);
          echo_baseline = (case last_param_value m name of Some e \<Rightarrow> recv_count e | None \<Rightarrow> 0);
          c1 = c\<lparr>sever_echo_baseline := echo_baseline, sever_sent_at_ns := now_ns c now\<rparr>
      in case param_id_of name of
           None \<Rightarrow> None
         | Some param_id \<Rightarrow>
             (let (r, sent) = send_repeated send
                (ParamSet (target_system c) (target_component c) param_id (FNum 0) ty)
              in Some (r, sent, c1)))"

definition mav_reset :: "mav_controller \<Rightarrow> (fs_error + unit) \<times> mav_controller" where
  "mav_reset c = (Inr (), c\<lparr>rtb_sent_at_ns := 0, sever_sent_at_ns := 0, sever_echo_baseline := 0\<rparr>)"

definition mav_engage_rtb ::
    "(nat \<Rightarrow> fs_error + unit) \<Rightarrow> instant \<Rightarrow> mav_controller
     \<Rightarrow> (fs_error + unit) \<times> mav_message list \<times> mav_controller" where
  "mav_engage_rtb send now c =
     (let c1 = c\<lparr>rtb_sent_at_ns := now_ns c now\<rparr>;
          (r, sent) = send_repeated send (engage_rtb_message c)
      in (r, sent, c1))"

text \<open>One poll of the RTL read-back: the monitor at each load, in the order of the loads, and the clock.\<close>

record rtb_poll =
  p_ack :: mav_monitor
  p_changed :: mav_monitor
  p_mode :: mav_monitor
  p_armed :: mav_monitor
  p_hb :: mav_monitor
  p_now :: instant

definition expected_ack_cmd :: "vehicle_profile \<Rightarrow> u16" where
  "expected_ack_cmd p =
     (case p of ArduCopter \<Rightarrow> MAV_CMD_NAV_RETURN_TO_LAUNCH_ID | Px4 \<Rightarrow> MAV_CMD_DO_SET_MODE_ID)"

definition ack_ok :: "vehicle_profile \<Rightarrow> u64 \<Rightarrow> rtb_poll \<Rightarrow> bool" where
  "ack_ok p sent_at poll =
     (case last_ack_for_cmd (p_ack poll) (expected_ack_cmd p) of
        Some (result, ns) \<Rightarrow> sent_at < ns \<and> result = MAV_RESULT_ACCEPTED
      | None \<Rightarrow> False)"

definition mode_is_rtl :: "vehicle_profile \<Rightarrow> rtb_poll \<Rightarrow> bool" where
  "mode_is_rtl p poll = is_rtl_mode p (current_custom_mode (p_mode poll))"

definition causal_mode :: "vehicle_profile \<Rightarrow> u64 \<Rightarrow> rtb_poll \<Rightarrow> bool" where
  "causal_mode p sent_at poll \<longleftrightarrow>
     sent_at < mode_changed_at_ns (p_changed poll) \<and> mode_is_rtl p poll \<and> is_armed (p_armed poll)"

definition poll_hb :: "rtb_poll \<Rightarrow> u64" where
  "poll_hb poll = last_heartbeat_ns (p_hb poll)"

definition next_dwell :: "vehicle_profile \<Rightarrow> u64 \<Rightarrow> rtb_poll \<Rightarrow> u8 \<Rightarrow> u8" where
  "next_dwell p last_hb_seen poll consecutive_rtl =
     (if mode_is_rtl p poll \<and> last_hb_seen < poll_hb poll then saturating_add consecutive_rtl 1
      else if \<not> mode_is_rtl p poll then 0
      else consecutive_rtl)"

text \<open>\<open>None\<close>: the polls given ended before the loop did.\<close>

fun rtb_loop ::
    "vehicle_profile \<Rightarrow> u64 \<Rightarrow> instant \<Rightarrow> u8 \<Rightarrow> u64 \<Rightarrow> rtb_poll list \<Rightarrow> bool option" where
  "rtb_loop p sent_at deadline consecutive_rtl last_hb_seen [] = None"
| "rtb_loop p sent_at deadline consecutive_rtl last_hb_seen (poll # polls) =
     (let dwell = next_dwell p last_hb_seen poll consecutive_rtl
      in if ack_ok p sent_at poll \<and> causal_mode p sent_at poll \<and> RTB_VERIFY_DWELL_POLLS \<le> dwell
         then Some True
         else if deadline \<le> p_now poll then Some False
         else rtb_loop p sent_at deadline dwell (poll_hb poll) polls)"

definition mav_verify_rtb ::
    "instant \<Rightarrow> mav_monitor \<Rightarrow> rtb_poll list \<Rightarrow> mav_controller \<Rightarrow> bool option" where
  "mav_verify_rtb start m polls c =
     (let sent_at = rtb_sent_at_ns c
      in if sent_at = 0 then Some False
         else rtb_loop (profile c) sent_at (start + RTB_VERIFY_WINDOW) 0 (last_heartbeat_ns m) polls)"

text \<open>
  The sever read-back. \<open>wire\<close> gives the byte of a parameter type on the wire, which the
  MAVLink crate defines.
\<close>

fun sever_loop ::
    "u8 list \<Rightarrow> u8 \<Rightarrow> u64 \<Rightarrow> u64 \<Rightarrow> instant \<Rightarrow> (mav_monitor \<times> instant) list \<Rightarrow> bool option" where
  "sever_loop name ty sent_at baseline deadline [] = None"
| "sever_loop name ty sent_at baseline deadline ((m, now) # polls) =
     (if (case last_param_value m name of
            Some echo \<Rightarrow> sever_echo_confirms echo sent_at baseline ty
          | None \<Rightarrow> False)
      then Some True
      else if deadline \<le> now then Some False
      else sever_loop name ty sent_at baseline deadline polls)"

definition mav_verify_sever ::
    "(mav_param_type \<Rightarrow> u8) \<Rightarrow> instant \<Rightarrow> (mav_monitor \<times> instant) list \<Rightarrow> mav_controller \<Rightarrow> bool option" where
  "mav_verify_sever wire start polls c =
     (let sent_at = sever_sent_at_ns c
      in if sent_at = 0 then Some False
         else let (name, ty) = sever_gps_param (profile c)
              in sever_loop name (wire ty) sent_at (sever_echo_baseline c) (start + SEVER_VERIFY_WINDOW) polls)"

section \<open>The console controller\<close>

record console_controller =
  gps_severed :: bool
  rtb_engaged :: bool

definition console_new :: console_controller where
  "console_new = \<lparr>gps_severed = False, rtb_engaged = False\<rparr>"

definition console_sever_gps :: "console_controller \<Rightarrow> (fs_error + unit) \<times> console_controller" where
  "console_sever_gps c = (Inr (), if gps_severed c then c else c\<lparr>gps_severed := True\<rparr>)"

definition console_engage_rtb :: "console_controller \<Rightarrow> (fs_error + unit) \<times> console_controller" where
  "console_engage_rtb c = (Inr (), if rtb_engaged c then c else c\<lparr>rtb_engaged := True\<rparr>)"

definition console_verify_rtb :: "console_controller \<Rightarrow> (fs_error + bool)" where
  "console_verify_rtb c = Inr False"

text \<open>The default of the trait.\<close>

definition default_verify_sever :: "console_controller \<Rightarrow> (fs_error + bool)" where
  "default_verify_sever c = Inr True"

definition console_reset :: "console_controller \<Rightarrow> (fs_error + unit) \<times> console_controller" where
  "console_reset c = (Inr (), c\<lparr>gps_severed := False, rtb_engaged := False\<rparr>)"

section \<open>The trait as an interface\<close>

text \<open>
  What fusion relies on of any controller: nothing can be reported as a confirmed return
  before \<open>engage_rtb\<close> has been called since the start or since the last reset, whatever
  else was called. \<open>env\<close> is what the environment supplies to one call.
\<close>

datatype 'env ctl_op = CtlSever 'env | CtlEngage 'env | CtlReset

locale flight_controller =
  fixes sever :: "'env \<Rightarrow> 's \<Rightarrow> 's"
    and engage :: "'env \<Rightarrow> 's \<Rightarrow> 's"
    and reset :: "'s \<Rightarrow> 's"
    and verify_rtb :: "'env \<Rightarrow> 's \<Rightarrow> bool option"
    and idle :: "'s \<Rightarrow> bool"
  assumes idle_reset: "idle (reset s)"
    and idle_sever: "idle s \<Longrightarrow> idle (sever e s)"
    and idle_unconfirmed: "idle s \<Longrightarrow> verify_rtb e s = Some False"
begin

fun ctl_apply :: "'env ctl_op \<Rightarrow> 's \<Rightarrow> 's" where
  "ctl_apply (CtlSever e) s = sever e s"
| "ctl_apply (CtlEngage e) s = engage e s"
| "ctl_apply CtlReset s = reset s"

lemma no_confirmation_without_engage:
  assumes "CtlReset \<in> set ops \<or> idle s" and "\<forall>us vs e. ops = us @ CtlEngage e # vs \<longrightarrow> CtlReset \<in> set vs"
  shows "verify_rtb e (fold ctl_apply ops s) = Some False"
proof -
  have "idle (fold ctl_apply ops s)"
    using assms
  proof (induction ops arbitrary: s)
    case (Cons op ops)
    have later: "\<forall>us vs e. ops = us @ CtlEngage e # vs \<longrightarrow> CtlReset \<in> set vs"
      using Cons.prems(2) by (metis append_Cons)
    have "CtlReset \<in> set ops \<or> idle (ctl_apply op s)"
    proof (cases op)
      case (CtlEngage e)
      then have "CtlReset \<in> set ops" using Cons.prems(2) by (metis append_Nil)
      then show ?thesis ..
    qed (use Cons.prems(1) in \<open>auto simp: idle_reset idle_sever\<close>)
    then show ?case using Cons.IH [OF _ later] by simp
  qed simp
  then show ?thesis by (rule idle_unconfirmed)
qed

end

text \<open>Both controllers are instances.\<close>

interpretation console: flight_controller
  "\<lambda>_. snd \<circ> console_sever_gps" "\<lambda>_. snd \<circ> console_engage_rtb" "snd \<circ> console_reset"
  "\<lambda>_ c. Some (console_verify_rtb c = Inr True)" "\<lambda>_. True"
  by unfold_locales (simp_all add: console_verify_rtb_def)

record mav_env =
  env_send :: "nat \<Rightarrow> fs_error + unit"
  env_now :: instant
  env_monitor :: mav_monitor
  env_polls :: "rtb_poll list"

definition mav_sever_state :: "mav_env \<Rightarrow> mav_controller \<Rightarrow> mav_controller" where
  "mav_sever_state e c =
     (case mav_sever_gps (env_send e) (env_now e) (env_monitor e) c of Some (_, _, c') \<Rightarrow> c' | None \<Rightarrow> c)"

definition mav_engage_state :: "mav_env \<Rightarrow> mav_controller \<Rightarrow> mav_controller" where
  "mav_engage_state e c = snd (snd (mav_engage_rtb (env_send e) (env_now e) c))"

interpretation mav: flight_controller
  mav_sever_state mav_engage_state "snd \<circ> mav_reset"
  "\<lambda>e. mav_verify_rtb (env_now e) (env_monitor e) (env_polls e)" "\<lambda>c. rtb_sent_at_ns c = 0"
  by unfold_locales
    (auto simp: mav_reset_def mav_verify_rtb_def mav_sever_state_def mav_sever_gps_def Let_def
      split: option.splits prod.splits)

section \<open>Sending\<close>

lemma send_outcome:
  "fst (send_repeated send msg) = (if \<exists>n \<in> {1, 2, 3}. \<exists>u. send n = Inr u then Inr () else Inl (projl (send 3)))"
proof -
  have "[1..<COMMAND_REPEAT + 1] = [1, 2, 3]" by (simp add: COMMAND_REPEAT_def upt_rec)
  then show ?thesis
    by (cases "send 1"; cases "send 2"; cases "send 3") (simp_all add: send_repeated_def send_attempt_def)
qed

lemma takeWhile_padded: "0 \<notin> set name \<Longrightarrow> takeWhile (\<lambda>b. b \<noteq> 0) (name @ replicate k 0) = name"
proof (induction name)
  case Nil
  then show ?case by (cases k) simp_all
qed auto

lemma param_id_roundtrip: "0 \<notin> set name \<Longrightarrow> param_id_of name = Some pid \<Longrightarrow> param_name pid = name \<and> length pid = 16"
  by (auto simp: param_id_of_def param_name_def takeWhile_padded split: if_splits)

lemma sever_param_bytes:
  "0 \<notin> set (fst (sever_gps_param p))" "length (fst (sever_gps_param p)) \<le> 16" "fst (sever_gps_param p) \<noteq> []"
  by (cases p; simp add: sever_gps_param_def bytes_def of_char_def)+

section \<open>The RTL read-back\<close>

definition fresh_rtl :: "vehicle_profile \<Rightarrow> u64 \<Rightarrow> rtb_poll list \<Rightarrow> nat list \<Rightarrow> bool" where
  "fresh_rtl p hb polls is \<longleftrightarrow> sorted_wrt (<) is \<and> (\<forall>i \<in> set is. i < length polls \<and> mode_is_rtl p (polls ! i))
     \<and> sorted_wrt (<) (hb # map (\<lambda>i. poll_hb (polls ! i)) is)"

lemma fresh_rtl_shift:
  assumes "fresh_rtl p (poll_hb poll) polls is" and "hb \<le> poll_hb poll"
  shows "fresh_rtl p hb (poll # polls) (map Suc is)"
  using assms by (auto simp: fresh_rtl_def sorted_wrt_map o_def)

lemma fresh_rtl_Cons:
  assumes "fresh_rtl p (poll_hb poll) polls is" and "hb < poll_hb poll" and "mode_is_rtl p poll"
  shows "fresh_rtl p hb (poll # polls) (0 # map Suc is)"
  using assms by (auto simp: fresh_rtl_def sorted_wrt_map o_def)

lemma rtb_loop_sound:
  assumes "rtb_loop p sent dl cnt hb polls = Some True" and "sorted (hb # map poll_hb polls)"
  shows "\<exists>n < length polls. ack_ok p sent (polls ! n) \<and> causal_mode p sent (polls ! n)
     \<and> (\<exists>is. fresh_rtl p hb polls is \<and> (\<forall>i \<in> set is. i \<le> n)
          \<and> (3 \<le> length is \<or> 3 \<le> unat cnt + length is \<and> (\<forall>i \<le> n. mode_is_rtl p (polls ! i))))"
  using assms
proof (induction polls arbitrary: cnt hb)
  case (Cons poll polls)
  define d where "d = next_dwell p hb poll cnt"
  have le: "hb \<le> poll_hb poll" using Cons.prems(2) by simp
  have d_le: "unat d \<le> unat cnt + (if hb < poll_hb poll \<and> mode_is_rtl p poll then 1 else 0)"
    by (auto simp: d_def next_dwell_def unat_saturating_add)
  show ?case
  proof (cases "ack_ok p sent poll \<and> causal_mode p sent poll \<and> RTB_VERIFY_DWELL_POLLS \<le> d")
    case True
    then have rtl: "mode_is_rtl p poll" and "3 \<le> unat d"
      by (simp_all add: causal_mode_def RTB_VERIFY_DWELL_POLLS_def word_le_nat_alt)
    define ixs where "ixs = (if hb < poll_hb poll then [0 :: nat] else [])"
    have "fresh_rtl p hb (poll # polls) ixs" using rtl by (simp add: fresh_rtl_def ixs_def)
    moreover have "3 \<le> unat cnt + length ixs"
      using \<open>3 \<le> unat d\<close> d_le rtl by (simp add: ixs_def split: if_splits)
    ultimately show ?thesis using True rtl
      by (intro exI [of _ 0] conjI exI [of _ ixs]) (auto simp: ixs_def split: if_splits)
  next
    case False
    then have "rtb_loop p sent dl d (poll_hb poll) polls = Some True"
      using Cons.prems(1) by (auto simp: d_def [symmetric] Let_def split: if_splits)
    from Cons.IH [OF this] Cons.prems(2) obtain n ixs where n: "n < length polls"
      "ack_ok p sent (polls ! n)" "causal_mode p sent (polls ! n)" and ixs: "fresh_rtl p (poll_hb poll) polls ixs"
      "\<forall>i \<in> set ixs. i \<le> n"
      and cnt: "3 \<le> length ixs \<or> 3 \<le> unat d + length ixs \<and> (\<forall>i \<le> n. mode_is_rtl p (polls ! i))" by auto
    show ?thesis
    proof (cases "mode_is_rtl p poll \<and> hb < poll_hb poll")
      case True
      then have "fresh_rtl p hb (poll # polls) (0 # map Suc ixs)" using fresh_rtl_Cons ixs(1) by blast
      then show ?thesis using n ixs(2) cnt d_le True
        by (intro exI [of _ "Suc n"] conjI exI [of _ "0 # map Suc ixs"])
          (auto simp: All_less_Suc2 nth_Cons split: nat.splits)
    next
      case no: False
      have "unat d = 0 \<or> mode_is_rtl p poll \<and> unat d \<le> unat cnt" using no d_le
        by (auto simp: d_def next_dwell_def)
      then show ?thesis using n ixs(2) cnt fresh_rtl_shift [OF ixs(1) le]
        by (intro exI [of _ "Suc n"] conjI exI [of _ "map Suc ixs"]) (auto simp: nth_Cons split: nat.splits)
    qed
  qed
qed simp

lemma rtb_loop_returns:
  assumes "\<exists>poll \<in> set polls. dl \<le> p_now poll" shows "\<exists>b. rtb_loop p sent dl cnt hb polls = Some b"
  using assms by (induction polls arbitrary: cnt hb) (auto simp: Let_def)

lemma sever_loop_returns:
  assumes "\<exists>x \<in> set polls. dl \<le> snd x" shows "\<exists>b. sever_loop name ty sent base dl polls = Some b"
  using assms
proof (induction polls)
  case (Cons x polls)
  then show ?case by (cases x) auto
qed simp

lemma sever_loop_sound:
  assumes "sever_loop name ty sent base dl polls = Some True"
  shows "\<exists>(m, now) \<in> set polls. \<exists>e. last_param_value m name = Some e \<and> sever_echo_confirms e sent base ty"
  using assms by (induction polls) (auto split: if_splits option.splits)

section \<open>Properties\<close>

text \<open>
  C9. A confirmed return is real: when the RTL read-back answers true, a command had been
  sent, and at some poll the latest acknowledgement of exactly that command was accepted
  and received after the send, the mode was RTL-equivalent, had changed after the send and
  the vehicle was armed; and three polls up to that one saw an RTL mode with heartbeat
  times that are all different, increasing, and newer than the heartbeat on record when
  the read-back began.
\<close>

theorem rtb_confirmation_sound:
  assumes "mav_verify_rtb start m polls c = Some True"
    and "sorted (last_heartbeat_ns m # map poll_hb polls)"
  shows "rtb_sent_at_ns c \<noteq> 0 \<and> (\<exists>n < length polls.
     (\<exists>ns. last_ack_for_cmd (p_ack (polls ! n)) (expected_ack_cmd (profile c)) = Some (MAV_RESULT_ACCEPTED, ns)
        \<and> rtb_sent_at_ns c < ns)
     \<and> rtb_sent_at_ns c < mode_changed_at_ns (p_changed (polls ! n))
     \<and> is_rtl_mode (profile c) (current_custom_mode (p_mode (polls ! n))) \<and> is_armed (p_armed (polls ! n))
     \<and> (\<exists>i j k. i < j \<and> j < k \<and> k \<le> n
          \<and> mode_is_rtl (profile c) (polls ! i) \<and> mode_is_rtl (profile c) (polls ! j)
          \<and> mode_is_rtl (profile c) (polls ! k)
          \<and> last_heartbeat_ns m < poll_hb (polls ! i) \<and> poll_hb (polls ! i) < poll_hb (polls ! j)
          \<and> poll_hb (polls ! j) < poll_hb (polls ! k)))"
proof -
  have sent: "rtb_sent_at_ns c \<noteq> 0"
    and loop: "rtb_loop (profile c) (rtb_sent_at_ns c) (start + RTB_VERIFY_WINDOW) 0 (last_heartbeat_ns m) polls = Some True"
    using assms(1) by (auto simp: mav_verify_rtb_def Let_def split: if_splits)
  from rtb_loop_sound [OF loop assms(2)] obtain n ixs where n: "n < length polls"
    "ack_ok (profile c) (rtb_sent_at_ns c) (polls ! n)" "causal_mode (profile c) (rtb_sent_at_ns c) (polls ! n)"
    and ixs: "fresh_rtl (profile c) (last_heartbeat_ns m) polls ixs" "\<forall>i \<in> set ixs. i \<le> n" "3 \<le> length ixs" by auto
  then obtain i j k rest where "ixs = i # j # k # rest"
    by (metis (no_types, opaque_lifting) Suc_le_length_iff numeral_3_eq_3)
  with ixs have "i < j \<and> j < k \<and> k \<le> n \<and> mode_is_rtl (profile c) (polls ! i) \<and> mode_is_rtl (profile c) (polls ! j)
      \<and> mode_is_rtl (profile c) (polls ! k) \<and> last_heartbeat_ns m < poll_hb (polls ! i)
      \<and> poll_hb (polls ! i) < poll_hb (polls ! j) \<and> poll_hb (polls ! j) < poll_hb (polls ! k)"
    by (simp add: fresh_rtl_def)
  moreover have "\<exists>ns. last_ack_for_cmd (p_ack (polls ! n)) (expected_ack_cmd (profile c)) = Some (MAV_RESULT_ACCEPTED, ns)
        \<and> rtb_sent_at_ns c < ns"
    using n(2) by (auto simp: ack_ok_def split: option.splits)
  moreover have "rtb_sent_at_ns c < mode_changed_at_ns (p_changed (polls ! n))
     \<and> is_rtl_mode (profile c) (current_custom_mode (p_mode (polls ! n))) \<and> is_armed (p_armed (polls ! n))"
    using n(3) by (simp add: causal_mode_def mode_is_rtl_def)
  ultimately show ?thesis using sent n(1) by blast
qed

definition rtl_monitor :: "u64 \<Rightarrow> mav_monitor" where
  "rtl_monitor ns = monitor_new\<lparr>last_heartbeat_ns := ns, current_custom_mode := 6, mode_changed_at_ns := 60,
     current_base_mode := 0x80, acks_by_cmd := [(20, (0, 55))]\<rparr>"

definition rtl_poll :: "u64 \<Rightarrow> rtb_poll" where
  "rtl_poll ns = \<lparr>p_ack = rtl_monitor ns, p_changed = rtl_monitor ns, p_mode = rtl_monitor ns,
     p_armed = rtl_monitor ns, p_hb = rtl_monitor ns, p_now = 0\<rparr>"

definition sent_controller :: mav_controller where
  "sent_controller = (mav_new 0 1 1 ArduCopter)\<lparr>rtb_sent_at_ns := 50\<rparr>"

lemma sent_controller_confirms:
  "mav_verify_rtb 0 (rtl_monitor 40) [rtl_poll 60, rtl_poll 70, rtl_poll 80] sent_controller = Some True"
  by (simp add: mav_verify_rtb_def sent_controller_def mav_new_def rtl_poll_def rtl_monitor_def ack_ok_def
      causal_mode_def mode_is_rtl_def next_dwell_def poll_hb_def last_ack_for_cmd_def expected_ack_cmd_def
      MAV_CMD_NAV_RETURN_TO_LAUNCH_ID_def MAV_RESULT_ACCEPTED_def RTB_VERIFY_DWELL_POLLS_def
      is_rtl_mode_def ARDUCOPTER_MODE_RTL_def is_armed_def MAV_MODE_FLAG_SAFETY_ARMED_def
      saturating_add_def RTB_VERIFY_WINDOW_def Let_def)

theorem rtb_confirmation_sound_witness:
  "rtb_sent_at_ns sent_controller \<noteq> 0 \<and> (\<exists>n < length [rtl_poll 60, rtl_poll 70, rtl_poll 80].
     rtb_sent_at_ns sent_controller < mode_changed_at_ns (p_changed ([rtl_poll 60, rtl_poll 70, rtl_poll 80] ! n)))"
  using rtb_confirmation_sound [OF sent_controller_confirms]
  by (simp add: poll_hb_def rtl_poll_def rtl_monitor_def) blast

text \<open>
  C34. Both read-backs return: with the clock at the \<open>n\<close>-th deadline test at least
  \<open>n\<close> poll periods after the start, 51 polls end the RTL read-back and 21 polls end
  the sever read-back, whatever the monitor shows.
\<close>

theorem readbacks_return:
  assumes "50 < length polls" and "\<forall>i < length polls. start + i * RTB_VERIFY_POLL \<le> p_now (polls ! i)"
    and "20 < length spolls" and "\<forall>i < length spolls. start + i * SEVER_VERIFY_POLL \<le> snd (spolls ! i)"
  shows "(\<exists>b. mav_verify_rtb start m polls c = Some b) \<and> (\<exists>b. mav_verify_sever wire start spolls c = Some b)"
proof
  have "start + 50 * RTB_VERIFY_POLL \<le> p_now (polls ! 50)" using assms(1,2) by blast
  then have "\<exists>poll \<in> set polls. start + RTB_VERIFY_WINDOW \<le> p_now poll"
    using assms(1) by (intro bexI [of _ "polls ! 50"]) (simp_all add: RTB_VERIFY_POLL_def RTB_VERIFY_WINDOW_def)
  then show "\<exists>b. mav_verify_rtb start m polls c = Some b"
    by (auto simp: mav_verify_rtb_def Let_def rtb_loop_returns)
  have "start + 20 * SEVER_VERIFY_POLL \<le> snd (spolls ! 20)" using assms(3,4) by blast
  then have "\<exists>x \<in> set spolls. start + SEVER_VERIFY_WINDOW \<le> snd x"
    using assms(3) by (intro bexI [of _ "spolls ! 20"]) (simp_all add: SEVER_VERIFY_POLL_def SEVER_VERIFY_WINDOW_def)
  then show "\<exists>b. mav_verify_sever wire start spolls c = Some b"
    by (auto simp: mav_verify_sever_def Let_def sever_loop_returns split: prod.splits)
qed

theorem readbacks_return_witness:
  "(\<exists>b. mav_verify_rtb 0 monitor_new (map (\<lambda>i. (rtl_poll 40)\<lparr>p_now := i * RTB_VERIFY_POLL\<rparr>) [0..<51]) sent_controller = Some b)
   \<and> (\<exists>b. mav_verify_sever (\<lambda>_. 2) 0 (map (\<lambda>i. (monitor_new, i * SEVER_VERIFY_POLL)) [0..<21]) sent_controller = Some b)"
  by (rule readbacks_return) simp_all

text \<open>
  C31. A confirmed sever rests on at least two echoes: when the sever read-back answers
  true, then, among what the listener recorded after the count was snapshotted, there are at
  least two echoes of the sever parameter, and the latest record of it at the confirming
  poll is a value below one half in magnitude, of the type that was set, received after
  the send.
\<close>

theorem sever_confirmation_sound:
  assumes "mav_sever_gps send now m c = Some (r, sent, c')" and "mon_ok m"
    and "mav_verify_sever wire start (map (\<lambda>(k, t). (mon_run (link_boot c) (take k ops) m, t)) ks) c' = Some True"
  shows "\<exists>k e. 2 \<le> length (filter (is_echo_of (fst (sever_gps_param (profile c)))) (take k ops))
     \<and> last_param_value (mon_run (link_boot c) (take k ops) m) (fst (sever_gps_param (profile c))) = Some e
     \<and> flt (fabs (echo_value e)) SEVER_CONFIRMED_EPS \<and> param_type e = wire (snd (sever_gps_param (profile c)))
     \<and> since_boot_ns now (link_boot c) < recv_ns e"
proof -
  obtain name ty where nt: "sever_gps_param (profile c) = (name, ty)" by (metis surj_pair)
  have c': "profile c' = profile c" "sever_sent_at_ns c' = since_boot_ns now (link_boot c)"
    "sever_echo_baseline c' = echo_count m name"
    using assms(1) by (auto simp: mav_sever_gps_def nt now_ns_def echo_count_def Let_def split: option.splits prod.splits)
  let ?polls = "map (\<lambda>(k, t). (mon_run (link_boot c) (take k ops) m, t)) ks"
  have "sever_loop name (wire ty) (since_boot_ns now (link_boot c)) (echo_count m name) (start + SEVER_VERIFY_WINDOW) ?polls = Some True"
    using assms(3) by (auto simp: mav_verify_sever_def c' nt Let_def split: if_splits)
  from sever_loop_sound [OF this] obtain k e where
    e: "last_param_value (mon_run (link_boot c) (take k ops) m) name = Some e"
    and conf: "sever_echo_confirms e (since_boot_ns now (link_boot c)) (echo_count m name) (wire ty)"
    by (auto split: prod.splits)
  have "2 \<le> unat (recv_count e) - unat (echo_count m name)"
    using conf by (simp add: sever_echo_confirms_def Let_def word_le_nat_alt unat_saturating_sub SEVER_VERIFY_DWELL_ECHOES_def)
  moreover have "unat (recv_count e) \<le> unat (echo_count m name) + length (filter (is_echo_of name) (take k ops))"
    using echo_count_run [OF assms(2), of "link_boot c" "take k ops" name] e by (simp add: echo_count_def)
  ultimately have "2 \<le> length (filter (is_echo_of name) (take k ops))" by linarith
  then show ?thesis using e conf by (intro exI [of _ k] exI [of _ e]) (simp add: nt sever_echo_confirms_def Let_def)
qed

lemma send_repeated_eq:
  "send_repeated send msg
     = (if \<exists>n \<in> {1, 2, 3}. \<exists>u. send n = Inr u then Inr () else Inl (projl (send 3)), replicate 3 msg)"
proof -
  have "snd (send_repeated send msg) = replicate 3 msg"
    by (simp add: send_repeated_def COMMAND_REPEAT_def Let_def split: prod.splits)
  then show ?thesis using send_outcome [of send msg] by (intro prod_eqI) simp_all
qed

definition sever_controller :: mav_controller where
  "sever_controller = (mav_new 0 1 1 ArduCopter)\<lparr>sever_echo_baseline := 0, sever_sent_at_ns := 10\<rparr>"

definition gps_type_echo :: "instant \<Rightarrow> f32 \<Rightarrow> mon_op" where
  "gps_type_echo t x = MonParam t (bytes ''GPS_TYPE'' @ replicate 8 0) x 2"

lemma gps_type_echoes:
  "mav_verify_sever (\<lambda>_. 2) 0 [(mon_run 0 [gps_type_echo 20 x, gps_type_echo 30 (FNum 0)] monitor_new, 0)]
     sever_controller = Some True"
proof -
  let ?n = "bytes ''GPS_TYPE''"
  have n: "0 \<notin> set ?n" "?n \<noteq> []" using sever_param_bytes [of ArduCopter] by (simp_all add: sever_gps_param_def)
  have half: "flt (FNum 0) (lit B32 (1 / 2))"
  proof -
    have "bound_ok B32 (of_int 1 / 2 ^ 1)" by (intro bound_ok_dyadic) simp_all
    then have "fround B32 False (1 / 2) = FNum (1 / 2)" by (intro fround_exact) (simp_all add: bound_ok_def)
    then show ?thesis by (simp add: lit_def)
  qed
  have "last_param_value (mon_run 0 [gps_type_echo 20 x, gps_type_echo 30 (FNum 0)] monitor_new) ?n
      = Some \<lparr>echo_value = FNum 0, param_type = 2, recv_ns = 30, recv_count = 2\<rparr>"
    using n by (simp add: gps_type_echo_def record_param_value_def param_name_def takeWhile_padded monitor_new_def
        last_param_value_def receipt_put_def evict_oldest_def RECEIPT_CAP_def saturating_add_def
        since_boot_ns_def saturating_duration_since_def nanos_u64_def Let_def)
  then show ?thesis using half
    by (simp add: mav_verify_sever_def sever_controller_def mav_new_def sever_gps_param_def
        sever_echo_confirms_def SEVER_CONFIRMED_EPS_def SEVER_VERIFY_DWELL_ECHOES_def saturating_sub_def Let_def)
qed

theorem sever_confirmation_sound_witness:
  "\<exists>k e. 2 \<le> length (filter (is_echo_of (fst (sever_gps_param (profile (mav_new 0 1 1 ArduCopter)))))
        (take k [gps_type_echo 20 (FNum 0), gps_type_echo 30 (FNum 0)]))
     \<and> last_param_value (mon_run (link_boot (mav_new 0 1 1 ArduCopter))
          (take k [gps_type_echo 20 (FNum 0), gps_type_echo 30 (FNum 0)]) monitor_new)
          (fst (sever_gps_param (profile (mav_new 0 1 1 ArduCopter)))) = Some e
     \<and> flt (fabs (echo_value e)) SEVER_CONFIRMED_EPS
     \<and> param_type e = (\<lambda>_. 2) (snd (sever_gps_param (profile (mav_new 0 1 1 ArduCopter))))
     \<and> since_boot_ns 10 (link_boot (mav_new 0 1 1 ArduCopter)) < recv_ns e"
proof (rule sever_confirmation_sound)
  show "mav_sever_gps (\<lambda>_. Inr ()) 10 monitor_new (mav_new 0 1 1 ArduCopter)
      = Some (Inr (), replicate 3 (ParamSet 1 1 (bytes ''GPS_TYPE'' @ replicate 8 0) (FNum 0) MAV_PARAM_TYPE_INT8),
              sever_controller)"
    by (simp add: send_repeated_eq mav_sever_gps_def sever_gps_param_def mav_new_def param_id_of_def sever_controller_def
        last_param_value_def monitor_new_def now_ns_def since_boot_ns_def
        saturating_duration_since_def nanos_u64_def bytes_def Let_def) (metis)
  show "mav_verify_sever (\<lambda>_. 2) 0 (map (\<lambda>(k, t). (mon_run (link_boot (mav_new 0 1 1 ArduCopter))
      (take k [gps_type_echo 20 (FNum 0), gps_type_echo 30 (FNum 0)]) monitor_new, t)) [(2, 0)]) sever_controller = Some True"
    using gps_type_echoes [of "FNum 0"] by (simp add: mav_new_def)
qed (rule mon_ok_new)

text \<open>
  The two echoes need not both be zero: one echo that shows the parameter still at one
  (the autopilot refused the change) followed by a single zero echo of the right type is
  confirmed, although the constant is documented as the number of zero echoes required so
  that a single injected zero echo cannot confirm.
\<close>

theorem sever_confirmed_by_single_zero:
  "mav_verify_sever (\<lambda>_. 2) 0
     [(mon_run 0 [gps_type_echo 20 (FNum 1), gps_type_echo 30 (FNum 0)] monitor_new, 0)] sever_controller = Some True"
  by (rule gps_type_echoes)

text \<open>
  The sever command is well formed and sent three times for both profiles: building it
  never panics, every datagram carries the sixteen-byte field whose trimmed name is the
  profile's parameter and the value zero, and the call succeeds exactly when at least one
  of the three sends does, else it reports the error of the last one.
\<close>

theorem sever_gps_sends:
  "\<exists>pid. mav_sever_gps send now m c =
      Some (if \<exists>n \<in> {1, 2, 3}. \<exists>u. send n = Inr u then Inr () else Inl (projl (send 3)),
            replicate 3 (ParamSet (target_system c) (target_component c) pid (FNum 0) (snd (sever_gps_param (profile c)))),
            c\<lparr>sever_echo_baseline := echo_count m (fst (sever_gps_param (profile c))),
              sever_sent_at_ns := since_boot_ns now (link_boot c)\<rparr>)
    \<and> length pid = 16 \<and> param_name pid = fst (sever_gps_param (profile c))"
proof -
  obtain name ty where nt: "sever_gps_param (profile c) = (name, ty)" by (metis surj_pair)
  have name: "0 \<notin> set name" "length name \<le> 16" using sever_param_bytes [of "profile c"] by (simp_all add: nt)
  then obtain pid where pid: "param_id_of name = Some pid" by (simp add: param_id_of_def)
  then show ?thesis
    using param_id_roundtrip [OF name(1) pid]
    by (intro exI [of _ pid])
      (simp add: mav_sever_gps_def nt pid send_repeated_eq now_ns_def echo_count_def last_param_value_def Let_def)
qed

text \<open>
  No return is confirmed that was not asked for: on the MAVLink controller, after any
  sequence of calls in which every \<open>engage_rtb\<close> is followed by an operator reset, the
  RTL read-back answers false, whatever the monitor and the clock show; a reset or a fresh
  controller is the starting point.
\<close>

theorem no_confirmation_without_engage_mav:
  assumes "\<forall>us vs e. ops = us @ CtlEngage e # vs \<longrightarrow> CtlReset \<in> set vs"
  shows "mav_verify_rtb start m polls (fold mav.ctl_apply ops (mav_new boot sys cmp p)) = Some False"
  using mav.no_confirmation_without_engage [of ops "mav_new boot sys cmp p"
      "\<lparr>env_send = \<lambda>_. Inr (), env_now = start, env_monitor = m, env_polls = polls\<rparr>"] assms
  by (simp add: mav_new_def)

theorem no_confirmation_without_engage_mav_witness:
  "mav_verify_rtb 0 (rtl_monitor 40) [rtl_poll 60, rtl_poll 70, rtl_poll 80]
     (fold mav.ctl_apply [CtlEngage \<lparr>env_send = \<lambda>_. Inr (), env_now = 5, env_monitor = monitor_new, env_polls = []\<rparr>, CtlReset]
       (mav_new 0 1 1 ArduCopter)) = Some False"
  by (rule no_confirmation_without_engage_mav) (auto simp: Cons_eq_append_conv)

end
