(* ===== verification/Strapdown.thy ===== *)
theory Strapdown
  imports Types
begin

text \<open>
  Strapdown integration and bias estimation, \<open>src/src/nav/strapdown.rs\<close>. Acceleration,
  velocity and position are \<open>f64\<close>, the sensor side is \<open>f32\<close>; a widening cast keeps
  the value.
\<close>

section \<open>Shorthands for the arithmetic of the two formats\<close>

abbreviation add64 :: "f64 \<Rightarrow> f64 \<Rightarrow> f64" where "add64 \<equiv> fadd B64"
abbreviation sub64 :: "f64 \<Rightarrow> f64 \<Rightarrow> f64" where "sub64 \<equiv> fsub B64"
abbreviation mul64 :: "f64 \<Rightarrow> f64 \<Rightarrow> f64" where "mul64 \<equiv> fmul B64"
abbreviation div64 :: "f64 \<Rightarrow> f64 \<Rightarrow> f64" where "div64 \<equiv> fdiv B64"
abbreviation add32 :: "f32 \<Rightarrow> f32 \<Rightarrow> f32" where "add32 \<equiv> fadd B32"
abbreviation sub32 :: "f32 \<Rightarrow> f32 \<Rightarrow> f32" where "sub32 \<equiv> fsub B32"
abbreviation mul32 :: "f32 \<Rightarrow> f32 \<Rightarrow> f32" where "mul32 \<equiv> fmul B32"
abbreviation div32 :: "f32 \<Rightarrow> f32 \<Rightarrow> f32" where "div32 \<equiv> fdiv B32"

text \<open>\<open>a[0] * a[0] + a[1] * a[1] + a[2] * a[2]\<close> in the format, and its root.\<close>

definition vec3_norm :: "format \<Rightarrow> vec3 \<Rightarrow> fl" where
  "vec3_norm F a =
     fsqrt F (fadd F (fadd F (fmul F (v0 a) (v0 a)) (fmul F (v1 a) (v1 a))) (fmul F (v2 a) (v2 a)))"

section \<open>Integration\<close>

record strapdown =
  sd_pos :: ned_pos
  sd_vel :: ned_vel
  last_a :: "vec3 option"

definition strapdown_new :: strapdown where
  "strapdown_new = \<lparr>sd_pos = ned_default, sd_vel = ned_default, last_a = None\<rparr>"

definition set_pos :: "ned_pos \<Rightarrow> strapdown \<Rightarrow> strapdown" where
  "set_pos p s = s\<lparr>sd_pos := p\<rparr>"

definition set_vel :: "ned_vel \<Rightarrow> strapdown \<Rightarrow> strapdown" where
  "set_vel v s = s\<lparr>sd_vel := v\<rparr>"

definition strapdown_reset :: "strapdown \<Rightarrow> strapdown" where
  "strapdown_reset s = s\<lparr>sd_pos := ned_default, sd_vel := ned_default, last_a := None\<rparr>"

definition half64 :: f64 where "half64 = lit B64 (1 / 2)"

definition integrate :: "vec3 \<Rightarrow> f32 \<Rightarrow> strapdown \<Rightarrow> strapdown" where
  "integrate a_ned dt s =
     (let a_prev = (case last_a s of Some a \<Rightarrow> a | None \<Rightarrow> a_ned);
          ax = mul64 half64 (add64 (v0 a_prev) (v0 a_ned));
          ay = mul64 half64 (add64 (v1 a_prev) (v1 a_ned));
          az = mul64 half64 (add64 (v2 a_prev) (v2 a_ned));
          w = sd_vel s;
          vel = \<lparr>ned_n = add64 (ned_n w) (mul64 ax dt), ned_e = add64 (ned_e w) (mul64 ay dt),
                 ned_d = add64 (ned_d w) (mul64 az dt)\<rparr>;
          p = sd_pos s;
          pos = \<lparr>ned_n = add64 (ned_n p) (mul64 (mul64 half64 (add64 (ned_n w) (ned_n vel))) dt),
                 ned_e = add64 (ned_e p) (mul64 (mul64 half64 (add64 (ned_e w) (ned_e vel))) dt),
                 ned_d = add64 (ned_d p) (mul64 (mul64 half64 (add64 (ned_d w) (ned_d vel))) dt)\<rparr>
      in s\<lparr>sd_vel := vel, sd_pos := pos, last_a := Some a_ned\<rparr>)"

section \<open>Bias estimation\<close>

record bias_estimator =
  be_alpha :: f32
  accel_ned :: vec3
  be_gyro :: vec3
  low_motion_secs :: f32
  window_target_s :: f32
  g_norm :: f32

definition bias_new :: "f32 \<Rightarrow> f32 \<Rightarrow> bias_estimator" where
  "bias_new alpha target = \<lparr>be_alpha = alpha, accel_ned = vec3_zero, be_gyro = vec3_zero,
     low_motion_secs = FNum 0, window_target_s = target, g_norm = lit B32 (980665 / 100000)\<rparr>"

definition correct_and_update_accel_ned :: "vec3 \<Rightarrow> bool \<Rightarrow> bias_estimator \<Rightarrow> vec3 \<times> bias_estimator" where
  "correct_and_update_accel_ned a_lin allow_update b =
     (let corrected = vec3_map2 sub64 a_lin (accel_ned b)
      in if allow_update \<and> fge (low_motion_secs b) (window_target_s b)
         then let a = be_alpha b;
                  upd = (\<lambda>bias c. add64 (mul64 (sub64 (FNum 1) a) bias) (mul64 a (add64 bias c)))
              in (corrected, b\<lparr>accel_ned := vec3_map2 upd (accel_ned b) corrected\<rparr>)
         else (corrected, b))"

definition quiet :: "bias_estimator \<Rightarrow> vec3 \<Rightarrow> vec3 \<Rightarrow> bool" where
  "quiet b accel gyro \<longleftrightarrow>
     flt (vec3_norm B32 gyro) (lit B32 (5 / 100))
     \<and> flt (fabs (sub32 (vec3_norm B32 accel) (g_norm b))) (lit B32 (3 / 10))"

definition observe :: "vec3 \<Rightarrow> vec3 \<Rightarrow> f32 \<Rightarrow> bool \<Rightarrow> bias_estimator \<Rightarrow> bias_estimator" where
  "observe accel gyro dt allow b =
     (if quiet b accel gyro \<and> allow
      then let b1 = b\<lparr>low_motion_secs := add32 (low_motion_secs b) dt\<rparr>
           in if fge (low_motion_secs b1) (window_target_s b1)
              then b1\<lparr>be_gyro := vec3_map2
                     (\<lambda>bias g. add32 (mul32 (sub32 (FNum 1) (be_alpha b1)) bias) (mul32 (be_alpha b1) g))
                     (be_gyro b1) gyro\<rparr>
              else b1
      else b\<lparr>low_motion_secs := FNum 0\<rparr>)"

section \<open>Lemmas\<close>

lemma observe_frame [simp, nav_frame]:
  "accel_ned (observe accel gyro dt allow b) = accel_ned b"
  "window_target_s (observe accel gyro dt allow b) = window_target_s b"
  "be_alpha (observe accel gyro dt allow b) = be_alpha b"
  by (simp_all add: observe_def Let_def)

lemma observe_not_allowed [simp]:
  "be_gyro (observe accel gyro dt False b) = be_gyro b"
  "low_motion_secs (observe accel gyro dt False b) = FNum 0"
  by (simp_all add: observe_def)

lemma correct_not_allowed [simp]: "snd (correct_and_update_accel_ned a False b) = b"
  by (simp add: correct_and_update_accel_ned_def Let_def)

end
