(* ===== verification/Attitude.thy ===== *)
theory Attitude
  imports Strapdown
begin

text \<open>
  The Madgwick attitude filter, \<open>src/src/nav/attitude.rs\<close>. The elementary functions,
  whose results the language leaves to the platform, and the quaternion rotation, which
  nalgebra provides, are parameters: the fields of \<open>nav_math\<close>.
\<close>

record quat =
  qw :: f32
  qi :: f32
  qj :: f32
  qk :: f32

record nav_math =
  sin32 :: "f32 \<Rightarrow> f32"
  cos32 :: "f32 \<Rightarrow> f32"
  asin32 :: "f32 \<Rightarrow> f32"
  atan2_32 :: "f32 \<Rightarrow> f32 \<Rightarrow> f32"
  sin64 :: "f64 \<Rightarrow> f64"
  cos64 :: "f64 \<Rightarrow> f64"
  rotate_body_to_ned :: "quat \<Rightarrow> vec3 \<Rightarrow> vec3"
  rotate_ned_to_body :: "quat \<Rightarrow> vec3 \<Rightarrow> vec3"

record madgwick =
  mq :: quat
  mbeta :: f32

definition madgwick_new :: "f32 \<Rightarrow> madgwick" where
  "madgwick_new beta = \<lparr>mq = \<lparr>qw = FNum 1, qi = FNum 0, qj = FNum 0, qk = FNum 0\<rparr>, mbeta = beta\<rparr>"

definition half32 :: f32 where "half32 = lit B32 (1 / 2)"

definition normalize :: "madgwick \<Rightarrow> madgwick" where
  "normalize m =
     (let q = mq m;
          n = fmax (fsqrt B32 (add32 (add32 (add32 (mul32 (qw q) (qw q)) (mul32 (qi q) (qi q)))
                (mul32 (qj q) (qj q))) (mul32 (qk q) (qk q)))) (lit B32 (1 / 10 ^ 9))
      in m\<lparr>mq := \<lparr>qw = div32 (qw q) n, qi = div32 (qi q) n, qj = div32 (qj q) n, qk = div32 (qk q) n\<rparr>\<rparr>)"

text \<open>The quaternion of roll, pitch and yaw, built the same way in \<open>init_from_accel\<close> and \<open>seed_yaw_deg\<close>.\<close>

definition quat_of_euler :: "nav_math \<Rightarrow> f32 \<Rightarrow> f32 \<Rightarrow> f32 \<Rightarrow> quat" where
  "quat_of_euler mm roll pitch yaw =
     (let half_r = mul32 roll half32; half_p = mul32 pitch half32; half_y = mul32 yaw half32;
          cr = cos32 mm half_r; sr = sin32 mm half_r;
          cp = cos32 mm half_p; sp = sin32 mm half_p;
          cy = cos32 mm half_y; sy = sin32 mm half_y
      in \<lparr>qw = add32 (mul32 (mul32 cr cp) cy) (mul32 (mul32 sr sp) sy),
          qi = sub32 (mul32 (mul32 sr cp) cy) (mul32 (mul32 cr sp) sy),
          qj = add32 (mul32 (mul32 cr sp) cy) (mul32 (mul32 sr cp) sy),
          qk = sub32 (mul32 (mul32 cr cp) sy) (mul32 (mul32 sr sp) cy)\<rparr>)"

definition init_from_accel :: "nav_math \<Rightarrow> vec3 \<Rightarrow> madgwick \<Rightarrow> madgwick" where
  "init_from_accel mm accel m =
     (let a = vec3_map fneg accel;
          n = fmax (vec3_norm B32 a) (lit B32 (1 / 10 ^ 6));
          axn = div32 (v0 a) n; ayn = div32 (v1 a) n; azn = div32 (v2 a) n;
          roll = atan2_32 mm (fneg ayn) azn;
          pitch = atan2_32 mm axn (fsqrt B32 (add32 (mul32 ayn ayn) (mul32 azn azn)))
      in normalize (m\<lparr>mq := quat_of_euler mm roll pitch (FNum 0)\<rparr>))"

definition signum :: "fl \<Rightarrow> fl" where
  "signum a = (if is_nan a then FNaN else if sign_neg a then FNum (- 1) else FNum 1)"

definition frac_pi_2 :: f32 where
  "frac_pi_2 = lit B32 (157079632679489661923132169163975144 / 10 ^ 35)"

definition to_euler_rad :: "nav_math \<Rightarrow> madgwick \<Rightarrow> f32 \<times> f32 \<times> f32" where
  "to_euler_rad mm m =
     (let w = qw (mq m); x = qi (mq m); y = qj (mq m); z = qk (mq m);
          sinr_cosp = mul32 (FNum 2) (add32 (mul32 w x) (mul32 y z));
          cosr_cosp = sub32 (FNum 1) (mul32 (FNum 2) (add32 (mul32 x x) (mul32 y y)));
          roll = atan2_32 mm sinr_cosp cosr_cosp;
          sinp = mul32 (FNum 2) (sub32 (mul32 w y) (mul32 z x));
          pitch = (if fge (fabs sinp) (FNum 1) then mul32 (signum sinp) frac_pi_2 else asin32 mm sinp);
          siny_cosp = mul32 (FNum 2) (add32 (mul32 w z) (mul32 x y));
          cosy_cosp = sub32 (FNum 1) (mul32 (FNum 2) (add32 (mul32 y y) (mul32 z z)));
          yaw = atan2_32 mm siny_cosp cosy_cosp
      in (roll, pitch, yaw))"

definition seed_yaw_deg :: "nav_math \<Rightarrow> f32 \<Rightarrow> madgwick \<Rightarrow> madgwick" where
  "seed_yaw_deg mm yaw_deg m =
     (let (roll, pitch, _) = to_euler_rad mm m
      in normalize (m\<lparr>mq := quat_of_euler mm roll pitch (to_radians B32 yaw_deg)\<rparr>))"

text \<open>The quaternion derivative of the gyro, and the normalised gradient of the gravity error.\<close>

definition gyro_rate :: "quat \<Rightarrow> vec3 \<Rightarrow> quat" where
  "gyro_rate q g =
     (let w = qw q; x = qi q; y = qj q; z = qk q; gx = v0 g; gy = v1 g; gz = v2 g
      in \<lparr>qw = mul32 half32 (sub32 (sub32 (mul32 (fneg x) gx) (mul32 y gy)) (mul32 z gz)),
          qi = mul32 half32 (sub32 (add32 (mul32 w gx) (mul32 y gz)) (mul32 z gy)),
          qj = mul32 half32 (add32 (sub32 (mul32 w gy) (mul32 x gz)) (mul32 z gx)),
          qk = mul32 half32 (sub32 (add32 (mul32 w gz) (mul32 x gy)) (mul32 y gx))\<rparr>)"

definition gravity_gradient :: "quat \<Rightarrow> vec3 \<Rightarrow> f32 \<Rightarrow> quat" where
  "gravity_gradient q acc an =
     (let w = qw q; x = qi q; y = qj q; z = qk q;
          ax = div32 (v0 acc) an; ay = div32 (v1 acc) an; az = div32 (v2 acc) an;
          gx_pred = mul32 (FNum 2) (sub32 (mul32 x z) (mul32 w y));
          gy_pred = mul32 (FNum 2) (add32 (mul32 w x) (mul32 y z));
          gz_pred = sub32 (FNum 1) (mul32 (FNum 2) (add32 (mul32 x x) (mul32 y y)));
          fx = add32 gx_pred ax; fy = add32 gy_pred ay; fz = add32 gz_pred az
      in \<lparr>qw = mul32 (FNum 2) (add32 (add32 (mul32 (fneg y) fx) (mul32 x fy)) (mul32 (FNum 0) fz)),
          qi = mul32 (FNum 2) (sub32 (add32 (mul32 z fx) (mul32 w fy)) (mul32 (mul32 (FNum 2) x) fz)),
          qj = mul32 (FNum 2) (sub32 (add32 (mul32 (fneg w) fx) (mul32 z fy)) (mul32 (mul32 (FNum 2) y) fz)),
          qk = mul32 (FNum 2) (add32 (add32 (mul32 x fx) (mul32 y fy)) (mul32 (FNum 0) fz))\<rparr>)"

definition quat_map2 :: "(f32 \<Rightarrow> f32 \<Rightarrow> f32) \<Rightarrow> quat \<Rightarrow> quat \<Rightarrow> quat" where
  "quat_map2 f a b = \<lparr>qw = f (qw a) (qw b), qi = f (qi a) (qi b), qj = f (qj a) (qj b), qk = f (qk a) (qk b)\<rparr>"

definition update_with_lin_accel :: "vec3 \<Rightarrow> vec3 \<Rightarrow> f32 \<Rightarrow> vec3 \<Rightarrow> madgwick \<Rightarrow> madgwick" where
  "update_with_lin_accel accel gyro dt lin_accel_body m =
     (let q = mq m;
          qdot0 = gyro_rate q gyro;
          acc = vec3_map2 sub32 accel lin_accel_body;
          an = vec3_norm B32 acc;
          qdot = (if fgt an (lit B32 (1 / 1000))
                  then let j = gravity_gradient q acc an;
                           gn = fmax (fsqrt B32 (add32 (add32 (add32 (mul32 (qw j) (qw j)) (mul32 (qi j) (qi j)))
                                  (mul32 (qj j) (qj j))) (mul32 (qk j) (qk j)))) (lit B32 (1 / 10 ^ 9))
                       in quat_map2 (\<lambda>d g. sub32 d (div32 (mul32 (mbeta m) g) gn)) qdot0 j
                  else qdot0)
      in normalize (m\<lparr>mq := quat_map2 (\<lambda>c d. add32 c (mul32 d dt)) q qdot\<rparr>))"

definition madgwick_update :: "vec3 \<Rightarrow> vec3 \<Rightarrow> f32 \<Rightarrow> madgwick \<Rightarrow> madgwick" where
  "madgwick_update accel gyro dt m = update_with_lin_accel accel gyro dt vec3_zero m"

section \<open>Lemmas\<close>

lemma mbeta_frame [simp, nav_frame]:
  "mbeta (normalize m) = mbeta m" "mbeta (init_from_accel mm a m) = mbeta m"
  "mbeta (seed_yaw_deg mm d m) = mbeta m" "mbeta (update_with_lin_accel a g dt l m) = mbeta m"
  by (simp_all add: normalize_def init_from_accel_def seed_yaw_deg_def update_with_lin_accel_def
      Let_def split: prod.splits)

end
