(* ===== verification/Residual_Buffer.thy ===== *)
theory Residual_Buffer
  imports Types
begin

text \<open>
  The ring buffer of navigation snapshots, \<open>src/src/detect/residual.rs\<close>, with the time
  alignment of a GPS fix: interpolation between two snapshots, extrapolation along the
  newest velocity, and the two ways it refuses. A \<open>VecDeque\<close> is a list, oldest element
  first.
\<close>

section \<open>Operations\<close>

record nav_snapshot =
  mono_secs :: f64
  snap_pos :: ned_pos
  snap_vel :: ned_vel

record residual_buffer =
  buf :: "nav_snapshot list"
  capacity :: nat
  window_secs :: f64
  max_extrapolation_s :: f64

definition DEFAULT_MAX_EXTRAPOLATION_S :: f64 where
  "DEFAULT_MAX_EXTRAPOLATION_S = lit B64 (25 / 100)"

text \<open>
  \<open>usize\<close> addition wraps in the release profile; \<open>VecDeque::with_capacity\<close> panics
  when the 56-byte snapshots would need more than \<open>isize::MAX\<close> bytes (\<open>None\<close>).
\<close>

definition buffer_capacity :: "f64 \<Rightarrow> f64 \<Rightarrow> nat" where
  "buffer_capacity window rate =
     (cast_usize (fceil (fmul B64 (fmul B64 window rate) (lit B64 (11 / 10)))) + 4) mod 2 ^ 64"

definition buffer_new :: "f64 \<Rightarrow> f64 \<Rightarrow> residual_buffer option" where
  "buffer_new window rate =
     (let cap = buffer_capacity window rate
      in if 2 ^ 63 - 1 < 56 * cap then None
         else Some \<lparr>buf = [], capacity = cap, window_secs = window,
                max_extrapolation_s = DEFAULT_MAX_EXTRAPOLATION_S\<rparr>)"

definition with_max_extrapolation_s :: "residual_buffer \<Rightarrow> f64 \<Rightarrow> residual_buffer" where
  "with_max_extrapolation_s b secs = b\<lparr>max_extrapolation_s := secs\<rparr>"

text \<open>The two trimming loops of \<open>push\<close>.\<close>

definition trim_window :: "f64 \<Rightarrow> f64 \<Rightarrow> nav_snapshot list \<Rightarrow> nav_snapshot list" where
  "trim_window latest window xs = dropWhile (\<lambda>s. fgt (fsub B64 latest (mono_secs s)) window) xs"

definition trim_capacity :: "nat \<Rightarrow> 'a list \<Rightarrow> 'a list" where
  "trim_capacity cap xs = drop (length xs - cap) xs"

definition buffer_push :: "residual_buffer \<Rightarrow> nav_snapshot \<Rightarrow> residual_buffer" where
  "buffer_push b s =
     b\<lparr>buf := trim_capacity (capacity b) (trim_window (mono_secs s) (window_secs b) (buf b @ [s]))\<rparr>"

definition buffer_is_empty :: "residual_buffer \<Rightarrow> bool" where
  "buffer_is_empty b = (buf b = [])"

definition buffer_clear :: "residual_buffer \<Rightarrow> residual_buffer" where
  "buffer_clear b = b\<lparr>buf := []\<rparr>"

definition earliest :: "residual_buffer \<Rightarrow> f64 option" where
  "earliest b = (case buf b of [] \<Rightarrow> None | s # _ \<Rightarrow> Some (mono_secs s))"

definition latest :: "residual_buffer \<Rightarrow> f64 option" where
  "latest b = (case buf b of [] \<Rightarrow> None | xs \<Rightarrow> Some (mono_secs (last xs)))"

text \<open>\<open>bracket\<close>: scan from the front for the first snapshot not before \<open>t\<close>.\<close>

fun bracket_scan :: "f64 \<Rightarrow> nav_snapshot \<Rightarrow> nav_snapshot list \<Rightarrow> nav_snapshot \<Rightarrow> nav_snapshot \<times> nav_snapshot" where
  "bracket_scan t prev [] lst = (prev, lst)"
| "bracket_scan t prev (s # xs) lst =
     (if fge (mono_secs s) t then (prev, s) else bracket_scan t s xs lst)"

definition bracket :: "f64 \<Rightarrow> nav_snapshot list \<Rightarrow> nav_snapshot \<times> nav_snapshot" where
  "bracket t xs = bracket_scan t (hd xs) xs (last xs)"

definition lerp :: "f64 \<Rightarrow> f64 \<Rightarrow> f64 \<Rightarrow> f64" where
  "lerp alpha a b = fadd B64 a (fmul B64 alpha (fsub B64 b a))"

definition ned_lerp :: "f64 \<Rightarrow> ned \<Rightarrow> ned \<Rightarrow> ned" where
  "ned_lerp alpha a b = \<lparr>ned_n = lerp alpha (ned_n a) (ned_n b), ned_e = lerp alpha (ned_e a) (ned_e b),
     ned_d = lerp alpha (ned_d a) (ned_d b)\<rparr>"

definition extrapolate :: "nav_snapshot \<Rightarrow> f64 \<Rightarrow> ned_pos" where
  "extrapolate s dt = \<lparr>
     ned_n = fadd B64 (ned_n (snap_pos s)) (fmul B64 (ned_n (snap_vel s)) dt),
     ned_e = fadd B64 (ned_e (snap_pos s)) (fmul B64 (ned_e (snap_vel s)) dt),
     ned_d = fadd B64 (ned_d (snap_pos s)) (fmul B64 (ned_d (snap_vel s)) dt)\<rparr>"

definition back_tolerance :: f64 where
  "back_tolerance = lit B64 (2 / 100)"

definition gap_ms :: "f64 \<Rightarrow> f64 \<Rightarrow> f64 \<Rightarrow> int" where
  "gap_ms t e l =
     (if flt t e then cast_i64 (fmul B64 (fsub B64 e t) (FNum 1000))
      else cast_i64 (fmul B64 (fsub B64 t l) (FNum 1000)))"

definition outside :: "residual_buffer \<Rightarrow> f64 \<Rightarrow> f64 \<Rightarrow> f64 \<Rightarrow> bool" where
  "outside b t e l \<longleftrightarrow>
     flt t (fsub B64 e back_tolerance) \<or> fgt t (fadd B64 l (max_extrapolation_s b))"

definition interpolate_in :: "nav_snapshot list \<Rightarrow> f64 \<Rightarrow> ned_pos \<times> ned_vel" where
  "interpolate_in xs t =
     (let (a, b) = bracket t xs;
          span = fsub B64 (mono_secs b) (mono_secs a)
      in if fle span (FNum 0) then (snap_pos a, snap_vel a)
         else let alpha = fclampv (fdiv B64 (fsub B64 t (mono_secs a)) span) (FNum 0) (FNum 1)
              in (ned_lerp alpha (snap_pos a) (snap_pos b), ned_lerp alpha (snap_vel a) (snap_vel b)))"

definition interpolate :: "residual_buffer \<Rightarrow> f64 \<Rightarrow> detect_error + ned_pos \<times> ned_vel" where
  "interpolate b t =
     (case buf b of
        [] \<Rightarrow> Inl BufferEmpty
      | s0 # _ \<Rightarrow>
          (let s1 = last (buf b); e = mono_secs s0; l = mono_secs s1
           in if outside b t e l then Inl (GpsOutsideBuffer (gap_ms t e l))
              else if fge t l then Inr (extrapolate s1 (fsub B64 t l), snap_vel s1)
              else if fle t e then Inr (snap_pos s0, snap_vel s0)
              else Inr (interpolate_in (buf b) t)))"

section \<open>Lemmas\<close>

lemma trim_capacity_length: "length (trim_capacity cap xs) \<le> cap"
  by (simp add: trim_capacity_def)

lemma trim_window_last:
  assumes "\<not> fgt (fsub B64 l (mono_secs s)) w"
  shows "\<exists>ys. trim_window l w (xs @ [s]) = ys @ [s]"
  using assms unfolding trim_window_def by (induction xs) auto

lemma trim_capacity_last: "1 \<le> cap \<Longrightarrow> \<exists>zs. trim_capacity cap (ys @ [s]) = zs @ [s]"
  by (auto simp: trim_capacity_def)

lemma bracket_scan_props:
  assumes "\<not> fge (mono_secs prev) t" and "\<exists>s \<in> set xs. fge (mono_secs s) t"
  shows "\<exists>us vs. prev # xs = us @ fst (bracket_scan t prev xs lst) # snd (bracket_scan t prev xs lst) # vs
    \<and> \<not> fge (mono_secs (fst (bracket_scan t prev xs lst))) t
    \<and> fge (mono_secs (snd (bracket_scan t prev xs lst))) t"
  using assms
proof (induction t prev xs lst rule: bracket_scan.induct)
  case (2 t prev s xs lst)
  show ?case
  proof (cases "fge (mono_secs s) t")
    case True
    with "2.prems"(1) show ?thesis by auto
  next
    case False
    with "2.prems"(2) have "\<exists>s \<in> set xs. fge (mono_secs s) t" by auto
    from "2.IH" [OF False False this] obtain us vs where
      "s # xs = us @ fst (bracket_scan t s xs lst) # snd (bracket_scan t s xs lst) # vs"
      "\<not> fge (mono_secs (fst (bracket_scan t s xs lst))) t"
      "fge (mono_secs (snd (bracket_scan t s xs lst))) t" by blast
    moreover from False have "bracket_scan t prev (s # xs) lst = bracket_scan t s xs lst" by simp
    ultimately show ?thesis by (metis append_Cons)
  qed
qed simp

text \<open>Interpolation stays between its end points, up to the rounding of the upper one.\<close>

lemma lerp_between:
  assumes "fin_in 0 1 alpha" "is_finite a" "is_finite b" "fle a b"
    and "is_finite (fsub B64 b a)" "bound_ok B64 (fval a)"
  shows "fle a (lerp alpha a b)" and "fle (lerp alpha a b) (fadd B64 a (fsub B64 b a))"
proof -
  obtain s where d: "fsub B64 b a = fround B64 s (fval b - fval a)"
    using fsub_finite assms by blast
  let ?d = "fsub B64 b a"
  have d0: "0 \<le> fval ?d"
    using assms fsub_nonneg [of B64 b a] fle_finite [of "FNum 0" ?d] by simp
  have "bound_ok B64 (fval ?d)" using fround_bound_ok assms(5) unfolding d by simp
  then have m: "fin_in 0 (fval ?d) (fmul B64 alpha ?d)"
    using assms d0 bound_ok_int [of B64 0]
    by (intro fmul_in_pos [where a = 0 and b = 1 and c = "fval ?d" and d = "fval ?d"])
      (auto simp: fin_in_def)
  obtain s1 where l: "lerp alpha a b = fround B64 s1 (fval a + fval (fmul B64 alpha ?d))"
    unfolding lerp_def using fadd_finite assms(2) fin_in_finite [OF m] by blast
  obtain s2 where u: "fadd B64 a ?d = fround B64 s2 (fval a + fval ?d)"
    using fadd_finite assms(2,5) by blast
  show "fle (lerp alpha a b) (fadd B64 a ?d)"
    unfolding l u using m by (intro fround_mono) (simp_all add: fin_in_def)
  have "fle (fround B64 False (fval a)) (fround B64 s1 (fval a + fval (fmul B64 alpha ?d)))"
    using m by (intro fround_mono) (simp_all add: fin_in_def)
  moreover have "fround B64 False (fval a) = FNum (fval a)"
    using assms(6) by (intro fround_exact) (auto simp: bound_ok_def)
  ultimately show "fle a (lerp alpha a b)"
    unfolding l using assms(2) by (cases a) auto
qed

definition times_ok :: "nav_snapshot list \<Rightarrow> bool" where
  "times_ok xs \<longleftrightarrow> list_all (\<lambda>s. is_finite (mono_secs s)) xs
     \<and> sorted_wrt (\<lambda>a b. fle (mono_secs a) (mono_secs b)) xs"

lemma push_suffix: "\<exists>ys. buf b @ [s] = ys @ buf (buffer_push b s)"
proof -
  have "\<exists>ys. xs = ys @ trim_capacity c (trim_window l w xs)" for c l w and xs :: "nav_snapshot list"
    unfolding trim_capacity_def trim_window_def
    by (metis append.assoc append_take_drop_id dropWhile_suffix_ex)
  then show ?thesis by (simp add: buffer_push_def)
qed

lemma interpolate_in_enclosed:
  assumes fin: "is_finite (mono_secs a)" "is_finite (mono_secs c)" "is_finite t"
    and br: "bracket t xs = (a, c)"
    and t: "flt (mono_secs a) t" "fle t (mono_secs c)"
    and span: "is_finite (fsub B64 (mono_secs c) (mono_secs a))"
  shows "interpolate_in xs t = (snap_pos a, snap_vel a)
    \<or> (\<exists>alpha. fin_in 0 1 alpha \<and> interpolate_in xs t
          = (ned_lerp alpha (snap_pos a) (snap_pos c), ned_lerp alpha (snap_vel a) (snap_vel c)))"
proof (cases "fle (fsub B64 (mono_secs c) (mono_secs a)) (FNum 0)")
  case True
  then show ?thesis using br by (simp add: interpolate_in_def)
next
  case False
  let ?span = "fsub B64 (mono_secs c) (mono_secs a)" and ?num = "fsub B64 t (mono_secs a)"
  have "fgt ?span (FNum 0)"
    using False fsub_not_nan [OF fin(2,1)] by (simp add: not_fle)
  moreover have "fle ?num ?span"
    using fin t is_finite_not_nan by (intro fsub_mono) auto
  moreover have "fle (FNum 0) ?num"
    using fin t by (intro fsub_nonneg) (auto intro: flt_imp_fle)
  ultimately have "\<not> is_nan (fdiv B64 ?num ?span)"
    using span finite_between fdiv_not_nan by blast
  then show ?thesis using False br
    by (auto simp: interpolate_in_def Let_def intro!: exI clamp_unit)
qed

lemma bracket_encloses:
  assumes "xs \<noteq> []" "flt (mono_secs (hd xs)) t" "fle t (mono_secs (last xs))"
  obtains us a c vs where "xs = us @ a # c # vs" "bracket t xs = (a, c)"
    "\<not> fle t (mono_secs a)" "fle t (mono_secs c)"
proof -
  obtain s ys where xs: "xs = s # ys" using assms(1) by (cases xs) auto
  have s: "\<not> fge (mono_secs s) t" using assms(2) xs by (auto dest: fle_flt_False)
  then have ex: "\<exists>x \<in> set ys. fge (mono_secs x) t"
    using assms(3) xs last_in_set [of ys] by (cases "ys = []") auto
  have "bracket t xs = bracket_scan t s ys (last xs)"
    using s by (simp add: bracket_def xs)
  with bracket_scan_props [OF s ex, of "last xs"] show ?thesis
    using that xs by (metis prod.collapse)
qed

section \<open>Properties\<close>

fun push_all :: "residual_buffer \<Rightarrow> nav_snapshot list \<Rightarrow> residual_buffer" where
  "push_all b [] = b"
| "push_all b (s # xs) = push_all (buffer_push b s) xs"

lemma buffer_push_frame [simp]:
  "capacity (buffer_push b s) = capacity b" "window_secs (buffer_push b s) = window_secs b"
  "max_extrapolation_s (buffer_push b s) = max_extrapolation_s b"
  by (simp_all add: buffer_push_def)

lemma push_all_bounded: "length (buf b) \<le> capacity b \<Longrightarrow> length (buf (push_all b xs)) \<le> capacity b"
proof (induction xs arbitrary: b)
  case (Cons s xs)
  have "length (buf (buffer_push b s)) \<le> capacity (buffer_push b s)"
    using trim_capacity_length by (simp add: buffer_push_def)
  from Cons.IH [OF this] show ?case by simp
qed simp

text \<open>
  The buffer is bounded whatever is pushed: a buffer built by \<open>buffer_new\<close> never
  holds more than its capacity, at most \<open>(2 ^ 63 - 1) / 56\<close> snapshots.
\<close>

theorem buffer_bounded:
  assumes "buffer_new w rate = Some b"
  shows "length (buf (push_all b xs)) \<le> capacity b \<and> 56 * capacity b \<le> 2 ^ 63 - 1"
  using assms push_all_bounded [of b xs]
  by (auto simp: buffer_new_def Let_def split: if_splits)

lemma buffer_capacity_zero: "buffer_capacity (FNum 0) (FNum 100) = 4"
proof -
  have "fin_in (of_int 1) (of_int 2) (lit B64 (11 / 10))"
    unfolding lit_def by (intro fround_in bound_ok_int) simp_all
  then obtain v where "lit B64 (11 / 10) = FNum v" "1 \<le> v"
    by (cases "lit B64 (11 / 10)") (auto simp: fin_in_def)
  then show ?thesis
    by (simp add: buffer_capacity_def fmul_FNum fceil_def cast_usize_def cast_int_def ftrunc_def)
qed

theorem buffer_bounded_witness:
  "length (buf (push_all
      \<lparr>buf = [], capacity = 4, window_secs = FNum 0, max_extrapolation_s = DEFAULT_MAX_EXTRAPOLATION_S\<rparr>
      (replicate 9 \<lparr>mono_secs = FNum 1, snap_pos = ned_default, snap_vel = ned_default\<rparr>))) \<le> 4"
  using buffer_bounded [of "FNum 0" "FNum 100"
      "\<lparr>buf = [], capacity = 4, window_secs = FNum 0, max_extrapolation_s = DEFAULT_MAX_EXTRAPOLATION_S\<rparr>"
      "replicate 9 \<lparr>mono_secs = FNum 1, snap_pos = ned_default, snap_vel = ned_default\<rparr>"]
  by (simp add: buffer_new_def buffer_capacity_zero Let_def)

text \<open>
  A push keeps the newest snapshot at the end, drops only from the front, and leaves a
  time-ordered buffer in which no snapshot is older than the window allows.
\<close>

theorem buffer_push_window:
  assumes "times_ok (buf b @ [s])" and "1 \<le> capacity b" and "fle (FNum 0) (window_secs b)"
  shows "(\<exists>ys. buf b @ [s] = ys @ buf (buffer_push b s))
    \<and> buf (buffer_push b s) \<noteq> [] \<and> last (buf (buffer_push b s)) = s
    \<and> times_ok (buf (buffer_push b s))
    \<and> list_all (\<lambda>x. \<not> fgt (fsub B64 (mono_secs s) (mono_secs x)) (window_secs b)) (buf (buffer_push b s))"
proof -
  have fin: "is_finite (mono_secs x)" if "x \<in> set (buf b @ [s])" for x
    using assms(1) that by (auto simp: times_ok_def list_all_iff)
  have old: "\<not> fgt (fsub B64 (mono_secs s) (mono_secs s)) (window_secs b)"
  proof -
    have "feq (fsub B64 (mono_secs s) (mono_secs s)) (FNum 0)"
      using fin [of s] by (cases "mono_secs s") (auto simp: fsub_FNum, simp add: fsub_def fadd_def feq_def)
    then show ?thesis using assms(3)
      by (cases "fsub B64 (mono_secs s) (mono_secs s)"; cases "window_secs b") (auto simp: feq_def)
  qed
  obtain ys where ys: "buf b @ [s] = ys @ buf (buffer_push b s)" using push_suffix by blast
  obtain us where us: "trim_window (mono_secs s) (window_secs b) (buf b @ [s]) = us @ [s]"
    using trim_window_last [OF old] by blast
  obtain zs where zs: "buf (buffer_push b s) = zs @ [s]"
    using trim_capacity_last [OF assms(2), of us s] us by (auto simp: buffer_push_def)
  have ok: "times_ok (buf (buffer_push b s))"
    using assms(1) unfolding ys by (simp add: times_ok_def sorted_wrt_append)
  have win: "\<not> fgt (fsub B64 (mono_secs s) (mono_secs x)) (window_secs b)" if "x \<in> set (us @ [s])" for x
  proof -
    let ?u = "hd (us @ [s])"
    have hd: "\<not> fgt (fsub B64 (mono_secs s) (mono_secs ?u)) (window_secs b)"
      using us hd_dropWhile [of "\<lambda>s'. fgt (fsub B64 (mono_secs s) (mono_secs s')) (window_secs b)" "buf b @ [s]"]
      unfolding trim_window_def by (metis append_is_Nil_conv not_Cons_self2)
    obtain ps where ps: "buf b @ [s] = ps @ us @ [s]"
      using us dropWhile_suffix_ex unfolding trim_window_def by metis
    have srt: "sorted_wrt (\<lambda>a b. fle (mono_secs a) (mono_secs b)) (us @ [s])"
      using assms(1) unfolding ps by (simp add: times_ok_def sorted_wrt_append)
    have fx: "is_finite (mono_secs x)" "is_finite (mono_secs ?u)"
      using fin that unfolding ps by (cases us; auto)+
    have "fle (mono_secs ?u) (mono_secs x)"
      using that srt fx is_finite_not_nan by (cases us) auto
    then have "fle (fsub B64 (mono_secs s) (mono_secs x)) (fsub B64 (mono_secs s) (mono_secs ?u))"
      using fx fin [of s] is_finite_not_nan by (intro fsub_mono) auto
    with hd show ?thesis using flt_fle_trans by blast
  qed
  have "buf (buffer_push b s) = drop (length (us @ [s]) - capacity b) (us @ [s])"
    unfolding buffer_push_def trim_capacity_def us by (simp del: drop_append)
  then have "set (buf (buffer_push b s)) \<subseteq> set (us @ [s])" by (simp only: set_drop_subset)
  then have "list_all (\<lambda>x. \<not> fgt (fsub B64 (mono_secs s) (mono_secs x)) (window_secs b)) (buf (buffer_push b s))"
    using win by (auto simp: list_all_iff)
  with ys zs ok show ?thesis by auto
qed

theorem buffer_push_window_witness:
  "last (buf (buffer_push
      \<lparr>buf = [\<lparr>mono_secs = FNum 1, snap_pos = ned_default, snap_vel = ned_default\<rparr>], capacity = 4,
        window_secs = FNum 2, max_extrapolation_s = FNum 1\<rparr>
      \<lparr>mono_secs = FNum 9, snap_pos = ned_default, snap_vel = ned_default\<rparr>))
    = \<lparr>mono_secs = FNum 9, snap_pos = ned_default, snap_vel = ned_default\<rparr>"
  using buffer_push_window [of
      "\<lparr>buf = [\<lparr>mono_secs = FNum 1, snap_pos = ned_default, snap_vel = ned_default\<rparr>], capacity = 4,
        window_secs = FNum 2, max_extrapolation_s = FNum 1\<rparr>"
      "\<lparr>mono_secs = FNum 9, snap_pos = ned_default, snap_vel = ned_default\<rparr>"]
  by (simp add: times_ok_def)

text \<open>
  A fix inside the buffered span is aligned with the two adjacent snapshots that
  enclose it in time: the result is the older of them (when their distance rounds to zero)
  or a blend of the two with a weight between 0 and 1, the same for every component.
\<close>

theorem interpolate_encloses_fix:
  assumes ok: "times_ok (buf b)" and t: "is_finite t"
    and inside: "flt (mono_secs (hd (buf b))) t" "flt t (mono_secs (last (buf b)))"
    and span: "is_finite (fsub B64 (mono_secs (last (buf b))) (mono_secs (hd (buf b))))"
    and res: "interpolate b t = Inr pv"
  shows "\<exists>us a c vs. buf b = us @ a # c # vs \<and> flt (mono_secs a) t \<and> fle t (mono_secs c)
    \<and> (pv = (snap_pos a, snap_vel a)
       \<or> (\<exists>alpha. fin_in 0 1 alpha \<and>
            pv = (ned_lerp alpha (snap_pos a) (snap_pos c), ned_lerp alpha (snap_vel a) (snap_vel c))))"
proof -
  have ne: "buf b \<noteq> []" using res by (auto simp: interpolate_def)
  obtain us a c vs where xs: "buf b = us @ a # c # vs" and br: "bracket t (buf b) = (a, c)"
    and ac: "\<not> fle t (mono_secs a)" "fle t (mono_secs c)"
    using bracket_encloses [OF ne inside(1)] inside(2) flt_imp_fle by metis
  have all_fin: "\<forall>s \<in> set (buf b). is_finite (mono_secs s)"
    using ok by (simp add: times_ok_def list_all_iff)
  have fin: "is_finite (mono_secs a)" "is_finite (mono_secs c)"
      "is_finite (mono_secs (hd (buf b)))" "is_finite (mono_secs (last (buf b)))"
    using all_fin hd_in_set [OF ne] last_in_set [OF ne] xs by auto
  have at: "flt (mono_secs a) t" using ac(1) fin(1) t is_finite_not_nan not_fle by blast
  have le: "fle (mono_secs (hd (buf b))) (mono_secs a)" "fle (mono_secs a) (mono_secs c)"
      "fle (mono_secs c) (mono_secs (last (buf b)))"
    using ok fin is_finite_not_nan unfolding times_ok_def xs
    by (cases us; cases "vs = []"; force simp: sorted_wrt_append)+
  have "is_finite (fsub B64 (mono_secs c) (mono_secs a))"
  proof (rule finite_between [OF _ _ span])
    show "fle (FNum 0) (fsub B64 (mono_secs c) (mono_secs a))"
      using fin le by (intro fsub_nonneg) simp_all
    show "fle (fsub B64 (mono_secs c) (mono_secs a)) (fsub B64 (mono_secs (last (buf b))) (mono_secs (hd (buf b))))"
      using fin le by (intro fsub_mono) simp_all
  qed
  from interpolate_in_enclosed [OF fin(1,2) t br at ac(2) this]
  have "interpolate_in (buf b) t = (snap_pos a, snap_vel a)
    \<or> (\<exists>alpha. fin_in 0 1 alpha \<and> interpolate_in (buf b) t
          = (ned_lerp alpha (snap_pos a) (snap_pos c), ned_lerp alpha (snap_vel a) (snap_vel c)))" .
  moreover have "pv = interpolate_in (buf b) t"
    using res ne inside fle_flt_False
    by (auto simp: interpolate_def Let_def split: list.splits if_splits)
  ultimately show ?thesis using xs at ac(2) by blast
qed

lemma back_tolerance_in: "fin_in 0 1 back_tolerance"
  unfolding back_tolerance_def lit_def using bound_ok_int [of B64 0] bound_ok_int [of B64 1]
  by (intro fround_in) simp_all

definition two_snaps :: residual_buffer where
  "two_snaps = \<lparr>buf = [\<lparr>mono_secs = FNum 1, snap_pos = ned_default, snap_vel = ned_default\<rparr>,
      \<lparr>mono_secs = FNum 3, snap_pos = ned_default\<lparr>ned_n := FNum 8\<rparr>, snap_vel = ned_default\<rparr>],
     capacity = 4, window_secs = FNum 2, max_extrapolation_s = FNum 1\<rparr>"

lemma two_snaps_served: "interpolate two_snaps (FNum 2) = Inr (interpolate_in (buf two_snaps) (FNum 2))"
proof -
  have "fin_in (1 - 1) (1 - 0) (fsub B64 (FNum 1) back_tolerance)"
    using bound_ok_int [of B64 0] bound_ok_int [of B64 1] back_tolerance_in
    by (intro fsub_in) simp_all
  then have "\<not> flt (FNum 2) (fsub B64 (FNum 1) back_tolerance)"
    by (cases "fsub B64 (FNum 1) back_tolerance") (auto simp: fin_in_def)
  then show ?thesis
    by (simp add: interpolate_def two_snaps_def outside_def fadd_FNum Let_def)
qed

theorem interpolate_encloses_fix_witness:
  "\<exists>us a c vs. buf two_snaps = us @ a # c # vs \<and> flt (mono_secs a) (FNum 2) \<and> fle (FNum 2) (mono_secs c)
    \<and> (interpolate_in (buf two_snaps) (FNum 2) = (snap_pos a, snap_vel a)
       \<or> (\<exists>alpha. fin_in 0 1 alpha \<and> interpolate_in (buf two_snaps) (FNum 2)
            = (ned_lerp alpha (snap_pos a) (snap_pos c), ned_lerp alpha (snap_vel a) (snap_vel c))))"
  by (rule interpolate_encloses_fix [OF _ _ _ _ _ two_snaps_served])
    (simp_all add: two_snaps_def times_ok_def fsub_FNum)

end
