(* ===== verification/Nav.thy ===== *)
theory Nav
  imports Attitude Residual_Buffer
begin

text \<open>
  The dead reckoner, \<open>src/src/nav/mod.rs\<close>: static initialisation from the first IMU
  samples, the gated integration step, the GPS anchor and the complementary velocity
  blend. \<open>step\<close> is split at its early returns: \<open>static_init\<close> (until initialised),
  \<open>imu_dt\<close> (the integration-gap gate) and \<open>integrate_sample\<close>. Log output is left out.
\<close>

section \<open>Constants and state\<close>

definition R_EARTH_M :: f64 where "R_EARTH_M = FNum 6378137"
definition G :: f64 where "G = lit B64 (980665 / 100000)"
definition DEFAULT_MAX_IMU_DT_S :: f32 where "DEFAULT_MAX_IMU_DT_S = lit B32 (10 / 100)"
definition IMU_GATE_PERIOD_FACTOR :: f32 where "IMU_GATE_PERIOD_FACTOR = lit B32 (25 / 10)"
definition AUTO_IMU_GATE_MAX_S :: f32 where "AUTO_IMU_GATE_MAX_S = FNum 1"
definition IMU_STARVATION_SKIP_THRESHOLD :: u32 where "IMU_STARVATION_SKIP_THRESHOLD = 25"
definition MANEUVER_GYRO_ALPHA_RISE :: f32 where "MANEUVER_GYRO_ALPHA_RISE = lit B32 (1 / 10)"
definition MANEUVER_GYRO_ALPHA_FALL :: f32 where "MANEUVER_GYRO_ALPHA_FALL = lit B32 (1 / 100)"
definition MANEUVER_GYRO_THRESHOLD_RPS :: f32 where "MANEUVER_GYRO_THRESHOLD_RPS = lit B32 (4 / 100)"
definition MAX_CENTRIPETAL_MPS2 :: f32 where "MAX_CENTRIPETAL_MPS2 = FNum 30"

record nav_config =
  madgwick_beta :: f32
  imu_bias_window_s :: f32
  blend_tau_s :: f32
  dead_reckon_freeze_on_suspicious :: bool
  bias_ema_alpha :: f32
  static_init_s :: f32
  yaw_from_gps_speed_min_mps :: f32
  expected_home :: "(f64 \<times> f64) option"
  max_home_distance_m :: f64
  max_imu_dt_s :: f32

definition nav_config_default :: nav_config where
  "nav_config_default = \<lparr>
     madgwick_beta = lit B32 (5 / 100),
     imu_bias_window_s = FNum 5,
     blend_tau_s = FNum 3,
     dead_reckon_freeze_on_suspicious = True,
     bias_ema_alpha = lit B32 (1 / 100),
     static_init_s = FNum 1,
     yaw_from_gps_speed_min_mps = FNum 2,
     expected_home = None,
     max_home_distance_m = FNum 1000,
     max_imu_dt_s = DEFAULT_MAX_IMU_DT_S\<rparr>"

record dead_reckoner =
  dr_cfg :: nav_config
  attitude :: madgwick
  strap :: strapdown
  bias :: bias_estimator
  origin :: "(f64 \<times> f64 \<times> f64) option"
  dr_boot :: instant
  last_imu_mono :: "f64 option"
  initialized :: bool
  static_init_accum :: nat
  static_init_target :: nat
  static_init_accel_sum :: vec3
  static_init_first_mono :: "f64 option"
  dr_state :: nav_state_kind
  yaw_seeded_from_gps :: bool
  last_gps_mono :: "f64 option"
  anchor_locked :: bool
  consecutive_imu_skips :: u32
  imu_starvation_warned :: bool
  aiding_n :: f64
  aiding_e :: f64
  recent_gyro_mag :: f32

definition dr_new :: "nav_config \<Rightarrow> instant \<Rightarrow> dead_reckoner" where
  "dr_new cfg boot = \<lparr>
     dr_cfg = cfg, attitude = madgwick_new (madgwick_beta cfg), strap = strapdown_new,
     bias = bias_new (bias_ema_alpha cfg) (imu_bias_window_s cfg), origin = None, dr_boot = boot,
     last_imu_mono = None, initialized = False, static_init_accum = 0, static_init_target = 0,
     static_init_accel_sum = vec3_zero, static_init_first_mono = None, dr_state = Normal,
     yaw_seeded_from_gps = False, last_gps_mono = None, anchor_locked = False,
     consecutive_imu_skips = 0, imu_starvation_warned = False, aiding_n = FNum 0, aiding_e = FNum 0,
     recent_gyro_mag = FNum 0\<rparr>"

definition set_state :: "nav_state_kind \<Rightarrow> dead_reckoner \<Rightarrow> dead_reckoner" where
  "set_state st d = d\<lparr>dr_state := st\<rparr>"

definition dr_mono_secs :: "dead_reckoner \<Rightarrow> instant \<Rightarrow> f64" where
  "dr_mono_secs d t = as_secs_f64 (saturating_duration_since t (dr_boot d))"

definition is_initialized :: "dead_reckoner \<Rightarrow> bool" where
  "is_initialized d \<longleftrightarrow> initialized d \<and> origin d \<noteq> None"

section \<open>One IMU sample\<close>

text \<open>The gate is widened to the observed cadence, within the default and the cap.\<close>

definition auto_gate :: "f64 option \<Rightarrow> f64 option \<Rightarrow> nat \<Rightarrow> f32 \<Rightarrow> f32" where
  "auto_gate first_t last_t accum gate =
     (case (first_t, last_t) of
        (Some f, Some l) \<Rightarrow>
          (let span = to_f32 (sub64 l f); intervals = accum - 1
           in if fgt span (FNum 0) \<and> 0 < intervals
              then let observed_period = div32 span (of_int_fl B32 (int intervals));
                       needed_gate = fclampv (mul32 IMU_GATE_PERIOD_FACTOR observed_period)
                         DEFAULT_MAX_IMU_DT_S AUTO_IMU_GATE_MAX_S
                   in if fgt needed_gate gate then needed_gate else gate
              else gate)
      | _ \<Rightarrow> gate)"

definition static_init :: "nav_math \<Rightarrow> f64 \<Rightarrow> vec3 \<Rightarrow> dead_reckoner \<Rightarrow> dead_reckoner" where
  "static_init mm t accel d =
     (let target = (if static_init_target d = 0
                    then cast_usize (fmax (mul64 (static_init_s (dr_cfg d)) (FNum 100)) (FNum 10))
                    else static_init_target d);
          first = (if static_init_first_mono d = None then Some t else static_init_first_mono d);
          sum = vec3_map2 add64 (static_init_accel_sum d) accel;
          accum = static_init_accum d + 1;
          d1 = d\<lparr>static_init_target := target, static_init_first_mono := first,
                 static_init_accel_sum := sum, static_init_accum := accum, last_imu_mono := Some t\<rparr>
      in if target \<le> accum
         then let n = of_int_fl B64 (int accum);
                  avg = vec3_map (\<lambda>s. to_f32 (div64 s n)) sum
              in d1\<lparr>attitude := init_from_accel mm avg (attitude d), initialized := True,
                    dr_cfg := (dr_cfg d)\<lparr>max_imu_dt_s := auto_gate first (Some t) accum (max_imu_dt_s (dr_cfg d))\<rparr>\<rparr>
         else d1)"

text \<open>\<open>Inl\<close>: the sample is skipped with the given state; \<open>Inr dt\<close>: integrate over \<open>dt\<close>.\<close>

definition imu_dt :: "f64 \<Rightarrow> dead_reckoner \<Rightarrow> dead_reckoner + f32" where
  "imu_dt t d =
     (case last_imu_mono d of
        None \<Rightarrow> Inr (lit B32 (1 / 100))
      | Some prev \<Rightarrow>
          (let raw = to_f32 (sub64 t prev)
           in if \<not> is_finite raw \<or> fle raw (FNum 0) then Inl (d\<lparr>last_imu_mono := Some t\<rparr>)
              else if fgt raw (max_imu_dt_s (dr_cfg d))
              then let skips = saturating_add (consecutive_imu_skips d) 1
                   in Inl (d\<lparr>consecutive_imu_skips := skips,
                            imu_starvation_warned := (imu_starvation_warned d \<or> IMU_STARVATION_SKIP_THRESHOLD \<le> skips),
                            last_imu_mono := Some t\<rparr>)
              else Inr (fmax raw (lit B32 (1 / 10 ^ 6)))))"

definition bound_centripetal :: "vec3 \<Rightarrow> vec3" where
  "bound_centripetal a =
     (let mag = vec3_norm B32 a
      in if \<not> is_finite mag then vec3_zero
         else if fgt mag MAX_CENTRIPETAL_MPS2
         then let s = div32 MAX_CENTRIPETAL_MPS2 mag in vec3_map (\<lambda>x. mul32 x s) a
         else a)"

definition cross32 :: "vec3 \<Rightarrow> vec3 \<Rightarrow> vec3" where
  "cross32 w v = \<lparr>
     v0 = sub32 (mul32 (v1 w) (v2 v)) (mul32 (v2 w) (v1 v)),
     v1 = sub32 (mul32 (v2 w) (v0 v)) (mul32 (v0 w) (v2 v)),
     v2 = sub32 (mul32 (v0 w) (v1 v)) (mul32 (v1 w) (v0 v))\<rparr>"

text \<open>Everything up to the linear acceleration runs for every sample in time; the position is integrated only with an origin.\<close>

definition track_attitude :: "nav_math \<Rightarrow> vec3 \<Rightarrow> vec3 \<Rightarrow> f32 \<Rightarrow> dead_reckoner \<Rightarrow> dead_reckoner" where
  "track_attitude mm accel gyro dt d =
     (let allow_bias = (dr_state d = Normal);
          b = observe accel gyro dt allow_bias (bias d);
          gyro_corr = vec3_map2 sub32 gyro (be_gyro b);
          gmag = vec3_norm B32 gyro_corr;
          a = (if fgt gmag (recent_gyro_mag d) then MANEUVER_GYRO_ALPHA_RISE else MANEUVER_GYRO_ALPHA_FALL);
          v_ned = sd_vel (strap d);
          v_body = rotate_ned_to_body mm (mq (attitude d))
            \<lparr>v0 = to_f32 (ned_n v_ned), v1 = to_f32 (ned_e v_ned), v2 = to_f32 (ned_d v_ned)\<rparr>;
          a_cent_body = bound_centripetal (cross32 gyro_corr v_body)
      in d\<lparr>bias := b,
           recent_gyro_mag := add32 (mul32 (sub32 (FNum 1) a) (recent_gyro_mag d)) (mul32 a gmag),
           attitude := update_with_lin_accel accel gyro_corr dt a_cent_body (attitude d)\<rparr>)"

definition integrate_sample ::
    "nav_math \<Rightarrow> f64 \<Rightarrow> vec3 \<Rightarrow> f32 \<Rightarrow> dead_reckoner \<Rightarrow> nav_snapshot option \<times> dead_reckoner" where
  "integrate_sample mm t accel dt d =
     (let a_ned = rotate_body_to_ned mm (mq (attitude d)) accel;
          a_lin = a_ned\<lparr>v2 := add64 (v2 a_ned) G\<rparr>
      in if \<not> is_initialized d then (None, d)
         else let (a_lin_corr, b) = correct_and_update_accel_ned a_lin (dr_state d = Normal) (bias d);
                  s = integrate a_lin_corr dt (strap d)
              in (Some \<lparr>mono_secs = t, snap_pos = sd_pos s, snap_vel = sd_vel s\<rparr>, d\<lparr>bias := b, strap := s\<rparr>))"

definition step :: "nav_math \<Rightarrow> imu_sample \<Rightarrow> dead_reckoner \<Rightarrow> (nav_error + nav_snapshot option) \<times> dead_reckoner" where
  "step mm sample d =
     (if \<not> vec3_finite (accel_mps2 sample) then (Inl (NonFinite ''accel''), d)
      else if \<not> vec3_finite (gyro_rps sample) then (Inl (NonFinite ''gyro''), d)
      else
        let t = dr_mono_secs d (mono (imu_t sample))
        in if \<not> initialized d then (Inr None, static_init mm t (accel_mps2 sample) d)
           else case imu_dt t d of
                  Inl d' \<Rightarrow> (Inr None, d')
                | Inr dt \<Rightarrow>
                    (let d1 = d\<lparr>last_imu_mono := Some t, consecutive_imu_skips := 0, imu_starvation_warned := False\<rparr>;
                         d2 = track_attitude mm (accel_mps2 sample) (gyro_rps sample) dt d1;
                         (snap, d3) = integrate_sample mm t (accel_mps2 sample) dt d2
                     in (Inr snap, d3)))"

section \<open>GPS fixes\<close>

definition gps_velocity :: "nav_math \<Rightarrow> gps_fix \<Rightarrow> ned_vel option" where
  "gps_velocity mm fx =
     (case (speed_mps fx, course_deg fx) of
        (Some speed, Some c) \<Rightarrow>
          (let course = to_radians B64 c
           in Some \<lparr>ned_n = mul64 speed (cos64 mm course), ned_e = mul64 speed (sin64 mm course), ned_d = FNum 0\<rparr>)
      | _ \<Rightarrow> None)"

definition blend_dt :: "f64 \<Rightarrow> dead_reckoner \<Rightarrow> f32" where
  "blend_dt now_mono d =
     (case last_gps_mono d of
        Some prev \<Rightarrow>
          (let dd = to_f32 (sub64 now_mono prev)
           in if is_finite dd \<and> fgt dd (FNum 0) then fmin dd (FNum 5) else FNum 1)
      | None \<Rightarrow> FNum 1)"

definition seed_yaw :: "nav_math \<Rightarrow> gps_fix \<Rightarrow> dead_reckoner \<Rightarrow> dead_reckoner" where
  "seed_yaw mm fx d =
     (if yaw_seeded_from_gps d then d
      else case (course_deg fx, speed_mps fx) of
             (Some course, Some speed) \<Rightarrow>
               (if fge (to_f32 speed) (yaw_from_gps_speed_min_mps (dr_cfg d))
                then d\<lparr>attitude := seed_yaw_deg mm (to_f32 course) (attitude d), yaw_seeded_from_gps := True\<rparr>
                else d)
           | _ \<Rightarrow> d)"

definition anchor :: "gps_fix \<Rightarrow> ned_vel option \<Rightarrow> dead_reckoner \<Rightarrow> dead_reckoner" where
  "anchor fx gps_vel d =
     (let s = strapdown_reset (strap d);
          s' = (case gps_vel of Some v \<Rightarrow> set_vel v s | None \<Rightarrow> s)
      in d\<lparr>origin := Some (lat_deg fx, lon_deg fx, alt_m fx), strap := s', aiding_n := FNum 0, aiding_e := FNum 0,
           anchor_locked := (initialized d \<or> anchor_locked d)\<rparr>)"

definition blend_alpha :: "f32 \<Rightarrow> dead_reckoner \<Rightarrow> f64" where
  "blend_alpha dt_blend d = fclampv (div32 dt_blend (fmax (blend_tau_s (dr_cfg d)) (lit B32 (5 / 100)))) (FNum 0) (FNum 1)"

definition blend :: "f32 \<Rightarrow> ned_vel option \<Rightarrow> dead_reckoner \<Rightarrow> dead_reckoner" where
  "blend dt_blend gps_vel d =
     (if dr_state d = Normal \<or> \<not> dead_reckon_freeze_on_suspicious (dr_cfg d)
      then (case gps_vel of
              None \<Rightarrow> d
            | Some vg \<Rightarrow>
                (let alpha = blend_alpha dt_blend d;
                     v = sd_vel (strap d);
                     cn = mul64 alpha (sub64 (ned_n vg) (ned_n v));
                     ce = mul64 alpha (sub64 (ned_e vg) (ned_e v))
                 in d\<lparr>aiding_n := add64 (aiding_n d) cn, aiding_e := add64 (aiding_e d) ce,
                      strap := set_vel \<lparr>ned_n = add64 (ned_n v) cn, ned_e = add64 (ned_e v) ce,
                        ned_d = add64 (ned_d v) (mul64 alpha (sub64 (ned_d vg) (ned_d v)))\<rparr> (strap d)\<rparr>))
      else d)"

definition on_gps_fix :: "nav_math \<Rightarrow> gps_fix \<Rightarrow> dead_reckoner \<Rightarrow> dead_reckoner" where
  "on_gps_fix mm fx d =
     (let gps_vel = gps_velocity mm fx;
          now_mono = dr_mono_secs d (mono (fix_t fx));
          dt_blend = blend_dt now_mono d;
          d1 = seed_yaw mm fx (d\<lparr>last_gps_mono := Some now_mono\<rparr>)
      in if \<not> anchor_locked d1 then anchor fx gps_vel d1 else blend dt_blend gps_vel d1)"

definition re_anchor_after_clearing :: "gps_fix \<Rightarrow> dead_reckoner \<Rightarrow> dead_reckoner" where
  "re_anchor_after_clearing fx d =
     d\<lparr>origin := Some (lat_deg fx, lon_deg fx, alt_m fx), strap := set_pos ned_default (strap d),
       aiding_n := FNum 0, aiding_e := FNum 0\<rparr>"

definition aiding_vel :: "dead_reckoner \<Rightarrow> ned_vel" where
  "aiding_vel d = \<lparr>ned_n = aiding_n d, ned_e = aiding_e d, ned_d = FNum 0\<rparr>"

definition is_maneuvering :: "dead_reckoner \<Rightarrow> bool" where
  "is_maneuvering d \<longleftrightarrow> fgt (recent_gyro_mag d) MANEUVER_GYRO_THRESHOLD_RPS"

definition lla_to_ned :: "nav_math \<Rightarrow> f64 \<Rightarrow> f64 \<Rightarrow> f64 \<Rightarrow> f64 \<Rightarrow> f64 \<Rightarrow> ned_pos" where
  "lla_to_ned mm lat lon alt lat0 lon0 =
     (let lat0_rad = to_radians B64 lat0;
          dlat = to_radians B64 (sub64 lat lat0);
          dlon = to_radians B64 (sub64 lon lon0)
      in \<lparr>ned_n = mul64 dlat R_EARTH_M, ned_e = mul64 (mul64 dlon R_EARTH_M) (cos64 mm lat0_rad), ned_d = fneg alt\<rparr>)"

definition gps_in_ned :: "nav_math \<Rightarrow> gps_fix \<Rightarrow> dead_reckoner \<Rightarrow> ned_pos option" where
  "gps_in_ned mm fx d =
     map_option (\<lambda>(lat0, lon0, _). lla_to_ned mm (lat_deg fx) (lon_deg fx) (alt_m fx) lat0 lon0) (origin d)"

definition is_first_fix_plausible :: "nav_math \<Rightarrow> gps_fix \<Rightarrow> dead_reckoner \<Rightarrow> f64 + unit" where
  "is_first_fix_plausible mm fx d =
     (case expected_home (dr_cfg d) of
        None \<Rightarrow> Inr ()
      | Some (home_lat, home_lon) \<Rightarrow>
          (if anchor_locked d then Inr ()
           else let dist = horizontal_norm (lla_to_ned mm (lat_deg fx) (lon_deg fx) (FNum 0) home_lat home_lon)
                in if fle dist (max_home_distance_m (dr_cfg d)) then Inr () else Inl dist))"

definition validate_fix_against_reference :: "ned_pos \<Rightarrow> ned_pos \<Rightarrow> f64 \<Rightarrow> f64 + unit" where
  "validate_fix_against_reference fix_ned reference max_m =
     (let dn = sub64 (ned_n fix_ned) (ned_n reference);
          de = sub64 (ned_e fix_ned) (ned_e reference);
          dist = fsqrt B64 (add64 (mul64 dn dn) (mul64 de de))
      in if fle dist max_m then Inr () else Inl dist)"

definition dr_pos :: "dead_reckoner \<Rightarrow> ned_pos" where
  "dr_pos d = sd_pos (strap d)"

section \<open>What an operation leaves alone\<close>

lemma static_init_frame [simp, nav_frame]:
  "dr_state (static_init mm t a d) = dr_state d" "anchor_locked (static_init mm t a d) = anchor_locked d"
  "origin (static_init mm t a d) = origin d" "strap (static_init mm t a d) = strap d"
  "dead_reckon_freeze_on_suspicious (dr_cfg (static_init mm t a d)) = dead_reckon_freeze_on_suspicious (dr_cfg d)"
  "yaw_seeded_from_gps (static_init mm t a d) = yaw_seeded_from_gps d"
  "aiding_n (static_init mm t a d) = aiding_n d" "aiding_e (static_init mm t a d) = aiding_e d"
  by (simp_all add: static_init_def Let_def)

lemma imu_dt_frame [nav_frame]:
  "imu_dt t d = Inl d' \<Longrightarrow> dr_state d' = dr_state d \<and> anchor_locked d' = anchor_locked d \<and> origin d' = origin d
     \<and> dr_cfg d' = dr_cfg d \<and> yaw_seeded_from_gps d' = yaw_seeded_from_gps d \<and> initialized d' = initialized d
     \<and> strap d' = strap d"
  by (auto simp: imu_dt_def Let_def split: option.splits if_splits)

lemma track_attitude_frame [simp, nav_frame]:
  "dr_state (track_attitude mm a g dt d) = dr_state d" "anchor_locked (track_attitude mm a g dt d) = anchor_locked d"
  "origin (track_attitude mm a g dt d) = origin d" "strap (track_attitude mm a g dt d) = strap d"
  "dr_cfg (track_attitude mm a g dt d) = dr_cfg d" "initialized (track_attitude mm a g dt d) = initialized d"
  "yaw_seeded_from_gps (track_attitude mm a g dt d) = yaw_seeded_from_gps d"
  by (simp_all add: track_attitude_def Let_def)

lemma integrate_sample_frame [simp, nav_frame]:
  "dr_state (snd (integrate_sample mm t a dt d)) = dr_state d"
  "anchor_locked (snd (integrate_sample mm t a dt d)) = anchor_locked d"
  "origin (snd (integrate_sample mm t a dt d)) = origin d" "dr_cfg (snd (integrate_sample mm t a dt d)) = dr_cfg d"
  "initialized (snd (integrate_sample mm t a dt d)) = initialized d"
  "yaw_seeded_from_gps (snd (integrate_sample mm t a dt d)) = yaw_seeded_from_gps d"
  by (simp_all add: integrate_sample_def Let_def split: prod.splits)

lemma step_cases:
  obtains (rejected) e where "step mm s d = (Inl e, d)"
  | (static) "\<not> initialized d" "step mm s d = (Inr None, static_init mm (dr_mono_secs d (mono (imu_t s))) (accel_mps2 s) d)"
  | (skipped) d' where "initialized d" "imu_dt (dr_mono_secs d (mono (imu_t s))) d = Inl d'" "step mm s d = (Inr None, d')"
  | (integrated) dt d2 where "initialized d" "imu_dt (dr_mono_secs d (mono (imu_t s))) d = Inr dt"
      "d2 = track_attitude mm (accel_mps2 s) (gyro_rps s) dt
         (d\<lparr>last_imu_mono := Some (dr_mono_secs d (mono (imu_t s))), consecutive_imu_skips := 0, imu_starvation_warned := False\<rparr>)"
      "step mm s d = (Inr (fst (integrate_sample mm (dr_mono_secs d (mono (imu_t s))) (accel_mps2 s) dt d2)),
         snd (integrate_sample mm (dr_mono_secs d (mono (imu_t s))) (accel_mps2 s) dt d2))"
proof -
  consider "\<not> vec3_finite (accel_mps2 s) \<or> \<not> vec3_finite (gyro_rps s)"
    | "vec3_finite (accel_mps2 s) \<and> vec3_finite (gyro_rps s)" "\<not> initialized d"
    | d' where "vec3_finite (accel_mps2 s) \<and> vec3_finite (gyro_rps s)" "initialized d"
        "imu_dt (dr_mono_secs d (mono (imu_t s))) d = Inl d'"
    | dt where "vec3_finite (accel_mps2 s) \<and> vec3_finite (gyro_rps s)" "initialized d"
        "imu_dt (dr_mono_secs d (mono (imu_t s))) d = Inr dt"
    by (meson sum.exhaust)
  then show thesis
  proof cases
    case 1
    then have "\<exists>e. step mm s d = (Inl e, d)" by (auto simp: step_def)
    then show ?thesis using rejected by blast
  next
    case 2
    then show ?thesis by (intro static) (simp_all add: step_def)
  next
    case (3 d')
    then show ?thesis by (intro skipped [of d']) (simp_all add: step_def)
  next
    case (4 dt)
    then show ?thesis by (intro integrated [OF _ _ refl]) (simp_all add: step_def Let_def case_prod_beta)
  qed
qed

lemma step_frame [nav_frame]:
  "dr_state (snd (step mm s d)) = dr_state d" "anchor_locked (snd (step mm s d)) = anchor_locked d"
  "origin (snd (step mm s d)) = origin d"
  "dead_reckon_freeze_on_suspicious (dr_cfg (snd (step mm s d))) = dead_reckon_freeze_on_suspicious (dr_cfg d)"
  "yaw_seeded_from_gps (snd (step mm s d)) = yaw_seeded_from_gps d"
  by (cases rule: step_cases [of mm s d]; auto dest: imu_dt_frame)+

text \<open>The time of the last fix is read only by the blend.\<close>

lemma step_last_gps:
  "step mm s (d\<lparr>last_gps_mono := x\<rparr>) = (fst (step mm s d), (snd (step mm s d))\<lparr>last_gps_mono := x\<rparr>)"
proof -
  have t: "dr_mono_secs (d\<lparr>last_gps_mono := x\<rparr>) = dr_mono_secs d" by (simp add: dr_mono_secs_def fun_eq_iff)
  have i: "imu_dt t (d\<lparr>last_gps_mono := x\<rparr>) = map_sum (\<lambda>e. e\<lparr>last_gps_mono := x\<rparr>) id (imu_dt t d)" for t
    by (simp add: imu_dt_def Let_def split: option.splits)
  have ta: "track_attitude mm a g dt (e\<lparr>last_gps_mono := x\<rparr>) = (track_attitude mm a g dt e)\<lparr>last_gps_mono := x\<rparr>" for a g dt e
    by (simp add: track_attitude_def Let_def)
  have ig: "integrate_sample mm t a dt (e\<lparr>last_gps_mono := x\<rparr>)
      = (fst (integrate_sample mm t a dt e), (snd (integrate_sample mm t a dt e))\<lparr>last_gps_mono := x\<rparr>)" for t a dt e
    by (simp add: integrate_sample_def is_initialized_def Let_def split: prod.splits)
  have cm: "d\<lparr>last_gps_mono := x, last_imu_mono := y, consecutive_imu_skips := 0, imu_starvation_warned := False\<rparr>
      = d\<lparr>last_imu_mono := y, consecutive_imu_skips := 0, imu_starvation_warned := False, last_gps_mono := x\<rparr>" for y
    by simp
  show ?thesis
    by (simp add: step_def t i cm ta ig static_init_def Let_def split: sum.splits prod.splits)
qed

definition gps_isolated :: "dead_reckoner \<Rightarrow> bool" where
  "gps_isolated d \<longleftrightarrow> dr_state d \<noteq> Normal \<and> dead_reckon_freeze_on_suspicious (dr_cfg d)
     \<and> anchor_locked d \<and> yaw_seeded_from_gps d"

lemma isolated_fix:
  "gps_isolated d \<Longrightarrow> on_gps_fix mm fx d = d\<lparr>last_gps_mono := Some (dr_mono_secs d (mono (fix_t fx)))\<rparr>"
  by (simp add: gps_isolated_def on_gps_fix_def seed_yaw_def blend_def Let_def)

lemma isolated_step: "gps_isolated d \<Longrightarrow> gps_isolated (snd (step mm s d))"
  by (simp add: gps_isolated_def step_frame)

section \<open>Runs of the dead reckoner\<close>

datatype nav_input = InImu imu_sample | InGps gps_fix

fun nav_run :: "nav_math \<Rightarrow> nav_input list \<Rightarrow> dead_reckoner \<Rightarrow> (nav_error + nav_snapshot option) list \<times> dead_reckoner" where
  "nav_run mm [] d = ([], d)"
| "nav_run mm (InImu s # is) d =
     (let (r, d1) = step mm s d; (rs, d2) = nav_run mm is d1 in (r # rs, d2))"
| "nav_run mm (InGps fx # is) d = nav_run mm is (on_gps_fix mm fx d)"

definition imu_only :: "nav_input list \<Rightarrow> nav_input list" where
  "imu_only is = filter (\<lambda>i. case i of InImu _ \<Rightarrow> True | InGps _ \<Rightarrow> False) is"

lemma nav_run_last_gps:
  "nav_run mm (imu_only is) (d\<lparr>last_gps_mono := x\<rparr>)
     = (fst (nav_run mm (imu_only is) d), (snd (nav_run mm (imu_only is) d))\<lparr>last_gps_mono := x\<rparr>)"
proof (induction "is" arbitrary: d)
  case (Cons i "is")
  then show ?case
    by (cases i) (simp_all add: imu_only_def step_last_gps Let_def split: prod.splits)
qed (simp add: imu_only_def)

lemma isolated_run:
  assumes "gps_isolated d"
  shows "fst (nav_run mm is d) = fst (nav_run mm (imu_only is) d)
    \<and> (\<exists>x. snd (nav_run mm is d) = (snd (nav_run mm (imu_only is) d))\<lparr>last_gps_mono := x\<rparr>)"
  using assms
proof (induction "is" arbitrary: d)
  case (Nil d)
  show ?case by (intro conjI exI [of _ "last_gps_mono d"]) (simp_all add: imu_only_def)
next
  case (Cons i "is")
  show ?case
  proof (cases i)
    case (InImu s)
    have "gps_isolated (snd (step mm s d))" using Cons.prems by (rule isolated_step)
    from Cons.IH [OF this] InImu show ?thesis
      by (auto simp: imu_only_def split: prod.splits)
  next
    case (InGps fx)
    let ?x = "Some (dr_mono_secs d (mono (fix_t fx)))"
    have "gps_isolated (d\<lparr>last_gps_mono := ?x\<rparr>)" using Cons.prems by (simp add: gps_isolated_def)
    note ih = Cons.IH [OF this]
    then show ?thesis using InGps isolated_fix [OF Cons.prems, of mm fx] nav_run_last_gps [of mm "is" ?x d]
      by (auto simp: imu_only_def)
  qed
qed

section \<open>Properties\<close>

text \<open>
  C26. Once the detector is suspicious, GPS cannot steer the predictor: with freezing on,
  the anchor locked and the yaw seeded, take any sequence of IMU samples and fixes. The
  answers to the IMU samples, and with them the dead-reckoned track, are those of the
  same samples with every fix left out; the final state differs from that one at most in
  the time of the last fix.
\<close>

theorem frozen_reckoning_ignores_gps:
  assumes "gps_isolated d"
  shows "fst (nav_run mm inputs d) = fst (nav_run mm (imu_only inputs) d)
    \<and> (\<exists>x. snd (nav_run mm inputs d) = (snd (nav_run mm (imu_only inputs) d))\<lparr>last_gps_mono := x\<rparr>)"
  using assms by (rule isolated_run)

definition toy_math :: nav_math where
  "toy_math = \<lparr>sin32 = \<lambda>x. x, cos32 = \<lambda>_. FNum 1, asin32 = \<lambda>x. x, atan2_32 = \<lambda>_ _. FNum 0,
     sin64 = \<lambda>_. FNum 0, cos64 = \<lambda>_. FNum 1, rotate_body_to_ned = \<lambda>_ v. v, rotate_ned_to_body = \<lambda>_ v. v\<rparr>"

definition toy_fix :: gps_fix where
  "toy_fix = \<lparr>fix_t = at_mono 0, lat_deg = FNum 47, lon_deg = FNum 8, alt_m = FNum 400, speed_mps = Some (FNum 12),
     course_deg = Some (FNum 90), hdop = None, sats = None\<rparr>"

definition spoofed_reckoner :: dead_reckoner where
  "spoofed_reckoner = (dr_new nav_config_default 0)\<lparr>dr_state := Spoofed, anchor_locked := True,
     yaw_seeded_from_gps := True, initialized := True\<rparr>"

theorem frozen_reckoning_ignores_gps_witness:
  "fst (nav_run toy_math [InGps toy_fix] spoofed_reckoner)
     = fst (nav_run toy_math (imu_only [InGps toy_fix]) spoofed_reckoner)
    \<and> (\<exists>x. snd (nav_run toy_math [InGps toy_fix] spoofed_reckoner)
         = (snd (nav_run toy_math (imu_only [InGps toy_fix]) spoofed_reckoner))\<lparr>last_gps_mono := x\<rparr>)"
  by (rule frozen_reckoning_ignores_gps) (simp add: gps_isolated_def spoofed_reckoner_def dr_new_def nav_config_default_def)

lemma on_gps_fix_locked:
  assumes "anchor_locked d"
  shows "origin (on_gps_fix mm fx d) = origin d \<and> anchor_locked (on_gps_fix mm fx d) \<and> dr_pos (on_gps_fix mm fx d) = dr_pos d"
  using assms by (auto simp: on_gps_fix_def seed_yaw_def blend_def dr_pos_def set_vel_def Let_def split: option.splits)

text \<open>
  The anchor is permanent: once locked, no sequence of IMU samples and fixes, in any
  detector state, moves the origin or unlocks it, and a fix never moves the dead-reckoned
  position, so the position residual keeps accumulating a slow drift.
\<close>

theorem locked_anchor_permanent:
  assumes "anchor_locked d"
  shows "origin (snd (nav_run mm inputs d)) = origin d \<and> anchor_locked (snd (nav_run mm inputs d))
    \<and> dr_pos (on_gps_fix mm fx d) = dr_pos d"
proof -
  have "origin (snd (nav_run mm inputs d)) = origin d \<and> anchor_locked (snd (nav_run mm inputs d))"
    using assms
  proof (induction inputs arbitrary: d)
    case (Cons i inputs)
    show ?case
    proof (cases i)
      case (InImu s)
      then show ?thesis using Cons.IH [of "snd (step mm s d)"] Cons.prems
        by (simp add: step_frame case_prod_beta)
    next
      case (InGps fx)
      then show ?thesis using Cons.IH [of "on_gps_fix mm fx d"] Cons.prems on_gps_fix_locked by auto
    qed
  qed simp
  then show ?thesis using on_gps_fix_locked [OF assms] by blast
qed

theorem locked_anchor_permanent_witness:
  "origin (snd (nav_run toy_math [InGps toy_fix] spoofed_reckoner)) = origin spoofed_reckoner
    \<and> anchor_locked (snd (nav_run toy_math [InGps toy_fix] spoofed_reckoner))
    \<and> dr_pos (on_gps_fix toy_math toy_fix spoofed_reckoner) = dr_pos spoofed_reckoner"
  by (rule locked_anchor_permanent) (simp add: spoofed_reckoner_def)

text \<open>
  The integration step is bounded: whenever a sample yields a snapshot, the reckoner
  was initialised with an origin, the gap to the previous sample is finite, positive and
  not above the gate, and the snapshot carries the sample's time.
\<close>

theorem integration_gap_bounded:
  assumes "step mm s d = (Inr (Some snap), d')" and "last_imu_mono d = Some prev"
  shows "is_initialized d \<and> is_finite (to_f32 (sub64 (dr_mono_secs d (mono (imu_t s))) prev))
    \<and> fgt (to_f32 (sub64 (dr_mono_secs d (mono (imu_t s))) prev)) (FNum 0)
    \<and> \<not> fgt (to_f32 (sub64 (dr_mono_secs d (mono (imu_t s))) prev)) (max_imu_dt_s (dr_cfg d))
    \<and> mono_secs snap = dr_mono_secs d (mono (imu_t s)) \<and> last_imu_mono d' = Some (dr_mono_secs d (mono (imu_t s)))"
proof (cases rule: step_cases [of mm s d])
  case (integrated dt d2)
  let ?t = "dr_mono_secs d (mono (imu_t s))"
  let ?raw = "to_f32 (sub64 ?t prev)"
  have gate: "is_finite ?raw" "\<not> fle ?raw (FNum 0)" "\<not> fgt ?raw (max_imu_dt_s (dr_cfg d))"
    using integrated(2) assms(2) by (auto simp: imu_dt_def Let_def split: if_splits)
  have "fgt ?raw (FNum 0)" using gate(1,2) by (cases ?raw) auto
  moreover have "is_initialized d \<and> mono_secs snap = ?t \<and> last_imu_mono d' = Some ?t"
    using integrated(3,4) assms(1)
    by (auto simp: integrate_sample_def is_initialized_def track_attitude_def Let_def case_prod_beta split: if_splits)
  ultimately show ?thesis using gate by blast
qed (use assms(1) in auto)

definition flying_reckoner :: dead_reckoner where
  "flying_reckoner = (dr_new (nav_config_default\<lparr>max_imu_dt_s := FNum 5\<rparr>) 0)\<lparr>initialized := True,
     origin := Some (FNum 47, FNum 8, FNum 400), last_imu_mono := Some (FNum 0)\<rparr>"

definition level_sample :: imu_sample where
  "level_sample = \<lparr>imu_t = at_mono (10 ^ 9), accel_mps2 = \<lparr>v0 = FNum 0, v1 = FNum 0, v2 = FNum (- 10)\<rparr>, gyro_rps = vec3_zero\<rparr>"

lemma flying_time: "dr_mono_secs flying_reckoner (mono (imu_t level_sample)) = FNum 1"
  by (simp add: flying_reckoner_def level_sample_def dr_new_def at_mono_def dr_mono_secs_def
      saturating_duration_since_def as_secs_f64_def of_int_fl_def fdiv_FNum fadd_FNum)

theorem integration_gap_bounded_witness:
  "is_initialized flying_reckoner
    \<and> fgt (to_f32 (sub64 (dr_mono_secs flying_reckoner (mono (imu_t level_sample))) (FNum 0))) (FNum 0)
    \<and> \<not> fgt (to_f32 (sub64 (dr_mono_secs flying_reckoner (mono (imu_t level_sample))) (FNum 0))) (max_imu_dt_s (dr_cfg flying_reckoner))"
proof -
  have "imu_dt (FNum 1) flying_reckoner = Inr (fmax (FNum 1) (lit B32 (1 / 10 ^ 6)))"
    by (simp add: imu_dt_def flying_reckoner_def dr_new_def fsub_FNum to_f32_def)
  then have "\<exists>snap d'. step toy_math level_sample flying_reckoner = (Inr (Some snap), d')"
    using flying_time
    by (simp add: step_def level_sample_def vec3_finite_def vec3_zero_def integrate_sample_def is_initialized_def
        flying_reckoner_def dr_new_def Let_def case_prod_beta)
  then obtain snap d' where "step toy_math level_sample flying_reckoner = (Inr (Some snap), d')" by blast
  from integration_gap_bounded [OF this, of "FNum 0"] show ?thesis by (simp add: flying_reckoner_def)
qed

text \<open>
  Sizing the gate from the observed cadence never narrows it and never widens it past
  the cap of one second: the new gate is the old one, or it lies above the old one and
  between the default and the cap.
\<close>

theorem auto_gate_bounds:
  "auto_gate first_t last_t n gate = gate
   \<or> (fgt (auto_gate first_t last_t n gate) gate \<and> fle (auto_gate first_t last_t n gate) AUTO_IMU_GATE_MAX_S
      \<and> fge (auto_gate first_t last_t n gate) DEFAULT_MAX_IMU_DT_S)"
proof -
  have "fin_in (of_int 1 / 2 ^ 4) (of_int 1) (fround B32 False (1 / 10))"
    by (intro fround_in bound_ok_dyadic bound_ok_int) simp_all
  then have dflt: "fle DEFAULT_MAX_IMU_DT_S AUTO_IMU_GATE_MAX_S" "\<not> is_nan DEFAULT_MAX_IMU_DT_S"
    by (cases "fround B32 False (1 / 10)"; simp add: DEFAULT_MAX_IMU_DT_S_def AUTO_IMU_GATE_MAX_S_def lit_def fin_in_def)+
  have "fle (fclampv x DEFAULT_MAX_IMU_DT_S AUTO_IMU_GATE_MAX_S) AUTO_IMU_GATE_MAX_S
      \<and> fge (fclampv x DEFAULT_MAX_IMU_DT_S AUTO_IMU_GATE_MAX_S) DEFAULT_MAX_IMU_DT_S"
    if "fgt (fclampv x DEFAULT_MAX_IMU_DT_S AUTO_IMU_GATE_MAX_S) gate" for x
    using that dflt flt_not_nan [OF that] not_flt [of x DEFAULT_MAX_IMU_DT_S] not_flt [of AUTO_IMU_GATE_MAX_S x]
    by (auto simp: fclampv_def AUTO_IMU_GATE_MAX_S_def split: if_splits)
  then show ?thesis
    by (auto simp: auto_gate_def Let_def split: option.splits)
qed

text \<open>
  Before the anchor is locked, the anchor follows every fix, a fix taken while the
  detector is Spoofed included, although the operation is documented to never anchor then.
\<close>

theorem unlocked_anchor_follows_spoofed_fix:
  "origin (on_gps_fix mm fx (d\<lparr>dr_state := Spoofed, anchor_locked := False\<rparr>))
     = Some (lat_deg fx, lon_deg fx, alt_m fx)"
  by (auto simp: on_gps_fix_def seed_yaw_def anchor_def Let_def split: option.splits)

section \<open>The centripetal estimate\<close>

lemma fadd_finiteD: "is_finite (fadd F a b) \<Longrightarrow> is_finite a \<and> is_finite b"
  by (auto simp: fadd_def split: if_splits)

lemma fsqrt_finiteD: "is_finite (fsqrt F a) \<Longrightarrow> is_finite a"
  by (auto simp: fsqrt_def split: if_splits)

lemma pow64_ok: "bound_ok B32 (2 ^ 64)" "bound_ok B32 (- (2 ^ 64))"
proof -
  have "representable B32 (2 ^ 64)"
    unfolding representable_def
    by (intro exI [of _ 1] exI [of _ 64]) (simp add: pow2_def B32_def)
  moreover have "(2 :: rat) ^ 64 < pow2 (emax B32)"
    by (simp add: pow2_def B32_def)
  ultimately show "bound_ok B32 (2 ^ 64)" "bound_ok B32 (- (2 ^ 64))"
    by (simp_all add: bound_ok_def representable_minus)
qed

lemma square_finite:
  assumes "is_finite (fmul B32 a a)" shows "is_finite a \<and> \<bar>fval a\<bar> < 2 ^ 64"
proof -
  have fin: "is_finite a" using assms by (auto simp: fmul_def Let_def finf_def split: if_splits)
  then obtain s where e: "fmul B32 a a = fround B32 s (fval a * fval a)" using fmul_finite by blast
  have "\<not> pow2 128 \<le> fval a * fval a"
  proof
    assume le: "pow2 128 \<le> fval a * fval a"
    have "representable B32 (pow2 128)"
      unfolding representable_def by (intro exI [of _ 1] exI [of _ 128]) (simp add: B32_def)
    then have "pow2 128 \<le> rnd B32 (fval a * fval a)" using rnd_mono [of B32, OF _ le] by (simp add: rnd_representable)
    then show False using assms e by (simp add: fround_def Let_def B32_def)
  qed
  then have "\<bar>fval a\<bar>\<^sup>2 < (2 ^ 64)\<^sup>2" by (simp add: pow2_def power2_eq_square)
  then have "\<bar>fval a\<bar> < 2 ^ 64" by (rule power2_less_imp_less) simp
  then show ?thesis using fin by simp
qed

lemma scaled_finite:
  assumes "is_finite a" "\<bar>fval a\<bar> < 2 ^ 64" "fin_in 0 1 s" shows "is_finite (fmul B32 a s)"
proof -
  obtain sg where e: "fmul B32 a s = fround B32 sg (fval a * fval s)"
    using fmul_finite assms(1) fin_in_finite [OF assms(3)] by blast
  have "\<bar>fval a * fval s\<bar> \<le> 2 ^ 64 * 1"
    using assms unfolding abs_mult by (intro mult_mono) (auto simp: fin_in_def)
  then have "fin_in (- (2 ^ 64)) (2 ^ 64) (fmul B32 a s)"
    unfolding e by (intro fround_in pow64_ok) (auto simp: abs_le_iff)
  then show ?thesis by (rule fin_in_finite)
qed

text \<open>
  The centripetal estimate handed to the attitude filter is finite whatever it is
  computed from: NaN and infinities included, the bounded vector has finite components.
\<close>

theorem bound_centripetal_finite: "vec3_finite (bound_centripetal a)"
proof (cases "is_finite (vec3_norm B32 a)")
  case True
  then have "is_finite (fmul B32 (v0 a) (v0 a)) \<and> is_finite (fmul B32 (v1 a) (v1 a)) \<and> is_finite (fmul B32 (v2 a) (v2 a))"
    unfolding vec3_norm_def by (blast dest: fsqrt_finiteD fadd_finiteD)
  then have c: "is_finite (v0 a) \<and> \<bar>fval (v0 a)\<bar> < 2 ^ 64" "is_finite (v1 a) \<and> \<bar>fval (v1 a)\<bar> < 2 ^ 64"
    "is_finite (v2 a) \<and> \<bar>fval (v2 a)\<bar> < 2 ^ 64" using square_finite by blast+
  show ?thesis
  proof (cases "fgt (vec3_norm B32 a) MAX_CENTRIPETAL_MPS2")
    case big: True
    define m where "m = fval (vec3_norm B32 a)"
    have m: "30 < m" using big True by (simp add: MAX_CENTRIPETAL_MPS2_def flt_finite m_def)
    obtain s where "fdiv B32 (FNum 30) (vec3_norm B32 a) = fround B32 s (30 / m)"
      using fdiv_finite [of "FNum 30" "vec3_norm B32 a" B32] True m by (auto simp: m_def)
    moreover have "fin_in (of_int 0) (of_int 1) (fround B32 s (30 / m))"
      using m by (intro fround_in bound_ok_int) simp_all
    ultimately have "fin_in 0 1 (fdiv B32 MAX_CENTRIPETAL_MPS2 (vec3_norm B32 a))" by (simp add: MAX_CENTRIPETAL_MPS2_def)
    from scaled_finite [OF _ _ this] c
    have "vec3_finite (vec3_map (\<lambda>x. mul32 x (div32 MAX_CENTRIPETAL_MPS2 (vec3_norm B32 a))) a)"
      unfolding vec3_finite_def vec3_map_def by simp
    then show ?thesis unfolding bound_centripetal_def using True big by simp
  next
    case False
    then show ?thesis unfolding bound_centripetal_def using True c by (simp add: vec3_finite_def)
  qed
next
  case False
  then show ?thesis by (simp add: bound_centripetal_def Let_def vec3_finite_def vec3_zero_def)
qed

text \<open>
  The blend never overshoots: in the north component (the others are alike), with a
  finite velocity at or below the GPS velocity, the blended velocity is at least the old one
  and at most the old one plus the whole difference. The gain lies between 0 and 1 however
  long the gap to the previous fix was.
\<close>

theorem blend_between:
  assumes "\<not> is_nan (div32 dt (fmax (blend_tau_s (dr_cfg d)) (lit B32 (5 / 100))))"
    and "is_finite (ned_n (sd_vel (strap d)))" and "bound_ok B64 (fval (ned_n (sd_vel (strap d))))"
    and "is_finite (ned_n vg)" and "fle (ned_n (sd_vel (strap d))) (ned_n vg)"
    and "is_finite (sub64 (ned_n vg) (ned_n (sd_vel (strap d))))"
  shows "fin_in 0 1 (blend_alpha dt d)
    \<and> fle (ned_n (sd_vel (strap d))) (ned_n (sd_vel (strap (blend dt (Some vg) d))))
    \<and> fle (ned_n (sd_vel (strap (blend dt (Some vg) d))))
        (add64 (ned_n (sd_vel (strap d))) (sub64 (ned_n vg) (ned_n (sd_vel (strap d)))))"
proof -
  have alpha: "fin_in 0 1 (blend_alpha dt d)" unfolding blend_alpha_def using assms(1) by (rule clamp_unit)
  let ?v = "ned_n (sd_vel (strap d))"
  note lb = lerp_between [OF alpha assms(2,4,5,6,3)]
  have "ned_n (sd_vel (strap (blend dt (Some vg) d))) \<in> {?v, lerp (blend_alpha dt d) ?v (ned_n vg)}"
    by (simp add: blend_def set_vel_def lerp_def Let_def)
  then show ?thesis
    using alpha lb fle_trans [OF lb] assms(2) by (auto simp: is_finite_not_nan)
qed

theorem blend_between_witness:
  "fin_in 0 1 (blend_alpha (FNum 3) flying_reckoner)"
proof -
  have "fle (lit B32 (5 / 100)) (FNum 3)"
  proof -
    have "fin_in (of_int 0) (of_int 3) (fround B32 False (1 / 20))" by (intro fround_in bound_ok_int) simp_all
    then show ?thesis by (cases "fround B32 False (1 / 20)") (simp_all add: lit_def fin_in_def)
  qed
  then have "fmax (FNum 3) (lit B32 (5 / 100)) = FNum 3"
    using fle_not_nan fle_flt_False by (force simp: fmax_def)
  then have "\<not> is_nan (div32 (FNum 3) (fmax (blend_tau_s (dr_cfg flying_reckoner)) (lit B32 (5 / 100))))"
    by (simp add: flying_reckoner_def dr_new_def nav_config_default_def fdiv_FNum)
  from blend_between [OF this, of "\<lparr>ned_n = FNum 4, ned_e = FNum 0, ned_d = FNum 0\<rparr>"] show ?thesis
    using bound_ok_int [of B64 0]
    by (simp add: flying_reckoner_def dr_new_def strapdown_new_def ned_default_def fsub_FNum)
qed

end
