(* ===== verification/Detect_Config.thy ===== *)
theory Detect_Config
  imports Types
begin

text \<open>
  \<open>DetectConfig\<close> of \<open>src/src/detect/mod.rs\<close> and \<open>Residual\<close> of
  \<open>src/src/detect/residual.rs\<close>: the configuration of the detectors and the sample they
  are given. Thresholds are \<open>f32\<close>, residuals \<open>f64\<close>, as in the code.
\<close>

record detect_config =
  max_jump_m :: f32
  max_velocity_mismatch_mps :: f32
  jump_persist_fixes :: u8
  cusum_k_m :: f32
  cusum_h_m :: f32
  mag_cusum_k_m :: f32
  mag_cusum_h_m :: f32
  suspicious_to_spoofed_dwell_s :: f32
  normal_clear_dwell_s :: f32
  hdop_multipath_threshold :: f32
  sats_low_threshold :: u8
  gps_dropout_freeze_s :: f32
  re_anchor_max_distance_m :: f32
  max_vertical_rate_mps :: f32
  max_dwell_pause_s :: f32
  vel_aiding_cusum_k_mps :: f32
  vel_aiding_cusum_h :: f32

definition detect_config_default :: detect_config where
  "detect_config_default = \<lparr>
     max_jump_m = FNum 50,
     max_velocity_mismatch_mps = FNum 15,
     jump_persist_fixes = 2,
     cusum_k_m = FNum 1,
     cusum_h_m = FNum 25,
     mag_cusum_k_m = FNum 1,
     mag_cusum_h_m = FNum 30,
     suspicious_to_spoofed_dwell_s = FNum 10,
     normal_clear_dwell_s = FNum 5,
     hdop_multipath_threshold = FNum 4,
     sats_low_threshold = 6,
     gps_dropout_freeze_s = lit B32 (5 / 2),
     re_anchor_max_distance_m = FNum 500,
     max_vertical_rate_mps = FNum 30,
     max_dwell_pause_s = FNum 20,
     vel_aiding_cusum_k_mps = lit B32 (55 / 100),
     vel_aiding_cusum_h = FNum 8\<rparr>"

record residual =
  dpos :: ned_pos
  dvel :: ned_vel
  mag_pos :: f64
  mag_vel :: f64
  dvel_known :: bool
  dvel_free :: ned_vel
  mag_vel_free :: f64
  maneuvering :: bool

definition residual_default :: residual where
  "residual_default = \<lparr>
     dpos = ned_default, dvel = ned_default, mag_pos = FNum 0, mag_vel = FNum 0,
     dvel_known = True, dvel_free = ned_default, mag_vel_free = FNum 0, maneuvering = False\<rparr>"

lemma detect_config_default_sel [simp]:
  "max_jump_m detect_config_default = FNum 50"
  "max_velocity_mismatch_mps detect_config_default = FNum 15"
  "jump_persist_fixes detect_config_default = 2"
  "cusum_k_m detect_config_default = FNum 1"
  "cusum_h_m detect_config_default = FNum 25"
  "suspicious_to_spoofed_dwell_s detect_config_default = FNum 10"
  "normal_clear_dwell_s detect_config_default = FNum 5"
  "max_dwell_pause_s detect_config_default = FNum 20"
  by (simp_all add: detect_config_default_def)

lemma residual_default_sel [simp]:
  "dpos residual_default = ned_default" "mag_pos residual_default = FNum 0"
  "mag_vel residual_default = FNum 0" "dvel_known residual_default = True"
  "mag_vel_free residual_default = FNum 0" "maneuvering residual_default = False"
  by (simp_all add: residual_default_def)

text \<open>
  Both detectors widen their gates only when the dilution of precision is reported bad
  and the satellite count is reported low (\<open>matches!(hdop, Some(h) if h > ...)\<close>
  and the same for \<open>sats\<close>).
\<close>

definition hdop_bad :: "detect_config \<Rightarrow> f32 option \<Rightarrow> bool" where
  "hdop_bad cfg hp = (case hp of Some h \<Rightarrow> fgt h (hdop_multipath_threshold cfg) | None \<Rightarrow> False)"

definition sats_bad :: "detect_config \<Rightarrow> u8 option \<Rightarrow> bool" where
  "sats_bad cfg sn = (case sn of Some n \<Rightarrow> n < sats_low_threshold cfg | None \<Rightarrow> False)"

lemma quality_unknown [simp]: "\<not> hdop_bad cfg None" "\<not> sats_bad cfg None"
  by (simp_all add: hdop_bad_def sats_bad_def)

end
