(* ===== verification/Jump.thy ===== *)
theory Jump
  imports Detect_Config
begin

text \<open>
  The jump detector, \<open>src/src/detect/jump.rs\<close>: a velocity mismatch that persists over
  consecutive fixes, and a hard bound on the position residual. Every operation returns
  the new detector.
\<close>

datatype jump_reason = VelocityMismatch | HardResidual

record jump_detector =
  jd_cfg :: detect_config
  consecutive_vmismatch :: u8

definition jump_new :: "detect_config \<Rightarrow> jump_detector" where
  "jump_new cfg = \<lparr>jd_cfg = cfg, consecutive_vmismatch = 0\<rparr>"

definition jump_scale :: "jump_detector \<Rightarrow> f32 option \<Rightarrow> u8 option \<Rightarrow> f32 \<times> f32" where
  "jump_scale j hp sn =
     (let jump = max_jump_m (jd_cfg j);
          vmismatch = max_velocity_mismatch_mps (jd_cfg j)
      in if hdop_bad (jd_cfg j) hp \<and> sats_bad (jd_cfg j) sn
         then (fmul B32 jump (FNum 2), fmul B32 vmismatch (lit B32 (3 / 2)))
         else (jump, vmismatch))"

text \<open>The hard-residual test that ends \<open>evaluate\<close>.\<close>

definition jump_hard :: "residual \<Rightarrow> f32 \<Rightarrow> jump_reason option" where
  "jump_hard r jump_thresh = (if fgt (to_f32 (mag_pos r)) jump_thresh then Some HardResidual else None)"

definition jump_evaluate ::
    "jump_detector \<Rightarrow> residual \<Rightarrow> f32 option \<Rightarrow> u8 option \<Rightarrow> jump_reason option \<times> jump_detector" where
  "jump_evaluate j r hp sn =
     (let (jump_thresh, vmismatch_thresh) = jump_scale j hp sn
      in if dvel_known r then
           (if fgt (to_f32 (mag_vel r)) vmismatch_thresh then
              let c = saturating_add (consecutive_vmismatch j) 1;
                  j' = j\<lparr>consecutive_vmismatch := c\<rparr>
              in if jump_persist_fixes (jd_cfg j) \<le> c
                 then (Some VelocityMismatch, j')
                 else (jump_hard r jump_thresh, j')
            else (jump_hard r jump_thresh, j\<lparr>consecutive_vmismatch := 0\<rparr>))
         else (jump_hard r jump_thresh,
               j\<lparr>consecutive_vmismatch := saturating_sub (consecutive_vmismatch j) 1\<rparr>))"

definition jump_reset :: "jump_detector \<Rightarrow> jump_detector" where
  "jump_reset j = j\<lparr>consecutive_vmismatch := 0\<rparr>"

section \<open>Lemmas\<close>

lemma jump_new_sel [simp]: "jd_cfg (jump_new cfg) = cfg" "consecutive_vmismatch (jump_new cfg) = 0"
  by (simp_all add: jump_new_def)

lemma jump_evaluate_cfg [simp, fsm_frame]: "jd_cfg (snd (jump_evaluate j r hp sn)) = jd_cfg j"
  by (simp add: jump_evaluate_def Let_def split: prod.splits)

lemma jump_reset_cfg [simp, fsm_frame]: "jd_cfg (jump_reset j) = jd_cfg j"
  by (simp add: jump_reset_def)

lemma jump_scale_narrow:
  "\<not> (hdop_bad (jd_cfg j) hp \<and> sats_bad (jd_cfg j) sn) \<Longrightarrow>
   jump_scale j hp sn = (max_jump_m (jd_cfg j), max_velocity_mismatch_mps (jd_cfg j))"
  by (auto simp: jump_scale_def Let_def)

lemma jump_evaluate_no_quality:
  "jump_evaluate j r None None =
     (if dvel_known r then
        (if fgt (to_f32 (mag_vel r)) (max_velocity_mismatch_mps (jd_cfg j)) then
           (if jump_persist_fixes (jd_cfg j) \<le> saturating_add (consecutive_vmismatch j) 1
            then Some VelocityMismatch else jump_hard r (max_jump_m (jd_cfg j)),
            j\<lparr>consecutive_vmismatch := saturating_add (consecutive_vmismatch j) 1\<rparr>)
         else (jump_hard r (max_jump_m (jd_cfg j)), j\<lparr>consecutive_vmismatch := 0\<rparr>))
      else (jump_hard r (max_jump_m (jd_cfg j)),
            j\<lparr>consecutive_vmismatch := saturating_sub (consecutive_vmismatch j) 1\<rparr>))"
  by (simp add: jump_evaluate_def jump_scale_narrow Let_def)

text \<open>The detector over a list of fixes, each with its residual and quality fields.\<close>

fun jump_run :: "jump_detector \<Rightarrow> (residual \<times> f32 option \<times> u8 option) list \<Rightarrow> jump_detector" where
  "jump_run j [] = j"
| "jump_run j ((r, hp, sn) # xs) = jump_run (snd (jump_evaluate j r hp sn)) xs"

text \<open>A fix whose velocity residual exceeds the threshold in force for it.\<close>

definition jump_vfires :: "jump_detector \<Rightarrow> residual \<times> f32 option \<times> u8 option \<Rightarrow> bool" where
  "jump_vfires j x = (case x of (r, hp, sn) \<Rightarrow>
     dvel_known r \<and> fgt (to_f32 (mag_vel r)) (snd (jump_scale j hp sn)))"

lemma jump_scale_cong: "jd_cfg j = jd_cfg j' \<Longrightarrow> jump_scale j hp sn = jump_scale j' hp sn"
  by (simp add: jump_scale_def)

lemma jump_vfires_cong: "jd_cfg j = jd_cfg j' \<Longrightarrow> jump_vfires j x = jump_vfires j' x"
  by (simp add: jump_vfires_def jump_scale_cong [of j j'] split: prod.splits)

lemma jump_counter_step:
  "unat (consecutive_vmismatch (snd (jump_evaluate j r hp sn))) =
     (if dvel_known r
      then if fgt (to_f32 (mag_vel r)) (snd (jump_scale j hp sn))
           then min (unat (consecutive_vmismatch j) + 1) 255 else 0
      else unat (consecutive_vmismatch j) - 1)"
  by (auto simp: jump_evaluate_def Let_def unat_saturating_add unat_saturating_sub
      split: prod.splits)

text \<open>
  The counter never exceeds the number of mismatching fixes in any run of fixes since it
  was last zero: it is bounded by the excess of mismatching over Doppler-less fixes.
\<close>

lemma jump_run_cfg [simp]: "jd_cfg (jump_run j xs) = jd_cfg j"
  by (induction xs arbitrary: j) auto

lemma jump_counter_bound:
  "unat (consecutive_vmismatch (jump_run j xs))
     \<le> unat (consecutive_vmismatch j) + length (filter (jump_vfires j) xs)"
proof (induction xs arbitrary: j)
  case (Cons x xs)
  obtain r hp sn where x: "x = (r, hp, sn)" by (cases x)
  let ?j = "snd (jump_evaluate j r hp sn)"
  have "unat (consecutive_vmismatch ?j) \<le> unat (consecutive_vmismatch j) + (if jump_vfires j x then 1 else 0)"
    by (auto simp: x jump_counter_step jump_vfires_def)
  moreover have "filter (jump_vfires ?j) xs = filter (jump_vfires j) xs"
    by (rule filter_cong) (simp_all add: jump_vfires_cong [of ?j j])
  ultimately show ?case using Cons.IH [of ?j]
    by (auto simp: x split: if_splits)
qed simp

section \<open>Properties\<close>

text \<open>
  A velocity mismatch is never reported on thin evidence: when a detector that started
  from zero reports \<open>VelocityMismatch\<close>, at least \<open>jump_persist_fixes\<close> of the
  fixes it has seen, the current one included, carried Doppler and exceeded the velocity
  threshold in force for them.
\<close>

theorem velocity_mismatch_needs_evidence:
  assumes "fst (jump_evaluate (jump_run (jump_new cfg) xs) r hp sn) = Some VelocityMismatch"
  shows "unat (jump_persist_fixes cfg)
    \<le> length (filter (jump_vfires (jump_new cfg)) (xs @ [(r, hp, sn)]))"
proof -
  let ?j = "jump_run (jump_new cfg) xs"
  have cfg: "jd_cfg ?j = cfg" by simp
  from assms have fires: "jump_vfires ?j (r, hp, sn)"
    and c: "jump_persist_fixes cfg \<le> saturating_add (consecutive_vmismatch ?j) 1"
    by (auto simp: jump_evaluate_def jump_hard_def jump_vfires_def Let_def cfg
        split: if_splits prod.splits)
  from c have "unat (jump_persist_fixes cfg) \<le> unat (consecutive_vmismatch ?j) + 1"
    by (simp add: word_le_nat_alt unat_saturating_add)
  also have "unat (consecutive_vmismatch ?j) \<le> length (filter (jump_vfires (jump_new cfg)) xs)"
    using jump_counter_bound [of "jump_new cfg" xs] by simp
  finally show ?thesis
    using fires jump_vfires_cong [of ?j "jump_new cfg"] by (simp add: cfg)
qed

theorem velocity_mismatch_needs_evidence_witness:
  "unat (jump_persist_fixes detect_config_default)
   \<le> length (filter (jump_vfires (jump_new detect_config_default))
     ([(residual_default\<lparr>mag_vel := FNum 20\<rparr>, None, None)]
        @ [(residual_default\<lparr>mag_vel := FNum 30\<rparr>, None, None)]))"
  by (rule velocity_mismatch_needs_evidence)
    (simp add: jump_evaluate_no_quality to_f32_def saturating_add_def)

definition three_fix_cfg :: detect_config where
  "three_fix_cfg = detect_config_default\<lparr>jump_persist_fixes := 3\<rparr>"

text \<open>
  The comment on the Doppler-less branch says that the decrement makes the gate require
  consecutive firing fixes. It does so only for a persistence of at most two: with a
  persistence of three, two mismatching fixes, one without Doppler and two more
  mismatching ones fire, though no three in a row mismatch.
\<close>

theorem doppler_gap_bridged:
  "let bad = residual_default\<lparr>mag_vel := FNum 20\<rparr>; gap = residual_default\<lparr>dvel_known := False\<rparr>
   in fst (jump_evaluate
        (jump_run (jump_new three_fix_cfg) [(bad, None, None), (bad, None, None), (gap, None, None), (bad, None, None)])
        bad None None) = Some VelocityMismatch"
  by (simp add: jump_evaluate_no_quality three_fix_cfg_def to_f32_def saturating_add_def
      saturating_sub_def)

end
