(* ===== verification/Drift.thy ===== *)
theory Drift
  imports Detect_Config
begin

text \<open>
  The drift detector, \<open>src/src/detect/drift.rs\<close>: two-sided per-axis CUSUMs, a
  magnitude CUSUM and a velocity-aiding CUSUM over adaptive noise floors, all in
  \<open>f32\<close> arithmetic. \<open>drift_evaluate\<close> composes the stages of \<open>evaluate\<close> in the
  order of the code: non-finite guard, warmup, floor updates, accumulators, decision.
\<close>

section \<open>State\<close>

record cusum_state =
  s_pos_n :: f32
  s_neg_n :: f32
  s_pos_e :: f32
  s_neg_e :: f32
  s_mag :: f32
  s_vel_aiding :: f32

definition cusum_default :: cusum_state where
  "cusum_default = \<lparr>s_pos_n = FNum 0, s_neg_n = FNum 0, s_pos_e = FNum 0, s_neg_e = FNum 0,
     s_mag = FNum 0, s_vel_aiding = FNum 0\<rparr>"

datatype drift_reason =
  NorthPositive | NorthNegative | EastPositive | EastNegative | Magnitude | VelocityAiding

definition MAG_NOISE_ALPHA :: f32 where "MAG_NOISE_ALPHA = lit B32 (5 / 100)"
definition MAG_NOISE_FACTOR :: f32 where "MAG_NOISE_FACTOR = lit B32 (15 / 10)"
definition AXIS_NOISE_ALPHA :: f32 where "AXIS_NOISE_ALPHA = lit B32 (5 / 100)"
definition AXIS_NOISE_FACTOR :: f32 where "AXIS_NOISE_FACTOR = lit B32 (25 / 10)"
definition WARMUP_FIXES :: nat where "WARMUP_FIXES = 20"
definition VEL_AIDING_NOISE_ALPHA :: f32 where "VEL_AIDING_NOISE_ALPHA = lit B32 (8 / 1000)"
definition VEL_AIDING_NOISE_FACTOR :: f32 where "VEL_AIDING_NOISE_FACTOR = lit B32 2"

text \<open>The warmup counter (\<open>u32\<close>) never passes \<open>WARMUP_FIXES\<close>, so a natural number models it.\<close>

record drift_detector =
  dd_cfg :: detect_config
  dd_state :: cusum_state
  mag_noise_ewma :: f32
  axis_noise_n :: f32
  axis_noise_e :: f32
  vel_aiding_noise :: f32
  warmup :: nat

definition drift_new :: "detect_config \<Rightarrow> drift_detector" where
  "drift_new cfg = \<lparr>dd_cfg = cfg, dd_state = cusum_default, mag_noise_ewma = FNum 0,
     axis_noise_n = FNum 0, axis_noise_e = FNum 0, vel_aiding_noise = FNum 0, warmup = 0\<rparr>"

definition drift_state :: "drift_detector \<Rightarrow> cusum_state" where
  "drift_state d = dd_state d"

definition mag_noise_floor :: "drift_detector \<Rightarrow> f32" where
  "mag_noise_floor d = mag_noise_ewma d"

definition vel_aiding_floor :: "drift_detector \<Rightarrow> f32" where
  "vel_aiding_floor d = vel_aiding_noise d"

definition drift_reset :: "drift_detector \<Rightarrow> drift_detector" where
  "drift_reset d = d\<lparr>dd_state := cusum_default\<rparr>"

section \<open>Evaluation\<close>

text \<open>The thresholds \<open>h\<close> and \<open>h_mag\<close> after the quality widening.\<close>

definition drift_thresholds :: "drift_detector \<Rightarrow> f32 option \<Rightarrow> u8 option \<Rightarrow> f32 \<times> f32" where
  "drift_thresholds d hp sn =
     (let h = cusum_h_m (dd_cfg d); h_mag = mag_cusum_h_m (dd_cfg d)
      in if hdop_bad (dd_cfg d) hp \<and> sats_bad (dd_cfg d) sn
         then (fmul B32 h (lit B32 (15 / 10)), fmul B32 h_mag (lit B32 (15 / 10)))
         else (h, h_mag))"

definition drift_finite :: "residual \<Rightarrow> bool" where
  "drift_finite r \<longleftrightarrow> is_finite (to_f32 (ned_n (dpos r))) \<and> is_finite (to_f32 (ned_e (dpos r)))
     \<and> is_finite (to_f32 (mag_pos r)) \<and> is_finite (to_f32 (mag_vel_free r))"

text \<open>\<open>mean += (x - mean) / w\<close>\<close>

definition welford :: "f32 \<Rightarrow> f32 \<Rightarrow> f32 \<Rightarrow> f32" where
  "welford m x w = fadd B32 m (fdiv B32 (fsub B32 x m) w)"

definition drift_warmup :: "drift_detector \<Rightarrow> residual \<Rightarrow> drift_detector" where
  "drift_warmup d r =
     (let rn = to_f32 (ned_n (dpos r));
          re = to_f32 (ned_e (dpos r));
          rmag = to_f32 (mag_pos r);
          rvel_free = to_f32 (mag_vel_free r);
          k = Suc (warmup d);
          w = of_int_fl B32 (int k)
      in d\<lparr>warmup := k,
           axis_noise_n := welford (axis_noise_n d) (fabs rn) w,
           axis_noise_e := welford (axis_noise_e d) (fabs re) w,
           mag_noise_ewma := welford (mag_noise_ewma d) rmag w,
           vel_aiding_noise :=
             (if dvel_known r \<and> \<not> maneuvering r \<and> flt rvel_free (vel_aiding_cusum_k_mps (dd_cfg d))
              then welford (vel_aiding_noise d) rvel_free w else vel_aiding_noise d),
           dd_state := cusum_default\<rparr>)"

text \<open>\<open>(1.0 - alpha) * floor + alpha * x\<close>\<close>

definition ewma :: "f32 \<Rightarrow> f32 \<Rightarrow> f32 \<Rightarrow> f32" where
  "ewma alpha m x = fadd B32 (fmul B32 (fsub B32 (FNum 1) alpha) m) (fmul B32 alpha x)"

definition drift_floors :: "drift_detector \<Rightarrow> residual \<Rightarrow> drift_detector" where
  "drift_floors d r =
     (let rn = to_f32 (ned_n (dpos r));
          re = to_f32 (ned_e (dpos r));
          rmag = to_f32 (mag_pos r);
          rvel_free = to_f32 (mag_vel_free r);
          s = dd_state d
      in d\<lparr>axis_noise_n :=
             (if feq (s_pos_n s) (FNum 0) \<and> feq (s_neg_n s) (FNum 0)
              then ewma AXIS_NOISE_ALPHA (axis_noise_n d) (fabs rn) else axis_noise_n d),
           axis_noise_e :=
             (if feq (s_pos_e s) (FNum 0) \<and> feq (s_neg_e s) (FNum 0)
              then ewma AXIS_NOISE_ALPHA (axis_noise_e d) (fabs re) else axis_noise_e d),
           mag_noise_ewma :=
             (if fle (s_mag s) (FNum 0)
              then ewma MAG_NOISE_ALPHA (mag_noise_ewma d) rmag else mag_noise_ewma d),
           vel_aiding_noise :=
             (if dvel_known r \<and> \<not> maneuvering r \<and> fle (s_vel_aiding s) (FNum 0)
                 \<and> flt rvel_free (vel_aiding_cusum_k_mps (dd_cfg d))
              then ewma VEL_AIDING_NOISE_ALPHA (vel_aiding_noise d) rvel_free
              else vel_aiding_noise d)\<rparr>)"

text \<open>\<open>(s + x - k).max(0.0)\<close> and \<open>(s - x - k).max(0.0)\<close>\<close>

definition cusum_up :: "f32 \<Rightarrow> f32 \<Rightarrow> f32 \<Rightarrow> f32" where
  "cusum_up s x k = fmax (fsub B32 (fadd B32 s x) k) (FNum 0)"

definition cusum_down :: "f32 \<Rightarrow> f32 \<Rightarrow> f32 \<Rightarrow> f32" where
  "cusum_down s x k = fmax (fsub B32 (fsub B32 s x) k) (FNum 0)"

definition eff_k_n :: "drift_detector \<Rightarrow> f32" where
  "eff_k_n d = fmax (cusum_k_m (dd_cfg d)) (fmul B32 (axis_noise_n d) AXIS_NOISE_FACTOR)"

definition eff_k_e :: "drift_detector \<Rightarrow> f32" where
  "eff_k_e d = fmax (cusum_k_m (dd_cfg d)) (fmul B32 (axis_noise_e d) AXIS_NOISE_FACTOR)"

definition eff_k_mag :: "drift_detector \<Rightarrow> f32" where
  "eff_k_mag d = fmax (mag_cusum_k_m (dd_cfg d)) (fmul B32 (mag_noise_ewma d) MAG_NOISE_FACTOR)"

definition eff_k_vel :: "drift_detector \<Rightarrow> f32" where
  "eff_k_vel d = fmax (vel_aiding_cusum_k_mps (dd_cfg d))
     (fmul B32 (vel_aiding_noise d) VEL_AIDING_NOISE_FACTOR)"

definition drift_accumulate :: "drift_detector \<Rightarrow> residual \<Rightarrow> drift_detector" where
  "drift_accumulate d r =
     (let rn = to_f32 (ned_n (dpos r));
          re = to_f32 (ned_e (dpos r));
          rmag = to_f32 (mag_pos r);
          rvel_free = to_f32 (mag_vel_free r);
          s = dd_state d
      in d\<lparr>dd_state := \<lparr>
             s_pos_n = cusum_up (s_pos_n s) rn (eff_k_n d),
             s_neg_n = cusum_down (s_neg_n s) rn (eff_k_n d),
             s_pos_e = cusum_up (s_pos_e s) re (eff_k_e d),
             s_neg_e = cusum_down (s_neg_e s) re (eff_k_e d),
             s_mag = cusum_up (s_mag s) rmag (eff_k_mag d),
             s_vel_aiding =
               (if dvel_known r \<and> \<not> maneuvering r
                then cusum_up (s_vel_aiding s) rvel_free (eff_k_vel d)
                else s_vel_aiding s)\<rparr>\<rparr>)"

definition drift_decide :: "drift_detector \<Rightarrow> f32 \<Rightarrow> f32 \<Rightarrow> drift_reason option" where
  "drift_decide d h h_mag =
     (let s = dd_state d
      in if fge (s_pos_n s) h then Some NorthPositive
         else if fge (s_neg_n s) h then Some NorthNegative
         else if fge (s_pos_e s) h then Some EastPositive
         else if fge (s_neg_e s) h then Some EastNegative
         else if fge (s_mag s) h_mag then Some Magnitude
         else if fge (s_vel_aiding s) (vel_aiding_cusum_h (dd_cfg d)) then Some VelocityAiding
         else None)"

definition drift_evaluate ::
    "drift_detector \<Rightarrow> residual \<Rightarrow> f32 option \<Rightarrow> u8 option \<Rightarrow> drift_reason option \<times> drift_detector" where
  "drift_evaluate d r hp sn =
     (let (h, h_mag) = drift_thresholds d hp sn
      in if \<not> drift_finite r then (None, d)
         else if warmup d < WARMUP_FIXES then (None, drift_warmup d r)
         else let d' = drift_accumulate (drift_floors d r) r
              in (drift_decide d' h h_mag, d'))"

section \<open>Frames and invariants\<close>

lemma drift_cfg_frame [simp, fsm_frame]:
  "dd_cfg (drift_warmup d r) = dd_cfg d" "dd_cfg (drift_floors d r) = dd_cfg d"
  "dd_cfg (drift_accumulate d r) = dd_cfg d" "dd_cfg (drift_reset d) = dd_cfg d"
  by (simp_all add: drift_warmup_def drift_floors_def drift_accumulate_def drift_reset_def Let_def)

lemma drift_evaluate_cfg [simp, fsm_frame]: "dd_cfg (snd (drift_evaluate d r hp sn)) = dd_cfg d"
  by (simp add: drift_evaluate_def Let_def split: prod.splits)

lemma drift_warmup_frame [simp]:
  "warmup (drift_floors d r) = warmup d" "warmup (drift_accumulate d r) = warmup d"
  "warmup (drift_reset d) = warmup d" "warmup (drift_warmup d r) = Suc (warmup d)"
  "dd_state (drift_floors d r) = dd_state d" "dd_state (drift_warmup d r) = cusum_default"
  "axis_noise_n (drift_accumulate d r) = axis_noise_n d"
  "axis_noise_e (drift_accumulate d r) = axis_noise_e d"
  "mag_noise_ewma (drift_accumulate d r) = mag_noise_ewma d"
  "vel_aiding_noise (drift_accumulate d r) = vel_aiding_noise d"
  by (simp_all add: drift_warmup_def drift_floors_def drift_accumulate_def drift_reset_def Let_def)

text \<open>Every accumulator is a number (never NaN) and at least zero.\<close>

definition cusum_ok :: "cusum_state \<Rightarrow> bool" where
  "cusum_ok s \<longleftrightarrow> fle (FNum 0) (s_pos_n s) \<and> fle (FNum 0) (s_neg_n s) \<and> fle (FNum 0) (s_pos_e s)
     \<and> fle (FNum 0) (s_neg_e s) \<and> fle (FNum 0) (s_mag s) \<and> fle (FNum 0) (s_vel_aiding s)"

definition drift_inv :: "drift_detector \<Rightarrow> bool" where
  "drift_inv d \<longleftrightarrow> cusum_ok (dd_state d) \<and> warmup d \<le> WARMUP_FIXES
     \<and> (warmup d < WARMUP_FIXES \<longrightarrow> dd_state d = cusum_default)"

lemma cusum_ok_default [simp]: "cusum_ok cusum_default"
  by (simp add: cusum_ok_def cusum_default_def)

lemma drift_inv_new: "drift_inv (drift_new cfg)"
  by (simp add: drift_inv_def drift_new_def)

lemma drift_inv_reset: "drift_inv d \<Longrightarrow> drift_inv (drift_reset d)"
  by (simp add: drift_inv_def drift_reset_def)

lemma cusum_ok_accumulate: "cusum_ok (dd_state d) \<Longrightarrow> cusum_ok (dd_state (drift_accumulate d r))"
  by (auto simp: cusum_ok_def drift_accumulate_def Let_def cusum_up_def cusum_down_def fmax_nonneg)

lemma drift_inv_evaluate: "drift_inv d \<Longrightarrow> drift_inv (snd (drift_evaluate d r hp sn))"
  by (auto simp: drift_inv_def drift_evaluate_def Let_def cusum_ok_accumulate split: prod.splits)

section \<open>The detector over a list of fixes\<close>

type_synonym fix_obs = "residual \<times> f32 option \<times> u8 option"

fun drift_run :: "drift_detector \<Rightarrow> fix_obs list \<Rightarrow> drift_detector" where
  "drift_run d [] = d"
| "drift_run d ((r, hp, sn) # xs) = drift_run (snd (drift_evaluate d r hp sn)) xs"

lemma drift_run_append: "drift_run d (xs @ ys) = drift_run (drift_run d xs) ys"
  by (induction xs arbitrary: d) auto

lemma drift_run_inv: "drift_inv d \<Longrightarrow> drift_inv (drift_run d xs)"
  by (induction d xs rule: drift_run.induct) (auto intro: drift_inv_evaluate)

lemma drift_run_cfg [simp]: "dd_cfg (drift_run d xs) = dd_cfg d"
  by (induction xs arbitrary: d) auto

section \<open>A sustained offset is detected\<close>

text \<open>The north residual as the detector sees it.\<close>

abbreviation north :: "residual \<Rightarrow> f32" where
  "north r \<equiv> to_f32 (ned_n (dpos r))"

text \<open>An offset of at least \<open>K + 1\<close> and at most \<open>7 K\<close> metres on the north axis.\<close>

definition north_offset :: "int \<Rightarrow> residual \<Rightarrow> bool" where
  "north_offset K r \<longleftrightarrow> drift_finite r \<and> fin_in (of_int (K + 1)) (of_int (7 * K)) (north r)"

lemma alpha_in: "fin_in 0 (3 / 56) AXIS_NOISE_ALPHA"
proof -
  have "fin_in (1 / 32) (27 / 512) (fround B32 (5 / 100 < (0::rat)) (5 / 100))"
    using bound_ok_dyadic [of B32 1 5] bound_ok_dyadic [of B32 27 9]
    by (intro fround_in) simp_all
  then show ?thesis
    unfolding AXIS_NOISE_ALPHA_def lit_def by (rule fin_in_weaken) simp_all
qed

lemma axis_factor [simp]: "AXIS_NOISE_FACTOR = FNum (5 / 2)"
  using bound_ok_dyadic [of B32 5 1]
  by (simp add: AXIS_NOISE_FACTOR_def lit_def fround_exact bound_ok_def)

lemma cusum_up_progress:
  assumes K: "1 \<le> K" "7 * K * (int j + 1) < 2 ^ 24"
    and s: "fin_in (of_nat j) (of_int (7 * K * int j)) s"
    and x: "fin_in (of_int (K + 1)) (of_int (7 * K)) x"
    and k: "fin_in 0 (of_int K) k"
  shows "fin_in (of_nat (Suc j)) (of_int (7 * K * int (Suc j))) (cusum_up s x k)"
proof -
  have le: "int j \<le> 7 * K * int j" using K(1) by (simp add: mult_le_cancel_right1)
  have small: "int j + K + 1 < 2 ^ 24" "7 * K * int j + 7 * K < 2 ^ 24"
    using K le by (simp_all add: algebra_simps)
  have b: "bound_ok B32 (of_int (int j + (K + 1)))" "bound_ok B32 (of_int (7 * K * int j + 7 * K))"
    "bound_ok B32 (of_int (int j + 1))"
    using K(1) small by (intro bound_ok_int; simp)+
  have "fin_in (of_nat j + of_int (K + 1)) (of_int (7 * K * int j) + of_int (7 * K)) (fadd B32 s x)"
    using b by (intro fadd_in s x) simp_all
  then have "fin_in (of_nat j + of_int (K + 1) - of_int K) (of_int (7 * K * int j) + of_int (7 * K) - 0)
      (fsub B32 (fadd B32 s x) k)"
    using b by (intro fsub_in k) simp_all
  then have "fin_in (max (of_nat j + of_int (K + 1) - of_int K) 0)
     (max (of_int (7 * K * int j) + of_int (7 * K) - 0) 0) (cusum_up s x k)"
    unfolding cusum_up_def by (rule fmax_in) simp
  then show ?thesis
    by (rule fin_in_weaken) (use K(1) in \<open>simp_all add: algebra_simps\<close>)
qed

lemma ewma_from_zero:
  assumes "1 \<le> K" "7 * K < 2 ^ 24" and x: "fin_in (of_int (K + 1)) (of_int (7 * K)) x"
  shows "fin_in 0 (of_int (3 * K) / 2 ^ 3) (ewma AXIS_NOISE_ALPHA (FNum 0) x)"
proof -
  have b: "bound_ok B32 0" "bound_ok B32 (of_int (3 * K) / 2 ^ 3)"
    using bound_ok_int [of B32 0] bound_ok_dyadic [of B32 "3 * K" 3] assms by auto
  have "fin_in (of_int 0) (of_int 1) (fsub B32 (FNum 1) AXIS_NOISE_ALPHA)"
  proof -
    obtain s where "fsub B32 (FNum 1) AXIS_NOISE_ALPHA = fround B32 s (1 - fval AXIS_NOISE_ALPHA)"
      using fsub_finite [of "FNum 1" AXIS_NOISE_ALPHA B32] alpha_in fin_in_finite by auto
    then show ?thesis
      using alpha_in by (simp only:) (intro fround_in bound_ok_int; simp add: fin_in_def)
  qed
  then have "fin_in 0 0 (fmul B32 (fsub B32 (FNum 1) AXIS_NOISE_ALPHA) (FNum 0))"
    using b by (intro fmul_in_pos [where a = 0 and b = 1 and c = 0 and d = 0]) simp_all
  moreover have "fin_in 0 (of_int (3 * K) / 2 ^ 3) (fmul B32 AXIS_NOISE_ALPHA x)"
    using b assms(1) by (intro fmul_in_pos [OF _ alpha_in x]) simp_all
  ultimately have "fin_in (0 + 0) (0 + of_int (3 * K) / 2 ^ 3) (ewma AXIS_NOISE_ALPHA (FNum 0) x)"
    unfolding ewma_def using b by (intro fadd_in) simp_all
  then show ?thesis by simp
qed


lemma fin_in_fabs: "0 \<le> a \<Longrightarrow> fin_in a b x \<Longrightarrow> fin_in a b (fabs x)"
  by (cases x) (auto simp: fin_in_def)

text \<open>The detector after \<open>j\<close> fixes of the offset.\<close>

definition attack_inv :: "int \<Rightarrow> nat \<Rightarrow> drift_detector \<Rightarrow> bool" where
  "attack_inv K j d \<longleftrightarrow> dd_cfg d = detect_config_default \<and> warmup d = WARMUP_FIXES
     \<and> fin_in (of_nat j) (of_int (7 * K * int j)) (s_pos_n (dd_state d))
     \<and> (if j = 0 then axis_noise_n d = FNum 0 \<and> s_neg_n (dd_state d) = FNum 0
        else fin_in 0 (of_int (3 * K) / 2 ^ 3) (axis_noise_n d))"

lemma floor_during_attack:
  assumes "1 \<le> K" "7 * K < 2 ^ 24" and inv: "attack_inv K j d" and r: "north_offset K r"
  shows "fin_in 0 (of_int (3 * K) / 2 ^ 3) (axis_noise_n (drift_floors d r))"
proof (cases "j = 0")
  case True
  have "fin_in (of_int (K + 1)) (of_int (7 * K)) (fabs (north r))"
    using r assms(1) by (intro fin_in_fabs) (simp_all add: north_offset_def)
  moreover have "feq (s_pos_n (dd_state d)) (FNum 0)"
    using inv True by (cases "s_pos_n (dd_state d)") (simp_all add: attack_inv_def fin_in_def)
  ultimately show ?thesis
    using inv True ewma_from_zero [OF assms(1,2)]
    by (simp add: drift_floors_def Let_def attack_inv_def)
next
  case False
  then have "\<not> feq (s_pos_n (dd_state d)) (FNum 0)"
    using inv by (cases "s_pos_n (dd_state d)") (auto simp: attack_inv_def fin_in_def)
  with False inv show ?thesis
    by (simp add: drift_floors_def Let_def attack_inv_def)
qed

lemma eff_k_during_attack:
  assumes "1 \<le> K" "7 * K < 2 ^ 24" "cusum_k_m (dd_cfg d) = FNum 1"
    and "fin_in 0 (of_int (3 * K) / 2 ^ 3) (axis_noise_n d)"
  shows "fin_in 0 (of_int K) (eff_k_n d)"
proof -
  have b: "bound_ok B32 0" "bound_ok B32 (of_int K)"
    using bound_ok_int [of B32 0] bound_ok_int [of B32 K] assms by auto
  have "fin_in 0 (of_int K) (fmul B32 (axis_noise_n d) AXIS_NOISE_FACTOR)"
    using b assms(1) by (intro fmul_in_pos [OF _ assms(4), where c = "5/2" and d = "5/2"]) simp_all
  then have "fin_in (max 1 0) (max 1 (of_int K)) (eff_k_n d)"
    unfolding eff_k_n_def assms(3) by (intro fmax_in) simp_all
  then show ?thesis
    by (rule fin_in_weaken) (use assms(1) in simp_all)
qed

lemma attack_step:
  assumes "1 \<le> K" "7 * K * (int j + 1) < 2 ^ 24"
    and inv: "attack_inv K j d" and r: "north_offset K r"
  shows "attack_inv K (Suc j) (snd (drift_evaluate d r hp sn))"
proof -
  have "7 * K * 1 \<le> 7 * K * (int j + 1)"
    using assms(1) by (intro mult_left_mono) simp_all
  then have K7: "7 * K < 2 ^ 24" using assms(2) by linarith
  let ?f = "drift_floors d r"
  note fl = floor_during_attack [OF assms(1) K7 inv r]
  have k: "fin_in 0 (of_int K) (eff_k_n ?f)"
    using inv by (intro eff_k_during_attack assms(1) K7 fl) (simp add: attack_inv_def detect_config_default_def)
  have s: "fin_in (of_nat j) (of_int (7 * K * int j)) (s_pos_n (dd_state d))"
    using inv by (simp add: attack_inv_def)
  have "fin_in (of_nat (Suc j)) (of_int (7 * K * int (Suc j)))
      (cusum_up (s_pos_n (dd_state d)) (north r) (eff_k_n ?f))"
    using r by (intro cusum_up_progress assms(1,2) s k) (simp add: north_offset_def)
  then have "attack_inv K (Suc j) (drift_accumulate ?f r)"
    using inv fl by (simp add: attack_inv_def drift_accumulate_def Let_def)
  moreover have "snd (drift_evaluate d r hp sn) = drift_accumulate ?f r"
    using inv r by (simp add: drift_evaluate_def attack_inv_def north_offset_def Let_def split: prod.splits)
  ultimately show ?thesis by simp
qed

lemma attack_run:
  assumes "1 \<le> K" "7 * K * int (length xs) < 2 ^ 24" "attack_inv K 0 d"
    and "\<And>r hp sn. (r, hp, sn) \<in> set xs \<Longrightarrow> north_offset K r"
  shows "attack_inv K (length xs) (drift_run d xs)"
  using assms
proof (induction xs rule: rev_induct)
  case (snoc x xs)
  obtain r hp sn where x: "x = (r, hp, sn)" by (cases x)
  have "7 * K * int (length xs) < 2 ^ 24" using snoc.prems(1,2) by (simp add: algebra_simps)
  then have "attack_inv K (length xs) (drift_run d xs)"
    using snoc.prems by (intro snoc.IH) auto
  then have "attack_inv K (Suc (length xs)) (snd (drift_evaluate (drift_run d xs) r hp sn))"
    using snoc.prems by (intro attack_step) (auto simp: x algebra_simps)
  then show ?case by (simp add: x drift_run_append)
qed simp

lemma attack_reported:
  assumes "attack_inv K j (drift_accumulate d r)" "25 \<le> j"
    and "\<not> (hdop_bad (dd_cfg d) hp \<and> sats_bad (dd_cfg d) sn)" "dd_cfg d' = dd_cfg d"
    and "(h, h_mag) = drift_thresholds d' hp sn"
  shows "drift_decide (drift_accumulate d r) h h_mag = Some NorthPositive"
proof -
  have "h = FNum 25"
    using assms by (auto simp: drift_thresholds_def attack_inv_def detect_config_default_def Let_def)
  moreover have "fle (FNum 25) (s_pos_n (dd_state (drift_accumulate d r)))"
    using assms(1,2) by (auto simp: attack_inv_def intro: fin_in_fle)
  ultimately show ?thesis by (simp add: drift_decide_def Let_def)
qed

text \<open>Warmup on fixes with no north residual leaves the north floor and accumulators at zero.\<close>

lemma welford_zero: "0 < w \<Longrightarrow> welford (FNum 0) (FNum 0) (FNum w) = FNum 0"
  by (simp add: welford_def fadd_FNum fsub_FNum fdiv_def)

definition north_quiet :: "residual \<Rightarrow> bool" where
  "north_quiet r \<longleftrightarrow> drift_finite r \<and> north r = FNum 0"

lemma warmup_quiet:
  assumes "\<And>r hp sn. (r, hp, sn) \<in> set ws \<Longrightarrow> north_quiet r" "length ws \<le> WARMUP_FIXES"
  shows "axis_noise_n (drift_run (drift_new cfg) ws) = FNum 0
    \<and> warmup (drift_run (drift_new cfg) ws) = length ws
    \<and> dd_state (drift_run (drift_new cfg) ws) = cusum_default"
  using assms
proof (induction ws rule: rev_induct)
  case Nil
  then show ?case by (simp add: drift_new_def)
next
  case (snoc x ws)
  obtain r hp sn where x: "x = (r, hp, sn)" by (cases x)
  have IH: "axis_noise_n (drift_run (drift_new cfg) ws) = FNum 0"
    "warmup (drift_run (drift_new cfg) ws) = length ws"
    using snoc by auto
  have q: "north_quiet r" using snoc.prems(1) x by auto
  have "of_int_fl B32 (int (Suc (length ws))) = FNum (of_nat (Suc (length ws)))"
    using snoc.prems(2) fround_int [of B32 "int (Suc (length ws))" False]
    by (simp add: of_int_fl_def WARMUP_FIXES_def)
  with IH q snoc.prems(2) show ?case
    by (simp add: x drift_run_append drift_evaluate_def drift_warmup_def Let_def north_quiet_def
        welford_zero split: prod.splits)
qed

section \<open>Properties\<close>

text \<open>
  Whatever residuals are fed to a new detector, NaN and infinite ones included, every
  accumulator is a number, never NaN, and at least zero, the warmup counter stays in range,
  and the accumulators are all zero as long as the detector is still learning its noise
  floors.
\<close>

theorem drift_accumulators_well_formed:
  "drift_inv (drift_run (drift_new cfg) xs)"
  by (rule drift_run_inv [OF drift_inv_new])

text \<open>
  A lane with evidence cannot be talked down: while an accumulator of the north axis
  (or of the magnitude lane, or of the velocity lane) is above zero, no residual changes
  the noise floor of that lane, so an attack in progress cannot raise its own threshold.
\<close>

theorem drift_floor_frozen_under_attack:
  assumes "drift_inv d" and d': "d' = snd (drift_evaluate d r hp sn)"
  shows "(fgt (s_pos_n (dd_state d)) (FNum 0) \<or> fgt (s_neg_n (dd_state d)) (FNum 0)
           \<longrightarrow> axis_noise_n d' = axis_noise_n d)
    \<and> (fgt (s_pos_e (dd_state d)) (FNum 0) \<or> fgt (s_neg_e (dd_state d)) (FNum 0)
           \<longrightarrow> axis_noise_e d' = axis_noise_e d)
    \<and> (fgt (s_mag (dd_state d)) (FNum 0) \<longrightarrow> mag_noise_ewma d' = mag_noise_ewma d)
    \<and> (fgt (s_vel_aiding (dd_state d)) (FNum 0) \<longrightarrow> vel_aiding_noise d' = vel_aiding_noise d)"
proof -
  have pos: "\<not> feq x (FNum 0)" "\<not> fle x (FNum 0)" if "fgt x (FNum 0)" for x
    using that by (cases x; auto simp: feq_def fle_def flt_def)+
  show ?thesis
  proof (cases "warmup d < WARMUP_FIXES")
    case True
    with assms(1) have "dd_state d = cusum_default" by (simp add: drift_inv_def)
    then show ?thesis by (simp add: cusum_default_def)
  next
    case False
    then show ?thesis
      by (auto simp: d' drift_evaluate_def Let_def drift_floors_def pos split: prod.splits)
  qed
qed

theorem drift_floor_frozen_under_attack_witness:
  "axis_noise_n (snd (drift_evaluate
      ((drift_new detect_config_default)\<lparr>warmup := 20, dd_state := cusum_default\<lparr>s_pos_n := FNum 3\<rparr>\<rparr>)
      residual_default None None)) = FNum 0"
  using drift_floor_frozen_under_attack
    [of "(drift_new detect_config_default)\<lparr>warmup := 20, dd_state := cusum_default\<lparr>s_pos_n := FNum 3\<rparr>\<rparr>"
      _ residual_default None None, OF _ refl]
  by (simp add: drift_inv_def cusum_ok_def cusum_default_def drift_new_def WARMUP_FIXES_def)

text \<open>
  C35. A sustained walk-off is detected, in \<open>f32\<close> arithmetic and whatever the other
  components of the residual do: after the twenty warmup fixes without a north residual,
  if every fix shows a north offset between \<open>K + 1\<close> and \<open>7 K\<close> metres
  (\<open>K\<close> any whole number up to 50000), the default configuration reports
  \<open>NorthPositive\<close> on the 25th of them at the latest, unless that fix reports both a
  bad dilution of precision and a low satellite count.
\<close>

theorem sustained_north_offset_detected:
  assumes "1 \<le> K" and "K \<le> 50000"
    and "length ws = 20" and "\<And>r hp sn. (r, hp, sn) \<in> set ws \<Longrightarrow> north_quiet r"
    and "length xs = 24" and "\<And>r hp sn. (r, hp, sn) \<in> set xs \<Longrightarrow> north_offset K r"
    and "north_offset K r"
    and "\<not> (hdop_bad detect_config_default hp \<and> sats_bad detect_config_default sn)"
  shows "fst (drift_evaluate (drift_run (drift_new detect_config_default) (ws @ xs)) r hp sn)
    = Some NorthPositive"
proof -
  let ?dw = "drift_run (drift_new detect_config_default) ws"
  let ?d = "drift_run ?dw xs"
  have cfg: "dd_cfg ?dw = detect_config_default" by (simp add: drift_new_def)
  have "attack_inv K 0 ?dw"
    using warmup_quiet [of ws detect_config_default] assms(3,4) cfg
    by (simp add: attack_inv_def WARMUP_FIXES_def cusum_default_def)
  then have inv: "attack_inv K 24 ?d"
    using attack_run [of K xs ?dw] assms(1,2,5,6) by simp
  have step: "attack_inv K 25 (snd (drift_evaluate ?d r hp sn))"
    using attack_step [OF assms(1) _ inv assms(7)] assms(2) by simp
  obtain h h_mag where h: "drift_thresholds ?d hp sn = (h, h_mag)" by force
  have "\<not> warmup ?d < WARMUP_FIXES" "drift_finite r"
    using inv assms(7) by (simp_all add: attack_inv_def north_offset_def)
  then have ev: "drift_evaluate ?d r hp sn =
      (drift_decide (drift_accumulate (drift_floors ?d r) r) h h_mag, drift_accumulate (drift_floors ?d r) r)"
    using h by (simp add: drift_evaluate_def Let_def)
  have "drift_decide (drift_accumulate (drift_floors ?d r) r) h h_mag = Some NorthPositive"
    using step ev h cfg assms(8) by (intro attack_reported [of K 25 _ r hp sn ?d]) simp_all
  then show ?thesis by (simp add: drift_run_append ev)
qed

theorem sustained_north_offset_detected_witness:
  "fst (drift_evaluate
      (drift_run (drift_new detect_config_default)
        (replicate 20 (residual_default, None, None)
          @ replicate 24 (residual_default\<lparr>dpos := ned_default\<lparr>ned_n := FNum 3\<rparr>\<rparr>, None, None)))
      (residual_default\<lparr>dpos := ned_default\<lparr>ned_n := FNum 3\<rparr>\<rparr>) None None)
    = Some NorthPositive"
  by (rule sustained_north_offset_detected [of 1])
    (auto simp: north_quiet_def north_offset_def drift_finite_def residual_default_def
      ned_default_def to_f32_def)

end
