(* ===== verification/State_Machine.thy ===== *)
theory State_Machine
  imports Jump Drift
begin

text \<open>
  The detector state machine, \<open>src/src/detect/state_machine.rs\<close>: Normal, Suspicious,
  and Spoofed, which is latched until the operator resets it. \<open>evaluate\<close> runs the stages
  of the code in order: drain the per-fix flags, return at once when Spoofed, GPS-dropout
  bookkeeping, the two detectors, sample cleanliness, and the transition. Every public
  operation that changes state is a definition; \<open>fsm_step\<close> collects them as the step
  relation of the machine.
\<close>

section \<open>State\<close>

datatype fsm_event =
    EvJump jump_reason
  | EvDrift drift_reason
  | EvTransition nav_state_kind nav_state_kind

record state_machine =
  sm_cfg :: detect_config
  sm_state :: nav_state_kind
  sm_jump :: jump_detector
  sm_drift :: drift_detector
  suspicious_since :: "f64 option"
  last_clean_since :: "f64 option"
  dropout_recovery :: bool
  external_anomaly :: bool
  last_dropout_t :: "f64 option"
  dropout_recovery_count :: u64
  consecutive_dropout :: u8
  paused_cumulative_s :: f64
  pause_budget_warned :: bool
  dwell_pause_exceeded_pending :: bool
  pos_detectors_enabled :: bool

definition MAX_CONSECUTIVE_DROPOUT :: u8 where "MAX_CONSECUTIVE_DROPOUT = 5"
definition CLEAR_NOISE_FACTOR :: f32 where "CLEAR_NOISE_FACTOR = FNum 3"
definition CLEAR_QUIESCENT_FRACTION :: f32 where "CLEAR_QUIESCENT_FRACTION = lit B32 (25 / 100)"

definition fsm_new :: "detect_config \<Rightarrow> state_machine" where
  "fsm_new cfg = \<lparr>
     sm_cfg = cfg, sm_state = Normal, sm_jump = jump_new cfg, sm_drift = drift_new cfg,
     suspicious_since = None, last_clean_since = None, dropout_recovery = False,
     external_anomaly = False, last_dropout_t = None, dropout_recovery_count = 0,
     consecutive_dropout = 0, paused_cumulative_s = FNum 0, pause_budget_warned = False,
     dwell_pause_exceeded_pending = False, pos_detectors_enabled = True\<rparr>"

section \<open>Small operations\<close>

definition set_pos_detectors_enabled :: "bool \<Rightarrow> state_machine \<Rightarrow> state_machine" where
  "set_pos_detectors_enabled on sm =
     (let sm' = (if \<not> on \<and> pos_detectors_enabled sm
                 then sm\<lparr>sm_drift := drift_reset (sm_drift sm), sm_jump := jump_reset (sm_jump sm)\<rparr>
                 else sm)
      in sm'\<lparr>pos_detectors_enabled := on\<rparr>)"

definition note_dropout_recovery :: "state_machine \<Rightarrow> state_machine" where
  "note_dropout_recovery sm = sm\<lparr>dropout_recovery := True\<rparr>"

definition note_external_anomaly :: "state_machine \<Rightarrow> state_machine" where
  "note_external_anomaly sm = sm\<lparr>external_anomaly := True\<rparr>"

definition consecutive_dropout_count :: "state_machine \<Rightarrow> u8" where
  "consecutive_dropout_count sm = consecutive_dropout sm"

definition paused_cumulative_secs :: "state_machine \<Rightarrow> f64" where
  "paused_cumulative_secs sm = paused_cumulative_s sm"

definition manual_reset_to_normal :: "state_machine \<Rightarrow> state_machine" where
  "manual_reset_to_normal sm = sm\<lparr>
     sm_state := Normal, suspicious_since := None, last_clean_since := None,
     sm_drift := drift_reset (sm_drift sm), sm_jump := jump_reset (sm_jump sm),
     dropout_recovery := False, external_anomaly := False, consecutive_dropout := 0,
     paused_cumulative_s := FNum 0, pause_budget_warned := False,
     dwell_pause_exceeded_pending := False, last_dropout_t := None\<rparr>"

definition force_back_to_suspicious :: "f64 \<Rightarrow> f64 option \<Rightarrow> state_machine \<Rightarrow> state_machine" where
  "force_back_to_suspicious t original sm =
     (if sm_state sm \<noteq> Normal then sm
      else sm\<lparr>sm_state := Suspicious,
              suspicious_since := (case original of Some x \<Rightarrow> Some x | None \<Rightarrow> Some t),
              last_clean_since := None\<rparr>)"

definition commit_susp_to_normal :: "state_machine \<Rightarrow> state_machine" where
  "commit_susp_to_normal sm = sm\<lparr>
     sm_drift := drift_reset (sm_drift sm), sm_jump := jump_reset (sm_jump sm),
     paused_cumulative_s := FNum 0, pause_budget_warned := False\<rparr>"

definition on_clean_anchor :: "state_machine \<Rightarrow> state_machine" where
  "on_clean_anchor sm =
     (if sm_state sm = Normal then sm\<lparr>sm_drift := drift_reset (sm_drift sm)\<rparr> else sm)"

section \<open>Evaluation of one fix\<close>

text \<open>The flags are drained before anything else.\<close>

definition drain_flags :: "state_machine \<Rightarrow> state_machine" where
  "drain_flags sm = sm\<lparr>dropout_recovery := False, external_anomaly := False\<rparr>"

text \<open>
  The dropout stage for a recovery fix: within both caps, and in Suspicious, move
  \<open>suspicious_since\<close> forward over the gap and charge the gap to the episode's budget;
  on the first fix past a cap, raise the notice.
\<close>

definition budget_ok :: "state_machine \<Rightarrow> bool" where
  "budget_ok sm \<longleftrightarrow> flt (paused_cumulative_s sm) (max_dwell_pause_s (sm_cfg sm))"

definition absorb_gap :: "f64 \<Rightarrow> state_machine \<Rightarrow> state_machine" where
  "absorb_gap t sm =
     (case suspicious_since sm of
        None \<Rightarrow> sm
      | Some susp_t \<Rightarrow>
          (let prev_t = (case last_dropout_t sm of Some x \<Rightarrow> x | None \<Rightarrow> susp_t);
               elapsed = fmax (fsub B64 t prev_t) (FNum 0)
           in sm\<lparr>suspicious_since := Some (fadd B64 susp_t elapsed),
                 paused_cumulative_s := fadd B64 (paused_cumulative_s sm) elapsed\<rparr>))"

definition count_dropout :: "state_machine \<Rightarrow> state_machine" where
  "count_dropout sm = sm\<lparr>
     dropout_recovery_count := saturating_add (dropout_recovery_count sm) 1,
     consecutive_dropout := saturating_add (consecutive_dropout sm) 1\<rparr>"

definition pause_or_warn :: "f64 \<Rightarrow> state_machine \<Rightarrow> state_machine" where
  "pause_or_warn t sm =
     (if consecutive_dropout sm \<le> MAX_CONSECUTIVE_DROPOUT \<and> budget_ok sm then
        (if sm_state sm = Suspicious then absorb_gap t sm else sm)
      else if sm_state sm = Suspicious \<and>
              (consecutive_dropout sm = MAX_CONSECUTIVE_DROPOUT + 1
               \<or> (\<not> budget_ok sm \<and> \<not> pause_budget_warned sm)) then
        sm\<lparr>pause_budget_warned := (pause_budget_warned sm \<or> \<not> budget_ok sm),
           dwell_pause_exceeded_pending := True\<rparr>
      else sm)"

definition dropout_stage :: "bool \<Rightarrow> f64 \<Rightarrow> state_machine \<Rightarrow> state_machine" where
  "dropout_stage recovery t sm =
     (if recovery then (pause_or_warn t (count_dropout sm))\<lparr>last_dropout_t := Some t\<rparr>
      else sm\<lparr>last_dropout_t := None, consecutive_dropout := 0\<rparr>)"

definition run_detectors ::
    "residual \<Rightarrow> f32 option \<Rightarrow> u8 option \<Rightarrow> state_machine
     \<Rightarrow> jump_reason option \<times> drift_reason option \<times> state_machine" where
  "run_detectors r hp sn sm =
     (if pos_detectors_enabled sm
      then let (j, jd) = jump_evaluate (sm_jump sm) r hp sn;
               (d, dd) = drift_evaluate (sm_drift sm) r hp sn
           in (j, d, sm\<lparr>sm_jump := jd, sm_drift := dd\<rparr>)
      else (None, None, sm))"

definition cusum_peak :: "cusum_state \<Rightarrow> f32" where
  "cusum_peak s = fmax (fmax (fmax (fmax (s_pos_n s) (s_neg_n s)) (s_pos_e s)) (s_neg_e s)) (s_mag s)"

definition pos_thresh :: "residual \<Rightarrow> state_machine \<Rightarrow> f32" where
  "pos_thresh r sm =
     (let base = (if dvel_known r then cusum_k_m (sm_cfg sm)
                  else fmul B32 (cusum_k_m (sm_cfg sm)) (lit B32 (5 / 10)))
      in fmax base (fmul B32 (mag_noise_floor (sm_drift sm)) CLEAR_NOISE_FACTOR))"

definition sample_clean :: "residual \<Rightarrow> bool \<Rightarrow> state_machine \<Rightarrow> bool" where
  "sample_clean r firing sm \<longleftrightarrow>
     flt (to_f32 (mag_pos r)) (pos_thresh r sm)
     \<and> (\<not> dvel_known r \<or>
        flt (to_f32 (mag_vel r)) (fmul B32 (max_velocity_mismatch_mps (sm_cfg sm)) (lit B32 (25 / 100))))
     \<and> flt (cusum_peak (drift_state (sm_drift sm))) (fmul B32 (cusum_h_m (sm_cfg sm)) CLEAR_QUIESCENT_FRACTION)
     \<and> \<not> firing"

text \<open>The transition stage: the new machine and the transition events.\<close>

definition transition_normal :: "f64 \<Rightarrow> bool \<Rightarrow> state_machine \<Rightarrow> state_machine \<times> fsm_event list" where
  "transition_normal t firing sm =
     (if firing
      then (sm\<lparr>suspicious_since := Some t, last_clean_since := None, paused_cumulative_s := FNum 0,
               pause_budget_warned := False, sm_state := Suspicious\<rparr>,
            [EvTransition Normal Suspicious])
      else (sm, []))"

definition transition_suspicious ::
    "f64 \<Rightarrow> bool \<Rightarrow> bool \<Rightarrow> state_machine \<Rightarrow> state_machine \<times> fsm_event list" where
  "transition_suspicious t firing clean sm =
     (let entered = (case suspicious_since sm of Some x \<Rightarrow> x | None \<Rightarrow> t)
      in if clean then
           let clean_since = (case last_clean_since sm of Some x \<Rightarrow> x | None \<Rightarrow> t)
           in if fge (fsub B64 t clean_since) (normal_clear_dwell_s (sm_cfg sm))
              then (sm\<lparr>sm_state := Normal, suspicious_since := None, last_clean_since := None\<rparr>,
                    [EvTransition Suspicious Normal])
              else (sm\<lparr>last_clean_since := Some clean_since\<rparr>, [])
         else if firing then
           (if fge (fsub B64 t entered) (suspicious_to_spoofed_dwell_s (sm_cfg sm))
            then (sm\<lparr>last_clean_since := None, sm_state := Spoofed, suspicious_since := None\<rparr>,
                  [EvTransition Suspicious Spoofed])
            else (sm\<lparr>last_clean_since := None\<rparr>, []))
         else (sm\<lparr>last_clean_since := None\<rparr>, []))"

text \<open>The \<open>unreachable!()\<close> arm of the match is not reached: Spoofed returned before.\<close>

definition transition :: "f64 \<Rightarrow> bool \<Rightarrow> bool \<Rightarrow> state_machine \<Rightarrow> state_machine \<times> fsm_event list" where
  "transition t firing clean sm =
     (case sm_state sm of
        Normal \<Rightarrow> transition_normal t firing sm
      | Suspicious \<Rightarrow> transition_suspicious t firing clean sm
      | Spoofed \<Rightarrow> (sm, []))"

definition detector_events :: "jump_reason option \<Rightarrow> drift_reason option \<Rightarrow> fsm_event list" where
  "detector_events j d =
     (case j of Some x \<Rightarrow> [EvJump x] | None \<Rightarrow> []) @ (case d of Some x \<Rightarrow> [EvDrift x] | None \<Rightarrow> [])"

definition fsm_evaluate ::
    "residual \<Rightarrow> f64 \<Rightarrow> f32 option \<Rightarrow> u8 option \<Rightarrow> state_machine \<Rightarrow> fsm_event list \<times> state_machine" where
  "fsm_evaluate r t hp sn sm =
     (let recovery = dropout_recovery sm;
          pending_external = external_anomaly sm;
          sm1 = drain_flags sm
      in if sm_state sm1 = Spoofed then ([], sm1)
         else
           let sm2 = dropout_stage recovery t sm1;
               (j, d, sm3) = run_detectors r hp sn sm2;
               firing = (j \<noteq> None \<or> d \<noteq> None \<or> pending_external);
               clean = sample_clean r firing sm3;
               (sm4, evs) = transition t firing clean sm3
           in (detector_events j d @ evs, sm4))"

section \<open>What each stage leaves alone\<close>

lemma drain_flags_frame [simp, fsm_frame]:
  "sm_cfg (drain_flags sm) = sm_cfg sm" "sm_state (drain_flags sm) = sm_state sm"
  "sm_jump (drain_flags sm) = sm_jump sm" "sm_drift (drain_flags sm) = sm_drift sm"
  "suspicious_since (drain_flags sm) = suspicious_since sm"
  "last_clean_since (drain_flags sm) = last_clean_since sm"
  "last_dropout_t (drain_flags sm) = last_dropout_t sm"
  "consecutive_dropout (drain_flags sm) = consecutive_dropout sm"
  "paused_cumulative_s (drain_flags sm) = paused_cumulative_s sm"
  "dropout_recovery (drain_flags sm) = False" "external_anomaly (drain_flags sm) = False"
  by (simp_all add: drain_flags_def)

lemma pause_or_warn_frame [simp, fsm_frame]:
  "sm_cfg (pause_or_warn t sm) = sm_cfg sm" "sm_state (pause_or_warn t sm) = sm_state sm"
  "sm_jump (pause_or_warn t sm) = sm_jump sm" "sm_drift (pause_or_warn t sm) = sm_drift sm"
  "last_clean_since (pause_or_warn t sm) = last_clean_since sm"
  "consecutive_dropout (pause_or_warn t sm) = consecutive_dropout sm"
  "suspicious_since (pause_or_warn t sm) = None \<longleftrightarrow> suspicious_since sm = None"
  "pos_detectors_enabled (pause_or_warn t sm) = pos_detectors_enabled sm"
  "dropout_recovery (pause_or_warn t sm) = dropout_recovery sm"
  by (simp_all add: pause_or_warn_def absorb_gap_def Let_def split: option.splits)

lemma dropout_stage_frame [simp, fsm_frame]:
  "sm_cfg (dropout_stage b t sm) = sm_cfg sm" "sm_state (dropout_stage b t sm) = sm_state sm"
  "sm_jump (dropout_stage b t sm) = sm_jump sm" "sm_drift (dropout_stage b t sm) = sm_drift sm"
  "last_clean_since (dropout_stage b t sm) = last_clean_since sm"
  "suspicious_since (dropout_stage b t sm) = None \<longleftrightarrow> suspicious_since sm = None"
  "pos_detectors_enabled (dropout_stage b t sm) = pos_detectors_enabled sm"
  "dropout_recovery (dropout_stage b t sm) = dropout_recovery sm"
  by (simp_all add: dropout_stage_def count_dropout_def)

lemma run_detectors_frame [fsm_frame]:
  assumes "run_detectors r hp sn sm = (j, d, sm')"
  shows "sm_cfg sm' = sm_cfg sm" "sm_state sm' = sm_state sm"
    "suspicious_since sm' = suspicious_since sm" "last_clean_since sm' = last_clean_since sm"
    "last_dropout_t sm' = last_dropout_t sm" "consecutive_dropout sm' = consecutive_dropout sm"
    "paused_cumulative_s sm' = paused_cumulative_s sm"
    "jd_cfg (sm_jump sm') = jd_cfg (sm_jump sm)" "dd_cfg (sm_drift sm') = dd_cfg (sm_drift sm)"
    "drift_inv (sm_drift sm) \<Longrightarrow> drift_inv (sm_drift sm')"
    "dropout_recovery sm' = dropout_recovery sm"
  using assms jump_evaluate_cfg [of "sm_jump sm" r hp sn] drift_evaluate_cfg [of "sm_drift sm" r hp sn]
    drift_inv_evaluate [of "sm_drift sm" r hp sn]
  by (auto simp: run_detectors_def simp del: jump_evaluate_cfg drift_evaluate_cfg
      split: if_splits prod.splits)

section \<open>Case rules for one fix\<close>

text \<open>
  The case rule names the intermediate results of \<open>evaluate\<close> on a machine that is not
  Spoofed: the detectors' answers, whether anything fires, the machine the transition
  stage starts from, and the result. Proofs about \<open>evaluate\<close> start from it.
\<close>

lemma fsm_evaluate_cases:
  obtains (spoofed) "sm_state sm = Spoofed" "fsm_evaluate r t hp sn sm = ([], drain_flags sm)"
  | (step) j d sm3 sm' evs firing where
      "sm_state sm \<noteq> Spoofed"
      "run_detectors r hp sn (dropout_stage (dropout_recovery sm) t (drain_flags sm)) = (j, d, sm3)"
      "firing = (j \<noteq> None \<or> d \<noteq> None \<or> external_anomaly sm)"
      "transition t firing (sample_clean r firing sm3) sm3 = (sm', evs)"
      "fsm_evaluate r t hp sn sm = (detector_events j d @ evs, sm')"
      "sm_state sm3 = sm_state sm"
proof (cases "sm_state sm = Spoofed")
  case True
  then show ?thesis by (intro spoofed) (simp_all add: fsm_evaluate_def)
next
  case False
  let ?sm2 = "dropout_stage (dropout_recovery sm) t (drain_flags sm)"
  obtain j d sm3 where rd: "run_detectors r hp sn ?sm2 = (j, d, sm3)"
    by (metis surj_pair)
  let ?f = "j \<noteq> None \<or> d \<noteq> None \<or> external_anomaly sm"
  obtain sm' evs where tr: "transition t ?f (sample_clean r ?f sm3) sm3 = (sm', evs)"
    by (metis surj_pair)
  have "fsm_evaluate r t hp sn sm = (detector_events j d @ evs, sm')"
    using False rd tr by (simp add: fsm_evaluate_def Let_def)
  with False rd tr show ?thesis
    by (intro step [OF _ rd refl tr]) (simp_all add: run_detectors_frame(2) [OF rd])
qed

lemma transition_cases:
  assumes "transition t firing clean sm = (sm', evs)"
  obtains (stay) "sm_state sm' = sm_state sm" "suspicious_since sm' = suspicious_since sm" "evs = []"
    | (suspect) "sm_state sm = Normal" "firing" "sm_state sm' = Suspicious"
        "suspicious_since sm' = Some t" "last_clean_since sm' = None" "evs = [EvTransition Normal Suspicious]"
    | (clear) "sm_state sm = Suspicious" "clean" "sm_state sm' = Normal"
        "suspicious_since sm' = None" "evs = [EvTransition Suspicious Normal]"
    | (latch) "sm_state sm = Suspicious" "firing" "sm_state sm' = Spoofed"
        "suspicious_since sm' = None" "evs = [EvTransition Suspicious Spoofed]"
  using assms
  by (auto simp: transition_def transition_normal_def transition_suspicious_def Let_def
      split: nav_state_kind.splits if_splits)

lemma transition_frame:
  assumes "transition t firing clean sm = (sm', evs)"
  shows "sm_cfg sm' = sm_cfg sm" "sm_jump sm' = sm_jump sm" "sm_drift sm' = sm_drift sm"
    "last_dropout_t sm' = last_dropout_t sm" "consecutive_dropout sm' = consecutive_dropout sm"
    "last_clean_since sm' = None \<or> sm_state sm' = Suspicious
       \<or> sm_state sm' = sm_state sm \<and> last_clean_since sm' = last_clean_since sm"
  using assms
  by (auto simp: transition_def transition_normal_def transition_suspicious_def Let_def
      split: nav_state_kind.splits if_splits)

section \<open>The machine as a transition system\<close>

datatype fsm_op =
    OpPosDetectors bool
  | OpDropoutRecovery
  | OpExternalAnomaly
  | OpEvaluate residual f64 "f32 option" "u8 option"
  | OpManualReset
  | OpForceBack f64 "f64 option"
  | OpCommit
  | OpCleanAnchor
  | OpNoticeTaken

text \<open>
  Every call the owner of the machine can make. \<open>OpNoticeTaken\<close> is the write to the
  public field \<open>dwell_pause_exceeded_pending\<close> by which the owner consumes the notice.
\<close>

inductive fsm_step :: "state_machine \<Rightarrow> fsm_op \<Rightarrow> fsm_event list \<Rightarrow> state_machine \<Rightarrow> bool" where
  pos: "fsm_step sm (OpPosDetectors on) [] (set_pos_detectors_enabled on sm)"
| dropout: "fsm_step sm OpDropoutRecovery [] (note_dropout_recovery sm)"
| external: "fsm_step sm OpExternalAnomaly [] (note_external_anomaly sm)"
| evaluate: "fsm_evaluate r t hp sn sm = (evs, sm') \<Longrightarrow> fsm_step sm (OpEvaluate r t hp sn) evs sm'"
| reset: "fsm_step sm OpManualReset [] (manual_reset_to_normal sm)"
| force: "fsm_step sm (OpForceBack t orig) [] (force_back_to_suspicious t orig sm)"
| commit: "fsm_step sm OpCommit [] (commit_susp_to_normal sm)"
| anchor: "fsm_step sm OpCleanAnchor [] (on_clean_anchor sm)"
| taken: "fsm_step sm OpNoticeTaken [] (sm\<lparr>dwell_pause_exceeded_pending := False\<rparr>)"

inductive_simps fsm_step_evaluate: "fsm_step sm (OpEvaluate r t hp sn) evs sm'"

text \<open>Runs from a machine, with the operations in order.\<close>

inductive fsm_run :: "state_machine \<Rightarrow> fsm_op list \<Rightarrow> state_machine \<Rightarrow> bool" where
  start: "fsm_run sm [] sm"
| more: "fsm_run sm ops sm' \<Longrightarrow> fsm_step sm' op evs sm'' \<Longrightarrow> fsm_run sm (ops @ [op]) sm''"

definition fsm_inv :: "state_machine \<Rightarrow> bool" where
  "fsm_inv sm \<longleftrightarrow>
     (sm_state sm = Suspicious \<longleftrightarrow> suspicious_since sm \<noteq> None)
     \<and> (last_clean_since sm \<noteq> None \<longrightarrow> sm_state sm = Suspicious)
     \<and> jd_cfg (sm_jump sm) = sm_cfg sm \<and> dd_cfg (sm_drift sm) = sm_cfg sm
     \<and> drift_inv (sm_drift sm)
     \<and> (consecutive_dropout sm = 0 \<longleftrightarrow> last_dropout_t sm = None)"

lemma fsm_inv_new: "fsm_inv (fsm_new cfg)"
  using drift_inv_new [of cfg] by (simp add: fsm_inv_def fsm_new_def drift_new_def)

lemma saturating_suc_neq_0: "saturating_add (c :: u8) 1 \<noteq> 0"
proof -
  have "unat (saturating_add c 1) \<noteq> 0" by (simp add: unat_saturating_add)
  then show ?thesis by auto
qed

lemma dropout_stage_streak:
  "consecutive_dropout (dropout_stage b t sm) = 0 \<longleftrightarrow> last_dropout_t (dropout_stage b t sm) = None"
  by (simp add: dropout_stage_def count_dropout_def saturating_suc_neq_0)

lemma fsm_inv_evaluate:
  assumes inv: "fsm_inv sm" and ev: "fsm_evaluate r t hp sn sm = (evs, sm')"
  shows "fsm_inv sm' \<and> sm_cfg sm' = sm_cfg sm"
proof (cases rule: fsm_evaluate_cases [of sm r t hp sn])
  case spoofed
  with inv ev show ?thesis by (auto simp: fsm_inv_def)
next
  case (step j d sm3 sm4 es firing)
  then have sm': "sm' = sm4" using ev by simp
  note f = run_detectors_frame [OF step(2)] transition_frame [OF step(4)]
  have i3: "fsm_inv sm3"
    using inv f(1-10) dropout_stage_streak [of "dropout_recovery sm" t "drain_flags sm"]
    by (auto simp: fsm_inv_def)
  from step(4) show ?thesis
    by (cases rule: transition_cases)
      (use i3 f in \<open>auto simp: fsm_inv_def sm'\<close>)
qed

lemma fsm_inv_step:
  assumes "fsm_step sm op evs sm'" and "fsm_inv sm"
  shows "fsm_inv sm' \<and> sm_cfg sm' = sm_cfg sm"
  using assms
proof cases
  case evaluate
  then show ?thesis using assms(2) fsm_inv_evaluate by blast
qed (use assms(2) in \<open>auto simp: fsm_inv_def set_pos_detectors_enabled_def note_dropout_recovery_def
      note_external_anomaly_def manual_reset_to_normal_def force_back_to_suspicious_def
      commit_susp_to_normal_def on_clean_anchor_def drift_inv_reset Let_def split: option.splits\<close>)

lemma fsm_inv_run:
  assumes "fsm_run sm ops sm'" and "fsm_inv sm"
  shows "fsm_inv sm' \<and> sm_cfg sm' = sm_cfg sm"
  using assms by induction (auto dest: fsm_inv_step)

section \<open>Sequences of fixes\<close>

text \<open>
  One fix as the owner presents it: the two notes it may set, then \<open>evaluate\<close>.
  \<open>fires\<close> says that the fix is anomalous: an external detector was noted for it, or the
  jump or the drift detector reports.
\<close>

record fsm_fix =
  fx_dropout :: bool
  fx_external :: bool
  fx_r :: residual
  fx_t :: f64
  fx_hdop :: "f32 option"
  fx_sats :: "u8 option"

definition fsm_notes :: "fsm_fix \<Rightarrow> state_machine \<Rightarrow> state_machine" where
  "fsm_notes x sm =
     (let sm1 = (if fx_dropout x then note_dropout_recovery sm else sm)
      in if fx_external x then note_external_anomaly sm1 else sm1)"

definition fsm_fix_step :: "state_machine \<Rightarrow> fsm_fix \<Rightarrow> fsm_event list \<times> state_machine" where
  "fsm_fix_step sm x = fsm_evaluate (fx_r x) (fx_t x) (fx_hdop x) (fx_sats x) (fsm_notes x sm)"

fun fsm_fixes :: "state_machine \<Rightarrow> fsm_fix list \<Rightarrow> state_machine" where
  "fsm_fixes sm [] = sm"
| "fsm_fixes sm (x # xs) = fsm_fixes (snd (fsm_fix_step sm x)) xs"

definition fires :: "state_machine \<Rightarrow> fsm_fix \<Rightarrow> bool" where
  "fires sm x \<longleftrightarrow> external_anomaly (fsm_notes x sm) \<or>
     (\<exists>e \<in> set (fst (fsm_fix_step sm x)). (\<exists>j. e = EvJump j) \<or> (\<exists>d. e = EvDrift d))"

lemma fsm_fixes_append: "fsm_fixes sm (xs @ ys) = fsm_fixes (fsm_fixes sm xs) ys"
  by (induction xs arbitrary: sm) simp_all

lemma fsm_notes_frame [simp]:
  "sm_state (fsm_notes x sm) = sm_state sm" "suspicious_since (fsm_notes x sm) = suspicious_since sm"
  "last_clean_since (fsm_notes x sm) = last_clean_since sm" "sm_cfg (fsm_notes x sm) = sm_cfg sm"
  "last_dropout_t (fsm_notes x sm) = last_dropout_t sm" "paused_cumulative_s (fsm_notes x sm) = paused_cumulative_s sm"
  "consecutive_dropout (fsm_notes x sm) = consecutive_dropout sm"
  "fsm_inv (fsm_notes x sm) = fsm_inv sm"
  by (simp_all add: fsm_notes_def fsm_inv_def note_dropout_recovery_def note_external_anomaly_def Let_def)

lemma fsm_inv_fix_step: "fsm_inv sm \<Longrightarrow> fsm_inv (snd (fsm_fix_step sm x)) \<and> sm_cfg (snd (fsm_fix_step sm x)) = sm_cfg sm"
  using fsm_inv_evaluate [of "fsm_notes x sm"] unfolding fsm_fix_step_def
  by (metis fsm_notes_frame(4,8) prod.collapse)

lemma fsm_inv_fixes: "fsm_inv sm \<Longrightarrow> fsm_inv (fsm_fixes sm xs) \<and> sm_cfg (fsm_fixes sm xs) = sm_cfg sm"
  by (induction xs arbitrary: sm) (auto simp: fsm_inv_fix_step)

lemma detector_events_set:
  "(\<exists>e \<in> set (detector_events j d). (\<exists>j. e = EvJump j) \<or> (\<exists>d. e = EvDrift d)) \<longleftrightarrow> j \<noteq> None \<or> d \<noteq> None"
  by (auto simp: detector_events_def split: option.splits)

text \<open>The outcome of a fix, in terms of \<open>fires\<close> and the machine after the dropout stage.\<close>

lemma fsm_fix_step_cases:
  obtains (spoofed) "sm_state sm = Spoofed" "sm_state (snd (fsm_fix_step sm x)) = Spoofed"
  | (step) sm3 sm' evs where
      "sm_state sm \<noteq> Spoofed" "snd (fsm_fix_step sm x) = sm'"
      "transition (fx_t x) (fires sm x) (sample_clean (fx_r x) (fires sm x) sm3) sm3 = (sm', evs)"
      "sm_state sm3 = sm_state sm" "sm_cfg sm3 = sm_cfg sm"
      "last_clean_since sm3 = last_clean_since sm"
      "suspicious_since sm3 = suspicious_since (dropout_stage (dropout_recovery (fsm_notes x sm)) (fx_t x) (drain_flags (fsm_notes x sm)))"
      "paused_cumulative_s sm3 = paused_cumulative_s (dropout_stage (dropout_recovery (fsm_notes x sm)) (fx_t x) (drain_flags (fsm_notes x sm)))"
      "\<not> dropout_recovery sm3"
proof (cases rule: fsm_evaluate_cases [of "fsm_notes x sm" "fx_r x" "fx_t x" "fx_hdop x" "fx_sats x"])
  case spoofed
  then show ?thesis using that(1) by (simp add: fsm_fix_step_def)
next
  case (step j d sm3 sm' evs firing)
  have nt: "\<forall>e \<in> set evs. (\<forall>j. e \<noteq> EvJump j) \<and> (\<forall>d. e \<noteq> EvDrift d)"
    using step(4) by (cases rule: transition_cases) auto
  have "fires sm x = firing"
    using step(3,5) nt detector_events_set [of j d]
    by (auto simp: fires_def fsm_fix_step_def)
  with step run_detectors_frame [OF step(2)] show ?thesis
    by (intro that(2) [of sm' sm3 evs]) (simp_all add: fsm_fix_step_def)
qed


section \<open>How far the entry time can move\<close>

definition entry_ok :: "f64 \<Rightarrow> bool" where
  "entry_ok s \<longleftrightarrow> in_format B64 s \<and> \<not> is_nan s \<and> s \<noteq> FNInf"

lemma dropout_stage_since:
  assumes "suspicious_since sm = Some s" and "entry_ok s"
  shows "\<exists>s'. suspicious_since (dropout_stage b t sm) = Some s' \<and> fle s s' \<and> entry_ok s'"
proof -
  have "fle s s' \<and> entry_ok s'" if "s' = fadd B64 s (fmax e (FNum 0))" for s' e
  proof -
    have "fle s s'" using assms(2) fmax_nonneg [of e] that
      by (simp add: entry_ok_def fadd_ge_left)
    moreover have "in_format B64 s'" using that by simp
    moreover have "s' \<noteq> FNInf" using \<open>fle s s'\<close> assms(2) by (cases s) (auto simp: entry_ok_def)
    ultimately show ?thesis using fle_not_nan [of s s'] by (simp add: entry_ok_def)
  qed
  then show ?thesis
    using assms by (simp add: dropout_stage_def pause_or_warn_def absorb_gap_def count_dropout_def
      entry_ok_def Let_def)
qed

definition episode_from :: "state_machine \<Rightarrow> fsm_fix list \<Rightarrow> bool" where
  "episode_from sm0 xs \<longleftrightarrow>
     (\<forall>s. suspicious_since (fsm_fixes sm0 xs) = Some s \<longrightarrow>
       entry_ok s \<and> (\<exists>i < length xs. fires (fsm_fixes sm0 (take i xs)) (xs ! i) \<and> fle (fx_t (xs ! i)) s))"

lemma episode_from_start: "suspicious_since sm0 = None \<Longrightarrow> episode_from sm0 []"
  by (simp add: episode_from_def)

lemma nth_snoc_less: "i < length xs \<Longrightarrow> (xs @ [x]) ! i = xs ! i \<and> take i (xs @ [x]) = take i xs"
  by (simp add: nth_append)

lemma episode_fires:
  assumes "episode_from sm0 xs" and "suspicious_since (fsm_fixes sm0 xs) = Some s0" and "fle s0 s"
  shows "\<exists>i < length (xs @ [x]). fires (fsm_fixes sm0 (take i (xs @ [x]))) ((xs @ [x]) ! i)
     \<and> fle (fx_t ((xs @ [x]) ! i)) s"
proof -
  obtain i where "i < length xs" "fires (fsm_fixes sm0 (take i xs)) (xs ! i)" "fle (fx_t (xs ! i)) s0"
    using assms(1,2) unfolding episode_from_def by blast
  with assms(3) show ?thesis
    by (intro exI [of _ i]) (auto simp: nth_snoc_less dest: fle_trans)
qed

lemma episode_from_snoc:
  assumes "episode_from sm0 xs" and t: "is_finite (fx_t x)" "in_format B64 (fx_t x)"
    and inv: "fsm_inv (fsm_fixes sm0 xs)"
  shows "episode_from sm0 (xs @ [x])"
proof -
  let ?sm = "fsm_fixes sm0 xs" let ?n = "fsm_notes x ?sm"
  have res: "fsm_fixes sm0 (xs @ [x]) = snd (fsm_fix_step ?sm x)" by (simp add: fsm_fixes_append)
  have inv': "fsm_inv (snd (fsm_fix_step ?sm x))" using inv fsm_inv_fix_step by blast
  show ?thesis
    unfolding episode_from_def
  proof (intro allI impI)
    fix s assume s: "suspicious_since (fsm_fixes sm0 (xs @ [x])) = Some s"
    show "entry_ok s \<and> (\<exists>i < length (xs @ [x]). fires (fsm_fixes sm0 (take i (xs @ [x]))) ((xs @ [x]) ! i)
        \<and> fle (fx_t ((xs @ [x]) ! i)) s)"
    proof (cases rule: fsm_fix_step_cases [of ?sm x])
      case spoofed
      then show ?thesis using s res inv' by (auto simp: fsm_inv_def)
    next
      case (step sm3 sm' evs)
      from step(3) show ?thesis
      proof (cases rule: transition_cases)
        case stay
        then have "suspicious_since (dropout_stage (dropout_recovery ?n) (fx_t x) (drain_flags ?n)) = Some s"
          using s res step by simp
        moreover from this obtain s0 where s0: "suspicious_since ?sm = Some s0"
          using dropout_stage_frame(6) [of "dropout_recovery ?n" "fx_t x" "drain_flags ?n"] by auto
        moreover have "entry_ok s0" using assms(1) s0 by (simp add: episode_from_def)
        ultimately have "fle s0 s \<and> entry_ok s"
          using dropout_stage_since [of "drain_flags ?n" s0 "dropout_recovery ?n" "fx_t x"] by simp
        then show ?thesis using episode_fires [OF assms(1) s0] by blast
      next
        case suspect
        then have "s = fx_t x" "fires ?sm x" using s res step by simp_all
        then show ?thesis using t
          by (intro conjI exI [of _ "length xs"]) (auto simp: entry_ok_def is_finite_not_nan)
      qed (use s res step in simp_all)
    qed
  qed
qed

lemma episode_from_run:
  assumes "\<forall>x \<in> set xs. is_finite (fx_t x) \<and> in_format B64 (fx_t x)" and "fsm_inv sm0" and "suspicious_since sm0 = None"
  shows "episode_from sm0 xs"
  using assms(1)
proof (induction xs rule: rev_induct)
  case Nil
  then show ?case using assms(3) by (simp add: episode_from_start)
next
  case (snoc x xs)
  then show ?case using assms(2) fsm_inv_fixes by (intro episode_from_snoc) auto
qed

text \<open>A latch needs the dwell since the entry, as the dropout stage left it.\<close>

lemma latch_dwell:
  assumes "sm_state sm \<noteq> Spoofed" and "sm_state (snd (fsm_fix_step sm x)) = Spoofed"
    and "suspicious_since sm = Some s" and "entry_ok s"
  shows "fires sm x \<and> (\<exists>s'. fle s s' \<and> fge (fsub B64 (fx_t x) s') (suspicious_to_spoofed_dwell_s (sm_cfg sm)))"
proof (cases rule: fsm_fix_step_cases [of sm x])
  case (step sm3 sm' evs)
  let ?n = "fsm_notes x sm"
  obtain s' where "suspicious_since (dropout_stage (dropout_recovery ?n) (fx_t x) (drain_flags ?n)) = Some s'" "fle s s'"
    using dropout_stage_since [of "drain_flags ?n" s] assms(3,4) by auto
  then have "suspicious_since sm3 = Some s'" using step(7) by simp
  moreover have "sm_state sm' = Spoofed" using assms(2) step(2) by simp
  moreover note \<open>fle s s'\<close> step(1,3,4,5)
  ultimately show ?thesis
    by (auto simp: transition_def transition_normal_def transition_suspicious_def Let_def
        split: nav_state_kind.splits if_splits)
qed (use assms in simp)


section \<open>How a clear comes about\<close>

lemma transition_clean:
  assumes "transition t f (sample_clean r f sm) sm = (sm', evs)" and "sm_state sm = Suspicious"
    and "last_clean_since sm' = Some c \<or> sm_state sm' = Normal"
  shows "\<not> f \<and> (\<exists>c'. (last_clean_since sm = Some c' \<or> last_clean_since sm = None \<and> c' = t)
      \<and> (last_clean_since sm' = Some c \<longrightarrow> c' = c)
      \<and> (sm_state sm' = Normal \<longrightarrow> fge (fsub B64 t c') (normal_clear_dwell_s (sm_cfg sm))))"
  using assms
  by (auto simp: transition_def transition_suspicious_def sample_clean_def Let_def
      split: if_splits option.splits)

definition clean_streak :: "state_machine \<Rightarrow> fsm_fix list \<Rightarrow> nat \<Rightarrow> bool" where
  "clean_streak sm0 xs i \<longleftrightarrow> i < length xs \<and>
     (\<forall>k. i \<le> k \<and> k < length xs \<longrightarrow> \<not> fires (fsm_fixes sm0 (take k xs)) (xs ! k))"

definition clean_from :: "state_machine \<Rightarrow> fsm_fix list \<Rightarrow> bool" where
  "clean_from sm0 xs \<longleftrightarrow>
     (\<forall>c. last_clean_since (fsm_fixes sm0 xs) = Some c \<longrightarrow> (\<exists>i. clean_streak sm0 xs i \<and> fx_t (xs ! i) = c))"

lemma clean_streak_snoc:
  assumes "clean_streak sm0 xs i" and "\<not> fires (fsm_fixes sm0 xs) x"
  shows "clean_streak sm0 (xs @ [x]) i \<and> (xs @ [x]) ! i = xs ! i"
  using assms by (auto simp: clean_streak_def nth_append less_Suc_eq)

lemma clean_streak_last: "\<not> fires (fsm_fixes sm0 xs) x \<Longrightarrow> clean_streak sm0 (xs @ [x]) (length xs)"
  by (auto simp: clean_streak_def dest: antisym)

text \<open>A fix that leaves a clean-since time, or clears, extends the streak it belongs to.\<close>

lemma clean_extend:
  assumes "clean_from sm0 xs" and "sm_state (fsm_fixes sm0 xs) = Suspicious"
    and "last_clean_since (fsm_fixes sm0 (xs @ [x])) = Some c \<or> sm_state (fsm_fixes sm0 (xs @ [x])) = Normal"
  shows "\<exists>i. clean_streak sm0 (xs @ [x]) i
      \<and> (last_clean_since (fsm_fixes sm0 (xs @ [x])) = Some c \<longrightarrow> fx_t ((xs @ [x]) ! i) = c)
      \<and> (sm_state (fsm_fixes sm0 (xs @ [x])) = Normal \<longrightarrow>
          fge (fsub B64 (fx_t x) (fx_t ((xs @ [x]) ! i))) (normal_clear_dwell_s (sm_cfg (fsm_fixes sm0 xs))))"
proof -
  let ?sm = "fsm_fixes sm0 xs"
  have res: "fsm_fixes sm0 (xs @ [x]) = snd (fsm_fix_step ?sm x)" by (simp add: fsm_fixes_append)
  show ?thesis
  proof (cases rule: fsm_fix_step_cases [of ?sm x])
    case spoofed
    then show ?thesis using assms(2) by simp
  next
    case (step sm3 sm' evs)
    from transition_clean [OF step(3), of c] obtain c' where
      nf: "\<not> fires ?sm x" and c': "last_clean_since ?sm = Some c' \<or> last_clean_since ?sm = None \<and> c' = fx_t x"
      and kept: "last_clean_since sm' = Some c \<longrightarrow> c' = c"
      and long: "sm_state sm' = Normal \<longrightarrow> fge (fsub B64 (fx_t x) c') (normal_clear_dwell_s (sm_cfg ?sm))"
      using step assms(2,3) res by auto
    have "\<exists>i. clean_streak sm0 (xs @ [x]) i \<and> fx_t ((xs @ [x]) ! i) = c'"
      using c'
    proof
      assume "last_clean_since ?sm = Some c'"
      then obtain i where "clean_streak sm0 xs i" "fx_t (xs ! i) = c'"
        using assms(1) by (auto simp: clean_from_def)
      then show ?thesis using clean_streak_snoc [OF _ nf] by metis
    next
      assume "last_clean_since ?sm = None \<and> c' = fx_t x"
      then show ?thesis using clean_streak_last [OF nf] by (intro exI [of _ "length xs"]) simp
    qed
    then show ?thesis using kept long res step(2) by auto
  qed
qed

lemma clean_from_run:
  assumes "fsm_inv sm0" and "last_clean_since sm0 = None" shows "clean_from sm0 xs"
proof (induction xs rule: rev_induct)
  case Nil
  then show ?case using assms(2) by (simp add: clean_from_def)
next
  case (snoc x xs)
  have i: "fsm_inv (fsm_fixes sm0 xs)" "fsm_inv (fsm_fixes sm0 (xs @ [x]))" using assms(1) fsm_inv_fixes by blast+
  show ?case
    unfolding clean_from_def
  proof (intro allI impI)
    fix c assume c: "last_clean_since (fsm_fixes sm0 (xs @ [x])) = Some c"
    have "sm_state (fsm_fixes sm0 xs) = Suspicious"
    proof (cases rule: fsm_fix_step_cases [of "fsm_fixes sm0 xs" x])
      case spoofed
      then show ?thesis using c i(2) by (simp add: fsm_fixes_append fsm_inv_def)
    next
      case (step sm3 sm' evs)
      then have "sm_state sm' = Suspicious" using c i(2) by (simp add: fsm_fixes_append fsm_inv_def)
      with step(3) show ?thesis
        by (cases rule: transition_cases)
          (use step c i in \<open>auto simp: fsm_fixes_append fsm_inv_def transition_def transition_normal_def\<close>)
    qed
    then show "\<exists>i. clean_streak sm0 (xs @ [x]) i \<and> fx_t ((xs @ [x]) ! i) = c"
      using clean_extend [OF snoc.IH, of x c] c by blast
  qed
qed

section \<open>Escalation\<close>

definition stalled :: "state_machine \<Rightarrow> fsm_fix list \<Rightarrow> bool" where
  "stalled sm xs \<longleftrightarrow> budget_ok sm \<and> (dropout_recovery sm \<or> (\<exists>x \<in> set xs. fx_dropout x))"

lemma no_pause:
  assumes "\<not> budget_ok sm \<or> \<not> b"
  shows "suspicious_since (dropout_stage b t sm) = suspicious_since sm
    \<and> paused_cumulative_s (dropout_stage b t sm) = paused_cumulative_s sm"
  using assms by (auto simp: dropout_stage_def pause_or_warn_def count_dropout_def budget_ok_def)

text \<open>
  A fix is anomalous when its owner noted an external detector for it, or when the jump or the
  drift detector, run on the machine's own detector states, gives a reason. The predicate asks
  the detectors themselves and does not look at \<open>evaluate\<close>.
\<close>

definition anomalous :: "state_machine \<Rightarrow> fsm_fix \<Rightarrow> bool" where
  "anomalous sm x \<longleftrightarrow> fx_external x \<or> external_anomaly sm
     \<or> pos_detectors_enabled sm
       \<and> (fst (jump_evaluate (sm_jump sm) (fx_r x) (fx_hdop x) (fx_sats x)) \<noteq> None
          \<or> fst (drift_evaluate (sm_drift sm) (fx_r x) (fx_hdop x) (fx_sats x)) \<noteq> None)"

lemma fsm_notes_detectors [simp]:
  "sm_jump (fsm_notes x sm) = sm_jump sm" "sm_drift (fsm_notes x sm) = sm_drift sm"
  "pos_detectors_enabled (fsm_notes x sm) = pos_detectors_enabled sm"
  "external_anomaly (fsm_notes x sm) = (fx_external x \<or> external_anomaly sm)"
  by (simp_all add: fsm_notes_def note_dropout_recovery_def note_external_anomaly_def Let_def)

lemma drain_flags_detectors [simp]: "pos_detectors_enabled (drain_flags sm) = pos_detectors_enabled sm"
  by (simp add: drain_flags_def)

text \<open>While the machine is not Spoofed an anomalous fix fires, and only such a fix.\<close>

lemma fires_iff_anomalous:
  assumes "sm_state sm \<noteq> Spoofed" shows "fires sm x \<longleftrightarrow> anomalous sm x"
proof (cases rule: fsm_evaluate_cases [of "fsm_notes x sm" "fx_r x" "fx_t x" "fx_hdop x" "fx_sats x"])
  case (step j d sm3 sm' evs firing)
  have "\<forall>e \<in> set evs. (\<forall>j. e \<noteq> EvJump j) \<and> (\<forall>d. e \<noteq> EvDrift d)"
    using step(4) by (cases rule: transition_cases) auto
  then have "fires sm x \<longleftrightarrow> fx_external x \<or> external_anomaly sm \<or> j \<noteq> None \<or> d \<noteq> None"
    using step(5) detector_events_set [of j d] by (auto simp: fires_def fsm_fix_step_def)
  then show ?thesis using step(2) by (auto simp: anomalous_def run_detectors_def split: if_splits prod.splits)
qed (use assms in simp)

lemma anomalous_step:
  assumes "anomalous sm x" and "sm_state sm = Suspicious" and "suspicious_since sm = Some s"
    and "\<not> stalled sm (x # xs)"
  shows "if fge (fsub B64 (fx_t x) s) (suspicious_to_spoofed_dwell_s (sm_cfg sm))
    then sm_state (snd (fsm_fix_step sm x)) = Spoofed
    else sm_state (snd (fsm_fix_step sm x)) = Suspicious \<and> suspicious_since (snd (fsm_fix_step sm x)) = Some s
      \<and> \<not> stalled (snd (fsm_fix_step sm x)) xs"
proof (cases rule: fsm_fix_step_cases [of sm x])
  case (step sm3 sm' evs)
  let ?n = "fsm_notes x sm"
  have f: "fires sm x" using assms(1,2) by (simp add: fires_iff_anomalous)
  have nb: "\<not> budget_ok (drain_flags ?n) \<or> \<not> dropout_recovery ?n"
    using assms(4) by (auto simp: stalled_def budget_ok_def fsm_notes_def note_dropout_recovery_def
        note_external_anomaly_def Let_def)
  from no_pause [OF nb, of "fx_t x"] step(7,8)
  have s3: "suspicious_since sm3 = suspicious_since sm" "paused_cumulative_s sm3 = paused_cumulative_s sm" by auto
  have "sm_state sm3 = Suspicious" using step(4) assms(2) by simp
  then have sm': "sm' = (if fge (fsub B64 (fx_t x) s) (suspicious_to_spoofed_dwell_s (sm_cfg sm))
      then sm3\<lparr>last_clean_since := None, sm_state := Spoofed, suspicious_since := None\<rparr>
      else sm3\<lparr>last_clean_since := None\<rparr>)"
    using step(3) f s3(1) assms(3) step(5)
    by (auto simp: transition_def transition_suspicious_def sample_clean_def Let_def)
  have "\<not> dropout_recovery sm'" using step(9) by (simp add: sm')
  then show ?thesis using sm' step assms s3 by (auto simp: stalled_def budget_ok_def)
qed (use assms in simp)

lemmas external_step = anomalous_step [OF anomalous_def [THEN iffD2, OF disjI1]]

lemma pos_enabled_fixes: "pos_detectors_enabled (fsm_fixes sm xs) = pos_detectors_enabled sm"
proof (induction xs arbitrary: sm)
  case (Cons x xs)
  have "pos_detectors_enabled (snd (fsm_fix_step sm x)) = pos_detectors_enabled sm"
  proof (cases rule: fsm_evaluate_cases [of "fsm_notes x sm" "fx_r x" "fx_t x" "fx_hdop x" "fx_sats x"])
    case (step j d sm3 sm' evs firing)
    have "pos_detectors_enabled sm' = pos_detectors_enabled sm3"
      using step(4) by (auto simp: transition_def transition_normal_def transition_suspicious_def Let_def
          split: nav_state_kind.splits if_splits)
    moreover have "pos_detectors_enabled sm3 = pos_detectors_enabled sm"
      using step(2) by (auto simp: run_detectors_def split: if_splits prod.splits)
    ultimately show ?thesis using step(5) by (simp add: fsm_fix_step_def)
  qed (simp add: fsm_fix_step_def)
  with Cons.IH show ?case by simp
qed simp

text \<open>A position residual beyond the hard bound is anomalous without any external note.\<close>

lemma hard_jump_anomalous:
  assumes "pos_detectors_enabled sm" and "jd_cfg (sm_jump sm) = sm_cfg sm"
    and "fx_hdop x = None" and "fgt (to_f32 (mag_pos (fx_r x))) (max_jump_m (sm_cfg sm))"
  shows "anomalous sm x"
  using assms by (simp add: anomalous_def jump_evaluate_def jump_scale_def jump_hard_def hdop_bad_def Let_def)

section \<open>Properties\<close>

definition ext_fix :: "rat \<Rightarrow> fsm_fix" where
  "ext_fix t = \<lparr>fx_dropout = False, fx_external = True, fx_r = residual_default, fx_t = FNum t,
     fx_hdop = None, fx_sats = None\<rparr>"

definition calm_fix :: "rat \<Rightarrow> fsm_fix" where
  "calm_fix t = \<lparr>fx_dropout = False, fx_external = False, fx_r = residual_default, fx_t = FNum t,
     fx_hdop = None, fx_sats = None\<rparr>"

lemma ext_fix_sel [simp]:
  "fx_external (ext_fix t)" "fx_t (ext_fix t) = FNum t" "\<not> fx_dropout (ext_fix t)"
  "\<not> fx_external (calm_fix t)" "fx_t (calm_fix t) = FNum t" "\<not> fx_dropout (calm_fix t)"
  "fx_r (calm_fix t) = residual_default"
  by (simp_all add: ext_fix_def calm_fix_def)

lemma fsm_new_sel [simp]:
  "sm_state (fsm_new cfg) = Normal" "suspicious_since (fsm_new cfg) = None" "last_clean_since (fsm_new cfg) = None"
  "sm_cfg (fsm_new cfg) = cfg" "\<not> dropout_recovery (fsm_new cfg)"
  by (simp_all add: fsm_new_def)

lemma external_enters:
  assumes "sm_state sm = Normal" and "fx_external x"
  shows "sm_state (snd (fsm_fix_step sm x)) = Suspicious \<and> suspicious_since (snd (fsm_fix_step sm x)) = Some (fx_t x)
    \<and> \<not> dropout_recovery (snd (fsm_fix_step sm x))"
proof (cases rule: fsm_fix_step_cases [of sm x])
  case (step sm3 sm' evs)
  have "fires sm x" using assms(2) by (simp add: fires_def fsm_notes_def note_external_anomaly_def Let_def)
  then have "sm' = sm3\<lparr>suspicious_since := Some (fx_t x), last_clean_since := None, paused_cumulative_s := FNum 0,
               pause_budget_warned := False, sm_state := Suspicious\<rparr>"
    using step(3,4) assms(1) by (simp add: transition_def transition_normal_def)
  then show ?thesis using step(2,9) by simp
qed (use assms in simp)

lemma two_external_fixes:
  "sm_state (fsm_fixes (fsm_new detect_config_default) [ext_fix 1, ext_fix 12]) = Spoofed"
proof -
  let ?sm = "snd (fsm_fix_step (fsm_new detect_config_default) (ext_fix 1))"
  have "sm_cfg ?sm = detect_config_default" using fsm_inv_fix_step [OF fsm_inv_new] by simp
  then show ?thesis
    using external_enters [of "fsm_new detect_config_default" "ext_fix 1"]
      external_step [of "ext_fix 12" ?sm "FNum 1" "[]"]
    by (simp add: stalled_def fsub_FNum)
qed

lemma spoofed_fixes: "sm_state sm = Spoofed \<Longrightarrow> sm_state (fsm_fixes sm xs) = Spoofed"
  by (induction xs arbitrary: sm) (simp_all add: fsm_fix_step_def fsm_evaluate_def Let_def)

text \<open>
  In every state the machine can be driven to, by any sequence of its public
  operations: a Suspicious entry time is recorded exactly while the machine is Suspicious,
  a clean-streak time only then, both detectors run with the machine's own configuration,
  the drift accumulators are well formed, and the dropout streak counter is zero exactly
  when no dropout time is recorded. The configuration never changes.
\<close>

theorem fsm_reachable_invariant:
  assumes "fsm_run (fsm_new cfg) ops sm"
  shows "fsm_inv sm \<and> sm_cfg sm = cfg"
  using fsm_inv_run [OF assms fsm_inv_new] by simp

theorem fsm_reachable_invariant_witness:
  "fsm_inv (force_back_to_suspicious (FNum 3) None (fsm_new detect_config_default))
    \<and> sm_cfg (force_back_to_suspicious (FNum 3) None (fsm_new detect_config_default)) = detect_config_default"
  by (rule fsm_reachable_invariant [of detect_config_default "[] @ [OpForceBack (FNum 3) None]"])
    (rule fsm_run.more [OF fsm_run.start fsm_step.force])

text \<open>
  C2. Spoofed is latched: whatever operations follow, in whatever order, the machine stays
  Spoofed until the operator's reset is among them, and evaluating a fix meanwhile reports
  no event and only drains the per-fix flags.
\<close>

theorem spoofed_latched:
  assumes "fsm_run sm ops sm'" and "sm_state sm = Spoofed" and "OpManualReset \<notin> set ops"
  shows "sm_state sm' = Spoofed \<and> fsm_evaluate r t hp sn sm' = ([], drain_flags sm')"
proof -
  have "sm_state sm' = Spoofed"
    using assms
  proof induction
    case (more sm ops sm' op evs sm'')
    then have "sm_state sm' = Spoofed" by simp
    with more.hyps(2) more.prems show ?case
      by cases (auto simp: set_pos_detectors_enabled_def note_dropout_recovery_def
          note_external_anomaly_def force_back_to_suspicious_def commit_susp_to_normal_def
          on_clean_anchor_def fsm_evaluate_def Let_def)
  qed simp
  then show ?thesis by (simp add: fsm_evaluate_def Let_def)
qed

theorem spoofed_latched_witness:
  "sm_state (note_external_anomaly ((fsm_new detect_config_default)\<lparr>sm_state := Spoofed\<rparr>)) = Spoofed
    \<and> fsm_evaluate residual_default (FNum 1) None None
        (note_external_anomaly ((fsm_new detect_config_default)\<lparr>sm_state := Spoofed\<rparr>))
      = ([], drain_flags (note_external_anomaly ((fsm_new detect_config_default)\<lparr>sm_state := Spoofed\<rparr>)))"
  by (rule spoofed_latched [of "(fsm_new detect_config_default)\<lparr>sm_state := Spoofed\<rparr>" "[] @ [OpExternalAnomaly]"])
    (rule fsm_run.more [OF fsm_run.start fsm_step.external], simp_all)

definition is_transition :: "fsm_event \<Rightarrow> bool" where
  "is_transition e = (case e of EvTransition _ _ \<Rightarrow> True | _ \<Rightarrow> False)"

text \<open>
  The transition events report the state change exactly: evaluating a fix emits at
  most one of them, as its last event, it names the states before and after, and the
  machine never goes from Normal to Spoofed in one fix nor leaves Spoofed.
\<close>

theorem transition_events_exact:
  "filter is_transition (fst (fsm_evaluate r t hp sn sm))
     = (if sm_state (snd (fsm_evaluate r t hp sn sm)) = sm_state sm then []
        else [EvTransition (sm_state sm) (sm_state (snd (fsm_evaluate r t hp sn sm)))])
   \<and> (sm_state sm, sm_state (snd (fsm_evaluate r t hp sn sm)))
       \<in> {(Normal, Normal), (Normal, Suspicious), (Suspicious, Suspicious), (Suspicious, Normal),
          (Suspicious, Spoofed), (Spoofed, Spoofed)}"
proof (cases rule: fsm_evaluate_cases [of sm r t hp sn])
  case spoofed
  then show ?thesis by simp
next
  case (step j d sm3 sm' evs firing)
  have "filter is_transition (detector_events j d) = []"
    by (auto simp: detector_events_def is_transition_def split: option.splits)
  with step(4) show ?thesis
    by (cases rule: transition_cases)
      (use step in \<open>cases "sm_state sm"; auto simp: is_transition_def\<close>)+
qed

text \<open>
  C3. No Spoofed without sustained evidence: along every sequence of fixes from a fresh
  machine, if the machine ends Spoofed, then two of the fixes, one after the other, were
  anomalous, and the time between them is at least the configured dwell. Pausing the dwell
  timer over GPS gaps can only lengthen this time.
\<close>

theorem spoofed_needs_sustained_anomaly:
  assumes "sm_state (fsm_fixes (fsm_new cfg) xs) = Spoofed"
    and times: "\<forall>x \<in> set xs. is_finite (fx_t x) \<and> in_format B64 (fx_t x)"
  shows "\<exists>i j. i < j \<and> j < length xs
    \<and> fires (fsm_fixes (fsm_new cfg) (take i xs)) (xs ! i)
    \<and> fires (fsm_fixes (fsm_new cfg) (take j xs)) (xs ! j)
    \<and> fge (fsub B64 (fx_t (xs ! j)) (fx_t (xs ! i))) (suspicious_to_spoofed_dwell_s cfg)"
  using assms
proof (induction xs rule: rev_induct)
  case Nil
  then show ?case by simp
next
  case (snoc x xs)
  let ?init = "fsm_new cfg"
  let ?sm = "fsm_fixes ?init xs"
  show ?case
  proof (cases "sm_state ?sm = Spoofed")
    case True
    with snoc obtain i j where "i < j" "j < length xs" "fires (fsm_fixes ?init (take i xs)) (xs ! i)"
        "fires (fsm_fixes ?init (take j xs)) (xs ! j)"
        "fge (fsub B64 (fx_t (xs ! j)) (fx_t (xs ! i))) (suspicious_to_spoofed_dwell_s cfg)" by auto
    then show ?thesis by (intro exI [of _ i] exI [of _ j]) (simp add: nth_append)
  next
    case False
    have latched: "sm_state (snd (fsm_fix_step ?sm x)) = Spoofed" using snoc.prems(1) by (simp add: fsm_fixes_append)
    have inv: "fsm_inv ?sm" "sm_cfg ?sm = cfg" using fsm_inv_fixes [OF fsm_inv_new] by simp_all
    have susp: "sm_state ?sm = Suspicious"
    proof (cases rule: fsm_fix_step_cases [of ?sm x])
      case (step sm3 sm' evs)
      from step(3) show ?thesis by (cases rule: transition_cases) (use step latched in auto)
    qed (use False in simp)
    then obtain s where s: "suspicious_since ?sm = Some s" using inv by (auto simp: fsm_inv_def)
    have "episode_from ?init xs" using snoc.prems(2) by (intro episode_from_run fsm_inv_new) simp_all
    then obtain i where i: "i < length xs" "fires (fsm_fixes ?init (take i xs)) (xs ! i)" "fle (fx_t (xs ! i)) s"
      and ok: "entry_ok s" using s by (auto simp: episode_from_def)
    from latch_dwell [OF False latched s ok] inv(2) obtain s' where "fires ?sm x" "fle s s'"
      and d: "fge (fsub B64 (fx_t x) s') (suspicious_to_spoofed_dwell_s cfg)" by auto
    have "xs ! i \<in> set xs" using i(1) by simp
    then have "fle (fsub B64 (fx_t x) s') (fsub B64 (fx_t x) (fx_t (xs ! i)))"
      using snoc.prems(2) \<open>fle s s'\<close> i(3) by (intro fsub_antimono) (auto dest: fle_trans)
    with d have "fge (fsub B64 (fx_t x) (fx_t (xs ! i))) (suspicious_to_spoofed_dwell_s cfg)" by (rule fle_trans)
    with i \<open>fires ?sm x\<close> show ?thesis
      by (intro exI [of _ i] exI [of _ "length xs"]) (simp add: nth_append)
  qed
qed

lemma in_format_int: "\<bar>n\<bar> < 2 ^ 24 \<Longrightarrow> in_format B64 (FNum (of_int n))"
  by (simp add: in_format_def bound_ok_int)

theorem spoofed_needs_sustained_anomaly_witness:
  "\<exists>i j. i < j \<and> j < length [ext_fix 1, ext_fix 12]
    \<and> fires (fsm_fixes (fsm_new detect_config_default) (take i [ext_fix 1, ext_fix 12])) ([ext_fix 1, ext_fix 12] ! i)
    \<and> fires (fsm_fixes (fsm_new detect_config_default) (take j [ext_fix 1, ext_fix 12])) ([ext_fix 1, ext_fix 12] ! j)
    \<and> fge (fsub B64 (fx_t ([ext_fix 1, ext_fix 12] ! j)) (fx_t ([ext_fix 1, ext_fix 12] ! i)))
        (suspicious_to_spoofed_dwell_s detect_config_default)"
  using in_format_int [of 1] in_format_int [of 12]
  by (intro spoofed_needs_sustained_anomaly two_external_fixes) simp

text \<open>
  C8. Escalation is live: a Suspicious machine that cannot pause its dwell timer any more
  (the episode's pause budget is spent, or no fix is a dropout recovery) and for which every
  fix it is given while Suspicious is anomalous (the jump detector or the drift detector gives a
  reason on the machine's own detector states, or an external detector was noted), in whatever
  cadence, is Spoofed after the first fix whose time is a full dwell past the entry time. A
  spent budget makes this hold for every pattern of dropouts, so throttling the GPS cannot hold
  the machine in Suspicious for ever.
\<close>

theorem escalation_live:
  assumes "sm_state sm = Suspicious" and "suspicious_since sm = Some s"
    and "\<not> stalled sm xs"
    and "\<forall>k < length xs. sm_state (fsm_fixes sm (take k xs)) = Suspicious \<longrightarrow> anomalous (fsm_fixes sm (take k xs)) (xs ! k)"
    and "\<exists>x \<in> set xs. fge (fsub B64 (fx_t x) s) (suspicious_to_spoofed_dwell_s (sm_cfg sm))"
    and "fsm_inv sm"
  shows "sm_state (fsm_fixes sm xs) = Spoofed"
  using assms
proof (induction xs arbitrary: sm)
  case Nil
  then show ?case by simp
next
  case (Cons x xs)
  let ?sm = "snd (fsm_fix_step sm x)"
  have inv: "fsm_inv ?sm" "sm_cfg ?sm = sm_cfg sm" using fsm_inv_fix_step [OF Cons.prems(6)] by auto
  have "anomalous sm x" using Cons.prems(1,4) by force
  note st = anomalous_step [OF this Cons.prems(1-3)]
  have rest: "\<forall>k < length xs. sm_state (fsm_fixes ?sm (take k xs)) = Suspicious \<longrightarrow> anomalous (fsm_fixes ?sm (take k xs)) (xs ! k)"
    using Cons.prems(4) by fastforce
  show ?case
  proof (cases "fge (fsub B64 (fx_t x) s) (suspicious_to_spoofed_dwell_s (sm_cfg sm))")
    case True
    with st have "sm_state ?sm = Spoofed" by simp
    then show ?thesis by (simp add: spoofed_fixes)
  next
    case False
    with st have "sm_state ?sm = Suspicious" "suspicious_since ?sm = Some s" "\<not> stalled ?sm xs" by simp_all
    then show ?thesis using Cons.IH [of ?sm] Cons.prems(5) rest False inv by auto
  qed
qed

text \<open>Two fixes a hundred metres off, with no external note: the jump detector alone escalates.\<close>

definition jump_fix :: "rat \<Rightarrow> fsm_fix" where
  "jump_fix t = (calm_fix t)\<lparr>fx_r := residual_default\<lparr>mag_pos := FNum 100\<rparr>\<rparr>"

definition spent_machine :: state_machine where
  "spent_machine = (fsm_new detect_config_default)\<lparr>sm_state := Suspicious, suspicious_since := Some (FNum 1),
     paused_cumulative_s := FNum 20\<rparr>"

lemma spent_machine_jumps:
  "fsm_inv spent_machine"
  "k < 2 \<Longrightarrow> anomalous (fsm_fixes spent_machine (take k [jump_fix 4, jump_fix 12])) ([jump_fix 4, jump_fix 12] ! k)"
proof -
  show inv: "fsm_inv spent_machine"
    using fsm_inv_new [of detect_config_default] by (simp add: spent_machine_def fsm_inv_def)
  let ?sm = "fsm_fixes spent_machine (take k [jump_fix 4, jump_fix 12])"
  have "fsm_inv ?sm" "sm_cfg ?sm = detect_config_default"
    using fsm_inv_fixes [OF inv] by (simp_all add: spent_machine_def)
  moreover have "pos_detectors_enabled ?sm" by (simp add: pos_enabled_fixes spent_machine_def fsm_new_def)
  moreover have "to_f32 (FNum 100) = FNum 100" using bound_ok_int [of B32 100]
    by (simp add: to_f32_def fround_exact bound_ok_def)
  moreover assume "k < 2"
  ultimately show "anomalous ?sm ([jump_fix 4, jump_fix 12] ! k)"
    by (intro hard_jump_anomalous) (auto simp: fsm_inv_def jump_fix_def calm_fix_def detect_config_default_def less_2_cases_iff)
qed

theorem escalation_live_witness:
  "sm_state (fsm_fixes spent_machine [jump_fix 4, jump_fix 12]) = Spoofed
   \<and> \<not> fx_external (jump_fix 4) \<and> \<not> fx_external (jump_fix 12)"
proof (rule conjI [OF escalation_live [where s = "FNum 1"]])
  show "\<forall>k < length [jump_fix 4, jump_fix 12]. sm_state (fsm_fixes spent_machine (take k [jump_fix 4, jump_fix 12])) = Suspicious
      \<longrightarrow> anomalous (fsm_fixes spent_machine (take k [jump_fix 4, jump_fix 12])) ([jump_fix 4, jump_fix 12] ! k)"
    using spent_machine_jumps(2) by simp
qed (use spent_machine_jumps(1) in \<open>simp_all add: spent_machine_def jump_fix_def stalled_def budget_ok_def fsub_FNum\<close>)

text \<open>
  C33. Leaving Suspicious needs a continuous clean streak: when a fix returns the machine
  to Normal, then no fix of a streak that ends with it was anomalous, and the streak
  spans at least the configured clearing dwell.
\<close>

theorem clearing_needs_clean_dwell:
  assumes "fsm_inv sm" and "sm_state sm = Normal"
    and "sm_state (fsm_fixes sm xs) = Suspicious" and "sm_state (fsm_fixes sm (xs @ [x])) = Normal"
  shows "\<exists>i \<le> length xs.
     (\<forall>k. i \<le> k \<and> k \<le> length xs \<longrightarrow> \<not> fires (fsm_fixes sm (take k (xs @ [x]))) ((xs @ [x]) ! k))
     \<and> fge (fsub B64 (fx_t x) (fx_t ((xs @ [x]) ! i))) (normal_clear_dwell_s (sm_cfg sm))"
proof -
  have "last_clean_since sm = None" using assms(1,2) by (auto simp: fsm_inv_def)
  then have "clean_from sm xs" using assms(1) by (intro clean_from_run)
  from clean_extend [OF this assms(3), of x] assms(4) obtain i where
    "clean_streak sm (xs @ [x]) i"
    "fge (fsub B64 (fx_t x) (fx_t ((xs @ [x]) ! i))) (normal_clear_dwell_s (sm_cfg (fsm_fixes sm xs)))" by blast
  then show ?thesis using fsm_inv_fixes [OF assms(1), of xs]
    by (intro exI [of _ i]) (auto simp: clean_streak_def less_Suc_eq_le)
qed

lemma quarter [simp]: "lit B32 (1 / 4) = FNum (1 / 4)" "fround B32 False (1 / 4) = FNum (1 / 4)"
proof -
  have "bound_ok B32 (of_int 1 / 2 ^ 2)" by (intro bound_ok_dyadic) simp_all
  then show "fround B32 False (1 / 4) = FNum (1 / 4)" by (intro fround_exact) (simp_all add: bound_ok_def)
  then show "lit B32 (1 / 4) = FNum (1 / 4)" by (simp add: lit_def)
qed

lemma quarter_scaled:
  assumes "1 \<le> r" "r < 100" shows "flt (FNum 0) (fmul B32 (FNum r) (FNum (1 / 4)))"
proof -
  have b: "bound_ok B32 (of_int 100)" "bound_ok B32 (of_int 1 / 2 ^ 2)"
    by (intro bound_ok_int bound_ok_dyadic; simp)+
  have "fin_in (of_int 1 / 2 ^ 2) (of_int 100) (fround B32 s (r * (1 / 4)))" for s
    by (rule fround_in [OF _ b(2) b(1)]) (use assms in simp_all)
  then have "fin_in (1 / 4) 100 (fmul B32 (FNum r) (FNum (1 / 4)))" using assms by (simp add: fmul_FNum)
  then show ?thesis by (cases "fmul B32 (FNum r) (FNum (1 / 4))") (auto simp: fin_in_def)
qed

lemma calm_is_clean:
  assumes "sm_cfg sm = detect_config_default" and "dd_state (sm_drift sm) = cusum_default"
  shows "sample_clean residual_default False sm"
proof -
  have "flt (FNum 0) (fmax (FNum 1) y)" for y
    by (cases y) (auto simp: fmax_def)
  then show ?thesis
    using assms quarter_scaled [of 15] quarter_scaled [of 25]
    by (simp add: sample_clean_def pos_thresh_def cusum_peak_def drift_state_def cusum_default_def
        CLEAR_QUIESCENT_FRACTION_def to_f32_def Let_def fmax_def [of "FNum 0" "FNum 0"])
qed

definition quiet_machine :: state_machine where
  "quiet_machine = set_pos_detectors_enabled False (fsm_new detect_config_default)"

lemmas fsm_eval_defs = fsm_fix_step_def fsm_evaluate_def fsm_notes_def note_external_anomaly_def
  note_dropout_recovery_def drain_flags_def dropout_stage_def run_detectors_def transition_def
  transition_normal_def transition_suspicious_def set_pos_detectors_enabled_def fsm_new_def drift_new_def
  drift_reset_def Let_def

lemma quiet_clears:
  "sm_state (fsm_fixes quiet_machine [ext_fix 1, calm_fix 2]) = Suspicious"
  "sm_state (fsm_fixes quiet_machine [ext_fix 1, calm_fix 2, calm_fix 8]) = Normal"
proof -
  define a where "a = snd (fsm_fix_step quiet_machine (ext_fix 1))"
  define b where "b = snd (fsm_fix_step a (calm_fix 2))"
  define p where "p = (\<lambda>sm :: state_machine. sm_cfg sm = detect_config_default \<and> dd_state (sm_drift sm) = cusum_default
      \<and> \<not> pos_detectors_enabled sm \<and> \<not> dropout_recovery sm \<and> \<not> external_anomaly sm \<and> sm_state sm = Suspicious)"
  have a: "p a" "last_clean_since a = None" by (simp_all add: a_def p_def quiet_machine_def fsm_eval_defs)
  have b: "p b" "last_clean_since b = Some (FNum 2)"
    using a calm_is_clean by (simp_all add: b_def p_def fsm_eval_defs fsub_FNum)
  show "sm_state (fsm_fixes quiet_machine [ext_fix 1, calm_fix 2]) = Suspicious"
    using b(1) by (simp add: a_def b_def p_def)
  have "sm_state (snd (fsm_fix_step b (calm_fix 8))) = Normal"
    using b calm_is_clean by (simp add: p_def fsm_eval_defs fsub_FNum)
  then show "sm_state (fsm_fixes quiet_machine [ext_fix 1, calm_fix 2, calm_fix 8]) = Normal"
    by (simp add: a_def b_def)
qed

theorem clearing_needs_clean_dwell_witness:
  "\<exists>i \<le> length [ext_fix 1, calm_fix 2].
     (\<forall>k. i \<le> k \<and> k \<le> length [ext_fix 1, calm_fix 2] \<longrightarrow>
        \<not> fires (fsm_fixes quiet_machine (take k ([ext_fix 1, calm_fix 2] @ [calm_fix 8])))
            (([ext_fix 1, calm_fix 2] @ [calm_fix 8]) ! k))
     \<and> fge (fsub B64 (fx_t (calm_fix 8)) (fx_t (([ext_fix 1, calm_fix 2] @ [calm_fix 8]) ! i)))
         (normal_clear_dwell_s (sm_cfg quiet_machine))"
proof (rule clearing_needs_clean_dwell)
  show "fsm_inv quiet_machine"
    using fsm_inv_step [OF fsm_step.pos fsm_inv_new] unfolding quiet_machine_def by blast
  show "sm_state quiet_machine = Normal" by (simp add: quiet_machine_def set_pos_detectors_enabled_def fsm_new_def)
qed (use quiet_clears in simp_all)

text \<open>
  The pause is metered: a fix that moves the Suspicious entry time is a dropout
  recovery inside the streak cap of five and inside the episode's budget, and it moves the
  entry time by exactly the gap it adds to the budget account. So within an episode the
  timer is never moved once the account has reached the budget.
\<close>

theorem dwell_pause_metered:
  assumes "fsm_evaluate r t hp sn sm = (evs, sm')"
    and "suspicious_since sm = Some s" and "suspicious_since sm' = Some s'" and "s' \<noteq> s" and "fsm_inv sm"
  shows "dropout_recovery sm \<and> unat (consecutive_dropout sm) < 5
    \<and> flt (paused_cumulative_s sm) (max_dwell_pause_s (sm_cfg sm))
    \<and> (\<exists>gap. gap = fmax (fsub B64 t (case last_dropout_t sm of Some p \<Rightarrow> p | None \<Rightarrow> s)) (FNum 0)
        \<and> s' = fadd B64 s gap \<and> paused_cumulative_s sm' = fadd B64 (paused_cumulative_s sm) gap)"
proof (cases rule: fsm_evaluate_cases [of sm r t hp sn])
  case spoofed
  then show ?thesis using assms by simp
next
  case (step j d sm3 sm4 es firing)
  let ?b = "dropout_recovery sm" let ?n = "drain_flags sm"
  have susp: "sm_state sm = Suspicious" using assms(2,5) by (auto simp: fsm_inv_def)
  have sm4: "sm' = sm4" using assms(1) step(5) by simp
  have s3: "suspicious_since sm3 = Some s' \<and> paused_cumulative_s sm' = paused_cumulative_s sm3"
    using step(4,6) susp assms(3) sm4
    by (auto simp: transition_def transition_suspicious_def Let_def split: if_splits)
  with run_detectors_frame [OF step(2)]
  have stage: "suspicious_since (dropout_stage ?b t ?n) = Some s'"
    "paused_cumulative_s sm' = paused_cumulative_s (dropout_stage ?b t ?n)" by auto
  have moved: "?b" "budget_ok ?n" "saturating_add (consecutive_dropout sm) 1 \<le> MAX_CONSECUTIVE_DROPOUT"
    using stage(1) assms(2,4)
    by (auto simp: dropout_stage_def pause_or_warn_def count_dropout_def budget_ok_def split: if_splits)
  have "unat (saturating_add (consecutive_dropout sm) 1) \<le> 5"
    using moved(3) by (simp add: word_le_nat_alt MAX_CONSECUTIVE_DROPOUT_def)
  then have "unat (consecutive_dropout sm) < 5" by (simp add: unat_saturating_add)
  moreover have "absorb_gap t (count_dropout ?n) = pause_or_warn t (count_dropout ?n)"
    using moved susp by (simp add: pause_or_warn_def count_dropout_def budget_ok_def)
  then have "suspicious_since (absorb_gap t (count_dropout ?n)) = Some s'"
    "paused_cumulative_s (absorb_gap t (count_dropout ?n)) = paused_cumulative_s sm'"
    using stage moved(1) by (simp_all add: dropout_stage_def)
  ultimately show ?thesis
    using moved(1,2) assms(2) by (auto simp: absorb_gap_def count_dropout_def budget_ok_def Let_def)
qed

definition paused_machine :: state_machine where
  "paused_machine = quiet_machine\<lparr>sm_state := Suspicious, suspicious_since := Some (FNum 1),
     dropout_recovery := True, external_anomaly := True\<rparr>"

theorem dwell_pause_metered_witness:
  "dropout_recovery paused_machine \<and> unat (consecutive_dropout paused_machine) < 5
    \<and> flt (paused_cumulative_s paused_machine) (max_dwell_pause_s (sm_cfg paused_machine))
    \<and> (\<exists>gap. gap = fmax (fsub B64 (FNum 5) (case last_dropout_t paused_machine of Some p \<Rightarrow> p | None \<Rightarrow> FNum 1)) (FNum 0)
        \<and> FNum 5 = fadd B64 (FNum 1) gap
        \<and> paused_cumulative_s (snd (fsm_evaluate residual_default (FNum 5) None None paused_machine))
            = fadd B64 (paused_cumulative_s paused_machine) gap)"
proof (rule dwell_pause_metered)
  show "fsm_evaluate residual_default (FNum 5) None None paused_machine
      = (fst (fsm_evaluate residual_default (FNum 5) None None paused_machine),
         snd (fsm_evaluate residual_default (FNum 5) None None paused_machine))" by simp
  show "fsm_inv paused_machine"
    using fsm_inv_new [of detect_config_default] drift_inv_reset
    by (auto simp: paused_machine_def quiet_machine_def fsm_inv_def set_pos_detectors_enabled_def fsm_new_def)
  show "suspicious_since (snd (fsm_evaluate residual_default (FNum 5) None None paused_machine)) = Some (FNum 5)"
    by (simp add: paused_machine_def quiet_machine_def fsm_eval_defs pause_or_warn_def count_dropout_def
        budget_ok_def absorb_gap_def saturating_add_def MAX_CONSECUTIVE_DROPOUT_def sample_clean_def
        fsub_FNum fadd_FNum)
qed (simp_all add: paused_machine_def)

text \<open>
  A vetoed clear does not end the episode: when a fix clears the machine and the owner
  forces it back with the entry time it had read before the fix, the machine is Suspicious
  with that entry time, the detectors keep the evidence they had after the fix, and the
  episode's pause account is not refilled.
\<close>

theorem vetoed_clear_keeps_episode:
  assumes "fsm_evaluate r t hp sn sm = (evs, sm')" and "sm_state sm = Suspicious" and "sm_state sm' = Normal"
    and "suspicious_since sm = Some s"
  shows "sm_state (force_back_to_suspicious t (suspicious_since sm) sm') = Suspicious
    \<and> suspicious_since (force_back_to_suspicious t (suspicious_since sm) sm') = suspicious_since sm
    \<and> last_clean_since (force_back_to_suspicious t (suspicious_since sm) sm') = None
    \<and> sm_drift (force_back_to_suspicious t (suspicious_since sm) sm')
        = (if pos_detectors_enabled sm then snd (drift_evaluate (sm_drift sm) r hp sn) else sm_drift sm)
    \<and> paused_cumulative_s (force_back_to_suspicious t (suspicious_since sm) sm')
        \<in> {paused_cumulative_s sm, fadd B64 (paused_cumulative_s sm)
              (fmax (fsub B64 t (case last_dropout_t sm of Some p \<Rightarrow> p | None \<Rightarrow> s)) (FNum 0))}"
proof (cases rule: fsm_evaluate_cases [of sm r t hp sn])
  case spoofed
  then show ?thesis using assms by simp
next
  case (step j d sm3 sm4 es firing)
  have sm4: "sm' = sm4" using assms(1) step(5) by simp
  have "sm_drift sm' = sm_drift sm3 \<and> paused_cumulative_s sm' = paused_cumulative_s sm3"
    using step(4,6) assms(2) sm4
    by (auto simp: transition_def transition_suspicious_def Let_def split: if_splits)
  moreover have "sm_drift sm3 = (if pos_detectors_enabled sm then snd (drift_evaluate (sm_drift sm) r hp sn) else sm_drift sm)"
    using step(2) by (auto simp: run_detectors_def drain_flags_def split: if_splits prod.splits)
  moreover have "paused_cumulative_s sm3 = paused_cumulative_s (dropout_stage (dropout_recovery sm) t (drain_flags sm))"
    using run_detectors_frame [OF step(2)] by simp
  moreover have "paused_cumulative_s (dropout_stage b t (drain_flags sm)) \<in> {paused_cumulative_s sm,
      fadd B64 (paused_cumulative_s sm) (fmax (fsub B64 t (case last_dropout_t sm of Some p \<Rightarrow> p | None \<Rightarrow> s)) (FNum 0))}" for b
    using assms(4) by (auto simp: dropout_stage_def pause_or_warn_def absorb_gap_def count_dropout_def Let_def)
  ultimately show ?thesis using assms(2,3,4) by (simp add: force_back_to_suspicious_def)
qed

definition clearing_machine :: state_machine where
  "clearing_machine = quiet_machine\<lparr>sm_state := Suspicious, suspicious_since := Some (FNum 1),
     last_clean_since := Some (FNum 2)\<rparr>"

theorem vetoed_clear_keeps_episode_witness:
  "sm_state (force_back_to_suspicious (FNum 8) (suspicious_since clearing_machine)
      (snd (fsm_evaluate residual_default (FNum 8) None None clearing_machine))) = Suspicious"
proof -
  have "sm_state (snd (fsm_evaluate residual_default (FNum 8) None None clearing_machine)) = Normal"
    using calm_is_clean
    by (simp add: clearing_machine_def quiet_machine_def fsm_eval_defs fsub_FNum)
  then show ?thesis
    using vetoed_clear_keeps_episode [of residual_default "FNum 8" None None clearing_machine
      "fst (fsm_evaluate residual_default (FNum 8) None None clearing_machine)"
      "snd (fsm_evaluate residual_default (FNum 8) None None clearing_machine)" "FNum 1"]
    by (simp add: clearing_machine_def)
qed

end
