(* ===== verification/Forensic.thy ===== *)
theory Forensic
  imports Residual_Buffer Detect_Config
begin

text \<open>
  The forensic recorder, \<open>src/src/forensic.rs\<close>: three rings with a common window, each
  with its own capacity, and the one-shot claim on the dump. A snapshot is the data
  that \<open>Forensic_File\<close> writes to disk. The locale \<open>bounded_ring\<close> is the
  contract of every ring of the program: the residual buffer and the three rings here are
  its instances.
\<close>

section \<open>Records\<close>

record gps_fix_record =
  gr_t_secs :: f64
  gr_lat_deg :: f64
  gr_lon_deg :: f64
  gr_alt_m :: f64
  gr_speed_mps :: "f64 option"
  gr_course_deg :: "f64 option"
  gr_hdop :: "f32 option"
  gr_sats :: "u8 option"

definition gps_record_from :: "f64 \<Rightarrow> gps_fix \<Rightarrow> gps_fix_record" where
  "gps_record_from t f = \<lparr>gr_t_secs = t, gr_lat_deg = lat_deg f, gr_lon_deg = lon_deg f, gr_alt_m = alt_m f,
     gr_speed_mps = speed_mps f, gr_course_deg = course_deg f, gr_hdop = hdop f, gr_sats = sats f\<rparr>"

record imu_sample_record =
  ir_t_secs :: f64
  ir_accel_mps2 :: vec3
  ir_gyro_rps :: vec3

definition imu_record_from :: "f64 \<Rightarrow> imu_sample \<Rightarrow> imu_sample_record" where
  "imu_record_from t s = \<lparr>ir_t_secs = t, ir_accel_mps2 = accel_mps2 s, ir_gyro_rps = gyro_rps s\<rparr>"

record residual_record =
  rr_t_secs :: f64
  rr_dpos_n :: f64
  rr_dpos_e :: f64
  rr_mag_pos :: f64
  rr_mag_vel :: f64
  rr_dvel_known :: bool
  rr_fsm_state :: nav_state_kind

definition residual_record_from :: "f64 \<Rightarrow> residual \<Rightarrow> nav_state_kind \<Rightarrow> residual_record" where
  "residual_record_from t r st = \<lparr>rr_t_secs = t, rr_dpos_n = ned_n (dpos r), rr_dpos_e = ned_e (dpos r),
     rr_mag_pos = mag_pos r, rr_mag_vel = mag_vel r, rr_dvel_known = dvel_known r, rr_fsm_state = st\<rparr>"

section \<open>The buffer\<close>

record forensic_buffer =
  f_gps :: "gps_fix_record list"
  f_imu :: "imu_sample_record list"
  f_residuals :: "residual_record list"
  f_window_s :: f64
  max_imu :: nat
  max_gps :: nat
  max_residuals :: nat
  dump_fired :: bool

text \<open>The three allocations; a capacity of more than \<open>isize::MAX\<close> bytes panics.\<close>

definition forensic_new :: "f64 \<Rightarrow> f64 \<Rightarrow> forensic_buffer option" where
  "forensic_new window_s max_imu_rate_hz =
     (let imu_cap = max (cast_usize (fceil (fmul B64 (fmul B64 window_s max_imu_rate_hz) (FNum 4)))) 64;
          gps_cap = max (cast_usize (fceil (fmul B64 (fmul B64 window_s (FNum 10)) (FNum 4)))) 64
      in if 2 ^ 63 - 1 < 80 * gps_cap \<or> 2 ^ 63 - 1 < 32 * imu_cap \<or> 2 ^ 63 - 1 < 48 * gps_cap then None
         else Some \<lparr>f_gps = [], f_imu = [], f_residuals = [], f_window_s = window_s, max_imu = imu_cap,
                max_gps = gps_cap, max_residuals = gps_cap, dump_fired = False\<rparr>)"

text \<open>\<open>trim_gps\<close>, \<open>trim_imu\<close> and \<open>trim_residuals\<close>: old entries from the front, then down to the capacity.\<close>

definition ring_trim :: "('a \<Rightarrow> f64) \<Rightarrow> f64 \<Rightarrow> f64 \<Rightarrow> nat \<Rightarrow> 'a list \<Rightarrow> 'a list" where
  "ring_trim time window now cap xs =
     (let cutoff = fsub B64 now window
      in trim_capacity cap (dropWhile (\<lambda>x. flt (time x) cutoff) xs))"

definition push_gps :: "f64 \<Rightarrow> gps_fix \<Rightarrow> forensic_buffer \<Rightarrow> forensic_buffer" where
  "push_gps t fx b =
     b\<lparr>f_gps := ring_trim gr_t_secs (f_window_s b) t (max_gps b) (f_gps b @ [gps_record_from t fx])\<rparr>"

definition push_imu :: "f64 \<Rightarrow> imu_sample \<Rightarrow> forensic_buffer \<Rightarrow> forensic_buffer" where
  "push_imu t s b =
     b\<lparr>f_imu := ring_trim ir_t_secs (f_window_s b) t (max_imu b) (f_imu b @ [imu_record_from t s])\<rparr>"

definition push_residual :: "f64 \<Rightarrow> residual \<Rightarrow> nav_state_kind \<Rightarrow> forensic_buffer \<Rightarrow> forensic_buffer" where
  "push_residual t r st b =
     b\<lparr>f_residuals := ring_trim rr_t_secs (f_window_s b) t (max_residuals b)
         (f_residuals b @ [residual_record_from t r st])\<rparr>"

definition already_dumped :: "forensic_buffer \<Rightarrow> bool" where
  "already_dumped b = dump_fired b"

definition try_claim_dump :: "forensic_buffer \<Rightarrow> bool \<times> forensic_buffer" where
  "try_claim_dump b = (if dump_fired b then (False, b) else (True, b\<lparr>dump_fired := True\<rparr>))"

definition release_dump_claim :: "forensic_buffer \<Rightarrow> forensic_buffer" where
  "release_dump_claim b = b\<lparr>dump_fired := False\<rparr>"

text \<open>A snapshot; the event that triggered it is kept as it is, the code prints it.\<close>

record attestation_summary =
  crate_version :: string
  binary_sha256 :: "string option"
  host_os :: string
  host_arch :: string

datatype 'e forensic_trigger = SpoofedTransition nav_state_kind nav_state_kind f32 'e

record 'e forensic_snapshot =
  schema_version :: u32
  captured_at_utc :: int
  captured_at_mono_ns :: nat
  sn_window_s :: f64
  sn_attestation :: attestation_summary
  sn_trigger :: "'e forensic_trigger"
  sn_residuals :: "residual_record list"
  sn_gps_fixes :: "gps_fix_record list"
  sn_imu_samples :: "imu_sample_record list"

definition forensic_snapshot_of ::
    "int \<Rightarrow> nat \<Rightarrow> 'e forensic_trigger \<Rightarrow> attestation_summary \<Rightarrow> forensic_buffer \<Rightarrow> 'e forensic_snapshot" where
  "forensic_snapshot_of utc_now ns trigger att b = \<lparr>schema_version = 1, captured_at_utc = utc_now,
     captured_at_mono_ns = ns, sn_window_s = f_window_s b, sn_attestation = att, sn_trigger = trigger,
     sn_residuals = f_residuals b, sn_gps_fixes = f_gps b, sn_imu_samples = f_imu b\<rparr>"

section \<open>The contract of a ring\<close>

locale bounded_ring =
  fixes push :: "'a \<Rightarrow> 'b \<Rightarrow> 'b" and items :: "'b \<Rightarrow> 'a list" and cap :: "'b \<Rightarrow> nat"
  assumes push_cap: "cap (push x b) = cap b"
    and push_bound: "length (items (push x b)) \<le> cap b"
    and push_keeps_suffix: "\<exists>old. items b @ [x] = old @ items (push x b)"
begin

lemma fold_cap: "cap (fold push xs b) = cap b"
  by (induction xs arbitrary: b) (simp_all add: push_cap)

lemma fold_bound: "length (items b) \<le> cap b \<Longrightarrow> length (items (fold push xs b)) \<le> cap b"
proof (induction xs arbitrary: b)
  case (Cons x xs)
  then show ?case using Cons.IH [of "push x b"] push_bound [of x b] by (simp add: push_cap)
qed simp

lemma fold_suffix: "\<exists>old. items b @ xs = old @ items (fold push xs b)"
proof (induction xs rule: rev_induct)
  case (snoc x xs)
  then obtain old where "items b @ xs = old @ items (fold push xs b)" by blast
  moreover obtain old' where "items (fold push xs b) @ [x] = old' @ items (push x (fold push xs b))"
    using push_keeps_suffix by blast
  ultimately have "items b @ xs @ [x] = (old @ old') @ items (fold push (xs @ [x]) b)"
    by (metis append.assoc fold_append fold_simps(1) fold_simps(2) o_apply)
  then show ?case by blast
qed simp

end

lemma ring_trim_suffix: "\<exists>old. xs = old @ ring_trim time w now cap xs"
proof -
  obtain a where "xs = a @ dropWhile (\<lambda>x. flt (time x) (fsub B64 now w)) xs"
    using dropWhile_suffix_ex by blast
  moreover have "\<exists>c. ys = c @ trim_capacity cap ys" for ys :: "'a list"
    unfolding trim_capacity_def by (metis append_take_drop_id)
  ultimately show ?thesis unfolding ring_trim_def Let_def by (metis append.assoc)
qed

lemma ring_trim_bound: "length (ring_trim time w now cap xs) \<le> cap"
  by (simp add: ring_trim_def Let_def trim_capacity_length)

interpretation gps_ring: bounded_ring "\<lambda>(x :: gps_fix_record) b.
    b\<lparr>f_gps := ring_trim gr_t_secs (f_window_s b) (gr_t_secs x) (max_gps b) (f_gps b @ [x])\<rparr>" f_gps max_gps
  by unfold_locales (simp_all add: ring_trim_bound ring_trim_suffix)

interpretation imu_ring: bounded_ring "\<lambda>(x :: imu_sample_record) b.
    b\<lparr>f_imu := ring_trim ir_t_secs (f_window_s b) (ir_t_secs x) (max_imu b) (f_imu b @ [x])\<rparr>" f_imu max_imu
  by unfold_locales (simp_all add: ring_trim_bound ring_trim_suffix)

interpretation residual_ring: bounded_ring "\<lambda>(x :: residual_record) b.
    b\<lparr>f_residuals := ring_trim rr_t_secs (f_window_s b) (rr_t_secs x) (max_residuals b) (f_residuals b @ [x])\<rparr>"
  f_residuals max_residuals
  by unfold_locales (simp_all add: ring_trim_bound ring_trim_suffix)

interpretation nav_ring: bounded_ring "\<lambda>s b. buffer_push b s" buf capacity
  by unfold_locales (simp_all add: buffer_push_def trim_capacity_length push_suffix [unfolded buffer_push_def, simplified])

section \<open>Properties\<close>

datatype forensic_op = FGps f64 gps_fix | FImu f64 imu_sample | FResidual f64 residual nav_state_kind | FClaim | FRelease

fun forensic_apply :: "forensic_op \<Rightarrow> forensic_buffer \<Rightarrow> forensic_buffer" where
  "forensic_apply (FGps t fx) b = push_gps t fx b"
| "forensic_apply (FImu t s) b = push_imu t s b"
| "forensic_apply (FResidual t r st) b = push_residual t r st b"
| "forensic_apply FClaim b = snd (try_claim_dump b)"
| "forensic_apply FRelease b = release_dump_claim b"

definition recorded_residuals :: "forensic_op list \<Rightarrow> residual_record list" where
  "recorded_residuals ops =
     List.map_filter (\<lambda>op. case op of FResidual t r st \<Rightarrow> Some (residual_record_from t r st) | _ \<Rightarrow> None) ops"

definition rings_ok :: "forensic_buffer \<Rightarrow> bool" where
  "rings_ok b \<longleftrightarrow> length (f_gps b) \<le> max_gps b \<and> length (f_imu b) \<le> max_imu b
     \<and> length (f_residuals b) \<le> max_residuals b"

lemma forensic_apply_caps:
  "max_gps (forensic_apply op b) = max_gps b" "max_imu (forensic_apply op b) = max_imu b"
  "max_residuals (forensic_apply op b) = max_residuals b"
  by (cases op; simp add: push_gps_def push_imu_def push_residual_def try_claim_dump_def release_dump_claim_def)+

lemma rings_ok_apply: "rings_ok b \<Longrightarrow> rings_ok (forensic_apply op b)"
  using gps_ring.push_bound imu_ring.push_bound residual_ring.push_bound
  by (cases op) (auto simp: rings_ok_def push_gps_def push_imu_def push_residual_def try_claim_dump_def
      release_dump_claim_def ring_trim_bound)

lemma residuals_of_run:
  "f_residuals (fold forensic_apply ops b)
     = f_residuals (fold (\<lambda>x b. b\<lparr>f_residuals := ring_trim rr_t_secs (f_window_s b) (rr_t_secs x) (max_residuals b) (f_residuals b @ [x])\<rparr>)
         (recorded_residuals ops) b)"
proof -
  let ?push = "\<lambda>(x :: residual_record) b. b\<lparr>f_residuals := ring_trim rr_t_secs (f_window_s b) (rr_t_secs x) (max_residuals b) (f_residuals b @ [x])\<rparr>"
  define sim where "sim = (\<lambda>(a :: forensic_buffer) (b :: forensic_buffer). f_residuals a = f_residuals b \<and> f_window_s a = f_window_s b \<and> max_residuals a = max_residuals b)"
  have "sim (fold forensic_apply ops a) (fold ?push (recorded_residuals ops) b)" if "sim a b" for a b
    using that
  proof (induction ops arbitrary: a b)
    case (Cons op ops)
    show ?case
    proof (cases op)
      case (FResidual t r st)
      then have "sim (forensic_apply op a) (?push (residual_record_from t r st) b)"
        using Cons.prems by (simp add: sim_def push_residual_def residual_record_from_def)
      from Cons.IH [OF this] FResidual show ?thesis by (simp add: recorded_residuals_def List.map_filter_simps)
    next
      case (FGps t fx)
      then have "sim (forensic_apply op a) b" using Cons.prems by (simp add: sim_def push_gps_def)
      from Cons.IH [OF this] FGps show ?thesis by (simp add: recorded_residuals_def List.map_filter_simps)
    next
      case (FImu t s)
      then have "sim (forensic_apply op a) b" using Cons.prems by (simp add: sim_def push_imu_def)
      from Cons.IH [OF this] FImu show ?thesis by (simp add: recorded_residuals_def List.map_filter_simps)
    next
      case FClaim
      then have "sim (forensic_apply op a) b" using Cons.prems by (simp add: sim_def try_claim_dump_def)
      from Cons.IH [OF this] FClaim show ?thesis by (simp add: recorded_residuals_def List.map_filter_simps)
    next
      case FRelease
      then have "sim (forensic_apply op a) b" using Cons.prems by (simp add: sim_def release_dump_claim_def)
      from Cons.IH [OF this] FRelease show ?thesis by (simp add: recorded_residuals_def List.map_filter_simps)
    qed
  qed (simp add: recorded_residuals_def List.map_filter_simps)
  from this [of b b] show ?thesis by (simp add: sim_def)
qed

text \<open>
  The recorder's memory is bounded and it keeps the latest evidence: after any sequence
  of recordings and dump claims, each ring holds at most its capacity, and the residual
  ring is the tail of everything recorded, in order and with the detector state of each
  moment.
\<close>

theorem forensic_rings_bounded:
  assumes new: "forensic_new w rate = Some b"
  shows "rings_ok (fold forensic_apply ops b)
    \<and> (\<exists>old. recorded_residuals ops = old @ f_residuals (fold forensic_apply ops b))"
proof
  have empty: "f_residuals b = []" "rings_ok b"
    using new by (auto simp: rings_ok_def forensic_new_def Let_def split: if_splits)
  then show "rings_ok (fold forensic_apply ops b)"
    by (intro fold_preserves [of rings_ok]) (auto intro: rings_ok_apply)
  show "\<exists>old. recorded_residuals ops = old @ f_residuals (fold forensic_apply ops b)"
    using residual_ring.fold_suffix [of b "recorded_residuals ops"] empty(1)
    unfolding residuals_of_run by simp
qed

lemma forensic_new_zero:
  "forensic_new (FNum 0) (FNum 0) = Some \<lparr>f_gps = [], f_imu = [], f_residuals = [], f_window_s = FNum 0,
     max_imu = 64, max_gps = 64, max_residuals = 64, dump_fired = False\<rparr>"
  by (simp add: forensic_new_def fmul_FNum fceil_def cast_usize_def cast_int_def ftrunc_def)

theorem forensic_rings_bounded_witness:
  "\<exists>b. forensic_new (FNum 0) (FNum 0) = Some b \<and> rings_ok (fold forensic_apply [FClaim, FRelease] b)"
  using forensic_rings_bounded [OF forensic_new_zero, of "[FClaim, FRelease]"] forensic_new_zero by blast

end
