(* ===== verification/Fusion.thy ===== *)
theory Fusion
  imports Nav State_Machine Forensic Controller
begin

text \<open>
  The fusion task, \<open>src/src/fusion.rs\<close>: it feeds IMU samples to the dead reckoner and the
  residual buffer, gates everything on the pre-flight checks, turns a GPS fix into a
  residual for the state machine, and on the transition to Spoofed runs the actions.

  An operation returns the new state and its outputs in order: events broadcast, calls of
  the controller, and background tasks spawned. The environment of an operation supplies
  the clocks, the attestation of the binary, the monitor as the listener has it, and the
  controller's answers.
  \<open>None\<close> is a panic. The JSON payload of an event is one constructor of \<open>detail\<close>
  per place of the code that builds one, with the values it carries; its fixed text is
  implied by the constructor.
\<close>

section \<open>Configuration\<close>

record fusion_config =
  fc_nav :: nav_config
  fc_detect :: detect_config
  residual_window_s :: f64
  max_imu_rate_hz :: f64

definition fusion_config_default :: fusion_config where
  "fusion_config_default = \<lparr>fc_nav = nav_config_default, fc_detect = detect_config_default,
     residual_window_s = FNum 2, max_imu_rate_hz = FNum 100\<rparr>"

datatype config_error =
    BadResidualWindow f64 | BadImuRate f64 | BadMaxJump f32 | BadVelocityMismatch f32 | BadJumpPersist
  | BadCusum f32 f32 | CusumInverted f32 f32 | BadMagCusum f32 f32 | MagCusumInverted f32 f32
  | BadDwell f32 f32 | BadReAnchor f32 | BadVerticalRate f32 | BadDwellPause f32
  | BadMadgwickBeta f32 | BadBlendTau f32 | BadBiasAlpha f32 | BadStaticInit f32
  | BadHomeDistance f64 | HomeDistanceTooLarge f64

definition pos_finite :: "fl \<Rightarrow> bool" where
  "pos_finite x \<longleftrightarrow> fgt x (FNum 0) \<and> is_finite x"

text \<open>The first failing check, in the order of the code.\<close>

definition validate_checks :: "fusion_config \<Rightarrow> (bool \<times> config_error) list" where
  "validate_checks c =
     (let d = fc_detect c; n = fc_nav c
      in [(pos_finite (residual_window_s c), BadResidualWindow (residual_window_s c)),
          (pos_finite (max_imu_rate_hz c), BadImuRate (max_imu_rate_hz c)),
          (pos_finite (max_jump_m d), BadMaxJump (max_jump_m d)),
          (pos_finite (max_velocity_mismatch_mps d), BadVelocityMismatch (max_velocity_mismatch_mps d)),
          (jump_persist_fixes d \<noteq> 0, BadJumpPersist),
          (fgt (cusum_k_m d) (FNum 0) \<and> fgt (cusum_h_m d) (FNum 0), BadCusum (cusum_k_m d) (cusum_h_m d)),
          (\<not> fge (cusum_k_m d) (cusum_h_m d), CusumInverted (cusum_k_m d) (cusum_h_m d)),
          (fgt (mag_cusum_k_m d) (FNum 0) \<and> fgt (mag_cusum_h_m d) (FNum 0),
             BadMagCusum (mag_cusum_k_m d) (mag_cusum_h_m d)),
          (\<not> fge (mag_cusum_k_m d) (mag_cusum_h_m d), MagCusumInverted (mag_cusum_k_m d) (mag_cusum_h_m d)),
          (fgt (suspicious_to_spoofed_dwell_s d) (FNum 0) \<and> fgt (normal_clear_dwell_s d) (FNum 0),
             BadDwell (suspicious_to_spoofed_dwell_s d) (normal_clear_dwell_s d)),
          (pos_finite (re_anchor_max_distance_m d), BadReAnchor (re_anchor_max_distance_m d)),
          (pos_finite (max_vertical_rate_mps d), BadVerticalRate (max_vertical_rate_mps d)),
          (pos_finite (max_dwell_pause_s d), BadDwellPause (max_dwell_pause_s d)),
          (pos_finite (madgwick_beta n), BadMadgwickBeta (madgwick_beta n)),
          (pos_finite (blend_tau_s n), BadBlendTau (blend_tau_s n)),
          (fgt (bias_ema_alpha n) (FNum 0) \<and> fle (bias_ema_alpha n) (FNum 1), BadBiasAlpha (bias_ema_alpha n)),
          (pos_finite (static_init_s n), BadStaticInit (static_init_s n)),
          (pos_finite (max_home_distance_m n), BadHomeDistance (max_home_distance_m n)),
          (\<not> fgt (max_home_distance_m n) (FNum 1000000), HomeDistanceTooLarge (max_home_distance_m n))])"

definition validate :: "fusion_config \<Rightarrow> config_error + unit" where
  "validate c = (case List.find (\<lambda>(ok, _). \<not> ok) (validate_checks c) of Some (_, e) \<Rightarrow> Inl e | None \<Rightarrow> Inr ())"

section \<open>Events and outputs\<close>

datatype preflight_state = Initializing | Ready

record preflight_checklist =
  static_init_done :: bool
  first_fix_accepted :: bool
  heartbeat_seen :: bool
  autopilot_matches :: bool

datatype detail =
    DOperatorReset nav_state_kind
  | DForensicSuppressed
  | DForensicWritten string nat
  | DForensicFailed fs_error
  | DChecklist preflight_checklist
  | DBootRejected f64 f64 f64
  | DDwellPause u8 f64
  | DSync detect_error
  | DFrozen u8 f64 f64 f64 f64
  | DVerticalRate f32 f32 f64 f64
  | DNoDoppler
  | DReAnchorRejected f64 f32
  | DSeverCritical
  | DSeverReadback
  | DRtbConfirmed
  | DRtbUnconfirmed
  | DRtbVerifyError fs_error
  | DActionError string fs_error
  | DJump jump_reason f64 f64 f64 f64
  | DDrift drift_reason f64 f64 f64 cusum_state
  | DTransition nav_state_kind nav_state_kind

record spoofing_event =
  ev_mono_ns :: nat
  ev_utc :: "int option"
  ev_kind :: spoof_kind
  ev_state :: nav_state_kind
  ev_residual_m :: f32
  ev_detail :: detail

definition spoofing_event_new ::
    "timestamp \<Rightarrow> spoof_kind \<Rightarrow> nav_state_kind \<Rightarrow> f32 \<Rightarrow> detail \<Rightarrow> instant \<Rightarrow> spoofing_event" where
  "spoofing_event_new t kind st res d boot = \<lparr>ev_mono_ns = saturating_duration_since (mono t) boot,
     ev_utc = utc t, ev_kind = kind, ev_state = st, ev_residual_m = res, ev_detail = d\<rparr>"

datatype action = SeverGps | EngageRtb

datatype fusion_out =
    OEvent spoofing_event
  | OAction action
  | OSpawnDump "fsm_event forensic_snapshot"
  | OSpawnVerifySever timestamp nav_state_kind
  | OSpawnVerifyRtb timestamp nav_state_kind

record fusion_env =
  e_math :: nav_math
  e_now :: instant
  e_utc_now :: int
  e_attestation :: attestation_summary
  e_monitor :: mav_monitor
  e_ctl :: "action \<Rightarrow> fs_error + unit"

section \<open>State\<close>

record fusion =
  fu_nav :: dead_reckoner
  fu_fsm :: state_machine
  fu_buffer :: residual_buffer
  fu_boot :: instant
  last_gps_t_secs :: "f64 option"
  fu_gps_dropout_freeze_s :: f32
  fu_re_anchor_max_distance_m :: f32
  no_doppler_streak :: u16
  frozen_anchor_lla :: "(f64 \<times> f64) option"
  frozen_fix_streak :: u8
  frozen_imu_displacement_m :: f64
  last_gps_alt :: "(f64 \<times> f64) option"
  fu_max_vertical_rate_mps :: f32
  preflight :: preflight_state
  checklist :: preflight_checklist
  mav_wired :: bool
  expected_autopilot :: "u8 option"
  last_preflight_failed_emit_s :: f64
  forensic :: "forensic_buffer option"
  forensic_dir :: "string option"

definition FROZEN_FIX_RADIUS_M :: f64 where "FROZEN_FIX_RADIUS_M = lit B64 (1 / 2)"
definition FROZEN_MIN_IMU_DISPLACEMENT_M :: f64 where "FROZEN_MIN_IMU_DISPLACEMENT_M = FNum 5"
definition FROZEN_FIX_MIN_IMU_VEL_MPS :: f64 where "FROZEN_FIX_MIN_IMU_VEL_MPS = FNum 1"
definition NO_DOPPLER_GATE_STREAK :: u16 where "NO_DOPPLER_GATE_STREAK = 10"

definition fusion_new :: "fusion_config \<Rightarrow> instant \<Rightarrow> fusion option" where
  "fusion_new cfg boot =
     (case buffer_new (residual_window_s cfg) (max_imu_rate_hz cfg) of
        None \<Rightarrow> None
      | Some b \<Rightarrow> Some \<lparr>
          fu_nav = dr_new (fc_nav cfg) boot, fu_fsm = fsm_new (fc_detect cfg), fu_buffer = b, fu_boot = boot,
          last_gps_t_secs = None, fu_gps_dropout_freeze_s = gps_dropout_freeze_s (fc_detect cfg),
          fu_re_anchor_max_distance_m = re_anchor_max_distance_m (fc_detect cfg), no_doppler_streak = 0,
          frozen_anchor_lla = None, frozen_fix_streak = 0, frozen_imu_displacement_m = FNum 0,
          last_gps_alt = None, fu_max_vertical_rate_mps = max_vertical_rate_mps (fc_detect cfg),
          preflight = Initializing,
          checklist = \<lparr>static_init_done = False, first_fix_accepted = False, heartbeat_seen = True, autopilot_matches = True\<rparr>,
          mav_wired = False, expected_autopilot = None, last_preflight_failed_emit_s = FNInf,
          forensic = None, forensic_dir = None\<rparr>)"

definition with_mav_monitor :: "u8 \<Rightarrow> fusion \<Rightarrow> fusion" where
  "with_mav_monitor expected fu = fu\<lparr>mav_wired := True, expected_autopilot := Some expected,
     checklist := (checklist fu)\<lparr>heartbeat_seen := False, autopilot_matches := False\<rparr>\<rparr>"

definition with_forensic :: "string \<Rightarrow> f64 \<Rightarrow> f64 \<Rightarrow> fusion \<Rightarrow> fusion option" where
  "with_forensic dir window_s rate fu =
     map_option (\<lambda>fb. fu\<lparr>forensic := Some fb, forensic_dir := Some dir\<rparr>) (forensic_new window_s rate)"

definition fu_secs :: "fusion \<Rightarrow> instant \<Rightarrow> f64" where
  "fu_secs fu t = as_secs_f64 (saturating_duration_since t (fu_boot fu))"

definition event_of :: "fusion \<Rightarrow> timestamp \<Rightarrow> spoof_kind \<Rightarrow> f32 \<Rightarrow> detail \<Rightarrow> fusion_out" where
  "event_of fu t kind res d = OEvent (spoofing_event_new t kind (sm_state (fu_fsm fu)) res d (fu_boot fu))"

section \<open>IMU samples, reset, pre-flight\<close>

definition on_imu :: "fusion_env \<Rightarrow> imu_sample \<Rightarrow> fusion \<Rightarrow> fusion" where
  "on_imu env sample fu =
     (let fu1 = (case forensic fu of
                   Some f \<Rightarrow> fu\<lparr>forensic := Some (push_imu (fu_secs fu (mono (imu_t sample))) sample f)\<rparr>
                 | None \<Rightarrow> fu);
          (res, nav) = step (e_math env) sample (fu_nav fu1);
          fu2 = fu1\<lparr>fu_nav := nav,
                    fu_buffer := (case res of Inr (Some snap) \<Rightarrow> buffer_push (fu_buffer fu1) snap
                                  | _ \<Rightarrow> fu_buffer fu1)\<rparr>
      in if \<not> static_init_done (checklist fu2) \<and> is_initialized nav
         then fu2\<lparr>checklist := (checklist fu2)\<lparr>static_init_done := True\<rparr>\<rparr>
         else fu2)"

text \<open>The reset arm of \<open>run\<close>; the outcome of \<open>controller.reset()\<close> is only logged.\<close>

definition operator_reset :: "fusion_env \<Rightarrow> fusion \<Rightarrow> fusion \<times> fusion_out list" where
  "operator_reset env fu =
     (let prev = sm_state (fu_fsm fu);
          fu1 = fu\<lparr>fu_fsm := manual_reset_to_normal (fu_fsm fu), fu_nav := set_state Normal (fu_nav fu),
                   last_gps_t_secs := None, frozen_anchor_lla := None, frozen_fix_streak := 0,
                   frozen_imu_displacement_m := FNum 0, no_doppler_streak := 0, last_gps_alt := None\<rparr>
      in (fu1, [OEvent (spoofing_event_new (at_mono (e_now env)) KStateTransition Normal (FNum 0)
                  (DOperatorReset prev) (fu_boot fu))]))"

definition checklist_ok :: "preflight_checklist \<Rightarrow> bool" where
  "checklist_ok c \<longleftrightarrow> static_init_done c \<and> first_fix_accepted c \<and> heartbeat_seen c \<and> autopilot_matches c"

definition preflight_facts :: "fusion_env \<Rightarrow> fusion \<Rightarrow> fusion" where
  "preflight_facts env fu =
     (if mav_wired fu
      then let hb_fresh = heartbeat_fresh (e_monitor env) (e_now env) (fu_boot fu) (nanos_u64 (3 * 10 ^ 9));
               matches = (case expected_autopilot fu of
                            Some want \<Rightarrow> hb_fresh \<and> current_autopilot (e_monitor env) = want
                          | None \<Rightarrow> True)
           in fu\<lparr>checklist := (checklist fu)\<lparr>heartbeat_seen := hb_fresh, autopilot_matches := matches\<rparr>\<rparr>
      else fu)"

definition refresh_preflight :: "fusion_env \<Rightarrow> f64 \<Rightarrow> timestamp \<Rightarrow> fusion \<Rightarrow> fusion \<times> fusion_out list" where
  "refresh_preflight env t_secs stamp fu =
     (if preflight fu = Ready then (fu, [])
      else
        let fu1 = preflight_facts env fu
        in if checklist_ok (checklist fu1)
           then (fu1\<lparr>preflight := Ready\<rparr>, [event_of fu1 stamp KPreflightPassed (FNum 0) (DChecklist (checklist fu1))])
           else if fge (sub64 t_secs (last_preflight_failed_emit_s fu1)) (FNum 5)
           then (fu1\<lparr>last_preflight_failed_emit_s := t_secs\<rparr>,
                 [event_of fu1 stamp KPreflightFailed (FNum 0) (DChecklist (checklist fu1))])
           else (fu1, []))"

section \<open>The stages of a GPS fix\<close>

text \<open>No origin yet: the boot-anchor check, then the first anchor.\<close>

definition first_fix :: "fusion_env \<Rightarrow> gps_fix \<Rightarrow> fusion \<Rightarrow> fusion \<times> fusion_out list" where
  "first_fix env fx fu =
     (case is_first_fix_plausible (e_math env) fx (fu_nav fu) of
        Inl distance \<Rightarrow>
          (fu, [event_of fu (fix_t fx) KBootAnchorRejected (to_f32 distance)
                  (DBootRejected (lat_deg fx) (lon_deg fx) distance)])
      | Inr _ \<Rightarrow>
          (let fu1 = fu\<lparr>fu_nav := on_gps_fix (e_math env) fx (fu_nav fu),
                        checklist := (checklist fu)\<lparr>first_fix_accepted := True\<rparr>\<rparr>
           in refresh_preflight env (fu_secs fu (mono (fix_t fx))) (fix_t fx) fu1))"

text \<open>Before Ready: refresh the checks, re-anchor while the buffer cannot serve the fix.\<close>

definition preflight_fix :: "fusion_env \<Rightarrow> gps_fix \<Rightarrow> fusion \<Rightarrow> fusion \<times> fusion_out list" where
  "preflight_fix env fx fu =
     (let t_secs = fu_secs fu (mono (fix_t fx));
          (fu1, outs) = refresh_preflight env t_secs (fix_t fx) fu
      in if buffer_is_empty (fu_buffer fu1) \<or> isl (interpolate (fu_buffer fu1) t_secs)
         then (fu1\<lparr>fu_nav := on_gps_fix (e_math env) fx (fu_nav fu1), fu_fsm := on_clean_anchor (fu_fsm fu1)\<rparr>, outs)
         else (fu1, outs))"

definition dropout_gap :: "f64 \<Rightarrow> fusion \<Rightarrow> f32" where
  "dropout_gap t fu = (case last_gps_t_secs fu of Some prev \<Rightarrow> to_f32 (sub64 t prev) | None \<Rightarrow> FNum 0)"

definition note_dropout :: "gps_fix \<Rightarrow> f64 \<Rightarrow> fusion \<Rightarrow> fusion \<times> fusion_out list" where
  "note_dropout fx t fu =
     (let gap = dropout_gap t fu;
          fu1 = fu\<lparr>last_gps_t_secs := Some t\<rparr>;
          fu2 = (if fgt gap (fu_gps_dropout_freeze_s fu1)
                 then fu1\<lparr>fu_fsm := note_dropout_recovery (fu_fsm fu1)\<rparr> else fu1)
      in if dwell_pause_exceeded_pending (fu_fsm fu2)
         then let fu3 = fu2\<lparr>fu_fsm := (fu_fsm fu2)\<lparr>dwell_pause_exceeded_pending := False\<rparr>\<rparr>
              in (fu3, [event_of fu3 (fix_t fx) KDwellPauseExceeded (FNum 0)
                          (DDwellPause (consecutive_dropout_count (fu_fsm fu3)) (paused_cumulative_secs (fu_fsm fu3)))])
         else (fu2, []))"

definition frozen_candidate :: "fusion_env \<Rightarrow> gps_fix \<Rightarrow> fusion \<Rightarrow> bool" where
  "frozen_candidate env fx fu =
     (case frozen_anchor_lla fu of
        Some (anchor_lat, anchor_lon) \<Rightarrow>
          flt (horizontal_norm (lla_to_ned (e_math env) (lat_deg fx) (lon_deg fx) (FNum 0) anchor_lat anchor_lon))
            FROZEN_FIX_RADIUS_M
      | None \<Rightarrow> False)"

definition restart_frozen :: "gps_fix \<Rightarrow> fusion \<Rightarrow> fusion" where
  "restart_frozen fx fu = fu\<lparr>frozen_anchor_lla := Some (lat_deg fx, lon_deg fx), frozen_fix_streak := 0,
     frozen_imu_displacement_m := FNum 0\<rparr>"

definition residual_of :: "fusion_env \<Rightarrow> gps_fix \<Rightarrow> ned_pos \<Rightarrow> ned_pos \<Rightarrow> ned_vel \<Rightarrow> dead_reckoner \<Rightarrow> residual" where
  "residual_of env fx gps_ned p_imu v_imu nav =
     (let dp = ned_sub gps_ned p_imu;
          (dv, mv, known) = (case gps_velocity (e_math env) fx of
                               Some v_gps \<Rightarrow> (let d = ned_sub v_gps v_imu in (d, horizontal_norm d, True))
                             | None \<Rightarrow> (ned_default, FNum 0, False));
          (dvf, mvf) = (if known then (let d = ned_add dv (aiding_vel nav) in (d, horizontal_norm d))
                        else (ned_default, FNum 0))
      in \<lparr>dpos = dp, dvel = dv, mag_pos = horizontal_norm dp, mag_vel = mv, dvel_known = known,
          dvel_free = dvf, mag_vel_free = mvf, maneuvering = is_maneuvering nav\<rparr>)"

definition forensic_fix :: "gps_fix \<Rightarrow> f64 \<Rightarrow> residual \<Rightarrow> fusion \<Rightarrow> fusion" where
  "forensic_fix fx t r fu =
     (case forensic fu of
        Some fb \<Rightarrow> fu\<lparr>forensic := Some (push_residual t r (sm_state (fu_fsm fu)) (push_gps t fx fb))\<rparr>
      | None \<Rightarrow> fu)"

text \<open>The frozen-fix decision. The clamp of the gap panics when the threshold is negative or NaN.\<close>

definition frozen_accrue :: "f32 \<Rightarrow> f64 \<Rightarrow> fusion \<Rightarrow> fusion option" where
  "frozen_accrue gap v_h fu =
     (if fgt v_h FROZEN_FIX_MIN_IMU_VEL_MPS
      then (case fclamp gap (FNum 0) (fu_gps_dropout_freeze_s fu) of
              None \<Rightarrow> None
            | Some dt \<Rightarrow>
                Some (fu\<lparr>frozen_imu_displacement_m := add64 (frozen_imu_displacement_m fu) (mul64 v_h dt)\<rparr>))
      else Some fu)"

definition frozen_decision ::
    "gps_fix \<Rightarrow> f32 \<Rightarrow> ned_vel \<Rightarrow> residual \<Rightarrow> fusion \<Rightarrow> (fusion \<times> fusion_out list) option" where
  "frozen_decision fx gap v_imu r fu =
     (let fu1 = fu\<lparr>frozen_fix_streak := saturating_add (frozen_fix_streak fu) 1\<rparr>;
          v_h = horizontal_norm v_imu
      in case frozen_accrue gap v_h fu1 of
           None \<Rightarrow> None
         | Some fu2 \<Rightarrow>
             (if fge (frozen_imu_displacement_m fu2) FROZEN_MIN_IMU_DISPLACEMENT_M
              then Some (fu2\<lparr>fu_fsm := note_external_anomaly (fu_fsm fu2)\<rparr>,
                     [event_of fu2 (fix_t fx) KFrozenGps (to_f32 (mag_pos r))
                        (DFrozen (frozen_fix_streak fu2) (frozen_imu_displacement_m fu2) v_h (lat_deg fx) (lon_deg fx))])
              else Some (fu2, [])))"

definition vertical_check :: "gps_fix \<Rightarrow> f64 \<Rightarrow> residual \<Rightarrow> fusion \<Rightarrow> fusion \<times> fusion_out list" where
  "vertical_check fx t r fu =
     (let (fu1, outs) =
        (case last_gps_alt fu of
           None \<Rightarrow> (fu, [])
         | Some (prev_alt, prev_t) \<Rightarrow>
             (let dt_alt = to_f32 (sub64 t prev_t);
                  rate = div32 (to_f32 (fabs (sub64 (alt_m fx) prev_alt))) dt_alt
              in if fgt dt_alt (lit B32 (1 / 1000)) \<and> fle dt_alt (fu_gps_dropout_freeze_s fu)
                    \<and> fgt rate (fu_max_vertical_rate_mps fu)
                 then (fu\<lparr>fu_fsm := note_external_anomaly (fu_fsm fu)\<rparr>,
                       [event_of fu (fix_t fx) KJump (to_f32 (mag_pos r))
                          (DVerticalRate rate (fu_max_vertical_rate_mps fu) (alt_m fx) prev_alt)])
                 else (fu, [])))
      in (fu1\<lparr>last_gps_alt := Some (alt_m fx, t)\<rparr>, outs))"

definition doppler_streak :: "gps_fix \<Rightarrow> residual \<Rightarrow> fusion \<Rightarrow> fusion \<times> fusion_out list" where
  "doppler_streak fx r fu =
     (if dvel_known r then (fu\<lparr>no_doppler_streak := 0\<rparr>, [])
      else let n = saturating_add (no_doppler_streak fu) 1; fu1 = fu\<lparr>no_doppler_streak := n\<rparr>
           in if n = 10
              then (fu1, [event_of fu1 (fix_t fx) KSyncWarning (to_f32 (mag_pos r)) DNoDoppler])
              else (fu1, []))"

section \<open>Actions and the events of the state machine\<close>

definition try_action_result :: "fusion_env \<Rightarrow> gps_fix \<Rightarrow> string \<Rightarrow> fusion \<Rightarrow> bool \<times> fusion_out list" where
  "try_action_result env fx which fu =
     (case (if which = ''sever_gps'' then Some SeverGps
            else if which = ''engage_rtb'' then Some EngageRtb else None) of
        None \<Rightarrow> (False, [])
      | Some a \<Rightarrow>
          (case e_ctl env a of
             Inr _ \<Rightarrow> (True, [OAction a])
           | Inl e \<Rightarrow> (False, [OAction a, event_of fu (fix_t fx) KActionFailed (FNum 0) (DActionError which e)])))"

definition emit :: "fsm_event \<Rightarrow> gps_fix \<Rightarrow> residual \<Rightarrow> fusion \<Rightarrow> fusion_out" where
  "emit ev fx r fu =
     (let (kind, d) =
        (case ev of
           EvJump j \<Rightarrow> (KJump, DJump j (ned_n (dpos r)) (ned_e (dpos r)) (ned_n (dvel r)) (ned_e (dvel r)))
         | EvDrift dr \<Rightarrow> (KDrift, DDrift dr (ned_n (dpos r)) (ned_e (dpos r)) (mag_vel_free r)
                            (drift_state (sm_drift (fu_fsm fu))))
         | EvTransition from to \<Rightarrow> (KStateTransition, DTransition from to))
      in event_of fu (fix_t fx) kind (to_f32 (mag_pos r)) d)"

definition maybe_trigger_forensic_dump ::
    "fusion_env \<Rightarrow> nav_state_kind \<Rightarrow> residual \<Rightarrow> fsm_event \<Rightarrow> fusion \<Rightarrow> fusion \<times> fusion_out list" where
  "maybe_trigger_forensic_dump env from r ev fu =
     (case (forensic fu, forensic_dir fu) of
        (Some fb, Some dir) \<Rightarrow>
          (let (won, fb') = try_claim_dump fb; fu1 = fu\<lparr>forensic := Some fb'\<rparr>
           in if won then (fu1, [OSpawnDump (forensic_snapshot_of (e_utc_now env)
                       (saturating_duration_since (e_now env) (fu_boot fu))
                       (SpoofedTransition from Spoofed (to_f32 (mag_pos r)) ev) (e_attestation env) fb)])
              else (fu1, [OEvent (spoofing_event_new (at_mono (e_now env)) KForensicDumpSuppressed Spoofed
                            (to_f32 (mag_pos r)) DForensicSuppressed (fu_boot fu))]))
      | _ \<Rightarrow> (fu, []))"

text \<open>What the spawned tasks broadcast when they end.\<close>

definition dump_result :: "timestamp \<Rightarrow> instant \<Rightarrow> fs_error + string \<times> nat \<Rightarrow> forensic_buffer \<Rightarrow> forensic_buffer \<times> spoofing_event" where
  "dump_result now boot res fb =
     (case res of
        Inr (path, nbytes) \<Rightarrow>
          (fb, spoofing_event_new now KForensicDumpWritten Spoofed (FNum 0) (DForensicWritten path nbytes) boot)
      | Inl e \<Rightarrow> (release_dump_claim fb, spoofing_event_new now KForensicDumpFailed Spoofed (FNum 0) (DForensicFailed e) boot))"

definition verify_sever_result :: "timestamp \<Rightarrow> nav_state_kind \<Rightarrow> instant \<Rightarrow> fs_error + bool \<Rightarrow> spoofing_event list" where
  "verify_sever_result t st boot res =
     (let confirmed = (case res of Inr v \<Rightarrow> v | Inl _ \<Rightarrow> False)
      in if confirmed then [] else [spoofing_event_new t KActionFailed st (FNum 0) DSeverReadback boot])"

definition verify_rtb_result :: "timestamp \<Rightarrow> nav_state_kind \<Rightarrow> instant \<Rightarrow> fs_error + bool \<Rightarrow> spoofing_event" where
  "verify_rtb_result t st boot res =
     (case res of
        Inr True \<Rightarrow> spoofing_event_new t KActionAcked st (FNum 0) DRtbConfirmed boot
      | Inr False \<Rightarrow> spoofing_event_new t KActionUnconfirmed st (FNum 0) DRtbUnconfirmed boot
      | Inl e \<Rightarrow> spoofing_event_new t KActionUnconfirmed st (FNum 0) (DRtbVerifyError e) boot)"

definition spoofed_actions ::
    "fusion_env \<Rightarrow> gps_fix \<Rightarrow> nav_state_kind \<Rightarrow> residual \<Rightarrow> fsm_event \<Rightarrow> fusion \<Rightarrow> fusion \<times> fusion_out list" where
  "spoofed_actions env fx from r ev fu =
     (let (fu1, dump) = maybe_trigger_forensic_dump env from r ev fu;
          (sever_ok, sever) = try_action_result env fx ''sever_gps'' fu1;
          critical = (if sever_ok then []
                      else [event_of fu1 (fix_t fx) KActionFailed (to_f32 (mag_pos r)) DSeverCritical]);
          (_, rtb) = try_action_result env fx ''engage_rtb'' fu1;
          st = sm_state (fu_fsm fu1)
      in (fu1, dump @ sever @ critical @ rtb @ [OSpawnVerifySever (fix_t fx) st, OSpawnVerifyRtb (fix_t fx) st]))"

definition clear_actions :: "gps_fix \<Rightarrow> fusion \<Rightarrow> fusion" where
  "clear_actions fx fu = fu\<lparr>fu_nav := re_anchor_after_clearing fx (fu_nav fu), fu_buffer := buffer_clear (fu_buffer fu),
     fu_fsm := commit_susp_to_normal (fu_fsm fu)\<rparr>"

text \<open>One event of \<open>evaluate\<close>: the veto of a clear, then emission and the reaction.\<close>

definition handle_event ::
    "fusion_env \<Rightarrow> gps_fix \<Rightarrow> f64 \<Rightarrow> ned_pos \<Rightarrow> residual \<Rightarrow> f64 option \<Rightarrow> fsm_event \<Rightarrow> fusion \<Rightarrow> fusion \<times> fusion_out list" where
  "handle_event env fx t gps_ned r pre ev fu =
     (case (if ev = EvTransition Suspicious Normal
            then validate_fix_against_reference gps_ned (dr_pos (fu_nav fu)) (fu_re_anchor_max_distance_m fu)
            else Inr ()) of
        Inl distance \<Rightarrow>
          (let fu1 = fu\<lparr>fu_fsm := force_back_to_suspicious t pre (fu_fsm fu)\<rparr>
           in (fu1, [event_of fu1 (fix_t fx) KBootAnchorRejected (to_f32 distance)
                       (DReAnchorRejected distance (fu_re_anchor_max_distance_m fu1))]))
      | Inr _ \<Rightarrow>
          (case ev of
             EvTransition from to \<Rightarrow>
               (let fu1 = fu\<lparr>fu_nav := set_state to (fu_nav fu)\<rparr>
                in if to = Spoofed
                   then let (fu2, outs) = spoofed_actions env fx from r ev fu1 in (fu2, emit ev fx r fu # outs)
                   else if from = Suspicious \<and> to = Normal then (clear_actions fx fu1, [emit ev fx r fu])
                   else (fu1, [emit ev fx r fu]))
           | _ \<Rightarrow> (fu, [emit ev fx r fu])))"

fun handle_events ::
    "fusion_env \<Rightarrow> gps_fix \<Rightarrow> f64 \<Rightarrow> ned_pos \<Rightarrow> residual \<Rightarrow> f64 option \<Rightarrow> fsm_event list \<Rightarrow> fusion \<Rightarrow> fusion \<times> fusion_out list" where
  "handle_events env fx t gps_ned r pre [] fu = (fu, [])"
| "handle_events env fx t gps_ned r pre (ev # evs) fu =
     (let (fu1, o1) = handle_event env fx t gps_ned r pre ev fu;
          (fu2, o2) = handle_events env fx t gps_ned r pre evs fu1
      in (fu2, o1 @ o2))"

definition evaluate_fix ::
    "fusion_env \<Rightarrow> gps_fix \<Rightarrow> f64 \<Rightarrow> ned_pos \<Rightarrow> residual \<Rightarrow> fusion \<Rightarrow> fusion \<times> fusion_out list" where
  "evaluate_fix env fx t gps_ned r fu =
     (let pre = suspicious_since (fu_fsm fu);
          fsm1 = set_pos_detectors_enabled (dvel_known r \<or> no_doppler_streak fu < NO_DOPPLER_GATE_STREAK) (fu_fsm fu);
          (evs, fsm2) = fsm_evaluate r t (hdop fx) (sats fx) fsm1;
          (fu1, outs) = handle_events env fx t gps_ned r pre evs (fu\<lparr>fu_fsm := fsm2\<rparr>)
      in (if sm_state (fu_fsm fu1) = Normal
          then fu1\<lparr>fu_nav := on_gps_fix (e_math env) fx (fu_nav fu1)\<rparr> else fu1, outs))"

text \<open>A fix once pre-flight is Ready.\<close>

definition ready_fix :: "fusion_env \<Rightarrow> gps_fix \<Rightarrow> ned_pos \<Rightarrow> fusion \<Rightarrow> (fusion \<times> fusion_out list) option" where
  "ready_fix env fx gps_ned fu =
     (let t = fu_secs fu (mono (fix_t fx));
          gap = dropout_gap t fu;
          (fu1, o1) = note_dropout fx t fu;
          frozen = frozen_candidate env fx fu1;
          fu2 = (if frozen then fu1 else restart_frozen fx fu1)
      in case interpolate (fu_buffer fu2) t of
           Inl e \<Rightarrow>
             Some (fu2\<lparr>fu_nav := on_gps_fix (e_math env) fx (fu_nav fu2)\<rparr>,
                   o1 @ [event_of fu2 (fix_t fx) KSyncWarning (FNum 0) (DSync e)])
         | Inr (p_imu, v_imu) \<Rightarrow>
             (let r = residual_of env fx gps_ned p_imu v_imu (fu_nav fu2);
                  fu3 = forensic_fix fx t r fu2
              in case (if frozen then frozen_decision fx gap v_imu r fu3 else Some (fu3, [])) of
                   None \<Rightarrow> None
                 | Some (fu4, o2) \<Rightarrow>
                     (let (fu5, o3) = vertical_check fx t r fu4;
                          (fu6, o4) = doppler_streak fx r fu5;
                          (fu7, o5) = evaluate_fix env fx t gps_ned r fu6
                      in Some (fu7, o1 @ o2 @ o3 @ o4 @ o5))))"

definition on_gps :: "fusion_env \<Rightarrow> gps_fix \<Rightarrow> fusion \<Rightarrow> (fusion \<times> fusion_out list) option" where
  "on_gps env fx fu =
     (case gps_in_ned (e_math env) fx (fu_nav fu) of
        None \<Rightarrow> Some (first_fix env fx fu)
      | Some gps_ned \<Rightarrow>
          (if preflight fu \<noteq> Ready then Some (preflight_fix env fx fu)
           else ready_fix env fx gps_ned fu))"

section \<open>The loop\<close>

text \<open>
  The loop of \<open>run\<close>. A poll of a channel is pending, an item, or the end of the stream
  once every sender is gone; \<open>select!\<close> is biased, so the first ready arm in the order IMU,
  GPS, reset is taken. The reset arm does not look at what \<open>recv\<close> returned. The end of a
  background dump only touches the claim it shares with the recorder.
\<close>

datatype 'a poll = Pending | Item 'a | Closed

record fusion_loop =
  l_fusion :: fusion
  imu_open :: bool
  gps_open :: bool

definition loop_start :: "fusion \<Rightarrow> fusion_loop" where
  "loop_start fu = \<lparr>l_fusion = fu, imu_open = True, gps_open = True\<rparr>"

definition loop_running :: "fusion_loop \<Rightarrow> bool" where
  "loop_running l \<longleftrightarrow> imu_open l \<or> gps_open l"

definition select_step ::
    "fusion_env \<Rightarrow> imu_sample poll \<Rightarrow> gps_fix poll \<Rightarrow> unit poll \<Rightarrow> fusion_loop \<Rightarrow> (fusion_loop \<times> fusion_out list) option" where
  "select_step env imu gps rst l =
     (if \<not> loop_running l then Some (l, [])
      else if imu_open l \<and> imu \<noteq> Pending
      then (case imu of Item s \<Rightarrow> Some (l\<lparr>l_fusion := on_imu env s (l_fusion l)\<rparr>, [])
            | _ \<Rightarrow> Some (l\<lparr>imu_open := False\<rparr>, []))
      else if gps_open l \<and> gps \<noteq> Pending
      then (case gps of Item fx \<Rightarrow> map_option (\<lambda>(fu, outs). (l\<lparr>l_fusion := fu\<rparr>, outs)) (on_gps env fx (l_fusion l))
            | _ \<Rightarrow> Some (l\<lparr>gps_open := False\<rparr>, []))
      else if rst \<noteq> Pending
      then let (fu, outs) = operator_reset env (l_fusion l) in Some (l\<lparr>l_fusion := fu\<rparr>, outs)
      else Some (l, []))"

definition dump_ended :: "timestamp \<Rightarrow> fs_error + string \<times> nat \<Rightarrow> fusion_loop \<Rightarrow> fusion_loop \<times> fusion_out list" where
  "dump_ended now res l =
     (case forensic (l_fusion l) of
        None \<Rightarrow> (l, [])
      | Some fb \<Rightarrow> (let (fb', ev) = dump_result now (fu_boot (l_fusion l)) res fb
                    in (l\<lparr>l_fusion := (l_fusion l)\<lparr>forensic := Some fb'\<rparr>\<rparr>, [OEvent ev])))"

end
