(* ===== verification/Fusion_Trace.thy ===== *)
theory Fusion_Trace
  imports Fusion
begin

text \<open>
  How one fix moves through the fusion task. The stages before the detector leave the
  detector state, the reckoner, the buffer and the pre-flight state alone and only report
  (\<open>same_core\<close>, \<open>observation\<close>); the detector's part is one of five cases
  (\<open>evaluate_fix_cases\<close>). The properties of the fusion task are proved from these rules.
\<close>

section \<open>The detector's answer\<close>

lemma fsm_evaluate_shape:
  assumes "fsm_evaluate r t hp sn sm = (evs, sm')"
  obtains (quiet) "sm_state sm' = sm_state sm" "\<forall>e\<in>set evs. \<not> is_transition e"
  | (suspect) dets where "sm_state sm = Normal" "sm_state sm' = Suspicious"
      "evs = dets @ [EvTransition Normal Suspicious]" "\<forall>e\<in>set dets. \<not> is_transition e"
  | (clear) dets where "sm_state sm = Suspicious" "sm_state sm' = Normal"
      "evs = dets @ [EvTransition Suspicious Normal]" "\<forall>e\<in>set dets. \<not> is_transition e"
  | (latch) dets where "sm_state sm = Suspicious" "sm_state sm' = Spoofed"
      "evs = dets @ [EvTransition Suspicious Spoofed]" "\<forall>e\<in>set dets. \<not> is_transition e"
proof (cases rule: fsm_evaluate_cases [of sm r t hp sn])
  case spoofed
  then show ?thesis using assms by (intro quiet) auto
next
  case (step j d sm3 sm4 es firing)
  have dets: "\<forall>e\<in>set (detector_events j d). \<not> is_transition e"
    by (auto simp: detector_events_def is_transition_def split: option.splits)
  have eq: "evs = detector_events j d @ es" "sm' = sm4" using assms step(5) by auto
  from step(4) show ?thesis
    by (cases rule: transition_cases) (use dets eq step(6) quiet suspect clear latch in auto)
qed

section \<open>The events of one fix\<close>

lemma handle_events_append:
  "handle_events env fx t g r pre (xs @ ys) fu =
     (let (fu1, o1) = handle_events env fx t g r pre xs fu; (fu2, o2) = handle_events env fx t g r pre ys fu1
      in (fu2, o1 @ o2))"
  by (induction xs arbitrary: fu) (auto simp: Let_def split: prod.splits)

lemma handle_detections:
  assumes "\<forall>e\<in>set dets. \<not> is_transition e"
  shows "handle_events env fx t g r pre dets fu = (fu, map (\<lambda>e. emit e fx r fu) dets)"
  using assms
proof (induction dets)
  case (Cons e dets)
  then have "handle_event env fx t g r pre e fu = (fu, [emit e fx r fu])"
    by (cases e) (auto simp: handle_event_def is_transition_def)
  with Cons show ?case by simp
qed simp

definition forward_fix :: "fusion_env \<Rightarrow> gps_fix \<Rightarrow> fusion \<Rightarrow> fusion" where
  "forward_fix env fx fu =
     (if sm_state (fu_fsm fu) = Normal then fu\<lparr>fu_nav := on_gps_fix (e_math env) fx (fu_nav fu)\<rparr> else fu)"

definition gated_fsm :: "residual \<Rightarrow> fusion \<Rightarrow> state_machine" where
  "gated_fsm r fu =
     set_pos_detectors_enabled (dvel_known r \<or> no_doppler_streak fu < NO_DOPPLER_GATE_STREAK) (fu_fsm fu)"

lemma gated_fsm_frame [simp]:
  "sm_state (gated_fsm r fu) = sm_state (fu_fsm fu)" "sm_cfg (gated_fsm r fu) = sm_cfg (fu_fsm fu)"
  "suspicious_since (gated_fsm r fu) = suspicious_since (fu_fsm fu)"
  by (simp_all add: gated_fsm_def set_pos_detectors_enabled_def Let_def)

lemma fsm_inv_gated: "fsm_inv (fu_fsm fu) \<Longrightarrow> fsm_inv (gated_fsm r fu)"
  unfolding gated_fsm_def using fsm_inv_step [OF fsm_step.pos] by blast

lemma evaluate_fix_cases:
  assumes "evaluate_fix env fx t g r fu = (fu', outs)"
  obtains (quiet) dets fsm2 where
      "fsm_evaluate r t (hdop fx) (sats fx) (gated_fsm r fu) = (dets, fsm2)"
      "sm_state fsm2 = sm_state (fu_fsm fu)"
      "fu' = forward_fix env fx (fu\<lparr>fu_fsm := fsm2\<rparr>)"
      "outs = map (\<lambda>e. emit e fx r (fu\<lparr>fu_fsm := fsm2\<rparr>)) dets"
  | (suspect) evs dets fsm2 where
      "fsm_evaluate r t (hdop fx) (sats fx) (gated_fsm r fu) = (evs, fsm2)"
      "sm_state (fu_fsm fu) = Normal" "sm_state fsm2 = Suspicious"
      "fu' = fu\<lparr>fu_fsm := fsm2, fu_nav := set_state Suspicious (fu_nav fu)\<rparr>"
      "outs = map (\<lambda>e. emit e fx r (fu\<lparr>fu_fsm := fsm2\<rparr>)) dets" "dets \<noteq> []"
  | (veto) evs dets fsm2 dist where
      "fsm_evaluate r t (hdop fx) (sats fx) (gated_fsm r fu) = (evs, fsm2)"
      "sm_state (fu_fsm fu) = Suspicious" "sm_state fsm2 = Normal"
      "validate_fix_against_reference g (dr_pos (fu_nav fu)) (fu_re_anchor_max_distance_m fu) = Inl dist"
      "fu' = fu\<lparr>fu_fsm := force_back_to_suspicious t (suspicious_since (fu_fsm fu)) fsm2\<rparr>"
      "outs = map (\<lambda>e. emit e fx r (fu\<lparr>fu_fsm := fsm2\<rparr>)) dets
         @ [event_of fu' (fix_t fx) KBootAnchorRejected (to_f32 dist)
              (DReAnchorRejected dist (fu_re_anchor_max_distance_m fu))]"
      "\<forall>e\<in>set dets. \<not> is_transition e"
  | (clear) evs dets fsm2 where
      "fsm_evaluate r t (hdop fx) (sats fx) (gated_fsm r fu) = (evs, fsm2)"
      "sm_state (fu_fsm fu) = Suspicious" "sm_state fsm2 = Normal"
      "validate_fix_against_reference g (dr_pos (fu_nav fu)) (fu_re_anchor_max_distance_m fu) = Inr ()"
      "fu' = forward_fix env fx (clear_actions fx (fu\<lparr>fu_fsm := fsm2, fu_nav := set_state Normal (fu_nav fu)\<rparr>))"
      "outs = map (\<lambda>e. emit e fx r (fu\<lparr>fu_fsm := fsm2\<rparr>)) dets" "dets \<noteq> []"
  | (latch) evs dets fsm2 outs' where
      "fsm_evaluate r t (hdop fx) (sats fx) (gated_fsm r fu) = (evs, fsm2)"
      "sm_state (fu_fsm fu) = Suspicious" "sm_state fsm2 = Spoofed"
      "spoofed_actions env fx Suspicious r (EvTransition Suspicious Spoofed)
         (fu\<lparr>fu_fsm := fsm2, fu_nav := set_state Spoofed (fu_nav fu)\<rparr>) = (fu', outs')"
      "outs = map (\<lambda>e. emit e fx r (fu\<lparr>fu_fsm := fsm2\<rparr>)) dets @ outs'" "dets \<noteq> []"
proof -
  obtain evs fsm2 where ev: "fsm_evaluate r t (hdop fx) (sats fx) (gated_fsm r fu) = (evs, fsm2)"
    by (metis surj_pair)
  let ?fu = "fu\<lparr>fu_fsm := fsm2\<rparr>"
  obtain fu1 where h: "handle_events env fx t g r (suspicious_since (fu_fsm fu)) evs ?fu = (fu1, outs)"
    and fu': "fu' = forward_fix env fx fu1"
    using assms ev unfolding evaluate_fix_def gated_fsm_def forward_fix_def Let_def
    by (auto split: prod.splits)
  note one = handle_events_append handle_detections handle_event_def
  from ev show thesis
  proof (cases rule: fsm_evaluate_shape)
    case quiet
    then show ?thesis using that(1) [OF ev] h fu' by (auto simp: handle_detections)
  next
    case (suspect dets)
    have "fu1 = ?fu\<lparr>fu_nav := set_state Suspicious (fu_nav fu)\<rparr>"
      "outs = map (\<lambda>e. emit e fx r ?fu) (dets @ [EvTransition Normal Suspicious])"
      using h suspect by (auto simp: one)
    then show ?thesis using that(2) [OF ev, of "dets @ [EvTransition Normal Suspicious]"] suspect fu'
      by (simp add: forward_fix_def)
  next
    case (clear dets)
    show ?thesis
    proof (cases "validate_fix_against_reference g (dr_pos (fu_nav fu)) (fu_re_anchor_max_distance_m fu)")
      case (Inl dist)
      then have "fu1 = ?fu\<lparr>fu_fsm := force_back_to_suspicious t (suspicious_since (fu_fsm fu)) fsm2\<rparr>"
        "outs = map (\<lambda>e. emit e fx r ?fu) dets @ [event_of fu1 (fix_t fx) KBootAnchorRejected (to_f32 dist)
           (DReAnchorRejected dist (fu_re_anchor_max_distance_m fu1))]"
        using h clear by (auto simp: one Let_def)
      then show ?thesis using that(3) [OF ev _ _ Inl _ _ clear(4)] clear(1,2) fu'
        by (simp add: forward_fix_def force_back_to_suspicious_def)
    next
      case (Inr u)
      then have "fu1 = clear_actions fx (?fu\<lparr>fu_nav := set_state Normal (fu_nav fu)\<rparr>)"
        "outs = map (\<lambda>e. emit e fx r ?fu) (dets @ [EvTransition Suspicious Normal])"
        using h clear by (auto simp: one)
      then show ?thesis using that(4) [OF ev, of "dets @ [EvTransition Suspicious Normal]"] clear fu' Inr by simp
    qed
  next
    case (latch dets)
    obtain fu2 outs' where sp: "spoofed_actions env fx Suspicious r (EvTransition Suspicious Spoofed)
        (?fu\<lparr>fu_nav := set_state Spoofed (fu_nav fu)\<rparr>) = (fu2, outs')" by (metis surj_pair)
    then have "fu1 = fu2" "outs = map (\<lambda>e. emit e fx r ?fu) (dets @ [EvTransition Suspicious Spoofed]) @ outs'"
      using h latch by (auto simp: one)
    moreover have "fu_fsm fu2 = fsm2" using sp
      by (auto simp: spoofed_actions_def maybe_trigger_forensic_dump_def Let_def split: prod.splits option.splits if_splits)
    ultimately show ?thesis using that(5) [OF ev, of outs' "dets @ [EvTransition Suspicious Spoofed]"] latch fu' sp
      by (simp add: forward_fix_def)
  qed
qed

section \<open>The stages before the detector\<close>

definition dump_claimed :: "fusion \<Rightarrow> bool" where
  "dump_claimed fu = (case forensic fu of Some fb \<Rightarrow> dump_fired fb | None \<Rightarrow> False)"

definition same_core :: "fusion \<Rightarrow> fusion \<Rightarrow> bool" where
  "same_core fu fu' \<longleftrightarrow>
     fu_nav fu' = fu_nav fu \<and> fu_buffer fu' = fu_buffer fu \<and> fu_boot fu' = fu_boot fu
     \<and> preflight fu' = preflight fu \<and> checklist fu' = checklist fu
     \<and> fu_gps_dropout_freeze_s fu' = fu_gps_dropout_freeze_s fu
     \<and> fu_re_anchor_max_distance_m fu' = fu_re_anchor_max_distance_m fu
     \<and> sm_state (fu_fsm fu') = sm_state (fu_fsm fu) \<and> sm_cfg (fu_fsm fu') = sm_cfg (fu_fsm fu)
     \<and> suspicious_since (fu_fsm fu') = suspicious_since (fu_fsm fu)
     \<and> (fsm_inv (fu_fsm fu) \<longrightarrow> fsm_inv (fu_fsm fu'))
     \<and> dump_claimed fu' = dump_claimed fu \<and> (forensic fu' = None \<longleftrightarrow> forensic fu = None)
     \<and> forensic_dir fu' = forensic_dir fu"

definition observation :: "fusion_out \<Rightarrow> bool" where
  "observation out = (case out of
     OEvent ev \<Rightarrow> ev_kind ev \<in> {KDwellPauseExceeded, KFrozenGps, KJump, KSyncWarning} | _ \<Rightarrow> False)"

lemma same_core_refl [simp]: "same_core fu fu"
  by (simp add: same_core_def)

lemma same_core_trans: "same_core a b \<Longrightarrow> same_core b c \<Longrightarrow> same_core a c"
  by (simp add: same_core_def)

lemma observation_event [simp]:
  "observation (event_of fu t k r d) \<longleftrightarrow> k \<in> {KDwellPauseExceeded, KFrozenGps, KJump, KSyncWarning}"
  by (simp add: observation_def event_of_def spoofing_event_new_def)

lemma fsm_notes_inv:
  "fsm_inv sm \<Longrightarrow> fsm_inv (note_dropout_recovery sm)" "fsm_inv sm \<Longrightarrow> fsm_inv (note_external_anomaly sm)"
  "fsm_inv sm \<Longrightarrow> fsm_inv (sm\<lparr>dwell_pause_exceeded_pending := False\<rparr>)"
  "fsm_inv sm \<Longrightarrow> fsm_inv (on_clean_anchor sm)" "fsm_inv sm \<Longrightarrow> fsm_inv (manual_reset_to_normal sm)"
  "fsm_inv sm \<Longrightarrow> fsm_inv (commit_susp_to_normal sm)" "fsm_inv sm \<Longrightarrow> fsm_inv (force_back_to_suspicious t p sm)"
  by (auto dest: fsm_inv_step [OF fsm_step.dropout] fsm_inv_step [OF fsm_step.external] fsm_inv_step [OF fsm_step.taken]
      fsm_inv_step [OF fsm_step.anchor] fsm_inv_step [OF fsm_step.reset] fsm_inv_step [OF fsm_step.commit]
      fsm_inv_step [OF fsm_step.force])

lemma fsm_notes_state [simp]:
  "sm_state (note_dropout_recovery sm) = sm_state sm" "sm_state (note_external_anomaly sm) = sm_state sm"
  "sm_cfg (note_dropout_recovery sm) = sm_cfg sm" "sm_cfg (note_external_anomaly sm) = sm_cfg sm"
  "suspicious_since (note_dropout_recovery sm) = suspicious_since sm"
  "suspicious_since (note_external_anomaly sm) = suspicious_since sm"
  "sm_state (on_clean_anchor sm) = sm_state sm" "sm_cfg (on_clean_anchor sm) = sm_cfg sm"
  "sm_state (manual_reset_to_normal sm) = Normal" "sm_cfg (manual_reset_to_normal sm) = sm_cfg sm"
  "sm_state (commit_susp_to_normal sm) = sm_state sm" "sm_cfg (commit_susp_to_normal sm) = sm_cfg sm"
  "sm_cfg (force_back_to_suspicious t p sm) = sm_cfg sm"
  by (simp_all add: note_dropout_recovery_def note_external_anomaly_def on_clean_anchor_def
      manual_reset_to_normal_def commit_susp_to_normal_def force_back_to_suspicious_def)

lemma note_dropout_core:
  "note_dropout fx t fu = (fu', outs) \<Longrightarrow> same_core fu fu' \<and> (\<forall>x\<in>set outs. observation x)"
  by (auto simp: note_dropout_def same_core_def dump_claimed_def fsm_notes_inv Let_def split: if_splits)

lemma restart_frozen_core [simp]: "same_core fu (restart_frozen fx fu)"
  by (simp add: restart_frozen_def same_core_def dump_claimed_def)

lemma forensic_fix_core [simp]: "same_core fu (forensic_fix fx t r fu)"
  by (simp add: forensic_fix_def same_core_def dump_claimed_def push_gps_def push_residual_def split: option.split)

lemma frozen_decision_core:
  "frozen_decision fx gap v r fu = Some (fu', outs) \<Longrightarrow> same_core fu fu' \<and> (\<forall>x\<in>set outs. observation x)"
  by (auto simp: frozen_decision_def frozen_accrue_def same_core_def dump_claimed_def fsm_notes_inv Let_def
      split: if_splits option.splits)

lemma vertical_check_core:
  "vertical_check fx t r fu = (fu', outs) \<Longrightarrow> same_core fu fu' \<and> (\<forall>x\<in>set outs. observation x)"
  by (auto simp: vertical_check_def same_core_def dump_claimed_def fsm_notes_inv Let_def
      split: if_splits option.splits prod.splits)

lemma doppler_streak_core:
  "doppler_streak fx r fu = (fu', outs) \<Longrightarrow> same_core fu fu' \<and> (\<forall>x\<in>set outs. observation x)"
  by (auto simp: doppler_streak_def same_core_def dump_claimed_def Let_def split: if_splits)

lemma ready_fix_cases:
  assumes "ready_fix env fx g fu = Some (fu', outs)"
  obtains (sync) e fu2 o1 where "same_core fu fu2" "\<forall>x\<in>set o1. observation x"
      "fu' = fu2\<lparr>fu_nav := on_gps_fix (e_math env) fx (fu_nav fu2)\<rparr>"
      "outs = o1 @ [event_of fu2 (fix_t fx) KSyncWarning (FNum 0) (DSync e)]"
  | (evaluated) r fu2 o1 o2 where "same_core fu fu2" "\<forall>x\<in>set o1. observation x"
      "evaluate_fix env fx (fu_secs fu (mono (fix_t fx))) g r fu2 = (fu', o2)" "outs = o1 @ o2"
proof -
  let ?t = "fu_secs fu (mono (fix_t fx))"
  obtain fu1 o1 where nd: "note_dropout fx ?t fu = (fu1, o1)" by (metis surj_pair)
  define fu2 where "fu2 = (if frozen_candidate env fx fu1 then fu1 else restart_frozen fx fu1)"
  have c1: "same_core fu fu1" and ob1: "\<forall>x\<in>set o1. observation x" using note_dropout_core [OF nd] by auto
  have c2: "same_core fu fu2"
    unfolding fu2_def by (simp add: c1 same_core_trans [OF c1 restart_frozen_core])
  note eq = assms [unfolded ready_fix_def Let_def nd, simplified, folded fu2_def]
  show thesis
  proof (cases "interpolate (fu_buffer fu2) ?t")
    case (Inl e)
    then show ?thesis using eq by (intro sync [OF c2 ob1]) auto
  next
    case (Inr pv)
    obtain p v where pv: "pv = (p, v)" by force
    define r where "r = residual_of env fx g p v (fu_nav fu2)"
    define dec where "dec = (if frozen_candidate env fx fu1
        then frozen_decision fx (dropout_gap ?t fu) v r (forensic_fix fx ?t r fu2)
        else Some (forensic_fix fx ?t r fu2, []))"
    note eq2 = eq [unfolded Inr pv sum.case prod.case, folded r_def, folded dec_def]
    then obtain fu4 o2 where d: "dec = Some (fu4, o2)" by (cases dec) auto
    then have c4: "same_core fu fu4" and ob2: "\<forall>x\<in>set o2. observation x"
      using same_core_trans [OF c2 forensic_fix_core] same_core_trans frozen_decision_core
      by (auto simp: dec_def split: if_splits) blast+
    obtain fu5 o3 where v: "vertical_check fx ?t r fu4 = (fu5, o3)" by (metis surj_pair)
    obtain fu6 o4 where dp: "doppler_streak fx r fu5 = (fu6, o4)" by (metis surj_pair)
    obtain fu7 o5 where e: "evaluate_fix env fx ?t g r fu6 = (fu7, o5)" by (metis surj_pair)
    have "same_core fu fu6"
      using same_core_trans [OF c4] same_core_trans vertical_check_core [OF v] doppler_streak_core [OF dp] by blast
    moreover have "fu' = fu7" "outs = (o1 @ o2 @ o3 @ o4) @ o5" using eq2 d v dp e by auto
    ultimately show ?thesis
      using evaluated [of fu6 "o1 @ o2 @ o3 @ o4" r o5] ob1 ob2 vertical_check_core [OF v] doppler_streak_core [OF dp] e
      by auto
  qed
qed

end
