(* ===== verification/Fusion_Safety.thy ===== *)
theory Fusion_Safety
  imports Fusion_Trace
begin

text \<open>
  The properties of the fusion task: what it does on the transition to Spoofed, what it
  refuses, and what holds along every run of its loop.
\<close>

section \<open>One fix\<close>

lemma on_gps_cases:
  assumes "on_gps env fx fu = Some (fu', outs)"
  obtains (rejected) dist where "origin (fu_nav fu) = None"
      "is_first_fix_plausible (e_math env) fx (fu_nav fu) = Inl dist" "fu' = fu"
      "outs = [event_of fu (fix_t fx) KBootAnchorRejected (to_f32 dist) (DBootRejected (lat_deg fx) (lon_deg fx) dist)]"
  | (first) "origin (fu_nav fu) = None" "is_first_fix_plausible (e_math env) fx (fu_nav fu) = Inr ()"
      "refresh_preflight env (fu_secs fu (mono (fix_t fx))) (fix_t fx)
         (fu\<lparr>fu_nav := on_gps_fix (e_math env) fx (fu_nav fu),
             checklist := (checklist fu)\<lparr>first_fix_accepted := True\<rparr>\<rparr>) = (fu', outs)"
  | (gated) g where "gps_in_ned (e_math env) fx (fu_nav fu) = Some g" "preflight fu \<noteq> Ready"
      "preflight_fix env fx fu = (fu', outs)"
  | (ready) g where "gps_in_ned (e_math env) fx (fu_nav fu) = Some g" "preflight fu = Ready"
      "ready_fix env fx g fu = Some (fu', outs)"
proof (cases "gps_in_ned (e_math env) fx (fu_nav fu)")
  case None
  then have o: "origin (fu_nav fu) = None" by (simp add: gps_in_ned_def)
  show ?thesis
  proof (cases "is_first_fix_plausible (e_math env) fx (fu_nav fu)")
    case (Inl dist)
    then show ?thesis using assms None rejected [OF o Inl] by (auto simp: on_gps_def first_fix_def)
  next
    case (Inr u)
    then show ?thesis using assms None first [OF o] by (simp add: on_gps_def first_fix_def)
  qed
next
  case (Some g)
  then show ?thesis using assms gated [OF Some] ready [OF Some]
    by (auto simp: on_gps_def split: if_splits)
qed

definition acts :: "fusion_out list \<Rightarrow> action list" where
  "acts outs = List.map_filter (\<lambda>x. case x of OAction a \<Rightarrow> Some a | _ \<Rightarrow> None) outs"

lemma acts_simps [simp]:
  "acts [] = []" "acts (OAction a # xs) = a # acts xs" "acts (OEvent e # xs) = acts xs"
  "acts (OSpawnDump s # xs) = acts xs" "acts (OSpawnVerifySever t st # xs) = acts xs"
  "acts (OSpawnVerifyRtb t st # xs) = acts xs" "acts (xs @ ys) = acts xs @ acts ys"
  "acts (event_of fu t k r d # xs) = acts xs"
  by (simp_all add: acts_def List.map_filter_def event_of_def)

lemma acts_observations: "\<forall>x\<in>set xs. observation x \<Longrightarrow> acts xs = []"
proof (induction xs)
  case (Cons x xs)
  then show ?case by (cases x) (auto simp: observation_def)
qed simp

lemma acts_emit: "acts (map (\<lambda>e. emit e fx r fu) dets) = []"
  by (induction dets) (simp_all add: emit_def Let_def case_prod_beta)

lemma refresh_preflight_acts: "refresh_preflight env t s fu = (fu', outs) \<Longrightarrow> acts outs = []"
  by (auto simp: refresh_preflight_def Let_def split: if_splits)

lemma refresh_preflight_frame:
  assumes "refresh_preflight env t s fu = (fu', outs)"
  shows "fu_fsm fu' = fu_fsm fu" "fu_nav fu' = fu_nav fu" "fu_buffer fu' = fu_buffer fu" "fu_boot fu' = fu_boot fu"
    "forensic fu' = forensic fu"
    "static_init_done (checklist fu') = static_init_done (checklist fu)"
    "first_fix_accepted (checklist fu') = first_fix_accepted (checklist fu)"
  using assms by (auto simp: refresh_preflight_def preflight_facts_def Let_def split: if_splits)

definition sever_outs :: "fusion_env \<Rightarrow> gps_fix \<Rightarrow> f32 \<Rightarrow> fusion \<Rightarrow> fusion_out list" where
  "sever_outs env fx res fu = (case e_ctl env SeverGps of
     Inr _ \<Rightarrow> [OAction SeverGps]
   | Inl e \<Rightarrow> [OAction SeverGps, event_of fu (fix_t fx) KActionFailed (FNum 0) (DActionError ''sever_gps'' e),
              event_of fu (fix_t fx) KActionFailed res DSeverCritical])"

definition rtb_outs :: "fusion_env \<Rightarrow> gps_fix \<Rightarrow> fusion \<Rightarrow> fusion_out list" where
  "rtb_outs env fx fu = OAction EngageRtb # (case e_ctl env EngageRtb of
     Inr _ \<Rightarrow> []
   | Inl e \<Rightarrow> [event_of fu (fix_t fx) KActionFailed (FNum 0) (DActionError ''engage_rtb'' e)])"

lemma dump_shape:
  assumes "maybe_trigger_forensic_dump env from r ev fu = (fu', outs)"
  shows "acts outs = []" "fu_fsm fu' = fu_fsm fu" "fu_nav fu' = fu_nav fu" "fu_boot fu' = fu_boot fu"
    "fu_buffer fu' = fu_buffer fu" "preflight fu' = preflight fu" "checklist fu' = checklist fu" "length outs \<le> 1"
  using assms by (auto simp: maybe_trigger_forensic_dump_def Let_def split: option.splits prod.splits if_splits)

lemma event_of_cong: "sm_state (fu_fsm fu) = sm_state (fu_fsm fu') \<Longrightarrow> fu_boot fu = fu_boot fu' \<Longrightarrow> event_of fu = event_of fu'"
  by (simp add: event_of_def fun_eq_iff)

lemma spoofed_actions_shape:
  assumes "spoofed_actions env fx from r ev fu = (fu', outs)"
  obtains dump where "maybe_trigger_forensic_dump env from r ev fu = (fu', dump)"
    "outs = dump @ sever_outs env fx (to_f32 (mag_pos r)) fu' @ rtb_outs env fx fu'
       @ [OSpawnVerifySever (fix_t fx) (sm_state (fu_fsm fu')), OSpawnVerifyRtb (fix_t fx) (sm_state (fu_fsm fu'))]"
  using assms
  by (auto simp: spoofed_actions_def try_action_result_def sever_outs_def rtb_outs_def Let_def
      split: prod.splits sum.splits if_splits)

lemma acts_response: "acts (sever_outs env fx res fu) = [SeverGps]" "acts (rtb_outs env fx fu) = [EngageRtb]"
  by (simp_all add: sever_outs_def rtb_outs_def split: sum.split)

lemma forward_fix_frame [simp]:
  "fu_fsm (forward_fix env fx fu) = fu_fsm fu" "fu_boot (forward_fix env fx fu) = fu_boot fu"
  "preflight (forward_fix env fx fu) = preflight fu" "fu_buffer (forward_fix env fx fu) = fu_buffer fu"
  "checklist (forward_fix env fx fu) = checklist fu" "forensic (forward_fix env fx fu) = forensic fu"
  by (simp_all add: forward_fix_def)

lemma clear_actions_frame [simp]:
  "fu_fsm (clear_actions fx fu) = commit_susp_to_normal (fu_fsm fu)" "fu_boot (clear_actions fx fu) = fu_boot fu"
  "preflight (clear_actions fx fu) = preflight fu" "fu_buffer (clear_actions fx fu) = buffer_clear (fu_buffer fu)"
  "checklist (clear_actions fx fu) = checklist fu" "forensic (clear_actions fx fu) = forensic fu"
  "fu_nav (clear_actions fx fu) = re_anchor_after_clearing fx (fu_nav fu)"
  by (simp_all add: clear_actions_def)

lemma evaluate_fix_acts:
  assumes "evaluate_fix env fx t g r fu = (fu', outs)"
  shows "acts outs = (if sm_state (fu_fsm fu) \<noteq> Spoofed \<and> sm_state (fu_fsm fu') = Spoofed then [SeverGps, EngageRtb] else [])"
  using assms
proof (cases rule: evaluate_fix_cases)
  case (veto evs dets fsm2 dist)
  then show ?thesis by (simp add: acts_emit force_back_to_suspicious_def)
next
  case (latch evs dets fsm2 outs')
  from latch(4) obtain dump where d: "maybe_trigger_forensic_dump env Suspicious r (EvTransition Suspicious Spoofed)
      (fu\<lparr>fu_fsm := fsm2, fu_nav := set_state Spoofed (fu_nav fu)\<rparr>) = (fu', dump)"
    "outs' = dump @ sever_outs env fx (to_f32 (mag_pos r)) fu' @ rtb_outs env fx fu'
       @ [OSpawnVerifySever (fix_t fx) (sm_state (fu_fsm fu')), OSpawnVerifyRtb (fix_t fx) (sm_state (fu_fsm fu'))]"
    by (rule spoofed_actions_shape)
  then show ?thesis using latch(2,3,5) dump_shape [OF d(1)] by (simp add: acts_emit acts_response)
qed (simp_all add: acts_emit)

lemma preflight_fix_shape:
  assumes "preflight_fix env fx fu = (fu', outs)"
  shows "acts outs = []" "sm_state (fu_fsm fu') = sm_state (fu_fsm fu)" "fu_boot fu' = fu_boot fu"
    "sm_cfg (fu_fsm fu') = sm_cfg (fu_fsm fu)" "fsm_inv (fu_fsm fu) \<Longrightarrow> fsm_inv (fu_fsm fu')"
  using assms refresh_preflight_acts refresh_preflight_frame fsm_notes_inv
  by (auto simp: preflight_fix_def Let_def split: prod.splits if_splits)

lemma on_gps_acts:
  assumes "on_gps env fx fu = Some (fu', outs)"
  shows "acts outs = (if sm_state (fu_fsm fu) \<noteq> Spoofed \<and> sm_state (fu_fsm fu') = Spoofed then [SeverGps, EngageRtb] else [])"
  using assms
proof (cases rule: on_gps_cases)
  case first
  then show ?thesis using refresh_preflight_acts refresh_preflight_frame(1) by fastforce
next
  case (gated g)
  then show ?thesis using preflight_fix_shape by simp
next
  case (ready g)
  from ready(3) show ?thesis
  proof (cases rule: ready_fix_cases)
    case (sync e fu2 o1)
    then show ?thesis by (simp add: acts_observations same_core_def)
  next
    case (evaluated r fu2 o1 o2)
    then show ?thesis using evaluate_fix_acts [OF evaluated(3)] by (simp add: acts_observations same_core_def)
  qed
qed simp_all

section \<open>A bench\<close>

text \<open>A task in flight, twelve seconds after boot, and an environment, for the witnesses.\<close>

definition bench_fix :: gps_fix where
  "bench_fix = toy_fix\<lparr>fix_t := at_mono (12 * 10 ^ 9)\<rparr>"

definition bench_env :: fusion_env where
  "bench_env = \<lparr>e_math = toy_math, e_now = 12 * 10 ^ 9, e_utc_now = 0,
     e_attestation = \<lparr>crate_version = ''0.1.0'', binary_sha256 = None, host_os = ''linux'', host_arch = ''aarch64''\<rparr>,
     e_monitor = monitor_new, e_ctl = \<lambda>_. Inr ()\<rparr>"

definition zero_snap :: residual_buffer where
  "zero_snap = \<lparr>buf = [\<lparr>mono_secs = FNum 1, snap_pos = ned_default, snap_vel = ned_default\<rparr>],
     capacity = 4, window_secs = FNum 2, max_extrapolation_s = FNum 100\<rparr>"

definition bench :: "u16 \<Rightarrow> state_machine \<Rightarrow> fusion" where
  "bench n sm = \<lparr>fu_nav = (dr_new nav_config_default 0)\<lparr>initialized := True, anchor_locked := True,
       origin := Some (FNum 47, FNum 8, FNum 400), dr_state := sm_state sm\<rparr>,
     fu_fsm = sm, fu_buffer = zero_snap, fu_boot = 0, last_gps_t_secs = None,
     fu_gps_dropout_freeze_s = FNum 2, fu_re_anchor_max_distance_m = FNum 500, no_doppler_streak = n,
     frozen_anchor_lla = None, frozen_fix_streak = 0, frozen_imu_displacement_m = FNum 0, last_gps_alt = None,
     fu_max_vertical_rate_mps = FNum 30, preflight = Ready,
     checklist = \<lparr>static_init_done = True, first_fix_accepted = True, heartbeat_seen = True, autopilot_matches = True\<rparr>,
     mav_wired = False, expected_autopilot = None, last_preflight_failed_emit_s = FNInf,
     forensic = None, forensic_dir = None\<rparr>"

definition suspect_machine :: state_machine where
  "suspect_machine = (fsm_new detect_config_default)\<lparr>sm_state := Suspicious, suspicious_since := Some (FNum 1),
     external_anomaly := True\<rparr>"

lemma bench_time: "fix_t fx = at_mono (12 * 10 ^ 9) \<Longrightarrow> fu_secs (bench n sm) (mono (fix_t fx)) = FNum 12"
  by (simp add: fu_secs_def bench_def at_mono_def saturating_duration_since_def
      as_secs_f64_def of_int_fl_def fdiv_FNum fadd_FNum)

lemma bench_interpolates: "interpolate zero_snap (FNum 12) = Inr (ned_default, ned_default)"
proof -
  have "fin_in (1 - 1) (1 - 0) (fsub B64 (FNum 1) back_tolerance)"
    using bound_ok_int [of B64 0] bound_ok_int [of B64 1] back_tolerance_in
    by (intro fsub_in) simp_all
  then have "\<not> flt (FNum 12) (fsub B64 (FNum 1) back_tolerance)"
    by (cases "fsub B64 (FNum 1) back_tolerance") (auto simp: fin_in_def)
  then show ?thesis
    by (simp add: interpolate_def zero_snap_def outside_def extrapolate_def ned_default_def fadd_FNum fmul_FNum fsub_FNum Let_def)
qed

text \<open>The bench reaches the detector with the machine it was given.\<close>

lemma bench_evaluates:
  assumes "\<not> dwell_pause_exceeded_pending sm" and t: "fix_t fx = at_mono (12 * 10 ^ 9)"
    and n: "saturating_add n 1 \<noteq> 10"
    and g: "gps_in_ned (e_math bench_env) fx (fu_nav (bench n sm)) = Some g"
    and r: "r = residual_of bench_env fx g ned_default ned_default (fu_nav (bench n sm))"
  obtains fu2 where "same_core (bench n sm) fu2" "fu_fsm fu2 = sm" "forensic fu2 = None"
    "no_doppler_streak fu2 = (if dvel_known r then 0 else saturating_add n 1)"
    "on_gps bench_env fx (bench n sm) = Some (evaluate_fix bench_env fx (FNum 12) g r fu2)"
proof -
  let ?fu1 = "(bench n sm)\<lparr>last_gps_t_secs := Some (FNum 12)\<rparr>"
  have nd: "note_dropout fx (FNum 12) (bench n sm) = (?fu1, [])"
    using assms by (simp add: note_dropout_def dropout_gap_def bench_def)
  let ?fu2 = "restart_frozen fx ?fu1"
  have fc: "\<not> frozen_candidate bench_env fx ?fu1" by (simp add: frozen_candidate_def bench_def)
  let ?fu6 = "?fu2\<lparr>last_gps_alt := Some (alt_m fx, FNum 12), no_doppler_streak := (if dvel_known r then 0 else saturating_add n 1)\<rparr>"
  have i2: "interpolate (fu_buffer ?fu2) (FNum 12) = Inr (ned_default, ned_default)"
    using bench_interpolates by (simp add: restart_frozen_def bench_def)
  have r2: "residual_of bench_env fx g ned_default ned_default (fu_nav ?fu2) = r"
    by (simp add: r restart_frozen_def)
  have ff: "forensic_fix fx (FNum 12) r ?fu2 = ?fu2"
    by (simp add: forensic_fix_def restart_frozen_def bench_def)
  have v: "vertical_check fx (FNum 12) r ?fu2 = (?fu2\<lparr>last_gps_alt := Some (alt_m fx, FNum 12)\<rparr>, [])"
    by (simp add: vertical_check_def restart_frozen_def bench_def)
  have d: "doppler_streak fx r (?fu2\<lparr>last_gps_alt := Some (alt_m fx, FNum 12)\<rparr>) = (?fu6, [])"
    using n by (simp add: doppler_streak_def restart_frozen_def bench_def Let_def)
  have "ready_fix bench_env fx g (bench n sm) = Some (evaluate_fix bench_env fx (FNum 12) g r ?fu6)"
    using fc i2 r2 ff v d
    unfolding ready_fix_def Let_def bench_time [OF t] nd prod.case if_not_P [OF fc]
    by (simp add: case_prod_beta)
  moreover have "preflight (bench n sm) = Ready" by (simp add: bench_def)
  ultimately have "on_gps bench_env fx (bench n sm) = Some (evaluate_fix bench_env fx (FNum 12) g r ?fu6)"
    using g by (simp add: on_gps_def)
  moreover have "same_core (bench n sm) ?fu6" "fu_fsm ?fu6 = sm" "forensic ?fu6 = None"
    by (simp_all add: same_core_def restart_frozen_def dump_claimed_def bench_def)
  ultimately show ?thesis by (intro that [of ?fu6]) simp_all
qed

lemma bench_origin: "\<exists>g. gps_in_ned (e_math bench_env) fx (fu_nav (bench n sm)) = Some g"
  by (simp add: bench_def gps_in_ned_def dr_new_def)

lemma bench_latches:
  "\<exists>fu' outs. on_gps bench_env bench_fix (bench 0 suspect_machine) = Some (fu', outs) \<and> sm_state (fu_fsm fu') = Spoofed"
proof -
  obtain g where g: "gps_in_ned (e_math bench_env) bench_fix (fu_nav (bench 0 suspect_machine)) = Some g"
    using bench_origin by blast
  define r where "r = residual_of bench_env bench_fix g ned_default ned_default (fu_nav (bench 0 suspect_machine))"
  have known: "dvel_known r"
    by (simp add: r_def residual_of_def gps_velocity_def bench_fix_def toy_fix_def case_prod_beta Let_def)
  have "\<not> dwell_pause_exceeded_pending suspect_machine" "saturating_add 0 (1 :: u16) \<noteq> 10"
    "fix_t bench_fix = at_mono (12 * 10 ^ 9)"
    by (simp_all add: suspect_machine_def fsm_new_def saturating_add_def bench_fix_def)
  then obtain fu2 where b: "fu_fsm fu2 = suspect_machine" "no_doppler_streak fu2 = 0"
    "on_gps bench_env bench_fix (bench 0 suspect_machine) = Some (evaluate_fix bench_env bench_fix (FNum 12) g r fu2)"
    using bench_evaluates [OF _ _ _ g r_def] known by metis
  obtain fu' outs where e: "evaluate_fix bench_env bench_fix (FNum 12) g r fu2 = (fu', outs)" by (metis surj_pair)
  have gated: "gated_fsm r fu2 = suspect_machine"
    using b by (simp add: gated_fsm_def set_pos_detectors_enabled_def NO_DOPPLER_GATE_STREAK_def suspect_machine_def fsm_new_def)
  let ?x = "\<lparr>fx_dropout = False, fx_external = True, fx_r = r, fx_t = FNum 12, fx_hdop = hdop bench_fix, fx_sats = sats bench_fix\<rparr>"
  have "fsm_notes ?x suspect_machine = suspect_machine"
    by (simp add: fsm_notes_def note_external_anomaly_def suspect_machine_def)
  then have "sm_state (snd (fsm_evaluate r (FNum 12) (hdop bench_fix) (sats bench_fix) (gated_fsm r fu2))) = Spoofed"
    using external_step [of ?x suspect_machine "FNum 1" "[]"]
    by (simp add: gated stalled_def suspect_machine_def fsm_fix_step_def fsub_FNum fsm_new_def)
  moreover have "sm_state (fu_fsm fu2) = Suspicious" by (simp add: b suspect_machine_def)
  ultimately have "sm_state (fu_fsm fu') = Spoofed"
  proof (cases rule: evaluate_fix_cases [OF e])
    case (5 evs dets fsm2 outs')
    from 5(4) obtain dump where "maybe_trigger_forensic_dump bench_env Suspicious r (EvTransition Suspicious Spoofed)
      (fu2\<lparr>fu_fsm := fsm2, fu_nav := set_state Spoofed (fu_nav fu2)\<rparr>) = (fu', dump)" by (rule spoofed_actions_shape)
    from dump_shape(2) [OF this] 5(3) show ?thesis by simp
  qed auto
  then show ?thesis using b e by auto
qed

section \<open>Properties of one fix\<close>

text \<open>
  C1. The response to a spoof is complete and in order. On every fix that moves the task
  to Spoofed, the outputs end with: the forensic dump (when configured; spawned once,
  reported suppressed afterwards), the command to sever GPS, then the command to return to
  base whatever the first one answered, then both read-back verifications. When severing
  fails, the error and the CRITICAL warning are broadcast before the return-to-base
  command is sent. Nothing earlier in the outputs is an action.
\<close>

theorem escalation_response:
  assumes "on_gps env fx fu = Some (fu', outs)"
    and "sm_state (fu_fsm fu) \<noteq> Spoofed" and "sm_state (fu_fsm fu') = Spoofed"
  shows "\<exists>pre dump res. outs = pre @ dump @ sever_outs env fx res fu' @ rtb_outs env fx fu'
      @ [OSpawnVerifySever (fix_t fx) Spoofed, OSpawnVerifyRtb (fix_t fx) Spoofed]
    \<and> acts pre = [] \<and> acts dump = [] \<and> length dump = (if forensic fu = None \<or> forensic_dir fu = None then 0 else 1)
    \<and> ((\<exists>snap. dump = [OSpawnDump snap]) \<longleftrightarrow> forensic fu \<noteq> None \<and> forensic_dir fu \<noteq> None \<and> \<not> dump_claimed fu)
    \<and> (dump = [] \<or> dump_claimed fu')"
proof -
  obtain g r fu2 o1 o2 where c: "same_core fu fu2" "\<forall>x\<in>set o1. observation x"
    "evaluate_fix env fx (fu_secs fu (mono (fix_t fx))) g r fu2 = (fu', o2)" "outs = o1 @ o2"
    using assms(1)
  proof (cases rule: on_gps_cases)
    case first
    then show ?thesis using assms(2,3) refresh_preflight_frame(1) by fastforce
  next
    case (gated g)
    then show ?thesis using assms(2,3) preflight_fix_shape(2) by simp
  next
    case (ready g)
    from ready(3) show ?thesis
      by (cases rule: ready_fix_cases) (use assms(2,3) that in \<open>auto simp: same_core_def\<close>)
  qed (use assms in simp)
  have st: "sm_state (fu_fsm fu2) \<noteq> Spoofed" "dump_claimed fu2 = dump_claimed fu"
    "forensic fu2 = None \<longleftrightarrow> forensic fu = None" "forensic_dir fu2 = forensic_dir fu"
    using c(1) assms(2) by (auto simp: same_core_def)
  from c(3) show ?thesis
  proof (cases rule: evaluate_fix_cases)
    case (latch evs dets fsm2 outs')
    let ?fu3 = "fu2\<lparr>fu_fsm := fsm2, fu_nav := set_state Spoofed (fu_nav fu2)\<rparr>"
    obtain dump where d: "maybe_trigger_forensic_dump env Suspicious r (EvTransition Suspicious Spoofed) ?fu3 = (fu', dump)"
      "outs' = dump @ sever_outs env fx (to_f32 (mag_pos r)) fu' @ rtb_outs env fx fu'
         @ [OSpawnVerifySever (fix_t fx) (sm_state (fu_fsm fu')), OSpawnVerifyRtb (fix_t fx) (sm_state (fu_fsm fu'))]"
      using latch(4) by (rule spoofed_actions_shape)
    have "outs = (o1 @ map (\<lambda>e. emit e fx r (fu2\<lparr>fu_fsm := fsm2\<rparr>)) dets) @ dump
        @ sever_outs env fx (to_f32 (mag_pos r)) fu' @ rtb_outs env fx fu'
        @ [OSpawnVerifySever (fix_t fx) Spoofed, OSpawnVerifyRtb (fix_t fx) Spoofed]"
      using c(4) latch(5) d(2) assms(3) by simp
    moreover have "acts (o1 @ map (\<lambda>e. emit e fx r (fu2\<lparr>fu_fsm := fsm2\<rparr>)) dets) = []"
      using acts_observations [OF c(2)] by (simp add: acts_emit)
    moreover have "length dump = (if forensic fu = None \<or> forensic_dir fu = None then 0 else 1)
        \<and> ((\<exists>snap. dump = [OSpawnDump snap]) \<longleftrightarrow> forensic fu \<noteq> None \<and> forensic_dir fu \<noteq> None \<and> \<not> dump_claimed fu)
        \<and> (dump = [] \<or> dump_claimed fu')"
      using d(1) st(2-4)
      by (auto simp: maybe_trigger_forensic_dump_def try_claim_dump_def dump_claimed_def Let_def
          split: option.splits if_splits)
    ultimately show ?thesis using dump_shape(1) [OF d(1)] by blast
  qed (use assms(3) st(1) in \<open>simp_all add: force_back_to_suspicious_def\<close>)
qed

theorem escalation_response_witness:
  "\<exists>fu' outs pre dump res. on_gps bench_env bench_fix (bench 0 suspect_machine) = Some (fu', outs)
    \<and> outs = pre @ dump @ sever_outs bench_env bench_fix res fu' @ rtb_outs bench_env bench_fix fu'
        @ [OSpawnVerifySever (fix_t bench_fix) Spoofed, OSpawnVerifyRtb (fix_t bench_fix) Spoofed]"
proof -
  obtain fu' outs where o: "on_gps bench_env bench_fix (bench 0 suspect_machine) = Some (fu', outs)"
    "sm_state (fu_fsm fu') = Spoofed" using bench_latches by blast
  have "sm_state (fu_fsm (bench 0 suspect_machine)) \<noteq> Spoofed" by (simp add: bench_def suspect_machine_def)
  from escalation_response [OF o(1) this o(2)] o(1) show ?thesis by blast
qed

lemma on_gps_fix_frame [simp]:
  "dr_state (on_gps_fix mm fx d) = dr_state d" "initialized (on_gps_fix mm fx d) = initialized d"
  "dr_boot (on_gps_fix mm fx d) = dr_boot d" "origin (on_gps_fix mm fx d) = None \<longleftrightarrow> anchor_locked d \<and> origin d = None"
  "dr_cfg (on_gps_fix mm fx d) = dr_cfg d"
  by (auto simp: on_gps_fix_def anchor_def seed_yaw_def blend_def Let_def split: option.splits)

text \<open>A fix gives an unlocked reckoner its origin and leaves a locked one its own.\<close>

lemma on_gps_fix_origin:
  "origin (on_gps_fix mm fx d) = (if anchor_locked d then origin d else Some (lat_deg fx, lon_deg fx, alt_m fx))"
  by (auto simp: on_gps_fix_def anchor_def seed_yaw_def blend_def set_vel_def Let_def split: option.splits)

lemma re_anchor_origin [simp]:
  "origin (re_anchor_after_clearing fx d) = Some (lat_deg fx, lon_deg fx, alt_m fx)"
  by (simp add: re_anchor_after_clearing_def)

text \<open>
  C12. An alarm is cleared only on a plausible fix: when a fix takes the task from
  Suspicious to Normal, its horizontal distance from the dead-reckoned position is within
  the configured limit; the buffer is then empty, the origin is that fix, both detectors are
  reset (no accumulated drift evidence, no counted velocity mismatch), and the next episode
  has its whole pause budget. It holds in every state of the task, its anchor locked or not.
\<close>

theorem clear_only_near_dead_reckoning:
  assumes "on_gps env fx fu = Some (fu', outs)"
    and "sm_state (fu_fsm fu) = Suspicious" and "sm_state (fu_fsm fu') = Normal"
  shows "\<exists>g. gps_in_ned (e_math env) fx (fu_nav fu) = Some g
    \<and> validate_fix_against_reference g (dr_pos (fu_nav fu)) (fu_re_anchor_max_distance_m fu) = Inr ()
    \<and> buffer_is_empty (fu_buffer fu') \<and> origin (fu_nav fu') = Some (lat_deg fx, lon_deg fx, alt_m fx)
    \<and> sm_drift (fu_fsm fu') = drift_reset (sm_drift (fu_fsm fu')) \<and> dd_state (sm_drift (fu_fsm fu')) = cusum_default
    \<and> consecutive_vmismatch (sm_jump (fu_fsm fu')) = 0
    \<and> paused_cumulative_s (fu_fsm fu') = FNum 0 \<and> \<not> pause_budget_warned (fu_fsm fu')"
  using assms(1)
proof (cases rule: on_gps_cases)
  case first
  then show ?thesis using assms(2,3) refresh_preflight_frame(1) by fastforce
next
  case (gated g)
  then show ?thesis using assms(2,3) preflight_fix_shape(2) by simp
next
  case (ready g)
  from ready(3) show ?thesis
  proof (cases rule: ready_fix_cases)
    case (sync e fu2 o1)
    then show ?thesis using assms(2,3) by (simp add: same_core_def)
  next
    case (evaluated r fu2 o1 o2)
    have core: "fu_nav fu2 = fu_nav fu" "fu_re_anchor_max_distance_m fu2 = fu_re_anchor_max_distance_m fu"
      "sm_state (fu_fsm fu2) = Suspicious"
      using evaluated(1) assms(2) by (simp_all add: same_core_def)
    from evaluated(3) show ?thesis
    proof (cases rule: evaluate_fix_cases)
      case (clear evs dets fsm2)
      have "origin (fu_nav fu') = Some (lat_deg fx, lon_deg fx, alt_m fx)"
        using clear(5) by (simp add: forward_fix_def on_gps_fix_origin)
      moreover have "drift_reset (drift_reset d) = drift_reset d" for d
        by (simp add: drift_reset_def)
      ultimately show ?thesis using ready(1) clear core
        by (simp add: buffer_is_empty_def buffer_clear_def commit_susp_to_normal_def drift_reset_def jump_reset_def)
    next
      case (latch evs dets fsm2 outs')
      have "fu_fsm fu' = fsm2"
        by (rule spoofed_actions_shape [OF latch(4)]) (use dump_shape(2) in fastforce)
      then show ?thesis using latch(3) assms(3) by simp
    qed (use core(3) assms(3) in \<open>simp_all add: force_back_to_suspicious_def\<close>)
  qed
qed (use assms in simp)

definition calm_gps :: gps_fix where
  "calm_gps = bench_fix\<lparr>speed_mps := None, course_deg := None\<rparr>"

definition calm_machine :: state_machine where
  "calm_machine = quiet_machine\<lparr>sm_state := Suspicious, suspicious_since := Some (FNum 1), last_clean_since := Some (FNum 2)\<rparr>"

lemma to_radians_zero: "to_radians B64 (FNum 0) = FNum 0"
proof -
  have p: "fin_in (of_int 3) (of_int 4) (pi_fl B64)"
    unfolding pi_fl_def lit_def by (intro fround_in bound_ok_int) simp_all
  then obtain v where v: "pi_fl B64 = FNum v" "3 \<le> v" "v \<le> 4"
    by (cases "pi_fl B64") (auto simp: fin_in_def)
  have "bound_ok B64 (of_int 1 / 2 ^ 6)" by (intro bound_ok_dyadic) simp_all
  then have "fin_in (of_int 1 / 2 ^ 6) (of_int 1) (fround B64 False (v / 180))"
    using v by (intro fround_in bound_ok_int) simp_all
  then show ?thesis using v
    by (cases "fround B64 False (v / 180)") (auto simp: to_radians_def fdiv_FNum fmul_FNum fin_in_def)
qed

lemma calm_origin:
  "gps_in_ned (e_math bench_env) calm_gps (fu_nav (bench n sm)) = Some \<lparr>ned_n = FNum 0, ned_e = FNum 0, ned_d = FNum (- 400)\<rparr>"
  by (simp add: bench_def bench_env_def gps_in_ned_def lla_to_ned_def calm_gps_def bench_fix_def toy_fix_def toy_math_def
      dr_new_def fsub_FNum fmul_FNum to_radians_zero R_EARTH_M_def Let_def)

lemma bench_clears:
  "\<exists>fu' outs. on_gps bench_env calm_gps (bench 20 calm_machine) = Some (fu', outs) \<and> sm_state (fu_fsm fu') = Normal"
proof -
  let ?g = "\<lparr>ned_n = FNum 0, ned_e = FNum 0, ned_d = FNum (- 400)\<rparr>"
  define r where "r = residual_of bench_env calm_gps ?g ned_default ned_default (fu_nav (bench 20 calm_machine))"
  have r: "mag_pos r = FNum 0" "\<not> dvel_known r"
    by (simp_all add: r_def residual_of_def gps_velocity_def calm_gps_def bench_fix_def ned_sub_def ned_default_def
        horizontal_norm_def fsub_FNum fmul_FNum fadd_FNum fsqrt_def Let_def)
  have pre: "\<not> dwell_pause_exceeded_pending calm_machine" "saturating_add (20 :: u16) 1 \<noteq> 10"
    "fix_t calm_gps = at_mono (12 * 10 ^ 9)"
    by (simp_all add: calm_machine_def quiet_machine_def set_pos_detectors_enabled_def fsm_new_def saturating_add_def
        calm_gps_def bench_fix_def Let_def)
  obtain fu2 where b: "same_core (bench 20 calm_machine) fu2" "fu_fsm fu2 = calm_machine"
      "no_doppler_streak fu2 = saturating_add (20 :: u16) 1"
      "on_gps bench_env calm_gps (bench 20 calm_machine) = Some (evaluate_fix bench_env calm_gps (FNum 12) ?g r fu2)"
    by (rule bench_evaluates [OF pre(1,3,2) calm_origin r_def]) (use r in simp)
  obtain fu' outs where e: "evaluate_fix bench_env calm_gps (FNum 12) ?g r fu2 = (fu', outs)" by (metis surj_pair)
  have gated: "gated_fsm r fu2 = calm_machine"
    using b r by (simp add: gated_fsm_def set_pos_detectors_enabled_def NO_DOPPLER_GATE_STREAK_def saturating_add_def
        calm_machine_def quiet_machine_def fsm_new_def Let_def)
  have half: "flt (FNum 0) (fmax (fmul B32 (FNum 1) (lit B32 (1 / 2))) y)" for y
  proof -
    have "bound_ok B32 (of_int 1 / 2 ^ 1)" by (intro bound_ok_dyadic) simp_all
    then have "lit B32 (1 / 2) = FNum (1 / 2)" "fround B32 False (1 / 2) = FNum (1 / 2)"
      by (simp_all add: lit_def fround_exact bound_ok_def)
    then show ?thesis by (cases y) (auto simp: fmul_FNum fmax_def)
  qed
  have "sample_clean r False sm" if "sm_cfg sm = detect_config_default" "dd_state (sm_drift sm) = cusum_default" for sm
    using that r half quarter_scaled [of 25]
    by (simp add: sample_clean_def pos_thresh_def cusum_peak_def drift_state_def cusum_default_def
        CLEAR_QUIESCENT_FRACTION_def to_f32_def Let_def fmax_def [of "FNum 0" "FNum 0"])
  then have st: "sm_state (snd (fsm_evaluate r (FNum 12) (hdop calm_gps) (sats calm_gps) (gated_fsm r fu2))) = Normal"
    unfolding gated by (simp add: calm_machine_def quiet_machine_def fsm_eval_defs fsub_FNum)
  have "validate_fix_against_reference ?g (dr_pos (fu_nav fu2)) (fu_re_anchor_max_distance_m fu2) = Inr ()"
    using b(1) by (simp add: same_core_def bench_def dr_pos_def dr_new_def strapdown_new_def ned_default_def
        validate_fix_against_reference_def fsub_FNum fmul_FNum fadd_FNum fsqrt_def)
  with e st have "sm_state (fu_fsm fu') = Normal"
    by (cases rule: evaluate_fix_cases) (auto simp: b calm_machine_def)
  then show ?thesis using b e by auto
qed

theorem clear_only_near_dead_reckoning_witness:
  "\<exists>fu' outs g. on_gps bench_env calm_gps (bench 20 calm_machine) = Some (fu', outs)
    \<and> gps_in_ned (e_math bench_env) calm_gps (fu_nav (bench 20 calm_machine)) = Some g
    \<and> validate_fix_against_reference g (dr_pos (fu_nav (bench 20 calm_machine)))
        (fu_re_anchor_max_distance_m (bench 20 calm_machine)) = Inr ()
    \<and> buffer_is_empty (fu_buffer fu')"
proof -
  obtain fu' outs where o: "on_gps bench_env calm_gps (bench 20 calm_machine) = Some (fu', outs)"
    "sm_state (fu_fsm fu') = Normal" using bench_clears by blast
  have "sm_state (fu_fsm (bench 20 calm_machine)) = Suspicious" by (simp add: bench_def calm_machine_def)
  from clear_only_near_dead_reckoning [OF o(1) this o(2)] o(1) show ?thesis by blast
qed

section \<open>Runs of the loop\<close>

datatype loop_input =
    LPoll fusion_env "imu_sample poll" "gps_fix poll" "unit poll"
  | LDumpEnded timestamp "fs_error + string \<times> nat"

inductive loop_step :: "fusion_loop \<Rightarrow> loop_input \<Rightarrow> fusion_out list \<Rightarrow> fusion_loop \<Rightarrow> bool" where
  poll: "select_step env imu gps rst l = Some (l', outs) \<Longrightarrow> loop_step l (LPoll env imu gps rst) outs l'"
| dump: "dump_ended now res l = (l', outs) \<Longrightarrow> loop_step l (LDumpEnded now res) outs l'"

inductive loop_run :: "fusion_loop \<Rightarrow> loop_input list \<Rightarrow> fusion_out list \<Rightarrow> fusion_loop \<Rightarrow> bool" where
  start: "loop_run l [] [] l"
| more: "loop_run l ins outs l' \<Longrightarrow> loop_step l' i o' l'' \<Longrightarrow> loop_run l (ins @ [i]) (outs @ o') l''"

lemma loop_step_cases:
  assumes "loop_step l i outs l'"
  obtains (idle) "l_fusion l' = l_fusion l" "outs = []"
  | (imu) env s where "l_fusion l' = on_imu env s (l_fusion l)" "outs = []"
  | (gps) env fx where "on_gps env fx (l_fusion l) = Some (l_fusion l', outs)"
  | (reset) env where "operator_reset env (l_fusion l) = (l_fusion l', outs)"
  | (dumped) fb' ev where "forensic (l_fusion l) \<noteq> None" "l_fusion l' = (l_fusion l)\<lparr>forensic := Some fb'\<rparr>" "outs = [OEvent ev]"
      "ev_kind ev \<in> {KForensicDumpWritten, KForensicDumpFailed}"
      "ev_kind ev = KForensicDumpFailed \<or> forensic (l_fusion l) = Some fb'"
  using assms
proof cases
  case (poll env imu gps rst)
  then show ?thesis
    using idle imu [of env] gps [of env] reset [of env]
    by (auto simp: select_step_def Let_def split: if_splits poll.splits prod.splits)
next
  case (dump now res)
  show ?thesis
  proof (cases "forensic (l_fusion l)")
    case None
    then show ?thesis using dump idle by (simp add: dump_ended_def)
  next
    case (Some fb)
    obtain fb' ev where d: "dump_result now (fu_boot (l_fusion l)) res fb = (fb', ev)" by (metis surj_pair)
    then have "ev_kind ev \<in> {KForensicDumpWritten, KForensicDumpFailed}" "ev_kind ev = KForensicDumpFailed \<or> fb' = fb"
      by (auto simp: dump_result_def spoofing_event_new_def split: sum.splits prod.splits)
    moreover have "l_fusion l' = (l_fusion l)\<lparr>forensic := Some fb'\<rparr>" "outs = [OEvent ev]"
      using dump Some d by (auto simp: dump_ended_def)
    ultimately show ?thesis using Some by (intro dumped) auto
  qed
qed

lemma on_imu_frame:
  "fu_fsm (on_imu env s fu) = fu_fsm fu" "preflight (on_imu env s fu) = preflight fu" "fu_boot (on_imu env s fu) = fu_boot fu"
  "dr_state (fu_nav (on_imu env s fu)) = dr_state (fu_nav fu)" "origin (fu_nav (on_imu env s fu)) = origin (fu_nav fu)"
  "fu_nav (on_imu env s fu) = snd (step (e_math env) s (fu_nav fu))"
  "first_fix_accepted (checklist (on_imu env s fu)) = first_fix_accepted (checklist fu)"
  "static_init_done (checklist (on_imu env s fu)) \<longleftrightarrow> static_init_done (checklist fu) \<or> is_initialized (fu_nav (on_imu env s fu))"
  by (auto simp: on_imu_def step_frame Let_def case_prod_beta split: option.splits)

subsection \<open>The invariant\<close>

definition fusion_inv :: "fusion \<Rightarrow> bool" where
  "fusion_inv fu \<longleftrightarrow> fsm_inv (fu_fsm fu) \<and> dr_state (fu_nav fu) = sm_state (fu_fsm fu)
     \<and> (preflight fu = Initializing \<longrightarrow> sm_state (fu_fsm fu) = Normal)
     \<and> (preflight fu = Ready \<longrightarrow> static_init_done (checklist fu) \<and> first_fix_accepted (checklist fu))
     \<and> (static_init_done (checklist fu) \<longrightarrow> is_initialized (fu_nav fu))
     \<and> (first_fix_accepted (checklist fu) \<longleftrightarrow> origin (fu_nav fu) \<noteq> None)
     \<and> (origin (fu_nav fu) = None \<longrightarrow> \<not> anchor_locked (fu_nav fu))"

lemma fusion_inv_new: "fusion_new cfg boot = Some fu \<Longrightarrow> fusion_inv fu"
  using fsm_inv_new [of "fc_detect cfg"]
  by (auto simp: fusion_new_def fusion_inv_def dr_new_def split: option.splits)

lemma step_keeps_initialized: "initialized d \<Longrightarrow> initialized (snd (step mm s d))"
  by (cases rule: step_cases [of mm s d]) (auto dest: imu_dt_frame)

lemma on_gps_fix_locked_origin:
  "anchor_locked (on_gps_fix mm fx d) \<longrightarrow> origin (on_gps_fix mm fx d) \<noteq> None" if "origin d = None \<longrightarrow> \<not> anchor_locked d"
  using that by (auto simp: on_gps_fix_def anchor_def seed_yaw_def blend_def Let_def split: option.splits)

lemma refresh_preflight_ready:
  assumes "refresh_preflight env t s fu = (fu', outs)" and "preflight fu \<noteq> Ready" "preflight fu' = Ready"
  shows "checklist_ok (checklist fu') \<and> outs = [event_of fu s KPreflightPassed (FNum 0) (DChecklist (checklist fu'))]
    \<and> (mav_wired fu \<longrightarrow> heartbeat_fresh (e_monitor env) (e_now env) (fu_boot fu) (nanos_u64 (3 * 10 ^ 9))
         \<and> (\<forall>want. expected_autopilot fu = Some want \<longrightarrow> current_autopilot (e_monitor env) = want))"
proof -
  have p: "preflight (preflight_facts env fu) = preflight fu" "event_of (preflight_facts env fu) = event_of fu"
    by (simp_all add: preflight_facts_def event_of_def fun_eq_iff Let_def)
  then have "checklist_ok (checklist (preflight_facts env fu))"
    "fu' = (preflight_facts env fu)\<lparr>preflight := Ready\<rparr>"
    "outs = [event_of fu s KPreflightPassed (FNum 0) (DChecklist (checklist fu'))]"
    using assms by (auto simp: refresh_preflight_def Let_def split: if_splits)
  then show ?thesis
    by (auto simp: checklist_ok_def preflight_facts_def Let_def split: if_splits option.splits)
qed

lemma preflight_exhaust: "p \<noteq> Ready \<longleftrightarrow> p = Initializing"
  by (cases p) auto

lemma on_gps_fix_initialized: "origin d \<noteq> None \<Longrightarrow> is_initialized (on_gps_fix mm fx d) = is_initialized d"
  by (simp add: is_initialized_def)

lemma refresh_preflight_inv:
  assumes "refresh_preflight env t s fu = (fu', outs)" and "fusion_inv fu"
  shows "fusion_inv fu'"
  using assms refresh_preflight_frame [OF assms(1)] refresh_preflight_ready [OF assms(1)]
  by (auto simp: fusion_inv_def checklist_ok_def preflight_exhaust)
    (auto simp: refresh_preflight_def preflight_facts_def Let_def split: if_splits)

lemma fusion_inv_on_gps_fix:
  assumes "fusion_inv fu" and "origin (fu_nav fu) \<noteq> None"
  shows "fusion_inv (fu\<lparr>fu_nav := on_gps_fix mm fx (fu_nav fu)\<rparr>)"
  using assms on_gps_fix_locked_origin [of "fu_nav fu" mm fx]
  by (auto simp: fusion_inv_def on_gps_fix_initialized)

lemma fusion_inv_same_core: "same_core fu fu' \<Longrightarrow> fusion_inv fu \<Longrightarrow> fusion_inv fu'"
  by (auto simp: same_core_def fusion_inv_def)

lemma forward_fix_inv: "fusion_inv fu \<Longrightarrow> origin (fu_nav fu) \<noteq> None \<Longrightarrow> fusion_inv (forward_fix env fx fu)"
  by (simp add: forward_fix_def fusion_inv_on_gps_fix)

lemma fusion_inv_evaluate:
  assumes inv: "fusion_inv fu" and ready: "preflight fu = Ready" and ev: "evaluate_fix env fx t g r fu = (fu', outs)"
  shows "fusion_inv fu'"
proof -
  have o: "origin (fu_nav fu) \<noteq> None" using inv ready by (auto simp: fusion_inv_def)
  have f: "fsm_inv fsm2" if "fsm_evaluate r t (hdop fx) (sats fx) (gated_fsm r fu) = (e, fsm2)" for e fsm2
    using fsm_inv_evaluate [OF fsm_inv_gated that] inv by (simp add: fusion_inv_def)
  from ev show ?thesis
  proof (cases rule: evaluate_fix_cases)
    case (quiet dets fsm2)
    have "fusion_inv (fu\<lparr>fu_fsm := fsm2\<rparr>)" using inv quiet(2) f [OF quiet(1)] by (auto simp: fusion_inv_def)
    then show ?thesis using forward_fix_inv o quiet(3) by simp
  next
    case (suspect evs dets fsm2)
    then show ?thesis using inv ready f [OF suspect(1)] by (auto simp: fusion_inv_def set_state_def is_initialized_def)
  next
    case (veto evs dets fsm2 dist)
    then show ?thesis using inv ready fsm_notes_inv(7) [OF f [OF veto(1)]]
      by (auto simp: fusion_inv_def force_back_to_suspicious_def)
  next
    case (clear evs dets fsm2)
    let ?fu = "clear_actions fx (fu\<lparr>fu_fsm := fsm2, fu_nav := set_state Normal (fu_nav fu)\<rparr>)"
    have "fusion_inv ?fu" using inv ready clear(3) fsm_notes_inv(6) [OF f [OF clear(1)]]
      by (auto simp: fusion_inv_def set_state_def is_initialized_def re_anchor_after_clearing_def)
    moreover have "origin (fu_nav ?fu) \<noteq> None" by (simp add: re_anchor_after_clearing_def)
    ultimately show ?thesis using forward_fix_inv clear(5) by simp
  next
    case (latch evs dets fsm2 outs')
    obtain dump where d: "maybe_trigger_forensic_dump env Suspicious r (EvTransition Suspicious Spoofed)
        (fu\<lparr>fu_fsm := fsm2, fu_nav := set_state Spoofed (fu_nav fu)\<rparr>) = (fu', dump)"
      using latch(4) by (rule spoofed_actions_shape)
    show ?thesis using inv ready latch(3) f [OF latch(1)] dump_shape [OF d]
      by (auto simp: fusion_inv_def set_state_def is_initialized_def)
  qed
qed

lemma fusion_inv_on_gps:
  assumes inv: "fusion_inv fu" and gps: "on_gps env fx fu = Some (fu', outs)"
  shows "fusion_inv fu'"
  using gps
proof (cases rule: on_gps_cases)
  case (rejected dist)
  then show ?thesis using inv by simp
next
  case first
  let ?fu = "fu\<lparr>fu_nav := on_gps_fix (e_math env) fx (fu_nav fu), checklist := (checklist fu)\<lparr>first_fix_accepted := True\<rparr>\<rparr>"
  have "fusion_inv ?fu" using inv first(1) on_gps_fix_locked_origin [of "fu_nav fu" "e_math env" fx]
    by (auto simp: fusion_inv_def is_initialized_def)
  then show ?thesis using refresh_preflight_inv first(3) by blast
next
  case (gated g)
  obtain fu1 o1 where r: "refresh_preflight env (fu_secs fu (mono (fix_t fx))) (fix_t fx) fu = (fu1, o1)"
    by (metis surj_pair)
  have i1: "fusion_inv fu1" using refresh_preflight_inv [OF r inv] .
  have "origin (fu_nav fu1) \<noteq> None"
    using gated(1) refresh_preflight_frame(2) [OF r] by (auto simp: gps_in_ned_def)
  from fusion_inv_on_gps_fix [OF i1 this, of "e_math env" fx] this have "fusion_inv (fu1\<lparr>fu_nav := on_gps_fix (e_math env) fx (fu_nav fu1), fu_fsm := on_clean_anchor (fu_fsm fu1)\<rparr>)"
    by (auto simp: fusion_inv_def fsm_notes_inv)
  then show ?thesis using gated(3) r i1 by (auto simp: preflight_fix_def Let_def split: if_splits)
next
  case (ready g)
  from ready(3) show ?thesis
  proof (cases rule: ready_fix_cases)
    case (sync e fu2 o1)
    have "origin (fu_nav fu2) \<noteq> None" using ready(1) sync(1) by (auto simp: gps_in_ned_def same_core_def)
    then show ?thesis using fusion_inv_on_gps_fix fusion_inv_same_core [OF sync(1) inv] sync(3) by blast
  next
    case (evaluated r fu2 o1 o2)
    have "preflight fu2 = Ready" using evaluated(1) ready(2) by (simp add: same_core_def)
    then show ?thesis using fusion_inv_evaluate [OF fusion_inv_same_core [OF evaluated(1) inv] _ evaluated(3)] by blast
  qed
qed

lemma fusion_inv_on_imu:
  assumes "fusion_inv fu"
  shows "fusion_inv (on_imu env s fu)"
proof -
  let ?d = "fu_nav fu" and ?d' = "fu_nav (on_imu env s fu)"
  have "dr_state ?d' = dr_state ?d" "origin ?d' = origin ?d" "anchor_locked ?d' = anchor_locked ?d"
    "is_initialized ?d \<longrightarrow> is_initialized ?d'"
    using step_keeps_initialized [of ?d "e_math env" s]
    unfolding on_imu_frame(6) by (auto simp: step_frame is_initialized_def)
  then show ?thesis using assms unfolding fusion_inv_def on_imu_frame(1,2,7,8) by metis
qed

lemma fusion_inv_reset: "fusion_inv fu \<Longrightarrow> operator_reset env fu = (fu', outs) \<Longrightarrow> fusion_inv fu'"
  by (auto simp: operator_reset_def fusion_inv_def set_state_def is_initialized_def fsm_notes_inv)

lemma fusion_inv_loop_step: "loop_step l i outs l' \<Longrightarrow> fusion_inv (l_fusion l) \<Longrightarrow> fusion_inv (l_fusion l')"
  by (cases rule: loop_step_cases)
    (auto simp: fusion_inv_on_imu intro: fusion_inv_on_gps fusion_inv_reset, auto simp: fusion_inv_def)

lemma fusion_inv_run: "loop_run l ins outs l' \<Longrightarrow> fusion_inv (l_fusion l) \<Longrightarrow> fusion_inv (l_fusion l')"
  by (induction rule: loop_run.induct) (auto intro: fusion_inv_loop_step)

end
