(* ===== verification/Fusion_Wiring.thy ===== *)
theory Fusion_Wiring
  imports Fusion_Safety
begin

text \<open>
  What the fusion task was configured with and never changes: whether an autopilot link is
  wired and which autopilot it must show, the boot time, and the home of the boot-anchor
  check. Becoming Ready needs the link to show that autopilot, and the first origin is a
  fix within reach of that home.
\<close>

section \<open>Constant settings\<close>

text \<open>What the fusion task was told about the autopilot; no stage of it changes that.\<close>

definition home_of :: "dead_reckoner \<Rightarrow> (f64 \<times> f64) option \<times> f64" where
  "home_of d = (expected_home (dr_cfg d), max_home_distance_m (dr_cfg d))"

definition wiring :: "fusion \<Rightarrow> (bool \<times> u8 option) \<times> instant \<times> (f64 \<times> f64) option \<times> f64" where
  "wiring fu = ((mav_wired fu, expected_autopilot fu), fu_boot fu, home_of (fu_nav fu))"

lemma home_of_step: "home_of (snd (step mm s d)) = home_of d"
  by (cases rule: step_cases [of mm s d]; auto simp: home_of_def static_init_def Let_def nav_frame split: if_splits dest: imu_dt_frame)

lemma home_of_ops [simp]:
  "home_of (on_gps_fix mm fx d) = home_of d" "home_of (set_state st d) = home_of d"
  "home_of (re_anchor_after_clearing fx d) = home_of d"
  by (simp_all add: home_of_def set_state_def re_anchor_after_clearing_def anchor_def)

lemma home_plausible:
  assumes "is_first_fix_plausible mm fx d = Inr ()" and "home_of d = (Some (hlat, hlon), dmax)" and "\<not> anchor_locked d"
  shows "fle (horizontal_norm (lla_to_ned mm (lat_deg fx) (lon_deg fx) (FNum 0) hlat hlon)) dmax"
  using assms by (auto simp: is_first_fix_plausible_def home_of_def Let_def split: if_splits)

text \<open>The link shows the expected autopilot: a heartbeat of at most three seconds' age with its byte.\<close>

definition link_shows :: "u8 \<Rightarrow> fusion_env \<Rightarrow> instant \<Rightarrow> bool" where
  "link_shows b env boot \<longleftrightarrow>
     heartbeat_fresh (e_monitor env) (e_now env) boot (nanos_u64 (3 * 10 ^ 9)) \<and> current_autopilot (e_monitor env) = b"

lemma preflight_facts_wiring [simp]: "wiring (preflight_facts env fu) = wiring fu"
  by (simp add: preflight_facts_def wiring_def Let_def)

lemma refresh_preflight_wiring:
  assumes "refresh_preflight env t s fu = (fu', outs)"
  shows "wiring fu' = wiring fu"
    and "preflight fu \<noteq> Ready \<Longrightarrow> preflight fu' = Ready \<Longrightarrow> fst (wiring fu) = (True, Some b) \<Longrightarrow> link_shows b env (fu_boot fu)"
  using assms
  by (auto simp: refresh_preflight_def preflight_facts_def wiring_def link_shows_def checklist_ok_def Let_def split: if_splits)

lemma wiring_upd [simp]:
  "home_of a = home_of (fu_nav fu) \<Longrightarrow> wiring (fu\<lparr>fu_nav := a\<rparr>) = wiring fu" "wiring (fu\<lparr>fu_fsm := b\<rparr>) = wiring fu"
  "wiring (fu\<lparr>fu_buffer := c\<rparr>) = wiring fu" "wiring (fu\<lparr>forensic := d\<rparr>) = wiring fu"
  "wiring (fu\<lparr>checklist := e\<rparr>) = wiring fu" "wiring (fu\<lparr>last_gps_t_secs := f\<rparr>) = wiring fu"
  "wiring (fu\<lparr>frozen_anchor_lla := g\<rparr>) = wiring fu" "wiring (fu\<lparr>frozen_fix_streak := h\<rparr>) = wiring fu"
  "wiring (fu\<lparr>frozen_imu_displacement_m := i\<rparr>) = wiring fu" "wiring (fu\<lparr>no_doppler_streak := j\<rparr>) = wiring fu"
  "wiring (fu\<lparr>last_gps_alt := k\<rparr>) = wiring fu"
  by (simp_all add: wiring_def)

lemma stages_wiring [simp]:
  "wiring (restart_frozen fx fu) = wiring fu" "wiring (forensic_fix fx t r fu) = wiring fu"
  "wiring (clear_actions fx fu) = wiring fu" "wiring (forward_fix env fx fu) = wiring fu"
  by (simp_all add: restart_frozen_def forensic_fix_def clear_actions_def forward_fix_def split: option.split)

lemma observing_wiring:
  "note_dropout fx t fu = (fu', outs) \<Longrightarrow> wiring fu' = wiring fu"
  "vertical_check fx t r fu = (fu', outs) \<Longrightarrow> wiring fu' = wiring fu"
  "doppler_streak fx r fu = (fu', outs) \<Longrightarrow> wiring fu' = wiring fu"
  "frozen_decision fx gap v r fu = Some (fu', outs) \<Longrightarrow> wiring fu' = wiring fu"
  "spoofed_actions env fx from r ev fu = (fu', outs) \<Longrightarrow> wiring fu' = wiring fu"
  by (auto simp: note_dropout_def vertical_check_def doppler_streak_def frozen_decision_def frozen_accrue_def
      spoofed_actions_def maybe_trigger_forensic_dump_def Let_def split: if_splits option.splits prod.splits)

lemma evaluate_fix_wiring: "evaluate_fix env fx t g r fu = (fu', outs) \<Longrightarrow> wiring fu' = wiring fu"
  by (cases rule: evaluate_fix_cases) (auto dest: observing_wiring(5))

lemma ready_fix_wiring: "ready_fix env fx g fu = Some (fu', outs) \<Longrightarrow> wiring fu' = wiring fu"
  by (auto simp: ready_fix_def Let_def split: prod.splits sum.splits option.splits if_splits
      dest!: observing_wiring evaluate_fix_wiring)

lemma on_gps_wiring:
  assumes "on_gps env fx fu = Some (fu', outs)"
  shows "wiring fu' = wiring fu"
    and "preflight fu \<noteq> Ready \<Longrightarrow> preflight fu' = Ready \<Longrightarrow> fst (wiring fu) = (True, Some b) \<Longrightarrow> link_shows b env (fu_boot fu)"
proof -
  have "wiring fu' = wiring fu \<and> (preflight fu \<noteq> Ready \<longrightarrow> preflight fu' = Ready \<longrightarrow> fst (wiring fu) = (True, Some b) \<longrightarrow> link_shows b env (fu_boot fu))"
    using assms
  proof (cases rule: on_gps_cases)
    case first
    then show ?thesis using refresh_preflight_wiring [OF first(3)] by (auto simp: link_shows_def)
  next
    case (gated g)
    obtain fu1 o1 where r: "refresh_preflight env (fu_secs fu (mono (fix_t fx))) (fix_t fx) fu = (fu1, o1)"
      by (metis surj_pair)
    then have "wiring fu' = wiring fu1" "preflight fu' = preflight fu1"
      using gated(3) by (auto simp: preflight_fix_def Let_def split: if_splits)
    then show ?thesis using refresh_preflight_wiring [OF r] by auto
  next
    case (ready g)
    then show ?thesis using ready_fix_wiring by auto
  qed auto
  then show "wiring fu' = wiring fu"
    "preflight fu \<noteq> Ready \<Longrightarrow> preflight fu' = Ready \<Longrightarrow> fst (wiring fu) = (True, Some b) \<Longrightarrow> link_shows b env (fu_boot fu)" by blast+
qed

lemma on_imu_wiring [simp]: "wiring (on_imu env s fu) = wiring fu"
proof -
  have "home_of (fu_nav (on_imu env s fu)) = home_of (fu_nav fu)" by (simp add: on_imu_frame(6) home_of_step)
  moreover have "(mav_wired (on_imu env s fu), expected_autopilot (on_imu env s fu)) = (mav_wired fu, expected_autopilot fu)"
    by (auto simp: on_imu_def Let_def case_prod_beta split: option.splits)
  ultimately show ?thesis by (simp add: wiring_def on_imu_frame(3))
qed

lemma operator_reset_wiring: "operator_reset env fu = (fu', outs) \<Longrightarrow> wiring fu' = wiring fu"
  by (auto simp: operator_reset_def wiring_def Let_def)

section \<open>Along a run\<close>

lemma loop_step_wiring: "loop_step l i outs l' \<Longrightarrow> wiring (l_fusion l') = wiring (l_fusion l)"
  by (cases rule: loop_step_cases) (auto dest: on_gps_wiring(1) operator_reset_wiring)

lemma loop_run_wiring: "loop_run l ins outs l' \<Longrightarrow> wiring (l_fusion l') = wiring (l_fusion l)"
  by (induction rule: loop_run.induct) (simp_all add: loop_step_wiring)

text \<open>Only a fix arms the task or gives it its origin.\<close>

lemma loop_step_fix:
  assumes "loop_step l i outs l'"
  shows "(preflight (l_fusion l') = preflight (l_fusion l) \<and> origin (fu_nav (l_fusion l')) = origin (fu_nav (l_fusion l)))
    \<or> (\<exists>env imu fx rst. i = LPoll env imu (Item fx) rst \<and> on_gps env fx (l_fusion l) = Some (l_fusion l', outs))"
  using assms
proof cases
  case (poll env imu gps rst)
  then show ?thesis
    by (auto simp: select_step_def operator_reset_def set_state_def on_imu_frame step_frame Let_def split: if_splits poll.splits prod.splits)
next
  case (dump now res)
  then show ?thesis by (auto simp: dump_ended_def Let_def split: option.splits prod.splits)
qed

text \<open>A poll that hands the task a fix.\<close>

definition fix_input :: "fusion_env \<Rightarrow> gps_fix \<Rightarrow> loop_input \<Rightarrow> bool" where
  "fix_input env fx i \<longleftrightarrow> (\<exists>imu rst. i = LPoll env imu (Item fx) rst)"

text \<open>
  The run \<open>ins\<close> from \<open>l0\<close> to \<open>l\<close> hands the fix \<open>fx\<close> to the task in the state \<open>l1\<close>, and handling
  it gives \<open>l2\<close>.
\<close>

definition handles_fix ::
    "fusion_loop \<Rightarrow> loop_input list \<Rightarrow> fusion_loop \<Rightarrow> fusion_loop \<Rightarrow> fusion_env \<Rightarrow> gps_fix \<Rightarrow> fusion_loop \<Rightarrow> bool" where
  "handles_fix l0 ins l l1 env fx l2 \<longleftrightarrow>
     (\<exists>pre i post o1 o2 o3. ins = pre @ i # post \<and> fix_input env fx i
       \<and> loop_run l0 pre o1 l1 \<and> loop_step l1 i o2 l2 \<and> loop_run l2 post o3 l)"

lemma handles_fix_more:
  assumes "handles_fix l0 ins l l1 env fx l2" and "loop_step l i o' l'"
  shows "handles_fix l0 (ins @ [i]) l' l1 env fx l2"
proof -
  obtain pre j post o1 o2 o3 where "ins = pre @ j # post" "fix_input env fx j"
    "loop_run l0 pre o1 l1" "loop_step l1 j o2 l2" "loop_run l2 post o3 l"
    using assms(1) by (auto simp: handles_fix_def)
  moreover have "loop_run l2 (post @ [i]) (o3 @ o') l'" using calculation(5) assms(2) by (rule loop_run.more)
  ultimately show ?thesis by (auto simp: handles_fix_def)
qed

lemma handles_fix_last:
  assumes "loop_run l0 ins outs l1" and "loop_step l1 i o' l2" and "fix_input env fx i"
  shows "handles_fix l0 (ins @ [i]) l2 l1 env fx l2"
  using assms loop_run.start [of l2] unfolding handles_fix_def by blast

text \<open>
  What only a fix can make true of the task is made true, along a run, by one of its fixes.
\<close>

lemma made_true_by_fix:
  assumes "loop_run l0 ins outs l" and "\<not> P (l_fusion l0)" and "P (l_fusion l)"
    and only: "\<And>l i o' l'. loop_step l i o' l' \<Longrightarrow> \<not> P (l_fusion l) \<Longrightarrow> P (l_fusion l') \<Longrightarrow>
      \<exists>env imu fx rst. i = LPoll env imu (Item fx) rst \<and> on_gps env fx (l_fusion l) = Some (l_fusion l', o')"
  obtains l1 env fx l2 pre o1 o2 where "handles_fix l0 ins l l1 env fx l2" "\<not> P (l_fusion l1)" "P (l_fusion l2)"
    "loop_run l0 pre o1 l1" "on_gps env fx (l_fusion l1) = Some (l_fusion l2, o2)"
proof -
  have "\<exists>l1 env fx l2 pre o1 o2. handles_fix l0 ins l l1 env fx l2 \<and> \<not> P (l_fusion l1) \<and> P (l_fusion l2)
      \<and> loop_run l0 pre o1 l1 \<and> on_gps env fx (l_fusion l1) = Some (l_fusion l2, o2)"
    using assms(1-3)
  proof (induction rule: loop_run.induct)
    case (more l0 ins outs l i o' l')
    show ?case
    proof (cases "P (l_fusion l)")
      case True
      then show ?thesis using more.IH more.prems(1) handles_fix_more [OF _ more.hyps(2)] by blast
    next
      case False
      with only [OF more.hyps(2)] more.prems(2) obtain env imu fx rst where
        i: "i = LPoll env imu (Item fx) rst" "on_gps env fx (l_fusion l) = Some (l_fusion l', o')" by blast
      then have "handles_fix l0 (ins @ [i]) l' l env fx l'"
        using handles_fix_last [OF more.hyps] by (auto simp: fix_input_def)
      with i False more.prems(2) more.hyps(1) show ?thesis by blast
    qed
  qed simp
  then show ?thesis using that by blast
qed

lemma only_a_fix:
  assumes "loop_step l i o' l'"
  shows "preflight (l_fusion l) \<noteq> Ready \<Longrightarrow> preflight (l_fusion l') = Ready \<Longrightarrow>
      \<exists>env imu fx rst. i = LPoll env imu (Item fx) rst \<and> on_gps env fx (l_fusion l) = Some (l_fusion l', o')"
    and "\<not> origin (fu_nav (l_fusion l)) \<noteq> None \<Longrightarrow> origin (fu_nav (l_fusion l')) \<noteq> None \<Longrightarrow>
      \<exists>env imu fx rst. i = LPoll env imu (Item fx) rst \<and> on_gps env fx (l_fusion l) = Some (l_fusion l', o')"
  using loop_step_fix [OF assms] by metis+

lemma armed_run_shows_link:
  assumes "loop_run l ins outs l'" and "fst (wiring (l_fusion l)) = (True, Some b)"
    and "preflight (l_fusion l) \<noteq> Ready" and "preflight (l_fusion l') = Ready"
  shows "\<exists>l1 env fx l2. handles_fix l ins l' l1 env fx l2 \<and> preflight (l_fusion l1) \<noteq> Ready
    \<and> preflight (l_fusion l2) = Ready \<and> link_shows b env (fu_boot (l_fusion l))"
proof (rule made_true_by_fix [OF assms(1), where P = "\<lambda>fu. preflight fu = Ready"])
  fix l1 env fx l2 pre o1 o2
  assume h: "handles_fix l ins l' l1 env fx l2" "preflight (l_fusion l1) \<noteq> Ready" "preflight (l_fusion l2) = Ready"
    and r: "loop_run l pre o1 l1" "on_gps env fx (l_fusion l1) = Some (l_fusion l2, o2)"
  have "wiring (l_fusion l1) = wiring (l_fusion l)" by (rule loop_run_wiring [OF r(1)])
  then have "link_shows b env (fu_boot (l_fusion l))"
    using on_gps_wiring(2) [OF r(2) h(2,3)] assms(2) by (simp add: wiring_def)
  with h show ?thesis by blast
qed (use assms(3,4) only_a_fix(1) in blast)+

text \<open>
  The first accepted fix: before it the task had accepted none and had no origin, it is within
  reach of the home, and it becomes the origin.
\<close>

lemma first_accepted_near_home:
  assumes "loop_run l ins outs l'" and "snd (snd (wiring (l_fusion l))) = (Some (hlat, hlon), dmax)"
    and "fusion_inv (l_fusion l)" and "origin (fu_nav (l_fusion l)) = None" and "origin (fu_nav (l_fusion l')) \<noteq> None"
  shows "\<exists>l1 env fx l2. handles_fix l ins l' l1 env fx l2
    \<and> \<not> first_fix_accepted (checklist (l_fusion l1)) \<and> origin (fu_nav (l_fusion l1)) = None
    \<and> first_fix_accepted (checklist (l_fusion l2))
    \<and> origin (fu_nav (l_fusion l2)) = Some (lat_deg fx, lon_deg fx, alt_m fx)
    \<and> fle (horizontal_norm (lla_to_ned (e_math env) (lat_deg fx) (lon_deg fx) (FNum 0) hlat hlon)) dmax"
proof (rule made_true_by_fix [OF assms(1), where P = "\<lambda>fu. origin (fu_nav fu) \<noteq> None"])
  fix l1 env fx l2 pre o1 o2
  assume h: "handles_fix l ins l' l1 env fx l2" "\<not> origin (fu_nav (l_fusion l1)) \<noteq> None" "origin (fu_nav (l_fusion l2)) \<noteq> None"
    and r: "loop_run l pre o1 l1" "on_gps env fx (l_fusion l1) = Some (l_fusion l2, o2)"
  have home: "home_of (fu_nav (l_fusion l1)) = (Some (hlat, hlon), dmax)"
    using loop_run_wiring [OF r(1)] assms(2) by (simp add: wiring_def)
  have none: "origin (fu_nav (l_fusion l1)) = None" using h(2) by (rule notnotD)
  have inv: "\<not> anchor_locked (fu_nav (l_fusion l1))" "\<not> first_fix_accepted (checklist (l_fusion l1))"
    using fusion_inv_run [OF r(1) assms(3)] none by (simp_all add: fusion_inv_def)
  from r(2) have "is_first_fix_plausible (e_math env) fx (fu_nav (l_fusion l1)) = Inr ()
      \<and> first_fix_accepted (checklist (l_fusion l2)) \<and> origin (fu_nav (l_fusion l2)) = Some (lat_deg fx, lon_deg fx, alt_m fx)"
  proof (cases rule: on_gps_cases)
    case first
    then show ?thesis using refresh_preflight_frame(2,7) [OF first(3)] inv(1) by (simp add: on_gps_fix_origin)
  qed (use h(2,3) in \<open>auto simp: gps_in_ned_def\<close>)
  note first = this
  from home_plausible [OF _ home inv(1)] first
  have "fle (horizontal_norm (lla_to_ned (e_math env) (lat_deg fx) (lon_deg fx) (FNum 0) hlat hlon)) dmax" by blast
  with h(1) none inv(2) first show ?thesis by (intro exI [of _ l1] exI [of _ env] exI [of _ fx] exI [of _ l2]) simp
qed (use assms(4,5) only_a_fix(2) in blast)+

text \<open>
  The check is made of that fix only. While the anchor is not locked, a later fix that arrives
  before pre-flight is over and finds the buffer empty moves the origin to itself, wherever it is.
\<close>

lemma later_fix_unchecked:
  assumes "origin (fu_nav fu) \<noteq> None" and "\<not> anchor_locked (fu_nav fu)" and "preflight fu \<noteq> Ready"
    and "buffer_is_empty (fu_buffer fu)" and "on_gps env fx fu = Some (fu', outs)"
  shows "origin (fu_nav fu') = Some (lat_deg fx, lon_deg fx, alt_m fx)"
proof -
  obtain fu1 o1 where r: "refresh_preflight env (fu_secs fu (mono (fix_t fx))) (fix_t fx) fu = (fu1, o1)"
    by (metis surj_pair)
  from assms(5) have "preflight_fix env fx fu = (fu', outs)"
    using assms(1,3) by (auto simp: on_gps_def gps_in_ned_def split: option.splits)
  then show ?thesis
    using refresh_preflight_frame(2,3) [OF r] assms(2,4) r by (auto simp: preflight_fix_def on_gps_fix_origin Let_def)
qed

end
