(* ===== verification/Runtime.thy ===== *)
theory Runtime
  imports Fusion_Wiring
begin

text \<open>
  Start-up and shutdown, \<open>src/src/runtime.rs\<close>: the checks of \<open>spawn_all\<close>, the fusion task
  it builds, the ingest tasks that feed it, and the drain of the background tasks. The
  properties here hold along every run of a task that \<open>spawn_all\<close> started.
\<close>

section \<open>Start-up\<close>

record mav_preflight =
  mp_expected_autopilot :: u8

record forensic_cfg =
  fcfg_dir :: string
  fcfg_window_s :: f64

datatype forensic_cfg_error = WindowNotFinite f64 | WindowNotPositive f64 | WindowTooLarge f64

definition forensic_cfg_validate :: "forensic_cfg \<Rightarrow> forensic_cfg_error + unit" where
  "forensic_cfg_validate fc =
     (let w = fcfg_window_s fc
      in if \<not> is_finite w then Inl (WindowNotFinite w)
         else if fle w (FNum 0) then Inl (WindowNotPositive w)
         else if fgt w (FNum 3600) then Inl (WindowTooLarge w)
         else Inr ())"

datatype startup_error = InvalidFusionConfig config_error | InvalidForensicCfg forensic_cfg_error

text \<open>\<open>None\<close> is a panic of one of the allocations. The monitor itself is part of the environment.\<close>

definition spawn_all ::
    "fusion_config \<Rightarrow> mav_preflight option \<Rightarrow> forensic_cfg option \<Rightarrow> instant \<Rightarrow> (startup_error + fusion_loop) option" where
  "spawn_all cfg mp fc boot =
     (case validate cfg of
        Inl e \<Rightarrow> Some (Inl (InvalidFusionConfig e))
      | Inr _ \<Rightarrow>
          (case (case fc of Some c \<Rightarrow> forensic_cfg_validate c | None \<Rightarrow> Inr ()) of
             Inl e \<Rightarrow> Some (Inl (InvalidForensicCfg e))
           | Inr _ \<Rightarrow>
               (case fusion_new cfg boot of
                  None \<Rightarrow> None
                | Some fu \<Rightarrow>
                    (let fu1 = (case mp of Some m \<Rightarrow> with_mav_monitor (mp_expected_autopilot m) fu | None \<Rightarrow> fu)
                     in case fc of
                          None \<Rightarrow> Some (Inr (loop_start fu1))
                        | Some c \<Rightarrow>
                            map_option (\<lambda>fu2. Inr (loop_start fu2))
                              (with_forensic (fcfg_dir c) (fcfg_window_s c) (max_imu_rate_hz cfg) fu1)))))"

text \<open>The ingest tasks: errors of a source are logged, items go to the channel in order.\<close>

definition ingest_task :: "(ingest_error + 'a) list \<Rightarrow> 'a list" where
  "ingest_task items = List.map_filter (\<lambda>i. case i of Inr x \<Rightarrow> Some x | Inl _ \<Rightarrow> None) items"

section \<open>Shutdown\<close>

text \<open>
  The drain, over what the clock and the join set answer: each entry is the time read at
  the top of the loop and whether a task ended before the time-out. When the answers run
  out, nothing more ends before the deadline.
\<close>

fun drain_loop :: "instant \<Rightarrow> nat \<Rightarrow> (instant \<times> bool) list \<Rightarrow> nat \<Rightarrow> nat \<times> nat" where
  "drain_loop deadline n [] completed = (completed, n)"
| "drain_loop deadline n ((now, ended) # rest) completed =
     (if n = 0 then (completed, 0)
      else if saturating_duration_since deadline now = 0 then (completed, n)
      else if ended then drain_loop deadline (n - 1) rest (completed + 1)
      else (completed, n))"

definition drain_pending_bg :: "nat \<Rightarrow> instant \<Rightarrow> duration \<Rightarrow> (instant \<times> bool) list \<Rightarrow> nat \<times> nat" where
  "drain_pending_bg pending now timeout answers =
     (if pending = 0 then (0, 0) else drain_loop (now + timeout) pending answers 0)"

lemma drain_conserves: "fst (drain_loop d n xs c) + snd (drain_loop d n xs c) = n + c"
  by (induction d n xs c rule: drain_loop.induct) auto

section \<open>Lemmas on runs\<close>

lemma spawn_all_inv:
  assumes "spawn_all cfg mp fc boot = Some (Inr l)"
  shows "fusion_inv (l_fusion l)" "preflight (l_fusion l) = Initializing" "sm_state (fu_fsm (l_fusion l)) = Normal"
    "\<not> dump_claimed (l_fusion l)" "imu_open l \<and> gps_open l"
proof -
  obtain fu where new: "fusion_new cfg boot = Some fu"
    using assms by (auto simp: spawn_all_def split: sum.splits option.splits)
  define fu1 where "fu1 = (case mp of Some m \<Rightarrow> with_mav_monitor (mp_expected_autopilot m) fu | None \<Rightarrow> fu)"
  have i1: "fusion_inv fu1" "preflight fu1 = Initializing" "sm_state (fu_fsm fu1) = Normal" "forensic fu1 = None"
    using fusion_inv_new [OF new] new
    by (auto simp: fu1_def with_mav_monitor_def fusion_inv_def fusion_new_def split: option.splits)
  have "l = loop_start fu1 \<or> (\<exists>dir w fb. forensic_new w (max_imu_rate_hz cfg) = Some fb \<and> l = loop_start (fu1\<lparr>forensic := Some fb, forensic_dir := Some dir\<rparr>))"
  proof (cases fc)
    case None
    then show ?thesis using assms new by (auto simp: spawn_all_def fu1_def [symmetric] split: sum.splits)
  next
    case (Some c)
    then have "map_option (\<lambda>fu2. Inr (loop_start fu2)) (with_forensic (fcfg_dir c) (fcfg_window_s c) (max_imu_rate_hz cfg) fu1)
        = Some (Inr l :: startup_error + fusion_loop)"
      using assms new by (simp add: spawn_all_def fu1_def [symmetric] split: sum.splits)
    then show ?thesis by (auto simp: with_forensic_def)
  qed
  moreover have "\<not> dump_fired fb" if "forensic_new w rate = Some fb" for w rate fb
    using that by (auto simp: forensic_new_def Let_def split: if_splits)
  ultimately obtain fo dir where l: "l = loop_start (fu1\<lparr>forensic := fo, forensic_dir := dir\<rparr>)"
    and fo: "\<And>fb. fo = Some fb \<Longrightarrow> \<not> dump_fired fb"
  proof (elim disjE)
    assume "l = loop_start fu1"
    moreover have "fu1\<lparr>forensic := None\<rparr> = fu1" using i1(4) by (cases fu1) simp
    ultimately show ?thesis using that [of "forensic_dir fu1" None] by simp
  qed blast
  show "fusion_inv (l_fusion l)" using i1(1) by (auto simp: l loop_start_def fusion_inv_def)
  show "preflight (l_fusion l) = Initializing" "sm_state (fu_fsm (l_fusion l)) = Normal" "imu_open l \<and> gps_open l"
    using i1 by (simp_all add: l loop_start_def)
  show "\<not> dump_claimed (l_fusion l)" using fo by (simp add: l loop_start_def dump_claimed_def split: option.split)
qed

text \<open>What may be output before the detector is armed.\<close>

definition preflight_output :: "fusion_out \<Rightarrow> bool" where
  "preflight_output x = (case x of
     OEvent ev \<Rightarrow> ev_kind ev \<in> {KPreflightPassed, KPreflightFailed, KForensicDumpWritten, KForensicDumpFailed}
        \<or> (ev_kind ev = KBootAnchorRejected \<and> (\<exists>a b c. ev_detail ev = DBootRejected a b c))
        \<or> (ev_kind ev = KStateTransition \<and> (\<exists>st. ev_detail ev = DOperatorReset st))
   | _ \<Rightarrow> False)"

definition passed_output :: "fusion_out \<Rightarrow> bool" where
  "passed_output x = (case x of
     OEvent ev \<Rightarrow> ev_kind ev = KPreflightPassed \<and> (\<exists>c. ev_detail ev = DChecklist c \<and> checklist_ok c)
   | _ \<Rightarrow> False)"

lemma outputs_of_event [simp]:
  "preflight_output (event_of fu t k r d) \<longleftrightarrow> k \<in> {KPreflightPassed, KPreflightFailed, KForensicDumpWritten, KForensicDumpFailed}
     \<or> (k = KBootAnchorRejected \<and> (\<exists>a b c. d = DBootRejected a b c)) \<or> (k = KStateTransition \<and> (\<exists>st. d = DOperatorReset st))"
  "passed_output (event_of fu t k r d) \<longleftrightarrow> k = KPreflightPassed \<and> (\<exists>c. d = DChecklist c \<and> checklist_ok c)"
  by (simp_all add: preflight_output_def passed_output_def event_of_def spoofing_event_new_def)

lemma refresh_preflight_outputs:
  assumes "refresh_preflight env t s fu = (fu', outs)"
  shows "(\<forall>x\<in>set outs. preflight_output x)
    \<and> (preflight fu \<noteq> Ready \<longrightarrow> preflight fu' = Ready \<longrightarrow> (\<exists>x\<in>set outs. passed_output x))"
  using assms refresh_preflight_ready [OF assms]
  by (auto simp: refresh_preflight_def Let_def split: if_splits)

lemma on_gps_gated:
  assumes "on_gps env fx fu = Some (fu', outs)" and "preflight fu \<noteq> Ready"
  shows "(\<forall>x\<in>set outs. preflight_output x) \<and> (preflight fu' = Ready \<longrightarrow> (\<exists>x\<in>set outs. passed_output x))"
  using assms(1)
proof (cases rule: on_gps_cases)
  case (rejected dist)
  then show ?thesis using assms(2) by simp
next
  case first
  then show ?thesis using refresh_preflight_outputs [OF first(3)] assms(2) by simp
next
  case (gated g)
  obtain fu1 o1 where r: "refresh_preflight env (fu_secs fu (mono (fix_t fx))) (fix_t fx) fu = (fu1, o1)"
    by (metis surj_pair)
  then have "outs = o1" "preflight fu' = preflight fu1"
    using gated(3) by (auto simp: preflight_fix_def Let_def split: if_splits)
  then show ?thesis using refresh_preflight_outputs [OF r] assms(2) by simp
qed (use assms(2) in simp)

lemma operator_reset_shape:
  assumes "operator_reset env fu = (fu', outs)"
  obtains ev where "outs = [OEvent ev]" "ev_kind ev = KStateTransition" "ev_detail ev = DOperatorReset (sm_state (fu_fsm fu))"
    "preflight fu' = preflight fu" "forensic fu' = forensic fu" "sm_state (fu_fsm fu') = Normal"
  using assms by (auto simp: operator_reset_def spoofing_event_new_def)

lemma loop_step_gated:
  assumes "loop_step l i outs l'" and "preflight (l_fusion l) \<noteq> Ready"
  shows "(\<forall>x\<in>set outs. preflight_output x) \<and> (preflight (l_fusion l') = Ready \<longrightarrow> (\<exists>x\<in>set outs. passed_output x))"
  using assms(1)
proof (cases rule: loop_step_cases)
  case (gps env fx)
  then show ?thesis using on_gps_gated assms(2) by blast
next
  case (reset env)
  then obtain ev where "outs = [OEvent ev]" "ev_kind ev = KStateTransition"
      "ev_detail ev = DOperatorReset (sm_state (fu_fsm (l_fusion l)))" "preflight (l_fusion l') = preflight (l_fusion l)"
    by (rule operator_reset_shape)
  then show ?thesis using assms(2) by (simp add: preflight_output_def)
next
  case (dumped fb' ev)
  then show ?thesis using assms(2) by (auto simp: preflight_output_def)
qed (use assms(2) in \<open>auto simp: on_imu_frame\<close>)

section \<open>Properties of runs\<close>

text \<open>
  C16. In every state a started task can reach, whatever arrives on its channels and in
  whatever order: the dead reckoner's state is the detector's state, the detector's own
  invariant holds, the detector is Normal until pre-flight has passed, and once it has
  passed the reckoner is initialised with an origin.
\<close>

theorem started_task_invariant:
  assumes "spawn_all cfg mp fc boot = Some (Inr l0)" and "loop_run l0 ins outs l"
  shows "fsm_inv (fu_fsm (l_fusion l)) \<and> dr_state (fu_nav (l_fusion l)) = sm_state (fu_fsm (l_fusion l))
    \<and> (preflight (l_fusion l) = Initializing \<longrightarrow> sm_state (fu_fsm (l_fusion l)) = Normal)
    \<and> (preflight (l_fusion l) = Ready \<longrightarrow> is_initialized (fu_nav (l_fusion l)) \<and> origin (fu_nav (l_fusion l)) \<noteq> None)"
  using fusion_inv_run [OF assms(2) spawn_all_inv(1) [OF assms(1)]] by (auto simp: fusion_inv_def)

lemma gated_run:
  assumes "loop_run l0 ins outs l" and "preflight (l_fusion l0) \<noteq> Ready"
  shows "(preflight (l_fusion l) = Ready \<longrightarrow> (\<exists>x\<in>set outs. passed_output x))
    \<and> (\<forall>a x b. outs = a @ x # b \<longrightarrow> \<not> preflight_output x \<longrightarrow> (\<exists>y\<in>set a. passed_output y))"
  using assms
proof (induction rule: loop_run.induct)
  case (more l ins outs l' i o' l'')
  have ih: "preflight (l_fusion l') = Ready \<longrightarrow> (\<exists>x\<in>set outs. passed_output x)"
      "\<And>a x b. outs = a @ x # b \<Longrightarrow> \<not> preflight_output x \<Longrightarrow> \<exists>y\<in>set a. passed_output y"
    using more by auto
  note step = loop_step_gated [OF more(2)]
  have "\<exists>y\<in>set a. passed_output y" if eq: "outs @ o' = a @ x # b" and x: "\<not> preflight_output x" for a x b
  proof (cases "length a < length outs")
    case True
    then obtain b' where "outs = a @ x # b'" using eq by (auto simp: append_eq_append_conv2 append_eq_Cons_conv)
    then show ?thesis using ih(2) x by blast
  next
    case False
    then obtain a' where a': "a = outs @ a'" "o' = a' @ x # b" using eq by (auto simp: append_eq_append_conv2)
    then have "preflight (l_fusion l') = Ready" using step x by auto
    then show ?thesis using ih(1) a'(1) by auto
  qed
  moreover have "preflight (l_fusion l'') = Ready \<longrightarrow> (\<exists>x\<in>set (outs @ o'). passed_output x)"
    using ih(1) step by (cases "preflight (l_fusion l') = Ready") auto
  ultimately show ?case by blast
qed auto

text \<open>
  C4. The detector is silent and inert until pre-flight passes: along every run of a
  started task, any output other than the pre-flight reports, a rejected first fix, an
  operator reset and the end of a dump comes after a PreflightPassed event whose
  checklist is complete. In particular every action and every detector event does.
\<close>

theorem preflight_gates_detector:
  assumes "spawn_all cfg mp fc boot = Some (Inr l0)" and "loop_run l0 ins (before @ x # after) l"
    and "\<not> preflight_output x"
  shows "\<exists>y\<in>set before. passed_output y"
  using gated_run [OF assms(2)] spawn_all_inv(2) [OF assms(1)] assms(3) by auto

definition resets :: "fusion_out list \<Rightarrow> nat" where
  "resets outs = length (filter (\<lambda>x. case x of OEvent ev \<Rightarrow> (\<exists>st. ev_detail ev = DOperatorReset st) | _ \<Rightarrow> False) outs)"

lemma on_gps_spoofed:
  assumes "on_gps env fx fu = Some (fu', outs)" and "sm_state (fu_fsm fu) = Spoofed"
  shows "sm_state (fu_fsm fu') = Spoofed"
  using assms(1)
proof (cases rule: on_gps_cases)
  case first
  then show ?thesis using assms(2) refresh_preflight_frame(1) [OF first(3)] by simp
next
  case (gated g)
  then show ?thesis using assms(2) preflight_fix_shape(2) by simp
next
  case (ready g)
  from ready(3) show ?thesis
  proof (cases rule: ready_fix_cases)
    case (evaluated r fu2 o1 o2)
    have "sm_state (fu_fsm fu2) = Spoofed" using evaluated(1) assms(2) by (simp add: same_core_def)
    with evaluated(3) show ?thesis by (cases rule: evaluate_fix_cases) simp_all
  qed (use assms(2) in \<open>simp add: same_core_def\<close>)
qed (use assms in simp)

lemma loop_step_acts:
  assumes "loop_step l i outs l'"
  shows "\<exists>k. acts outs = concat (replicate k [SeverGps, EngageRtb])
    \<and> k + (if sm_state (fu_fsm (l_fusion l)) = Spoofed then 1 else 0)
        \<le> resets outs + (if sm_state (fu_fsm (l_fusion l')) = Spoofed then 1 else 0)"
  using assms
proof (cases rule: loop_step_cases)
  case (gps env fx)
  note a = on_gps_acts [OF gps]
  show ?thesis
  proof (cases "sm_state (fu_fsm (l_fusion l)) = Spoofed")
    case True
    have "sm_state (fu_fsm (l_fusion l')) = Spoofed"
      using on_gps_spoofed [OF gps True] .
    then show ?thesis using a True by (intro exI [of _ 0]) simp
  next
    case False
    then show ?thesis using a by (intro exI [of _ "if sm_state (fu_fsm (l_fusion l')) = Spoofed then 1 else 0"]) simp
  qed
next
  case (reset env)
  then obtain ev where "outs = [OEvent ev]" "ev_detail ev = DOperatorReset (sm_state (fu_fsm (l_fusion l)))"
    "sm_state (fu_fsm (l_fusion l')) = Normal" by (rule operator_reset_shape)
  then show ?thesis by (intro exI [of _ 0]) (simp add: resets_def)
qed (intro exI [of _ 0]; simp add: on_imu_frame)+

lemma acts_run:
  assumes "loop_run l0 ins outs l" and "sm_state (fu_fsm (l_fusion l0)) \<noteq> Spoofed"
  shows "\<exists>k. acts outs = concat (replicate k [SeverGps, EngageRtb])
    \<and> k \<le> resets outs + (if sm_state (fu_fsm (l_fusion l)) = Spoofed then 1 else 0)"
  using assms
proof (induction rule: loop_run.induct)
  case (more l ins outs l' i o' l'')
  then obtain k where k: "acts outs = concat (replicate k [SeverGps, EngageRtb])"
    "k \<le> resets outs + (if sm_state (fu_fsm (l_fusion l')) = Spoofed then 1 else 0)" by blast
  obtain k' where k': "acts o' = concat (replicate k' [SeverGps, EngageRtb])"
    "k' + (if sm_state (fu_fsm (l_fusion l')) = Spoofed then 1 else 0)
       \<le> resets o' + (if sm_state (fu_fsm (l_fusion l'')) = Spoofed then 1 else 0)"
    using loop_step_acts [OF more(2)] by blast
  have "acts (outs @ o') = concat (replicate (k + k') [SeverGps, EngageRtb])"
    using k(1) k'(1) by (simp add: replicate_add)
  moreover have "resets (outs @ o') = resets outs + resets o'" by (simp add: resets_def)
  ultimately show ?case using k(2) k'(2) by (intro exI [of _ "k + k'"]) (simp split: if_splits)
qed (auto intro: exI [of _ 0])

text \<open>
  C7. Actions come in pairs, one pair per episode: along every run of a started task the
  actions are sever, return-to-base, sever, return-to-base and so on, with at most one
  more pair than there were operator resets.
\<close>

theorem actions_bounded_by_resets:
  assumes "spawn_all cfg mp fc boot = Some (Inr l0)" and "loop_run l0 ins outs l"
  shows "\<exists>k \<le> resets outs + 1. acts outs = concat (replicate k [SeverGps, EngageRtb])"
proof -
  have "sm_state (fu_fsm (l_fusion l0)) \<noteq> Spoofed" using spawn_all_inv(3) [OF assms(1)] by simp
  from acts_run [OF assms(2) this] obtain k where "acts outs = concat (replicate k [SeverGps, EngageRtb])"
    "k \<le> resets outs + (if sm_state (fu_fsm (l_fusion l)) = Spoofed then 1 else 0)" by blast
  then show ?thesis by (intro exI [of _ k]) (auto split: if_splits)
qed

definition dumps :: "fusion_out list \<Rightarrow> nat" where
  "dumps outs = length (filter (\<lambda>x. case x of OSpawnDump _ \<Rightarrow> True | _ \<Rightarrow> False) outs)"

definition failures :: "fusion_out list \<Rightarrow> nat" where
  "failures outs = length (filter (\<lambda>x. case x of OEvent ev \<Rightarrow> ev_kind ev = KForensicDumpFailed | _ \<Rightarrow> False) outs)"

lemma dumps_simps [simp]:
  "dumps [] = 0" "dumps (xs @ ys) = dumps xs + dumps ys" "dumps (OEvent e # xs) = dumps xs" "dumps (OAction a # xs) = dumps xs"
  "dumps (OSpawnDump sn # xs) = Suc (dumps xs)" "dumps (OSpawnVerifySever t st # xs) = dumps xs"
  "dumps (OSpawnVerifyRtb t st # xs) = dumps xs" "dumps (event_of fu t k r d # xs) = dumps xs"
  by (simp_all add: dumps_def event_of_def)

lemma dumps_emit [simp]: "dumps (map (\<lambda>e. emit e fx r fu) dets) = 0"
  by (induction dets) (simp_all add: emit_def Let_def case_prod_beta)

lemma dumps_observations: "\<forall>x\<in>set xs. observation x \<Longrightarrow> dumps xs = 0"
proof (induction xs)
  case (Cons x xs)
  then show ?case by (cases x) (auto simp: observation_def)
qed simp

lemma dumps_response [simp]: "dumps (sever_outs env fx res fu) = 0" "dumps (rtb_outs env fx fu) = 0"
  by (simp_all add: sever_outs_def rtb_outs_def split: sum.split)

lemma dumps_trigger:
  assumes "maybe_trigger_forensic_dump env from r ev fu = (fu', outs)"
  shows "dumps outs + (if dump_claimed fu then 1 else 0) \<le> (if dump_claimed fu' then 1 else 0)"
  using assms
  by (auto simp: maybe_trigger_forensic_dump_def dump_claimed_def try_claim_dump_def Let_def split: option.splits if_splits)

lemma dump_claimed_cong: "forensic fu = forensic fu' \<Longrightarrow> dump_claimed fu = dump_claimed fu'"
  by (simp add: dump_claimed_def)

lemma dumps_evaluate:
  assumes "evaluate_fix env fx t g r fu = (fu', outs)"
  shows "dumps outs + (if dump_claimed fu then 1 else 0) \<le> (if dump_claimed fu' then 1 else 0)"
  using assms
proof (cases rule: evaluate_fix_cases)
  case (latch evs dets fsm2 outs')
  obtain dump where d: "maybe_trigger_forensic_dump env Suspicious r (EvTransition Suspicious Spoofed)
      (fu\<lparr>fu_fsm := fsm2, fu_nav := set_state Spoofed (fu_nav fu)\<rparr>) = (fu', dump)"
    "outs' = dump @ sever_outs env fx (to_f32 (mag_pos r)) fu' @ rtb_outs env fx fu'
       @ [OSpawnVerifySever (fix_t fx) (sm_state (fu_fsm fu')), OSpawnVerifyRtb (fix_t fx) (sm_state (fu_fsm fu'))]"
    using latch(4) by (rule spoofed_actions_shape)
  show ?thesis using dumps_trigger [OF d(1)] latch(5) d(2) by (simp add: dump_claimed_def)
qed (simp_all add: dump_claimed_def)

lemma dumps_on_gps:
  assumes "on_gps env fx fu = Some (fu', outs)"
  shows "dumps outs + (if dump_claimed fu then 1 else 0) \<le> (if dump_claimed fu' then 1 else 0)"
  using assms
proof (cases rule: on_gps_cases)
  case (rejected dist)
  then show ?thesis by simp
next
  case first
  have "dumps outs = 0" using first(3) by (auto simp: refresh_preflight_def Let_def split: if_splits)
  then show ?thesis using refresh_preflight_frame(5) [OF first(3)] by (simp add: dump_claimed_def)
next
  case (gated g)
  obtain fu1 o1 where r: "refresh_preflight env (fu_secs fu (mono (fix_t fx))) (fix_t fx) fu = (fu1, o1)"
    by (metis surj_pair)
  have "dumps o1 = 0" using r by (auto simp: refresh_preflight_def Let_def split: if_splits)
  moreover have "outs = o1" "forensic fu' = forensic fu1"
    using gated(3) r by (auto simp: preflight_fix_def Let_def split: if_splits)
  ultimately show ?thesis using refresh_preflight_frame(5) [OF r] by (simp add: dump_claimed_def)
next
  case (ready g)
  from ready(3) show ?thesis
  proof (cases rule: ready_fix_cases)
    case (sync e fu2 o1)
    then show ?thesis using dump_claimed_cong [of fu' fu2] by (simp add: dumps_observations same_core_def)
  next
    case (evaluated r fu2 o1 o2)
    then show ?thesis using dumps_evaluate [OF evaluated(3)] by (simp add: dumps_observations same_core_def)
  qed
qed

lemma on_imu_dump: "dump_claimed (on_imu env s fu) = dump_claimed fu"
  by (auto simp: on_imu_def dump_claimed_def push_imu_def Let_def case_prod_beta split: option.splits)

lemma loop_step_dumps:
  assumes "loop_step l i outs l'"
  shows "dumps outs + (if dump_claimed (l_fusion l) then 1 else 0)
    \<le> failures outs + (if dump_claimed (l_fusion l') then 1 else 0)"
  using assms
proof (cases rule: loop_step_cases)
  case (gps env fx)
  then show ?thesis using dumps_on_gps [OF gps] by simp
next
  case (reset env)
  then obtain ev where "outs = [OEvent ev]" "forensic (l_fusion l') = forensic (l_fusion l)" by (rule operator_reset_shape)
  then show ?thesis by (simp add: dump_claimed_def)
next
  case (dumped fb' ev)
  then show ?thesis by (auto simp: failures_def dump_claimed_def)
qed (simp_all add: on_imu_dump)

text \<open>
  The disk cannot be filled with dumps: along every run of a started task, the number
  of dumps spawned exceeds the number reported failed by at most one. A dump that was
  written is never followed by another.
\<close>

theorem dumps_bounded:
  assumes "spawn_all cfg mp fc boot = Some (Inr l0)" and "loop_run l0 ins outs l"
  shows "dumps outs \<le> failures outs + 1"
proof -
  have "dumps outs + (if dump_claimed (l_fusion l0) then 1 else 0) \<le> failures outs + (if dump_claimed (l_fusion l) then 1 else 0)"
    using assms(2)
  proof (induction rule: loop_run.induct)
    case (more l ins outs l' i o' l'')
    have "failures (outs @ o') = failures outs + failures o'" by (simp add: failures_def)
    then show ?case using more(3) loop_step_dumps [OF more(2)] by simp
  qed simp
  then show ?thesis by (simp split: if_splits)
qed

section \<open>Arming\<close>

definition imu_in :: "fusion_env \<Rightarrow> imu_sample \<Rightarrow> loop_input" where
  "imu_in env s = LPoll env (Item s) Pending Pending"

definition gps_in :: "fusion_env \<Rightarrow> gps_fix \<Rightarrow> loop_input" where
  "gps_in env fx = LPoll env Pending (Item fx) Pending"

definition finite_sample :: "imu_sample \<Rightarrow> bool" where
  "finite_sample s \<longleftrightarrow> vec3_finite (accel_mps2 s) \<and> vec3_finite (gyro_rps s)"

definition init_target :: "nav_config \<Rightarrow> nat" where
  "init_target c = cast_usize (fmax (mul64 (static_init_s c) (FNum 100)) (FNum 10))"

lemma init_target_pos: "0 < init_target c"
proof -
  have ge: "fle (FNum 10) (fmax x (FNum 10))" for x by (cases x) (auto simp: fmax_def)
  have "0 < cast_usize y" if "fle (FNum 10) y" for y
  proof (cases y)
    case (FNum r)
    then have "10 \<le> r" using that by simp
    then have "10 \<le> \<lfloor>r\<rfloor>" by (simp add: le_floor_iff)
    then show ?thesis using FNum \<open>10 \<le> r\<close> by (simp add: cast_usize_def cast_int_def ftrunc_def)
  qed (use that in \<open>simp_all add: cast_usize_def cast_int_def\<close>)
  then show ?thesis unfolding init_target_def using ge by blast
qed

definition warming :: "nat \<Rightarrow> dead_reckoner \<Rightarrow> bool" where
  "warming n d \<longleftrightarrow> initialized d \<or> (static_init_accum d = n \<and> n < init_target (dr_cfg d)
     \<and> static_init_target d \<in> {0, init_target (dr_cfg d)})"

lemma warming_step:
  assumes "warming n d" and "finite_sample s"
  shows "warming (Suc n) (snd (step mm s d)) \<and> (init_target (dr_cfg d) \<le> Suc n \<longrightarrow> initialized (snd (step mm s d)))
    \<and> (\<not> initialized d \<longrightarrow> fst (step mm s d) = Inr None \<and> (\<not> initialized (snd (step mm s d)) \<longrightarrow> dr_cfg (snd (step mm s d)) = dr_cfg d))"
proof (cases "initialized d")
  case True
  then show ?thesis using step_keeps_initialized by (simp add: warming_def)
next
  case False
  then have w: "static_init_accum d = n" "n < init_target (dr_cfg d)" "static_init_target d \<in> {0, init_target (dr_cfg d)}"
    using assms(1) by (auto simp: warming_def)
  have st: "step mm s d = (Inr None, static_init mm (dr_mono_secs d (mono (imu_t s))) (accel_mps2 s) d)"
    using assms(2) False by (simp add: step_def finite_sample_def)
  have tg: "(if static_init_target d = 0 then cast_usize (fmax (mul64 (static_init_s (dr_cfg d)) (FNum 100)) (FNum 10))
      else static_init_target d) = init_target (dr_cfg d)"
    using w(3) init_target_pos by (auto simp: init_target_def)
  show ?thesis
    unfolding st static_init_def tg using w False by (auto simp: warming_def Let_def)
qed

lemma warming_fold:
  assumes "warming n d" and "\<forall>s\<in>set ss. finite_sample s"
    and "initialized d \<or> init_target (dr_cfg d) \<le> n + length ss"
  shows "initialized (fold (\<lambda>s d. snd (step mm s d)) ss d)"
  using assms
proof (induction ss arbitrary: n d)
  case Nil
  then show ?case by (auto simp: warming_def)
next
  case (Cons s ss)
  let ?d = "snd (step mm s d)"
  note w = warming_step [OF Cons.prems(1), of s mm]
  have "initialized ?d \<or> init_target (dr_cfg ?d) \<le> Suc n + length ss"
  proof (cases "initialized d")
    case True
    then show ?thesis using step_keeps_initialized by simp
  next
    case False
    then show ?thesis using w Cons.prems(2,3) by (cases "initialized ?d") auto
  qed
  then show ?case using Cons.IH [of "Suc n" ?d] w Cons.prems(2) by simp
qed

text \<open>What the samples before the first origin leave alone.\<close>

definition unarmed :: "fusion \<Rightarrow> fusion \<Rightarrow> bool" where
  "unarmed a b \<longleftrightarrow> checklist b = checklist a \<and> \<not> static_init_done (checklist a) \<and> preflight b = preflight a
     \<and> fu_buffer b = fu_buffer a \<and> wiring b = wiring a
     \<and> origin (fu_nav b) = None \<and> anchor_locked (fu_nav b) = anchor_locked (fu_nav a)"

text \<open>The link, if one is wired, would pass the checks now.\<close>

definition link_ok :: "fusion_env \<Rightarrow> fusion \<Rightarrow> bool" where
  "link_ok env fu \<longleftrightarrow> heartbeat_seen (checklist (preflight_facts env fu)) \<and> autopilot_matches (checklist (preflight_facts env fu))"

lemma link_ok_cong:
  assumes "wiring fu' = wiring fu" and "mav_wired fu \<or> heartbeat_seen (checklist fu') = heartbeat_seen (checklist fu)
      \<and> autopilot_matches (checklist fu') = autopilot_matches (checklist fu)"
  shows "link_ok env fu' = link_ok env fu"
  using assms by (auto simp: link_ok_def preflight_facts_def wiring_def Let_def)

lemma link_ok_wired: "fst (wiring fu) = (True, Some b) \<Longrightarrow> link_shows b env (fu_boot fu) \<Longrightarrow> link_ok env fu"
  by (simp add: link_ok_def preflight_facts_def wiring_def link_shows_def Let_def)

lemma step_no_origin: "origin d = None \<Longrightarrow> fst (step mm s d) \<noteq> Inr (Some snap)"
  by (cases rule: step_cases [of mm s d])
    (auto simp: integrate_sample_def is_initialized_def track_attitude_def Let_def case_prod_beta)

lemma unarmed_on_imu:
  assumes "unarmed a b" shows "unarmed a (on_imu env s b)"
proof -
  have o: "origin (fu_nav b) = None" using assms by (simp add: unarmed_def)
  have "fu_buffer (on_imu env s b) = fu_buffer b"
    using step_no_origin [OF o, of "e_math env" s]
    by (auto simp: on_imu_def Let_def case_prod_beta split: option.splits sum.splits)
  moreover have "checklist (on_imu env s b) = checklist b"
    using o by (auto simp: on_imu_def step_frame is_initialized_def Let_def case_prod_beta split: option.splits)
  ultimately show ?thesis using assms
    by (simp add: unarmed_def on_imu_frame(2,6) step_frame)
qed

lemma fold_on_imu_nav: "fu_nav (fold (on_imu env) ss fu) = fold (\<lambda>s d. snd (step (e_math env) s d)) ss (fu_nav fu)"
  by (induction ss arbitrary: fu) (simp_all add: on_imu_frame(6))

lemma fold_on_imu_unarmed: "unarmed a fu \<Longrightarrow> unarmed a (fold (on_imu env) ss fu)"
  by (induction ss arbitrary: fu) (simp_all add: unarmed_on_imu)

lemma imu_run:
  assumes "imu_open l" and "gps_open l"
  shows "loop_run l (map (imu_in env) ss) [] (l\<lparr>l_fusion := fold (on_imu env) ss (l_fusion l)\<rparr>)"
proof (induction ss rule: rev_induct)
  case (snoc s ss)
  have "loop_step (l\<lparr>l_fusion := fold (on_imu env) ss (l_fusion l)\<rparr>) (imu_in env s) []
      (l\<lparr>l_fusion := fold (on_imu env) (ss @ [s]) (l_fusion l)\<rparr>)"
    unfolding imu_in_def using assms by (intro loop_step.poll) (simp add: select_step_def loop_running_def)
  from loop_run.more [OF snoc this] show ?case by simp
qed (simp add: loop_run.start)

lemma gps_step:
  assumes "gps_open l" and "on_gps env fx (l_fusion l) = Some (fu, outs)"
  shows "loop_step l (gps_in env fx) outs (l\<lparr>l_fusion := fu\<rparr>)"
  unfolding gps_in_def using assms by (intro loop_step.poll) (simp add: select_step_def loop_running_def)

lemma imu_step:
  assumes "imu_open l"
  shows "loop_step l (imu_in env s) [] (l\<lparr>l_fusion := on_imu env s (l_fusion l)\<rparr>)"
  unfolding imu_in_def using assms by (intro loop_step.poll) (simp add: select_step_def loop_running_def)

lemma spawn_unarmed:
  assumes "spawn_all cfg mp fc boot = Some (Inr l0)"
  shows "unarmed (l_fusion l0) (l_fusion l0)" "warming 0 (fu_nav (l_fusion l0))" "fu_nav (l_fusion l0) = dr_new (fc_nav cfg) boot"
    "wiring (l_fusion l0) = ((mp \<noteq> None, map_option mp_expected_autopilot mp), boot, home_of (dr_new (fc_nav cfg) boot))"
    "mp = None \<Longrightarrow> heartbeat_seen (checklist (l_fusion l0)) \<and> autopilot_matches (checklist (l_fusion l0))"
    "buf (fu_buffer (l_fusion l0)) = []"
proof -
  obtain fu where new: "fusion_new cfg boot = Some fu"
    using assms by (auto simp: spawn_all_def split: sum.splits option.splits)
  define fu1 where "fu1 = (case mp of Some m \<Rightarrow> with_mav_monitor (mp_expected_autopilot m) fu | None \<Rightarrow> fu)"
  have "\<exists>fo dir. l_fusion l0 = fu1\<lparr>forensic := fo, forensic_dir := dir\<rparr>"
  proof (cases fc)
    case None
    then have "l_fusion l0 = fu1" using assms new by (auto simp: spawn_all_def loop_start_def fu1_def [symmetric] split: sum.splits)
    then show ?thesis by (intro exI [of _ "forensic fu1"] exI [of _ "forensic_dir fu1"]) simp
  next
    case (Some c)
    then have "map_option (\<lambda>fu2. Inr (loop_start fu2)) (with_forensic (fcfg_dir c) (fcfg_window_s c) (max_imu_rate_hz cfg) fu1)
        = Some (Inr l0 :: startup_error + fusion_loop)"
      using assms new by (simp add: spawn_all_def fu1_def [symmetric] split: sum.splits)
    then obtain za where "l0 = loop_start (fu1\<lparr>forensic := Some za, forensic_dir := Some (fcfg_dir c)\<rparr>)"
      by (auto simp: with_forensic_def)
    then show ?thesis by (intro exI [of _ "Some za"] exI [of _ "Some (fcfg_dir c)"]) (simp add: loop_start_def)
  qed
  then obtain fo dir where l: "l_fusion l0 = fu1\<lparr>forensic := fo, forensic_dir := dir\<rparr>" by blast
  show "unarmed (l_fusion l0) (l_fusion l0)" "warming 0 (fu_nav (l_fusion l0))" "fu_nav (l_fusion l0) = dr_new (fc_nav cfg) boot"
    "wiring (l_fusion l0) = ((mp \<noteq> None, map_option mp_expected_autopilot mp), boot, home_of (dr_new (fc_nav cfg) boot))"
    "mp = None \<Longrightarrow> heartbeat_seen (checklist (l_fusion l0)) \<and> autopilot_matches (checklist (l_fusion l0))"
    "buf (fu_buffer (l_fusion l0)) = []"
    using new init_target_pos [of "fc_nav cfg"]
    by (auto simp: l fu1_def with_mav_monitor_def wiring_def fusion_new_def unarmed_def warming_def dr_new_def buffer_new_def
        Let_def split: option.splits if_splits)
qed

lemma plausible_cong:
  assumes "home_of d = home_of d'" "anchor_locked d = anchor_locked d'"
  shows "is_first_fix_plausible mm fx d = is_first_fix_plausible mm fx d'"
proof -
  have "expected_home (dr_cfg d) = expected_home (dr_cfg d')" "max_home_distance_m (dr_cfg d) = max_home_distance_m (dr_cfg d')"
    using assms(1) by (simp_all add: home_of_def)
  then show ?thesis unfolding is_first_fix_plausible_def assms(2) by (simp only:)
qed

text \<open>The first fix after initialisation gives an origin and leaves only the static check open.\<close>

lemma first_origin:
  assumes u: "unarmed a fu" and i: "initialized (fu_nav fu)" and p: "is_first_fix_plausible (e_math env) fx (fu_nav fu) = Inr ()"
    and m: "link_ok env fu" "preflight fu = Initializing" "\<not> anchor_locked (fu_nav fu)"
  obtains fu' outs where "on_gps env fx fu = Some (fu', outs)" "is_initialized (fu_nav fu')" "preflight fu' = Initializing"
    "first_fix_accepted (checklist fu')" "link_ok env fu'" "fu_buffer fu' = fu_buffer fu"
proof -
  have o: "origin (fu_nav fu) = None" "\<not> static_init_done (checklist fu)" using u by (auto simp: unarmed_def)
  let ?fu = "fu\<lparr>fu_nav := on_gps_fix (e_math env) fx (fu_nav fu), checklist := (checklist fu)\<lparr>first_fix_accepted := True\<rparr>\<rparr>"
  obtain fu' outs where r: "refresh_preflight env (fu_secs fu (mono (fix_t fx))) (fix_t fx) ?fu = (fu', outs)"
    by (metis surj_pair)
  have "on_gps env fx fu = Some (fu', outs)"
    using o p r by (simp add: on_gps_def gps_in_ned_def first_fix_def)
  moreover have "is_initialized (fu_nav fu')"
    using refresh_preflight_frame(2) [OF r] i o m(3) by (simp add: is_initialized_def)
  moreover have "\<not> checklist_ok (checklist (preflight_facts env ?fu))" using o(2) by (simp add: checklist_ok_def preflight_facts_def Let_def)
  then have f: "preflight fu' = Initializing" "checklist fu' = checklist (preflight_facts env ?fu)"
    using r m(2) by (auto simp: refresh_preflight_def preflight_facts_def Let_def split: if_splits)
  then have c: "first_fix_accepted (checklist fu')" "\<not> mav_wired fu \<Longrightarrow> heartbeat_seen (checklist fu') = heartbeat_seen (checklist fu)
      \<and> autopilot_matches (checklist fu') = autopilot_matches (checklist fu)"
    by (simp_all add: preflight_facts_def Let_def)
  moreover have "wiring fu' = wiring fu" using refresh_preflight_wiring(1) [OF r] by simp
  moreover from this have "link_ok env fu'" using link_ok_cong [of fu' fu env] c(2) m(1) by blast
  ultimately show ?thesis using that refresh_preflight_frame(3) [OF r] f(1) c(1) by simp
qed

lemma passes:
  assumes "is_initialized (fu_nav fu)" and "static_init_done (checklist fu)" and "first_fix_accepted (checklist fu)"
    and "preflight fu = Initializing" and "link_ok env fu"
  obtains fu' outs where "on_gps env fx fu = Some (fu', outs)" "preflight fu' = Ready" "fu_buffer fu' = fu_buffer fu"
    "origin (fu_nav fu') \<noteq> None"
proof -
  obtain g where g: "gps_in_ned (e_math env) fx (fu_nav fu) = Some g"
    using assms(1) by (auto simp: is_initialized_def gps_in_ned_def)
  obtain fu' outs where p: "preflight_fix env fx fu = (fu', outs)" by (metis surj_pair)
  then have "on_gps env fx fu = Some (fu', outs)" using g assms(4) by (simp add: on_gps_def)
  moreover let ?fu1 = "preflight_facts env fu"
  have "checklist_ok (checklist ?fu1)"
    using assms by (auto simp: checklist_ok_def link_ok_def preflight_facts_def Let_def)
  then have "refresh_preflight env (fu_secs fu (mono (fix_t fx))) (fix_t fx) fu
      = (?fu1\<lparr>preflight := Ready\<rparr>, [event_of ?fu1 (fix_t fx) KPreflightPassed (FNum 0) (DChecklist (checklist ?fu1))])"
    using assms(4) by (simp add: refresh_preflight_def Let_def)
  moreover have "fu_nav ?fu1 = fu_nav fu" "fu_buffer ?fu1 = fu_buffer fu" by (simp_all add: preflight_facts_def Let_def)
  ultimately have "preflight fu' = Ready" "fu_buffer fu' = fu_buffer fu"
    "fu_nav fu' = on_gps_fix (e_math env) fx (fu_nav fu) \<or> fu_nav fu' = fu_nav fu"
    using p by (auto simp: preflight_fix_def Let_def split: if_splits)
  moreover have "origin (fu_nav fu') \<noteq> None"
  proof -
    have "origin (fu_nav fu) \<noteq> None" using assms(1) by (simp add: is_initialized_def)
    then show ?thesis using calculation(3) by (elim disjE) (metis on_gps_fix_frame(4), simp)
  qed
  ultimately show ?thesis using that \<open>on_gps env fx fu = Some (fu', outs)\<close> by blast
qed

lemma arming_run:
  assumes start: "spawn_all cfg mp fc boot = Some (Inr l0)" and fin: "\<forall>s\<in>set ss. finite_sample s"
    and enough: "init_target (fc_nav cfg) \<le> length ss"
    and plausible: "is_first_fix_plausible (e_math env) fx (dr_new (fc_nav cfg) boot) = Inr ()"
    and link: "\<forall>m. mp = Some m \<longrightarrow> link_shows (mp_expected_autopilot m) env boot"
  obtains outs l where "loop_run l0 (map (imu_in env) ss @ [gps_in env fx, imu_in env s, gps_in env fx2]) outs l"
    "preflight (l_fusion l) = Ready" "gps_open l" "origin (fu_nav (l_fusion l)) \<noteq> None"
    "\<not> finite_sample s \<Longrightarrow> buf (fu_buffer (l_fusion l)) = []"
proof -
  note i = spawn_unarmed [OF start] spawn_all_inv [OF start]
  define fu1 where "fu1 = fold (on_imu env) ss (l_fusion l0)"
  let ?l1 = "l0\<lparr>l_fusion := fu1\<rparr>"
  have r1: "loop_run l0 (map (imu_in env) ss) [] ?l1" unfolding fu1_def using i(11) by (intro imu_run) auto
  have u1: "unarmed (l_fusion l0) fu1" unfolding fu1_def by (rule fold_on_imu_unarmed [OF i(1)])
  have init1: "initialized (fu_nav fu1)"
    unfolding fu1_def fold_on_imu_nav using i(2) fin enough by (intro warming_fold) (auto simp: i(3) dr_new_def)
  have un: "preflight fu1 = Initializing" "wiring fu1 = wiring (l_fusion l0)" "checklist fu1 = checklist (l_fusion l0)"
    "\<not> anchor_locked (fu_nav fu1)" "buf (fu_buffer fu1) = []"
    using u1 i by (auto simp: unarmed_def dr_new_def)
  have ok1: "link_ok env fu1"
  proof (cases mp)
    case None
    then have "link_ok env (l_fusion l0)" using i(4,5) by (simp add: link_ok_def preflight_facts_def wiring_def)
    then show ?thesis using link_ok_cong [of fu1 "l_fusion l0"] un by simp
  next
    case (Some m)
    have "fst (wiring fu1) = (True, Some (mp_expected_autopilot m)) \<and> fu_boot fu1 = boot"
      using un(2) i(4) Some by (simp add: wiring_def)
    then show ?thesis using link Some by (intro link_ok_wired) auto
  qed
  have "is_first_fix_plausible (e_math env) fx (fu_nav fu1) = Inr ()"
    using plausible u1 plausible_cong [of "fu_nav fu1" "dr_new (fc_nav cfg) boot"]
    by (simp add: unarmed_def wiring_def i(3))
  from first_origin [OF u1 init1 this ok1 un(1,4)] obtain fu2 o2 where fu2: "on_gps env fx fu1 = Some (fu2, o2)"
    "is_initialized (fu_nav fu2)" "preflight fu2 = Initializing"
    "first_fix_accepted (checklist fu2)" "link_ok env fu2" "fu_buffer fu2 = fu_buffer fu1" by blast
  let ?fu3 = "on_imu env s fu2"
  have init3: "is_initialized (fu_nav ?fu3)"
    using fu2(2) step_keeps_initialized by (simp add: is_initialized_def on_imu_frame(6) step_frame)
  have c3: "checklist ?fu3 = (checklist fu2)\<lparr>static_init_done := True\<rparr>"
    using init3 by (auto simp: on_imu_def Let_def case_prod_beta split: option.splits if_splits)
  have ok3: "link_ok env ?fu3" "preflight ?fu3 = Initializing" "static_init_done (checklist ?fu3)" "first_fix_accepted (checklist ?fu3)"
    using fu2(3-5) link_ok_cong [of ?fu3 fu2] c3 by (simp_all add: on_imu_frame(2))
  obtain fu4 o4 where fu4: "on_gps env fx2 ?fu3 = Some (fu4, o4)"
    "preflight fu4 = Ready" "fu_buffer fu4 = fu_buffer ?fu3" "origin (fu_nav fu4) \<noteq> None"
    using passes [OF init3 ok3(3,4,2,1), of fx2] by blast
  have "loop_run l0 ((map (imu_in env) ss @ [gps_in env fx]) @ [imu_in env s]) (([] @ o2) @ []) (l0\<lparr>l_fusion := ?fu3\<rparr>)"
    using loop_run.more [OF loop_run.more [OF r1 gps_step] imu_step] i(11) fu2(1) by simp
  from loop_run.more [OF this gps_step [of _ env fx2 fu4 o4]] i(11) fu4(1)
  have "loop_run l0 (map (imu_in env) ss @ [gps_in env fx, imu_in env s, gps_in env fx2]) (o2 @ o4) (l0\<lparr>l_fusion := fu4\<rparr>)"
    by simp
  moreover have "buf (fu_buffer ?fu3) = []" if "\<not> finite_sample s"
    using that fu2(6) un(5) by (auto simp: on_imu_def step_def finite_sample_def Let_def case_prod_beta split: option.splits)
  ultimately show ?thesis using that [of "o2 @ o4" "l0\<lparr>l_fusion := fu4\<rparr>"] fu4 i(11) by simp
qed

text \<open>
  C22. The detector arms: a task started without an autopilot link, or with one that shows a
  fresh heartbeat of the expected autopilot, becomes Ready once it has
  seen enough finite IMU samples for the static initialisation, a plausible fix, one more
  sample and one more fix.
\<close>

theorem arming_live:
  assumes "spawn_all cfg mp fc boot = Some (Inr l0)" and "\<forall>s\<in>set ss. finite_sample s"
    and "init_target (fc_nav cfg) \<le> length ss"
    and "is_first_fix_plausible (e_math env) fx (dr_new (fc_nav cfg) boot) = Inr ()"
    and "\<forall>m. mp = Some m \<longrightarrow> link_shows (mp_expected_autopilot m) env boot"
  shows "\<exists>outs l. loop_run l0 (map (imu_in env) ss @ [gps_in env fx, imu_in env s, gps_in env fx2]) outs l
    \<and> preflight (l_fusion l) = Ready"
  by (rule arming_run [OF assms]) blast

section \<open>A started task\<close>

lemma lit_pos:
  assumes "1 \<le> prec F" "bound_ok F (of_int 1 / 2 ^ k)" "bound_ok F (of_int 1)" "of_int 1 / 2 ^ k \<le> x" "x \<le> 1"
  shows "fgt (lit F x) (FNum 0) \<and> is_finite (lit F x) \<and> fle (lit F x) (FNum 1)"
proof -
  have p: "0 < (of_int 1 / 2 ^ k :: rat)" by simp
  then have "0 < x" using assms(4) by linarith
  then have "fin_in (of_int 1 / 2 ^ k) (of_int 1) (lit F x)"
    unfolding lit_def using assms by (intro fround_in) auto
  then have "fin_in q 1 (lit F x) \<and> 0 < q" if "q = (of_int 1 / 2 ^ k :: rat)" for q using p that by simp
  then obtain q where "fin_in q 1 (lit F x)" "0 < q" by blast
  then show ?thesis by (cases "lit F x") (auto simp: fin_in_def)
qed

lemma default_validates: "validate fusion_config_default = Inr ()"
proof -
  have "bound_ok B32 (of_int 1 / 2 ^ 7)" "bound_ok B32 (of_int 1)" by (intro bound_ok_dyadic bound_ok_int; simp)+
  then have l: "fgt (lit B32 (5 / 100)) (FNum 0) \<and> is_finite (lit B32 (5 / 100)) \<and> fle (lit B32 (5 / 100)) (FNum 1)"
    "fgt (lit B32 (1 / 100)) (FNum 0) \<and> is_finite (lit B32 (1 / 100)) \<and> fle (lit B32 (1 / 100)) (FNum 1)"
    by (intro lit_pos [of B32 7]; simp)+
  then show ?thesis
    by (simp add: validate_def validate_checks_def fusion_config_default_def nav_config_default_def
        detect_config_default_def pos_finite_def Let_def)
qed

lemma default_buffer: "\<exists>b. buffer_new (FNum 2) (FNum 100) = Some b \<and> buf b = []"
proof -
  have "fin_in (of_int 1) (of_int 2) (lit B64 (11 / 10))"
    unfolding lit_def by (intro fround_in bound_ok_int) simp_all
  then obtain v where v: "lit B64 (11 / 10) = FNum v" "1 \<le> v" "v \<le> 2"
    by (cases "lit B64 (11 / 10)") (auto simp: fin_in_def)
  then have "fin_in (of_int 200) (of_int 400) (fround B64 False (200 * v))"
    by (intro fround_in bound_ok_int) simp_all
  then obtain w where w: "fround B64 False (200 * v) = FNum w" "200 \<le> w" "w \<le> 400"
    by (cases "fround B64 False (200 * v)") (auto simp: fin_in_def)
  have "\<lceil>w\<rceil> \<le> 400" "200 \<le> \<lceil>w\<rceil>" using w(2,3) by (auto simp: ceiling_le_iff le_ceiling_iff)
  then have "(nat \<lceil>w\<rceil> + 4) mod 2 ^ 64 \<le> 404" by (intro order_trans [OF mod_less_eq_dividend]) linarith
  then have "buffer_capacity (FNum 2) (FNum 100) \<le> 404"
    using v w \<open>\<lceil>w\<rceil> \<le> 400\<close> \<open>200 \<le> \<lceil>w\<rceil>\<close> by (simp add: buffer_capacity_def fmul_FNum fceil_def cast_usize_def cast_int_def ftrunc_def)
  then show ?thesis by (simp add: buffer_new_def Let_def)
qed

lemma default_starts: "\<exists>l0. spawn_all fusion_config_default None None 0 = Some (Inr l0)"
proof -
  obtain b where "buffer_new (FNum 2) (FNum 100) = Some b" using default_buffer by blast
  then have "\<exists>fu. fusion_new fusion_config_default 0 = Some fu"
    by (simp add: fusion_new_def fusion_config_default_def)
  then show ?thesis using default_validates by (auto simp: spawn_all_def)
qed

lemma default_target: "init_target (fc_nav fusion_config_default) = 100"
  by (simp add: init_target_def fusion_config_default_def nav_config_default_def fmul_FNum fmax_def cast_usize_def
      cast_int_def ftrunc_def)

lemma default_plausible: "is_first_fix_plausible mm fx (dr_new (fc_nav fusion_config_default) b) = Inr ()"
  by (simp add: is_first_fix_plausible_def dr_new_def fusion_config_default_def nav_config_default_def)

definition nan_sample :: imu_sample where
  "nan_sample = level_sample\<lparr>accel_mps2 := \<lparr>v0 = FNaN, v1 = FNum 0, v2 = FNum 0\<rparr>\<rparr>"

lemma samples_finite: "finite_sample level_sample" "\<not> finite_sample nan_sample"
  by (simp_all add: finite_sample_def level_sample_def nan_sample_def vec3_finite_def vec3_zero_def)

text \<open>The run of the witnesses: arm the default task, then hand it a fix its buffer cannot serve.\<close>

lemma armed_run:
  obtains l0 outs x l where "spawn_all fusion_config_default None None 0 = Some (Inr l0)"
    "loop_run l0 (map (imu_in bench_env) (replicate 100 level_sample)
       @ [gps_in bench_env toy_fix, imu_in bench_env nan_sample, gps_in bench_env toy_fix, gps_in bench_env bench_fix]) (outs @ [x]) l"
    "\<not> preflight_output x"
proof -
  obtain l0 where s: "spawn_all fusion_config_default None None 0 = Some (Inr l0)" using default_starts by blast
  obtain outs l where r: "loop_run l0 (map (imu_in bench_env) (replicate 100 level_sample)
       @ [gps_in bench_env toy_fix, imu_in bench_env nan_sample, gps_in bench_env toy_fix]) outs l"
    "preflight (l_fusion l) = Ready" "gps_open l" "origin (fu_nav (l_fusion l)) \<noteq> None" "buf (fu_buffer (l_fusion l)) = []"
    by (rule arming_run [OF s, of "replicate 100 level_sample" bench_env toy_fix nan_sample toy_fix])
      (use samples_finite default_target default_plausible in auto)
  obtain g where g: "gps_in_ned (e_math bench_env) bench_fix (fu_nav (l_fusion l)) = Some g"
    using r(4) by (auto simp: gps_in_ned_def)
  let ?t = "fu_secs (l_fusion l) (mono (fix_t bench_fix))"
  obtain fu1 o1 where nd: "note_dropout bench_fix ?t (l_fusion l) = (fu1, o1)" by (metis surj_pair)
  define fu2 where "fu2 = (if frozen_candidate bench_env bench_fix fu1 then fu1 else restart_frozen bench_fix fu1)"
  have "fu_buffer fu2 = fu_buffer (l_fusion l)"
    using note_dropout_core [OF nd] by (auto simp: fu2_def same_core_def restart_frozen_def)
  then have "interpolate (fu_buffer fu2) ?t = Inl BufferEmpty" using r(5) by (simp add: interpolate_def)
  then have "on_gps bench_env bench_fix (l_fusion l) = Some (fu2\<lparr>fu_nav := on_gps_fix (e_math bench_env) bench_fix (fu_nav fu2)\<rparr>,
      o1 @ [event_of fu2 (fix_t bench_fix) KSyncWarning (FNum 0) (DSync BufferEmpty)])"
    using g r(2) nd by (simp add: on_gps_def ready_fix_def Let_def fu2_def [symmetric])
  from loop_run.more [OF r(1) gps_step [OF r(3) this]]
  show ?thesis by (intro that [OF s, of "outs @ o1" "event_of fu2 (fix_t bench_fix) KSyncWarning (FNum 0) (DSync BufferEmpty)"]) simp_all
qed

text \<open>An environment whose autopilot, an ArduPilot, has just sent a heartbeat.\<close>

definition linked_env :: fusion_env where
  "linked_env = bench_env\<lparr>e_monitor := monitor_new\<lparr>heartbeat_ever := True, last_heartbeat_ns := 12 * 10 ^ 9, current_autopilot := MAV_AUTOPILOT_ARDUPILOTMEGA\<rparr>\<rparr>"

lemma linked_env_shows: "link_shows MAV_AUTOPILOT_ARDUPILOTMEGA linked_env 0"
  by (simp add: link_shows_def linked_env_def bench_env_def heartbeat_fresh_def since_boot_ns_def
      nanos_u64_def saturating_duration_since_def saturating_sub_def)

lemma wired_starts:
  "\<exists>l0. spawn_all fusion_config_default (Some \<lparr>mp_expected_autopilot = MAV_AUTOPILOT_ARDUPILOTMEGA\<rparr>) None 0 = Some (Inr l0)"
  using default_starts by (auto simp: spawn_all_def split: option.splits sum.splits)

theorem arming_live_witness:
  "\<exists>l0 outs l. spawn_all fusion_config_default (Some \<lparr>mp_expected_autopilot = MAV_AUTOPILOT_ARDUPILOTMEGA\<rparr>) None 0 = Some (Inr l0)
    \<and> loop_run l0 (map (imu_in linked_env) (replicate 100 level_sample)
        @ [gps_in linked_env toy_fix, imu_in linked_env level_sample, gps_in linked_env toy_fix]) outs l
    \<and> preflight (l_fusion l) = Ready"
proof -
  obtain l0 where s: "spawn_all fusion_config_default (Some \<lparr>mp_expected_autopilot = MAV_AUTOPILOT_ARDUPILOTMEGA\<rparr>) None 0 = Some (Inr l0)"
    using wired_starts by blast
  have "\<forall>s\<in>set (replicate 100 level_sample). finite_sample s"
    "init_target (fc_nav fusion_config_default) \<le> length (replicate 100 level_sample)"
    using samples_finite(1) default_target by simp_all
  from arming_live [OF s this default_plausible] linked_env_shows s show ?thesis by fastforce
qed

theorem started_task_invariant_witness:
  "\<exists>l0 outs l. spawn_all fusion_config_default None None 0 = Some (Inr l0)
    \<and> loop_run l0 (map (imu_in bench_env) (replicate 100 level_sample)
        @ [gps_in bench_env toy_fix, imu_in bench_env nan_sample, gps_in bench_env toy_fix, gps_in bench_env bench_fix]) outs l
    \<and> dr_state (fu_nav (l_fusion l)) = sm_state (fu_fsm (l_fusion l))"
proof -
  obtain l0 outs x l where r: "spawn_all fusion_config_default None None 0 = Some (Inr l0)"
    "loop_run l0 (map (imu_in bench_env) (replicate 100 level_sample)
       @ [gps_in bench_env toy_fix, imu_in bench_env nan_sample, gps_in bench_env toy_fix, gps_in bench_env bench_fix]) (outs @ [x]) l"
    by (rule armed_run)
  from started_task_invariant [OF r] r show ?thesis by blast
qed

theorem preflight_gates_detector_witness:
  "\<exists>l0 before x l. spawn_all fusion_config_default None None 0 = Some (Inr l0)
    \<and> loop_run l0 (map (imu_in bench_env) (replicate 100 level_sample)
        @ [gps_in bench_env toy_fix, imu_in bench_env nan_sample, gps_in bench_env toy_fix, gps_in bench_env bench_fix]) (before @ [x]) l
    \<and> \<not> preflight_output x \<and> (\<exists>y\<in>set before. passed_output y)"
proof -
  obtain l0 outs x l where r: "spawn_all fusion_config_default None None 0 = Some (Inr l0)"
    "loop_run l0 (map (imu_in bench_env) (replicate 100 level_sample)
       @ [gps_in bench_env toy_fix, imu_in bench_env nan_sample, gps_in bench_env toy_fix, gps_in bench_env bench_fix]) (outs @ [x]) l"
    "\<not> preflight_output x" by (rule armed_run)
  from preflight_gates_detector [OF r] r show ?thesis by blast
qed

theorem actions_bounded_by_resets_witness:
  "\<exists>l0 outs l k. spawn_all fusion_config_default None None 0 = Some (Inr l0)
    \<and> loop_run l0 [LPoll bench_env Pending Pending (Item ())] outs l
    \<and> k \<le> resets outs + 1 \<and> acts outs = concat (replicate k [SeverGps, EngageRtb])"
proof -
  obtain l0 where s: "spawn_all fusion_config_default None None 0 = Some (Inr l0)" using default_starts by blast
  obtain fu outs where o: "operator_reset bench_env (l_fusion l0) = (fu, outs)" by (metis surj_pair)
  have "loop_step l0 (LPoll bench_env Pending Pending (Item ())) outs (l0\<lparr>l_fusion := fu\<rparr>)"
    using o spawn_all_inv(5) [OF s] by (intro loop_step.poll) (simp add: select_step_def loop_running_def)
  from loop_run.more [OF loop_run.start this] have "loop_run l0 [LPoll bench_env Pending Pending (Item ())] outs (l0\<lparr>l_fusion := fu\<rparr>)" by simp
  from actions_bounded_by_resets [OF s this] s this show ?thesis by blast
qed

theorem dumps_bounded_witness:
  "\<exists>l0 outs l. spawn_all fusion_config_default None None 0 = Some (Inr l0)
    \<and> loop_run l0 (map (imu_in bench_env) (replicate 100 level_sample)
        @ [gps_in bench_env toy_fix, imu_in bench_env nan_sample, gps_in bench_env toy_fix, gps_in bench_env bench_fix]) outs l
    \<and> dumps outs \<le> failures outs + 1"
proof -
  obtain l0 outs x l where r: "spawn_all fusion_config_default None None 0 = Some (Inr l0)"
    "loop_run l0 (map (imu_in bench_env) (replicate 100 level_sample)
       @ [gps_in bench_env toy_fix, imu_in bench_env nan_sample, gps_in bench_env toy_fix, gps_in bench_env bench_fix]) (outs @ [x]) l"
    by (rule armed_run)
  from dumps_bounded [OF r] r show ?thesis by blast
qed

section \<open>Panics\<close>

text \<open>The only operation of the loop that can panic is the clamp of the frozen-fix stage.\<close>

lemma on_gps_total:
  assumes "fle (FNum 0) (fu_gps_dropout_freeze_s fu)"
  shows "on_gps env fx fu \<noteq> None"
proof -
  have acc: "frozen_accrue gap v fu' \<noteq> None" if "fu_gps_dropout_freeze_s fu' = fu_gps_dropout_freeze_s fu" for gap v fu'
    using assms that by (simp add: frozen_accrue_def fclamp_def)
  have dec: "frozen_decision f gap v r fu' \<noteq> None" if "fu_gps_dropout_freeze_s fu' = fu_gps_dropout_freeze_s fu" for f gap v r fu'
    using acc [of "fu'\<lparr>frozen_fix_streak := saturating_add (frozen_fix_streak fu') 1\<rparr>" gap "horizontal_norm v"] that
    by (auto simp: frozen_decision_def Let_def split: option.splits)
  have "ready_fix env fx g fu \<noteq> None" for g
  proof -
    let ?t = "fu_secs fu (mono (fix_t fx))"
    obtain fu1 o1 where nd: "note_dropout fx ?t fu = (fu1, o1)" by (metis surj_pair)
    have "fu_gps_dropout_freeze_s (forensic_fix fx ?t r fu1) = fu_gps_dropout_freeze_s fu" for r
      using note_dropout_core [OF nd] forensic_fix_core [of fu1 fx ?t r] by (simp add: same_core_def)
    then have nn: "\<exists>p. frozen_decision fx gap v r (forensic_fix fx ?t r' fu1) = Some p" for gap v r r'
      using dec by (metis not_None_eq)
    show ?thesis
    proof (cases "frozen_candidate env fx fu1")
      case False
      then show ?thesis by (simp add: ready_fix_def nd Let_def case_prod_beta split: sum.splits)
    next
      case True
      show ?thesis
      proof (cases "interpolate (fu_buffer fu1) ?t")
        case (Inr pv)
        obtain p v where "pv = (p, v)" by force
        moreover obtain q where "frozen_decision fx (dropout_gap ?t fu) v (residual_of env fx g p v (fu_nav fu1))
            (forensic_fix fx ?t (residual_of env fx g p v (fu_nav fu1)) fu1) = Some q" using nn by blast
        ultimately show ?thesis using True Inr by (simp add: ready_fix_def nd Let_def case_prod_beta)
      qed (use True in \<open>simp add: ready_fix_def nd Let_def\<close>)
    qed
  qed
  then show ?thesis by (auto simp: on_gps_def split: option.splits)
qed

lemma evaluate_freeze:
  assumes "evaluate_fix env fx t g r fu = (fu', outs)"
  shows "fu_gps_dropout_freeze_s fu' = fu_gps_dropout_freeze_s fu"
  using assms
proof (cases rule: evaluate_fix_cases)
  case (latch evs dets fsm2 outs')
  obtain dump where "maybe_trigger_forensic_dump env Suspicious r (EvTransition Suspicious Spoofed)
      (fu\<lparr>fu_fsm := fsm2, fu_nav := set_state Spoofed (fu_nav fu)\<rparr>) = (fu', dump)"
    using latch(4) by (rule spoofed_actions_shape)
  then show ?thesis by (auto simp: maybe_trigger_forensic_dump_def Let_def split: option.splits if_splits prod.splits)
qed (simp_all add: forward_fix_def clear_actions_def)

lemma refresh_freeze: "refresh_preflight env t s fu = (fu', outs) \<Longrightarrow> fu_gps_dropout_freeze_s fu' = fu_gps_dropout_freeze_s fu"
  by (auto simp: refresh_preflight_def preflight_facts_def Let_def split: if_splits)

lemma on_gps_freeze:
  assumes "on_gps env fx fu = Some (fu', outs)"
  shows "fu_gps_dropout_freeze_s fu' = fu_gps_dropout_freeze_s fu"
  using assms
proof (cases rule: on_gps_cases)
  case first
  then show ?thesis using refresh_freeze [OF first(3)] by simp
next
  case (gated g)
  obtain fu1 o1 where r: "refresh_preflight env (fu_secs fu (mono (fix_t fx))) (fix_t fx) fu = (fu1, o1)"
    by (metis surj_pair)
  then show ?thesis using gated(3) refresh_freeze [OF r] by (auto simp: preflight_fix_def Let_def split: if_splits)
next
  case (ready g)
  from ready(3) show ?thesis
    by (cases rule: ready_fix_cases) (auto simp: same_core_def dest: evaluate_freeze)
qed simp

lemma loop_step_freeze:
  assumes "loop_step l i outs l'"
  shows "fu_gps_dropout_freeze_s (l_fusion l') = fu_gps_dropout_freeze_s (l_fusion l)"
  using assms
proof (cases rule: loop_step_cases)
  case (imu env s)
  then show ?thesis by (auto simp: on_imu_def Let_def case_prod_beta split: option.splits)
next
  case (reset env)
  then have "l_fusion l' = fst (operator_reset env (l_fusion l))" by simp
  then show ?thesis by (simp add: operator_reset_def)
qed (auto dest: on_gps_freeze)

lemma spawn_freeze:
  assumes "spawn_all cfg mp fc boot = Some (Inr l)"
  shows "fu_gps_dropout_freeze_s (l_fusion l) = gps_dropout_freeze_s (fc_detect cfg)"
proof -
  obtain fu where new: "fusion_new cfg boot = Some fu"
    using assms by (auto simp: spawn_all_def split: sum.splits option.splits)
  define fu1 where "fu1 = (case mp of Some m \<Rightarrow> with_mav_monitor (mp_expected_autopilot m) fu | None \<Rightarrow> fu)"
  have f: "fu_gps_dropout_freeze_s fu1 = gps_dropout_freeze_s (fc_detect cfg)"
    using new by (auto simp: fu1_def with_mav_monitor_def fusion_new_def split: option.splits)
  show ?thesis
  proof (cases fc)
    case None
    then show ?thesis using assms new f by (auto simp: spawn_all_def fu1_def [symmetric] loop_start_def split: sum.splits)
  next
    case (Some c)
    then have "map_option (\<lambda>fu2. Inr (loop_start fu2)) (with_forensic (fcfg_dir c) (fcfg_window_s c) (max_imu_rate_hz cfg) fu1)
        = Some (Inr l :: startup_error + fusion_loop)"
      using assms new by (simp add: spawn_all_def fu1_def [symmetric] split: sum.splits)
    then show ?thesis using f by (auto simp: with_forensic_def loop_start_def)
  qed
qed

text \<open>
  C17. No panic in flight: once a task has started with a dropout threshold that is not
  negative, every turn of the loop returns, in every state it can reach and whatever the
  channels deliver; not-a-number and infinite inputs included.
\<close>

theorem loop_never_panics:
  assumes "spawn_all cfg mp fc boot = Some (Inr l0)" and "fle (FNum 0) (gps_dropout_freeze_s (fc_detect cfg))"
    and "loop_run l0 ins outs l"
  shows "\<exists>l' outs'. select_step env imu gps rst l = Some (l', outs')"
proof -
  have "fu_gps_dropout_freeze_s (l_fusion l) = fu_gps_dropout_freeze_s (l_fusion l0)"
    using assms(3) by induction (auto dest: loop_step_freeze)
  then have "on_gps env fx (l_fusion l) \<noteq> None" for fx
    using on_gps_total spawn_freeze [OF assms(1)] assms(2) by simp
  then have "select_step env imu gps rst l \<noteq> None"
    by (simp add: select_step_def Let_def case_prod_beta split: poll.splits del: not_None_eq)
  then show ?thesis by auto
qed

lemma default_freeze: "fle (FNum 0) (gps_dropout_freeze_s (fc_detect fusion_config_default))"
proof -
  have "bound_ok B32 (of_int 1)" "bound_ok B32 (of_int 3)" by (intro bound_ok_int; simp)+
  then have "fin_in (of_int 1) (of_int 3) (lit B32 (5 / 2))" unfolding lit_def by (intro fround_in) simp_all
  then show ?thesis
    by (cases "lit B32 (5 / 2)") (auto simp: fin_in_def fusion_config_default_def detect_config_default_def)
qed

theorem loop_never_panics_witness:
  "\<exists>l0 l' outs'. spawn_all fusion_config_default None None 0 = Some (Inr l0)
    \<and> select_step bench_env Pending (Item bench_fix) Pending l0 = Some (l', outs')"
proof -
  obtain l0 where s: "spawn_all fusion_config_default None None 0 = Some (Inr l0)" using default_starts by blast
  from loop_never_panics [OF s default_freeze loop_run.start, of bench_env Pending "Item bench_fix" Pending] s show ?thesis by blast
qed

definition negative_freeze :: fusion_config where
  "negative_freeze = fusion_config_default\<lparr>fc_detect := detect_config_default\<lparr>gps_dropout_freeze_s := FNum (- 1)\<rparr>\<rparr>"

text \<open>
  The start-up check lets a panic through: a configuration that is the default one but
  for a negative dropout threshold passes \<open>validate\<close> and starts, and the first frozen fix
  of a moving vehicle then panics in the clamp.
\<close>

theorem negative_freeze_panics:
  "\<exists>l0. spawn_all negative_freeze None None 0 = Some (Inr l0) \<and> frozen_accrue (FNum 1) (FNum 2) (l_fusion l0) = None"
proof -
  have "validate_checks negative_freeze = validate_checks fusion_config_default"
    by (simp add: validate_checks_def negative_freeze_def fusion_config_default_def Let_def)
  then have v: "validate negative_freeze = Inr ()" using default_validates by (simp add: validate_def)
  obtain b where "buffer_new (FNum 2) (FNum 100) = Some b" using default_buffer by blast
  then obtain fu where new: "fusion_new negative_freeze 0 = Some fu"
    by (auto simp: fusion_new_def negative_freeze_def fusion_config_default_def)
  then have "spawn_all negative_freeze None None 0 = Some (Inr (loop_start fu))" using v by (simp add: spawn_all_def)
  moreover have "fu_gps_dropout_freeze_s fu = FNum (- 1)"
    using new by (auto simp: fusion_new_def negative_freeze_def split: option.splits)
  then have "frozen_accrue (FNum 1) (FNum 2) (l_fusion (loop_start fu)) = None"
    by (simp add: frozen_accrue_def loop_start_def FROZEN_FIX_MIN_IMU_VEL_MPS_def fclamp_def)
  ultimately show ?thesis by blast
qed

text \<open>
  A reset channel whose senders are gone clears the alarm: the loop does not look at
  what the channel returned, so once it is closed every idle turn runs the operator reset,
  from Spoofed too.
\<close>

theorem closed_reset_clears_alarm:
  "\<exists>l' outs. select_step env Pending Pending Closed (l\<lparr>imu_open := True\<rparr>) = Some (l', outs)
    \<and> sm_state (fu_fsm (l_fusion l')) = Normal \<and> resets outs = 1 \<and> imu_open l'"
  by (simp add: select_step_def loop_running_def operator_reset_def resets_def spoofing_event_new_def)

end
