(* ===== verification/Nmea_Link.thy ===== *)
theory Nmea_Link
  imports Types
begin

text \<open>
  The link layer of the serial GPS, \<open>src/src/hw/nmea_link.rs\<close>: the codec that frames the
  byte stream into lines, and the tracker that decides when a quiet link is trouble. A
  \<open>String\<close> is its list of UTF-8 bytes. The buffer the codec works on belongs to its
  driver (\<open>FramedRead\<close>), which appends what a read returned and calls \<open>decode\<close>
  until it answers \<open>None\<close>; \<open>decode_all\<close> and \<open>feed\<close> are that driver, and the
  framing theorems are stated over it.
\<close>

section \<open>Framing\<close>

definition NMEA_MAX_LINE_BYTES :: nat where
  "NMEA_MAX_LINE_BYTES = 512"

datatype nmea_line = Line "u8 list" | NonUtf8 nat | Overlong nat

record nmea_line_codec =
  bytes_seen :: u64
  last_len :: nat

definition codec_new :: nmea_line_codec where
  "codec_new = \<lparr>bytes_seen = 0, last_len = 0\<rparr>"

text \<open>
  The check of \<open>String::from_utf8\<close>: every byte starts or continues one of the
  well-formed sequences (no overlong form, no surrogate, nothing past U+10FFFF).
\<close>

definition continuation :: "u8 \<Rightarrow> bool" where
  "continuation b \<longleftrightarrow> 0x80 \<le> b \<and> b \<le> 0xBF"

definition second_byte_ok :: "u8 \<Rightarrow> u8 \<Rightarrow> bool" where
  "second_byte_ok b c \<longleftrightarrow>
     (if b = 0xE0 then 0xA0 \<le> c \<and> c \<le> 0xBF
      else if b = 0xED then 0x80 \<le> c \<and> c \<le> 0x9F
      else if b = 0xF0 then 0x90 \<le> c \<and> c \<le> 0xBF
      else if b = 0xF4 then 0x80 \<le> c \<and> c \<le> 0x8F
      else continuation c)"

fun valid_utf8 :: "u8 list \<Rightarrow> bool" where
  "valid_utf8 [] = True"
| "valid_utf8 (b # bs) =
     (if b < 0x80 then valid_utf8 bs
      else if 0xC2 \<le> b \<and> b \<le> 0xDF then
        (case bs of c # r \<Rightarrow> continuation c \<and> valid_utf8 r | _ \<Rightarrow> False)
      else if 0xE0 \<le> b \<and> b \<le> 0xEF then
        (case bs of c # d # r \<Rightarrow> second_byte_ok b c \<and> continuation d \<and> valid_utf8 r | _ \<Rightarrow> False)
      else if 0xF0 \<le> b \<and> b \<le> 0xF4 then
        (case bs of c # d # e # r \<Rightarrow>
           second_byte_ok b c \<and> continuation d \<and> continuation e \<and> valid_utf8 r
         | _ \<Rightarrow> False)
      else False)"

definition newline :: u8 where "newline = 0x0A"
definition carriage_return :: u8 where "carriage_return = 0x0D"

definition position :: "('a \<Rightarrow> bool) \<Rightarrow> 'a list \<Rightarrow> nat option" where
  "position P xs = (if list_ex P xs then Some (length (takeWhile (\<lambda>x. \<not> P x) xs)) else None)"

text \<open>What a complete line becomes: the carriage returns removed, then the UTF-8 check.\<close>

definition frame_line :: "u8 list \<Rightarrow> nmea_line" where
  "frame_line l =
     (let trimmed = filter (\<lambda>b. b \<noteq> carriage_return) l
      in if valid_utf8 trimmed then Line trimmed else NonUtf8 (length trimmed))"

definition decode :: "nmea_line_codec \<Rightarrow> u8 list \<Rightarrow> nmea_line option \<times> nmea_line_codec \<times> u8 list" where
  "decode c src =
     (let c = c\<lparr>bytes_seen := bytes_seen c + word_of_nat (length src - last_len c)\<rparr>;
          (out, src) =
            (case position (\<lambda>b. b = newline) src of
               Some pos \<Rightarrow>
                 (let line = take (pos + 1) src
                  in (Some (frame_line (take (length line - 1) line)), drop (pos + 1) src))
             | None \<Rightarrow>
                 if length src > NMEA_MAX_LINE_BYTES then (Some (Overlong (length src)), [])
                 else (None, src))
      in (out, c\<lparr>last_len := length src\<rparr>, src))"

definition decode_eof :: "nmea_line_codec \<Rightarrow> u8 list \<Rightarrow> nmea_line option \<times> nmea_line_codec \<times> u8 list" where
  "decode_eof c src =
     (case decode c src of
        (Some item, c, src) \<Rightarrow> (Some item, c, src)
      | (None, c, src) \<Rightarrow> (None, c\<lparr>last_len := 0\<rparr>, []))"

lemma position_first: "newline \<notin> set p \<Longrightarrow> position (\<lambda>b. b = newline) (p @ newline # q) = Some (length p)"
  by (induction p) (auto simp: position_def)

lemma position_none: "newline \<notin> set p \<Longrightarrow> position (\<lambda>b. b = newline) p = None"
  by (auto simp: position_def list_ex_iff)

definition counted :: "nmea_line_codec \<Rightarrow> u8 list \<Rightarrow> u8 list \<Rightarrow> nmea_line_codec" where
  "counted c src src' =
     c\<lparr>bytes_seen := bytes_seen c + word_of_nat (length src - last_len c), last_len := length src'\<rparr>"

lemma decode_line:
  "newline \<notin> set p \<Longrightarrow> decode c (p @ newline # q) = (Some (frame_line p), counted c (p @ newline # q) q, q)"
  by (simp add: decode_def position_first counted_def)

lemma decode_partial:
  "newline \<notin> set p \<Longrightarrow> length p \<le> NMEA_MAX_LINE_BYTES \<Longrightarrow> decode c p = (None, counted c p p, p)"
  by (simp add: decode_def position_none counted_def)

lemma decode_overlong:
  "newline \<notin> set p \<Longrightarrow> NMEA_MAX_LINE_BYTES < length p \<Longrightarrow> decode c p = (Some (Overlong (length p)), counted c p [], [])"
  by (simp add: decode_def position_none counted_def)

text \<open>Every buffer is in one of the three situations.\<close>

lemma buffer_cases:
  obtains (line) p q where "newline \<notin> set p" "src = p @ newline # q"
  | (partial) "newline \<notin> set src" "length src \<le> NMEA_MAX_LINE_BYTES"
  | (overlong) "newline \<notin> set src" "NMEA_MAX_LINE_BYTES < length src"
  using split_list_first [of newline src] by (meson not_le)

lemma decode_shrinks:
  assumes "decode c src = (Some x, c', src')"
  shows "length src' < length src"
  using assms
  by (cases src rule: buffer_cases) (auto simp: decode_line decode_partial decode_overlong NMEA_MAX_LINE_BYTES_def)

text \<open>The driver: \<open>decode\<close> until it has nothing more, and one read's worth of bytes.\<close>

function decode_all :: "nmea_line_codec \<Rightarrow> u8 list \<Rightarrow> nmea_line list \<times> nmea_line_codec \<times> u8 list" where
  "decode_all c src =
     (case decode c src of
        (None, c', src') \<Rightarrow> ([], c', src')
      | (Some x, c', src') \<Rightarrow> (case decode_all c' src' of (xs, c'', src'') \<Rightarrow> (x # xs, c'', src'')))"
  by pat_completeness auto
termination
  by (relation "measure (\<lambda>(c, src). length src)") (auto dest: decode_shrinks [OF sym])

declare decode_all.simps [simp del]

definition feed :: "nmea_line_codec \<times> u8 list \<Rightarrow> u8 list \<Rightarrow> nmea_line list \<times> nmea_line_codec \<times> u8 list" where
  "feed st chunk = decode_all (fst st) (snd st @ chunk)"

fun feed_chunks :: "nmea_line_codec \<times> u8 list \<Rightarrow> u8 list list \<Rightarrow> nmea_line list \<times> nmea_line_codec \<times> u8 list" where
  "feed_chunks st [] = ([], st)"
| "feed_chunks st (ch # chs) =
     (case feed st ch of (xs, st') \<Rightarrow> (case feed_chunks st' chs of (ys, st'') \<Rightarrow> (xs @ ys, st'')))"


section \<open>Link health\<close>

definition nanos_of_secs :: "nat \<Rightarrow> duration" where
  "nanos_of_secs s = s * 10 ^ 9"

definition ACTIVITY_WINDOW :: duration where "ACTIVITY_WINDOW = nanos_of_secs 6"
definition QUIET_LINK_GRACE :: duration where "QUIET_LINK_GRACE = nanos_of_secs 10"
definition NO_FIX_GRACE :: duration where "NO_FIX_GRACE = nanos_of_secs 60"
definition REPEAT_INTERVAL :: duration where "REPEAT_INTERVAL = nanos_of_secs 60"

datatype link_state = Healthy | NoBytes | NoSentences | NoFix | FixesRejected

fun grace :: "link_state \<Rightarrow> duration" where
  "grace Healthy = 0"
| "grace NoFix = NO_FIX_GRACE"
| "grace _ = QUIET_LINK_GRACE"

record link_counts =
  lc_bytes :: u64
  lc_lines :: u64
  nmea_lines :: u64
  non_utf8_lines :: u64
  overlong_discards :: u64
  lc_parse_errors :: u64
  lc_fixes :: u64
  rejected_fixes :: u64

definition link_counts_default :: link_counts where
  "link_counts_default =
     \<lparr>lc_bytes = 0, lc_lines = 0, nmea_lines = 0, non_utf8_lines = 0, overlong_discards = 0,
      lc_parse_errors = 0, lc_fixes = 0, rejected_fixes = 0\<rparr>"

record link_diagnosis =
  ld_state :: link_state
  ld_counts :: link_counts
  silent_for :: duration

definition fixes_stopped :: "link_diagnosis \<Rightarrow> bool" where
  "fixes_stopped d \<longleftrightarrow> lc_fixes (ld_counts d) > 0"

datatype link_report = Trouble link_diagnosis | Recovered link_state link_counts

record link_health =
  lh_counts :: link_counts
  last_byte_at :: "duration option"
  last_nmea_line_at :: "duration option"
  last_fix_at :: "duration option"
  rejected_since_fix :: u64
  last_report_at :: "duration option"
  reported :: "link_state option"

definition link_health_new :: link_health where
  "link_health_new =
     \<lparr>lh_counts = link_counts_default, last_byte_at = None, last_nmea_line_at = None,
      last_fix_at = None, rejected_since_fix = 0, last_report_at = None, reported = None\<rparr>"

definition observe_bytes :: "u64 \<Rightarrow> duration \<Rightarrow> link_health \<Rightarrow> link_health" where
  "observe_bytes n now h =
     (if n > lc_bytes (lh_counts h)
      then h\<lparr>lh_counts := (lh_counts h)\<lparr>lc_bytes := n\<rparr>, last_byte_at := Some now\<rparr>
      else h)"

definition starts_with_dollar :: "u8 list \<Rightarrow> bool" where
  "starts_with_dollar s \<longleftrightarrow> (case s of [] \<Rightarrow> False | b # _ \<Rightarrow> b = 0x24)"

definition on_event :: "nmea_line \<Rightarrow> duration \<Rightarrow> link_health \<Rightarrow> link_health" where
  "on_event evt now h =
     (let c = lh_counts h;
          h = (case evt of
                 Line s \<Rightarrow>
                   (let c = c\<lparr>lc_lines := lc_lines c + 1\<rparr>
                    in if starts_with_dollar s
                       then h\<lparr>lh_counts := c\<lparr>nmea_lines := nmea_lines c + 1\<rparr>, last_nmea_line_at := Some now\<rparr>
                       else h\<lparr>lh_counts := c\<rparr>)
               | NonUtf8 _ \<Rightarrow>
                   h\<lparr>lh_counts := c\<lparr>lc_lines := lc_lines c + 1, non_utf8_lines := non_utf8_lines c + 1\<rparr>\<rparr>
               | Overlong _ \<Rightarrow> h\<lparr>lh_counts := c\<lparr>overlong_discards := overlong_discards c + 1\<rparr>\<rparr>)
      in h\<lparr>last_byte_at := Some now\<rparr>)"

definition on_parse_error :: "link_health \<Rightarrow> link_health" where
  "on_parse_error h =
     h\<lparr>lh_counts := (lh_counts h)\<lparr>lc_parse_errors := lc_parse_errors (lh_counts h) + 1\<rparr>\<rparr>"

definition on_fix :: "duration \<Rightarrow> link_health \<Rightarrow> link_health" where
  "on_fix now h =
     h\<lparr>lh_counts := (lh_counts h)\<lparr>lc_fixes := lc_fixes (lh_counts h) + 1\<rparr>,
       rejected_since_fix := 0, last_fix_at := Some now\<rparr>"

definition on_fix_rejected :: "link_health \<Rightarrow> link_health" where
  "on_fix_rejected h =
     h\<lparr>lh_counts := (lh_counts h)\<lparr>rejected_fixes := rejected_fixes (lh_counts h) + 1\<rparr>,
       rejected_since_fix := rejected_since_fix h + 1\<rparr>"

definition recent :: "duration \<Rightarrow> duration option \<Rightarrow> bool" where
  "recent now t \<longleftrightarrow> (case t of None \<Rightarrow> False | Some t \<Rightarrow> now - t < ACTIVITY_WINDOW)"

definition classify :: "duration \<Rightarrow> link_health \<Rightarrow> link_state" where
  "classify now h =
     (if recent now (last_fix_at h) then Healthy
      else if \<not> recent now (last_byte_at h) then NoBytes
      else if \<not> recent now (last_nmea_line_at h) then NoSentences
      else if rejected_since_fix h > 0 then FixesRejected
      else NoFix)"

definition poll :: "duration \<Rightarrow> link_health \<Rightarrow> link_report option \<times> link_health" where
  "poll now h =
     (let state = classify now h
      in if state = Healthy then
           (case reported h of
              None \<Rightarrow> (None, h)
            | Some was \<Rightarrow>
                (Some (Recovered was (lh_counts h)), h\<lparr>reported := None, last_report_at := None\<rparr>))
         else
           (let silent = now - (case last_fix_at h of None \<Rightarrow> 0 | Some t \<Rightarrow> t)
            in if silent < grace state then (None, h)
               else if (case last_report_at h of None \<Rightarrow> False | Some r \<Rightarrow> now - r < REPEAT_INTERVAL)
               then (None, h)
               else (Some (Trouble \<lparr>ld_state = state, ld_counts = lh_counts h, silent_for = silent\<rparr>),
                     h\<lparr>last_report_at := Some now, reported := Some state\<rparr>)))"

section \<open>Framing is what splitting the whole stream at newlines gives\<close>

text \<open>
  The reference: the complete lines of a byte stream and the unfinished tail, with no buffer,
  no chunks and no length limit.
\<close>

fun split_nl :: "u8 list \<Rightarrow> u8 list list \<times> u8 list" where
  "split_nl [] = ([], [])"
| "split_nl (b # bs) =
     (case split_nl bs of (ls, t) \<Rightarrow>
        if b = newline then ([] # ls, t)
        else (case ls of [] \<Rightarrow> ([], b # t) | l # ls' \<Rightarrow> ((b # l) # ls', t)))"

definition short_lines :: "u8 list \<Rightarrow> bool" where
  "short_lines s \<longleftrightarrow>
     list_all (\<lambda>l. length l \<le> NMEA_MAX_LINE_BYTES) (fst (split_nl s))
     \<and> length (snd (split_nl s)) \<le> NMEA_MAX_LINE_BYTES"

lemma split_nl_partial: "newline \<notin> set p \<Longrightarrow> split_nl p = ([], p)"
  by (induction p) auto

lemma split_nl_line: "newline \<notin> set p \<Longrightarrow> split_nl (p @ newline # q) = (p # fst (split_nl q), snd (split_nl q))"
  by (induction p) (auto split: prod.splits)

lemma split_nl_append:
  "split_nl (a @ b) =
     (fst (split_nl a) @ fst (split_nl (snd (split_nl a) @ b)), snd (split_nl (snd (split_nl a) @ b)))"
proof (induction "length a" arbitrary: a rule: less_induct)
  case less
  show ?case
  proof (cases "newline \<in> set a")
    case True
    then obtain p q where a: "a = p @ newline # q" and p: "newline \<notin> set p"
      using split_list_first by metis
    show ?thesis
      using less [of q] by (simp add: a split_nl_line [OF p])
  qed (simp add: split_nl_partial)
qed

lemma split_nl_tail: "newline \<notin> set (snd (split_nl s))"
proof (induction "length s" arbitrary: s rule: less_induct)
  case less
  show ?case
  proof (cases "newline \<in> set s")
    case True
    then obtain p q where s: "s = p @ newline # q" and p: "newline \<notin> set p"
      using split_list_first by metis
    show ?thesis
      using less [of q] by (simp add: s split_nl_line [OF p])
  qed (simp add: split_nl_partial)
qed

lemma short_lines_line: "newline \<notin> set p \<Longrightarrow> short_lines (p @ newline # q) \<Longrightarrow> short_lines q"
  by (simp add: short_lines_def split_nl_line)

lemma counted_counted:
  assumes "last_len c \<le> length src" and "length q \<le> length src"
  shows "counted (counted c src q) q r = counted c src r"
  using assms by (simp add: counted_def)

lemma decode_all_line:
  assumes "newline \<notin> set p"
  shows "decode_all c (p @ newline # q) =
    (frame_line p # fst (decode_all (counted c (p @ newline # q) q) q),
     snd (decode_all (counted c (p @ newline # q) q) q))"
  by (subst decode_all.simps) (simp add: decode_line [OF assms] case_prod_beta)

lemma decode_all_partial:
  "newline \<notin> set p \<Longrightarrow> length p \<le> NMEA_MAX_LINE_BYTES \<Longrightarrow> decode_all c p = ([], counted c p p, p)"
  by (subst decode_all.simps) (simp add: decode_partial)

lemma decode_all_overlong:
  assumes "newline \<notin> set p" and "NMEA_MAX_LINE_BYTES < length p"
  shows "decode_all c p = ([Overlong (length p)], counted c p [], [])"
proof -
  have "decode_all (counted c p []) [] = ([], counted c p [], [])"
    by (subst decode_all_partial) (simp_all add: counted_def)
  with assms show ?thesis
    by (subst decode_all.simps) (simp add: decode_overlong)
qed

text \<open>Draining a buffer whose lines are short gives the reference split of it.\<close>

lemma decode_all_split:
  assumes "length (snd (split_nl src)) \<le> NMEA_MAX_LINE_BYTES" and "last_len c \<le> length src"
  shows "decode_all c src =
    (map frame_line (fst (split_nl src)), counted c src (snd (split_nl src)), snd (split_nl src))"
  using assms
proof (induction "length src" arbitrary: src c rule: less_induct)
  case less
  show ?case
  proof (cases "newline \<in> set src")
    case True
    then obtain p q where src: "src = p @ newline # q" and p: "newline \<notin> set p"
      using split_list_first by metis
    have IH: "decode_all (counted c src q) q =
        (map frame_line (fst (split_nl q)), counted (counted c src q) q (snd (split_nl q)), snd (split_nl q))"
      using less.prems by (intro less.hyps) (simp_all add: src split_nl_line [OF p] counted_def)
    have "counted (counted c src q) q (snd (split_nl q)) = counted c src (snd (split_nl q))"
      using less.prems by (intro counted_counted) (simp_all add: src)
    with IH show ?thesis
      by (simp add: src decode_all_line [OF p] split_nl_line [OF p])
  next
    case False
    with less.prems show ?thesis
      by (simp add: decode_all_partial split_nl_partial)
  qed
qed

definition link_inv :: "nmea_line_codec \<times> u8 list \<Rightarrow> bool" where
  "link_inv st \<longleftrightarrow>
     last_len (fst st) = length (snd st) \<and> newline \<notin> set (snd st) \<and> length (snd st) \<le> NMEA_MAX_LINE_BYTES"

lemma link_inv_new: "link_inv (codec_new, [])"
  by (simp add: link_inv_def codec_new_def)

lemma short_lines_prefix:
  assumes "newline \<notin> set p" and "short_lines (p @ r)"
  shows "length p \<le> NMEA_MAX_LINE_BYTES"
proof (cases "newline \<in> set r")
  case True
  then obtain a b where r: "r = a @ newline # b" and a: "newline \<notin> set a"
    using split_list_first by metis
  from a assms(1) have "newline \<notin> set (p @ a)"
    by simp
  from split_nl_line [OF this, of b] assms(2) show ?thesis
    by (simp add: r short_lines_def)
next
  case False
  with assms split_nl_partial [of "p @ r"] show ?thesis
    by (simp add: short_lines_def)
qed

lemma short_lines_append:
  assumes "short_lines (a @ b)"
  shows "length (snd (split_nl a)) \<le> NMEA_MAX_LINE_BYTES" and "short_lines (snd (split_nl a) @ b)"
proof -
  show *: "short_lines (snd (split_nl a) @ b)"
    using assms by (simp add: short_lines_def split_nl_append [of a b])
  show "length (snd (split_nl a)) \<le> NMEA_MAX_LINE_BYTES"
    by (rule short_lines_prefix [OF split_nl_tail *])
qed

text \<open>
  One read from a state that satisfies the invariant: the number of bytes counted is the
  number that arrived, whatever the bytes are.
\<close>

lemma decode_all_counts:
  assumes "last_len c \<le> length src"
  shows "link_inv (snd (decode_all c src))
    \<and> bytes_seen (fst (snd (decode_all c src))) = bytes_seen c + word_of_nat (length src - last_len c)"
  using assms
proof (induction "length src" arbitrary: src c rule: less_induct)
  case less
  show ?case
  proof (cases src rule: buffer_cases)
    case (line p q)
    have "link_inv (snd (decode_all (counted c src q) q))
      \<and> bytes_seen (fst (snd (decode_all (counted c src q) q))) = bytes_seen (counted c src q) + word_of_nat (length q - last_len (counted c src q))"
      by (intro less.hyps) (simp_all add: line(2) counted_def)
    then show ?thesis
      by (simp add: line(2) decode_all_line [OF line(1)] counted_def)
  qed (simp_all add: decode_all_partial decode_all_overlong link_inv_def counted_def)
qed

lemma feed_inv:
  assumes "link_inv st"
  shows "link_inv (snd (feed st ch))"
    and "bytes_seen (fst (snd (feed st ch))) = bytes_seen (fst st) + word_of_nat (length ch)"
  using assms decode_all_counts [of "fst st" "snd st @ ch"] by (simp_all add: feed_def link_inv_def)

lemma feed_chunks_Cons:
  "feed_chunks st (ch # chs) =
     (fst (feed st ch) @ fst (feed_chunks (snd (feed st ch)) chs), snd (feed_chunks (snd (feed st ch)) chs))"
  by (simp add: case_prod_beta)

lemma feed_chunks_inv:
  assumes "link_inv st"
  shows "link_inv (snd (feed_chunks st chs))
    \<and> bytes_seen (fst (snd (feed_chunks st chs))) = bytes_seen (fst st) + word_of_nat (length (concat chs))"
  using assms
proof (induction chs arbitrary: st)
  case (Cons ch chs)
  from Cons.IH [OF feed_inv(1) [OF Cons.prems]] show ?case
    by (simp add: feed_chunks_Cons feed_inv(2) [OF Cons.prems] del: feed_chunks.simps)
qed simp

lemma feed_chunks_split:
  assumes "link_inv st" and "short_lines (snd st @ concat chs)"
  shows "fst (feed_chunks st chs) = map frame_line (fst (split_nl (snd st @ concat chs)))
    \<and> snd (snd (feed_chunks st chs)) = snd (split_nl (snd st @ concat chs))"
  using assms
proof (induction chs arbitrary: st)
  case Nil
  then show ?case
    by (simp add: link_inv_def split_nl_partial)
next
  case (Cons ch chs)
  have short: "short_lines ((snd st @ ch) @ concat chs)"
    using Cons.prems by simp
  have f: "fst (feed st ch) = map frame_line (fst (split_nl (snd st @ ch)))"
      "snd (snd (feed st ch)) = snd (split_nl (snd st @ ch))"
    using decode_all_split [of "snd st @ ch" "fst st"] short_lines_append(1) [OF short] Cons.prems(1)
    by (simp_all add: feed_def link_inv_def)
  have "short_lines (snd (snd (feed st ch)) @ concat chs)"
    using short_lines_append(2) [OF short] by (simp add: f)
  from Cons.IH [OF feed_inv(1) [OF Cons.prems(1)] this] split_nl_append [of "snd st @ ch" "concat chs"]
  show ?case
    by (simp add: feed_chunks_Cons f del: feed_chunks.simps)
qed

text \<open>
  C29. Framing refines splitting the stream: when no line is longer than the limit, the lines
  the codec emits are exactly the newline-terminated lines of the stream, in order, however
  the stream is cut into reads; what stays buffered is the unfinished tail, and the byte
  counter is the length of the stream modulo two to the 64.
\<close>

theorem framing_refines_split:
  assumes "short_lines (concat chs)"
  shows "feed_chunks (codec_new, []) chs =
    (map frame_line (fst (split_nl (concat chs))),
     \<lparr>bytes_seen = word_of_nat (length (concat chs)), last_len = length (snd (split_nl (concat chs)))\<rparr>,
     snd (split_nl (concat chs)))"
proof -
  let ?r = "feed_chunks (codec_new, []) chs"
  have "fst ?r = map frame_line (fst (split_nl (concat chs)))" "snd (snd ?r) = snd (split_nl (concat chs))"
    using feed_chunks_split [OF link_inv_new] assms by simp_all
  moreover have "last_len (fst (snd ?r)) = length (snd (snd ?r))"
      "bytes_seen (fst (snd ?r)) = word_of_nat (length (concat chs))"
    using feed_chunks_inv [OF link_inv_new, of chs] by (simp_all add: link_inv_def codec_new_def)
  ultimately show ?thesis
    by (simp add: prod_eq_iff)
qed

text \<open>\<open>$GP\<close>, carriage return, newline, a high byte and an unfinished line, in three reads.\<close>

lemma framing_refines_split_witness:
  "feed_chunks (codec_new, []) [[0x24, 0x47], [0x50, 0x0D, 0x0A, 0xFF], [0x0A, 0x41]] =
     ([Line [0x24, 0x47, 0x50], NonUtf8 1], \<lparr>bytes_seen = 8, last_len = 1\<rparr>, [0x41])"
  by (subst framing_refines_split)
    (simp_all add: short_lines_def NMEA_MAX_LINE_BYTES_def newline_def frame_line_def carriage_return_def)

text \<open>
  Recovery from garbage: whatever arrived before, the codec holds at most 512 bytes, and
  from the next newline on it emits every line of a well-formed stream, in order and
  unchanged, however it is cut into reads. Only the line in progress at that newline (here
  \<open>x\<close>) is affected by what came before.
\<close>

theorem framing_resynchronises:
  assumes "concat good = newline # s" and "short_lines s"
  shows "length (snd (snd (feed_chunks (codec_new, []) garbage))) \<le> NMEA_MAX_LINE_BYTES
    \<and> (\<exists>x. fst (feed_chunks (snd (feed_chunks (codec_new, []) garbage)) good) = x # map frame_line (fst (split_nl s)))"
proof -
  let ?st = "snd (feed_chunks (codec_new, []) garbage)"
  have inv: "link_inv ?st"
    using feed_chunks_inv [OF link_inv_new] by simp
  then have nl: "newline \<notin> set (snd ?st)" and len: "length (snd ?st) \<le> NMEA_MAX_LINE_BYTES"
    by (simp_all add: link_inv_def)
  have "short_lines (snd ?st @ concat good)"
    using assms len by (simp add: short_lines_def split_nl_line [OF nl])
  from feed_chunks_split [OF inv this] len assms(1) show ?thesis
    by (simp add: split_nl_line [OF nl])
qed

lemma framing_resynchronises_witness:
  "length (snd (snd (feed_chunks (codec_new, []) [replicate 600 0xB5, [0x62]]))) \<le> NMEA_MAX_LINE_BYTES
    \<and> (\<exists>x. fst (feed_chunks (snd (feed_chunks (codec_new, []) [replicate 600 0xB5, [0x62]]))
            [[0x0A, 0x24], [0x47, 0x0A]]) = x # [Line [0x24, 0x47]])"
  using framing_resynchronises [of "[[0x0A, 0x24], [0x47, 0x0A]]" "[0x24, 0x47, 0x0A]" "[replicate 600 0xB5, [0x62]]"]
  by (simp add: short_lines_def NMEA_MAX_LINE_BYTES_def newline_def frame_line_def carriage_return_def
      del: feed_chunks.simps)

section \<open>The reports of the health tracker\<close>

text \<open>
  The tracker is driven by a sequence of timed calls; the lg is what its polls returned,
  with their times.
\<close>

datatype health_op =
    OpBytes u64 | OpEvent nmea_line | OpParseError | OpFix | OpRejected | OpPoll

definition health_step :: "duration \<times> health_op \<Rightarrow> link_health \<Rightarrow> link_report option \<times> link_health" where
  "health_step i h =
     (case i of
        (now, OpBytes n) \<Rightarrow> (None, observe_bytes n now h)
      | (now, OpEvent e) \<Rightarrow> (None, on_event e now h)
      | (now, OpParseError) \<Rightarrow> (None, on_parse_error h)
      | (now, OpFix) \<Rightarrow> (None, on_fix now h)
      | (now, OpRejected) \<Rightarrow> (None, on_fix_rejected h)
      | (now, OpPoll) \<Rightarrow> poll now h)"

fun health_run :: "(duration \<times> health_op) list \<Rightarrow> link_health \<Rightarrow> (duration \<times> link_report) list \<times> link_health" where
  "health_run [] h = ([], h)"
| "health_run (i # is) h =
     (case health_step i h of (r, h') \<Rightarrow>
        (case health_run is h' of (lg, h'') \<Rightarrow>
           ((case r of None \<Rightarrow> lg | Some r \<Rightarrow> (fst i, r) # lg), h'')))"

text \<open>
  The specification of a log, read from left to right with the report still open: a trouble
  report has outlived its grace period and comes at least one repeat interval after the open
  one; a recovery closes exactly the open report, so it is emitted once per episode.
\<close>

fun disciplined :: "(duration \<times> link_state) option \<Rightarrow> (duration \<times> link_report) list \<Rightarrow> bool" where
  "disciplined opened [] = True"
| "disciplined opened ((t, Trouble d) # lg) =
     ((case opened of None \<Rightarrow> True | Some (t0, _) \<Rightarrow> t0 + REPEAT_INTERVAL \<le> t)
      \<and> ld_state d \<noteq> Healthy \<and> grace (ld_state d) \<le> silent_for d
      \<and> disciplined (Some (t, ld_state d)) lg)"
| "disciplined opened ((t, Recovered was c) # lg) =
     ((case opened of None \<Rightarrow> False | Some (_, st) \<Rightarrow> st = was) \<and> disciplined None lg)"

definition open_report :: "link_health \<Rightarrow> (duration \<times> link_state) option" where
  "open_report h =
     (case (last_report_at h, reported h) of (Some t, Some s) \<Rightarrow> Some (t, s) | _ \<Rightarrow> None)"

definition report_inv :: "link_health \<Rightarrow> bool" where
  "report_inv h \<longleftrightarrow> (last_report_at h = None \<longleftrightarrow> reported h = None)"

lemmas health_op_defs = observe_bytes_def on_event_def on_parse_error_def on_fix_def on_fix_rejected_def

lemma health_op_reports [simp]:
  "last_report_at (observe_bytes n now h) = last_report_at h" "reported (observe_bytes n now h) = reported h"
  "last_report_at (on_event e now h) = last_report_at h" "reported (on_event e now h) = reported h"
  "last_report_at (on_parse_error h) = last_report_at h" "reported (on_parse_error h) = reported h"
  "last_report_at (on_fix now h) = last_report_at h" "reported (on_fix now h) = reported h"
  "last_report_at (on_fix_rejected h) = last_report_at h" "reported (on_fix_rejected h) = reported h"
  by (simp_all add: health_op_defs Let_def split: nmea_line.splits)

lemma open_report_cong:
  "last_report_at h' = last_report_at h \<Longrightarrow> reported h' = reported h \<Longrightarrow>
     open_report h' = open_report h \<and> report_inv h' = report_inv h"
  by (simp add: open_report_def report_inv_def)

lemma quiet_step:
  assumes "snd i \<noteq> OpPoll"
  shows "fst (health_step i h) = None"
    and "open_report (snd (health_step i h)) = open_report h"
    and "report_inv (snd (health_step i h)) = report_inv h"
proof -
  obtain now op where i: "i = (now, op)"
    by force
  have "fst (health_step i h) = None \<and> last_report_at (snd (health_step i h)) = last_report_at h
      \<and> reported (snd (health_step i h)) = reported h"
    using assms by (cases op) (simp_all add: i health_step_def)
  then show "fst (health_step i h) = None"
    and "open_report (snd (health_step i h)) = open_report h"
    and "report_inv (snd (health_step i h)) = report_inv h"
    using open_report_cong [of "snd (health_step i h)" h] by simp_all
qed

lemma poll_disciplined:
  assumes "report_inv h" and "poll now h = (r, h')"
  shows "report_inv h' \<and>
    (case r of None \<Rightarrow> open_report h' = open_report h
     | Some r \<Rightarrow> (\<forall>lg. disciplined (open_report h') lg \<longrightarrow> disciplined (open_report h) ((now, r) # lg)))"
  using assms
  by (auto simp: poll_def Let_def report_inv_def open_report_def REPEAT_INTERVAL_def nanos_of_secs_def
      split: if_splits option.splits)

lemma health_run_Cons:
  "health_run (i # is) h =
     ((case fst (health_step i h) of
         None \<Rightarrow> fst (health_run is (snd (health_step i h)))
       | Some r \<Rightarrow> (fst i, r) # fst (health_run is (snd (health_step i h)))),
      snd (health_run is (snd (health_step i h))))"
  by (simp add: case_prod_beta)

declare health_run.simps(2) [simp del]

lemma health_run_disciplined:
  assumes "report_inv h"
  shows "disciplined (open_report h) (fst (health_run is h))"
  using assms
proof (induction "is" arbitrary: h)
  case (Cons i "is")
  show ?case
  proof (cases "snd i = OpPoll")
    case True
    then have "health_step i h = poll (fst i) h"
      by (cases i) (simp add: health_step_def)
    moreover obtain r h' where p: "poll (fst i) h = (r, h')"
      by force
    ultimately show ?thesis
      using poll_disciplined [OF Cons.prems p] Cons.IH [of h']
      by (cases r) (simp_all add: health_run_Cons)
  next
    case False
    with Cons.IH [of "snd (health_step i h)"] Cons.prems show ?thesis
      by (simp add: health_run_Cons quiet_step)
  qed
qed simp

text \<open>
  Whatever the link does and whenever it is polled, the log of a fresh tracker is
  disciplined: a trouble report has outlived its grace period, two of them with no recovery
  between are at least 60 s apart, and a recovery closes exactly the condition last reported,
  once.
\<close>

theorem link_reports_disciplined: "disciplined None (fst (health_run is link_health_new))"
  using health_run_disciplined [of link_health_new "is"]
  by (simp add: report_inv_def open_report_def link_health_new_def)

text \<open>Where the tracker's memory comes from.\<close>

definition remembers :: "(duration \<times> health_op) list \<Rightarrow> (duration \<times> link_report) list \<Rightarrow> link_health \<Rightarrow> bool" where
  "remembers ops lg h \<longleftrightarrow>
     (\<forall>t. last_fix_at h = Some t \<longrightarrow> (t, OpFix) \<in> set ops)
     \<and> (\<forall>t. last_report_at h = Some t \<longrightarrow> (\<exists>d. (t, Trouble d) \<in> set lg) \<and> t \<in> fst ` set ops)"

lemma health_op_last_fix [simp]:
  "last_fix_at (observe_bytes n now h) = last_fix_at h"
  "last_fix_at (on_event e now h) = last_fix_at h"
  "last_fix_at (on_parse_error h) = last_fix_at h"
  "last_fix_at (on_fix now h) = Some now"
  "last_fix_at (on_fix_rejected h) = last_fix_at h"
  "last_fix_at (snd (poll now h)) = last_fix_at h"
  by (simp_all add: health_op_defs poll_def Let_def split: nmea_line.splits option.splits)

lemma poll_last_report:
  "last_report_at (snd (poll now h)) = Some t \<Longrightarrow>
     last_report_at h = Some t \<or> t = now \<and> (\<exists>d. fst (poll now h) = Some (Trouble d))"
  by (auto simp: poll_def Let_def split: if_splits option.splits)

lemma remembers_step:
  assumes "remembers ops lg h"
  shows "remembers (ops @ [i])
    (lg @ (case fst (health_step i h) of None \<Rightarrow> [] | Some r \<Rightarrow> [(fst i, r)])) (snd (health_step i h))"
proof -
  obtain now op where i: "i = (now, op)"
    by force
  show ?thesis
  proof (cases op)
    case OpPoll
    with assms poll_last_report [of now h] show ?thesis
      by (fastforce simp: i health_step_def remembers_def split: option.splits)
  qed (use assms in \<open>auto simp: i health_step_def remembers_def\<close>)
qed

lemma health_run_append:
  "health_run (xs @ ys) h =
     (fst (health_run xs h) @ fst (health_run ys (snd (health_run xs h))), snd (health_run ys (snd (health_run xs h))))"
  by (induction xs arbitrary: h) (simp_all add: health_run_Cons split: option.splits)

lemma health_run_remembers: "remembers ops (fst (health_run ops link_health_new)) (snd (health_run ops link_health_new))"
proof (induction ops rule: rev_induct)
  case Nil
  then show ?case
    by (simp add: remembers_def link_health_new_def)
next
  case (snoc i ops)
  from remembers_step [OF snoc, of i] show ?case
    by (simp add: health_run_append health_run_Cons split: option.splits)
qed

lemma silent_link_poll:
  assumes "(case last_fix_at h of None \<Rightarrow> NO_FIX_GRACE \<le> now | Some t \<Rightarrow> t + NO_FIX_GRACE \<le> now)"
  shows "\<exists>t. last_report_at (snd (poll now h)) = Some t \<and> now < t + REPEAT_INTERVAL"
proof -
  have c: "classify now h \<noteq> Healthy"
    using assms by (auto simp: classify_def recent_def NO_FIX_GRACE_def ACTIVITY_WINDOW_def nanos_of_secs_def split: option.splits)
  have g: "grace s \<le> NO_FIX_GRACE" for s
    by (cases s) (simp_all add: NO_FIX_GRACE_def QUIET_LINK_GRACE_def nanos_of_secs_def)
  have s: "grace (classify now h) \<le> now - (case last_fix_at h of None \<Rightarrow> 0 | Some t \<Rightarrow> t)"
    using assms g [of "classify now h"] by (auto split: option.splits)
  show ?thesis
    using c s by (auto simp: poll_def Let_def REPEAT_INTERVAL_def nanos_of_secs_def split: option.splits)
qed

text \<open>
  A link that delivers no fix does not stay silent: at every poll past the first minute,
  if no plausible fix was recorded during the last minute, a trouble report was logged
  during the last minute, this poll included.
\<close>

theorem silent_link_reported:
  assumes "NO_FIX_GRACE \<le> now"
    and "\<forall>(t, op)\<in>set ops. t \<le> now \<and> (op = OpFix \<longrightarrow> t + NO_FIX_GRACE \<le> now)"
  shows "\<exists>t d. (t, Trouble d) \<in> set (fst (health_run (ops @ [(now, OpPoll)]) link_health_new))
    \<and> t \<le> now \<and> now < t + REPEAT_INTERVAL"
proof -
  let ?h = "snd (health_run ops link_health_new)"
  have "case last_fix_at ?h of None \<Rightarrow> NO_FIX_GRACE \<le> now | Some t \<Rightarrow> t + NO_FIX_GRACE \<le> now"
    using health_run_remembers [of ops] assms by (fastforce simp: remembers_def split: option.splits)
  from silent_link_poll [OF this] obtain t where
    t: "last_report_at (snd (poll now ?h)) = Some t" "now < t + REPEAT_INTERVAL"
    by blast
  have "snd (health_run (ops @ [(now, OpPoll)]) link_health_new) = snd (poll now ?h)"
    by (simp add: health_run_append health_run_Cons health_step_def)
  with health_run_remembers [of "ops @ [(now, OpPoll)]"] t(1)
  have "(\<exists>d. (t, Trouble d) \<in> set (fst (health_run (ops @ [(now, OpPoll)]) link_health_new)))
      \<and> t \<in> fst ` set (ops @ [(now, OpPoll)])"
    by (simp only: remembers_def)
  moreover from this assms(2) have "t \<le> now"
    by fastforce
  ultimately show ?thesis
    using t(2) by blast
qed

lemma silent_link_reported_witness:
  "\<exists>t d. (t, Trouble d) \<in>
     set (fst (health_run ([(10 ^ 9, OpFix), (2 * 10 ^ 9, OpEvent (Line [0x24]))] @ [(70 * 10 ^ 9, OpPoll)]) link_health_new))
    \<and> t \<le> 70 * 10 ^ 9 \<and> 70 * 10 ^ 9 < t + REPEAT_INTERVAL"
  by (rule silent_link_reported) (simp_all add: NO_FIX_GRACE_def nanos_of_secs_def)

end
