(* ===== verification/Sensor_Gate.thy ===== *)
theory Sensor_Gate
  imports Types
begin

text \<open>
  The plausibility gates every sensor source applies before a value reaches the detector
  (\<open>gps_fix_is_plausible\<close> and \<open>imu_sample_is_plausible\<close> of
  \<open>src/src/mav/mod.rs\<close>), and the interface a source of fixes promises: whatever it
  yields has passed the gate.
\<close>

definition gps_fix_is_plausible :: "gps_fix \<Rightarrow> bool" where
  "gps_fix_is_plausible f \<longleftrightarrow>
     \<not> (\<not> (is_finite (lat_deg f) \<and> is_finite (lon_deg f) \<and> is_finite (alt_m f)))
     \<and> \<not> (fgt (fabs (lat_deg f)) (FNum 90) \<or> fgt (fabs (lon_deg f)) (FNum 180))
     \<and> \<not> fgt (fabs (alt_m f)) (FNum 100000)
     \<and> (case speed_mps f of None \<Rightarrow> True | Some s \<Rightarrow> \<not> (\<not> is_finite s \<or> fgt (fabs s) (FNum 1000)))
     \<and> (case course_deg f of None \<Rightarrow> True
        | Some c \<Rightarrow> \<not> (\<not> is_finite c \<or> \<not> (fle (FNum (- 720)) c \<and> fle c (FNum 720))))"

definition axis_plausible :: "rat \<Rightarrow> fl \<Rightarrow> bool" where
  "axis_plausible l v \<longleftrightarrow> \<not> (\<not> is_finite v \<or> fgt (fabs v) (FNum l))"

definition imu_sample_is_plausible :: "imu_sample \<Rightarrow> bool" where
  "imu_sample_is_plausible s \<longleftrightarrow>
     axis_plausible 200 (v0 (accel_mps2 s)) \<and> axis_plausible 200 (v1 (accel_mps2 s))
     \<and> axis_plausible 200 (v2 (accel_mps2 s))
     \<and> axis_plausible 35 (v0 (gyro_rps s)) \<and> axis_plausible 35 (v1 (gyro_rps s))
     \<and> axis_plausible 35 (v2 (gyro_rps s))"

lemma fabs_gt_iff: "is_finite v \<Longrightarrow> \<not> fgt (fabs v) (FNum r) \<longleftrightarrow> \<bar>fval v\<bar> \<le> r"
  by (cases v) (auto simp: flt_def)

lemma axis_plausible_iff: "axis_plausible l v \<longleftrightarrow> is_finite v \<and> \<bar>fval v\<bar> \<le> l"
  using fabs_gt_iff [of v l] by (auto simp: axis_plausible_def)

text \<open>The gate looks at the measured values only, not at the time stamp.\<close>

lemma plausible_untimed [simp]:
  "gps_fix_is_plausible (f\<lparr>fix_t := t\<rparr>) \<longleftrightarrow> gps_fix_is_plausible f"
  "imu_sample_is_plausible (s\<lparr>imu_t := t\<rparr>) \<longleftrightarrow> imu_sample_is_plausible s"
  by (simp_all add: gps_fix_is_plausible_def imu_sample_is_plausible_def)

lemma gps_fix_is_plausible_bounds:
  assumes "gps_fix_is_plausible f"
  shows "is_finite (lat_deg f)" "is_finite (lon_deg f)" "is_finite (alt_m f)"
    "\<bar>fval (lat_deg f)\<bar> \<le> 90" "\<bar>fval (lon_deg f)\<bar> \<le> 180" "\<bar>fval (alt_m f)\<bar> \<le> 100000"
  using assms fabs_gt_iff by (auto simp: gps_fix_is_plausible_def)

lemma imu_sample_is_plausible_finite:
  "imu_sample_is_plausible s \<Longrightarrow> vec3_finite (accel_mps2 s) \<and> vec3_finite (gyro_rps s)"
  by (simp add: imu_sample_is_plausible_def axis_plausible_iff vec3_finite_def)

section \<open>The interface of a source\<close>

text \<open>
  A source is a loop over what its device or socket delivers: each turn takes one input,
  yields some items and leaves a new state, or ends the loop (\<open>None\<close>).
\<close>

fun run_source :: "('i \<Rightarrow> 's \<Rightarrow> 'o list \<times> 's option) \<Rightarrow> 'i list \<Rightarrow> 's option \<Rightarrow> 'o list \<times> 's option" where
  "run_source step [] st = ([], st)"
| "run_source step (i # inputs) None = ([], None)"
| "run_source step (i # inputs) (Some s) =
     (case step i s of (out, st') \<Rightarrow>
        (case run_source step inputs st' of (outs, st'') \<Rightarrow> (out @ outs, st'')))"

lemma run_source_None [simp]: "run_source step inputs None = ([], None)"
  by (cases inputs) simp_all

lemma run_source_Some:
  "run_source step (i # inputs) (Some s) =
     (fst (step i s) @ fst (run_source step inputs (snd (step i s))),
      snd (run_source step inputs (snd (step i s))))"
  by (simp add: case_prod_beta)

declare run_source.simps(3) [simp del]

lemma run_source_append:
  "run_source step (xs @ ys) st =
     (fst (run_source step xs st) @ fst (run_source step ys (snd (run_source step xs st))),
      snd (run_source step ys (snd (run_source step xs st))))"
proof (induction xs arbitrary: st)
  case (Cons x xs)
  then show ?case
    by (cases st) (simp_all add: run_source_Some)
qed simp

text \<open>
  The contract of the sources: whatever one turn yields satisfies \<open>gate\<close>, and the turn
  keeps the state's invariant. A client gets the gate for everything the source ever yields.
\<close>

locale gated_source =
  fixes step :: "'i \<Rightarrow> 's \<Rightarrow> 'o list \<times> 's option"
    and inv :: "'s \<Rightarrow> bool"
    and gate :: "'o \<Rightarrow> bool"
  assumes step_gate: "inv s \<Longrightarrow> x \<in> set (fst (step i s)) \<Longrightarrow> gate x"
    and step_inv: "inv s \<Longrightarrow> snd (step i s) = Some s' \<Longrightarrow> inv s'"
begin

lemma run_inv: "inv s \<Longrightarrow> snd (run_source step inputs (Some s)) = Some s' \<Longrightarrow> inv s'"
proof (induction inputs arbitrary: s)
  case (Cons i inputs)
  then show ?case
    using step_inv [of s i] by (cases "snd (step i s)") (auto simp: run_source_Some)
qed simp

lemma run_gate: "inv s \<Longrightarrow> x \<in> set (fst (run_source step inputs (Some s))) \<Longrightarrow> gate x"
proof (induction inputs arbitrary: s)
  case (Cons i inputs)
  then show ?case
    using step_inv [of s i] step_gate [of s x i] by (cases "snd (step i s)") (auto simp: run_source_Some)
qed simp

end

end
