(* ===== verification/Serial_Gps.thy ===== *)
theory Serial_Gps
  imports Nmea_Link Sensor_Gate
begin

text \<open>
  The serial GPS source: \<open>src/src/ingest/nmea.rs\<close> and
  \<open>src/src/hw/serial_gps.rs\<close>. The \<open>nmea\<close> crate is the parameter
  \<open>nmea_crate\<close>: its parser state, its \<open>parse\<close> and the fields the code reads from
  the state. One turn of the connection loop takes one of the things its \<open>select!\<close> can
  wait for, with the readings of the clock the turn makes.
\<close>

section \<open>Sentences\<close>

datatype sentence_type = GGA | RMC | OtherSentence

datatype nmea_fix_type = FixGps | FixDGps | FixPps | FixOther

record 'p nmea_crate =
  nc_default :: 'p
  nc_parse :: "u8 list \<Rightarrow> 'p \<Rightarrow> (string + sentence_type) \<times> 'p"
  nc_fix_type :: "'p \<Rightarrow> nmea_fix_type option"
  nc_latitude :: "'p \<Rightarrow> f64 option"
  nc_longitude :: "'p \<Rightarrow> f64 option"
  nc_altitude :: "'p \<Rightarrow> f32 option"
  nc_hdop :: "'p \<Rightarrow> f32 option"
  nc_fix_satellites :: "'p \<Rightarrow> u32 option"
  nc_speed_over_ground :: "'p \<Rightarrow> f32 option"
  nc_true_course :: "'p \<Rightarrow> f32 option"

definition position_fix :: "'p nmea_crate \<Rightarrow> instant \<Rightarrow> 'p \<Rightarrow> gps_fix option" where
  "position_fix nc t p =
     (if nc_fix_type nc p \<notin> {Some FixGps, Some FixDGps, Some FixPps} then None
      else case (nc_latitude nc p, nc_longitude nc p) of
        (Some lat, Some lon) \<Rightarrow>
          Some \<lparr>fix_t = at_mono t, lat_deg = lat, lon_deg = lon,
                alt_m = (case nc_altitude nc p of None \<Rightarrow> FNum 0 | Some a \<Rightarrow> a),
                speed_mps = map_option (\<lambda>s. fmul B64 s (lit B64 (514444 / 1000000))) (nc_speed_over_ground nc p),
                course_deg = nc_true_course nc p,
                hdop = nc_hdop nc p,
                sats = map_option ucast (nc_fix_satellites nc p)\<rparr>
      | _ \<Rightarrow> None)"

definition parse_sentence ::
  "'p nmea_crate \<Rightarrow> instant \<Rightarrow> u8 list \<Rightarrow> 'p \<Rightarrow> (fs_error + gps_fix option) \<times> 'p" where
  "parse_sentence nc t line p =
     (case nc_parse nc line p of
        (Inl e, p) \<Rightarrow> (Inl (FsIngest (NmeaParse e)), p)
      | (Inr GGA, p) \<Rightarrow> (Inr (position_fix nc t p), p)
      | (Inr RMC, p) \<Rightarrow> (Inr (position_fix nc t p), p)
      | (Inr OtherSentence, p) \<Rightarrow> (Inr None, p))"

section \<open>One connection\<close>

definition HEALTH_POLL_INTERVAL :: duration where
  "HEALTH_POLL_INTERVAL = nanos_of_secs 2"

datatype serial_event = SerialFix gps_fix | Disconnected string bool

record 'p conn =
  opened_at :: instant
  framed :: "nmea_line_codec \<times> u8 list"
  nmea_parser :: 'p
  health :: link_health

definition conn_open :: "'p nmea_crate \<Rightarrow> instant \<Rightarrow> 'p conn" where
  "conn_open nc t =
     \<lparr>opened_at = t, framed = (codec_new, []), nmea_parser = nc_default nc, health = link_health_new\<rparr>"

text \<open>
  The three clock readings of a turn: when the item is recorded, the stamp of the decoded
  fix, and when the fix is recorded.
\<close>

record turn_clock =
  t_item :: instant
  t_stamp :: instant
  t_fix :: instant

definition elapsed :: "'p conn \<Rightarrow> instant \<Rightarrow> duration" where
  "elapsed k t = t - opened_at k"

definition handle_sentence :: "'p nmea_crate \<Rightarrow> turn_clock \<Rightarrow> u8 list \<Rightarrow> 'p conn \<Rightarrow> serial_event list \<times> 'p conn" where
  "handle_sentence nc clk line k =
     (case parse_sentence nc (t_stamp clk) line (nmea_parser k) of
        (Inr (Some fx), p) \<Rightarrow>
          (if gps_fix_is_plausible fx
           then ([SerialFix fx], k\<lparr>nmea_parser := p, health := on_fix (elapsed k (t_fix clk)) (health k)\<rparr>)
           else ([], k\<lparr>nmea_parser := p, health := on_fix_rejected (health k)\<rparr>))
      | (Inr None, p) \<Rightarrow> ([], k\<lparr>nmea_parser := p\<rparr>)
      | (Inl _, p) \<Rightarrow> ([], k\<lparr>nmea_parser := p, health := on_parse_error (health k)\<rparr>))"

definition handle_item :: "'p nmea_crate \<Rightarrow> turn_clock \<Rightarrow> nmea_line \<Rightarrow> 'p conn \<Rightarrow> serial_event list \<times> 'p conn" where
  "handle_item nc clk evt k =
     (let k = k\<lparr>health := on_event evt (elapsed k (t_item clk)) (health k)\<rparr>
      in case evt of
           Line l \<Rightarrow> if \<not> starts_with_dollar l then ([], k) else handle_sentence nc clk l k
         | NonUtf8 _ \<Rightarrow> ([], k)
         | Overlong _ \<Rightarrow> ([], k))"

text \<open>
  What a turn can meet: bytes read into the buffer, the next item of the framed stream, the
  end of the input, a read error, or the health probe.
\<close>

datatype conn_input = Arrived "u8 list" | NextItem | Eof | ReadError string | Probe

datatype conn_output = Emit serial_event | Report link_report

definition disconnect :: "string \<Rightarrow> 'p conn \<Rightarrow> conn_output list \<times> 'p conn option" where
  "disconnect reason k = ([Emit (Disconnected reason (lc_fixes (lh_counts (health k)) > 0))], None)"

definition deliver ::
  "'p nmea_crate \<Rightarrow> turn_clock \<Rightarrow> nmea_line \<Rightarrow> 'p conn \<Rightarrow> conn_output list \<times> 'p conn option" where
  "deliver nc clk evt k = (case handle_item nc clk evt k of (evs, k) \<Rightarrow> (map Emit evs, Some k))"

definition conn_step ::
  "'p nmea_crate \<Rightarrow> conn_input \<times> turn_clock \<Rightarrow> 'p conn \<Rightarrow> conn_output list \<times> 'p conn option" where
  "conn_step nc i k =
     (case i of
        (Arrived bs, clk) \<Rightarrow> ([], Some (k\<lparr>framed := (fst (framed k), snd (framed k) @ bs)\<rparr>))
      | (NextItem, clk) \<Rightarrow>
          (case decode (fst (framed k)) (snd (framed k)) of
             (None, fr) \<Rightarrow> ([], Some (k\<lparr>framed := fr\<rparr>))
           | (Some evt, fr) \<Rightarrow> deliver nc clk evt (k\<lparr>framed := fr\<rparr>))
      | (Eof, clk) \<Rightarrow>
          (case decode_eof (fst (framed k)) (snd (framed k)) of
             (None, fr) \<Rightarrow> disconnect ''stream ended (peer EOF)'' (k\<lparr>framed := fr\<rparr>)
           | (Some evt, fr) \<Rightarrow> deliver nc clk evt (k\<lparr>framed := fr\<rparr>))
      | (ReadError e, clk) \<Rightarrow> disconnect e k
      | (Probe, clk) \<Rightarrow>
          (let now = elapsed k (t_item clk);
               (r, h) = poll now (observe_bytes (bytes_seen (fst (framed k))) now (health k))
           in (case r of None \<Rightarrow> [] | Some r \<Rightarrow> [Report r], Some (k\<lparr>health := h\<rparr>))))"

definition conn_run ::
  "'p nmea_crate \<Rightarrow> (conn_input \<times> turn_clock) list \<Rightarrow> instant \<Rightarrow> conn_output list \<times> 'p conn option" where
  "conn_run nc inputs t = run_source (conn_step nc) inputs (Some (conn_open nc t))"

section \<open>Reconnecting\<close>

definition RECONNECT_BACKOFF_INITIAL :: duration where
  "RECONNECT_BACKOFF_INITIAL = 250 * 10 ^ 6"

definition RECONNECT_BACKOFF_MAX :: duration where
  "RECONNECT_BACKOFF_MAX = nanos_of_secs 5"

text \<open>One attempt: the port did not open, or it opened and the connection produced its events.\<close>

datatype attempt = OpenFailed | Connected "serial_event list"

definition yielded :: "serial_event list \<Rightarrow> gps_fix list" where
  "yielded evs = concat (map (\<lambda>e. case e of SerialFix fx \<Rightarrow> [fx] | Disconnected _ _ \<Rightarrow> []) evs)"

text \<open>The outer loop: the fixes yielded and the sleep after each attempt.\<close>

fun serial_source :: "duration \<Rightarrow> attempt list \<Rightarrow> gps_fix list \<times> duration list" where
  "serial_source backoff [] = ([], [])"
| "serial_source backoff (OpenFailed # rest) =
     (case serial_source (min (backoff * 2) RECONNECT_BACKOFF_MAX) rest of
        (fs, ds) \<Rightarrow> (fs, backoff # ds))"
| "serial_source backoff (Connected evs # rest) =
     (case serial_source (min (RECONNECT_BACKOFF_INITIAL * 2) RECONNECT_BACKOFF_MAX) rest of
        (fs, ds) \<Rightarrow> (yielded evs @ fs, RECONNECT_BACKOFF_INITIAL # ds))"

section \<open>Every fix yielded is plausible\<close>

definition emitted_ok :: "conn_output \<Rightarrow> bool" where
  "emitted_ok x \<longleftrightarrow> (case x of Emit (SerialFix fx) \<Rightarrow> gps_fix_is_plausible fx | _ \<Rightarrow> True)"

lemma handle_sentence_gated: "SerialFix fx \<in> set (fst (handle_sentence nc clk l k)) \<Longrightarrow> gps_fix_is_plausible fx"
  by (auto simp: handle_sentence_def split: prod.splits sum.splits option.splits if_splits)

lemma handle_item_gated: "SerialFix fx \<in> set (fst (handle_item nc clk e k)) \<Longrightarrow> gps_fix_is_plausible fx"
  using handle_sentence_gated [of fx nc clk] by (auto simp: handle_item_def Let_def split: nmea_line.splits if_splits)

lemma deliver_gated: "x \<in> set (fst (deliver nc clk e k)) \<Longrightarrow> emitted_ok x"
  using handle_item_gated [of _ nc clk e k]
  by (auto simp: deliver_def emitted_ok_def case_prod_beta split: serial_event.splits)

lemma disconnect_gated: "x \<in> set (fst (disconnect r k)) \<Longrightarrow> emitted_ok x"
  by (auto simp: disconnect_def emitted_ok_def)

lemma conn_step_gated: "x \<in> set (fst (conn_step nc i k)) \<Longrightarrow> emitted_ok x"
  by (cases i; cases "fst i")
    (auto simp: conn_step_def case_prod_beta Let_def emitted_ok_def
      dest: deliver_gated [unfolded emitted_ok_def] disconnect_gated [unfolded emitted_ok_def] split: option.splits)

interpretation serial: gated_source "conn_step nc" "\<lambda>_. True" emitted_ok for nc
  by unfold_locales (auto dest: conn_step_gated)

section \<open>The connection yields the plausible fixes of the stream\<close>

definition arrived :: "(conn_input \<times> turn_clock) list \<Rightarrow> u8 list" where
  "arrived inputs = concat (map (\<lambda>i. case fst i of Arrived bs \<Rightarrow> bs | _ \<Rightarrow> []) inputs)"

definition untimed :: "gps_fix \<Rightarrow> gps_fix" where
  "untimed fx = fx\<lparr>fix_t := at_mono 0\<rparr>"

definition fixes_of :: "conn_output list \<Rightarrow> gps_fix list" where
  "fixes_of outs = concat (map (\<lambda>x. case x of Emit (SerialFix fx) \<Rightarrow> [untimed fx] | _ \<Rightarrow> []) outs)"

definition sentence_fix :: "'p nmea_crate \<Rightarrow> u8 list \<Rightarrow> 'p \<Rightarrow> gps_fix list \<times> 'p" where
  "sentence_fix nc s p =
     (case parse_sentence nc 0 s p of
        (Inr (Some fx), p') \<Rightarrow> (if gps_fix_is_plausible fx then [fx] else [], p')
      | (_, p') \<Rightarrow> ([], p'))"

text \<open>The reference: parse the framed lines of the whole stream in order, keep plausible fixes.\<close>

fun reference_fixes :: "'p nmea_crate \<Rightarrow> 'p \<Rightarrow> nmea_line list \<Rightarrow> gps_fix list" where
  "reference_fixes nc p [] = []"
| "reference_fixes nc p (Line s # ls) =
     (if starts_with_dollar s
      then fst (sentence_fix nc s p) @ reference_fixes nc (snd (sentence_fix nc s p)) ls
      else reference_fixes nc p ls)"
| "reference_fixes nc p (NonUtf8 _ # ls) = reference_fixes nc p ls"
| "reference_fixes nc p (Overlong _ # ls) = reference_fixes nc p ls"

definition pending_fixes :: "'p nmea_crate \<Rightarrow> 'p conn \<Rightarrow> u8 list \<Rightarrow> gps_fix list" where
  "pending_fixes nc k rest =
     reference_fixes nc (nmea_parser k) (map frame_line (fst (split_nl (snd (framed k) @ rest))))"

lemma parse_sentence_untimed:
  "parse_sentence nc 0 s p = (map_sum id (map_option untimed) (fst (parse_sentence nc t s p)), snd (parse_sentence nc t s p))"
  by (auto simp: parse_sentence_def position_fix_def untimed_def case_prod_beta split: sum.splits sentence_type.splits option.splits)

lemma handle_sentence_fix:
  "fixes_of (map Emit (fst (handle_sentence nc clk s k))) = fst (sentence_fix nc s (nmea_parser k))
   \<and> nmea_parser (snd (handle_sentence nc clk s k)) = snd (sentence_fix nc s (nmea_parser k))
   \<and> framed (snd (handle_sentence nc clk s k)) = framed k"
  using parse_sentence_untimed [of nc s "nmea_parser k" "t_stamp clk"]
  by (auto simp: handle_sentence_def sentence_fix_def fixes_of_def untimed_def split: prod.splits sum.splits option.splits)

lemma handle_item_fixes:
  "fixes_of (map Emit (fst (handle_item nc clk e k)))
     @ reference_fixes nc (nmea_parser (snd (handle_item nc clk e k))) ls
   = reference_fixes nc (nmea_parser k) (e # ls)
   \<and> framed (snd (handle_item nc clk e k)) = framed k"
proof (cases e)
  case (Line s)
  then show ?thesis
    using handle_sentence_fix [of nc clk s "k\<lparr>health := on_event e (elapsed k (t_item clk)) (health k)\<rparr>"]
    by (simp add: handle_item_def Let_def fixes_of_def)
qed (simp_all add: handle_item_def Let_def fixes_of_def)

lemma fixes_of_append [simp]: "fixes_of (xs @ ys) = fixes_of xs @ fixes_of ys"
  by (simp add: fixes_of_def)

lemma fixes_of_report [simp]: "fixes_of [] = []" "fixes_of [Report r] = []"
  by (simp_all add: fixes_of_def)

definition is_open_input :: "conn_input \<times> turn_clock \<Rightarrow> bool" where
  "is_open_input i \<longleftrightarrow> (case fst i of Eof \<Rightarrow> False | ReadError _ \<Rightarrow> False | _ \<Rightarrow> True)"

lemma conn_step_next:
  assumes "short_lines (snd (framed k) @ rest)"
  shows "\<exists>k'. snd (conn_step nc (NextItem, clk) k) = Some k'
    \<and> short_lines (snd (framed k') @ rest)
    \<and> fixes_of (fst (conn_step nc (NextItem, clk) k)) @ pending_fixes nc k' rest = pending_fixes nc k rest"
proof (cases "snd (framed k)" rule: buffer_cases)
  case (line p q)
  let ?k = "k\<lparr>framed := (counted (fst (framed k)) (p @ newline # q) q, q)\<rparr>"
  have s: "split_nl ((p @ newline # q) @ rest) = (p # fst (split_nl (q @ rest)), snd (split_nl (q @ rest)))"
    using split_nl_line [OF line(1), of "q @ rest"] by simp
  have short: "short_lines (q @ rest)"
    using short_lines_line [OF line(1), of "q @ rest"] assms by (simp add: line(2))
  show ?thesis
    using handle_item_fixes [of nc clk "frame_line p" ?k "map frame_line (fst (split_nl (q @ rest)))"] short s
    by (simp add: conn_step_def line(2) decode_line [OF line(1)] deliver_def case_prod_beta pending_fixes_def)
next
  case partial
  then show ?thesis
    using assms by (simp add: conn_step_def decode_partial pending_fixes_def)
next
  case overlong
  then show ?thesis
    using short_lines_prefix [OF overlong(1) assms] by simp
qed

lemma conn_step_open:
  assumes "is_open_input i" and "short_lines (snd (framed k) @ arrived (i # inputs))"
  shows "\<exists>k'. snd (conn_step nc i k) = Some k' \<and> short_lines (snd (framed k') @ arrived inputs)
    \<and> fixes_of (fst (conn_step nc i k)) @ pending_fixes nc k' (arrived inputs)
      = pending_fixes nc k (arrived (i # inputs))"
proof -
  obtain x clk where i: "i = (x, clk)"
    by force
  show ?thesis
  proof (cases x)
    case (Arrived bs)
    with assms show ?thesis
      by (simp add: i conn_step_def arrived_def pending_fixes_def)
  next
    case NextItem
    with assms conn_step_next [of k "arrived inputs" nc clk] show ?thesis
      by (simp add: i arrived_def)
  next
    case Probe
    with assms show ?thesis
      by (simp add: i conn_step_def arrived_def pending_fixes_def Let_def case_prod_beta split: option.splits)
  qed (use assms in \<open>simp_all add: i is_open_input_def\<close>)
qed

lemma conn_run_open:
  assumes "list_all is_open_input inputs" and "short_lines (snd (framed k) @ arrived inputs)"
  shows "\<exists>k'. snd (run_source (conn_step nc) inputs (Some k)) = Some k'
    \<and> fixes_of (fst (run_source (conn_step nc) inputs (Some k))) @ pending_fixes nc k' []
      = pending_fixes nc k (arrived inputs)"
  using assms
proof (induction inputs arbitrary: k)
  case Nil
  then show ?case
    by (simp add: arrived_def)
next
  case (Cons i inputs)
  then obtain k' where k': "snd (conn_step nc i k) = Some k'" "short_lines (snd (framed k') @ arrived inputs)"
      "fixes_of (fst (conn_step nc i k)) @ pending_fixes nc k' (arrived inputs) = pending_fixes nc k (arrived (i # inputs))"
    using conn_step_open [of i k inputs nc] by auto
  from Cons.IH [OF _ k'(2)] Cons.prems(1) obtain k'' where
    "snd (run_source (conn_step nc) inputs (Some k')) = Some k''"
    "fixes_of (fst (run_source (conn_step nc) inputs (Some k'))) @ pending_fixes nc k'' [] = pending_fixes nc k' (arrived inputs)"
    by auto
  with k' show ?case
    by (auto simp: run_source_Some)
qed

lemma eof_ends_drained:
  assumes "snd (conn_step nc (Eof, clk) k) = None"
  shows "newline \<notin> set (snd (framed k))" and "fixes_of (fst (conn_step nc (Eof, clk) k)) = []"
proof -
  from assms show "newline \<notin> set (snd (framed k))"
    by (cases "snd (framed k)" rule: buffer_cases)
      (auto simp: conn_step_def decode_eof_def decode_line deliver_def case_prod_beta)
  from assms show "fixes_of (fst (conn_step nc (Eof, clk) k)) = []"
    by (auto simp: conn_step_def deliver_def disconnect_def fixes_of_def case_prod_beta split: option.splits)
qed

text \<open>
  C14. The whole serial pipeline: when a connection ends at end of input and no line of what
  arrived is over-long, the fixes it yielded are, up to their time stamps, exactly the
  plausible fixes obtained by splitting the received bytes at newlines and parsing every
  line that starts with a dollar sign, in order. How the bytes were cut into reads, and when
  the health probe ran in between, makes no difference.
\<close>

theorem serial_pipeline_exact:
  assumes "list_all is_open_input inputs" and "short_lines (arrived inputs)"
    and "snd (conn_run nc (inputs @ [(Eof, clk)]) t) = None"
  shows "fixes_of (fst (conn_run nc (inputs @ [(Eof, clk)]) t)) =
    reference_fixes nc (nc_default nc) (map frame_line (fst (split_nl (arrived inputs))))"
proof -
  obtain k where k: "snd (run_source (conn_step nc) inputs (Some (conn_open nc t))) = Some k"
    "fixes_of (fst (run_source (conn_step nc) inputs (Some (conn_open nc t)))) @ pending_fixes nc k []
      = pending_fixes nc (conn_open nc t) (arrived inputs)"
    using conn_run_open [OF assms(1), of "conn_open nc t" nc] assms(2) by (auto simp: conn_open_def)
  have e: "snd (conn_step nc (Eof, clk) k) = None"
    using assms(3) k(1) by (simp add: conn_run_def run_source_append run_source_Some)
  from eof_ends_drained [OF e] have "pending_fixes nc k [] = []"
    by (simp add: pending_fixes_def split_nl_partial)
  with k eof_ends_drained(2) [OF e] e show ?thesis
    by (simp add: conn_run_def run_source_append run_source_Some pending_fixes_def conn_open_def)
qed

text \<open>A crate that knows one sentence, for the witnesses.\<close>

definition demo_crate :: "bool nmea_crate" where
  "demo_crate =
     \<lparr>nc_default = False,
      nc_parse = (\<lambda>l p. if l = [0x24, 0x47] then (Inr GGA, True) else (Inl ''bad'', p)),
      nc_fix_type = (\<lambda>p. if p then Some FixGps else None),
      nc_latitude = (\<lambda>_. Some (FNum 48)), nc_longitude = (\<lambda>_. Some (FNum 11)),
      nc_altitude = (\<lambda>_. None), nc_hdop = (\<lambda>_. None), nc_fix_satellites = (\<lambda>_. Some 8),
      nc_speed_over_ground = (\<lambda>_. None), nc_true_course = (\<lambda>_. None)\<rparr>"

definition demo_clock :: turn_clock where
  "demo_clock = \<lparr>t_item = 5, t_stamp = 6, t_fix = 7\<rparr>"

definition demo_fix :: gps_fix where
  "demo_fix = \<lparr>fix_t = at_mono 0, lat_deg = FNum 48, lon_deg = FNum 11, alt_m = FNum 0,
     speed_mps = None, course_deg = None, hdop = None, sats = Some 8\<rparr>"

definition demo_inputs :: "(conn_input \<times> turn_clock) list" where
  "demo_inputs = map (\<lambda>i. (i, demo_clock))
     [Arrived [0x24], NextItem, Probe, Arrived [0x47, 0x0D, 0x0A, 0x24], NextItem, Arrived [0x0A, 0x41], NextItem]"

lemma demo_plausible: "gps_fix_is_plausible \<lparr>fix_t = t, lat_deg = FNum 48, lon_deg = FNum 11, alt_m = FNum 0,
     speed_mps = None, course_deg = None, hdop = None, sats = Some 8\<rparr>"
  by (simp add: gps_fix_is_plausible_def flt_def)

lemmas demo_simps = demo_inputs_def arrived_def is_open_input_def short_lines_def newline_def NMEA_MAX_LINE_BYTES_def

lemmas demo_run_simps = conn_run_def conn_open_def run_source_Some run_source_append conn_step_def decode_def
  decode_eof_def position_def newline_def NMEA_MAX_LINE_BYTES_def codec_new_def demo_clock_def deliver_def
  handle_item_def handle_sentence_def parse_sentence_def position_fix_def demo_crate_def frame_line_def
  carriage_return_def starts_with_dollar_def elapsed_def disconnect_def Let_def poll_def classify_def
  recent_def link_health_new_def link_counts_default_def observe_bytes_def on_event_def on_parse_error_def on_fix_def QUIET_LINK_GRACE_def
  nanos_of_secs_def demo_plausible

lemma demo_run_ends: "snd (conn_run demo_crate (demo_inputs @ [(Eof, demo_clock)]) 0) = None"
  by (simp add: demo_inputs_def demo_run_simps)

lemma serial_pipeline_exact_witness:
  "fixes_of (fst (conn_run demo_crate (demo_inputs @ [(Eof, demo_clock)]) 0)) = [demo_fix]"
proof -
  have "list_all is_open_input demo_inputs" "short_lines (arrived demo_inputs)"
    by (simp_all add: demo_simps)
  from serial_pipeline_exact [OF this demo_run_ends] show ?thesis
    by (simp add: demo_simps frame_line_def carriage_return_def starts_with_dollar_def demo_crate_def
        sentence_fix_def parse_sentence_def position_fix_def demo_plausible demo_fix_def)
qed

section \<open>The protocol of a connection\<close>

definition is_disconnect :: "conn_output \<Rightarrow> bool" where
  "is_disconnect x \<longleftrightarrow> (case x of Emit (Disconnected _ _) \<Rightarrow> True | _ \<Rightarrow> False)"

abbreviation fix_count :: "'p conn \<Rightarrow> u64" where
  "fix_count k \<equiv> lc_fixes (lh_counts (health k))"

lemma health_op_fix_count [simp]:
  "lc_fixes (lh_counts (observe_bytes n now h)) = lc_fixes (lh_counts h)"
  "lc_fixes (lh_counts (on_event e now h)) = lc_fixes (lh_counts h)"
  "lc_fixes (lh_counts (on_parse_error h)) = lc_fixes (lh_counts h)"
  "lc_fixes (lh_counts (on_fix now h)) = lc_fixes (lh_counts h) + 1"
  "lc_fixes (lh_counts (on_fix_rejected h)) = lc_fixes (lh_counts h)"
  "lc_fixes (lh_counts (snd (poll now h))) = lc_fixes (lh_counts h)"
  by (simp_all add: health_op_defs poll_def Let_def split: nmea_line.splits option.splits)

text \<open>A turn that does not end the loop counts what it yields, at most one fix.\<close>

definition counts_turn :: "conn_output list \<Rightarrow> 'p conn \<Rightarrow> 'p conn \<Rightarrow> bool" where
  "counts_turn outs k k' \<longleftrightarrow>
     \<not> list_ex is_disconnect outs \<and> length (fixes_of outs) \<le> 1
     \<and> fix_count k' = fix_count k + word_of_nat (length (fixes_of outs))"

lemma handle_sentence_counts:
  "counts_turn (map Emit (fst (handle_sentence nc clk l k))) k (snd (handle_sentence nc clk l k))"
  by (auto simp: counts_turn_def handle_sentence_def fixes_of_def is_disconnect_def split: prod.splits sum.splits option.splits)

lemma deliver_counts:
  "\<exists>k'. snd (deliver nc clk e k) = Some k' \<and> counts_turn (fst (deliver nc clk e k)) k k'"
  using handle_sentence_counts [of nc clk _ "k\<lparr>health := on_event e (elapsed k (t_item clk)) (health k)\<rparr>"]
  by (auto simp: deliver_def handle_item_def Let_def case_prod_beta counts_turn_def split: nmea_line.splits)

lemma conn_step_counts:
  "(\<exists>k'. snd (conn_step nc i k) = Some k' \<and> counts_turn (fst (conn_step nc i k)) k k')
   \<or> (\<exists>r. conn_step nc i k = ([Emit (Disconnected r (fix_count k > 0))], None))"
proof -
  obtain x clk where i: "i = (x, clk)"
    by force
  show ?thesis
  proof (cases x)
    case (Arrived bs)
    then show ?thesis
      by (simp add: i conn_step_def counts_turn_def)
  next
    case NextItem
    then show ?thesis
      using deliver_counts [of nc clk _ "k\<lparr>framed := snd (decode (fst (framed k)) (snd (framed k)))\<rparr>"]
      by (cases "decode (fst (framed k)) (snd (framed k))") (auto simp: i conn_step_def counts_turn_def split: option.splits)
  next
    case Eof
    then show ?thesis
      using deliver_counts [of nc clk _ "k\<lparr>framed := snd (decode_eof (fst (framed k)) (snd (framed k)))\<rparr>"]
      by (cases "decode_eof (fst (framed k)) (snd (framed k))")
        (auto simp: i conn_step_def counts_turn_def disconnect_def split: option.splits)
  next
    case (ReadError e)
    then show ?thesis
      by (simp add: i conn_step_def disconnect_def)
  next
    case Probe
    then show ?thesis
      by (auto simp: i conn_step_def counts_turn_def Let_def case_prod_beta is_disconnect_def split: option.splits)
  qed
qed

lemma conn_run_counts:
  assumes "unat (fix_count k) + length inputs < 2 ^ 64"
  shows "case run_source (conn_step nc) inputs (Some k) of
      (outs, Some k') \<Rightarrow> \<not> list_ex is_disconnect outs
    | (outs, None) \<Rightarrow> \<exists>outs' r. outs = outs' @ [Emit (Disconnected r (fix_count k > 0 \<or> fixes_of outs' \<noteq> []))]
        \<and> \<not> list_ex is_disconnect outs'"
  using assms
proof (induction inputs arbitrary: k)
  case (Cons i inputs)
  from conn_step_counts [of nc i k] show ?case
  proof (elim disjE exE conjE)
    fix k'
    assume k': "snd (conn_step nc i k) = Some k'" "counts_turn (fst (conn_step nc i k)) k k'"
    let ?n = "length (fixes_of (fst (conn_step nc i k)))"
    have n: "?n \<le> 1" and c: "fix_count k' = fix_count k + word_of_nat ?n"
      using k'(2) by (simp_all add: counts_turn_def)
    have u: "unat (fix_count k') = unat (fix_count k) + ?n"
      using Cons.prems n unfolding c by (subst unat_plus_if_size) (auto simp: word_size unat_of_nat le_Suc_eq)
    have "fix_count k' > 0 \<longleftrightarrow> fix_count k > 0 \<or> fixes_of (fst (conn_step nc i k)) \<noteq> []"
      using u by (simp add: word_greater_zero_iff unat_eq_zero [symmetric] flip: length_greater_0_conv)
    moreover have "unat (fix_count k') + length inputs < 2 ^ 64"
      using Cons.prems u n by simp
    ultimately show ?thesis
      using Cons.IH [of k'] k'
      by (fastforce simp: run_source_Some counts_turn_def split: prod.splits option.splits)
  next
    fix r
    assume "conn_step nc i k = ([Emit (Disconnected r (fix_count k > 0))], None)"
    then show ?thesis
      by (auto simp: run_source_Some fixes_of_def)
  qed
qed simp

text \<open>
  What a connection hands to the reconnect loop: only plausible fixes, then, if and only
  if the connection has ended, one final disconnection, whose flag says truthfully whether
  any fix was yielded.
\<close>

theorem serial_connection_protocol:
  assumes "length inputs < 2 ^ 64" and "conn_run nc inputs t = (outs, st)"
  shows "(\<forall>fx. Emit (SerialFix fx) \<in> set outs \<longrightarrow> gps_fix_is_plausible fx)
    \<and> (case st of
         Some k \<Rightarrow> \<not> list_ex is_disconnect outs
       | None \<Rightarrow> \<exists>outs' r. outs = outs' @ [Emit (Disconnected r (fixes_of outs' \<noteq> []))]
           \<and> \<not> list_ex is_disconnect outs')"
proof
  have "emitted_ok x" if "x \<in> set outs" for x
    using serial.run_gate [where nc = nc and s = "conn_open nc t" and inputs = inputs and x = x] that assms(2) by (simp add: conn_run_def)
  then show "\<forall>fx. Emit (SerialFix fx) \<in> set outs \<longrightarrow> gps_fix_is_plausible fx"
    by (fastforce simp: emitted_ok_def)
  have z: "fix_count (conn_open nc t) = 0"
    by (simp add: conn_open_def link_health_new_def link_counts_default_def)
  from conn_run_counts [of "conn_open nc t" inputs nc] assms show "case st of
         Some k \<Rightarrow> \<not> list_ex is_disconnect outs
       | None \<Rightarrow> \<exists>outs' r. outs = outs' @ [Emit (Disconnected r (fixes_of outs' \<noteq> []))]
           \<and> \<not> list_ex is_disconnect outs'"
    by (auto simp: z conn_run_def split: option.splits)
qed

lemma serial_connection_protocol_witness:
  "\<exists>outs' r. fst (conn_run demo_crate (demo_inputs @ [(Eof, demo_clock)]) 0) =
     outs' @ [Emit (Disconnected r (fixes_of outs' \<noteq> []))]"
  using serial_connection_protocol [of "demo_inputs @ [(Eof, demo_clock)]" demo_crate 0 _ None] demo_run_ends
  by (cases "conn_run demo_crate (demo_inputs @ [(Eof, demo_clock)]) 0") (auto simp: demo_inputs_def)

section \<open>The reconnect loop\<close>

definition attempt_fixes :: "attempt \<Rightarrow> gps_fix list" where
  "attempt_fixes a = (case a of OpenFailed \<Rightarrow> [] | Connected evs \<Rightarrow> yielded evs)"

definition attempt_sleep :: "duration \<Rightarrow> attempt \<Rightarrow> duration" where
  "attempt_sleep b a = (case a of OpenFailed \<Rightarrow> b | Connected _ \<Rightarrow> RECONNECT_BACKOFF_INITIAL)"

lemma serial_source_Cons:
  "serial_source b (a # as) =
     (attempt_fixes a @ fst (serial_source (min (attempt_sleep b a * 2) RECONNECT_BACKOFF_MAX) as),
      attempt_sleep b a # snd (serial_source (min (attempt_sleep b a * 2) RECONNECT_BACKOFF_MAX) as))"
  by (cases a) (simp_all add: attempt_sleep_def attempt_fixes_def case_prod_beta)

lemma serial_source_steps:
  "fst (serial_source b as) = concat (map attempt_fixes as)
   \<and> length (snd (serial_source b as)) = length as
   \<and> (\<forall>i < length as. snd (serial_source b as) ! i =
        attempt_sleep (if i = 0 then b else min (2 * snd (serial_source b as) ! (i - 1)) RECONNECT_BACKOFF_MAX) (as ! i))"
proof (induction "as" arbitrary: b)
  case (Cons a "as")
  let ?b = "min (attempt_sleep b a * 2) RECONNECT_BACKOFF_MAX"
  have IH: "snd (serial_source ?b as) ! j =
      attempt_sleep (if j = 0 then ?b else min (2 * snd (serial_source ?b as) ! (j - 1)) RECONNECT_BACKOFF_MAX) (as ! j)"
    if "j < length as" for j
    using Cons [of ?b] that by blast
  have "snd (serial_source b (a # as)) ! i =
      attempt_sleep (if i = 0 then b else min (2 * snd (serial_source b (a # as)) ! (i - 1)) RECONNECT_BACKOFF_MAX) ((a # as) ! i)"
    if "i < length (a # as)" for i
  proof (cases i)
    case (Suc j)
    with IH [of j] that show ?thesis
      by (cases j) (simp_all add: serial_source_Cons mult.commute)
  qed (simp add: serial_source_Cons)
  moreover have "fst (serial_source b (a # as)) = concat (map attempt_fixes (a # as))"
      "length (snd (serial_source b (a # as))) = length (a # as)"
    using Cons [of ?b] by (simp_all add: serial_source_Cons)
  ultimately show ?case
    by blast
qed simp

text \<open>
  The reconnect policy: no fix of any connection is lost, every attempt is followed by a
  sleep between 250 ms and 5 s, and a run of failed opens doubles the sleep up to that limit,
  while a successful open brings it back to 250 ms.
\<close>

theorem reconnect_backoff_policy:
  assumes "serial_source RECONNECT_BACKOFF_INITIAL as = (fs, ds)"
  shows "fs = concat (map attempt_fixes as) \<and> length ds = length as
    \<and> (\<forall>i < length as.
        RECONNECT_BACKOFF_INITIAL \<le> ds ! i \<and> ds ! i \<le> RECONNECT_BACKOFF_MAX
        \<and> (i = 0 \<longrightarrow> ds ! i = RECONNECT_BACKOFF_INITIAL)
        \<and> (as ! i \<noteq> OpenFailed \<longrightarrow> ds ! i = RECONNECT_BACKOFF_INITIAL)
        \<and> (i > 0 \<and> as ! i = OpenFailed \<longrightarrow> ds ! i = min (2 * ds ! (i - 1)) RECONNECT_BACKOFF_MAX))"
proof -
  note s = serial_source_steps [of RECONNECT_BACKOFF_INITIAL "as", unfolded assms fst_conv snd_conv]
  note lims = RECONNECT_BACKOFF_INITIAL_def RECONNECT_BACKOFF_MAX_def nanos_of_secs_def
  have st: "ds ! i = attempt_sleep (if i = 0 then RECONNECT_BACKOFF_INITIAL else min (2 * ds ! (i - 1)) RECONNECT_BACKOFF_MAX) (as ! i)"
    if "i < length as" for i
    using s that by blast
  have bounds: "RECONNECT_BACKOFF_INITIAL \<le> ds ! i \<and> ds ! i \<le> RECONNECT_BACKOFF_MAX" if "i < length as" for i
    using that
  proof (induction i)
    case 0
    with st [of 0] show ?case
      by (simp add: attempt_sleep_def lims split: attempt.splits)
  next
    case (Suc i)
    with st [of "Suc i"] show ?case
      by (simp add: attempt_sleep_def lims split: attempt.splits)
  qed
  have "(i = 0 \<longrightarrow> ds ! i = RECONNECT_BACKOFF_INITIAL)
      \<and> (as ! i \<noteq> OpenFailed \<longrightarrow> ds ! i = RECONNECT_BACKOFF_INITIAL)
      \<and> (i > 0 \<and> as ! i = OpenFailed \<longrightarrow> ds ! i = min (2 * ds ! (i - 1)) RECONNECT_BACKOFF_MAX)"
    if "i < length as" for i
    using st [OF that] by (cases "as ! i"; cases i) (simp_all add: attempt_sleep_def)
  with bounds s show ?thesis
    by blast
qed

lemma reconnect_backoff_policy_witness:
  "snd (serial_source RECONNECT_BACKOFF_INITIAL [OpenFailed, OpenFailed, Connected [SerialFix demo_fix], OpenFailed]) ! 3
     = 2 * RECONNECT_BACKOFF_INITIAL"
  using reconnect_backoff_policy [of "[OpenFailed, OpenFailed, Connected [SerialFix demo_fix], OpenFailed]", OF surjective_pairing]
  by (simp add: RECONNECT_BACKOFF_INITIAL_def RECONNECT_BACKOFF_MAX_def nanos_of_secs_def)

end
