(* ===== verification/Mav_Link.thy ===== *)
theory Mav_Link
  imports Monitor Sensor_Gate
begin

text \<open>
  The MAVLink link, \<open>src/src/mav/mod.rs\<close>: the ingress filter, the conversion of
  messages into fixes and samples, the clock aligner, the listener loop, the heartbeat
  watchdog and the sequence numbers of what is sent. The frame parser and the message types
  belong to the \<open>mavlink\<close> crate: parsing is the parameter \<open>parse\<close>, and a message is
  one of the kinds the code looks at, with the fields it reads, or \<open>MsgOther\<close>.
\<close>

section \<open>Messages\<close>

datatype mavlink_version = V1 | V2

record ack_msg =
  ack_command :: u16
  ack_result :: u16

record param_msg =
  pm_id :: "u8 list"
  pm_value :: f32
  pm_type :: u8

text \<open>The signed fields are two's-complement words, read by \<open>sint\<close>.\<close>

record gps_raw_int =
  gr_time_usec :: u64
  gr_fix_type :: u8
  gr_lat :: u32
  gr_lon :: u32
  gr_alt :: u32
  gr_eph :: u16
  gr_vel :: u16
  gr_cog :: u16
  gr_sats :: u8

record highres_imu =
  hr_time_usec :: u64
  hr_acc :: vec3
  hr_gyro :: vec3

record scaled_imu =
  si_time_boot_ms :: u32
  si_xacc :: u16
  si_yacc :: u16
  si_zacc :: u16
  si_xgyro :: u16
  si_ygyro :: u16
  si_zgyro :: u16

record hb_msg =
  hm_custom_mode :: u32
  hm_base_mode :: u8
  hm_system_status :: u8
  hm_autopilot :: u8

datatype mav_msg =
    MsgHeartbeat hb_msg | MsgCommandAck ack_msg | MsgParamValue param_msg
  | MsgGpsRawInt gps_raw_int | MsgHighresImu highres_imu
  | MsgScaledImu scaled_imu | MsgScaledImu2 scaled_imu | MsgScaledImu3 scaled_imu
  | MsgOther

definition GPS_U16_UNKNOWN :: u16 where "GPS_U16_UNKNOWN = - 1"
definition GPS_U8_UNKNOWN :: u8 where "GPS_U8_UNKNOWN = - 1"

definition mavlink_version_of :: "u8 \<Rightarrow> mavlink_version" where
  "mavlink_version_of magic = (if magic = 0xFD then V2 else if magic = 0xFE then V1 else V2)"

definition u16_f :: "format \<Rightarrow> u16 \<Rightarrow> fl" where
  "u16_f F w = of_int_fl F (int (unat w))"

definition i32_f64 :: "u32 \<Rightarrow> f64" where
  "i32_f64 w = of_int_fl B64 (sint w)"

definition i16_f32 :: "u16 \<Rightarrow> f32" where
  "i16_f32 w = of_int_fl B32 (sint w)"

definition gps_from_msg :: "instant \<Rightarrow> mav_msg \<Rightarrow> gps_fix option" where
  "gps_from_msg t msg =
     (case msg of
        MsgGpsRawInt g \<Rightarrow>
          (if \<not> gr_fix_type g \<ge> 2 then None
           else Some \<lparr>
             fix_t = at_mono t,
             lat_deg = fmul B64 (i32_f64 (gr_lat g)) (lit B64 (1 / 10 ^ 7)),
             lon_deg = fmul B64 (i32_f64 (gr_lon g)) (lit B64 (1 / 10 ^ 7)),
             alt_m = fmul B64 (i32_f64 (gr_alt g)) (lit B64 (1 / 10 ^ 3)),
             speed_mps = (if gr_vel g = GPS_U16_UNKNOWN then None
                          else Some (fmul B64 (u16_f B64 (gr_vel g)) (lit B64 (1 / 10 ^ 2)))),
             course_deg = (if gr_cog g = GPS_U16_UNKNOWN \<or> gr_cog g > 35999 then None
                           else Some (fmul B64 (u16_f B64 (gr_cog g)) (lit B64 (1 / 10 ^ 2)))),
             hdop = (if gr_eph g = GPS_U16_UNKNOWN then None
                     else Some (fmul B32 (u16_f B32 (gr_eph g)) (lit B32 (1 / 10 ^ 2)))),
             sats = (if gr_sats g = GPS_U8_UNKNOWN then None else Some (gr_sats g))\<rparr>)
      | _ \<Rightarrow> None)"

definition G_MPS2 :: f32 where "G_MPS2 = lit B32 (980665 / 100000)"

definition mg_to_mps2 :: "u16 \<Rightarrow> f32" where
  "mg_to_mps2 w = fmul B32 (fmul B32 (i16_f32 w) (lit B32 (1 / 10 ^ 3))) G_MPS2"

definition mrad_to_rps :: "u16 \<Rightarrow> f32" where
  "mrad_to_rps w = fmul B32 (i16_f32 w) (lit B32 (1 / 10 ^ 3))"

definition scaled_sample :: "instant \<Rightarrow> scaled_imu \<Rightarrow> imu_sample" where
  "scaled_sample t i =
     \<lparr>imu_t = at_mono t,
      accel_mps2 = \<lparr>v0 = mg_to_mps2 (si_xacc i), v1 = mg_to_mps2 (si_yacc i), v2 = mg_to_mps2 (si_zacc i)\<rparr>,
      gyro_rps = \<lparr>v0 = mrad_to_rps (si_xgyro i), v1 = mrad_to_rps (si_ygyro i), v2 = mrad_to_rps (si_zgyro i)\<rparr>\<rparr>"

definition imu_from_msg :: "instant \<Rightarrow> mav_msg \<Rightarrow> imu_sample option" where
  "imu_from_msg t msg =
     (case msg of
        MsgHighresImu i \<Rightarrow> Some \<lparr>imu_t = at_mono t, accel_mps2 = hr_acc i, gyro_rps = hr_gyro i\<rparr>
      | MsgScaledImu i \<Rightarrow> Some (scaled_sample t i)
      | MsgScaledImu2 i \<Rightarrow> Some (scaled_sample t i)
      | MsgScaledImu3 i \<Rightarrow> Some (scaled_sample t i)
      | _ \<Rightarrow> None)"

section \<open>The clock aligner\<close>

definition CLOCK_ALIGN_MAX_SKEW :: duration where
  "CLOCK_ALIGN_MAX_SKEW = 2 * 10 ^ 9"

type_synonym clock_aligner = "(instant \<times> u64) option"

definition from_micros :: "u64 \<Rightarrow> duration" where
  "from_micros us = unat us * 1000"

definition align :: "u64 option \<Rightarrow> instant \<Rightarrow> clock_aligner \<Rightarrow> instant \<times> clock_aligner" where
  "align sensor_us arrival anchor =
     (case sensor_us of
        None \<Rightarrow> (arrival, anchor)
      | Some s \<Rightarrow>
          (case anchor of
             None \<Rightarrow> (arrival, Some (arrival, s))
           | Some (anchor_arrival, anchor_sensor) \<Rightarrow>
               if s < anchor_sensor then (arrival, Some (arrival, s))
               else
                 let sensor_delta = from_micros (s - anchor_sensor);
                     real_elapsed = saturating_duration_since arrival anchor_arrival
                 in if sensor_delta > real_elapsed + CLOCK_ALIGN_MAX_SKEW then (arrival, Some (arrival, s))
                    else let aligned = anchor_arrival + sensor_delta
                      in if saturating_duration_since arrival aligned > CLOCK_ALIGN_MAX_SKEW
                         then (arrival, Some (arrival, s))
                         else (aligned, anchor)))"

definition gps_sensor_us :: "mav_msg \<Rightarrow> u64 option" where
  "gps_sensor_us msg =
     (case msg of MsgGpsRawInt g \<Rightarrow> if gr_time_usec g \<noteq> 0 then Some (gr_time_usec g) else None | _ \<Rightarrow> None)"

definition boot_ms_us :: "scaled_imu \<Rightarrow> u64 option" where
  "boot_ms_us i = (if si_time_boot_ms i \<noteq> 0 then Some (ucast (si_time_boot_ms i) * 1000) else None)"

definition imu_sensor_us :: "mav_msg \<Rightarrow> u64 option" where
  "imu_sensor_us msg =
     (case msg of
        MsgHighresImu i \<Rightarrow> if hr_time_usec i \<noteq> 0 then Some (hr_time_usec i) else None
      | MsgScaledImu i \<Rightarrow> boot_ms_us i
      | MsgScaledImu2 i \<Rightarrow> boot_ms_us i
      | MsgScaledImu3 i \<Rightarrow> boot_ms_us i
      | _ \<Rightarrow> None)"

section \<open>The listener\<close>

record mav_filter =
  allowed_source_ip :: "nat option"
  autopilot_sysid :: "u8 option"
  allow_any_source_port :: bool

record mav_stats =
  recv_total :: u64
  dropped_source_ip :: u64
  dropped_sysid :: u64
  dropped_oversize :: u64
  dropped_nonfinite :: u64
  dropped_source_locked :: u64
  parse_errors :: u64

definition mav_stats_default :: mav_stats where
  "mav_stats_default = \<lparr>recv_total = 0, dropped_source_ip = 0, dropped_sysid = 0, dropped_oversize = 0,
     dropped_nonfinite = 0, dropped_source_locked = 0, parse_errors = 0\<rparr>"

text \<open>What the listener task captured when it was spawned.\<close>

record listener_cfg =
  lc_filter :: mav_filter
  lc_remote :: socket_addr
  lc_boot :: instant
  lc_parse :: "mavlink_version \<Rightarrow> u8 list \<Rightarrow> (u8 \<times> mav_msg) option"

definition expected_port_opt :: "listener_cfg \<Rightarrow> u16 option" where
  "expected_port_opt cfg =
     (if allow_any_source_port (lc_filter cfg) then None else Some (sa_port (lc_remote cfg)))"

record listener =
  ls_stats :: mav_stats
  ls_monitor :: mav_monitor
  gps_aligner :: clock_aligner
  imu_aligner :: clock_aligner
  last_port_deaf_warn :: "instant option"

definition listener_start :: listener where
  "listener_start = \<lparr>ls_stats = mav_stats_default, ls_monitor = monitor_new, gps_aligner = None,
     imu_aligner = None, last_port_deaf_warn = None\<rparr>"

text \<open>The clock readings a turn makes, in program order, and which channels still have a receiver.\<close>

record rx_env =
  rx_warn_check :: instant
  rx_warn_set :: instant
  rx_record :: instant
  rx_stamp :: instant
  rx_arrival :: instant
  gps_rx_open :: bool
  imu_rx_open :: bool

record datagram =
  dg_src :: socket_addr
  dg_bytes :: "u8 list"
  dg_env :: rx_env

datatype error_kind = ConnectionReset | ConnectionRefused | HostUnreachable | OtherKind

record io_error =
  raw_os_error :: "int option"
  io_kind :: error_kind

definition is_transient_udp_error :: "io_error \<Rightarrow> bool" where
  "is_transient_udp_error e \<longleftrightarrow>
     raw_os_error e \<in> {Some 10054, Some 10052, Some 10040}
     \<or> io_kind e \<in> {ConnectionReset, ConnectionRefused, HostUnreachable}"

datatype rx_input = Datagram datagram | RecvError io_error

datatype rx_output = OutGps gps_fix | OutImu imu_sample | OutOther mav_msg | DeafWarning socket_addr

definition bump_stats :: "(mav_stats \<Rightarrow> mav_stats) \<Rightarrow> listener \<Rightarrow> listener" where
  "bump_stats f l = l\<lparr>ls_stats := f (ls_stats l)\<rparr>"

abbreviation count_recv :: "mav_stats \<Rightarrow> mav_stats" where
  "count_recv s \<equiv> s\<lparr>recv_total := recv_total s + 1\<rparr>"
abbreviation count_source_ip :: "mav_stats \<Rightarrow> mav_stats" where
  "count_source_ip s \<equiv> s\<lparr>dropped_source_ip := dropped_source_ip s + 1\<rparr>"
abbreviation count_sysid :: "mav_stats \<Rightarrow> mav_stats" where
  "count_sysid s \<equiv> s\<lparr>dropped_sysid := dropped_sysid s + 1\<rparr>"
abbreviation count_nonfinite :: "mav_stats \<Rightarrow> mav_stats" where
  "count_nonfinite s \<equiv> s\<lparr>dropped_nonfinite := dropped_nonfinite s + 1\<rparr>"
abbreviation count_locked :: "mav_stats \<Rightarrow> mav_stats" where
  "count_locked s \<equiv> s\<lparr>dropped_source_locked := dropped_source_locked s + 1\<rparr>"
abbreviation count_parse_error :: "mav_stats \<Rightarrow> mav_stats" where
  "count_parse_error s \<equiv> s\<lparr>parse_errors := parse_errors s + 1\<rparr>"

text \<open>What the monitor records of an accepted message.\<close>

definition record_msg :: "listener_cfg \<Rightarrow> rx_env \<Rightarrow> mav_msg \<Rightarrow> mav_monitor \<Rightarrow> mav_monitor" where
  "record_msg cfg env msg m =
     (case msg of
        MsgHeartbeat hb \<Rightarrow>
          snd (record_heartbeat (lc_boot cfg)
            \<lparr>hb_now = rx_record env, hb_custom_mode = hm_custom_mode hb, hb_base_mode = hm_base_mode hb,
             hb_system_status = hm_system_status hb, hb_autopilot = hm_autopilot hb\<rparr> m)
      | MsgCommandAck a \<Rightarrow> record_ack (rx_record env) (lc_boot cfg) (ack_command a) (ack_result a) m
      | MsgParamValue p \<Rightarrow> record_param_value (rx_record env) (lc_boot cfg) (pm_id p) (pm_value p) (pm_type p) m
      | _ \<Rightarrow> m)"

text \<open>A message from a source the lock does not accept; a heartbeat may raise the rate-limited warning.\<close>

definition reject_source ::
    "listener_cfg \<Rightarrow> datagram \<Rightarrow> mav_msg \<Rightarrow> listener \<Rightarrow> rx_output list \<times> listener option" where
  "reject_source cfg d msg l =
     (let l = bump_stats count_locked l
      in case msg of
           MsgHeartbeat _ \<Rightarrow>
             (if expected_port_opt cfg \<noteq> None \<and> locked_source (ls_monitor l) = None
              then
                let warn_now = (case last_port_deaf_warn l of
                                  None \<Rightarrow> True
                                | Some t \<Rightarrow> saturating_duration_since (rx_warn_check (dg_env d)) t \<ge> 5 * 10 ^ 9)
                in if warn_now
                   then ([DeafWarning (dg_src d)], Some (l\<lparr>last_port_deaf_warn := Some (rx_warn_set (dg_env d))\<rparr>))
                   else ([], Some l)
              else ([], Some l))
         | _ \<Rightarrow> ([], Some l))"

definition dispatch_msg :: "rx_env \<Rightarrow> mav_msg \<Rightarrow> listener \<Rightarrow> rx_output list \<times> listener option" where
  "dispatch_msg env msg l =
     (case gps_from_msg (rx_stamp env) msg of
        Some fx \<Rightarrow>
          (let (t, a) = align (gps_sensor_us msg) (rx_arrival env) (gps_aligner l);
               fx = fx\<lparr>fix_t := (fix_t fx)\<lparr>mono := t\<rparr>\<rparr>;
               l = l\<lparr>gps_aligner := a\<rparr>
           in if \<not> gps_fix_is_plausible fx then ([], Some (bump_stats count_nonfinite l))
              else if gps_rx_open env then ([OutGps fx], Some l)
              else ([], None))
      | None \<Rightarrow>
          (case imu_from_msg (rx_stamp env) msg of
             Some sample \<Rightarrow>
               (let (t, a) = align (imu_sensor_us msg) (rx_arrival env) (imu_aligner l);
                    sample = sample\<lparr>imu_t := (imu_t sample)\<lparr>mono := t\<rparr>\<rparr>;
                    l = l\<lparr>imu_aligner := a\<rparr>
                in if \<not> imu_sample_is_plausible sample then ([], Some (bump_stats count_nonfinite l))
                   else if imu_rx_open env then ([OutImu sample], Some l)
                   else ([], None))
           | None \<Rightarrow> ([OutOther msg], Some l)))"

definition accept_msg ::
    "listener_cfg \<Rightarrow> datagram \<Rightarrow> u8 \<Rightarrow> mav_msg \<Rightarrow> listener \<Rightarrow> rx_output list \<times> listener option" where
  "accept_msg cfg d sysid msg l =
     (if (case autopilot_sysid (lc_filter cfg) of None \<Rightarrow> False | Some want \<Rightarrow> sysid \<noteq> want)
      then ([], Some (bump_stats count_sysid l))
      else
        case check_or_lock_source (dg_src d) (expected_port_opt cfg) (ls_monitor l) of
          (False, m) \<Rightarrow> reject_source cfg d msg (l\<lparr>ls_monitor := m\<rparr>)
        | (True, m) \<Rightarrow> dispatch_msg (dg_env d) msg (l\<lparr>ls_monitor := record_msg cfg (dg_env d) msg m\<rparr>))"

definition listener_step ::
    "listener_cfg \<Rightarrow> rx_input \<Rightarrow> listener \<Rightarrow> rx_output list \<times> listener option" where
  "listener_step cfg i l =
     (case i of
        RecvError e \<Rightarrow> ([], if is_transient_udp_error e then Some l else None)
      | Datagram d \<Rightarrow>
          (let l = bump_stats count_recv l; bs = dg_bytes d
           in if length bs < 8 then ([], Some (bump_stats count_parse_error l))
              else if (case allowed_source_ip (lc_filter cfg) of None \<Rightarrow> False | Some ip \<Rightarrow> sa_ip (dg_src d) \<noteq> ip)
              then ([], Some (bump_stats count_source_ip l))
              else case lc_parse cfg (mavlink_version_of (bs ! 0)) bs of
                     None \<Rightarrow> ([], Some (bump_stats count_parse_error l))
                   | Some (sysid, msg) \<Rightarrow> accept_msg cfg d sysid msg l))"

section \<open>The heartbeat watchdog\<close>

record watchdog =
  last_state_up :: bool
  have_seen_heartbeat :: bool
  last_mode_change_ns :: u64

definition watchdog_start :: watchdog where
  "watchdog_start = \<lparr>last_state_up = False, have_seen_heartbeat = False, last_mode_change_ns = 0\<rparr>"

text \<open>An event of the watchdog: its kind and the mode in its payload; its state is always \<open>Normal\<close>.\<close>

type_synonym wd_event = "spoof_kind \<times> nav_state_kind \<times> u32"

definition emit_link_event :: "bool \<Rightarrow> u32 \<Rightarrow> wd_event" where
  "emit_link_event up current_mode = (if up then KLinkRestored else KLinkDown, Normal, current_mode)"

definition emit_mode_change_event :: "u32 \<Rightarrow> wd_event" where
  "emit_mode_change_event new_mode = (KPilotModeChange, Normal, new_mode)"

text \<open>The monitor as each load of one tick finds it, in program order; the listener may write between them.\<close>

record wd_tick =
  wd_now :: instant
  wd_fresh :: mav_monitor
  wd_changed :: mav_monitor
  wd_mode :: mav_monitor
  wd_link_mode :: mav_monitor

definition watchdog_tick :: "instant \<Rightarrow> u64 \<Rightarrow> wd_tick \<Rightarrow> watchdog \<Rightarrow> wd_event list \<times> watchdog" where
  "watchdog_tick boot staleness_ns k w =
     (if \<not> have_seen_heartbeat w then
        (if heartbeat_fresh (wd_fresh k) (wd_now k) boot staleness_ns
         then ([emit_link_event True (current_custom_mode (wd_link_mode k))],
               w\<lparr>have_seen_heartbeat := True, last_state_up := True,
                 last_mode_change_ns := mode_changed_at_ns (wd_changed k)\<rparr>)
         else ([], w))
      else
        let up = heartbeat_fresh (wd_fresh k) (wd_now k) boot staleness_ns;
            link = (if up \<noteq> last_state_up w then [emit_link_event up (current_custom_mode (wd_link_mode k))] else []);
            w = w\<lparr>last_state_up := up\<rparr>;
            mc_ns = mode_changed_at_ns (wd_changed k)
        in if mc_ns > last_mode_change_ns w
           then (link @ [emit_mode_change_event (current_custom_mode (wd_mode k))], w\<lparr>last_mode_change_ns := mc_ns\<rparr>)
           else (link, w))"

fun watchdog_run :: "instant \<Rightarrow> u64 \<Rightarrow> wd_tick list \<Rightarrow> watchdog \<Rightarrow> wd_event list \<times> watchdog" where
  "watchdog_run boot st [] w = ([], w)"
| "watchdog_run boot st (k # ks) w =
     (case watchdog_tick boot st k w of (es, w') \<Rightarrow>
        (case watchdog_run boot st ks w' of (es', w'') \<Rightarrow> (es @ es', w'')))"

section \<open>Sending\<close>

record mav_header =
  mh_system_id :: u8
  mh_component_id :: u8
  mh_sequence :: u8

text \<open>
  \<open>send\<close>: the sequence number is taken before the encoder runs, so a message that fails to
  encode or to leave uses one up. \<open>encode\<close> and \<open>tx\<close> are the crate and the socket.
\<close>

definition mav_send ::
    "(mav_header \<Rightarrow> 'm \<Rightarrow> string + u8 list) \<Rightarrow> (u8 list \<Rightarrow> string + unit) \<Rightarrow> 'm \<Rightarrow> u8
     \<Rightarrow> (fs_error + unit) \<times> u8" where
  "mav_send encode tx msg seq =
     (let header = \<lparr>mh_system_id = 255, mh_component_id = 0, mh_sequence = seq\<rparr>; seq = seq + 1
      in case encode header msg of
           Inl e \<Rightarrow> (Inl (FsIo (''mavlink encode: '' @ e)), seq)
         | Inr buf \<Rightarrow> (case tx buf of Inl e \<Rightarrow> (Inl (FsIo e), seq) | Inr _ \<Rightarrow> (Inr (), seq)))"

section \<open>Clock alignment\<close>

definition anchored_before :: "clock_aligner \<Rightarrow> instant \<Rightarrow> bool" where
  "anchored_before an t \<longleftrightarrow> (case an of None \<Rightarrow> True | Some (a, _) \<Rightarrow> a \<le> t)"

definition within_skew :: "instant \<Rightarrow> instant \<Rightarrow> bool" where
  "within_skew t arrival \<longleftrightarrow> t \<le> arrival + CLOCK_ALIGN_MAX_SKEW \<and> arrival \<le> t + CLOCK_ALIGN_MAX_SKEW"

lemma align_skew:
  assumes "anchored_before an arrival"
  shows "within_skew (fst (align s arrival an)) arrival"
    and "anchored_before (snd (align s arrival an)) arrival"
  using assms
  by (auto simp: align_def anchored_before_def within_skew_def Let_def saturating_duration_since_def
      split: option.splits)

fun align_run :: "(u64 option \<times> instant) list \<Rightarrow> clock_aligner \<Rightarrow> instant list" where
  "align_run [] an = []"
| "align_run ((s, arrival) # ms) an = (case align s arrival an of (t, an') \<Rightarrow> t # align_run ms an')"

lemma anchored_before_mono: "anchored_before an t \<Longrightarrow> t \<le> t' \<Longrightarrow> anchored_before an t'"
  by (auto simp: anchored_before_def split: option.splits)

lemma align_run_skew:
  assumes "sorted (map snd ms)" and "\<forall>t \<in> snd ` set ms. anchored_before an t"
  shows "list_all2 (\<lambda>t m. within_skew t (snd m)) (align_run ms an) ms"
  using assms
proof (induction ms arbitrary: an)
  case (Cons m ms)
  obtain s a where m: "m = (s, a)" by force
  let ?r = "align s a an"
  have a: "within_skew (fst ?r) a" "anchored_before (snd ?r) a"
    using align_skew [of an a s] Cons.prems(2) by (simp_all add: m)
  have "\<forall>t \<in> snd ` set ms. anchored_before (snd ?r) t"
    using a(2) Cons.prems(1) by (auto simp: m intro: anchored_before_mono)
  with Cons.IH [of "snd ?r"] Cons.prems(1) a(1) show ?case
    by (simp add: m case_prod_beta)
qed simp

text \<open>
  C28. The sensor timestamp of a message, which an attacker chooses, cannot move a stamp far:
  for any sequence of timestamps and any non-decreasing arrival times, every stamp the
  aligner gives lies within two seconds of the message's arrival.
\<close>

theorem aligner_skew_bounded:
  assumes "sorted (map snd ms)"
  shows "list_all2 (\<lambda>t m. within_skew t (snd m)) (align_run ms None) ms"
  using align_run_skew [OF assms, of None] by (simp add: anchored_before_def)

text \<open>A first message, one far in the future, and a regression.\<close>

lemma aligner_skew_bounded_witness:
  "list_all2 (\<lambda>t m. within_skew t (snd m)) (align_run [(Some 5, 10), (Some (- 1), 20), (Some 3, 30)] None)
     [(Some (5 :: u64), 10), (Some (- 1), 20), (Some 3, 30)]"
  by (rule aligner_skew_bounded) simp

lemma align_tracks:
  assumes "s0 \<le> s" and "a0 \<le> a" and "within_skew (a0 + from_micros (s - s0)) a"
  shows "align (Some s) a (Some (a0, s0)) = (a0 + from_micros (s - s0), Some (a0, s0))"
  using assms
  by (auto simp: align_def within_skew_def Let_def saturating_duration_since_def not_less)

lemma align_run_tracks:
  assumes "\<forall>(s, a) \<in> set ms. s0 \<le> s \<and> a0 \<le> a \<and> within_skew (a0 + from_micros (s - s0)) a"
  shows "align_run (map (\<lambda>(s, a). (Some s, a)) ms) (Some (a0, s0)) = map (\<lambda>(s, a). a0 + from_micros (s - s0)) ms"
  using assms by (induction ms) (auto simp: align_tracks)

text \<open>
  Link jitter does not reach the stamps: after a first message with sensor time
  \<open>s0\<close> that arrived at \<open>a0\<close>, as long as every message is at most two seconds early
  or late by the sensor clock, each stamp is \<open>a0\<close> plus the elapsed sensor time, whatever
  the arrival times were.
\<close>

theorem aligner_removes_jitter:
  assumes "\<forall>(s, a) \<in> set ms. s0 \<le> s \<and> a0 \<le> a \<and> within_skew (a0 + from_micros (s - s0)) a"
  shows "align_run (map (\<lambda>(s, a). (Some s, a)) ((s0, a0) # ms)) None
    = map (\<lambda>(s, a). a0 + from_micros (s - s0)) ((s0, a0) # ms)"
  using align_run_tracks [OF assms] by (simp add: align_def from_micros_def)

lemma aligner_removes_jitter_witness:
  "align_run (map (\<lambda>(s, a). (Some s, a)) [(1000, 50), (201000, 350000050), (401000, 400000050)]) None
     = [50, 200000050, 400000050]"
  using aligner_removes_jitter [of "[(201000, 350000050), (401000, 400000050)]" 1000 50]
  by (simp add: within_skew_def CLOCK_ALIGN_MAX_SKEW_def from_micros_def)

section \<open>Gates and the source lock\<close>

definition rx_ok :: "rx_output \<Rightarrow> bool" where
  "rx_ok x \<longleftrightarrow> (case x of OutGps fx \<Rightarrow> gps_fix_is_plausible fx | OutImu s \<Rightarrow> imu_sample_is_plausible s | _ \<Rightarrow> True)"

lemma dispatch_msg_gated: "x \<in> set (fst (dispatch_msg env msg l)) \<Longrightarrow> rx_ok x"
  by (auto simp: dispatch_msg_def rx_ok_def Let_def case_prod_beta split: option.splits if_splits)

lemma reject_source_gated: "x \<in> set (fst (reject_source cfg d msg l)) \<Longrightarrow> rx_ok x"
  by (auto simp: reject_source_def rx_ok_def Let_def split: mav_msg.splits option.splits if_splits)

lemma listener_step_gated: "x \<in> set (fst (listener_step cfg i l)) \<Longrightarrow> rx_ok x"
  by (auto simp: listener_step_def accept_msg_def Let_def case_prod_beta
      dest: dispatch_msg_gated reject_source_gated split: rx_input.splits option.splits if_splits bool.splits)

interpretation mav_rx: gated_source "listener_step cfg" "\<lambda>_. True" rx_ok for cfg
  by unfold_locales (auto dest: listener_step_gated)

text \<open>The trace of a run: each input that was processed, the state it met and what it produced.\<close>

fun trace_source :: "('i \<Rightarrow> 's \<Rightarrow> 'o list \<times> 's option) \<Rightarrow> 'i list \<Rightarrow> 's option \<Rightarrow> ('i \<times> 's \<times> 'o list \<times> 's option) list" where
  "trace_source step (i # inputs) (Some s) = (i, s, step i s) # trace_source step inputs (snd (step i s))"
| "trace_source step _ _ = []"

lemma trace_source_outputs:
  "fst (run_source step inputs st) = concat (map (\<lambda>(i, s, r). fst r) (trace_source step inputs st))"
proof (induction inputs arbitrary: st)
  case (Cons i inputs)
  then show ?case
    by (cases st) (simp_all add: run_source_Some)
qed simp

definition forwarded :: "rx_output list \<Rightarrow> bool" where
  "forwarded outs \<longleftrightarrow> list_ex (\<lambda>x. case x of DeafWarning _ \<Rightarrow> False | _ \<Rightarrow> True) outs"

text \<open>An input has an effect when something of it is forwarded or it changes the monitor.\<close>

definition effective :: "listener \<Rightarrow> rx_output list \<Rightarrow> listener option \<Rightarrow> bool" where
  "effective l outs st \<longleftrightarrow>
     forwarded outs \<or> (case st of None \<Rightarrow> False | Some l' \<Rightarrow> ls_monitor l' \<noteq> ls_monitor l)"

text \<open>A source the ingress filter and the bootstrap check let through.\<close>

definition admissible :: "listener_cfg \<Rightarrow> socket_addr \<Rightarrow> bool" where
  "admissible cfg src \<longleftrightarrow>
     (case allowed_source_ip (lc_filter cfg) of None \<Rightarrow> True | Some ip \<Rightarrow> sa_ip src = ip)
     \<and> (case expected_port_opt cfg of None \<Rightarrow> True | Some p \<Rightarrow> sa_port src = p)"

lemma dispatch_msg_monitor: "snd (dispatch_msg env msg l) = Some l' \<Longrightarrow> ls_monitor l' = ls_monitor l"
  by (auto simp: dispatch_msg_def Let_def case_prod_beta bump_stats_def split: option.splits if_splits)

lemma reject_source_monitor:
  "snd (reject_source cfg d msg l) = Some l' \<Longrightarrow> ls_monitor l' = ls_monitor l"
  by (auto simp: reject_source_def Let_def bump_stats_def split: mav_msg.splits option.splits if_splits)

lemma reject_source_not_forwarded: "\<not> forwarded (fst (reject_source cfg d msg l))"
  by (auto simp: reject_source_def Let_def forwarded_def split: mav_msg.splits option.splits if_splits)

lemma record_msg_lock [simp]: "locked_source (record_msg cfg env msg m) = locked_source m"
  by (simp add: record_msg_def split: mav_msg.splits)

definition lock_inv :: "listener_cfg \<Rightarrow> listener \<Rightarrow> bool" where
  "lock_inv cfg l \<longleftrightarrow> (\<forall>src. locked_source (ls_monitor l) = Some src \<longrightarrow> admissible cfg src)"

text \<open>The effect of one input on the lock, and who may have sent what is forwarded.\<close>

definition lock_step :: "listener_cfg \<Rightarrow> rx_input \<Rightarrow> rx_output list \<Rightarrow> listener \<Rightarrow> listener option \<Rightarrow> bool" where
  "lock_step cfg i outs l st \<longleftrightarrow>
     (effective l outs st \<longrightarrow>
        (\<exists>d. i = Datagram d \<and> admissible cfg (dg_src d)
           \<and> (\<forall>l'. st = Some l' \<longrightarrow> locked_source (ls_monitor l') = Some (dg_src d))
           \<and> (locked_source (ls_monitor l) = None \<or> locked_source (ls_monitor l) = Some (dg_src d))))
     \<and> (\<forall>l' src. st = Some l' \<longrightarrow> locked_source (ls_monitor l) = Some src \<longrightarrow> locked_source (ls_monitor l') = Some src)
     \<and> (\<forall>l'. st = Some l' \<longrightarrow> lock_inv cfg l')"

lemma bump_stats_sel [simp]: "ls_monitor (bump_stats f l) = ls_monitor l" "ls_stats (bump_stats f l) = f (ls_stats l)"
  by (simp_all add: bump_stats_def)

lemma lock_step_quiet:
  "lock_inv cfg l \<Longrightarrow> lock_step cfg i [] l None"
  "lock_inv cfg l \<Longrightarrow> ls_monitor l' = ls_monitor l \<Longrightarrow> lock_step cfg i [] l (Some l')"
  by (auto simp: lock_step_def effective_def forwarded_def lock_inv_def)

lemma lock_step_bump: "lock_step cfg i outs (bump_stats f l) st \<longleftrightarrow> lock_step cfg i outs l st"
  by (simp add: lock_step_def effective_def cong: option.case_cong)

lemma accept_msg_lock:
  assumes "lock_inv cfg l"
    and ip: "case allowed_source_ip (lc_filter cfg) of None \<Rightarrow> True | Some ip \<Rightarrow> sa_ip (dg_src d) = ip"
  shows "lock_step cfg (Datagram d) (fst (accept_msg cfg d sysid msg l)) l (snd (accept_msg cfg d sysid msg l))"
proof (cases "case autopilot_sysid (lc_filter cfg) of None \<Rightarrow> False | Some want \<Rightarrow> sysid \<noteq> want")
  case True
  then show ?thesis
    using assms(1) by (simp add: accept_msg_def lock_step_quiet)
next
  case sys: False
  obtain ok m where ck: "check_or_lock_source (dg_src d) (expected_port_opt cfg) (ls_monitor l) = (ok, m)"
    by force
  show ?thesis
  proof (cases ok)
    case True
    have m: "locked_source m = Some (dg_src d)" "locked_source (ls_monitor l) = None \<or> locked_source (ls_monitor l) = Some (dg_src d)"
      using ck True by (auto simp: check_or_lock_source_def split: option.splits if_splits)
    have adm: "admissible cfg (dg_src d)"
      using ck True ip assms(1)
      by (auto simp: check_or_lock_source_def admissible_def lock_inv_def split: option.splits if_splits)
    show ?thesis
      using sys True m adm dispatch_msg_monitor [of "dg_env d" msg "l\<lparr>ls_monitor := record_msg cfg (dg_env d) msg m\<rparr>"]
      by (auto simp: accept_msg_def ck lock_step_def lock_inv_def)
  next
    case False
    have m: "m = ls_monitor l"
      using ck False by (auto simp: check_or_lock_source_def split: option.splits if_splits)
    have r: "accept_msg cfg d sysid msg l = reject_source cfg d msg l"
      using sys False m by (simp add: accept_msg_def ck)
    have mon: "\<forall>l'. snd (reject_source cfg d msg l) = Some l' \<longrightarrow> ls_monitor l' = ls_monitor l"
      using reject_source_monitor [of cfg d msg l] by blast
    then have "\<not> effective l (fst (reject_source cfg d msg l)) (snd (reject_source cfg d msg l))"
      using reject_source_not_forwarded [of cfg d msg l] by (auto simp: effective_def split: option.splits)
    with mon assms(1) show ?thesis
      unfolding r lock_step_def lock_inv_def by simp
  qed
qed

lemma listener_step_lock:
  assumes "lock_inv cfg l"
  shows "lock_step cfg i (fst (listener_step cfg i l)) l (snd (listener_step cfg i l))"
proof (cases i)
  case (RecvError e)
  then show ?thesis
    using assms by (simp add: listener_step_def lock_step_quiet)
next
  case (Datagram d)
  have b: "lock_inv cfg (bump_stats count_recv l)"
    using assms by (simp add: lock_inv_def)
  have acc: "lock_step cfg (Datagram d) (fst (accept_msg cfg d sysid msg (bump_stats count_recv l))) l
      (snd (accept_msg cfg d sysid msg (bump_stats count_recv l)))"
    if "case allowed_source_ip (lc_filter cfg) of None \<Rightarrow> True | Some ip \<Rightarrow> sa_ip (dg_src d) = ip" for sysid msg
    using accept_msg_lock [OF b that, of sysid msg] by (simp add: lock_step_bump)
  show ?thesis
    using acc assms by (auto simp: Datagram listener_step_def Let_def lock_step_quiet split: option.splits prod.splits)
qed

lemma listener_trace_source:
  assumes "lock_inv cfg l"
  shows "\<exists>src. (locked_source (ls_monitor l) = None \<or> locked_source (ls_monitor l) = Some src)
    \<and> (\<forall>(i, l, outs, st) \<in> set (trace_source (listener_step cfg) inputs (Some l)).
         effective l outs st \<longrightarrow> (\<exists>d. i = Datagram d \<and> dg_src d = src \<and> admissible cfg src))"
  using assms
proof (induction inputs arbitrary: l)
  case Nil
  then show ?case
    by (cases "locked_source (ls_monitor l)") auto
next
  case (Cons i inputs)
  note st = listener_step_lock [OF Cons.prems, of i, unfolded lock_step_def]
  show ?case
  proof (cases "snd (listener_step cfg i l)")
    case None
    with st show ?thesis
      by (cases "effective l (fst (listener_step cfg i l)) None"; cases "locked_source (ls_monitor l)") auto
  next
    case (Some l')
    with st have "lock_inv cfg l'" by simp
    from Cons.IH [OF this] obtain src where
      src: "locked_source (ls_monitor l') = None \<or> locked_source (ls_monitor l') = Some src"
        "\<forall>(i, l, outs, st) \<in> set (trace_source (listener_step cfg) inputs (Some l')).
           effective l outs st \<longrightarrow> (\<exists>d. i = Datagram d \<and> dg_src d = src \<and> admissible cfg src)"
      by blast
    have "locked_source (ls_monitor l) = None \<or> locked_source (ls_monitor l) = Some src"
      using st Some src(1) by (cases "locked_source (ls_monitor l)") auto
    moreover have "effective l (fst (listener_step cfg i l)) (snd (listener_step cfg i l)) \<longrightarrow> (\<exists>d. i = Datagram d \<and> dg_src d = src \<and> admissible cfg src)"
      using st Some src(1) by auto
    ultimately show ?thesis
      using src(2) Some by (intro exI [of _ src]) auto
  qed
qed

text \<open>
  C13. One peer per process: whatever datagrams arrive from whomever, everything the listener
  ever forwards (fixes, samples, other messages) and every change of the autopilot monitor
  (heartbeats, acknowledgements, parameter echoes) came from a single socket address, one
  that the IP filter and the bootstrap port check admit; and every forwarded fix and sample has
  passed its plausibility gate.
\<close>

theorem listener_single_source:
  "(\<exists>src. \<forall>(i, l, outs, st) \<in> set (trace_source (listener_step cfg) inputs (Some listener_start)).
      effective l outs st \<longrightarrow> (\<exists>d. i = Datagram d \<and> dg_src d = src \<and> admissible cfg src))
   \<and> (\<forall>x \<in> set (fst (run_source (listener_step cfg) inputs (Some listener_start))). rx_ok x)"
proof
  have "lock_inv cfg listener_start"
    by (simp add: lock_inv_def listener_start_def monitor_new_def)
  from listener_trace_source [OF this] show
    "\<exists>src. \<forall>(i, l, outs, st) \<in> set (trace_source (listener_step cfg) inputs (Some listener_start)).
      effective l outs st \<longrightarrow> (\<exists>d. i = Datagram d \<and> dg_src d = src \<and> admissible cfg src)"
    by blast
  show "\<forall>x \<in> set (fst (run_source (listener_step cfg) inputs (Some listener_start))). rx_ok x"
    using mav_rx.run_gate by blast
qed

definition demo_env :: rx_env where
  "demo_env = \<lparr>rx_warn_check = 1, rx_warn_set = 1, rx_record = 1, rx_stamp = 1, rx_arrival = 1,
     gps_rx_open = True, imu_rx_open = True\<rparr>"

definition demo_cfg :: listener_cfg where
  "demo_cfg = \<lparr>lc_filter = \<lparr>allowed_source_ip = None, autopilot_sysid = Some 1, allow_any_source_port = True\<rparr>,
     lc_remote = \<lparr>sa_ip = 9, sa_scope = 0, sa_port = 14550\<rparr>, lc_boot = 0, lc_parse = (\<lambda>v bs. Some (1, MsgOther))\<rparr>"

definition demo_datagram :: "nat \<Rightarrow> rx_input" where
  "demo_datagram ip = Datagram \<lparr>dg_src = \<lparr>sa_ip = ip, sa_scope = 0, sa_port = 14550\<rparr>,
     dg_bytes = replicate 8 0xFD, dg_env = demo_env\<rparr>"

lemma listener_single_source_witness:
  "(\<exists>src. \<forall>(i, l, outs, st) \<in> set (trace_source (listener_step demo_cfg) [demo_datagram 1, demo_datagram 2] (Some listener_start)).
      effective l outs st \<longrightarrow> (\<exists>d. i = Datagram d \<and> dg_src d = src \<and> admissible demo_cfg src))
   \<and> fst (run_source (listener_step demo_cfg) [demo_datagram 1, demo_datagram 2] (Some listener_start)) = [OutOther MsgOther]"
proof
  show "\<exists>src. \<forall>(i, l, outs, st) \<in> set (trace_source (listener_step demo_cfg) [demo_datagram 1, demo_datagram 2] (Some listener_start)).
      effective l outs st \<longrightarrow> (\<exists>d. i = Datagram d \<and> dg_src d = src \<and> admissible demo_cfg src)"
    using listener_single_source by blast
  show "fst (run_source (listener_step demo_cfg) [demo_datagram 1, demo_datagram 2] (Some listener_start)) = [OutOther MsgOther]"
    by (simp add: run_source_Some listener_step_def demo_datagram_def demo_cfg_def accept_msg_def bump_stats_def
        listener_start_def check_or_lock_source_def expected_port_opt_def monitor_new_def dispatch_msg_def
        record_msg_def gps_from_msg_def imu_from_msg_def reject_source_def Let_def)
qed

section \<open>Every datagram is accounted for\<close>

definition dropped_total :: "mav_stats \<Rightarrow> u64" where
  "dropped_total s = dropped_source_ip s + dropped_sysid s + dropped_nonfinite s + dropped_source_locked s + parse_errors s"

definition forwards :: "rx_output list \<Rightarrow> nat" where
  "forwards outs = length (filter (\<lambda>x. case x of DeafWarning _ \<Rightarrow> False | _ \<Rightarrow> True) outs)"

text \<open>What a received datagram adds to the counters, as long as the loop goes on.\<close>

definition accounted :: "mav_stats \<Rightarrow> rx_output list \<Rightarrow> listener option \<Rightarrow> bool" where
  "accounted s outs st \<longleftrightarrow>
     (\<forall>l'. st = Some l' \<longrightarrow>
        recv_total (ls_stats l') = recv_total s
        \<and> dropped_oversize (ls_stats l') = dropped_oversize s
        \<and> dropped_total (ls_stats l') + word_of_nat (forwards outs) = dropped_total s + 1)"

lemma dispatch_accounted: "accounted (ls_stats l) (fst (dispatch_msg env msg l)) (snd (dispatch_msg env msg l))"
  by (auto simp: accounted_def dispatch_msg_def Let_def case_prod_beta dropped_total_def forwards_def
      split: option.splits if_splits)

lemma reject_accounted: "accounted (ls_stats l) (fst (reject_source cfg d msg l)) (snd (reject_source cfg d msg l))"
  by (auto simp: accounted_def reject_source_def Let_def dropped_total_def forwards_def
      split: mav_msg.splits option.splits if_splits)

lemma accept_accounted: "accounted (ls_stats l) (fst (accept_msg cfg d sysid msg l)) (snd (accept_msg cfg d sysid msg l))"
  using reject_accounted [of "l\<lparr>ls_monitor := _\<rparr>" cfg d msg] dispatch_accounted [of "l\<lparr>ls_monitor := _\<rparr>" "dg_env d" msg]
  by (auto simp: accept_msg_def accounted_def dropped_total_def forwards_def split: option.splits prod.splits bool.splits)

definition is_datagram :: "rx_input \<Rightarrow> bool" where
  "is_datagram i \<longleftrightarrow> (case i of Datagram _ \<Rightarrow> True | RecvError _ \<Rightarrow> False)"

lemma accounted_quiet: "dropped_total (f s) = dropped_total s + 1 \<Longrightarrow> recv_total (f s) = recv_total s \<Longrightarrow>
    dropped_oversize (f s) = dropped_oversize s \<Longrightarrow> ls_stats l = s \<Longrightarrow> accounted s [] (Some (bump_stats f l))"
  by (simp add: accounted_def forwards_def)

lemma listener_step_accounted:
  assumes "snd (listener_step cfg i l) = Some l'"
  shows "recv_total (ls_stats l') = recv_total (ls_stats l) + (if is_datagram i then 1 else 0)
    \<and> dropped_oversize (ls_stats l') = dropped_oversize (ls_stats l)
    \<and> dropped_total (ls_stats l') + word_of_nat (forwards (fst (listener_step cfg i l)))
        = dropped_total (ls_stats l) + (if is_datagram i then 1 else 0)"
proof (cases i)
  case (RecvError e)
  with assms show ?thesis
    by (simp add: listener_step_def is_datagram_def forwards_def split: if_splits)
next
  case (Datagram d)
  have "accounted (count_recv (ls_stats l)) (fst (listener_step cfg i l)) (snd (listener_step cfg i l))"
    using accept_accounted [of "bump_stats count_recv l" cfg d]
    by (auto simp: Datagram listener_step_def Let_def dropped_total_def intro!: accounted_quiet split: option.splits prod.splits)
  with assms show ?thesis
    by (simp add: accounted_def Datagram is_datagram_def dropped_total_def)
qed

lemma listener_run_accounted:
  assumes "snd (run_source (listener_step cfg) inputs (Some l)) = Some l'"
  shows "recv_total (ls_stats l') = recv_total (ls_stats l) + word_of_nat (length (filter is_datagram inputs))
    \<and> dropped_oversize (ls_stats l') = dropped_oversize (ls_stats l)
    \<and> dropped_total (ls_stats l') + word_of_nat (forwards (fst (run_source (listener_step cfg) inputs (Some l))))
        = dropped_total (ls_stats l) + word_of_nat (length (filter is_datagram inputs))"
  using assms
proof (induction inputs arbitrary: l)
  case Nil
  then show ?case by (simp add: forwards_def)
next
  case (Cons i inputs)
  obtain l1 where l1: "snd (listener_step cfg i l) = Some l1"
    using Cons.prems by (cases "snd (listener_step cfg i l)") (simp_all add: run_source_Some)
  let ?o = "fst (listener_step cfg i l)" and ?r = "run_source (listener_step cfg) inputs (Some l1)"
  have r: "run_source (listener_step cfg) (i # inputs) (Some l) = (?o @ fst ?r, snd ?r)"
    by (simp add: run_source_Some l1)
  note st = listener_step_accounted [OF l1] and ih = Cons.IH [of l1]
  have "snd ?r = Some l'"
    using Cons.prems r by simp
  note ih = ih [OF this]
  have f: "word_of_nat (forwards (?o @ fst ?r)) = (word_of_nat (forwards ?o) + word_of_nat (forwards (fst ?r)) :: u64)"
    by (simp add: forwards_def)
  have "dropped_total (ls_stats l') + word_of_nat (forwards (?o @ fst ?r))
      = (dropped_total (ls_stats l') + word_of_nat (forwards (fst ?r))) + word_of_nat (forwards ?o)"
    by (simp only: f ac_simps)
  also have "\<dots> = (dropped_total (ls_stats l1) + word_of_nat (forwards ?o)) + word_of_nat (length (filter is_datagram inputs))"
    using ih by (simp add: ac_simps)
  also have "\<dots> = dropped_total (ls_stats l) + word_of_nat (length (filter is_datagram (i # inputs)))"
    using st by simp
  finally show ?case
    using st ih r by simp
qed

text \<open>
  Every datagram is accounted for exactly once: while the listener runs, the number of
  datagrams received is the sum of the drop counters and of what was forwarded (modulo two
  to the 64). The counter for over-size packets takes no part in it and stays zero.
\<close>

theorem datagrams_accounted:
  assumes "run_source (listener_step cfg) inputs (Some listener_start) = (outs, Some l)"
  shows "recv_total (ls_stats l) = word_of_nat (length (filter is_datagram inputs))
    \<and> recv_total (ls_stats l) = dropped_total (ls_stats l) + word_of_nat (forwards outs)
    \<and> dropped_oversize (ls_stats l) = 0"
  using listener_run_accounted [of cfg inputs listener_start l] assms
  by (simp add: listener_start_def mav_stats_default_def dropped_total_def)

lemma demo_run:
  "run_source (listener_step demo_cfg) [demo_datagram 1, demo_datagram 2] (Some listener_start) =
    ([OutOther MsgOther],
     Some (listener_start\<lparr>ls_monitor := monitor_new\<lparr>locked_source := Some \<lparr>sa_ip = 1, sa_scope = 0, sa_port = 14550\<rparr>\<rparr>,
       ls_stats := mav_stats_default\<lparr>recv_total := 2, dropped_source_locked := 1\<rparr>\<rparr>))"
  by (simp add: run_source_Some listener_step_def demo_datagram_def demo_cfg_def accept_msg_def bump_stats_def
        listener_start_def check_or_lock_source_def expected_port_opt_def monitor_new_def dispatch_msg_def mav_stats_default_def
        record_msg_def gps_from_msg_def imu_from_msg_def reject_source_def Let_def)

lemma datagrams_accounted_witness:
  "word_of_nat (length (filter is_datagram [demo_datagram 1, demo_datagram 2])) = (2 :: u64)
   \<and> (2 :: u64) = dropped_total (mav_stats_default\<lparr>recv_total := 2, dropped_source_locked := 1\<rparr>)
       + word_of_nat (forwards [OutOther MsgOther])"
  using datagrams_accounted [OF demo_run] by simp

section \<open>The watchdog\<close>

text \<open>The link events alternate, restored first; \<open>up\<close> is the state last announced.\<close>

fun alternating :: "bool \<Rightarrow> spoof_kind list \<Rightarrow> bool" where
  "alternating up [] = True"
| "alternating up (k # ks) =
     (if k = KLinkRestored then \<not> up \<and> alternating True ks
      else if k = KLinkDown then up \<and> alternating False ks
      else alternating up ks)"

definition wd_inv :: "watchdog \<Rightarrow> bool" where
  "wd_inv w \<longleftrightarrow> (last_state_up w \<longrightarrow> have_seen_heartbeat w)"

lemma watchdog_tick_spec:
  assumes "wd_inv w" and "watchdog_tick boot st k w = (es, w')"
  shows "wd_inv w'" and "alternating (last_state_up w') ks \<Longrightarrow> alternating (last_state_up w) (map fst es @ ks)"
    and "last_state_up w' \<longleftrightarrow> heartbeat_fresh (wd_fresh k) (wd_now k) boot st"
    and "have_seen_heartbeat w \<Longrightarrow> have_seen_heartbeat w'"
  using assms
  by (auto simp: watchdog_tick_def wd_inv_def emit_link_event_def emit_mode_change_event_def Let_def split: if_splits)

lemma watchdog_run_alternating:
  "wd_inv w \<Longrightarrow> alternating (last_state_up w) (map fst (fst (watchdog_run boot st ks w)))"
proof (induction ks arbitrary: w)
  case (Cons k ks)
  obtain es w' where t: "watchdog_tick boot st k w = (es, w')" by force
  show ?case
    using watchdog_tick_spec(1,2) [OF Cons.prems t] Cons.IH [of w'] by (simp add: t case_prod_beta)
qed simp

lemma watchdog_run_snoc:
  "watchdog_run boot st (ks @ [k]) w =
     (let (es, w') = watchdog_run boot st ks w; (es', w'') = watchdog_tick boot st k w' in (es @ es', w''))"
  by (induction ks arbitrary: w) (simp_all add: case_prod_beta Let_def)

lemma watchdog_run_inv: "wd_inv w \<Longrightarrow> wd_inv (snd (watchdog_run boot st ks w))"
proof (induction ks arbitrary: w)
  case (Cons k ks)
  obtain es w' where t: "watchdog_tick boot st k w = (es, w')" by force
  show ?case
    using watchdog_tick_spec(1) [OF Cons.prems t] Cons.IH [of w'] by (simp add: t case_prod_beta)
qed simp

definition announced_up :: "spoof_kind list \<Rightarrow> bool" where
  "announced_up ks = fold (\<lambda>k up. if k = KLinkRestored then True else if k = KLinkDown then False else up) ks False"

lemma watchdog_tick_announces:
  assumes "wd_inv w" and "watchdog_tick boot st k w = (es, w')" and "announced_up ks = last_state_up w"
  shows "announced_up (ks @ map fst es) = last_state_up w'"
  using assms
  by (auto simp: watchdog_tick_def wd_inv_def announced_up_def emit_link_event_def emit_mode_change_event_def Let_def split: if_splits)

lemma watchdog_run_announces:
  assumes "wd_inv w" and "announced_up ks = last_state_up w"
  shows "announced_up (ks @ map fst (fst (watchdog_run boot st ticks w))) = last_state_up (snd (watchdog_run boot st ticks w))"
  using assms
proof (induction ticks arbitrary: w ks)
  case (Cons k ticks)
  obtain es w' where t: "watchdog_tick boot st k w = (es, w')" by force
  show ?case
    using Cons.IH [OF watchdog_tick_spec(1) [OF Cons.prems(1) t] watchdog_tick_announces [OF Cons.prems(1) t Cons.prems(2)]]
    by (simp add: t case_prod_beta)
qed simp

text \<open>
  The watchdog tells the truth about the link: link events alternate, beginning with a
  restoration, and after every tick the state last announced is exactly whether the
  heartbeat was fresh at that tick (before any announcement, that it was not).
\<close>

theorem watchdog_announces_link:
  "alternating False (map fst (fst (watchdog_run boot st (ticks @ [k]) watchdog_start)))
   \<and> announced_up (map fst (fst (watchdog_run boot st (ticks @ [k]) watchdog_start)))
       = heartbeat_fresh (wd_fresh k) (wd_now k) boot st"
proof
  have i: "wd_inv watchdog_start"
    by (simp add: wd_inv_def watchdog_start_def)
  show "alternating False (map fst (fst (watchdog_run boot st (ticks @ [k]) watchdog_start)))"
    using watchdog_run_alternating [OF i] by (simp add: watchdog_start_def)
  let ?w = "snd (watchdog_run boot st ticks watchdog_start)"
  obtain es w' where t: "watchdog_tick boot st k ?w = (es, w')" by force
  have "announced_up (map fst (fst (watchdog_run boot st (ticks @ [k]) watchdog_start)))
      = last_state_up (snd (watchdog_run boot st (ticks @ [k]) watchdog_start))"
    using watchdog_run_announces [OF i, of "[]" boot st "ticks @ [k]"]
    by (simp add: announced_up_def watchdog_start_def)
  also have "\<dots> = last_state_up w'"
    by (simp add: watchdog_run_snoc t case_prod_beta Let_def)
  finally show "announced_up (map fst (fst (watchdog_run boot st (ticks @ [k]) watchdog_start)))
       = heartbeat_fresh (wd_fresh k) (wd_now k) boot st"
    using watchdog_tick_spec(3) [OF watchdog_run_inv [OF i] t] by simp
qed

section \<open>Converted values inside the physical range pass the gates\<close>

lemma ilog2_eq:
  assumes "pow2 e \<le> x" and "x < pow2 (e + 1)"
  shows "ilog2 x = e"
proof -
  have x: "0 < x" using assms(1) pow2_pos [of e] by linarith
  have "ilog2 x < e + 1"
  proof (rule ccontr)
    assume "\<not> ?thesis"
    then have "pow2 (e + 1) \<le> pow2 (ilog2 x)" by (intro pow2_mono) simp
    with ilog2_bounds(1) [OF x] assms(2) show False by linarith
  qed
  moreover have "e < ilog2 x + 1"
  proof (rule ccontr)
    assume "\<not> ?thesis"
    then have "pow2 (ilog2 x + 1) \<le> pow2 e" by (intro pow2_mono) simp
    with ilog2_bounds(2) [OF x] assms(1) show False by linarith
  qed
  ultimately show ?thesis by simp
qed

lemma lit_1e7: "fin_in 0 (1 / 10 ^ 7) (lit B64 (1 / 10 ^ 7))"
proof -
  have l: "ilog2 (1 / 10000000) = - 24"
    by (rule ilog2_eq) (simp_all add: pow2_def)
  have q: "qexp B64 (1 / 10 ^ 7) = - 76"
    by (simp add: qexp_def l B64_def)
  have "rnd B64 (1 / 10 ^ 7) = of_int (rne ((1 / 10 ^ 7) / pow2 (- 76))) * pow2 (- 76)"
    by (simp only: rnd_def q) simp
  also have "rne ((1 / 10 ^ 7) / pow2 (- 76)) = 7555786372591432"
  proof -
    have "\<lfloor>590295810358705651712 / 78125 :: rat\<rfloor> = 7555786372591432"
      by (rule floor_unique) simp_all
    then show ?thesis
      by (simp add: rne_def pow2_def)
  qed
  finally show ?thesis
    by (simp add: lit_def fround_def pow2_def B64_def fin_in_def)
qed


lemma fmul_in_sym:
  assumes F: "F = B64 \<or> F = B32" and x: "fin_in (- A) A x" and c: "fin_in 0 C c"
    and hi: "A * C \<le> of_int hi" "\<bar>hi\<bar> < 2 ^ 24"
  shows "fin_in (- of_int hi) (of_int hi) (fmul F x c)"
proof -
  have p: "1 \<le> prec F" using F by (auto simp: B64_def B32_def)
  obtain s where s: "fmul F x c = fround F s (fval x * fval c)"
    using fmul_finite [of x c F] x c by (auto simp: fin_in_def)
  have "\<bar>fval x\<bar> \<le> A" "0 \<le> fval c" "fval c \<le> C"
    using x c by (auto simp: fin_in_def)
  then have "\<bar>fval x * fval c\<bar> \<le> A * C"
    unfolding abs_mult by (intro mult_mono) auto
  then have b: "\<bar>fval x * fval c\<bar> \<le> of_int hi" using hi(1) by linarith
  show ?thesis
    unfolding s
  proof (rule fround_in [OF p])
    show "bound_ok F (- of_int hi)" using bound_ok_int [of F "- hi"] F hi(2) by simp
    show "bound_ok F (of_int hi)" using bound_ok_int [of F hi] F hi(2) by simp
  qed (use b in linarith)+
qed

lemma of_int_fl_exact:
  assumes F: "F = B64 \<or> F = B32" and n: "\<bar>n\<bar> < 2 ^ 24 \<or> F = B64 \<and> \<bar>n\<bar> < 2 ^ 53"
  shows "of_int_fl F n = FNum (of_int n)"
proof -
  have N: "\<bar>n\<bar> < 2 ^ prec F" and N53: "\<bar>n\<bar> < 2 ^ 53"
    using F n by (auto simp: B64_def B32_def)
  have "\<bar>of_int n :: rat\<bar> < of_int (2 ^ 53)"
    using N53 by (simp only: of_int_abs [symmetric] of_int_less_iff)
  also have "(of_int (2 ^ 53) :: rat) \<le> pow2 (emax F)"
    using F pow2_mono [of 53 "emax F"] by (auto simp: B64_def B32_def pow2_def)
  finally show ?thesis
    using N F by (auto simp: of_int_fl_def B64_def B32_def intro!: fround_exact representable_int)
qed

lemma of_int_fl_in:
  assumes "F = B64 \<or> F = B32" and "N < 2 ^ 24 \<or> F = B64 \<and> N < 2 ^ 53" and "\<bar>n\<bar> \<le> N"
  shows "fin_in (- of_int N) (of_int N) (of_int_fl F n)"
proof -
  have "of_int_fl F n = FNum (of_int n)"
    using assms by (intro of_int_fl_exact) auto
  moreover have "\<bar>of_int n :: rat\<bar> \<le> of_int N"
    using assms(3) by (simp only: of_int_abs [symmetric] of_int_le_iff)
  ultimately show ?thesis by (auto simp: abs_le_iff)
qed

lemma lit_in:
  assumes F: "F = B64 \<or> F = B32" and "0 \<le> q" "q \<le> of_int n / 2 ^ k" "\<bar>n\<bar> < 2 ^ 24" "k \<le> 100"
  shows "fin_in 0 (of_int n / 2 ^ k) (lit F q)"
  unfolding lit_def
  using bound_ok_int [OF F, of 0] bound_ok_dyadic [OF F assms(4,5)] F assms(2,3)
  by (intro fround_in) (auto simp: B64_def B32_def)

lemma lit_milli: "F = B64 \<or> F = B32 \<Longrightarrow> fin_in 0 (1049 / 2 ^ 20) (lit F (1 / 10 ^ 3))"
  using lit_in [of F "1 / 10 ^ 3" 1049 20] by simp

lemma lit_centi: "F = B64 \<or> F = B32 \<Longrightarrow> fin_in 0 (10486 / 2 ^ 20) (lit F (1 / 10 ^ 2))"
  using lit_in [of F "1 / 10 ^ 2" 10486 20] by simp

lemma G_MPS2_in: "fin_in 0 (10043 / 2 ^ 10) G_MPS2"
  unfolding G_MPS2_def using lit_in [of B32 "980665 / 100000" 10043 10] by simp

lemma axis_plausible_in: "fin_in (- b) b v \<Longrightarrow> b \<le> m \<Longrightarrow> axis_plausible m v"
  by (auto simp: axis_plausible_iff fin_in_def abs_le_iff)

lemma i16_range: "\<bar>sint (w :: u16)\<bar> \<le> 32768"
  using sint_range_size [of w] by (simp add: word_size abs_le_iff)

lemma mrad_plausible: "axis_plausible 35 (mrad_to_rps w)"
proof -
  have "fin_in (- of_int 33) (of_int 33) (mrad_to_rps w)"
    unfolding mrad_to_rps_def i16_f32_def
    by (rule fmul_in_sym [OF _ of_int_fl_in [where N = 32768] lit_milli]) (simp_all add: i16_range)
  then show ?thesis by (rule axis_plausible_in) simp
qed

lemma mg_plausible:
  assumes "\<bar>sint w\<bar> \<le> 16000"
  shows "axis_plausible 200 (mg_to_mps2 w)"
proof -
  have a: "fin_in (- of_int 17) (of_int 17) (fmul B32 (i16_f32 w) (lit B32 (1 / 10 ^ 3)))"
    unfolding i16_f32_def
    by (rule fmul_in_sym [OF _ of_int_fl_in [where N = 16000] lit_milli]) (simp_all add: assms)
  have "fin_in (- of_int 167) (of_int 167) (mg_to_mps2 w)"
    unfolding mg_to_mps2_def by (rule fmul_in_sym [OF _ a G_MPS2_in]) simp_all
  then show ?thesis by (rule axis_plausible_in) simp
qed

lemma u16_scaled: "fin_in (- of_int 656) (of_int 656) (fmul B64 (u16_f B64 w) (lit B64 (1 / 10 ^ 2)))"
proof -
  have "\<bar>int (unat w)\<bar> \<le> 65535"
    using unsigned_less [of w, where 'a = int] by simp
  then show ?thesis
    unfolding u16_f_def
    by (intro fmul_in_sym [OF _ of_int_fl_in [where N = 65535] lit_centi]) simp_all
qed

lemma gate_of_in:
  "fin_in (- b) b v \<Longrightarrow> b \<le> m \<Longrightarrow> is_finite v \<and> \<not> fgt (fabs v) (FNum m) \<and> fle (FNum (- m)) v \<and> fle v (FNum m)"
  by (cases v) (auto simp: fin_in_def flt_def fle_def)

text \<open>
  The gate rejects no real measurement of the link: a position message with coordinates
  on the globe and an altitude below 99.9 km always yields a plausible fix, whatever its other
  fields are; and the fields that say unknown (all bits set, or a course past 359.99 degrees)
  come out absent instead of as numbers.
\<close>

theorem gps_message_admitted:
  assumes "gps_from_msg t (MsgGpsRawInt g) = Some fx"
    and "\<bar>sint (gr_lat g)\<bar> \<le> 900000000" and "\<bar>sint (gr_lon g)\<bar> \<le> 1800000000"
    and "\<bar>sint (gr_alt g)\<bar> \<le> 99900000"
  shows "gps_fix_is_plausible fx
    \<and> (speed_mps fx = None \<longleftrightarrow> gr_vel g = 0xFFFF) \<and> (course_deg fx = None \<longleftrightarrow> gr_cog g > 35999)
    \<and> (hdop fx = None \<longleftrightarrow> gr_eph g = 0xFFFF) \<and> (sats fx = None \<longleftrightarrow> gr_sats g = 0xFF)"
proof -
  let ?lat = "fmul B64 (i32_f64 (gr_lat g)) (lit B64 (1 / 10 ^ 7))"
  let ?lon = "fmul B64 (i32_f64 (gr_lon g)) (lit B64 (1 / 10 ^ 7))"
  let ?alt = "fmul B64 (i32_f64 (gr_alt g)) (lit B64 (1 / 10 ^ 3))"
  have lat: "fin_in (- of_int 90) (of_int 90) ?lat"
    unfolding i32_f64_def using assms(2)
    by (intro fmul_in_sym [OF _ of_int_fl_in [where N = 900000000] lit_1e7]) simp_all
  have lon: "fin_in (- of_int 180) (of_int 180) ?lon"
    unfolding i32_f64_def using assms(3)
    by (intro fmul_in_sym [OF _ of_int_fl_in [where N = 1800000000] lit_1e7]) simp_all
  have alt: "fin_in (- of_int 100000) (of_int 100000) ?alt"
    unfolding i32_f64_def using assms(4)
    by (intro fmul_in_sym [OF _ of_int_fl_in [where N = 99900000] lit_milli]) simp_all
  note u16 = u16_scaled [of "gr_vel g"] u16_scaled [of "gr_cog g"]
  have fx: "fx = \<lparr>fix_t = at_mono t, lat_deg = ?lat, lon_deg = ?lon, alt_m = ?alt,
      speed_mps = speed_mps fx, course_deg = course_deg fx, hdop = hdop fx, sats = sats fx\<rparr>"
    "speed_mps fx = (if gr_vel g = GPS_U16_UNKNOWN then None else Some (fmul B64 (u16_f B64 (gr_vel g)) (lit B64 (1 / 10 ^ 2))))"
    "course_deg fx = (if gr_cog g = GPS_U16_UNKNOWN \<or> gr_cog g > 35999 then None else Some (fmul B64 (u16_f B64 (gr_cog g)) (lit B64 (1 / 10 ^ 2))))"
    "hdop fx = None \<longleftrightarrow> gr_eph g = GPS_U16_UNKNOWN" "sats fx = None \<longleftrightarrow> gr_sats g = GPS_U8_UNKNOWN"
    using assms(1) by (auto simp: gps_from_msg_def split: if_splits)
  have pos: "lat_deg fx = ?lat" "lon_deg fx = ?lon" "alt_m fx = ?alt"
    by (subst fx(1), simp)+
  have "gps_fix_is_plausible fx"
    unfolding gps_fix_is_plausible_def pos fx(2,3)
    using gate_of_in [OF lat, of 90] gate_of_in [OF lon, of 180] gate_of_in [OF alt, of 100000]
      gate_of_in [OF u16(1), of 1000] gate_of_in [OF u16(2), of 720]
    by auto
  with fx show ?thesis
    by (auto simp: GPS_U16_UNKNOWN_def GPS_U8_UNKNOWN_def)
qed

definition demo_gps :: gps_raw_int where
  "demo_gps = \<lparr>gr_time_usec = 1, gr_fix_type = 3, gr_lat = 900000000, gr_lon = 0, gr_alt = 545400,
     gr_eph = 0xFFFF, gr_vel = 0xFFFF, gr_cog = 36000, gr_sats = 8\<rparr>"

lemma gps_message_admitted_witness:
  "gps_fix_is_plausible (the (gps_from_msg 7 (MsgGpsRawInt demo_gps)))
   \<and> speed_mps (the (gps_from_msg 7 (MsgGpsRawInt demo_gps))) = None"
proof -
  have "gps_from_msg 7 (MsgGpsRawInt demo_gps) \<noteq> None"
    by (simp add: gps_from_msg_def demo_gps_def)
  then obtain fx where "gps_from_msg 7 (MsgGpsRawInt demo_gps) = Some fx" by blast
  with gps_message_admitted [OF this] show ?thesis
    by (simp add: demo_gps_def)
qed

lemma scaled_sample_admitted:
  assumes "\<bar>sint (si_xacc i)\<bar> \<le> 16000" "\<bar>sint (si_yacc i)\<bar> \<le> 16000" "\<bar>sint (si_zacc i)\<bar> \<le> 16000"
  shows "imu_sample_is_plausible (scaled_sample t i)"
  using assms by (simp add: imu_sample_is_plausible_def scaled_sample_def mg_plausible mrad_plausible)

section \<open>The listener behind its bounded channels\<close>

text \<open>
  The fixes and samples go into channels of capacity 64 and 256. \<open>send().await\<close> on a full
  channel suspends the listener, in the middle of its turn, until the receiver takes an item;
  while it is suspended no datagram is read. A receiver that stays alive but is never read
  never lets it go on.
\<close>

definition GPS_CHANNEL_CAP :: nat where "GPS_CHANNEL_CAP = 64"
definition IMU_CHANNEL_CAP :: nat where "IMU_CHANNEL_CAP = 256"

datatype wait = NotWaiting | WaitGps | WaitImu

record mav_task =
  mt_listener :: "listener option"
  gps_queue :: nat
  imu_queue :: nat
  mt_wait :: wait

definition mav_task_start :: mav_task where
  "mav_task_start = \<lparr>mt_listener = Some listener_start, gps_queue = 0, imu_queue = 0, mt_wait = NotWaiting\<rparr>"

datatype task_event = Received rx_input | GpsTaken | ImuTaken

definition enqueue :: "rx_output list \<Rightarrow> mav_task \<Rightarrow> mav_task" where
  "enqueue outs k =
     (if list_ex (\<lambda>x. case x of OutGps _ \<Rightarrow> True | _ \<Rightarrow> False) outs then
        (if gps_queue k < GPS_CHANNEL_CAP then k\<lparr>gps_queue := gps_queue k + 1\<rparr> else k\<lparr>mt_wait := WaitGps\<rparr>)
      else if list_ex (\<lambda>x. case x of OutImu _ \<Rightarrow> True | _ \<Rightarrow> False) outs then
        (if imu_queue k < IMU_CHANNEL_CAP then k\<lparr>imu_queue := imu_queue k + 1\<rparr> else k\<lparr>mt_wait := WaitImu\<rparr>)
      else k)"

definition mav_task_step :: "listener_cfg \<Rightarrow> task_event \<Rightarrow> mav_task \<Rightarrow> mav_task" where
  "mav_task_step cfg ev k =
     (case ev of
        Received i \<Rightarrow>
          (case mt_listener k of
             None \<Rightarrow> k
           | Some l \<Rightarrow>
               if mt_wait k \<noteq> NotWaiting then k
               else (case listener_step cfg i l of (outs, st) \<Rightarrow> enqueue outs (k\<lparr>mt_listener := st\<rparr>)))
      | GpsTaken \<Rightarrow>
          if mt_wait k = WaitGps then k\<lparr>mt_wait := NotWaiting\<rparr> else k\<lparr>gps_queue := gps_queue k - 1\<rparr>
      | ImuTaken \<Rightarrow>
          if mt_wait k = WaitImu then k\<lparr>mt_wait := NotWaiting\<rparr> else k\<lparr>imu_queue := imu_queue k - 1\<rparr>)"

definition mav_task_run :: "listener_cfg \<Rightarrow> task_event list \<Rightarrow> mav_task \<Rightarrow> mav_task" where
  "mav_task_run cfg evs k = fold (mav_task_step cfg) evs k"

lemma waiting_for_imu_frozen:
  assumes "mt_wait k = WaitImu" and "ImuTaken \<notin> set evs"
  shows "mt_listener (mav_task_run cfg evs k) = mt_listener k \<and> mt_wait (mav_task_run cfg evs k) = WaitImu"
  using assms
proof (induction evs arbitrary: k)
  case (Cons ev evs)
  have "mt_wait (mav_task_step cfg ev k) = WaitImu \<and> mt_listener (mav_task_step cfg ev k) = mt_listener k"
    using Cons.prems by (cases ev) (auto simp: mav_task_step_def split: option.splits)
  with Cons show ?case
    by (simp add: mav_task_run_def)
qed (simp add: mav_task_run_def)

text \<open>A datagram that carries a plausible IMU sample and passes the filters.\<close>

definition streams_imu :: "listener_cfg \<Rightarrow> datagram \<Rightarrow> bool" where
  "streams_imu cfg d \<longleftrightarrow>
     8 \<le> length (dg_bytes d) \<and> admissible cfg (dg_src d) \<and> imu_rx_open (dg_env d)
     \<and> (case lc_parse cfg (mavlink_version_of (dg_bytes d ! 0)) (dg_bytes d) of
          None \<Rightarrow> False
        | Some (sysid, msg) \<Rightarrow>
            (case autopilot_sysid (lc_filter cfg) of None \<Rightarrow> True | Some want \<Rightarrow> sysid = want)
            \<and> (case imu_from_msg (rx_stamp (dg_env d)) msg of None \<Rightarrow> False | Some s \<Rightarrow> imu_sample_is_plausible s))"

definition lockable :: "socket_addr \<Rightarrow> listener \<Rightarrow> bool" where
  "lockable src l \<longleftrightarrow> locked_source (ls_monitor l) = None \<or> locked_source (ls_monitor l) = Some src"

lemma imu_msg_no_gps: "imu_from_msg t msg = Some s \<Longrightarrow> gps_from_msg t' msg = None"
  by (auto simp: imu_from_msg_def gps_from_msg_def split: mav_msg.splits)

lemma streams_imu_step:
  assumes d: "streams_imu cfg d" and l: "lockable (dg_src d) l"
  shows "\<exists>s l'. listener_step cfg (Datagram d) l = ([OutImu s], Some l') \<and> lockable (dg_src d) l'"
proof -
  obtain sysid msg s where m: "lc_parse cfg (mavlink_version_of (dg_bytes d ! 0)) (dg_bytes d) = Some (sysid, msg)"
      "case autopilot_sysid (lc_filter cfg) of None \<Rightarrow> True | Some want \<Rightarrow> sysid = want"
      "imu_from_msg (rx_stamp (dg_env d)) msg = Some s" "imu_sample_is_plausible s"
    using d by (auto simp: streams_imu_def split: option.splits)
  have adm: "8 \<le> length (dg_bytes d)" "admissible cfg (dg_src d)" "imu_rx_open (dg_env d)"
    using d by (simp_all add: streams_imu_def)
  let ?l = "bump_stats count_recv l"
  obtain m' where ck: "check_or_lock_source (dg_src d) (expected_port_opt cfg) (ls_monitor l) = (True, m')"
      "locked_source m' = Some (dg_src d)"
    using l adm(2) by (auto simp: lockable_def check_or_lock_source_def admissible_def split: option.splits)
  have "listener_step cfg (Datagram d) l = accept_msg cfg d sysid msg ?l"
    using adm m(1) by (auto simp: listener_step_def admissible_def Let_def split: option.splits)
  also have "\<dots> = dispatch_msg (dg_env d) msg (?l\<lparr>ls_monitor := record_msg cfg (dg_env d) msg m'\<rparr>)"
    using m(2) ck by (auto simp: accept_msg_def split: option.splits)
  finally show ?thesis
    using m(3,4) adm(3) ck(2) imu_msg_no_gps [OF m(3)]
    by (auto simp: dispatch_msg_def Let_def lockable_def case_prod_beta)
qed

lemma undrained_samples:
  assumes "lockable src l" and "mt_listener k = Some l" and "mt_wait k = NotWaiting"
    and "imu_queue k + length ds = IMU_CHANNEL_CAP" and "\<forall>d \<in> set ds. streams_imu cfg d \<and> dg_src d = src"
  shows "\<exists>l'. lockable src l' \<and> mt_listener (mav_task_run cfg (map (Received \<circ> Datagram) ds) k) = Some l'
    \<and> mt_wait (mav_task_run cfg (map (Received \<circ> Datagram) ds) k) = NotWaiting
    \<and> imu_queue (mav_task_run cfg (map (Received \<circ> Datagram) ds) k) = IMU_CHANNEL_CAP"
  using assms
proof (induction ds arbitrary: k l)
  case (Cons d ds)
  obtain s l' where st: "listener_step cfg (Datagram d) l = ([OutImu s], Some l')" "lockable src l'"
    using streams_imu_step [of cfg d l] Cons.prems by auto
  let ?k = "k\<lparr>mt_listener := Some l', imu_queue := imu_queue k + 1\<rparr>"
  have "mav_task_step cfg (Received (Datagram d)) k = ?k"
    using Cons.prems st by (simp add: mav_task_step_def enqueue_def)
  moreover have "\<exists>l'. lockable src l' \<and> mt_listener (mav_task_run cfg (map (Received \<circ> Datagram) ds) ?k) = Some l'
    \<and> mt_wait (mav_task_run cfg (map (Received \<circ> Datagram) ds) ?k) = NotWaiting
    \<and> imu_queue (mav_task_run cfg (map (Received \<circ> Datagram) ds) ?k) = IMU_CHANNEL_CAP"
    using Cons.prems st by (intro Cons.IH [of l']) simp_all
  ultimately show ?case
    by (simp add: mav_task_run_def comp_def)
qed (simp add: mav_task_run_def)

lemma mav_task_run_append: "mav_task_run cfg (xs @ ys) k = mav_task_run cfg ys (mav_task_run cfg xs k)"
  by (simp add: mav_task_run_def)

lemma undrained_channel_fills:
  assumes "length ds = Suc IMU_CHANNEL_CAP" and "\<forall>d \<in> set ds. streams_imu cfg d \<and> dg_src d = src"
  shows "mt_wait (mav_task_run cfg (map (Received \<circ> Datagram) ds) mav_task_start) = WaitImu"
proof -
  obtain es e where ds: "ds = es @ [e]"
    using assms(1) by (cases ds rule: rev_cases) auto
  let ?k = "mav_task_run cfg (map (Received \<circ> Datagram) es) mav_task_start"
  have "lockable src listener_start"
    by (simp add: lockable_def listener_start_def monitor_new_def)
  then obtain l where l: "lockable src l" "mt_listener ?k = Some l" "mt_wait ?k = NotWaiting" "imu_queue ?k = IMU_CHANNEL_CAP"
    using undrained_samples [of src listener_start mav_task_start es cfg] assms by (auto simp: ds mav_task_start_def)
  obtain s l' where st: "listener_step cfg (Datagram e) l = ([OutImu s], Some l')"
    using streams_imu_step [of cfg e l] assms(2) l(1) by (auto simp: ds)
  have "mav_task_run cfg (map (Received \<circ> Datagram) ds) mav_task_start = mav_task_step cfg (Received (Datagram e)) ?k"
    by (simp add: ds mav_task_run_def)
  then show ?thesis
    using l st by (simp add: mav_task_step_def enqueue_def)
qed

text \<open>
  C38. An IMU channel that nobody reads deafens the link: once the peer has sent 257 plausible
  samples, no datagram that arrives later, heartbeats, acknowledgements and parameter echoes
  included, changes the monitor or the listener again, as long as no sample is taken. (With
  an IMU of its own and the MAVLink controller, the program keeps the receiver alive and
  never reads it.)
\<close>

theorem unread_channel_deafens_listener:
  assumes "length ds = 257" and "\<forall>d \<in> set ds. streams_imu cfg d \<and> dg_src d = src" and "ImuTaken \<notin> set evs"
  shows "mt_listener (mav_task_run cfg (map (Received \<circ> Datagram) ds @ evs) mav_task_start)
    = mt_listener (mav_task_run cfg (map (Received \<circ> Datagram) ds) mav_task_start)"
proof -
  have "length ds = Suc IMU_CHANNEL_CAP"
    using assms(1) by (simp add: IMU_CHANNEL_CAP_def)
  from waiting_for_imu_frozen [OF undrained_channel_fills [OF this assms(2)] assms(3)] show ?thesis
    by (simp add: mav_task_run_append)
qed

text \<open>A peer whose accelerometer shows gravity and nothing else.\<close>

definition still_imu :: scaled_imu where
  "still_imu = \<lparr>si_time_boot_ms = 0, si_xacc = 0, si_yacc = 0, si_zacc = 64536, si_xgyro = 0, si_ygyro = 0, si_zgyro = 0\<rparr>"

definition still_cfg :: listener_cfg where
  "still_cfg = demo_cfg\<lparr>lc_parse := (\<lambda>v bs. Some (1, MsgScaledImu still_imu))\<rparr>"

lemma still_plausible: "imu_sample_is_plausible (scaled_sample t still_imu)"
  by (rule scaled_sample_admitted) (simp_all add: still_imu_def)

definition still_datagram :: datagram where
  "still_datagram = \<lparr>dg_src = \<lparr>sa_ip = 1, sa_scope = 0, sa_port = 14550\<rparr>, dg_bytes = replicate 8 0xFD, dg_env = demo_env\<rparr>"

lemma still_streams: "streams_imu still_cfg still_datagram"
  using still_plausible [of 1]
  by (simp add: streams_imu_def still_cfg_def demo_cfg_def still_datagram_def admissible_def expected_port_opt_def
      demo_env_def imu_from_msg_def)

lemma unread_channel_deafens_listener_witness:
  "mt_listener (mav_task_run still_cfg (map (Received \<circ> Datagram) (replicate 257 still_datagram) @ [GpsTaken, Received (demo_datagram 1)]) mav_task_start)
    = mt_listener (mav_task_run still_cfg (map (Received \<circ> Datagram) (replicate 257 still_datagram)) mav_task_start)"
proof (rule unread_channel_deafens_listener [of _ _ "dg_src still_datagram"])
  show "\<forall>d \<in> set (replicate 257 still_datagram). streams_imu still_cfg d \<and> dg_src d = dg_src still_datagram"
    using still_streams by (simp add: set_replicate_conv_if del: replicate.simps)
qed (simp_all add: length_replicate del: replicate.simps)

end
