(* ===== verification/Axis_Map.thy ===== *)
theory Axis_Map
  imports Types
begin

text \<open>
  The mounting of the IMU, \<open>src/src/hw/axis_map.rs\<close>: a signed permutation of the chip
  axes, parsed from a short text and accepted only when it is a proper rotation. A string is
  a list of characters below U+0100; the message of an error is implied by its constructor
  and what it names.
\<close>

text \<open>\<open>map[i] = (source axis, sign)\<close>.\<close>

type_synonym axis_entry = "nat \<times> f32"

record axis_map =
  am0 :: axis_entry
  am1 :: axis_entry
  am2 :: axis_entry

definition axis_identity :: axis_map where
  "axis_identity = \<lparr>am0 = (0, FNum 1), am1 = (1, FNum 1), am2 = (2, FNum 1)\<rparr>"

text \<open>Indexing an array of three; the code only indexes below three.\<close>

definition vec3_get :: "vec3 \<Rightarrow> nat \<Rightarrow> fl" where
  "vec3_get v i = (if i = 0 then v0 v else if i = 1 then v1 v else v2 v)"

definition axis_apply :: "axis_map \<Rightarrow> vec3 \<Rightarrow> vec3" where
  "axis_apply m v =
     \<lparr>v0 = fmul B32 (snd (am0 m)) (vec3_get v (fst (am0 m))),
      v1 = fmul B32 (snd (am1 m)) (vec3_get v (fst (am1 m))),
      v2 = fmul B32 (snd (am2 m)) (vec3_get v (fst (am2 m)))\<rparr>"

definition entry_eq :: "axis_entry \<Rightarrow> axis_entry \<Rightarrow> bool" where
  "entry_eq a b \<longleftrightarrow> fst a = fst b \<and> feq (snd a) (snd b)"

definition is_identity :: "axis_map \<Rightarrow> bool" where
  "is_identity m \<longleftrightarrow> entry_eq (am0 m) (am0 axis_identity) \<and> entry_eq (am1 m) (am1 axis_identity)
     \<and> entry_eq (am2 m) (am2 axis_identity)"

datatype axis_error =
    BadCount string | BadToken string | SourceOutOfRange nat | AxisReused nat | NotRotation f32

section \<open>Validation\<close>

text \<open>The entry of row \<open>e\<close> in column \<open>j\<close>: the sign at the source axis, zero elsewhere.\<close>

definition matrix_entry :: "axis_entry \<Rightarrow> nat \<Rightarrow> f32" where
  "matrix_entry e j = (if fst e = j then snd e else FNum 0)"

definition axis_determinant :: "axis_map \<Rightarrow> f32" where
  "axis_determinant m =
     (let e = matrix_entry; mul = fmul B32; sub = fsub B32; a = am0 m; b = am1 m; c = am2 m
      in fadd B32
           (sub (mul (e a 0) (sub (mul (e b 1) (e c 2)) (mul (e b 2) (e c 1))))
                (mul (e a 1) (sub (mul (e b 0) (e c 2)) (mul (e b 2) (e c 0)))))
           (mul (e a 2) (sub (mul (e b 0) (e c 1)) (mul (e b 1) (e c 0)))))"

text \<open>The loop over the entries; \<open>seen\<close> is the set of axes used so far.\<close>

fun check_sources :: "nat list \<Rightarrow> axis_entry list \<Rightarrow> axis_error option" where
  "check_sources seen [] = None"
| "check_sources seen ((src, sign) # es) =
     (if src > 2 then Some (SourceOutOfRange src)
      else if src \<in> set seen then Some (AxisReused src)
      else check_sources (src # seen) es)"

definition axis_validate :: "axis_map \<Rightarrow> axis_error + unit" where
  "axis_validate m =
     (case check_sources [] [am0 m, am1 m, am2 m] of
        Some e \<Rightarrow> Inl e
      | None \<Rightarrow>
          (let det = axis_determinant m
           in if fgt (fabs (fsub B32 det (FNum 1))) (lit B32 (1 / 10 ^ 6)) then Inl (NotRotation det) else Inr ()))"

section \<open>Parsing\<close>

text \<open>The strings are compared by character code; 44 is the comma, 45 and 43 the signs.\<close>

definition char_code :: "char \<Rightarrow> nat" where
  "char_code c = of_char c"

definition is_whitespace :: "char \<Rightarrow> bool" where
  "is_whitespace c \<longleftrightarrow> char_code c \<in> {9, 10, 11, 12, 13, 32, 0x85, 0xA0}"

definition trim :: "string \<Rightarrow> string" where
  "trim s = rev (dropWhile is_whitespace (rev (dropWhile is_whitespace s)))"

fun split_on :: "char \<Rightarrow> string \<Rightarrow> string list" where
  "split_on c [] = [[]]"
| "split_on c (x # xs) =
     (if x = c then [] # split_on c xs
      else (case split_on c xs of [] \<Rightarrow> [[x]] | t # ts \<Rightarrow> (x # t) # ts))"

definition to_ascii_uppercase :: "string \<Rightarrow> string" where
  "to_ascii_uppercase s =
     map (\<lambda>c. if 97 \<le> char_code c \<and> char_code c \<le> 122 then char_of (char_code c - 32) else c) s"

definition strip_prefix :: "char \<Rightarrow> string \<Rightarrow> string option" where
  "strip_prefix c s = (case s of [] \<Rightarrow> None | x # xs \<Rightarrow> if x = c then Some xs else None)"

definition parse_token :: "string \<Rightarrow> axis_error + axis_entry" where
  "parse_token tok =
     (let (sign, letter) =
            (case strip_prefix (CHR ''-'') tok of
               Some rest \<Rightarrow> (FNum (- 1), rest)
             | None \<Rightarrow> (FNum 1, (case strip_prefix (CHR ''+'') tok of Some rest \<Rightarrow> rest | None \<Rightarrow> tok)));
          u = to_ascii_uppercase letter
      in if u = ''X'' then Inr (0, sign)
         else if u = ''Y'' then Inr (1, sign)
         else if u = ''Z'' then Inr (2, sign)
         else Inl (BadToken u))"

definition axis_tokens :: "string \<Rightarrow> string list" where
  "axis_tokens s = filter (\<lambda>t. t \<noteq> []) (map trim (split_on (CHR '','') s))"

definition axis_parse :: "string \<Rightarrow> axis_error + axis_map" where
  "axis_parse s =
     (case axis_tokens s of
        [t0, t1, t2] \<Rightarrow>
          (case parse_token t0 of
             Inl e \<Rightarrow> Inl e
           | Inr e0 \<Rightarrow>
               (case parse_token t1 of
                  Inl e \<Rightarrow> Inl e
                | Inr e1 \<Rightarrow>
                    (case parse_token t2 of
                       Inl e \<Rightarrow> Inl e
                     | Inr e2 \<Rightarrow>
                         (let m = \<lparr>am0 = e0, am1 = e1, am2 = e2\<rparr>
                          in case axis_validate m of Inl e \<Rightarrow> Inl e | Inr _ \<Rightarrow> Inr m))))
      | _ \<Rightarrow> Inl (BadCount s))"

section \<open>Validation accepts exactly the rotations\<close>

lemma fround_zero_neg: "fround F s 0 = (if s then FNegZero else FNum 0)"
  using pow2_pos [of "emax F"] by (auto simp: fround_def rnd_def Let_def not_le [symmetric])

lemma fround_minus_one: "fround B32 s (- 1) = FNum (- 1)"
  using bound_ok_int [of B32 "- 1"] by (intro fround_exact) (simp_all add: bound_ok_def)

lemma unit_mul:
  "fmul B32 (FNum 1) (FNum 1) = FNum 1" "fmul B32 (FNum 1) (FNum (- 1)) = FNum (- 1)"
  "fmul B32 (FNum (- 1)) (FNum 1) = FNum (- 1)" "fmul B32 (FNum (- 1)) (FNum (- 1)) = FNum 1"
  by (simp_all add: fmul_FNum fround_minus_one)

lemma zero_mul:
  "fmul B32 (FNum 0) (FNum b) = (if b < 0 then FNegZero else FNum 0)"
  "fmul B32 (FNum a) (FNum 0) = (if a < 0 then FNegZero else FNum 0)"
  "fmul B32 (FNum a) FNegZero = (if a < 0 then FNum 0 else FNegZero)"
  "fmul B32 FNegZero (FNum a) = (if a < 0 then FNum 0 else FNegZero)"
  by (simp_all add: fmul_def fround_zero_neg Let_def)

lemma unit_add:
  "fadd B32 (FNum 0) (FNum 1) = FNum 1" "fadd B32 (FNum 0) (FNum (- 1)) = FNum (- 1)"
  "fadd B32 (FNum 1) (FNum 0) = FNum 1" "fadd B32 (FNum (- 1)) (FNum 0) = FNum (- 1)"
  "fadd B32 FNegZero (FNum 1) = FNum 1" "fadd B32 FNegZero (FNum (- 1)) = FNum (- 1)"
  "fadd B32 (FNum 1) FNegZero = FNum 1" "fadd B32 (FNum (- 1)) FNegZero = FNum (- 1)"
  "fadd B32 (FNum 0) (FNum 0) = FNum 0" "fadd B32 (FNum 0) FNegZero = FNum 0"
  "fadd B32 FNegZero (FNum 0) = FNum 0" "fadd B32 FNegZero FNegZero = FNegZero"
  by (simp_all add: fadd_def fround_zero_neg fround_minus_one Let_def)

lemmas unit_arith = unit_mul zero_mul unit_add fsub_def

text \<open>What a parsed entry looks like, and its sign as an integer.\<close>

definition axis_entry_ok :: "axis_entry \<Rightarrow> bool" where
  "axis_entry_ok e \<longleftrightarrow> fst e \<le> 2 \<and> (snd e = FNum 1 \<or> snd e = FNum (- 1))"

definition entry_sign :: "axis_entry \<Rightarrow> rat" where
  "entry_sign e = fval (snd e)"

definition map_ok :: "axis_map \<Rightarrow> bool" where
  "map_ok m \<longleftrightarrow> axis_entry_ok (am0 m) \<and> axis_entry_ok (am1 m) \<and> axis_entry_ok (am2 m)"

text \<open>The reference: the matrix over the rationals, and its determinant.\<close>

definition row_entry :: "axis_entry \<Rightarrow> nat \<Rightarrow> rat" where
  "row_entry e j = (if fst e = j then entry_sign e else 0)"

definition exact_det :: "axis_map \<Rightarrow> rat" where
  "exact_det m =
     (let a = row_entry (am0 m); b = row_entry (am1 m); c = row_entry (am2 m)
      in a 0 * (b 1 * c 2 - b 2 * c 1) - a 1 * (b 0 * c 2 - b 2 * c 0) + a 2 * (b 0 * c 1 - b 1 * c 0))"

definition proper_rotation :: "axis_map \<Rightarrow> bool" where
  "proper_rotation m \<longleftrightarrow> distinct [fst (am0 m), fst (am1 m), fst (am2 m)] \<and> exact_det m = 1"

lemma le2_cases: "(n :: nat) \<le> 2 \<Longrightarrow> n = 0 \<or> n = 1 \<or> n = 2"
  by auto

lemma check_sources_ok:
  "map_ok m \<Longrightarrow> check_sources [] [am0 m, am1 m, am2 m] = None \<longleftrightarrow> distinct [fst (am0 m), fst (am1 m), fst (am2 m)]"
  by (cases "am0 m"; cases "am1 m"; cases "am2 m") (auto simp: map_ok_def axis_entry_ok_def)

text \<open>For a permutation, the determinant computed in single precision is exact.\<close>

lemma determinant_exact:
  assumes "map_ok m" and "distinct [fst (am0 m), fst (am1 m), fst (am2 m)]"
  shows "axis_determinant m = FNum (exact_det m) \<and> (exact_det m = 1 \<or> exact_det m = - 1)"
proof -
  obtain i a j b k c where m: "am0 m = (i, a)" "am1 m = (j, b)" "am2 m = (k, c)"
    by (metis surj_pair)
  have "(i, j, k) \<in> {(0, 1, 2), (0, 2, 1), (1, 0, 2), (1, 2, 0), (2, 0, 1), (2, 1, 0)}"
  proof -
    have "i = 0 \<or> i = 1 \<or> i = 2" "j = 0 \<or> j = 1 \<or> j = 2" "k = 0 \<or> k = 1 \<or> k = 2"
      using assms(1) m by (auto intro!: le2_cases simp: map_ok_def axis_entry_ok_def)
    moreover have "i \<noteq> j" "i \<noteq> k" "j \<noteq> k"
      using assms(2) m by simp_all
    ultimately show ?thesis by (elim disjE) simp_all
  qed
  moreover have "a = FNum 1 \<or> a = FNum (- 1)" "b = FNum 1 \<or> b = FNum (- 1)" "c = FNum 1 \<or> c = FNum (- 1)"
    using assms(1) m by (auto simp: map_ok_def axis_entry_ok_def)
  ultimately show ?thesis
    by (elim insertE emptyE Pair_inject disjE; hypsubst)
      (simp_all add: axis_determinant_def exact_det_def m matrix_entry_def row_entry_def entry_sign_def unit_arith Let_def)
qed

lemma tiny_pos: "fle (FNum 0) (lit B32 (1 / 10 ^ 6))" "fle (lit B32 (1 / 10 ^ 6)) (FNum 1)"
proof -
  have "fin_in 0 1 (lit B32 (1 / 10 ^ 6))"
    unfolding lit_def using bound_ok_int [of B32 0] bound_ok_int [of B32 1] by (intro fround_in) (simp_all add: B32_def)
  then show "fle (FNum 0) (lit B32 (1 / 10 ^ 6))" "fle (lit B32 (1 / 10 ^ 6)) (FNum 1)"
    by (cases "lit B32 (1 / 10 ^ 6)"; auto simp: fin_in_def)+
qed

lemma validate_iff:
  assumes "map_ok m"
  shows "axis_validate m = Inr () \<longleftrightarrow> proper_rotation m"
proof (cases "distinct [fst (am0 m), fst (am1 m), fst (am2 m)]")
  case True
  have one: "fsub B32 (FNum 1) (FNum 1) = FNum 0" "fsub B32 (FNum (- 1)) (FNum 1) = FNum (- 2)"
    using bound_ok_int [of B32 "- 2"] fround_exact [of B32 "- 2" True]
    by (simp_all add: fsub_FNum bound_ok_def)
  have "\<not> fgt (FNum 0) (lit B32 (1 / 10 ^ 6))" "fgt (FNum 2) (lit B32 (1 / 10 ^ 6))"
    using tiny_pos by (cases "lit B32 (1 / 10 ^ 6)"; simp)+
  with determinant_exact [OF assms True] check_sources_ok [OF assms] True show ?thesis
    by (auto simp: axis_validate_def proper_rotation_def Let_def one)
next
  case False
  with check_sources_ok [OF assms] show ?thesis
    by (auto simp: axis_validate_def proper_rotation_def split: option.splits)
qed

lemma parse_token_ok: "parse_token t = Inr e \<Longrightarrow> axis_entry_ok e"
  by (auto simp: parse_token_def axis_entry_ok_def Let_def split: option.splits if_splits)

lemma axis_parse_proper:
  assumes "axis_parse s = Inr m"
  shows "map_ok m \<and> proper_rotation m"
proof -
  have "map_ok m \<and> axis_validate m = Inr ()"
    using assms parse_token_ok
    by (auto simp: axis_parse_def map_ok_def Let_def split: list.splits sum.splits)
  with validate_iff show ?thesis by blast
qed

section \<open>What an accepted map does to a vector\<close>

text \<open>Exact vectors: the rational values of three finite floats.\<close>

type_synonym rvec = "rat \<times> rat \<times> rat"

definition exact :: "vec3 \<Rightarrow> rvec" where
  "exact v = (fval (v0 v), fval (v1 v), fval (v2 v))"

fun dot :: "rvec \<Rightarrow> rvec \<Rightarrow> rat" where
  "dot (a, b, c) (d, e, f) = a * d + b * e + c * f"

fun cross :: "rvec \<Rightarrow> rvec \<Rightarrow> rvec" where
  "cross (a, b, c) (d, e, f) = (b * f - c * e, c * d - a * f, a * e - b * d)"

fun rget :: "rvec \<Rightarrow> nat \<Rightarrow> rat" where
  "rget (a, b, c) i = (if i = 0 then a else if i = 1 then b else c)"

definition rotate_vec :: "axis_map \<Rightarrow> rvec \<Rightarrow> rvec" where
  "rotate_vec m v =
     (entry_sign (am0 m) * rget v (fst (am0 m)), entry_sign (am1 m) * rget v (fst (am1 m)),
      entry_sign (am2 m) * rget v (fst (am2 m)))"

definition single_vec :: "vec3 \<Rightarrow> bool" where
  "single_vec v \<longleftrightarrow> vec3_finite v \<and> in_format B32 (v0 v) \<and> in_format B32 (v1 v) \<and> in_format B32 (v2 v)"

lemma fmul_unit_exact:
  assumes "s = FNum 1 \<or> s = FNum (- 1)" and "is_finite x" and "in_format B32 x"
  shows "is_finite (fmul B32 s x) \<and> fval (fmul B32 s x) = fval s * fval x"
proof -
  have b: "bound_ok B32 (fval s * fval x)"
    using assms representable_minus [of B32 "fval x"] by (auto simp: in_format_def bound_ok_def)
  obtain z where z: "fmul B32 s x = fround B32 z (fval s * fval x)"
    using fmul_finite [of s x B32] assms by auto
  show ?thesis
  proof (cases "fval s * fval x = 0")
    case True
    then show ?thesis by (auto simp: z fround_zero_neg)
  next
    case False
    then have "fround B32 z (fval s * fval x) = FNum (fval s * fval x)"
      using b by (intro fround_exact) (simp_all add: bound_ok_def)
    then show ?thesis by (simp add: z)
  qed
qed

lemma vec3_get_exact: "fval (vec3_get v i) = rget (exact v) i"
  by (simp add: vec3_get_def exact_def)

lemma vec3_get_single: "single_vec v \<Longrightarrow> is_finite (vec3_get v i) \<and> in_format B32 (vec3_get v i)"
  by (simp add: single_vec_def vec3_get_def vec3_finite_def)

lemma axis_apply_exact:
  assumes "map_ok m" and "single_vec v"
  shows "vec3_finite (axis_apply m v) \<and> exact (axis_apply m v) = rotate_vec m (exact v)"
proof -
  have "is_finite (fmul B32 (snd e) (vec3_get v (fst e)))
      \<and> fval (fmul B32 (snd e) (vec3_get v (fst e))) = entry_sign e * rget (exact v) (fst e)"
    if "axis_entry_ok e" for e
    using fmul_unit_exact [of "snd e" "vec3_get v (fst e)"] vec3_get_single [OF assms(2), of "fst e"] that
    by (simp add: axis_entry_ok_def entry_sign_def vec3_get_exact)
  with assms(1) show ?thesis
    by (simp add: axis_apply_def exact_def rotate_vec_def vec3_finite_def map_ok_def)
qed

lemma proper_cases:
  assumes "map_ok m" and "proper_rotation m"
  shows "(fst (am0 m), fst (am1 m), fst (am2 m)) \<in> {(0, 1, 2), (0, 2, 1), (1, 0, 2), (1, 2, 0), (2, 0, 1), (2, 1, 0)}
    \<and> entry_sign (am0 m) \<in> {1, - 1} \<and> entry_sign (am1 m) \<in> {1, - 1} \<and> entry_sign (am2 m) \<in> {1, - 1}"
proof -
  have "fst (am0 m) = 0 \<or> fst (am0 m) = 1 \<or> fst (am0 m) = 2" "fst (am1 m) = 0 \<or> fst (am1 m) = 1 \<or> fst (am1 m) = 2"
      "fst (am2 m) = 0 \<or> fst (am2 m) = 1 \<or> fst (am2 m) = 2"
    using assms(1) by (auto intro!: le2_cases simp: map_ok_def axis_entry_ok_def)
  moreover have "fst (am0 m) \<noteq> fst (am1 m)" "fst (am0 m) \<noteq> fst (am2 m)" "fst (am1 m) \<noteq> fst (am2 m)"
    using assms(2) by (simp_all add: proper_rotation_def)
  ultimately have "(fst (am0 m), fst (am1 m), fst (am2 m)) \<in> {(0, 1, 2), (0, 2, 1), (1, 0, 2), (1, 2, 0), (2, 0, 1), (2, 1, 0)}"
    by (elim disjE) simp_all
  then show ?thesis
    using assms(1) by (auto simp: map_ok_def axis_entry_ok_def entry_sign_def)
qed

lemma rotate_dot_cross:
  assumes "map_ok m" and "proper_rotation m"
  shows "dot (rotate_vec m a) (rotate_vec m b) = dot a b"
    and "cross (rotate_vec m a) (rotate_vec m b) = rotate_vec m (cross a b)"
proof -
  obtain a0 a1 a2 b0 b1 b2 where ab: "a = (a0, a1, a2)" "b = (b0, b1, b2)"
    by (metis surj_pair)
  define i j k p q r where d: "i = fst (am0 m)" "j = fst (am1 m)" "k = fst (am2 m)"
    "p = entry_sign (am0 m)" "q = entry_sign (am1 m)" "r = entry_sign (am2 m)"
  have c: "(i, j, k) \<in> {(0, 1, 2), (0, 2, 1), (1, 0, 2), (1, 2, 0), (2, 0, 1), (2, 1, 0)}"
      "p = 1 \<or> p = - 1" "q = 1 \<or> q = - 1" "r = 1 \<or> r = - 1"
    using proper_cases [OF assms] by (simp_all add: d)
  have det: "exact_det m = 1"
    using assms(2) by (simp add: proper_rotation_def)
  have det: "(let a = (\<lambda>n. if i = n then p else 0); b = (\<lambda>n. if j = n then q else 0); c = (\<lambda>n. if k = n then r else 0)
      in a 0 * (b 1 * c 2 - b 2 * c 1) - a 1 * (b 0 * c 2 - b 2 * c 0) + a 2 * (b 0 * c 1 - b 1 * c 0)) = 1"
    using det by (simp only: exact_det_def row_entry_def d Let_def)
  have "dot (p * rget a i, q * rget a j, r * rget a k) (p * rget b i, q * rget b j, r * rget b k) = dot a b
    \<and> cross (p * rget a i, q * rget a j, r * rget a k) (p * rget b i, q * rget b j, r * rget b k)
      = (p * rget (cross a b) i, q * rget (cross a b) j, r * rget (cross a b) k)"
    using c(1)
    by (elim insertE emptyE Pair_inject; hypsubst; use c(2-4) det in \<open>elim disjE; hypsubst; simp add: ab Let_def algebra_simps\<close>)
  then show "dot (rotate_vec m a) (rotate_vec m b) = dot a b"
    and "cross (rotate_vec m a) (rotate_vec m b) = rotate_vec m (cross a b)"
    by (simp_all add: rotate_vec_def d)
qed

text \<open>
  C36. A mounting that the parser accepts is a rotation: applied to single-precision vectors
  the map makes no rounding error, keeps scalar products (lengths and angles) and commutes
  with the vector product, so that the accelerometer and the gyroscope are turned the same
  way and no reflection gets through.
\<close>

theorem accepted_axis_map_rotates:
  assumes "axis_parse s = Inr m" and "single_vec a" and "single_vec b"
  shows "vec3_finite (axis_apply m a)
    \<and> dot (exact (axis_apply m a)) (exact (axis_apply m b)) = dot (exact a) (exact b)
    \<and> cross (exact (axis_apply m a)) (exact (axis_apply m b)) = rotate_vec m (cross (exact a) (exact b))"
  using axis_parse_proper [OF assms(1)] axis_apply_exact [of m] assms(2,3) rotate_dot_cross [of m]
  by simp

section \<open>Parsing and printing\<close>

definition render_entry :: "axis_entry \<Rightarrow> string" where
  "render_entry e =
     (if sign_neg (snd e) then ''-'' else []) @ (if fst e = 0 then ''X'' else if fst e = 1 then ''Y'' else ''Z'')"

definition render_map :: "axis_map \<Rightarrow> string" where
  "render_map m = render_entry (am0 m) @ '','' @ render_entry (am1 m) @ '','' @ render_entry (am2 m)"

lemma split_on_none: "c \<notin> set t \<Longrightarrow> split_on c t = [t]"
  by (induction t) auto

lemma split_on_some: "c \<notin> set t \<Longrightarrow> split_on c (t @ c # u) = t # split_on c u"
  by (induction t) auto

lemma trim_id:
  assumes "\<forall>c \<in> set t. \<not> is_whitespace c"
  shows "trim t = t"
proof -
  have "dropWhile is_whitespace s = s" if "set s \<subseteq> set t" for s
    using assms that by (cases s) auto
  then show ?thesis by (simp add: trim_def)
qed

lemma axis_tokens_three:
  assumes "\<forall>t \<in> {t0, t1, t2}. t \<noteq> [] \<and> CHR '','' \<notin> set t \<and> (\<forall>c \<in> set t. \<not> is_whitespace c)"
  shows "axis_tokens (t0 @ '','' @ t1 @ '','' @ t2) = [t0, t1, t2]"
  using assms by (simp add: axis_tokens_def split_on_some split_on_none trim_id)

lemma render_entry_cases:
  "axis_entry_ok e \<Longrightarrow> (e, render_entry e) \<in>
     {((0, FNum 1), ''X''), ((1, FNum 1), ''Y''), ((2, FNum 1), ''Z''),
      ((0, FNum (- 1)), ''-X''), ((1, FNum (- 1)), ''-Y''), ((2, FNum (- 1)), ''-Z'')}"
proof -
  assume "axis_entry_ok e"
  then have "fst e = 0 \<or> fst e = 1 \<or> fst e = 2" "snd e = FNum 1 \<or> snd e = FNum (- 1)"
    using le2_cases [of "fst e"] by (simp_all add: axis_entry_ok_def)
  then show ?thesis
    by (cases e; elim disjE) (simp_all add: render_entry_def)
qed

lemma render_entry_token:
  assumes "axis_entry_ok e"
  shows "render_entry e \<noteq> [] \<and> CHR '','' \<notin> set (render_entry e)
    \<and> (\<forall>c \<in> set (render_entry e). \<not> is_whitespace c) \<and> parse_token (render_entry e) = Inr e"
  using render_entry_cases [OF assms]
  by (auto simp: is_whitespace_def char_code_def parse_token_def strip_prefix_def to_ascii_uppercase_def)

text \<open>
  C37. Every mounting that is a rotation can be written down: printing it and parsing the
  text gives it back, and the parser accepts nothing that is not a rotation.
\<close>

theorem axis_map_roundtrip:
  assumes "map_ok m" and "proper_rotation m"
  shows "axis_parse (render_map m) = Inr m"
proof -
  have t: "\<forall>e \<in> {am0 m, am1 m, am2 m}. render_entry e \<noteq> [] \<and> CHR '','' \<notin> set (render_entry e)
      \<and> (\<forall>c \<in> set (render_entry e). \<not> is_whitespace c) \<and> parse_token (render_entry e) = Inr e"
    using assms(1) render_entry_token unfolding map_ok_def by blast
  have "axis_tokens (render_map m) = [render_entry (am0 m), render_entry (am1 m), render_entry (am2 m)]"
    unfolding render_map_def by (rule axis_tokens_three) (use t in simp)
  moreover have "axis_validate m = Inr ()"
    using validate_iff assms by blast
  ultimately show ?thesis
    using t by (cases m) (simp add: axis_parse_def Let_def)
qed

text \<open>A quarter turn about the vertical.\<close>

definition yaw90 :: axis_map where
  "yaw90 = \<lparr>am0 = (1, FNum 1), am1 = (0, FNum (- 1)), am2 = (2, FNum 1)\<rparr>"

lemma yaw90_ok: "map_ok yaw90 \<and> proper_rotation yaw90"
  by (simp add: yaw90_def map_ok_def axis_entry_ok_def proper_rotation_def exact_det_def row_entry_def entry_sign_def Let_def)

lemma axis_map_roundtrip_witness: "axis_parse ''Y,-X,Z'' = Inr yaw90"
  using axis_map_roundtrip [of yaw90] yaw90_ok by (simp add: render_map_def yaw90_def render_entry_def)

lemma yaw90_parses: "axis_parse ''Y,-X,Z'' = Inr yaw90"
proof -
  have t: "axis_tokens ''Y,-X,Z'' = [''Y'', ''-X'', ''Z'']"
    using axis_tokens_three [of "''Y''" "''-X''" "''Z''"] by (simp add: is_whitespace_def char_code_def)
  have p: "parse_token ''Y'' = Inr (1, FNum 1)" "parse_token ''-X'' = Inr (0, FNum (- 1))" "parse_token ''Z'' = Inr (2, FNum 1)"
    by (simp_all add: parse_token_def strip_prefix_def to_ascii_uppercase_def char_code_def)
  have "axis_validate yaw90 = Inr ()"
    using validate_iff yaw90_ok by blast
  then show ?thesis
    by (simp add: axis_parse_def t p Let_def yaw90_def)
qed

lemma accepted_axis_map_rotates_witness:
  "dot (exact (axis_apply yaw90 \<lparr>v0 = FNum 1, v1 = FNum 2, v2 = FNum 3\<rparr>)) (exact (axis_apply yaw90 vec3_zero)) = 0"
proof -
  have s: "single_vec \<lparr>v0 = FNum 1, v1 = FNum 2, v2 = FNum 3\<rparr>" "single_vec vec3_zero"
    using bound_ok_int [of B32 0] bound_ok_int [of B32 1] bound_ok_int [of B32 2] bound_ok_int [of B32 3]
    by (simp_all add: single_vec_def vec3_finite_def vec3_zero_def in_format_def)
  from accepted_axis_map_rotates [OF yaw90_parses s] show ?thesis
    by (simp add: exact_def vec3_zero_def)
qed

end
