(* ===== verification/Imu_Driver.thy ===== *)
theory Imu_Driver
  imports Axis_Map Sensor_Gate
begin

text \<open>
  The I2C IMU: \<open>src/src/hw/mpu6050.rs\<close> (identity check, decoding of a frame, the
  escalation policy for bad reads) and \<open>src/src/hw/i2c_imu.rs\<close> (initialisation and the
  read loop). The bus is the parameter \<open>i2c_bus\<close>: opening it, a write followed by a
  read, and a write, each of which can fail. An array \<open>[u8; 14]\<close> is a list of bytes of
  that length.
\<close>

section \<open>Registers, identity and decoding\<close>

definition MPU6050_DEFAULT_ADDR :: u8 where "MPU6050_DEFAULT_ADDR = 0x68"
definition REG_PWR_MGMT_1 :: u8 where "REG_PWR_MGMT_1 = 0x6B"
definition REG_GYRO_CONFIG :: u8 where "REG_GYRO_CONFIG = 0x1B"
definition REG_ACCEL_CONFIG :: u8 where "REG_ACCEL_CONFIG = 0x1C"
definition REG_ACCEL_XOUT_H :: u8 where "REG_ACCEL_XOUT_H = 0x3B"
definition REG_WHO_AM_I :: u8 where "REG_WHO_AM_I = 0x75"
definition WHO_AM_I_MPU6050 :: u8 where "WHO_AM_I_MPU6050 = 0x68"

definition G_PER_LSB :: f32 where "G_PER_LSB = fdiv B32 (FNum 1) (FNum 16384)"
definition DEG_S_PER_LSB :: f32 where "DEG_S_PER_LSB = fdiv B32 (FNum 1) (FNum 131)"
definition G_TO_MPS2 :: f32 where "G_TO_MPS2 = lit B32 (980665 / 100000)"
definition RAW_FRAME_LEN :: nat where "RAW_FRAME_LEN = 14"

text \<open>The error of a mismatch is the byte that was read; \<open>who_am_i_text\<close> below is its message.\<close>

definition check_who_am_i :: "u8 \<Rightarrow> u8 + unit" where
  "check_who_am_i r = (if r = WHO_AM_I_MPU6050 then Inr () else Inl r)"

text \<open>\<open>i16::from_be_bytes\<close>, as the word that \<open>sint\<close> reads.\<close>

definition from_be_bytes :: "u8 \<Rightarrow> u8 \<Rightarrow> u16" where
  "from_be_bytes hi lo = push_bit 8 (ucast hi) OR ucast lo"

definition raw_f32 :: "u8 list \<Rightarrow> nat \<Rightarrow> f32" where
  "raw_f32 raw i = of_int_fl B32 (sint (from_be_bytes (raw ! i) (raw ! Suc i)))"

definition raw_accel :: "u8 list \<Rightarrow> nat \<Rightarrow> f32" where
  "raw_accel raw i = fmul B32 (fmul B32 (raw_f32 raw i) G_PER_LSB) G_TO_MPS2"

definition raw_gyro :: "u8 list \<Rightarrow> nat \<Rightarrow> f32" where
  "raw_gyro raw i = to_radians B32 (fmul B32 (raw_f32 raw i) DEG_S_PER_LSB)"

definition sample_from_raw :: "instant \<Rightarrow> u8 list \<Rightarrow> axis_map \<Rightarrow> imu_sample" where
  "sample_from_raw t raw m =
     \<lparr>imu_t = at_mono t,
      accel_mps2 = axis_apply m \<lparr>v0 = raw_accel raw 0, v1 = raw_accel raw 2, v2 = raw_accel raw 4\<rparr>,
      gyro_rps = axis_apply m \<lparr>v0 = raw_gyro raw 8, v1 = raw_gyro raw 10, v2 = raw_gyro raw 12\<rparr>\<rparr>"

section \<open>Read health\<close>

definition DEGRADED_THRESHOLD :: u32 where "DEGRADED_THRESHOLD = 100"
definition REINIT_INTERVAL :: u32 where "REINIT_INTERVAL = 200"
definition BUS_DOWN_THRESHOLD :: u32 where "BUS_DOWN_THRESHOLD = 1000"
definition FROZEN_OUTPUT_THRESHOLD :: u32 where "FROZEN_OUTPUT_THRESHOLD = 100"

datatype trouble_kind = ReadError | FrozenOutput

record trouble =
  tr_kind :: trouble_kind
  tr_consecutive_errors :: u32
  warn_degraded :: bool
  reinit :: bool
  end_stream :: bool

datatype verdict = Fresh "u32 option" | Frozen trouble

record read_health =
  consecutive_errors :: u32
  last_raw :: "u8 list option"
  frozen_run :: u32

definition read_health_new :: read_health where
  "read_health_new = \<lparr>consecutive_errors = 0, last_raw = None, frozen_run = 0\<rparr>"

definition escalate :: "trouble_kind \<Rightarrow> read_health \<Rightarrow> trouble \<times> read_health" where
  "escalate kind h =
     (let n = saturating_add (consecutive_errors h) 1;
          ended = (n \<ge> BUS_DOWN_THRESHOLD)
      in (\<lparr>tr_kind = kind, tr_consecutive_errors = n, warn_degraded = (n = DEGRADED_THRESHOLD),
           reinit = (\<not> ended \<and> n mod REINIT_INTERVAL = 0), end_stream = ended\<rparr>,
          h\<lparr>consecutive_errors := n\<rparr>))"

definition fresh_read :: "read_health \<Rightarrow> verdict \<times> read_health" where
  "fresh_read h =
     (Fresh (if consecutive_errors h > 0 then Some (consecutive_errors h) else None), h\<lparr>consecutive_errors := 0\<rparr>)"

definition on_read_ok :: "u8 list \<Rightarrow> read_health \<Rightarrow> verdict \<times> read_health" where
  "on_read_ok raw h =
     (if last_raw h = Some raw then
        (let h = h\<lparr>frozen_run := saturating_add (frozen_run h) 1\<rparr>
         in if frozen_run h \<ge> FROZEN_OUTPUT_THRESHOLD
            then (case escalate FrozenOutput h of (t, h) \<Rightarrow> (Frozen t, h))
            else fresh_read h)
      else fresh_read (h\<lparr>last_raw := Some raw, frozen_run := 0\<rparr>))"

definition on_read_err :: "read_health \<Rightarrow> trouble \<times> read_health" where
  "on_read_err h = escalate ReadError h"

section \<open>The driver\<close>

record i2c_imu_config =
  bus_path :: string
  addr :: u8
  rate_hz :: f32
  cfg_axis_map :: axis_map

definition i2c_imu_config_default :: i2c_imu_config where
  "i2c_imu_config_default = \<lparr>bus_path = ''/dev/i2c-1'', addr = MPU6050_DEFAULT_ADDR, rate_hz = FNum 100,
     cfg_axis_map = axis_identity\<rparr>"

record 'b i2c_bus =
  bus_open :: "string \<Rightarrow> string + 'b"
  bus_write_read :: "u8 \<Rightarrow> u8 list \<Rightarrow> nat \<Rightarrow> 'b \<Rightarrow> (string + u8 list) \<times> 'b"
  bus_write :: "u8 \<Rightarrow> u8 list \<Rightarrow> 'b \<Rightarrow> (string + unit) \<times> 'b"

definition i2c_error :: "string \<Rightarrow> string \<Rightarrow> fs_error" where
  "i2c_error context e = FsIngest (I2c (context @ e))"

text \<open>\<open>{read:#04x}\<close>: two lower-case hexadecimal digits after the prefix.\<close>

definition hex_digit :: "nat \<Rightarrow> char" where
  "hex_digit n = (if n < 10 then char_of (48 + n) else char_of (87 + n))"

definition hex_byte :: "u8 \<Rightarrow> string" where
  "hex_byte b = ''0x'' @ [hex_digit (unat b div 16), hex_digit (unat b mod 16)]"

text \<open>The message of a wrong chip, in UTF-8; the three bytes are its dash.\<close>

definition who_am_i_text :: "u8 \<Rightarrow> string" where
  "who_am_i_text r =
     ''IMU WHO_AM_I mismatch: chip at the configured address reports '' @ hex_byte r @ '', '' @
     ''expected 0x68 (MPU-6050/6000). Common values: 0x70=MPU-6500, 0x71=MPU-9250, '' @
     ''0x73=MPU-9255, 0x12=ICM-20602. A substituted chip has different full-scale '' @
     ''factors, so its samples would be silently mis-scaled '' @ map char_of [0xE2, 0x80, 0x94 :: nat] @
     '' refusing to feed the '' @
     ''detector. Fix the wiring/address, or port the driver (register map + scale '' @
     ''constants) to the actual chip.''"

definition who_am_i_error :: "u8 \<Rightarrow> fs_error" where
  "who_am_i_error r = FsIngest (I2c (who_am_i_text r))"

fun init_writes :: "'b i2c_bus \<Rightarrow> u8 \<Rightarrow> (u8 \<times> string) list \<Rightarrow> 'b \<Rightarrow> fs_error + 'b" where
  "init_writes B a [] bus = Inr bus"
| "init_writes B a ((reg, context) # ws) bus =
     (case bus_write B a [reg, 0x00] bus of
        (Inl e, _) \<Rightarrow> Inl (i2c_error context e)
      | (Inr _, bus) \<Rightarrow> init_writes B a ws bus)"

definition open_and_init :: "'b i2c_bus \<Rightarrow> i2c_imu_config \<Rightarrow> fs_error + 'b" where
  "open_and_init B cfg =
     (case bus_open B (bus_path cfg) of
        Inl e \<Rightarrow> Inl (i2c_error (''open i2c bus '' @ bus_path cfg @ '': '') e)
      | Inr bus \<Rightarrow>
          (case bus_write_read B (addr cfg) [REG_WHO_AM_I] 1 bus of
             (Inl e, _) \<Rightarrow> Inl (i2c_error ''mpu6050 who_am_i read: '' e)
           | (Inr who, bus) \<Rightarrow>
               (case check_who_am_i (who ! 0) of
                  Inl r \<Rightarrow> Inl (who_am_i_error r)
                | Inr _ \<Rightarrow>
                    init_writes B (addr cfg)
                      [(REG_PWR_MGMT_1, ''mpu6050 wake: ''), (REG_ACCEL_CONFIG, ''mpu6050 accel cfg: ''),
                       (REG_GYRO_CONFIG, ''mpu6050 gyro cfg: '')] bus)))"

definition read_raw :: "'b i2c_bus \<Rightarrow> u8 \<Rightarrow> 'b \<Rightarrow> (string + u8 list) \<times> 'b" where
  "read_raw B a bus =
     (case bus_write_read B a [REG_ACCEL_XOUT_H] RAW_FRAME_LEN bus of
        (Inl e, bus) \<Rightarrow> (Inl (''i2c read: '' @ e), bus)
      | (Inr raw, bus) \<Rightarrow> (Inr raw, bus))"

record 'b imu_loop =
  il_bus :: 'b
  il_health :: read_health

datatype imu_output = Sample imu_sample | SourceError fs_error

definition act_on_trouble :: "'b i2c_bus \<Rightarrow> i2c_imu_config \<Rightarrow> trouble \<Rightarrow> 'b imu_loop \<Rightarrow> 'b imu_loop option" where
  "act_on_trouble B cfg t s =
     (if end_stream t then None
      else if reinit t
      then (case open_and_init B cfg of Inr fresh \<Rightarrow> Some (s\<lparr>il_bus := fresh\<rparr>) | Inl _ \<Rightarrow> Some s)
      else Some s)"

text \<open>One tick of the loop; the argument is the stamp of the sample.\<close>

definition imu_tick ::
    "'b i2c_bus \<Rightarrow> i2c_imu_config \<Rightarrow> instant \<Rightarrow> 'b imu_loop \<Rightarrow> imu_output list \<times> 'b imu_loop option" where
  "imu_tick B cfg t s =
     (case read_raw B (addr cfg) (il_bus s) of
        (Inr raw, bus) \<Rightarrow>
          (case on_read_ok raw (il_health s) of
             (Fresh _, h) \<Rightarrow>
               (let sample = sample_from_raw t raw (cfg_axis_map cfg)
                in (if imu_sample_is_plausible sample then [Sample sample] else [],
                    Some (s\<lparr>il_bus := bus, il_health := h\<rparr>)))
           | (Frozen tr, h) \<Rightarrow> ([], act_on_trouble B cfg tr (s\<lparr>il_bus := bus, il_health := h\<rparr>)))
      | (Inl _, bus) \<Rightarrow>
          (case on_read_err (il_health s) of
             (tr, h) \<Rightarrow> ([], act_on_trouble B cfg tr (s\<lparr>il_bus := bus, il_health := h\<rparr>))))"

definition imu_stream :: "'b i2c_bus \<Rightarrow> i2c_imu_config \<Rightarrow> instant list \<Rightarrow> imu_output list \<times> 'b imu_loop option" where
  "imu_stream B cfg ticks =
     (case open_and_init B cfg of
        Inl e \<Rightarrow> ([SourceError e], None)
      | Inr bus \<Rightarrow> run_source (imu_tick B cfg) ticks (Some \<lparr>il_bus = bus, il_health = read_health_new\<rparr>))"

section \<open>The ladder as a function of the reads\<close>

text \<open>
  The reads so far, newest first: \<open>None\<close> a failed read, \<open>Some\<close> a frame. \<open>trail\<close>
  counts how often the newest frame repeats the one before it without a break, and
  \<open>streak\<close> is the length of the current run of bad reads.
\<close>

fun trail :: "'a list \<Rightarrow> nat" where
  "trail [] = 0"
| "trail [f] = 0"
| "trail (f # g # fs) = (if f = g then Suc (trail (g # fs)) else 0)"

definition frames :: "'a option list \<Rightarrow> 'a list" where
  "frames rs = List.map_filter (\<lambda>r. r) rs"

definition frozen_now :: "'a option list \<Rightarrow> bool" where
  "frozen_now rs \<longleftrightarrow> 100 \<le> trail (frames rs)"

fun streak :: "'a option list \<Rightarrow> nat" where
  "streak [] = 0"
| "streak (r # rs) = (if r = None \<or> frozen_now (r # rs) then Suc (streak rs) else 0)"

definition read_step :: "u8 list option \<Rightarrow> read_health \<Rightarrow> verdict \<times> read_health" where
  "read_step r h = (case r of Some raw \<Rightarrow> on_read_ok raw h | None \<Rightarrow> (case on_read_err h of (t, h) \<Rightarrow> (Frozen t, h)))"

text \<open>The health state is determined by the reads.\<close>

definition health_tracks :: "u8 list option list \<Rightarrow> read_health \<Rightarrow> bool" where
  "health_tracks rs h \<longleftrightarrow>
     unat (consecutive_errors h) = streak rs
     \<and> last_raw h = (case frames rs of [] \<Rightarrow> None | f # _ \<Rightarrow> Some f)
     \<and> unat (frozen_run h) = trail (frames rs)"

lemma frames_simps [simp]: "frames [] = []" "frames (None # rs) = frames rs" "frames (Some f # rs) = f # frames rs"
  by (simp_all add: frames_def)

lemma trail_le: "trail fs \<le> length fs"
  by (induction fs rule: trail.induct) auto

lemma frames_le: "length (frames rs) \<le> length rs"
  by (simp add: frames_def map_filter_def)

lemma streak_le: "streak rs \<le> length rs"
  by (induction rs) auto

lemma unat_inc: "unat (w :: u32) = n \<Longrightarrow> Suc n < 2 ^ 32 \<Longrightarrow> unat (saturating_add w 1) = Suc n"
  by (simp add: unat_saturating_add)

lemma trail_Cons: "trail (f # fs) = (case fs of [] \<Rightarrow> 0 | g # _ \<Rightarrow> if f = g then Suc (trail fs) else 0)"
  by (cases fs) simp_all

definition rung :: "trouble_kind \<Rightarrow> nat \<Rightarrow> trouble" where
  "rung k n = \<lparr>tr_kind = k, tr_consecutive_errors = word_of_nat n, warn_degraded = (n = 100),
     reinit = (n < 1000 \<and> n mod 200 = 0), end_stream = (1000 \<le> n)\<rparr>"

lemma escalate_rung:
  assumes "unat (consecutive_errors h) = n" and "Suc n < 2 ^ 32"
  shows "escalate k h = (rung k (Suc n), h\<lparr>consecutive_errors := word_of_nat (Suc n)\<rparr>)"
proof -
  have u: "unat (saturating_add (consecutive_errors h) 1) = Suc n"
    by (rule unat_inc [OF assms])
  have "word_of_nat (unat (saturating_add (consecutive_errors h) 1)) = saturating_add (consecutive_errors h) 1"
    by simp
  then have e: "saturating_add (consecutive_errors h) 1 = word_of_nat (Suc n)"
    by (simp only: u)
  have u2: "unat (word_of_nat (Suc n) :: u32) = Suc n"
    using u by (simp add: e)
  show ?thesis
    unfolding escalate_def e
    by (simp add: rung_def Let_def word_le_nat_alt word_unat_eq_iff unat_mod u2 BUS_DOWN_THRESHOLD_def
        DEGRADED_THRESHOLD_def REINIT_INTERVAL_def not_le del: of_nat_Suc)
qed

definition verdict_of :: "u8 list option \<Rightarrow> u8 list option list \<Rightarrow> verdict" where
  "verdict_of r rs =
     (if streak (r # rs) > 0 then Frozen (rung (if r = None then ReadError else FrozenOutput) (streak (r # rs)))
      else Fresh (if streak rs > 0 then Some (word_of_nat (streak rs)) else None))"

lemma fresh_read_streak:
  assumes "unat (consecutive_errors h) = n"
  shows "fresh_read h = (Fresh (if n > 0 then Some (word_of_nat n) else None), h\<lparr>consecutive_errors := 0\<rparr>)"
proof -
  have "word_of_nat n = consecutive_errors h"
    using assms by auto
  moreover have "consecutive_errors h > 0 \<longleftrightarrow> n > 0"
    using assms by (simp add: word_less_nat_alt)
  ultimately show ?thesis
    by (simp add: fresh_read_def)
qed

lemma unat_of_nat_small: "n < 2 ^ 32 \<Longrightarrow> unat (word_of_nat n :: u32) = n"
  by (simp add: unat_of_nat)

lemma read_ok_step:
  assumes "health_tracks rs h" and "Suc (length rs) < 2 ^ 32"
  shows "fst (on_read_ok f h) = verdict_of (Some f) rs \<and> health_tracks (Some f # rs) (snd (on_read_ok f h))"
proof -
  have s: "unat (consecutive_errors h) = streak rs" and fr: "unat (frozen_run h) = trail (frames rs)"
    and lr: "last_raw h = (case frames rs of [] \<Rightarrow> None | f # _ \<Rightarrow> Some f)"
    using assms(1) by (simp_all add: health_tracks_def)
  have lim: "Suc (streak rs) < 2 ^ 32" "Suc (trail (frames rs)) < 2 ^ 32"
    using assms(2) streak_le [of rs] trail_le [of "frames rs"] frames_le [of rs] by linarith+
  have t: "trail (f # frames rs) = (if last_raw h = Some f then Suc (trail (frames rs)) else 0)"
    by (auto simp: trail_Cons lr split: list.splits)
  show ?thesis
  proof (cases "last_raw h = Some f")
    case True
    let ?h = "h\<lparr>frozen_run := saturating_add (frozen_run h) 1\<rparr>"
    have u: "unat (frozen_run ?h) = Suc (trail (frames rs))"
      using unat_inc [OF fr lim(2)] by simp
    have c: "unat (consecutive_errors ?h) = streak rs"
      by (simp add: s)
    have thr: "frozen_run ?h \<ge> FROZEN_OUTPUT_THRESHOLD \<longleftrightarrow> frozen_now (Some f # rs)"
      using u t True by (simp add: word_le_nat_alt FROZEN_OUTPUT_THRESHOLD_def frozen_now_def)
    show ?thesis
    proof (cases "frozen_now (Some f # rs)")
      case fz: True
      have "on_read_ok f h = (Frozen (rung FrozenOutput (Suc (streak rs))), ?h\<lparr>consecutive_errors := word_of_nat (Suc (streak rs))\<rparr>)"
        using True fz thr escalate_rung [OF c lim(1), of FrozenOutput] by (simp add: on_read_ok_def Let_def)
      with fz u t True lim lr show ?thesis
        by (simp add: verdict_of_def health_tracks_def unat_of_nat_small del: of_nat_Suc)
    next
      case nf: False
      have "on_read_ok f h = fresh_read ?h"
        using True nf thr by (simp add: on_read_ok_def Let_def)
      with nf u t True lr show ?thesis
        by (simp add: fresh_read_streak [OF c] verdict_of_def health_tracks_def)
    qed
  next
    case False
    have nf: "\<not> frozen_now (Some f # rs)"
      using t False by (simp add: frozen_now_def)
    have c: "unat (consecutive_errors (h\<lparr>last_raw := Some f, frozen_run := 0\<rparr>)) = streak rs"
      by (simp add: s)
    show ?thesis
      using False nf t by (simp add: on_read_ok_def fresh_read_streak [OF c] verdict_of_def health_tracks_def)
  qed
qed

lemma read_err_step:
  assumes "health_tracks rs h" and "Suc (length rs) < 2 ^ 32"
  shows "Frozen (fst (on_read_err h)) = verdict_of None rs \<and> health_tracks (None # rs) (snd (on_read_err h))"
proof -
  have s: "unat (consecutive_errors h) = streak rs"
    using assms(1) by (simp add: health_tracks_def)
  have lim: "Suc (streak rs) < 2 ^ 32"
    using assms(2) streak_le [of rs] by linarith
  show ?thesis
    using assms(1) lim escalate_rung [OF s lim, of ReadError]
    by (simp add: on_read_err_def verdict_of_def health_tracks_def unat_of_nat_small del: of_nat_Suc)
qed

section \<open>The stream as a function of the reads\<close>

definition tick_read :: "'b i2c_bus \<Rightarrow> i2c_imu_config \<Rightarrow> 'b imu_loop \<Rightarrow> u8 list option" where
  "tick_read B cfg s = (case fst (read_raw B (addr cfg) (il_bus s)) of Inl _ \<Rightarrow> None | Inr raw \<Rightarrow> Some raw)"

fun imu_reads :: "'b i2c_bus \<Rightarrow> i2c_imu_config \<Rightarrow> instant list \<Rightarrow> 'b imu_loop option \<Rightarrow> u8 list option list" where
  "imu_reads B cfg (t # ts) (Some s) = tick_read B cfg s # imu_reads B cfg ts (snd (imu_tick B cfg t s))"
| "imu_reads B cfg _ _ = []"

text \<open>The specification: a frame is passed on when it is not frozen and its sample is plausible.\<close>

definition expected_sample :: "i2c_imu_config \<Rightarrow> instant \<Rightarrow> u8 list option \<Rightarrow> u8 list option list \<Rightarrow> imu_output list" where
  "expected_sample cfg t r hist =
     (case r of
        None \<Rightarrow> []
      | Some raw \<Rightarrow>
          if frozen_now (r # hist) then []
          else let s = sample_from_raw t raw (cfg_axis_map cfg) in if imu_sample_is_plausible s then [Sample s] else [])"

fun expected_outputs :: "i2c_imu_config \<Rightarrow> u8 list option list \<Rightarrow> (instant \<times> u8 list option) list \<Rightarrow> imu_output list" where
  "expected_outputs cfg hist [] = []"
| "expected_outputs cfg hist ((t, r) # xs) = expected_sample cfg t r hist @ expected_outputs cfg (r # hist) xs"

lemma act_on_trouble_spec:
  "act_on_trouble B cfg (rung k n) s = None \<longleftrightarrow> 1000 \<le> n"
  "act_on_trouble B cfg tr s = Some s' \<Longrightarrow> il_health s' = il_health s"
  by (auto simp: act_on_trouble_def rung_def split: if_splits sum.splits)

lemma imu_tick_spec:
  fixes B :: "'b i2c_bus" and cfg :: i2c_imu_config
  assumes "health_tracks hist (il_health s)" and "Suc (length hist) < 2 ^ 32"
  defines "r \<equiv> tick_read B cfg s"
  shows "fst (imu_tick B cfg t s) = expected_sample cfg t r hist
    \<and> (snd (imu_tick B cfg t s) = None \<longleftrightarrow> 1000 \<le> streak (r # hist))
    \<and> (\<forall>s'. snd (imu_tick B cfg t s) = Some s' \<longrightarrow> health_tracks (r # hist) (il_health s'))"
proof (cases "read_raw B (addr cfg) (il_bus s)")
  case (Pair res bus)
  show ?thesis
  proof (cases res)
    case (Inl e)
    have r: "r = None" by (simp add: r_def tick_read_def Pair Inl)
    obtain tr h where e: "on_read_err (il_health s) = (tr, h)" by force
    have v: "Frozen tr = verdict_of None hist" "health_tracks (None # hist) h"
      using read_err_step [OF assms(1,2)] by (simp_all add: e)
    then have "tr = rung ReadError (streak (None # hist))"
      by (simp add: verdict_of_def)
    with v(2) show ?thesis
      by (auto simp: imu_tick_def Pair Inl e r expected_sample_def act_on_trouble_spec(1) dest: act_on_trouble_spec(2))
  next
    case (Inr raw)
    have r: "r = Some raw" by (simp add: r_def tick_read_def Pair Inr)
    obtain v h where e: "on_read_ok raw (il_health s) = (v, h)" by force
    have v: "v = verdict_of (Some raw) hist" "health_tracks (Some raw # hist) h"
      using read_ok_step [OF assms(1,2), of raw] by (simp_all add: e)
    show ?thesis
    proof (cases "frozen_now (Some raw # hist)")
      case True
      then have "v = Frozen (rung FrozenOutput (streak (Some raw # hist)))"
        by (simp add: v(1) verdict_of_def)
      with v(2) True show ?thesis
        by (auto simp: imu_tick_def Pair Inr e r expected_sample_def act_on_trouble_spec(1) dest: act_on_trouble_spec(2))
    next
      case False
      then obtain x where "v = Fresh x"
        by (simp add: v(1) verdict_of_def)
      with v(2) False show ?thesis
        by (simp add: imu_tick_def Pair Inr e r expected_sample_def Let_def)
    qed
  qed
qed

lemma imu_run_spec:
  fixes B :: "'b i2c_bus" and cfg :: i2c_imu_config
  assumes "health_tracks hist (il_health s)" and "length hist + length ticks < 2 ^ 32" and "streak hist < 1000"
  defines "rs \<equiv> imu_reads B cfg ticks (Some s)"
  shows "fst (run_source (imu_tick B cfg) ticks (Some s)) = expected_outputs cfg hist (zip ticks rs)
    \<and> (snd (run_source (imu_tick B cfg) ticks (Some s)) = None \<longleftrightarrow> 1000 \<le> streak (rev rs @ hist))
    \<and> (\<forall>k < length rs. streak (rev (take k rs) @ hist) < 1000)"
  unfolding rs_def using assms(1-3)
proof (induction ticks arbitrary: s hist)
  case (Cons t ticks)
  let ?r = "tick_read B cfg s"
  note st = imu_tick_spec [OF Cons.prems(1), of B cfg t]
  show ?case
  proof (cases "snd (imu_tick B cfg t s)")
    case None
    then show ?thesis
      using st Cons.prems by (simp add: run_source_Some)
  next
    case (Some s')
    have h: "health_tracks (?r # hist) (il_health s')" "streak (?r # hist) < 1000"
      using st Some Cons.prems(2) by auto
    from Cons.IH [OF h(1) _ h(2)] Cons.prems(2,3) st Some show ?thesis
      by (auto simp: run_source_Some less_Suc_eq_0_disj simp del: streak.simps)
  qed
qed simp

text \<open>
  C15. The stream of the I2C IMU is exactly determined by what the bus returned: a frame is
  passed on if and only if it is not the hundredth or later repetition of the same frame
  and its sample is plausible, and the stream ends precisely at the first run of 1000
  consecutive bad reads (failures and frozen frames together), never earlier, whatever
  re-initialisation does.
\<close>

theorem imu_stream_exact:
  fixes B :: "'b i2c_bus"
  assumes "open_and_init B cfg = Inr bus" and "length ticks < 2 ^ 32"
    and "rs = imu_reads B cfg ticks (Some \<lparr>il_bus = bus, il_health = read_health_new\<rparr>)"
  shows "fst (imu_stream B cfg ticks) = expected_outputs cfg [] (zip ticks rs)
    \<and> (snd (imu_stream B cfg ticks) = None \<longleftrightarrow> 1000 \<le> streak (rev rs))
    \<and> (\<forall>k < length rs. streak (rev (take k rs)) < 1000)"
  using imu_run_spec [of "[]" "\<lparr>il_bus = bus, il_health = read_health_new\<rparr>" ticks B cfg] assms
  by (simp add: imu_stream_def health_tracks_def read_health_new_def)

text \<open>A bus on which the chip answers its identity and then every burst read fails.\<close>

definition dead_bus :: "unit i2c_bus" where
  "dead_bus =
     \<lparr>bus_open = (\<lambda>_. Inr ()),
      bus_write_read = (\<lambda>a reg n b. (if reg = [REG_WHO_AM_I] then Inr [0x68] else Inl ''nack'', b)),
      bus_write = (\<lambda>a d b. (Inr (), b))\<rparr>"

lemma dead_bus_init: "open_and_init dead_bus cfg = Inr ()"
  by (simp add: open_and_init_def dead_bus_def check_who_am_i_def WHO_AM_I_MPU6050_def)

lemma dead_bus_read: "tick_read dead_bus cfg s = None"
  by (simp add: tick_read_def read_raw_def dead_bus_def REG_ACCEL_XOUT_H_def REG_WHO_AM_I_def)

lemma imu_stream_exact_witness:
  "imu_stream dead_bus i2c_imu_config_default [1, 2] = ([], snd (imu_stream dead_bus i2c_imu_config_default [1, 2]))
   \<and> snd (imu_stream dead_bus i2c_imu_config_default [1, 2]) \<noteq> None"
proof -
  let ?s = "\<lparr>il_bus = (), il_health = read_health_new\<rparr>"
  obtain r where rs: "imu_reads dead_bus i2c_imu_config_default [1, 2] (Some ?s) = None # r" "r = [] \<or> r = [None]"
    by (cases "snd (imu_tick dead_bus i2c_imu_config_default 1 ?s)") (simp_all add: dead_bus_read)
  from imu_stream_exact [OF dead_bus_init _ refl, of "[1, 2]" i2c_imu_config_default] rs show ?thesis
    by (auto simp: expected_sample_def prod_eq_iff)
qed

lemma dead_bus_reads:
  "imu_reads dead_bus cfg ticks st = replicate (length (imu_reads dead_bus cfg ticks st)) None"
  by (induction dead_bus cfg ticks st rule: imu_reads.induct) (simp_all add: dead_bus_read)

section \<open>What reaches the detector is gated\<close>

definition imu_ok :: "imu_output \<Rightarrow> bool" where
  "imu_ok x \<longleftrightarrow> (case x of Sample s \<Rightarrow> imu_sample_is_plausible s | SourceError _ \<Rightarrow> True)"

lemma imu_tick_gated: "x \<in> set (fst (imu_tick B cfg t s)) \<Longrightarrow> imu_ok x"
  by (auto simp: imu_tick_def imu_ok_def Let_def split: prod.splits sum.splits verdict.splits if_splits)

interpretation i2c: gated_source "imu_tick B cfg" "\<lambda>_. True" imu_ok for B cfg
  by unfold_locales (auto dest: imu_tick_gated)

lemma imu_stream_gated: "x \<in> set (fst (imu_stream B cfg ticks)) \<Longrightarrow> imu_ok x"
  using i2c.run_gate [of x B cfg ticks] by (auto simp: imu_stream_def imu_ok_def split: sum.splits)

end
