(* ===== verification/Autopilot.thy ===== *)
theory Autopilot
  imports Mav_Link Controller "HOL-Library.Sublist"
begin

text \<open>
  The autopilot's side of the loop: the reaction of \<open>src/src/bin/mavsim.rs\<close>, the stand-in for
  an ArduCopter that the detector is tested against. It heartbeats its mode, answers a command
  with an acknowledgement and a parameter with its echo, and enters RTL when asked. With it the
  read-backs of the controller are closed: what the autopilot answers does confirm the actions.
\<close>

unbundle bit_operations_syntax

section \<open>The simulated autopilot\<close>

definition MODE_GUIDED :: u32 where "MODE_GUIDED = 4"

record autopilot =
  ap_mode :: u32
  ap_seq :: u8

definition autopilot_start :: autopilot where
  "autopilot_start = \<lparr>ap_mode = MODE_GUIDED, ap_seq = 0\<rparr>"

text \<open>The heartbeat of an armed ArduPilot copter; 4 is \<open>MAV_STATE_ACTIVE\<close>.\<close>

definition sim_heartbeat :: "u32 \<Rightarrow> hb_msg" where
  "sim_heartbeat mode = \<lparr>hm_custom_mode = mode,
     hm_base_mode = or MAV_MODE_FLAG_CUSTOM_MODE_ENABLED MAV_MODE_FLAG_SAFETY_ARMED,
     hm_system_status = 4, hm_autopilot = MAV_AUTOPILOT_ARDUPILOTMEGA\<rparr>"

definition command_id :: "mav_cmd \<Rightarrow> u16" where
  "command_id c = (case c of MAV_CMD_NAV_RETURN_TO_LAUNCH \<Rightarrow> MAV_CMD_NAV_RETURN_TO_LAUNCH_ID
     | MAV_CMD_DO_SET_MODE \<Rightarrow> MAV_CMD_DO_SET_MODE_ID)"

definition sim_ack :: "mav_cmd \<Rightarrow> mav_msg" where
  "sim_ack c = MsgCommandAck \<lparr>ack_command = command_id c, ack_result = MAV_RESULT_ACCEPTED\<rparr>"

text \<open>What \<open>handle_incoming\<close> sends back, and the mode afterwards; \<open>wire\<close> numbers the parameter types.\<close>

definition handle_incoming :: "(mav_param_type \<Rightarrow> u8) \<Rightarrow> mav_message \<Rightarrow> u32 \<Rightarrow> mav_msg \<times> u32" where
  "handle_incoming wire msg mode =
     (case msg of
        CommandLong sys cmp c p1 p2 p3 \<Rightarrow>
          if c = MAV_CMD_NAV_RETURN_TO_LAUNCH then (sim_ack c, ARDUCOPTER_MODE_RTL) else (sim_ack c, mode)
      | ParamSet sys cmp pid x ty \<Rightarrow> (MsgParamValue \<lparr>pm_id = pid, pm_value = x, pm_type = wire ty\<rparr>, mode))"

text \<open>Sending stamps a frame with the sequence number and advances it.\<close>

definition send_msg :: "mav_msg \<Rightarrow> autopilot \<Rightarrow> (u8 \<times> mav_msg) \<times> autopilot" where
  "send_msg msg ap = ((ap_seq ap, msg), ap\<lparr>ap_seq := ap_seq ap + 1\<rparr>)"

datatype sim_input = Request mav_message | HeartbeatTick

definition sim_step :: "(mav_param_type \<Rightarrow> u8) \<Rightarrow> sim_input \<Rightarrow> autopilot \<Rightarrow> (u8 \<times> mav_msg) \<times> autopilot" where
  "sim_step wire i ap =
     (case i of
        HeartbeatTick \<Rightarrow> send_msg (MsgHeartbeat (sim_heartbeat (ap_mode ap))) ap
      | Request msg \<Rightarrow> (case handle_incoming wire msg (ap_mode ap) of (reply, mode) \<Rightarrow> send_msg reply (ap\<lparr>ap_mode := mode\<rparr>)))"

fun sim_run :: "(mav_param_type \<Rightarrow> u8) \<Rightarrow> sim_input list \<Rightarrow> autopilot \<Rightarrow> (u8 \<times> mav_msg) list" where
  "sim_run wire [] ap = []"
| "sim_run wire (i # is) ap = (case sim_step wire i ap of (frame, ap') \<Rightarrow> frame # sim_run wire is ap')"

section \<open>What the detector hears\<close>

definition heard :: "instant \<times> mav_msg \<Rightarrow> mon_op list" where
  "heard x = (case x of (t, msg) \<Rightarrow>
     (case msg of
        MsgHeartbeat hb \<Rightarrow> [MonHeartbeat \<lparr>hb_now = t, hb_custom_mode = hm_custom_mode hb, hb_base_mode = hm_base_mode hb,
          hb_system_status = hm_system_status hb, hb_autopilot = hm_autopilot hb\<rparr>]
      | MsgCommandAck a \<Rightarrow> [MonAck t (ack_command a) (ack_result a)]
      | MsgParamValue p \<Rightarrow> [MonParam t (pm_id p) (pm_value p) (pm_type p)]
      | _ \<Rightarrow> []))"

text \<open>It is what the listener records of the message.\<close>

lemma heard_recorded: "record_msg cfg env msg m = mon_run (lc_boot cfg) (heard (rx_record env, msg)) m"
  by (simp add: record_msg_def heard_def split: mav_msg.split)

section \<open>The sever is confirmed\<close>

lemma length_update_same: "k \<in> fst ` set m \<Longrightarrow> length (AList.update k v m) = length m"
  by (induction m) auto

lemma record_param_kept:
  assumes "mon_ok m" and "length (params_by_name m) < 64 \<or> name \<in> fst ` set (params_by_name m)" and "param_name pid = name" "name \<noteq> []"
  shows "last_param_value (record_param_value now boot pid x ty m) name =
     Some \<lparr>echo_value = x, param_type = ty, recv_ns = since_boot_ns now boot, recv_count = saturating_add (echo_count m name) 1\<rparr>"
proof -
  define v where "v = \<lparr>echo_value = x, param_type = ty, recv_ns = since_boot_ns now boot,
      recv_count = saturating_add (echo_count m name) 1\<rparr>"
  have "length (AList.update name v (params_by_name m)) \<le> 64"
  proof (cases "name \<in> fst ` set (params_by_name m)")
    case True
    then show ?thesis using assms(1) length_update_same [OF True, of v]
      by (simp add: mon_ok_def receipt_ok_def RECEIPT_CAP_def)
  next
    case False
    then show ?thesis using assms(2) length_update [of name v "params_by_name m"] by simp
  qed
  then show ?thesis using assms
    by (simp add: record_param_value_def last_param_value_def receipt_put_def evict_oldest_def RECEIPT_CAP_def update_conv'
        v_def echo_count_def Let_def)
qed

text \<open>Only echoes of one parameter, all alike, among what is recorded.\<close>

definition echo_of :: "u8 list \<Rightarrow> f32 \<Rightarrow> u8 \<Rightarrow> mon_op \<Rightarrow> bool" where
  "echo_of pid x ty op = (case op of MonParam t pid' x' ty' \<Rightarrow> pid' = pid \<and> x' = x \<and> ty' = ty | _ \<Rightarrow> True)"

definition room_for :: "u8 list \<Rightarrow> mav_monitor \<Rightarrow> bool" where
  "room_for name m \<longleftrightarrow> length (params_by_name m) < 64 \<or> name \<in> fst ` set (params_by_name m)"

lemma room_for_present: "last_param_value m name = Some e \<Longrightarrow> room_for name m"
  by (auto simp: room_for_def last_param_value_def dest!: map_of_SomeD intro: rev_image_eqI)

lemma echoes_recorded:
  assumes "mon_ok m" and "room_for name m" and "name \<noteq> []" "param_name pid = name"
    and "\<forall>op\<in>set ops. echo_of pid x ty op \<and> (\<forall>t p y k. op = MonParam t p y k \<longrightarrow> sent < since_boot_ns t boot)"
    and "unat (echo_count m name) + length (filter (is_echo_of name) ops) < 2 ^ 64"
  shows "unat (echo_count (mon_run boot ops m) name) = unat (echo_count m name) + length (filter (is_echo_of name) ops)
    \<and> (filter (is_echo_of name) ops \<noteq> [] \<or> (\<exists>e. last_param_value m name = Some e \<and> echo_value e = x \<and> param_type e = ty \<and> sent < recv_ns e)
        \<longrightarrow> (\<exists>e. last_param_value (mon_run boot ops m) name = Some e \<and> echo_value e = x \<and> param_type e = ty \<and> sent < recv_ns e))"
  using assms(1,2,5,6)
proof (induction ops arbitrary: m)
  case (Cons op ops)
  let ?m = "mon_apply boot op m"
  have ok: "mon_ok ?m" using mon_ok_apply [OF Cons.prems(1)] .
  show ?case
  proof (cases op)
    case (MonParam t p y k)
    then have op: "op = MonParam t pid x ty" "sent < since_boot_ns t boot" and echo: "is_echo_of name op"
      using Cons.prems(3) assms(4) by (auto simp: echo_of_def is_echo_of_def)
    then have l: "last_param_value ?m name = Some \<lparr>echo_value = x, param_type = ty, recv_ns = since_boot_ns t boot,
        recv_count = saturating_add (echo_count m name) 1\<rparr>"
      using record_param_kept [of m name pid t boot x ty] Cons.prems(1,2) assms(3,4) by (simp add: room_for_def)
    then have c: "unat (echo_count ?m name) = unat (echo_count m name) + 1"
      using Cons.prems(4) echo by (simp add: echo_count_def unat_saturating_add)
    from Cons.IH [OF ok room_for_present [OF l]] Cons.prems(3,4) c echo l op(2) show ?thesis by auto
  next
    case (MonHeartbeat hb)
    then have "params_by_name ?m = params_by_name m" by simp
    with Cons.IH [OF ok] Cons.prems(2-4) MonHeartbeat show ?thesis
      by (simp add: room_for_def echo_count_def last_param_value_def is_echo_of_def)
  next
    case (MonAck t a r)
    then have "params_by_name ?m = params_by_name m" by simp
    with Cons.IH [OF ok] Cons.prems(2-4) MonAck show ?thesis
      by (simp add: room_for_def echo_count_def last_param_value_def is_echo_of_def)
  next
    case (MonSource a r)
    then have "params_by_name ?m = params_by_name m" by simp
    with Cons.IH [OF ok] Cons.prems(2-4) MonSource show ?thesis
      by (simp add: room_for_def echo_count_def last_param_value_def is_echo_of_def)
  qed
qed auto

text \<open>What the autopilot sends, in terms of what it was asked.\<close>

lemma sim_replies:
  assumes "x \<in> set (map snd (sim_run wire inputs ap))"
  obtains (beat) mode where "x = MsgHeartbeat (sim_heartbeat mode)"
  | (ack) sys cmp c p1 p2 p3 where "Request (CommandLong sys cmp c p1 p2 p3) \<in> set inputs" "x = sim_ack c"
  | (echo) sys cmp pid v ty where "Request (ParamSet sys cmp pid v ty) \<in> set inputs"
      "x = MsgParamValue \<lparr>pm_id = pid, pm_value = v, pm_type = wire ty\<rparr>"
  using assms
proof (induction inputs arbitrary: ap thesis)
  case (Cons i inputs)
  show ?case
  proof (cases "x = snd (fst (sim_step wire i ap))")
    case True
    show ?thesis
    proof (cases i)
      case HeartbeatTick
      then show ?thesis using True Cons.prems(1) by (simp add: sim_step_def send_msg_def)
    next
      case (Request msg)
      show ?thesis
      proof (cases msg)
        case (CommandLong sys cmp c p1 p2 p3)
        then show ?thesis using True Cons.prems(2) [of sys cmp c p1 p2 p3] Request
          by (simp add: sim_step_def handle_incoming_def send_msg_def split: if_splits)
      next
        case (ParamSet sys cmp pid v ty)
        then show ?thesis using True Cons.prems(3) [of sys cmp pid v ty] Request
          by (simp add: sim_step_def handle_incoming_def send_msg_def)
      qed
    qed
  next
    case False
    obtain f ap' where "sim_step wire i ap = (f, ap')" by (metis surj_pair)
    with False have "x \<in> set (map snd (sim_run wire inputs (snd (sim_step wire i ap))))"
      using Cons.prems(4) by simp
    then show ?thesis using Cons.IH Cons.prems(1-3) by (metis list.set_intros(2))
  qed
qed simp

definition is_param_value :: "mav_msg \<Rightarrow> bool" where
  "is_param_value x = (case x of MsgParamValue _ \<Rightarrow> True | _ \<Rightarrow> False)"

definition heard_all :: "(instant \<times> mav_msg) list \<Rightarrow> mon_op list" where
  "heard_all rx = concat (map heard rx)"

lemma zero_confirms: "flt (fabs (FNum 0)) SEVER_CONFIRMED_EPS"
proof -
  have "bound_ok B32 (of_int 1 / 2 ^ 1)" by (intro bound_ok_dyadic) simp_all
  then have "fround B32 False (1 / 2) = FNum (1 / 2)" by (intro fround_exact) (simp_all add: bound_ok_def)
  then show ?thesis by (simp add: SEVER_CONFIRMED_EPS_def lit_def)
qed

text \<open>
  C32. A sever that the autopilot carries out is confirmed: the controller sends its three
  PARAM_SETs, the autopilot is asked for nothing else but commands, and of its answers any may
  be lost on the way, as long as two echoes arrive, in whatever company of heartbeats and
  acknowledgements; then the first poll of the read-back after them answers true.
\<close>

theorem sever_confirmed_by_autopilot:
  assumes "mav_sever_gps send t0 m c = Some (r, msgs, c1)" and "0 < since_boot_ns t0 (link_boot c)"
    and "mon_ok m" and "room_for (fst (sever_gps_param (profile c))) m"
    and "\<forall>q. Request q \<in> set inputs \<longrightarrow> q \<in> set msgs \<or> (\<exists>sys cmp cmd p1 p2 p3. q = CommandLong sys cmp cmd p1 p2 p3)"
    and "subseq (map snd rx) (map snd (sim_run wire inputs ap))"
    and "\<forall>(t, x)\<in>set rx. since_boot_ns t0 (link_boot c) < since_boot_ns t (link_boot c)"
    and "2 \<le> length (filter is_param_value (map snd rx))"
    and "unat (echo_count m (fst (sever_gps_param (profile c)))) + length rx < 2 ^ 64"
  shows "mav_verify_sever wire start ((mon_run (link_boot c) (heard_all rx) m, now) # polls) c1 = Some True"
proof -
  obtain name ty where nt: "sever_gps_param (profile c) = (name, ty)" by (metis surj_pair)
  have name: "name \<noteq> []" using sever_param_bytes [of "profile c"] by (simp add: nt)
  from sever_gps_sends [of send t0 m c] nt assms(1) obtain pid where
    msgs: "msgs = replicate 3 (ParamSet (target_system c) (target_component c) pid (FNum 0) ty)"
    and c1: "c1 = c\<lparr>sever_echo_baseline := echo_count m name, sever_sent_at_ns := since_boot_ns t0 (link_boot c)\<rparr>"
    and pid: "param_name pid = name" by auto
  let ?ops = "heard_all rx"
  have each: "echo_of pid (FNum 0) (wire ty) op \<and> (\<forall>t p y k. op = MonParam t p y k \<longrightarrow> since_boot_ns t0 (link_boot c) < since_boot_ns t (link_boot c))"
    if "op \<in> set ?ops" for op
  proof -
    have "op \<in> (\<Union>z\<in>set rx. set (heard z))" using that by (simp add: heard_all_def)
    then obtain z where z: "z \<in> set rx" "op \<in> set (heard z)" by (rule UN_E)
    obtain t x where "z = (t, x)" by (cases z)
    with z have x: "(t, x) \<in> set rx" "op \<in> set (heard (t, x))" by simp_all
    then have "x \<in> set (map snd rx)" by force
    then have "x \<in> set (map snd (sim_run wire inputs ap))" using list_emb_set [OF assms(6)] by metis
    then show ?thesis
    proof (cases rule: sim_replies)
      case (echo sys cmp pid' v ty')
      then have "pid' = pid" "v = FNum 0" "ty' = ty" using assms(5) msgs by (force simp: in_set_replicate)+
      with echo(2) x assms(7) show ?thesis by (auto simp: heard_def echo_of_def)
    qed (use x in \<open>auto simp: heard_def echo_of_def sim_ack_def\<close>)
  qed
  have count: "filter (is_echo_of name) (heard_all rx) = filter (\<lambda>op. \<exists>t p y k. op = MonParam t p y k) (heard_all rx)"
  proof (rule filter_cong [OF refl])
    fix op assume "op \<in> set (heard_all rx)"
    from each [OF this] pid show "is_echo_of name op \<longleftrightarrow> (\<exists>t p y k. op = MonParam t p y k)"
      by (cases op) (simp_all add: is_echo_of_def echo_of_def)
  qed
  have "length (filter (\<lambda>op. \<exists>t p y k. op = MonParam t p y k) (heard_all rx)) = length (filter is_param_value (map snd rx))"
    by (induction rx) (auto simp: heard_all_def heard_def is_param_value_def split: mav_msg.split)
  then have n: "length (filter (is_echo_of name) ?ops) = length (filter is_param_value (map snd rx))"
    by (simp add: count)
  have "length (filter is_param_value (map snd rx)) \<le> length rx" by (metis length_filter_le length_map)
  then have "unat (echo_count m name) + length (filter (is_echo_of name) ?ops) < 2 ^ 64"
    using assms(9) unfolding n nt fst_conv by linarith
  from echoes_recorded [OF assms(3) _ name pid _ this, of "FNum 0" "wire ty" "since_boot_ns t0 (link_boot c)" "link_boot c"]
  obtain e where e: "last_param_value (mon_run (link_boot c) ?ops m) name = Some e" "echo_value e = FNum 0"
      "param_type e = wire ty" "since_boot_ns t0 (link_boot c) < recv_ns e"
    and rc: "unat (echo_count (mon_run (link_boot c) ?ops m) name) = unat (echo_count m name) + length (filter (is_echo_of name) ?ops)"
    using each n assms(4,8) nt by fastforce
  have "2 \<le> unat (saturating_sub (recv_count e) (echo_count m name))"
    using rc n assms(8) e(1) by (simp add: echo_count_def unat_saturating_sub)
  then have "sever_echo_confirms e (since_boot_ns t0 (link_boot c)) (echo_count m name) (wire ty)"
    using e zero_confirms by (simp add: sever_echo_confirms_def Let_def SEVER_VERIFY_DWELL_ECHOES_def word_le_nat_alt)
  then show ?thesis
    using e(1) nt assms(2) by (simp add: mav_verify_sever_def c1 Let_def)
qed

section \<open>The return is confirmed\<close>

definition rtl_beat :: mav_msg where
  "rtl_beat = MsgHeartbeat (sim_heartbeat ARDUCOPTER_MODE_RTL)"

definition is_beat :: "mav_msg \<Rightarrow> bool" where
  "is_beat x = (case x of MsgHeartbeat _ \<Rightarrow> True | _ \<Rightarrow> False)"

text \<open>Once a heartbeat shows RTL, all later ones do.\<close>

definition stays_in_rtl :: "mav_msg list \<Rightarrow> bool" where
  "stays_in_rtl xs \<longleftrightarrow> sorted_wrt (\<lambda>a b. a = rtl_beat \<and> is_beat b \<longrightarrow> b = rtl_beat) xs"

lemma sim_step_rtl: "ap_mode ap = ARDUCOPTER_MODE_RTL \<Longrightarrow> sim_step wire i ap = (f, ap')
   \<Longrightarrow> ap_mode ap' = ARDUCOPTER_MODE_RTL \<and> (is_beat (snd f) \<longrightarrow> snd f = rtl_beat)"
  by (auto simp: sim_step_def handle_incoming_def send_msg_def is_beat_def sim_ack_def rtl_beat_def
      split: sim_input.splits mav_message.splits if_splits)

lemma sim_run_rtl: "ap_mode ap = ARDUCOPTER_MODE_RTL \<Longrightarrow> x \<in> set (map snd (sim_run wire inputs ap)) \<Longrightarrow> is_beat x \<Longrightarrow> x = rtl_beat"
proof (induction inputs arbitrary: ap)
  case (Cons i inputs)
  obtain f ap' where s: "sim_step wire i ap = (f, ap')" by (metis surj_pair)
  with Cons sim_step_rtl [OF Cons.prems(1) s] show ?case by auto
qed simp

lemma sim_run_stays: "stays_in_rtl (map snd (sim_run wire inputs ap))"
proof (induction inputs arbitrary: ap)
  case (Cons i inputs)
  obtain f ap' where s: "sim_step wire i ap = (f, ap')" by (metis surj_pair)
  have "ap_mode ap' = ARDUCOPTER_MODE_RTL" if "snd f = rtl_beat"
    using that s by (auto simp: sim_step_def handle_incoming_def send_msg_def sim_ack_def rtl_beat_def sim_heartbeat_def
        split: sim_input.splits mav_message.splits if_splits)
  then show ?case using Cons.IH [of ap'] s sim_run_rtl [of ap'] by (auto simp: stays_in_rtl_def)
qed (simp add: stays_in_rtl_def)

lemma sorted_wrt_subseq: "subseq xs ys \<Longrightarrow> sorted_wrt R ys \<Longrightarrow> sorted_wrt R xs"
proof (induction rule: list_emb.induct)
  case (list_emb_Cons2 x y xs ys)
  then show ?case using list_emb_set [OF list_emb_Cons2(2)] by (auto; metis)
qed auto

definition ack_room :: "mav_monitor \<Rightarrow> bool" where
  "ack_room m \<longleftrightarrow> length (acks_by_cmd m) < 64 \<or> MAV_CMD_NAV_RETURN_TO_LAUNCH_ID \<in> fst ` set (acks_by_cmd m)"

text \<open>What the monitor shows, given which answers of the autopilot it has recorded.\<close>

definition shows_return :: "u64 \<Rightarrow> bool \<Rightarrow> bool \<Rightarrow> mav_monitor \<Rightarrow> bool" where
  "shows_return sent acked beaten m \<longleftrightarrow>
     (acked \<longrightarrow> (\<exists>ns > sent. last_ack_for_cmd m MAV_CMD_NAV_RETURN_TO_LAUNCH_ID = Some (MAV_RESULT_ACCEPTED, ns)))
     \<and> (if beaten then current_custom_mode m = ARDUCOPTER_MODE_RTL \<and> sent < mode_changed_at_ns m \<and> is_armed m
        else current_custom_mode m \<noteq> ARDUCOPTER_MODE_RTL)"

definition return_answer :: "mav_msg \<Rightarrow> bool" where
  "return_answer x \<longleftrightarrow> (\<exists>mode. x = MsgHeartbeat (sim_heartbeat mode)) \<or> x = sim_ack MAV_CMD_NAV_RETURN_TO_LAUNCH \<or> is_param_value x"

lemma record_ack_kept:
  assumes "mon_ok m" and "ack_room m"
  shows "last_ack_for_cmd (record_ack t boot MAV_CMD_NAV_RETURN_TO_LAUNCH_ID res m) MAV_CMD_NAV_RETURN_TO_LAUNCH_ID = Some (res, since_boot_ns t boot)"
    and "ack_room (record_ack t boot MAV_CMD_NAV_RETURN_TO_LAUNCH_ID res m)"
proof -
  let ?c = MAV_CMD_NAV_RETURN_TO_LAUNCH_ID and ?v = "(res, since_boot_ns t boot)"
  have "length (AList.update ?c ?v (acks_by_cmd m)) \<le> 64"
  proof (cases "?c \<in> fst ` set (acks_by_cmd m)")
    case True
    then show ?thesis using assms(1) length_update_same [OF True, of ?v]
      by (simp add: mon_ok_def receipt_ok_def RECEIPT_CAP_def)
  next
    case False
    then show ?thesis using assms(2) length_update [of ?c ?v "acks_by_cmd m"] by (simp add: ack_room_def)
  qed
  then have "acks_by_cmd (record_ack t boot ?c res m) = AList.update ?c ?v (acks_by_cmd m)"
    by (simp add: record_ack_def receipt_put_def evict_oldest_def RECEIPT_CAP_def Let_def)
  then show "last_ack_for_cmd (record_ack t boot ?c res m) ?c = Some ?v" and "ack_room (record_ack t boot ?c res m)"
    by (simp_all add: last_ack_for_cmd_def update_conv' ack_room_def dom_update)
qed

lemma heard_beat:
  "current_custom_mode (mon_run boot (heard (t, MsgHeartbeat (sim_heartbeat mode))) m) = mode"
  "mode_changed_at_ns (mon_run boot (heard (t, MsgHeartbeat (sim_heartbeat mode))) m)
     = (if current_custom_mode m \<noteq> mode then since_boot_ns t boot else mode_changed_at_ns m)"
  "is_armed (mon_run boot (heard (t, MsgHeartbeat (sim_heartbeat mode))) m)"
  "acks_by_cmd (mon_run boot (heard (t, MsgHeartbeat (sim_heartbeat mode))) m) = acks_by_cmd m"
  by (simp_all add: heard_def sim_heartbeat_def is_armed_def MAV_MODE_FLAG_CUSTOM_MODE_ENABLED_def MAV_MODE_FLAG_SAFETY_ARMED_def)

lemma return_heard:
  assumes "mon_ok m" and "ack_room m" and "current_custom_mode m \<noteq> ARDUCOPTER_MODE_RTL"
    and "\<forall>(t, x)\<in>set rx. sent < since_boot_ns t boot \<and> return_answer x" and "stays_in_rtl (map snd rx)"
  shows "shows_return sent (sim_ack MAV_CMD_NAV_RETURN_TO_LAUNCH \<in> snd ` set rx) (rtl_beat \<in> snd ` set rx) (mon_run boot (heard_all rx) m)
    \<and> ack_room (mon_run boot (heard_all rx) m)"
  using assms(4,5)
proof (induction rx rule: rev_induct)
  case Nil
  then show ?case using assms(2,3) by (simp add: heard_all_def shows_return_def)
next
  case (snoc z rx)
  obtain t x where z: "z = (t, x)" by (cases z)
  let ?m = "mon_run boot (heard_all rx) m"
  have ok: "mon_ok ?m" using mon_ok_run [OF assms(1)] .
  have ih: "shows_return sent (sim_ack MAV_CMD_NAV_RETURN_TO_LAUNCH \<in> snd ` set rx) (rtl_beat \<in> snd ` set rx) ?m" "ack_room ?m"
    using snoc by (auto simp: stays_in_rtl_def sorted_wrt_append)
  have t: "sent < since_boot_ns t boot" and "return_answer x" using snoc.prems(1) z by auto
  have run: "mon_run boot (heard_all (rx @ [z])) m = mon_run boot (heard (t, x)) ?m" by (simp add: heard_all_def z)
  from \<open>return_answer x\<close> consider (beat) mode where "x = MsgHeartbeat (sim_heartbeat mode)"
    | (ack) "x = sim_ack MAV_CMD_NAV_RETURN_TO_LAUNCH" | (param) "is_param_value x"
    by (auto simp: return_answer_def)
  then show ?case
  proof cases
    case beat
    have "x = rtl_beat" if "rtl_beat \<in> snd ` set rx"
      using snoc.prems(2) that beat by (auto simp: stays_in_rtl_def sorted_wrt_append z is_beat_def)
    moreover have "x = rtl_beat \<longleftrightarrow> mode = ARDUCOPTER_MODE_RTL" by (simp add: beat rtl_beat_def sim_heartbeat_def)
    moreover have "sim_ack MAV_CMD_NAV_RETURN_TO_LAUNCH \<noteq> x" by (simp add: beat sim_ack_def)
    moreover define q where "q = mon_run boot (heard (t, x)) ?m"
    moreover have "current_custom_mode q = mode" "is_armed q" "acks_by_cmd q = acks_by_cmd ?m"
      "mode_changed_at_ns q = (if current_custom_mode ?m \<noteq> mode then since_boot_ns t boot else mode_changed_at_ns ?m)"
      by (simp_all add: q_def beat heard_beat)
    ultimately show ?thesis
      using ih t unfolding run q_def [symmetric] shows_return_def last_ack_for_cmd_def ack_room_def
      by (cases "rtl_beat \<in> snd ` set rx") (auto simp: z)
  next
    case ack
    moreover define q where "q = mon_run boot (heard (t, x)) ?m"
    moreover have "q = record_ack t boot MAV_CMD_NAV_RETURN_TO_LAUNCH_ID MAV_RESULT_ACCEPTED ?m"
      by (simp add: q_def ack heard_def sim_ack_def command_id_def)
    then have "current_custom_mode q = current_custom_mode ?m" "is_armed q = is_armed ?m"
      "mode_changed_at_ns q = mode_changed_at_ns ?m" "ack_room q"
      "last_ack_for_cmd q MAV_CMD_NAV_RETURN_TO_LAUNCH_ID = Some (MAV_RESULT_ACCEPTED, since_boot_ns t boot)"
      using record_ack_kept [OF ok ih(2), of t boot MAV_RESULT_ACCEPTED] by (simp_all add: record_ack_def is_armed_def Let_def)
    moreover have "rtl_beat \<noteq> x" by (simp add: ack sim_ack_def rtl_beat_def)
    ultimately show ?thesis using ih t unfolding run q_def [symmetric] shows_return_def by (auto simp: z)
  next
    case param
    moreover define q where "q = mon_run boot (heard (t, x)) ?m"
    moreover have "current_custom_mode q = current_custom_mode ?m" "is_armed q = is_armed ?m"
      "mode_changed_at_ns q = mode_changed_at_ns ?m" "acks_by_cmd q = acks_by_cmd ?m"
      using param by (simp_all add: q_def heard_def is_param_value_def record_param_value_def is_armed_def Let_def split: mav_msg.splits)
    moreover have "rtl_beat \<noteq> x" "sim_ack MAV_CMD_NAV_RETURN_TO_LAUNCH \<noteq> x"
      using param by (auto simp: sim_ack_def rtl_beat_def is_param_value_def)
    ultimately show ?thesis
      using ih t unfolding run q_def [symmetric] shows_return_def last_ack_for_cmd_def ack_room_def by (auto simp: z)
  qed
qed

section \<open>The polls\<close>

lemma rtb_loop_late:
  assumes "\<forall>p\<in>set late. ack_ok v sent p \<and> causal_mode v sent p" and "sorted_wrt (<) (hb # map poll_hb late)"
    and "\<forall>p\<in>set (butlast late). p_now p < dl" and "3 \<le> unat cnt + length late" and "late \<noteq> []"
  shows "rtb_loop v sent dl cnt hb late = Some True"
  using assms
proof (induction late arbitrary: cnt hb)
  case (Cons p late)
  let ?d = "next_dwell v hb p cnt"
  have "mode_is_rtl v p" "hb < poll_hb p" using Cons.prems(1,2) by (auto simp: causal_mode_def)
  then have d: "?d = saturating_add cnt 1" by (simp add: next_dwell_def)
  then have ud: "unat ?d = min 255 (unat cnt + 1)" by (simp add: unat_saturating_add min_def)
  show ?case
  proof (cases "RTB_VERIFY_DWELL_POLLS \<le> ?d")
    case True
    then show ?thesis using Cons.prems(1) by (simp add: Let_def)
  next
    case False
    then have "unat ?d < 3" by (simp add: RTB_VERIFY_DWELL_POLLS_def word_le_nat_alt)
    then have "unat ?d = unat cnt + 1" "late \<noteq> []" using ud Cons.prems(4) by (auto simp: min_def split: if_splits)
    then show ?thesis
      using Cons.IH [of "poll_hb p" ?d] Cons.prems False by (auto simp: Let_def)
  qed
qed simp

lemma rtb_loop_early:
  assumes "\<And>cnt. rtb_loop v sent dl cnt (List.last (hb # map poll_hb early)) late = Some True" and "\<forall>p\<in>set early. p_now p < dl"
  shows "rtb_loop v sent dl cnt hb (early @ late) = Some True"
  using assms
proof (induction early arbitrary: cnt hb)
  case (Cons p early)
  then show ?case using Cons.IH [of "poll_hb p"] by (auto simp: Let_def)
qed simp

text \<open>A poll whose loads all come after the first \<open>K\<close> messages; the listener may record more between them.\<close>

definition reads_after :: "instant \<Rightarrow> mav_monitor \<Rightarrow> (instant \<times> mav_msg) list \<Rightarrow> nat \<Rightarrow> rtb_poll \<Rightarrow> bool" where
  "reads_after boot m rx K p \<longleftrightarrow>
     (\<forall>f \<in> {p_ack, p_changed, p_mode, p_armed, p_hb}. \<exists>k \<ge> K. f p = mon_run boot (heard_all (take k rx)) m)"

text \<open>
  C10. A return that the autopilot flies is confirmed: the controller asks an ArduCopter that was
  not in RTL to return, the autopilot is asked for nothing else but parameters, and of its answers
  any may be lost as long as an acknowledgement and a heartbeat in RTL arrive. Then the read-back
  answers true as soon as three of its polls, before the window of 10 s is over, read the monitor
  after that and each find a newer heartbeat than the poll before, whatever is recorded between
  the loads of a poll.
\<close>

theorem return_confirmed_by_autopilot:
  assumes "mav_engage_rtb send t0 c = (r, msgs, c1)" and "profile c = ArduCopter" and "0 < since_boot_ns t0 (link_boot c)"
    and "mon_ok m" and "ack_room m" and "current_custom_mode m \<noteq> ARDUCOPTER_MODE_RTL"
    and "\<forall>q. Request q \<in> set inputs \<longrightarrow> q \<in> set msgs \<or> (\<exists>sys cmp pid x ty. q = ParamSet sys cmp pid x ty)"
    and "subseq (map snd rx) (map snd (sim_run wire inputs ap))"
    and "\<forall>(t, x)\<in>set rx. since_boot_ns t0 (link_boot c) < since_boot_ns t (link_boot c)"
    and "sim_ack MAV_CMD_NAV_RETURN_TO_LAUNCH \<in> snd ` set (take K rx)" and "rtl_beat \<in> snd ` set (take K rx)"
    and "\<forall>p\<in>set late. reads_after (link_boot c) m rx K p" and "3 \<le> length late"
    and "sorted_wrt (<) (List.last (last_heartbeat_ns m1 # map poll_hb early) # map poll_hb late)"
    and "\<forall>p\<in>set (early @ butlast late). p_now p < start + RTB_VERIFY_WINDOW"
  shows "mav_verify_rtb start m1 (early @ late) c1 = Some True"
proof -
  let ?sent = "since_boot_ns t0 (link_boot c)"
  have c1: "c1 = c\<lparr>rtb_sent_at_ns := ?sent\<rparr>"
    and msgs: "msgs = replicate 3 (CommandLong (target_system c) (target_component c) MAV_CMD_NAV_RETURN_TO_LAUNCH (FNum 0) (FNum 0) (FNum 0))"
    using assms(1,2) by (auto simp: mav_engage_rtb_def now_ns_def send_repeated_eq engage_rtb_message_def Let_def)
  have answers: "return_answer x" if "x \<in> set (map snd rx)" for x
  proof -
    have "x \<in> set (map snd (sim_run wire inputs ap))" using list_emb_set [OF assms(8) that] by metis
    then show ?thesis
    proof (cases rule: sim_replies)
      case (ack sys cmp cmd p1 p2 p3)
      then have "cmd = MAV_CMD_NAV_RETURN_TO_LAUNCH" using assms(7) msgs by force
      then show ?thesis using ack by (simp add: return_answer_def)
    qed (auto simp: return_answer_def is_param_value_def)
  qed
  have stays: "stays_in_rtl (map snd rx)"
    using sorted_wrt_subseq [OF assms(8)] sim_run_stays unfolding stays_in_rtl_def by blast
  have monitor: "shows_return ?sent True True (mon_run (link_boot c) (heard_all (take k rx)) m)" if "K \<le> k" for k
  proof -
    have "snd ` set (take K rx) \<subseteq> snd ` set (take k rx)" using that by (simp add: image_mono set_take_subset_set_take)
    moreover have "\<forall>(t, x)\<in>set (take k rx). ?sent < since_boot_ns t (link_boot c) \<and> return_answer x"
      using assms(9) answers by (fastforce dest: in_set_takeD)
    moreover have "stays_in_rtl (map snd (take k rx))"
      using stays by (simp add: stays_in_rtl_def take_map [symmetric] sorted_wrt_take)
    moreover from calculation(1) have "sim_ack MAV_CMD_NAV_RETURN_TO_LAUNCH \<in> snd ` set (take k rx)" "rtl_beat \<in> snd ` set (take k rx)"
      using assms(10,11) by blast+
    ultimately show ?thesis
      using return_heard [OF assms(4-6), of "take k rx" ?sent "link_boot c"] by simp
  qed
  have "ack_ok ArduCopter ?sent p \<and> causal_mode ArduCopter ?sent p" if "p \<in> set late" for p
  proof -
    have r: "\<And>f. f \<in> {p_ack, p_changed, p_mode, p_armed, p_hb} \<Longrightarrow> shows_return ?sent True True (f p)"
      using assms(12) that monitor unfolding reads_after_def by metis
    from r [of p_ack] r [of p_changed] r [of p_mode] r [of p_armed] show ?thesis
      by (auto simp: shows_return_def ack_ok_def causal_mode_def mode_is_rtl_def expected_ack_cmd_def is_rtl_mode_def)
  qed
  then have "rtb_loop ArduCopter ?sent (start + RTB_VERIFY_WINDOW) cnt (List.last (last_heartbeat_ns m1 # map poll_hb early)) late = Some True" for cnt
    using assms(13-15) by (intro rtb_loop_late) auto
  then show ?thesis
    using rtb_loop_early [of ArduCopter ?sent "start + RTB_VERIFY_WINDOW" "last_heartbeat_ns m1" early late 0] assms(2,3,15)
    by (simp add: mav_verify_rtb_def c1 Let_def)
qed

section \<open>A severed receiver and a return\<close>

text \<open>One echo of the three is lost; heartbeats and an acknowledgement come before the return's read-back.\<close>

definition demo_set :: mav_message where
  "demo_set = ParamSet 1 1 (bytes ''GPS_TYPE'' @ replicate 8 0) (FNum 0) MAV_PARAM_TYPE_INT8"

definition demo_echo :: mav_msg where
  "demo_echo = MsgParamValue \<lparr>pm_id = bytes ''GPS_TYPE'' @ replicate 8 0, pm_value = FNum 0, pm_type = 2\<rparr>"

lemma demo_sever:
  "mav_sever_gps (\<lambda>_. Inr ()) 10 monitor_new (mav_new 0 1 1 ArduCopter) = Some (Inr (), replicate 3 demo_set, sever_controller)"
  by (simp add: send_repeated_eq mav_sever_gps_def sever_gps_param_def mav_new_def param_id_of_def sever_controller_def
      last_param_value_def monitor_new_def now_ns_def since_boot_ns_def demo_set_def
      saturating_duration_since_def nanos_u64_def bytes_def Let_def) (metis)

lemma new_monitor: "params_by_name monitor_new = []" "acks_by_cmd monitor_new = []" "current_custom_mode monitor_new = 0"
    "last_heartbeat_ns monitor_new = 0"
  by (simp_all add: monitor_new_def)

lemma demo_times: "since_boot_ns 10 0 = 10" "since_boot_ns 20 0 = 20" "since_boot_ns 30 0 = 30" "since_boot_ns 40 0 = 40" "since_boot_ns 50 0 = 50"
  by (simp_all add: since_boot_ns_def saturating_duration_since_def nanos_u64_def)

theorem sever_confirmed_by_autopilot_witness:
  "mav_verify_sever (\<lambda>_. 2) 0 [(mon_run 0 (heard_all [(20, demo_echo), (30, demo_echo)]) monitor_new, 0)] sever_controller = Some True"
proof -
  have run: "map snd (sim_run (\<lambda>_. 2) (map Request (replicate 3 demo_set)) autopilot_start) = [demo_echo, demo_echo, demo_echo]"
    by (simp add: numeral_3_eq_3 sim_step_def handle_incoming_def send_msg_def demo_set_def demo_echo_def)
  have "mav_verify_sever (\<lambda>_. 2) 0 [(mon_run (link_boot (mav_new 0 1 1 ArduCopter)) (heard_all [(20, demo_echo), (30, demo_echo)]) monitor_new, 0)]
      sever_controller = Some True"
  proof (rule sever_confirmed_by_autopilot [OF demo_sever])
    show "subseq (map snd [(20, demo_echo), (30, demo_echo)])
        (map snd (sim_run (\<lambda>_. 2) (map Request (replicate 3 demo_set)) autopilot_start))"
      unfolding run by simp
  qed (simp_all add: mav_new_def demo_times mon_ok_new room_for_def new_monitor is_param_value_def demo_echo_def
      echo_count_def last_param_value_def image_iff)
  then show ?thesis by (simp add: mav_new_def)
qed

definition demo_return :: mav_message where
  "demo_return = CommandLong 1 1 MAV_CMD_NAV_RETURN_TO_LAUNCH (FNum 0) (FNum 0) (FNum 0)"

definition demo_heard :: "(instant \<times> mav_msg) list" where
  "demo_heard = [(20, sim_ack MAV_CMD_NAV_RETURN_TO_LAUNCH), (30, rtl_beat), (40, rtl_beat), (50, rtl_beat)]"

definition demo_poll :: "nat \<Rightarrow> rtb_poll" where
  "demo_poll k = (let m = mon_run 0 (heard_all (take k demo_heard)) monitor_new
     in \<lparr>p_ack = m, p_changed = m, p_mode = m, p_armed = m, p_hb = m, p_now = k\<rparr>)"

lemma demo_poll_hb: "poll_hb (demo_poll 2) = 30" "poll_hb (demo_poll 3) = 40" "poll_hb (demo_poll 4) = 50"
  by (simp_all add: poll_hb_def demo_poll_def demo_heard_def heard_all_def heard_def rtl_beat_def sim_ack_def demo_times Let_def)

lemma demo_poll_now: "p_now (demo_poll k) = k"
  by (simp add: demo_poll_def Let_def)

theorem return_confirmed_by_autopilot_witness:
  "mav_verify_rtb 0 monitor_new [demo_poll 2, demo_poll 3, demo_poll 4] (sent_controller\<lparr>rtb_sent_at_ns := 10\<rparr>) = Some True"
proof -
  let ?c = "mav_new 0 1 1 ArduCopter"
  have sent: "mav_engage_rtb (\<lambda>_. Inr ()) 10 ?c = (Inr (), replicate 3 demo_return, sent_controller\<lparr>rtb_sent_at_ns := 10\<rparr>)"
    by (simp add: mav_engage_rtb_def send_repeated_eq engage_rtb_message_def mav_new_def now_ns_def demo_times demo_return_def
        sent_controller_def Let_def) (metis)
  let ?inputs = "[Request demo_return, HeartbeatTick, HeartbeatTick, HeartbeatTick]"
  have run: "map snd (sim_run (\<lambda>_. 2) ?inputs autopilot_start) = map snd demo_heard"
    by (simp add: sim_step_def handle_incoming_def send_msg_def demo_return_def demo_heard_def rtl_beat_def)
  have "reads_after 0 monitor_new demo_heard 2 (demo_poll k)" if "2 \<le> k" for k
    using that by (auto simp: reads_after_def demo_poll_def Let_def)
  then have reads: "\<forall>p\<in>set [demo_poll 2, demo_poll 3, demo_poll 4]. reads_after (link_boot ?c) monitor_new demo_heard 2 p"
    by (simp add: mav_new_def)
  have "mav_verify_rtb 0 monitor_new ([] @ [demo_poll 2, demo_poll 3, demo_poll 4]) (sent_controller\<lparr>rtb_sent_at_ns := 10\<rparr>) = Some True"
  proof (rule return_confirmed_by_autopilot [OF sent _ _ _ _ _ _ _ _ _ _ reads])
    show "subseq (map snd demo_heard) (map snd (sim_run (\<lambda>_. 2) ?inputs autopilot_start))" unfolding run by simp
    show "sim_ack MAV_CMD_NAV_RETURN_TO_LAUNCH \<in> snd ` set (take 2 demo_heard)" "rtl_beat \<in> snd ` set (take 2 demo_heard)"
      by (simp_all add: demo_heard_def)
    show "\<forall>(t, x)\<in>set demo_heard. since_boot_ns 10 (link_boot ?c) < since_boot_ns t (link_boot ?c)"
      by (simp add: demo_heard_def mav_new_def demo_times)
  qed (simp_all add: mav_new_def demo_times mon_ok_new ack_room_def new_monitor demo_poll_hb ARDUCOPTER_MODE_RTL_def
      demo_poll_now RTB_VERIFY_WINDOW_def)
  then show ?thesis by simp
qed

end
