(* ===== verification/Simulator.thy ===== *)
theory Simulator
  imports Nav
begin

text \<open>
  The simulated sensors, \<open>src/src/sim/\<close>: ground-truth trajectories, the synthetic sources
  sampled from them with noise, and the injector that overlays an attack on a GPS source.
  The functions of the mathematical library that are not correctly rounded are parameters
  (\<open>sim_math\<close> with the \<open>nav_math\<close> of the reckoner), and so are the uniform draws of the
  random generator, given as a stream of pairs, and the time stamps.
\<close>

record sim_math =
  s_nav :: nav_math
  atan2_64 :: "f64 \<Rightarrow> f64 \<Rightarrow> f64"
  ln_64 :: "f64 \<Rightarrow> f64"

definition to_degrees :: "f64 \<Rightarrow> f64" where
  "to_degrees a = mul64 a (div64 (FNum 180) (pi_fl B64))"

text \<open>The operator \<open>%\<close> on floats: the exact remainder of truncated division, with the sign of the dividend.\<close>

definition frem :: "fl \<Rightarrow> fl \<Rightarrow> fl" where
  "frem a b =
     (if is_nan a \<or> is_nan b \<or> \<not> is_finite a then FNaN
      else if \<not> is_finite b then a
      else if fval b = 0 then FNaN
      else let r = fval a - fval b * of_int (ftrunc (fval a / fval b))
           in if r = 0 then (if sign_neg a then FNegZero else FNum 0) else FNum r)"

definition rem_euclid :: "f64 \<Rightarrow> f64 \<Rightarrow> f64" where
  "rem_euclid a b = (let r = frem a b in if flt r (FNum 0) then add64 r (fabs b) else r)"

section \<open>Trajectories\<close>

record ground_truth =
  t_secs :: f64
  gt_pos :: ned_pos
  gt_vel :: ned_vel
  gt_acc :: ned
  gt_q :: quat
  gt_gyro :: ned

definition LinearNorth :: "f64 \<Rightarrow> f64 \<Rightarrow> ground_truth" where
  "LinearNorth speed t =
     \<lparr>t_secs = t, gt_pos = ned_default\<lparr>ned_n := mul64 speed t\<rparr>, gt_vel = ned_default\<lparr>ned_n := speed\<rparr>,
      gt_acc = ned_default, gt_q = \<lparr>qw = FNum 1, qi = FNum 0, qj = FNum 0, qk = FNum 0\<rparr>, gt_gyro = ned_default\<rparr>"

definition CircleHorizontal :: "sim_math \<Rightarrow> f64 \<Rightarrow> f64 \<Rightarrow> f64 \<Rightarrow> ground_truth" where
  "CircleHorizontal sm v radius t =
     (let r = fmax radius (lit B64 (1 / 1000));
          omega = div64 v r;
          theta = mul64 omega t;
          s = sin64 (s_nav sm) theta; c = cos64 (s_nav sm) theta;
          half = to_f32 (mul64 theta (FNum (1 / 2)))
      in \<lparr>t_secs = t,
          gt_pos = \<lparr>ned_n = mul64 r s, ned_e = mul64 r (sub64 (FNum 1) c), ned_d = FNum 0\<rparr>,
          gt_vel = \<lparr>ned_n = mul64 v c, ned_e = mul64 v s, ned_d = FNum 0\<rparr>,
          gt_acc = \<lparr>ned_n = mul64 (mul64 (fneg v) omega) s, ned_e = mul64 (mul64 v omega) c, ned_d = FNum 0\<rparr>,
          gt_q = \<lparr>qw = cos32 (s_nav sm) half, qi = FNum 0, qj = FNum 0, qk = sin32 (s_nav sm) half\<rparr>,
          gt_gyro = ned_default\<lparr>ned_d := omega\<rparr>\<rparr>)"

definition Static :: "f64 \<Rightarrow> ground_truth" where
  "Static t = \<lparr>t_secs = t, gt_pos = ned_default, gt_vel = ned_default, gt_acc = ned_default,
     gt_q = \<lparr>qw = FNum 1, qi = FNum 0, qj = FNum 0, qk = FNum 0\<rparr>, gt_gyro = ned_default\<rparr>"

section \<open>Synthetic sources\<close>

text \<open>Box-Muller over one pair of uniform draws.\<close>

definition gauss :: "sim_math \<Rightarrow> f64 \<times> f64 \<Rightarrow> f64" where
  "gauss sm u = mul64 (fsqrt B64 (mul64 (FNum (- 2)) (ln_64 sm (fst u))))
     (cos64 (s_nav sm) (mul64 (mul64 (FNum 2) (pi_fl B64)) (snd u)))"

definition ned_to_lla :: "nav_math \<Rightarrow> f64 \<Rightarrow> f64 \<Rightarrow> f64 \<Rightarrow> f64 \<Rightarrow> f64 \<times> f64" where
  "ned_to_lla mm n e lat0 lon0 =
     (let lat0_rad = to_radians B64 lat0;
          dlat_deg = to_degrees (div64 n R_EARTH_M);
          dlon_deg = to_degrees (div64 e (mul64 R_EARTH_M (cos64 mm lat0_rad)))
      in (add64 lat0 dlat_deg, add64 lon0 dlon_deg))"

record synthetic_gps =
  sg_traj :: "f64 \<Rightarrow> ground_truth"
  sg_rate_hz :: f32
  sg_pos_sigma_m :: f32
  sg_vel_sigma_mps :: f32
  sg_origin :: "f64 \<times> f64 \<times> f64"
  sg_duration_s :: f32
  sg_start_after_s :: f32

definition synth_fix ::
    "sim_math \<Rightarrow> synthetic_gps \<Rightarrow> f64 \<Rightarrow> timestamp \<Rightarrow> f64 \<times> f64 \<Rightarrow> f64 \<times> f64 \<Rightarrow> f64 \<times> f64 \<Rightarrow> gps_fix" where
  "synth_fix sm g t stamp u1 u2 u3 =
     (let gt = sg_traj g t;
          n_noise = mul64 (gauss sm u1) (sg_pos_sigma_m g);
          e_noise = mul64 (gauss sm u2) (sg_pos_sigma_m g);
          (lat0, lon0, alt0) = sg_origin g;
          (lat, lon) = ned_to_lla (s_nav sm) (add64 (ned_n (gt_pos gt)) n_noise) (add64 (ned_e (gt_pos gt)) e_noise) lat0 lon0;
          vn = ned_n (gt_vel gt); ve = ned_e (gt_vel gt);
          speed = fsqrt B64 (add64 (mul64 vn vn) (mul64 ve ve));
          course = to_degrees (atan2_64 sm ve vn)
      in \<lparr>fix_t = stamp, lat_deg = lat, lon_deg = lon, alt_m = sub64 alt0 (ned_d (gt_pos gt)),
          speed_mps = Some (add64 speed (mul64 (gauss sm u3) (sg_vel_sigma_mps g))),
          course_deg = Some (frem (add64 (frem course (FNum 360)) (FNum 360)) (FNum 360)),
          hdop = Some (lit B32 (9 / 10)), sats = Some 12\<rparr>)"

text \<open>
  The loop of the source. Sleeping for a negative, infinite or NaN time panics; the outcome
  is the fixes so far and how the stream ended, with fuel for the number of turns.
\<close>

datatype stream_end = StreamEnded | StreamPanicked | OutOfFuel

definition sleep_ok :: "f64 \<Rightarrow> bool" where
  "sleep_ok d \<longleftrightarrow> is_finite d \<and> fge d (FNum 0) \<and> flt d (FNum (2 ^ 64))"

definition end_time :: "f32 \<Rightarrow> f64" where
  "end_time duration = add64 duration (lit B64 (1 / 10 ^ 9))"

fun synth_gps_loop ::
    "nat \<Rightarrow> sim_math \<Rightarrow> synthetic_gps \<Rightarrow> (nat \<Rightarrow> timestamp) \<Rightarrow> (nat \<Rightarrow> f64 \<times> f64) \<Rightarrow> nat \<Rightarrow> f64 \<Rightarrow> gps_fix list \<times> stream_end" where
  "synth_gps_loop 0 sm g stamps us k t = ([], OutOfFuel)"
| "synth_gps_loop (Suc n) sm g stamps us k t =
     (if \<not> fle t (end_time (sg_duration_s g)) then ([], StreamEnded)
      else let fx = synth_fix sm g t (stamps k) (us (3 * k)) (us (3 * k + 1)) (us (3 * k + 2));
               dt = div64 (FNum 1) (sg_rate_hz g)
           in if \<not> sleep_ok dt then ([fx], StreamPanicked)
              else let (fxs, e) = synth_gps_loop n sm g stamps us (Suc k) (add64 t dt) in (fx # fxs, e))"

definition synth_gps_stream ::
    "nat \<Rightarrow> sim_math \<Rightarrow> synthetic_gps \<Rightarrow> (nat \<Rightarrow> timestamp) \<Rightarrow> (nat \<Rightarrow> f64 \<times> f64) \<Rightarrow> gps_fix list \<times> stream_end" where
  "synth_gps_stream fuel sm g stamps us =
     (if \<not> sleep_ok (sg_start_after_s g) then ([], StreamPanicked)
      else synth_gps_loop fuel sm g stamps us 0 (sg_start_after_s g))"

record synthetic_imu =
  si_traj :: "f64 \<Rightarrow> ground_truth"
  si_rate_hz :: f32
  si_accel_sigma :: f32
  si_gyro_sigma :: f32
  si_gyro_bias :: vec3
  si_accel_bias :: vec3
  si_duration_s :: f32

text \<open>One noisy axis: value, bias and scaled noise added in this order, in f32.\<close>

definition noisy :: "sim_math \<Rightarrow> f32 \<Rightarrow> f32 \<Rightarrow> f32 \<Rightarrow> f64 \<times> f64 \<Rightarrow> f32" where
  "noisy sm x b sigma u = add32 (add32 x b) (mul32 (to_f32 (gauss sm u)) sigma)"

definition synth_sample :: "sim_math \<Rightarrow> synthetic_imu \<Rightarrow> f64 \<Rightarrow> timestamp \<Rightarrow> (nat \<Rightarrow> f64 \<times> f64) \<Rightarrow> imu_sample" where
  "synth_sample sm g t stamp u =
     (let gt = si_traj g t; rot = rotate_ned_to_body (s_nav sm) (gt_q gt);
          total = \<lparr>v0 = to_f32 (ned_n (gt_acc gt)), v1 = to_f32 (ned_e (gt_acc gt)), v2 = to_f32 (sub64 (ned_d (gt_acc gt)) G)\<rparr>;
          body = rot total;
          gyro = rot \<lparr>v0 = to_f32 (ned_n (gt_gyro gt)), v1 = to_f32 (ned_e (gt_gyro gt)), v2 = to_f32 (ned_d (gt_gyro gt))\<rparr>
      in \<lparr>imu_t = stamp,
          accel_mps2 = \<lparr>v0 = noisy sm (v0 body) (v0 (si_accel_bias g)) (si_accel_sigma g) (u 0),
            v1 = noisy sm (v1 body) (v1 (si_accel_bias g)) (si_accel_sigma g) (u 1),
            v2 = noisy sm (v2 body) (v2 (si_accel_bias g)) (si_accel_sigma g) (u 2)\<rparr>,
          gyro_rps = \<lparr>v0 = noisy sm (v0 gyro) (v0 (si_gyro_bias g)) (si_gyro_sigma g) (u 3),
            v1 = noisy sm (v1 gyro) (v1 (si_gyro_bias g)) (si_gyro_sigma g) (u 4),
            v2 = noisy sm (v2 gyro) (v2 (si_gyro_bias g)) (si_gyro_sigma g) (u 5)\<rparr>\<rparr>)"

fun synth_imu_loop ::
    "nat \<Rightarrow> sim_math \<Rightarrow> synthetic_imu \<Rightarrow> (nat \<Rightarrow> timestamp) \<Rightarrow> (nat \<Rightarrow> f64 \<times> f64) \<Rightarrow> nat \<Rightarrow> f64 \<Rightarrow> imu_sample list \<times> stream_end" where
  "synth_imu_loop 0 sm g stamps us k t = ([], OutOfFuel)"
| "synth_imu_loop (Suc n) sm g stamps us k t =
     (if \<not> fle t (end_time (si_duration_s g)) then ([], StreamEnded)
      else let s = synth_sample sm g t (stamps k) (\<lambda>i. us (6 * k + i));
               dt = div64 (FNum 1) (si_rate_hz g)
           in if \<not> sleep_ok dt then ([s], StreamPanicked)
              else let (ss, e) = synth_imu_loop n sm g stamps us (Suc k) (add64 t dt) in (s # ss, e))"

section \<open>The spoof injector\<close>

datatype spoof_pattern =
    SpClean
  | SpSuddenJump f32 f32 f32
  | SpGradualDrift f32 f32 f32
  | SpFrozen f32
  | SpVelocityInconsistent f32 f32
  | SpAltitudeJump f32 f32
  | SpDropDoppler f32
  | SpConsistentDrift f32 f32 f32

text \<open>Moving a fix by metres: the equirectangular translation of both drifts.\<close>

definition translate_fix :: "nav_math \<Rightarrow> f64 \<Rightarrow> f64 \<Rightarrow> gps_fix \<Rightarrow> gps_fix" where
  "translate_fix mm dn de fx =
     (let lat0 = to_radians B64 (lat_deg fx)
      in fx\<lparr>lat_deg := add64 (lat_deg fx) (to_degrees (div64 dn R_EARTH_M)),
            lon_deg := add64 (lon_deg fx) (to_degrees (div64 de (mul64 R_EARTH_M (cos64 mm lat0))))\<rparr>)"

definition laundered_velocity :: "sim_math \<Rightarrow> f32 \<Rightarrow> f32 \<Rightarrow> gps_fix \<Rightarrow> gps_fix" where
  "laundered_velocity sm drift_n drift_e fx =
     (let (vn_true, ve_true) =
            (case (speed_mps fx, course_deg fx) of
               (Some spd, Some crs) \<Rightarrow>
                 (let c = to_radians B64 crs in (mul64 spd (cos64 (s_nav sm) c), mul64 spd (sin64 (s_nav sm) c)))
             | _ \<Rightarrow> (FNum 0, FNum 0));
          vn = add64 vn_true drift_n; ve = add64 ve_true drift_e
      in fx\<lparr>speed_mps := Some (fsqrt B64 (add64 (mul64 vn vn) (mul64 ve ve))),
            course_deg := Some (rem_euclid (to_degrees (atan2_64 sm ve vn)) (FNum 360))\<rparr>)"

definition drift_time :: "f64 \<Rightarrow> f32 \<Rightarrow> f64" where
  "drift_time elapsed apply_at = fmax (sub64 elapsed apply_at) (FNum 0)"

definition horizontal_offset :: "spoof_pattern \<Rightarrow> f64 \<Rightarrow> f64 \<times> f64" where
  "horizontal_offset p elapsed =
     (case p of
        SpSuddenJump apply_at jn je \<Rightarrow> if fge elapsed apply_at then (jn, je) else (FNum 0, FNum 0)
      | SpGradualDrift apply_at dn de \<Rightarrow> (let t = drift_time elapsed apply_at in (mul64 t dn, mul64 t de))
      | _ \<Rightarrow> (FNum 0, FNum 0))"

definition apply_spoof :: "sim_math \<Rightarrow> spoof_pattern \<Rightarrow> f64 \<Rightarrow> gps_fix \<Rightarrow> gps_fix" where
  "apply_spoof sm p elapsed fx =
     (case p of
        SpVelocityInconsistent apply_at extra \<Rightarrow>
          if fge elapsed apply_at
          then fx\<lparr>speed_mps := Some (add64 (case speed_mps fx of Some v \<Rightarrow> v | None \<Rightarrow> FNum 0) extra)\<rparr> else fx
      | SpAltitudeJump apply_at jump \<Rightarrow>
          if fge elapsed apply_at then fx\<lparr>alt_m := add64 (alt_m fx) jump\<rparr> else fx
      | SpDropDoppler after \<Rightarrow> if fge elapsed after then fx\<lparr>speed_mps := None, course_deg := None\<rparr> else fx
      | SpConsistentDrift apply_at drift_n drift_e \<Rightarrow>
          (let t = drift_time elapsed apply_at
           in if fgt t (FNum 0)
              then laundered_velocity sm drift_n drift_e (translate_fix (s_nav sm) (mul64 t drift_n) (mul64 t drift_e) fx)
              else fx)
      | _ \<Rightarrow>
          (let (dn, de) = horizontal_offset p elapsed
           in if feq dn (FNum 0) \<and> feq de (FNum 0) then fx else translate_fix (s_nav sm) dn de fx))"

text \<open>The stateful stream: the clock starts at the first fix, and a freeze pins the first position after it.\<close>

record injector =
  inj_start :: "instant option"
  inj_frozen_at :: "(f64 \<times> f64) option"

definition injector_new :: injector where
  "injector_new = \<lparr>inj_start = None, inj_frozen_at = None\<rparr>"

definition inject_fix :: "sim_math \<Rightarrow> spoof_pattern \<Rightarrow> instant \<Rightarrow> gps_fix \<Rightarrow> injector \<Rightarrow> gps_fix \<times> injector" where
  "inject_fix sm p now fx st =
     (let anchor = (case inj_start st of Some a \<Rightarrow> a | None \<Rightarrow> now);
          st1 = st\<lparr>inj_start := Some anchor\<rparr>;
          elapsed = as_secs_f64 (saturating_duration_since now anchor)
      in case p of
           SpFrozen freeze_at \<Rightarrow>
             if fge elapsed freeze_at
             then let pinned = (case inj_frozen_at st1 of Some q \<Rightarrow> q | None \<Rightarrow> (lat_deg fx, lon_deg fx))
                  in (fx\<lparr>lat_deg := fst pinned, lon_deg := snd pinned\<rparr>, st1\<lparr>inj_frozen_at := Some pinned\<rparr>)
             else (fx, st1)
         | _ \<Rightarrow> (apply_spoof sm p elapsed fx, st1))"

fun inject_stream ::
    "sim_math \<Rightarrow> spoof_pattern \<Rightarrow> (instant \<times> (fs_error + gps_fix)) list \<Rightarrow> injector \<Rightarrow> (fs_error + gps_fix) list" where
  "inject_stream sm p [] st = []"
| "inject_stream sm p ((now, Inl e) # xs) st = Inl e # inject_stream sm p xs st"
| "inject_stream sm p ((now, Inr fx) # xs) st =
     (let (fx', st') = inject_fix sm p now fx st in Inr fx' # inject_stream sm p xs st')"

section \<open>What an attack touches\<close>

lemma fround_zero_feq: "feq (fround F s 0) (FNum 0)"
  by (simp add: fround_def feq_def Let_def not_le)

lemma fmul_zero_finite: "is_finite a \<Longrightarrow> z \<in> {FNum 0, FNegZero} \<Longrightarrow> feq (fmul F z a) (FNum 0)"
  by (cases a) (auto simp: fmul_def fround_zero_feq Let_def)

text \<open>Nothing is done before an attack starts.\<close>

definition quiet_before :: "spoof_pattern \<Rightarrow> f64 \<Rightarrow> bool" where
  "quiet_before p elapsed \<longleftrightarrow>
     (case p of
        SpClean \<Rightarrow> True
      | SpSuddenJump apply_at _ _ \<Rightarrow> flt elapsed apply_at
      | SpGradualDrift apply_at dn de \<Rightarrow> fle elapsed apply_at \<and> is_finite dn \<and> is_finite de
      | SpFrozen freeze_at \<Rightarrow> flt elapsed freeze_at
      | SpVelocityInconsistent apply_at _ \<Rightarrow> flt elapsed apply_at
      | SpAltitudeJump apply_at _ \<Rightarrow> flt elapsed apply_at
      | SpDropDoppler after \<Rightarrow> flt elapsed after
      | SpConsistentDrift apply_at _ _ \<Rightarrow> fle elapsed apply_at)"

lemma fsub_le_zero: "fle a b \<Longrightarrow> is_nan (fsub B64 a b) \<or> fle (fsub B64 a b) (FNum 0)"
proof (cases "is_finite a \<and> is_finite b")
  case True
  then obtain s where "fsub B64 a b = fround B64 s (fval a - fval b)" using fsub_finite by blast
  moreover assume "fle a b"
  then have "fval a - fval b \<le> 0" using True by (cases a; cases b) (auto simp: fle_def)
  then have "fle (fround B64 s (fval a - fval b)) (fround B64 False 0)" for s by (intro fround_mono) simp_all
  ultimately show ?thesis by simp
next
  case False
  moreover assume "fle a b"
  ultimately show ?thesis by (cases a; cases b) (simp_all add: fle_def fsub_def fadd_def)
qed

lemma drift_time_before:
  assumes "fle elapsed apply_at" shows "drift_time elapsed apply_at \<in> {FNum 0, FNegZero}"
proof -
  let ?x = "sub64 elapsed apply_at"
  have "is_nan ?x \<or> fle ?x (FNum 0)" by (rule fsub_le_zero [OF assms])
  then show ?thesis by (cases ?x) (auto simp: drift_time_def fmax_def)
qed

lemma apply_spoof_before:
  assumes "quiet_before p elapsed" shows "apply_spoof sm p elapsed fx = fx"
proof -
  have late: "flt a b \<Longrightarrow> \<not> fle b a" for a b using fle_flt_False by blast
  have zero: "\<not> fgt (drift_time elapsed a) (FNum 0)" "is_finite d \<Longrightarrow> feq (mul64 (drift_time elapsed a) d) (FNum 0)"
    if "fle elapsed a" for a d
    using drift_time_before [OF that] fmul_zero_finite [of d "drift_time elapsed a" B64] by (auto simp: flt_def)
  show ?thesis using assms
    by (cases p) (auto simp: quiet_before_def apply_spoof_def horizontal_offset_def Let_def late zero)
qed

text \<open>The parts of a fix an attack may change.\<close>

definition moves_position :: "spoof_pattern \<Rightarrow> bool" where
  "moves_position p \<longleftrightarrow> (case p of SpSuddenJump _ _ _ \<Rightarrow> True | SpGradualDrift _ _ _ \<Rightarrow> True | SpFrozen _ \<Rightarrow> True
     | SpConsistentDrift _ _ _ \<Rightarrow> True | _ \<Rightarrow> False)"

definition changes_velocity :: "spoof_pattern \<Rightarrow> bool" where
  "changes_velocity p \<longleftrightarrow> (case p of SpVelocityInconsistent _ _ \<Rightarrow> True | SpDropDoppler _ \<Rightarrow> True
     | SpConsistentDrift _ _ _ \<Rightarrow> True | _ \<Rightarrow> False)"

lemma inject_fix_footprint:
  assumes "inject_fix sm p now fx st = (fx', st')"
  shows "fix_t fx' = fix_t fx \<and> hdop fx' = hdop fx \<and> sats fx' = sats fx"
    "moves_position p \<or> lat_deg fx' = lat_deg fx \<and> lon_deg fx' = lon_deg fx"
    "changes_velocity p \<or> speed_mps fx' = speed_mps fx \<and> course_deg fx' = course_deg fx"
    "(\<exists>a j. p = SpAltitudeJump a j) \<or> alt_m fx' = alt_m fx"
  using assms
  by (auto simp: inject_fix_def apply_spoof_def horizontal_offset_def translate_fix_def laundered_velocity_def
      moves_position_def changes_velocity_def feq_def Let_def split: spoof_pattern.splits if_splits option.splits prod.splits)

text \<open>
  The injector attacks only what it claims to: whatever the pattern, the time stamp, the
  dilution and the satellite count of a fix pass unchanged; only position attacks move it, only
  the velocity attacks touch its speed and course, only the altitude attack its altitude; and
  before an attack starts the fix passes unchanged.
\<close>

theorem injector_footprint:
  assumes "inject_fix sm p now fx st = (fx', st')"
  shows "fix_t fx' = fix_t fx \<and> hdop fx' = hdop fx \<and> sats fx' = sats fx
    \<and> (moves_position p \<or> lat_deg fx' = lat_deg fx \<and> lon_deg fx' = lon_deg fx)
    \<and> (changes_velocity p \<or> speed_mps fx' = speed_mps fx \<and> course_deg fx' = course_deg fx)
    \<and> ((\<exists>a j. p = SpAltitudeJump a j) \<or> alt_m fx' = alt_m fx)
    \<and> (quiet_before p (as_secs_f64 (saturating_duration_since now (case inj_start st of Some a \<Rightarrow> a | None \<Rightarrow> now)))
        \<longrightarrow> fx' = fx)"
proof -
  let ?e = "as_secs_f64 (saturating_duration_since now (case inj_start st of Some a \<Rightarrow> a | None \<Rightarrow> now))"
  have "fx' = fx" if q: "quiet_before p ?e"
  proof (cases "\<exists>f. p = SpFrozen f")
    case True
    then obtain f where f: "p = SpFrozen f" by blast
    then have "\<not> fle f ?e" using q fle_flt_False by (auto simp: quiet_before_def)
    then show ?thesis using assms f by (auto simp: inject_fix_def Let_def)
  next
    case False
    then have "fx' = apply_spoof sm p ?e fx"
      using assms by (cases p) (auto simp: inject_fix_def Let_def)
    then show ?thesis using apply_spoof_before [OF q] by simp
  qed
  then show ?thesis using inject_fix_footprint [OF assms] by blast
qed

section \<open>A frozen receiver\<close>

definition frozen_answer :: "instant \<Rightarrow> f32 \<Rightarrow> f64 \<times> f64 \<Rightarrow> instant \<times> (fs_error + gps_fix) \<Rightarrow> fs_error + gps_fix \<Rightarrow> bool" where
  "frozen_answer start freeze_at q x y \<longleftrightarrow>
     (case x of
        (now, Inl e) \<Rightarrow> y = Inl e
      | (now, Inr fx) \<Rightarrow>
          y = Inr (if fge (as_secs_f64 (saturating_duration_since now start)) freeze_at
                   then fx\<lparr>lat_deg := fst q, lon_deg := snd q\<rparr> else fx))"

lemma frozen_running:
  assumes "inj_start st = Some a"
  shows "\<exists>q. (\<forall>q0. inj_frozen_at st = Some q0 \<longrightarrow> q = q0)
    \<and> list_all2 (frozen_answer a f q) xs (inject_stream sm (SpFrozen f) xs st)"
  using assms
proof (induction xs arbitrary: st)
  case Nil
  then show ?case by (cases "inj_frozen_at st") auto
next
  case (Cons x xs)
  obtain now v where x: "x = (now, v)" by force
  show ?case
  proof (cases v)
    case (Inl e)
    obtain q where "\<forall>q0. inj_frozen_at st = Some q0 \<longrightarrow> q = q0" "list_all2 (frozen_answer a f q) xs (inject_stream sm (SpFrozen f) xs st)"
      using Cons.IH [OF Cons.prems] by blast
    moreover have "frozen_answer a f q x (Inl e)" by (simp add: x Inl frozen_answer_def)
    ultimately show ?thesis by (intro exI [of _ q]) (simp add: x Inl)
  next
    case (Inr fx)
    define st1 where "st1 = snd (inject_fix sm (SpFrozen f) now fx st)"
    have s1: "inj_start st1 = Some a" "inj_frozen_at st1 = (if fge (as_secs_f64 (saturating_duration_since now a)) f
        then Some (case inj_frozen_at st of Some q \<Rightarrow> q | None \<Rightarrow> (lat_deg fx, lon_deg fx)) else inj_frozen_at st)"
      "inject_fix sm (SpFrozen f) now fx st = (if fge (as_secs_f64 (saturating_duration_since now a)) f
        then fx\<lparr>lat_deg := fst (case inj_frozen_at st of Some q \<Rightarrow> q | None \<Rightarrow> (lat_deg fx, lon_deg fx)),
               lon_deg := snd (case inj_frozen_at st of Some q \<Rightarrow> q | None \<Rightarrow> (lat_deg fx, lon_deg fx))\<rparr> else fx, st1)"
      using Cons.prems by (simp_all add: st1_def inject_fix_def Let_def)
    obtain q where q: "\<forall>q0. inj_frozen_at st1 = Some q0 \<longrightarrow> q = q0"
      "list_all2 (frozen_answer a f q) xs (inject_stream sm (SpFrozen f) xs st1)"
      using Cons.IH [OF s1(1)] by blast
    show ?thesis
    proof (intro exI conjI)
      show "\<forall>q0. inj_frozen_at st = Some q0 \<longrightarrow> q = q0" using q(1) s1(2) by (auto split: if_splits)
      show "list_all2 (frozen_answer a f q) (x # xs) (inject_stream sm (SpFrozen f) (x # xs) st)"
      proof (cases "fge (as_secs_f64 (saturating_duration_since now a)) f")
        case True
        then have "inj_frozen_at st1 = Some q" using q(1) s1(2) by auto
        then have "(case inj_frozen_at st of Some q \<Rightarrow> q | None \<Rightarrow> (lat_deg fx, lon_deg fx)) = q" using s1(2) True by simp
        then show ?thesis using q(2) s1(3) True by (simp add: x Inr frozen_answer_def)
      next
        case False
        then show ?thesis using q(2) s1(3) by (simp add: x Inr frozen_answer_def)
      qed
    qed
  qed
qed

definition first_fix_time :: "(instant \<times> (fs_error + gps_fix)) list \<Rightarrow> instant" where
  "first_fix_time xs = (case List.find (\<lambda>x. \<not> isl (snd x)) xs of Some x \<Rightarrow> fst x | None \<Rightarrow> 0)"

text \<open>
  A frozen receiver: the freeze pattern reports one and the same position for every fix from
  the freeze on, counted from the first fix, passes every fix before it and every error
  unchanged, and never touches the altitude or the velocity.
\<close>

theorem freeze_pins_one_position:
  "\<exists>q. list_all2 (frozen_answer (first_fix_time xs) f q) xs (inject_stream sm (SpFrozen f) xs injector_new)"
proof (induction xs)
  case (Cons x xs)
  obtain now v where x: "x = (now, v)" by force
  show ?case
  proof (cases v)
    case (Inl e)
    then show ?thesis using Cons by (auto simp: x first_fix_time_def frozen_answer_def)
  next
    case (Inr fx)
    let ?st = "injector_new\<lparr>inj_start := Some now\<rparr>"
    have "inject_fix sm (SpFrozen f) now fx injector_new = inject_fix sm (SpFrozen f) now fx ?st"
      by (simp add: inject_fix_def injector_new_def)
    then have "inject_stream sm (SpFrozen f) (x # xs) injector_new = inject_stream sm (SpFrozen f) (x # xs) ?st"
      by (simp add: x Inr)
    moreover have "first_fix_time (x # xs) = now" by (simp add: x Inr first_fix_time_def)
    ultimately show ?thesis using frozen_running [of ?st now f "x # xs" sm] by (auto simp: injector_new_def)
  qed
qed simp

section \<open>The length of a synthetic run\<close>

lemma half_exact:
  assumes "\<bar>2 * n + 1\<bar> < 2 ^ 24" shows "fround B64 s (of_int (2 * n + 1) / 2) = FNum (of_int (2 * n + 1) / 2)"
proof (rule fround_exact)
  have "bound_ok B64 (of_int (2 * n + 1) / 2 ^ 1)" using assms by (intro bound_ok_dyadic) simp_all
  then show "representable B64 (of_int (2 * n + 1) / 2)" "\<bar>of_int (2 * n + 1) / 2\<bar> < pow2 (emax B64)"
    by (simp_all add: bound_ok_def)
  have "2 * n + 1 \<noteq> 0" by presburger
  then show "of_int (2 * n + 1) / 2 \<noteq> (0 :: rat) \<or> \<not> s" by (simp only: of_int_eq_0_iff divide_eq_0_iff) simp
qed

text \<open>The times of the fixes: half a second and then every second.\<close>

definition fix_time :: "nat \<Rightarrow> f64" where
  "fix_time k = FNum (of_int (2 * int k + 1) / 2)"

lemma fix_time_next: "k < 2 ^ 22 \<Longrightarrow> add64 (fix_time k) (FNum 1) = fix_time (Suc k)"
  using half_exact [of "int k + 1" False]
  by (simp add: fix_time_def fadd_FNum add_divide_distrib algebra_simps)

lemma end_time_in:
  assumes "D < 2 ^ 22" shows "fin_in (of_nat D) (of_nat D + 1 / 4) (end_time (FNum (of_nat D)))"
proof -
  have q: "bound_ok B64 (of_int (int 0))" "bound_ok B64 (of_int 1 / 2 ^ 2)" "bound_ok B64 (of_int (int D))"
    "bound_ok B64 (of_int (4 * int D + 1) / 2 ^ 2)"
    using assms by (intro bound_ok_int bound_ok_dyadic; simp)+
  have "fin_in 0 (1 / 4) (lit B64 (1 / 10 ^ 9))" unfolding lit_def using q(1,2) by (intro fround_in) simp_all
  moreover have "fin_in (of_nat D) (of_nat D) (FNum (of_nat D))" by (simp add: fin_in_def)
  moreover have "bound_ok B64 (of_nat D + 1 / 4)" using q(4) by (simp add: add_divide_distrib)
  ultimately show ?thesis
    unfolding end_time_def using fadd_in [of B64 "of_nat D" "of_nat D" "FNum (of_nat D)" 0 "1 / 4"] q(3,4)
    by (simp del: of_int_add of_int_mult)
qed

lemma fix_time_bound:
  assumes "D < 2 ^ 22" shows "fle (fix_time k) (end_time (FNum (of_nat D))) \<longleftrightarrow> k < D"
proof -
  obtain v where v: "end_time (FNum (of_nat D)) = FNum v \<or> end_time (FNum (of_nat D)) = FNegZero \<and> v = 0"
    "of_nat D \<le> v" "v \<le> of_nat D + 1 / 4"
    using end_time_in [OF assms] by (cases "end_time (FNum (of_nat D))") (auto simp: fin_in_def)
  have "fle (fix_time k) (end_time (FNum (of_nat D))) \<longleftrightarrow> of_nat k + 1 / 2 \<le> v"
    using v(1) by (auto simp: fix_time_def fle_def add_divide_distrib)
  also have "\<dots> \<longleftrightarrow> k < D"
  proof
    assume "of_nat k + 1 / 2 \<le> v"
    then have "of_nat k + 1 / 2 \<le> (of_nat D + 1 / 4 :: rat)" using v(3) by linarith
    then have "of_nat k < (of_nat D :: rat)" by linarith
    then show "k < D" by simp
  next
    assume "k < D"
    then have "of_nat k + 1 \<le> (of_nat D :: rat)" by (metis Suc_leI of_nat_Suc of_nat_le_iff add.commute)
    then show "of_nat k + 1 / 2 \<le> v" using v(2) by linarith
  qed
  finally show ?thesis .
qed

lemma synth_gps_loop_length:
  assumes g: "sg_rate_hz g = FNum 1" "sg_duration_s g = FNum (of_nat D)" and D: "D < 2 ^ 22"
    and "k \<le> D" "D - k < n"
  shows "\<exists>fxs. synth_gps_loop n sm g stamps us k (fix_time k) = (fxs, StreamEnded) \<and> length fxs = D - k"
  using assms(4,5)
proof (induction n arbitrary: k)
  case (Suc n)
  show ?case
  proof (cases "k = D")
    case True
    then show ?thesis using fix_time_bound [OF D, of D] by (simp add: g)
  next
    case False
    then have k: "k < D" using Suc.prems by simp
    have dt: "div64 (FNum 1) (FNum 1) = FNum 1" "sleep_ok (FNum 1)"
      using fround_int [of B64 1 False] by (simp_all add: fdiv_FNum sleep_ok_def fle_def flt_def)
    obtain fxs where "synth_gps_loop n sm g stamps us (Suc k) (fix_time (Suc k)) = (fxs, StreamEnded)" "length fxs = D - Suc k"
      using Suc.IH [of "Suc k"] k Suc.prems by (metis Suc_diff_Suc Suc_leI Suc_less_eq)
    then show ?thesis
      using k fix_time_bound [OF D, of k] fix_time_next [of k] D dt by (simp add: g Let_def)
  qed
qed simp

text \<open>
  A synthetic scenario ends: with the rate and the start of the program's scenario and a
  duration of D seconds the source sleeps without panic, yields exactly D fixes and ends.
\<close>

theorem synthetic_run_length:
  assumes "sg_rate_hz g = FNum 1" and "sg_start_after_s g = FNum (1 / 2)" and "sg_duration_s g = FNum (of_nat D)"
    and "D < 2 ^ 22" and "D < fuel"
  shows "\<exists>fxs. synth_gps_stream fuel sm g stamps us = (fxs, StreamEnded) \<and> length fxs = D"
proof -
  have "sleep_ok (FNum (1 / 2))" "fix_time 0 = FNum (1 / 2)" by (simp_all add: sleep_ok_def fle_def flt_def fix_time_def)
  then show ?thesis using synth_gps_loop_length [OF assms(1,3,4), of 0 fuel] assms(2,5) by (simp add: synth_gps_stream_def)
qed

section \<open>Witnesses\<close>

definition toy_sim :: sim_math where
  "toy_sim = \<lparr>s_nav = toy_math, atan2_64 = \<lambda>_ _. FNum 0, ln_64 = \<lambda>_. FNum 0\<rparr>"

theorem injector_footprint_witness:
  "\<exists>fx' st'. inject_fix toy_sim (SpAltitudeJump (FNum 10) (FNum 50)) (20 * 10 ^ 9) toy_fix injector_new = (fx', st')
    \<and> fx' = toy_fix \<and> speed_mps fx' = Some (FNum 12)"
proof -
  let ?p = "SpAltitudeJump (FNum 10) (FNum 50)"
  obtain fx' st' where i: "inject_fix toy_sim ?p (20 * 10 ^ 9) toy_fix injector_new = (fx', st')" by (metis surj_pair)
  have "quiet_before ?p (as_secs_f64 (saturating_duration_since (20 * 10 ^ 9)
      (case inj_start injector_new of Some a \<Rightarrow> a | None \<Rightarrow> 20 * 10 ^ 9)))"
    by (simp add: quiet_before_def injector_new_def saturating_duration_since_def as_secs_f64_def of_int_fl_def fdiv_FNum fadd_FNum flt_def)
  with injector_footprint [OF i] i show ?thesis by (simp add: toy_fix_def)
qed

definition scenario_gps :: "f32 \<Rightarrow> synthetic_gps" where
  "scenario_gps duration = \<lparr>sg_traj = LinearNorth (FNum 8), sg_rate_hz = FNum 1, sg_pos_sigma_m = lit B32 (3 / 10),
     sg_vel_sigma_mps = lit B32 (5 / 100), sg_origin = (FNum 40, FNum (- 100), FNum 0), sg_duration_s = duration,
     sg_start_after_s = FNum (1 / 2)\<rparr>"

theorem synthetic_run_length_witness:
  "\<exists>fxs. synth_gps_stream 100 toy_sim (scenario_gps (FNum (of_nat 60))) (\<lambda>_. at_mono 0) (\<lambda>_. (FNum 1, FNum 0)) = (fxs, StreamEnded)
    \<and> length fxs = 60"
  by (rule synthetic_run_length) (simp_all add: scenario_gps_def)

end
