(* ===== verification/Mavsim.thy ===== *)
theory Mavsim
  imports Autopilot Simulator
begin

text \<open>
  The rest of \<open>src/src/bin/mavsim.rs\<close>: the sensor messages the stand-in autopilot emits, a flight
  due north with one of three attacks on its fixes, and its listener. The draws of the random
  generator are a stream of pairs of uniform numbers, taken in the order of the code; the loop
  has fuel for its turns.
\<close>

section \<open>The scenarios\<close>

datatype sim_scenario = ScClean | ScSuddenJump | ScGradualDrift

record mavsim_cli =
  ms_scenario :: sim_scenario
  ms_duration :: u32
  ms_seed :: u64

definition DEFAULT_SEED :: u64 where "DEFAULT_SEED = 0xF1F5518400000000"

definition mavsim_cli_default :: mavsim_cli where
  "mavsim_cli_default = \<lparr>ms_scenario = ScGradualDrift, ms_duration = 60, ms_seed = DEFAULT_SEED\<rparr>"

record spoof_plan =
  sp_at :: f64
  sp_n_rate :: f64
  sp_e_rate :: f64
  sp_n_jump :: f64
  sp_e_jump :: f64

definition spoof_plan :: "sim_scenario \<Rightarrow> spoof_plan" where
  "spoof_plan sc = (case sc of
     ScClean \<Rightarrow> \<lparr>sp_at = FPInf, sp_n_rate = FNum 0, sp_e_rate = FNum 0, sp_n_jump = FNum 0, sp_e_jump = FNum 0\<rparr>
   | ScSuddenJump \<Rightarrow> \<lparr>sp_at = FNum 30, sp_n_rate = FNum 0, sp_e_rate = FNum 0, sp_n_jump = FNum 0, sp_e_jump = FNum 200\<rparr>
   | ScGradualDrift \<Rightarrow> \<lparr>sp_at = FNum 20, sp_n_rate = FNum 0, sp_e_rate = FNum 1, sp_n_jump = FNum 0, sp_e_jump = FNum 0\<rparr>)"

section \<open>The messages\<close>

definition traj :: "f64 \<Rightarrow> ground_truth" where "traj = LinearNorth (FNum 8)"

definition sim_axis :: "sim_math \<Rightarrow> f32 \<Rightarrow> f32 \<Rightarrow> f64 \<times> f64 \<Rightarrow> f32" where
  "sim_axis sm x sigma u = add32 x (mul32 (to_f32 (gauss sm u)) sigma)"

text \<open>The IMU message: six draws.\<close>

definition sim_imu_msg :: "sim_math \<Rightarrow> f64 \<Rightarrow> (nat \<Rightarrow> f64 \<times> f64) \<Rightarrow> mav_msg" where
  "sim_imu_msg sm t u =
     (let gt = traj t;
          g = lit B64 (980665 / 100000);
          acc = \<lparr>v0 = to_f32 (ned_n (gt_acc gt)), v1 = to_f32 (ned_e (gt_acc gt)), v2 = to_f32 (sub64 (ned_d (gt_acc gt)) g)\<rparr>;
          gyro = \<lparr>v0 = to_f32 (ned_n (gt_gyro gt)), v1 = to_f32 (ned_e (gt_gyro gt)), v2 = to_f32 (ned_d (gt_gyro gt))\<rparr>;
          sa = lit B32 (1 / 1000); sg = lit B32 (1 / 10000)
      in MsgHighresImu \<lparr>hr_time_usec = word_of_int (cast_int 0 (2 ^ 64 - 1) (mul64 t (FNum (10 ^ 6)))),
           hr_acc = \<lparr>v0 = sim_axis sm (v0 acc) sa (u 0), v1 = sim_axis sm (v1 acc) sa (u 1), v2 = sim_axis sm (v2 acc) sa (u 2)\<rparr>,
           hr_gyro = \<lparr>v0 = sim_axis sm (v0 gyro) sg (u 3), v1 = sim_axis sm (v1 gyro) sg (u 4), v2 = sim_axis sm (v2 gyro) sg (u 5)\<rparr>\<rparr>)"

definition spoof_offset :: "spoof_plan \<Rightarrow> f64 \<Rightarrow> f64 \<times> f64 \<Rightarrow> f64 \<times> f64" where
  "spoof_offset sp t_gps pos =
     (if fge t_gps (sp_at sp)
      then (add64 (fst pos) (add64 (sp_n_jump sp) (mul64 (sp_n_rate sp) (sub64 t_gps (sp_at sp)))),
            add64 (snd pos) (add64 (sp_e_jump sp) (mul64 (sp_e_rate sp) (sub64 t_gps (sp_at sp)))))
      else pos)"

text \<open>The GPS message: two draws; the truth is that of the IMU sample just sent. 3 is a 3D fix.\<close>

definition sim_gps_msg :: "sim_math \<Rightarrow> spoof_plan \<Rightarrow> f64 \<Rightarrow> f64 \<Rightarrow> (nat \<Rightarrow> f64 \<times> f64) \<Rightarrow> mav_msg" where
  "sim_gps_msg sm sp t_imu t_gps u =
     (let gt = traj t_imu;
          (pos_n, pos_e) = spoof_offset sp t_gps (ned_n (gt_pos gt), ned_e (gt_pos gt));
          pos_n = add64 pos_n (mul64 (gauss sm (u 0)) (lit B64 (3 / 10)));
          pos_e = add64 pos_e (mul64 (gauss sm (u 1)) (lit B64 (3 / 10)));
          lat0 = FNum 40; lon0 = FNum (- 100); alt0 = FNum 0;
          dlat = to_degrees (div64 pos_n R_EARTH_M);
          dlon = to_degrees (div64 pos_e (mul64 R_EARTH_M (cos64 (s_nav sm) (to_radians B64 lat0))));
          vn = ned_n (gt_vel gt); ve = ned_e (gt_vel gt);
          course = mul64 (frem (add64 (to_degrees (atan2_64 sm ve vn)) (FNum 360)) (FNum 360)) (FNum 100)
      in MsgGpsRawInt \<lparr>gr_time_usec = word_of_int (cast_int 0 (2 ^ 64 - 1) (mul64 t_gps (FNum (10 ^ 6)))),
           gr_fix_type = 3,
           gr_lat = word_of_int (cast_int (- (2 ^ 31)) (2 ^ 31 - 1) (mul64 (add64 lat0 dlat) (FNum (10 ^ 7)))),
           gr_lon = word_of_int (cast_int (- (2 ^ 31)) (2 ^ 31 - 1) (mul64 (add64 lon0 dlon) (FNum (10 ^ 7)))),
           gr_alt = word_of_int (cast_int (- (2 ^ 31)) (2 ^ 31 - 1) (mul64 (sub64 alt0 (ned_d (gt_pos gt))) (FNum (10 ^ 3)))),
           gr_eph = 90,
           gr_vel = word_of_int (cast_int 0 (2 ^ 16 - 1) (mul64 (fsqrt B64 (add64 (mul64 vn vn) (mul64 ve ve))) (FNum 100))),
           gr_cog = word_of_int (cast_int 0 (2 ^ 16 - 1) course),
           gr_sats = 12\<rparr>)"

section \<open>The loop\<close>

definition sim_slack :: f64 where "sim_slack = lit B64 (1 / 10 ^ 9)"

text \<open>The messages with the time each belongs to, and whether the loop ended; \<open>k\<close> counts the draws.\<close>

fun sim_sensors ::
    "nat \<Rightarrow> sim_math \<Rightarrow> spoof_plan \<Rightarrow> f64 \<Rightarrow> (nat \<Rightarrow> f64 \<times> f64) \<Rightarrow> nat \<Rightarrow> f64 \<Rightarrow> f64 \<Rightarrow> (f64 \<times> mav_msg) list \<times> bool" where
  "sim_sensors 0 sm sp deadline us k t_imu t_gps = ([], False)"
| "sim_sensors (Suc n) sm sp deadline us k t_imu t_gps =
     (if \<not> fle t_imu (add64 deadline sim_slack) then ([], True)
      else
        (let imu = (t_imu, sim_imu_msg sm t_imu (\<lambda>i. us (k + i)));
             due = fge (add64 t_imu sim_slack) t_gps \<and> fle t_gps (add64 deadline sim_slack);
             gps = (if due then [(t_gps, sim_gps_msg sm sp t_imu t_gps (\<lambda>i. us (k + 6 + i)))] else []);
             (rest, ended) = sim_sensors n sm sp deadline us (if due then k + 8 else k + 6)
               (add64 t_imu (lit B64 (1 / 100))) (if due then add64 t_gps (FNum 1) else t_gps)
         in (imu # gps @ rest, ended)))"

definition mavsim_sensors :: "nat \<Rightarrow> sim_math \<Rightarrow> mavsim_cli \<Rightarrow> (nat \<Rightarrow> f64 \<times> f64) \<Rightarrow> (f64 \<times> mav_msg) list \<times> bool" where
  "mavsim_sensors fuel sm cli us =
     sim_sensors fuel sm (spoof_plan (ms_scenario cli)) (of_int_fl B64 (uint (ms_duration cli))) us 0 (FNum 0) (FNum (1 / 2))"

section \<open>The listener\<close>

datatype sim_rx = RxError io_error | RxFrame mav_message | RxGarbage

definition transient_rx :: "io_error \<Rightarrow> bool" where
  "transient_rx e \<longleftrightarrow> raw_os_error e \<in> {Some 10054, Some 10052, Some 10040}
     \<or> io_kind e \<in> {ConnectionReset, ConnectionRefused, HostUnreachable}"

text \<open>The loop over what the socket returns: the replies sent and whether the loop is still running.\<close>

fun sim_listen :: "(mav_param_type \<Rightarrow> u8) \<Rightarrow> sim_rx list \<Rightarrow> autopilot \<Rightarrow> (u8 \<times> mav_msg) list \<times> autopilot \<times> bool" where
  "sim_listen wire [] ap = ([], ap, True)"
| "sim_listen wire (r # rs) ap =
     (case r of
        RxError e \<Rightarrow> if transient_rx e then sim_listen wire rs ap else ([], ap, False)
      | RxGarbage \<Rightarrow> sim_listen wire rs ap
      | RxFrame msg \<Rightarrow>
          (let (frame, ap1) = sim_step wire (Request msg) ap; (frames, ap2, running) = sim_listen wire rs ap1
           in (frame # frames, ap2, running)))"

section \<open>Properties\<close>

text \<open>What an attack may change of a message: the position of a fix, from the onset on.\<close>

definition same_but_position :: "spoof_plan \<Rightarrow> spoof_plan \<Rightarrow> f64 \<times> mav_msg \<Rightarrow> f64 \<times> mav_msg \<Rightarrow> bool" where
  "same_but_position p q a b \<longleftrightarrow> fst a = fst b \<and>
     (snd a = snd b \<or>
      (fge (fst a) (sp_at p) \<or> fge (fst a) (sp_at q))
      \<and> (\<exists>g lat lon. snd a = MsgGpsRawInt g \<and> snd b = MsgGpsRawInt (g\<lparr>gr_lat := lat, gr_lon := lon\<rparr>)))"

lemma gps_msgs_differ:
  "same_but_position p q (t, sim_gps_msg sm p ti t u) (t, sim_gps_msg sm q ti t u)"
proof (cases "fge t (sp_at p) \<or> fge t (sp_at q)")
  case False
  then show ?thesis by (simp add: same_but_position_def sim_gps_msg_def spoof_offset_def)
next
  case True
  then show ?thesis
    by (simp add: same_but_position_def sim_gps_msg_def Let_def case_prod_beta)
qed

lemma sim_sensors_agree:
  "list_all2 (same_but_position p q) (fst (sim_sensors n sm p d us k ti tg)) (fst (sim_sensors n sm q d us k ti tg))
   \<and> snd (sim_sensors n sm p d us k ti tg) = snd (sim_sensors n sm q d us k ti tg)"
proof (induction n arbitrary: k ti tg)
  case (Suc n)
  have imu: "same_but_position p q a a" for a by (simp add: same_but_position_def)
  show ?case
    using Suc.IH imu gps_msgs_differ by (auto simp: Let_def case_prod_beta list_all2_append)
qed simp

text \<open>
  The scenarios are fair: with the same seed, two scenarios of the stand-in send the same messages
  at the same times; they differ only in the positions of fixes after the onset of an attack.
\<close>

theorem scenarios_differ_in_positions:
  assumes "ms_duration a = ms_duration b"
  shows "list_all2 (same_but_position (spoof_plan (ms_scenario a)) (spoof_plan (ms_scenario b)))
      (fst (mavsim_sensors n sm a us)) (fst (mavsim_sensors n sm b us))
    \<and> snd (mavsim_sensors n sm a us) = snd (mavsim_sensors n sm b us)"
  using sim_sensors_agree assms by (simp add: mavsim_sensors_def)

text \<open>The listener answers the requests in order, and only a fatal error of the socket stops it.\<close>

lemma sim_listen_answers:
  assumes "\<forall>r\<in>set rs. \<forall>e. r = RxError e \<longrightarrow> transient_rx e"
  shows "fst (sim_listen wire rs ap)
      = sim_run wire (List.map_filter (\<lambda>r. case r of RxFrame msg \<Rightarrow> Some (Request msg) | _ \<Rightarrow> None) rs) ap
    \<and> snd (snd (sim_listen wire rs ap))"
  using assms
proof (induction rs arbitrary: ap)
  case (Cons r rs)
  then show ?case by (cases r) (auto simp: List.map_filter_simps Let_def case_prod_beta)
qed (simp add: List.map_filter_simps)

end
