(* ===== verification/Watch.thy ===== *)
theory Watch
  imports Runtime Nmea_Link Mav_Link
begin

text \<open>
  The event watcher, \<open>watch/src/main.rs\<close>: it follows the JSON event log of the detector and
  shows its state. The log is its bytes. The JSON parser
  is the parameter \<open>parse\<close>; of the payload of an event the watcher only asks for a number, a
  float or a string under a key, so a payload is these three lookups. What the drawing
  library does to the selection when it renders a list is the parameter \<open>render_sel\<close>. The
  screen is modelled as its pieces of text with their colours; where the library places them
  is not modelled, nor are the files and the terminal.
\<close>

section \<open>Events and the summary\<close>

record json_detail =
  detail_u64 :: "string \<Rightarrow> nat option"
  detail_f64 :: "string \<Rightarrow> f64 option"
  detail_str :: "string \<Rightarrow> string option"

record watch_event =
  we_mono_ns :: nat
  we_kind :: string
  we_state :: string
  we_residual_m :: f32
  we_detail :: json_detail

record snapshot =
  w_fsm_state :: string
  w_preflight :: string
  w_link :: string
  w_autopilot_mode :: "nat option"
  w_boot_anchor_armed :: bool
  w_last_action :: string
  w_spoofed_count :: u32
  w_rtl_acked_count :: u32
  w_parse_errors :: u32

definition snapshot_default :: snapshot where
  "snapshot_default = \<lparr>w_fsm_state = [], w_preflight = [], w_link = [], w_autopilot_mode = None,
     w_boot_anchor_armed = False, w_last_action = [], w_spoofed_count = 0, w_rtl_acked_count = 0, w_parse_errors = 0\<rparr>"

definition apply_to_snapshot :: "watch_event \<Rightarrow> snapshot \<Rightarrow> snapshot" where
  "apply_to_snapshot e s0 =
     (let s = (if we_state e \<noteq> [] then s0\<lparr>w_fsm_state := we_state e\<rparr> else s0); k = we_kind e
      in if k = ''PreflightPassed'' then s\<lparr>w_preflight := ''Passed''\<rparr>
         else if k = ''PreflightFailed'' then s\<lparr>w_preflight := ''Failed''\<rparr>
         else if k = ''LinkRestored'' then s\<lparr>w_link := ''Up''\<rparr>
         else if k = ''LinkDown'' then s\<lparr>w_link := ''Down''\<rparr>
         else if k = ''PilotModeChange'' then
           (case detail_u64 (we_detail e) ''new_custom_mode'' of Some m \<Rightarrow> s\<lparr>w_autopilot_mode := Some m\<rparr> | None \<Rightarrow> s)
         else if k = ''StateTransition'' then
           (if we_state e = ''Spoofed''
            then s\<lparr>w_spoofed_count := w_spoofed_count s + 1, w_last_action := ''STATE -> Spoofed''\<rparr> else s)
         else if k = ''ActionAcked'' then s\<lparr>w_rtl_acked_count := w_rtl_acked_count s + 1, w_last_action := ''RTL Acked''\<rparr>
         else if k = ''ActionUnconfirmed'' then s\<lparr>w_last_action := ''RTL Unconfirmed!''\<rparr>
         else if k = ''ActionFailed'' then s\<lparr>w_last_action := ''Action FAILED''\<rparr>
         else if k = ''BootAnchorRejected'' then s\<lparr>w_boot_anchor_armed := True, w_last_action := ''BootAnchor REJECTED''\<rparr>
         else s)"

section \<open>Reading the log\<close>

text \<open>
  \<open>trim_end\<close> on the reversed bytes of a line: how many bytes the white-space character at the
  end takes (the white space of Unicode, in UTF-8), none if there is no such character.
\<close>

definition space_width :: "u8 list \<Rightarrow> nat" where
  "space_width bs =
     (case bs of [] \<Rightarrow> 0
      | b # r \<Rightarrow>
          if b \<in> {9, 10, 11, 12, 13, 32} then 1
          else (case r of [] \<Rightarrow> 0
            | c # r' \<Rightarrow>
                if c = 0xC2 \<and> b \<in> {0x85, 0xA0} then 2
                else (case r' of [] \<Rightarrow> 0
                  | d # _ \<Rightarrow>
                      if d = 0xE1 \<and> c = 0x9A \<and> b = 0x80
                        \<or> d = 0xE2 \<and> c = 0x80 \<and> (0x80 \<le> b \<and> b \<le> 0x8A \<or> b \<in> {0xA8, 0xA9, 0xAF})
                        \<or> d = 0xE2 \<and> c = 0x81 \<and> b = 0x9F \<or> d = 0xE3 \<and> c = 0x80 \<and> b = 0x80
                      then 3 else 0)))"

lemma space_width_le: "space_width bs \<le> length bs"
  by (simp add: space_width_def split: list.split)

function drop_space :: "u8 list \<Rightarrow> u8 list" where
  "drop_space bs = (let n = space_width bs in if n = 0 then bs else drop_space (drop n bs))"
  by auto
termination
proof (relation "measure length")
  fix bs :: "u8 list" and n
  assume "n = space_width bs" and "n \<noteq> 0"
  then show "(drop n bs, bs) \<in> measure length" using space_width_le [of bs] by simp
qed simp

declare drop_space.simps [simp del]

definition trim_end :: "u8 list \<Rightarrow> u8 list" where
  "trim_end l = rev (drop_space (rev l))"

text \<open>
  What \<open>read_line\<close> returns, call after call, until the end of what is in the file: the bytes
  up to and with the next newline, or all that is left.
\<close>

fun read_lines :: "u8 list \<Rightarrow> u8 list list" where
  "read_lines [] = []"
| "read_lines (b # bs) =
     (if b = newline then [b] # read_lines bs
      else case read_lines bs of [] \<Rightarrow> [[b]] | l # ls \<Rightarrow> (b # l) # ls)"

record watch_cli =
  wc_replay :: bool
  wc_speed :: f32
  wc_buffer :: nat

record watcher =
  w_events :: "watch_event list"
  w_snap :: snapshot
  w_selected :: "nat option"
  w_paused :: bool
  w_prev_mono_ns :: nat

definition watcher_start :: watcher where
  "watcher_start = \<lparr>w_events = [], w_snap = snapshot_default, w_selected = None, w_paused = False, w_prev_mono_ns = 0\<rparr>"

text \<open>How long a replay sleeps before it shows an event.\<close>

definition replay_pause :: "watch_cli \<Rightarrow> watch_event \<Rightarrow> watcher \<Rightarrow> duration" where
  "replay_pause cli e w =
     (if wc_replay cli \<and> fgt (wc_speed cli) (FNum 0) \<and> w_prev_mono_ns w > 0 \<and> we_mono_ns e > w_prev_mono_ns w
      then min (cast_usize (fdiv B64 (of_int_fl B64 (int (we_mono_ns e - w_prev_mono_ns w))) (wc_speed cli))) (500 * 10 ^ 6)
      else 0)"

definition show_event :: "watch_cli \<Rightarrow> watch_event \<Rightarrow> watcher \<Rightarrow> watcher" where
  "show_event cli e w =
     (let prev = (if wc_replay cli \<and> fgt (wc_speed cli) (FNum 0) then we_mono_ns e else w_prev_mono_ns w);
          kept = (if wc_buffer cli \<le> length (w_events w) then tl (w_events w) else w_events w);
          evs = kept @ [e]
      in w\<lparr>w_prev_mono_ns := prev, w_snap := apply_to_snapshot e (w_snap w), w_events := evs,
           w_selected := (if w_paused w then w_selected w else Some (length evs - 1))\<rparr>)"

definition on_log_line :: "watch_cli \<Rightarrow> (u8 list \<Rightarrow> watch_event option) \<Rightarrow> u8 list \<Rightarrow> watcher \<Rightarrow> watcher" where
  "on_log_line cli parse l w =
     (let t = trim_end l
      in if t = [] then w
         else case parse t of
           None \<Rightarrow> w\<lparr>w_snap := (w_snap w)\<lparr>w_parse_errors := saturating_add (w_parse_errors (w_snap w)) 1\<rparr>\<rparr>
         | Some e \<Rightarrow> show_event cli e w)"

text \<open>The inner loop; \<open>None\<close>: reading fails on a line that is not UTF-8, and the program ends.\<close>

fun drain_lines :: "watch_cli \<Rightarrow> (u8 list \<Rightarrow> watch_event option) \<Rightarrow> u8 list list \<Rightarrow> watcher \<Rightarrow> watcher option" where
  "drain_lines cli parse [] w = Some w"
| "drain_lines cli parse (l # ls) w =
     (if valid_utf8 l then drain_lines cli parse ls (on_log_line cli parse l w) else None)"

section \<open>Keys\<close>

datatype key = KeyChar char bool | KeyEsc | KeyUp | KeyDown | KeyPageUp | KeyPageDown | KeyOther

text \<open>The flag of \<open>KeyChar\<close> is the control key. The result says whether to go on.\<close>

definition handle_key :: "key \<Rightarrow> watcher \<Rightarrow> bool \<times> watcher" where
  "handle_key k w =
     (let cur = (case w_selected w of Some i \<Rightarrow> i | None \<Rightarrow> 0)
      in case k of
        KeyChar c ctrl \<Rightarrow>
          if c = CHR ''q'' then (False, w)
          else if ctrl \<and> c = CHR ''c'' then (False, w)
          else if c = CHR ''p'' then (True, w\<lparr>w_paused := True\<rparr>)
          else if c = CHR ''r'' then (True, w\<lparr>w_paused := False\<rparr>)
          else if c = CHR ''c'' then (True, w\<lparr>w_events := [], w_selected := None\<rparr>)
          else (True, w)
      | KeyEsc \<Rightarrow> (False, w)
      | KeyUp \<Rightarrow> (True, (if cur > 0 then w\<lparr>w_paused := True, w_selected := Some (cur - 1)\<rparr> else w\<lparr>w_paused := True\<rparr>))
      | KeyDown \<Rightarrow>
          (True, (if cur + 1 < length (w_events w) then w\<lparr>w_paused := True, w_selected := Some (cur + 1)\<rparr>
                  else w\<lparr>w_paused := True\<rparr>))
      | KeyPageUp \<Rightarrow> (True, w\<lparr>w_paused := True, w_selected := Some (cur - 20)\<rparr>)
      | KeyPageDown \<Rightarrow> (True, w\<lparr>w_paused := True, w_selected := Some (min (cur + 20) (length (w_events w) - 1))\<rparr>)
      | KeyOther \<Rightarrow> (True, w))"

text \<open>
  One turn of the loop of \<open>run_app\<close>: read what the log has gained, draw, handle at most one
  key.
\<close>

datatype turn_result = GoesOn watcher | Quits | ReadFails

definition watch_turn ::
    "watch_cli \<Rightarrow> (u8 list \<Rightarrow> watch_event option) \<Rightarrow> (nat \<Rightarrow> nat option \<Rightarrow> nat option)
     \<Rightarrow> u8 list \<Rightarrow> key option \<Rightarrow> watcher \<Rightarrow> turn_result" where
  "watch_turn cli parse render_sel data key w =
     (case drain_lines cli parse (read_lines data) w of
        None \<Rightarrow> ReadFails
      | Some w1 \<Rightarrow>
          (let w2 = w1\<lparr>w_selected := render_sel (length (w_events w1)) (w_selected w1)\<rparr>
           in case key of
                None \<Rightarrow> GoesOn w2
              | Some k \<Rightarrow> (case handle_key k w2 of (go, w3) \<Rightarrow> if go then GoesOn w3 else Quits)))"

section \<open>What is drawn\<close>

text \<open>Formatting of the standard library: decimal numbers, padding, one decimal place.\<close>

fun decimal :: "nat \<Rightarrow> string" where
  "decimal n = (if n < 10 then [char_of (48 + n)] else decimal (n div 10) @ [char_of (48 + n mod 10)])"

declare decimal.simps [simp del]

definition pad_left :: "nat \<Rightarrow> string \<Rightarrow> string" where
  "pad_left n s = replicate (n - length s) CHR '' '' @ s"

definition pad_right :: "nat \<Rightarrow> string \<Rightarrow> string" where
  "pad_right n s = s @ replicate (n - length s) CHR '' ''"

definition one_place :: "fl \<Rightarrow> string" where
  "one_place x =
     (case x of
        FNaN \<Rightarrow> ''NaN'' | FPInf \<Rightarrow> ''inf'' | FNInf \<Rightarrow> ''-inf'' | FNegZero \<Rightarrow> ''-0.0''
      | FNum r \<Rightarrow> (let n = nat (rne (10 * \<bar>r\<bar>))
                  in (if r < 0 then ''-'' else []) @ decimal (n div 10) @ ''.'' @ decimal (n mod 10)))"

definition em_dash :: string where "em_dash = map char_of [0xE2, 0x80, 0x94 :: nat]"

datatype colour = Green | Yellow | Red | DarkGray | Plain

definition header_text :: "watch_cli \<Rightarrow> string \<Rightarrow> watcher \<Rightarrow> string \<times> colour" where
  "header_text cli path w =
     (let errs = w_parse_errors (w_snap w)
      in ('' Source: '' @ path @ ''    Mode: '' @ (if wc_replay cli then ''REPLAY'' else ''TAIL'')
          @ ''    Events: '' @ decimal (length (w_events w))
          @ (if errs > 0 then ''    PARSE-ERR: '' @ decimal (unat errs) else [])
          @ (if w_paused w then ''    [PAUSED]'' else []),
          if errs > 0 then Red else Plain))"

definition fsm_colour :: "string \<Rightarrow> colour" where
  "fsm_colour s = (if s = ''Normal'' then Green else if s = ''Suspicious'' then Yellow else if s = ''Spoofed'' then Red else DarkGray)"

definition link_colour :: "string \<Rightarrow> colour" where
  "link_colour s = (if s = ''Up'' then Green else if s = ''Down'' then Red else DarkGray)"

definition or_dash :: "string \<Rightarrow> string" where
  "or_dash s = (if s = [] then em_dash else s)"

definition state_pane :: "snapshot \<Rightarrow> (string \<times> colour) list" where
  "state_pane s =
     [('' FSM: '', Plain), (or_dash (w_fsm_state s), fsm_colour (w_fsm_state s)),
      (''    Preflight: '', Plain), (or_dash (w_preflight s), if w_preflight s = ''Passed'' then Green else DarkGray),
      (''    Link: '', Plain), (or_dash (w_link s), link_colour (w_link s)),
      (''    Mode: '', Plain), ((case w_autopilot_mode s of Some m \<Rightarrow> decimal m | None \<Rightarrow> em_dash), Plain),
      (''    Spoofed total: '', Plain),
      (decimal (unat (w_spoofed_count s)), if w_spoofed_count s > 0 then Red else Green),
      (''    Acked: '', Plain), (decimal (unat (w_rtl_acked_count s)), Plain)]"

definition events_title :: "snapshot \<Rightarrow> string" where
  "events_title s = ''Events  ('' @ w_last_action s @ '')''"

definition event_level :: "watch_event \<Rightarrow> string \<times> colour" where
  "event_level e =
     (let k = we_kind e
      in if k = ''StateTransition'' \<and> we_state e = ''Spoofed'' then (''CRIT'', Red)
         else if k \<in> {''ActionFailed'', ''ActionUnconfirmed'', ''LinkDown'', ''BootAnchorRejected''} then (''WARN'', Yellow)
         else if k \<in> {''MAV ACTION'', ''PreflightFailed''} then (''WARN'', Yellow)
         else if k \<in> {''Jump'', ''Drift'', ''FrozenGps'', ''DwellPauseExceeded''} then (''INFO'', Yellow)
         else (''INFO'', Green))"

definition join_spaces :: "string list \<Rightarrow> string" where
  "join_spaces ps = concat (case ps of [] \<Rightarrow> [] | p # r \<Rightarrow> p # map (\<lambda>q. ''  '' @ q) r)"

definition opt_part :: "('a \<Rightarrow> string) \<Rightarrow> 'a option \<Rightarrow> string list" where
  "opt_part f x = (case x of Some v \<Rightarrow> [f v] | None \<Rightarrow> [])"

definition format_detail :: "watch_event \<Rightarrow> string" where
  "format_detail e =
     (let d = we_detail e;
          parts = (if we_state e \<noteq> [] then [''state='' @ we_state e] else [])
            @ (if fgt (we_residual_m e) (FNum 0) then [''residual='' @ one_place (we_residual_m e) @ ''m''] else [])
            @ opt_part (\<lambda>s. ''reason='' @ s) (detail_str d ''reason'')
            @ opt_part (\<lambda>m. ''mode='' @ decimal m) (detail_u64 d ''new_custom_mode'')
            @ opt_part (\<lambda>x. ''dr_dist='' @ one_place x @ ''m'') (detail_f64 d ''distance_from_dr_m'')
            @ opt_part (\<lambda>x. ''home_dist='' @ one_place x @ ''m'') (detail_f64 d ''distance_from_expected_home_m'')
      in if parts = [] then [] else ''  '' @ join_spaces parts)"

definition format_event :: "watch_event \<Rightarrow> (string \<times> colour) list" where
  "format_event e =
     (let (level, colour) = event_level e; t_secs = we_mono_ns e div 10 ^ 9 mod 2 ^ 64
      in [(''t='' @ pad_left 6 (decimal t_secs) @ ''s '', DarkGray), (pad_right 4 level @ '' '', colour),
          (pad_right 22 (we_kind e), Plain), (format_detail e, Plain)])"

section \<open>The log of the detector\<close>

text \<open>How the detector's event looks to the watcher; its payload is given by \<open>payload\<close>.\<close>

definition state_name :: "nav_state_kind \<Rightarrow> string" where
  "state_name s = (case s of Normal \<Rightarrow> ''Normal'' | Suspicious \<Rightarrow> ''Suspicious'' | Spoofed \<Rightarrow> ''Spoofed'')"

definition kind_name :: "spoof_kind \<Rightarrow> string" where
  "kind_name k = (case k of
     KJump \<Rightarrow> ''Jump'' | KDrift \<Rightarrow> ''Drift'' | KStateTransition \<Rightarrow> ''StateTransition'' | KSyncWarning \<Rightarrow> ''SyncWarning''
   | KActionFailed \<Rightarrow> ''ActionFailed'' | KActionAcked \<Rightarrow> ''ActionAcked'' | KActionUnconfirmed \<Rightarrow> ''ActionUnconfirmed''
   | KLinkDown \<Rightarrow> ''LinkDown'' | KLinkRestored \<Rightarrow> ''LinkRestored'' | KPilotModeChange \<Rightarrow> ''PilotModeChange''
   | KBootAnchorRejected \<Rightarrow> ''BootAnchorRejected'' | KPreflightFailed \<Rightarrow> ''PreflightFailed''
   | KPreflightPassed \<Rightarrow> ''PreflightPassed'' | KDwellPauseExceeded \<Rightarrow> ''DwellPauseExceeded'' | KFrozenGps \<Rightarrow> ''FrozenGps''
   | KForensicDumpWritten \<Rightarrow> ''ForensicDumpWritten'' | KForensicDumpFailed \<Rightarrow> ''ForensicDumpFailed''
   | KForensicDumpSuppressed \<Rightarrow> ''ForensicDumpSuppressed'')"

definition logged :: "(detail \<Rightarrow> json_detail) \<Rightarrow> spoofing_event \<Rightarrow> watch_event" where
  "logged payload ev = \<lparr>we_mono_ns = ev_mono_ns ev, we_kind = kind_name (ev_kind ev), we_state = state_name (ev_state ev),
     we_residual_m = ev_residual_m ev, we_detail = payload (ev_detail ev)\<rparr>"

definition events_of :: "fusion_out list \<Rightarrow> spoofing_event list" where
  "events_of outs = List.map_filter (\<lambda>x. case x of OEvent ev \<Rightarrow> Some ev | _ \<Rightarrow> None) outs"

text \<open>The summary after the events of a run.\<close>

definition watched :: "(detail \<Rightarrow> json_detail) \<Rightarrow> fusion_out list \<Rightarrow> snapshot" where
  "watched payload outs = fold (\<lambda>ev. apply_to_snapshot (logged payload ev)) (events_of outs) snapshot_default"

section \<open>What the summary shows\<close>

lemma state_name_simps [simp]: "state_name s \<noteq> []" "state_name a = state_name b \<longleftrightarrow> a = b"
  by (cases s; simp add: state_name_def) (cases a; cases b; simp add: state_name_def)

lemma apply_state [simp]:
  "w_fsm_state (apply_to_snapshot e s) = (if we_state e = [] then w_fsm_state s else we_state e)"
  by (simp add: apply_to_snapshot_def Let_def split: option.split)

lemma fold_apply_state:
  "w_fsm_state (fold (\<lambda>ev. apply_to_snapshot (logged payload ev)) evs s)
     = (if evs = [] then w_fsm_state s else state_name (ev_state (List.last evs)))"
  by (induction evs arbitrary: s) (simp_all add: logged_def)

lemma events_of_simps [simp]:
  "events_of [] = []" "events_of (xs @ ys) = events_of xs @ events_of ys" "events_of (OEvent e # xs) = e # events_of xs"
  "events_of (OAction a # xs) = events_of xs" "events_of (OSpawnDump sn # xs) = events_of xs"
  "events_of (OSpawnVerifySever t st # xs) = events_of xs" "events_of (OSpawnVerifyRtb t st # xs) = events_of xs"
  by (simp_all add: events_of_def List.map_filter_def)

text \<open>Outputs whose last event, if any, carries the state the detector ends in.\<close>

definition announces :: "nav_state_kind \<Rightarrow> nav_state_kind \<Rightarrow> fusion_out list \<Rightarrow> bool" where
  "announces from to outs \<longleftrightarrow> (if events_of outs = [] then to = from else ev_state (List.last (events_of outs)) = to)"

lemma announces_append: "announces a b xs \<Longrightarrow> announces b c ys \<Longrightarrow> announces a c (xs @ ys)"
  by (auto simp: announces_def split: if_splits)

definition all_in_state :: "nav_state_kind \<Rightarrow> fusion_out list \<Rightarrow> bool" where
  "all_in_state st outs \<longleftrightarrow> (\<forall>ev\<in>set (events_of outs). ev_state ev = st)"

lemma all_in_state_announces: "all_in_state st outs \<Longrightarrow> announces st st outs"
  by (auto simp: announces_def all_in_state_def)

lemma all_in_state_new: "all_in_state st outs \<Longrightarrow> events_of outs \<noteq> [] \<Longrightarrow> announces from st outs"
  by (auto simp: announces_def all_in_state_def)

lemma all_in_state_append [simp]: "all_in_state st (xs @ ys) \<longleftrightarrow> all_in_state st xs \<and> all_in_state st ys"
  by (auto simp: all_in_state_def)

lemma event_of_state [simp]:
  "events_of (event_of fu t k r d # xs) = spoofing_event_new t k (sm_state (fu_fsm fu)) r d (fu_boot fu) # events_of xs"
  "ev_state (spoofing_event_new t k st r d b) = st"
  by (simp_all add: event_of_def spoofing_event_new_def)

lemma emitted_state:
  "all_in_state (sm_state (fu_fsm fu)) (map (\<lambda>e. emit e fx r fu) dets)" "events_of (map (\<lambda>e. emit e fx r fu) dets) = [] \<longleftrightarrow> dets = []"
  by (induction dets) (auto simp: emit_def all_in_state_def Let_def split: fsm_event.splits)

lemma stage_states:
  "note_dropout fx t fu = (fu', outs) \<Longrightarrow> all_in_state (sm_state (fu_fsm fu)) outs \<and> sm_state (fu_fsm fu') = sm_state (fu_fsm fu)"
  "vertical_check fx t r fu = (fu', outs) \<Longrightarrow> all_in_state (sm_state (fu_fsm fu)) outs \<and> sm_state (fu_fsm fu') = sm_state (fu_fsm fu)"
  "doppler_streak fx r fu = (fu', outs) \<Longrightarrow> all_in_state (sm_state (fu_fsm fu)) outs \<and> sm_state (fu_fsm fu') = sm_state (fu_fsm fu)"
  "frozen_decision fx gap v r fu = Some (fu', outs) \<Longrightarrow>
     all_in_state (sm_state (fu_fsm fu)) outs \<and> sm_state (fu_fsm fu') = sm_state (fu_fsm fu)"
  "refresh_preflight env ts s fu = (fu', outs) \<Longrightarrow> all_in_state (sm_state (fu_fsm fu)) outs \<and> sm_state (fu_fsm fu') = sm_state (fu_fsm fu)"
  by (auto simp: note_dropout_def vertical_check_def doppler_streak_def frozen_decision_def frozen_accrue_def
      refresh_preflight_def preflight_facts_def all_in_state_def Let_def split: if_splits option.splits prod.splits)

lemma spoofed_actions_states:
  assumes "spoofed_actions env fx from r ev fu = (fu', outs)" and "sm_state (fu_fsm fu) = Spoofed"
  shows "all_in_state Spoofed outs \<and> sm_state (fu_fsm fu') = Spoofed"
  using assms
  by (auto simp: spoofed_actions_def maybe_trigger_forensic_dump_def try_action_result_def all_in_state_def Let_def
      split: if_splits option.splits prod.splits sum.splits)

lemma evaluate_fix_announces:
  assumes "evaluate_fix env fx t g r fu = (fu', outs)"
  shows "announces (sm_state (fu_fsm fu)) (sm_state (fu_fsm fu')) outs"
  using assms
proof (cases rule: evaluate_fix_cases)
  case (quiet dets fsm2)
  then show ?thesis using emitted_state(1) [of "fu\<lparr>fu_fsm := fsm2\<rparr>" fx r dets] by (simp add: all_in_state_announces)
next
  case (suspect evs dets fsm2)
  then show ?thesis using emitted_state [where fu = "fu\<lparr>fu_fsm := fsm2\<rparr>" and fx = fx and r = r and dets = dets] by (simp add: all_in_state_new)
next
  case (veto evs dets fsm2 dist)
  have "sm_state (fu_fsm fu') = Suspicious" using veto(2,3,5) by (simp add: force_back_to_suspicious_def)
  then show ?thesis using veto(6) by (simp add: announces_def)
next
  case (clear evs dets fsm2)
  then show ?thesis using emitted_state [where fu = "fu\<lparr>fu_fsm := fsm2\<rparr>" and fx = fx and r = r and dets = dets] by (simp add: all_in_state_new)
next
  case (latch evs dets fsm2 outs')
  then show ?thesis
    using emitted_state [where fu = "fu\<lparr>fu_fsm := fsm2\<rparr>" and fx = fx and r = r and dets = dets] spoofed_actions_states [OF latch(4)]
    by (intro all_in_state_new) simp_all
qed

lemma ready_fix_announces:
  assumes "ready_fix env fx g fu = Some (fu', outs)"
  shows "announces (sm_state (fu_fsm fu)) (sm_state (fu_fsm fu')) outs"
proof -
  let ?t = "fu_secs fu (mono (fix_t fx))" and ?st = "sm_state (fu_fsm fu)"
  obtain fu1 o1 where nd: "note_dropout fx ?t fu = (fu1, o1)" by (metis surj_pair)
  define fu2 where "fu2 = (if frozen_candidate env fx fu1 then fu1 else restart_frozen fx fu1)"
  have s2: "sm_state (fu_fsm fu2) = ?st" "all_in_state ?st o1"
    using stage_states(1) [OF nd] by (auto simp: fu2_def restart_frozen_def)
  note eq = assms [unfolded ready_fix_def Let_def nd, simplified, folded fu2_def]
  show ?thesis
  proof (cases "interpolate (fu_buffer fu2) ?t")
    case (Inl e)
    then have "sm_state (fu_fsm fu') = ?st" "all_in_state ?st outs" using eq s2 by (auto simp: all_in_state_def)
    then show ?thesis by (simp add: all_in_state_announces)
  next
    case (Inr pv)
    obtain p v where pv: "pv = (p, v)" by force
    define r where "r = residual_of env fx g p v (fu_nav fu2)"
    have f3: "sm_state (fu_fsm (forensic_fix fx ?t r fu2)) = ?st" using s2 by (simp add: forensic_fix_def split: option.split)
    define d where "d = (if frozen_candidate env fx fu1
        then frozen_decision fx (dropout_gap ?t fu) v r (forensic_fix fx ?t r fu2)
        else Some (forensic_fix fx ?t r fu2, []))"
    note eq2 = eq [unfolded Inr pv sum.case prod.case, folded r_def, folded d_def]
    then obtain fu4 o2 where d4: "d = Some (fu4, o2)" by (cases d) auto
    then have s4: "sm_state (fu_fsm fu4) = ?st" "all_in_state ?st o2"
      using stage_states(4) [of fx _ v r "forensic_fix fx ?t r fu2" fu4 o2] f3
      by (auto simp: d_def all_in_state_def split: if_splits)
    obtain fu5 o3 where v: "vertical_check fx ?t r fu4 = (fu5, o3)" by (metis surj_pair)
    obtain fu6 o4 where dp: "doppler_streak fx r fu5 = (fu6, o4)" by (metis surj_pair)
    obtain fu7 o5 where e: "evaluate_fix env fx ?t g r fu6 = (fu7, o5)" by (metis surj_pair)
    have "all_in_state ?st ((o1 @ o2) @ o3 @ o4)" "sm_state (fu_fsm fu6) = ?st"
      using s2 s4 stage_states(2) [OF v] stage_states(3) [OF dp] by auto
    then have "announces ?st (sm_state (fu_fsm fu7)) (((o1 @ o2) @ o3 @ o4) @ o5)"
      by (metis announces_append all_in_state_announces evaluate_fix_announces [OF e])
    moreover have "fu' = fu7" "outs = ((o1 @ o2) @ o3 @ o4) @ o5" using eq2 d4 v dp e by auto
    ultimately show ?thesis by simp
  qed
qed

lemma on_gps_announces:
  assumes "on_gps env fx fu = Some (fu', outs)"
  shows "announces (sm_state (fu_fsm fu)) (sm_state (fu_fsm fu')) outs"
  using assms
proof (cases rule: on_gps_cases)
  case (rejected dist)
  then show ?thesis by (simp add: announces_def)
next
  case first
  then show ?thesis using stage_states(5) [OF first(3)] all_in_state_announces by simp
next
  case (gated g)
  obtain fu1 o1 where r: "refresh_preflight env (fu_secs fu (mono (fix_t fx))) (fix_t fx) fu = (fu1, o1)"
    by (metis surj_pair)
  then have "sm_state (fu_fsm fu') = sm_state (fu_fsm fu1)" "outs = o1"
    using gated(3) by (auto simp: preflight_fix_def Let_def split: if_splits)
  then show ?thesis using stage_states(5) [OF r] all_in_state_announces by simp
next
  case (ready g)
  then show ?thesis using ready_fix_announces by simp
qed

definition polled :: "loop_input \<Rightarrow> bool" where
  "polled i \<longleftrightarrow> (case i of LPoll _ _ _ _ \<Rightarrow> True | LDumpEnded _ _ \<Rightarrow> False)"

lemma loop_step_announces:
  assumes "loop_step l i outs l'" and "polled i"
  shows "announces (sm_state (fu_fsm (l_fusion l))) (sm_state (fu_fsm (l_fusion l'))) outs"
  using assms(1)
proof (cases rule: loop_step_cases)
  case (gps env fx)
  then show ?thesis by (rule on_gps_announces)
next
  case (reset env)
  from reset [symmetric] show ?thesis by (simp add: operator_reset_def announces_def Let_def)
next
  case (dumped fb' ev)
  from assms show ?thesis
  proof cases
    case (poll env imu gps rst)
    then show ?thesis
      by (auto simp: select_step_def operator_reset_def announces_def on_imu_frame Let_def on_gps_announces [unfolded announces_def]
          split: if_splits poll.splits prod.splits)
  qed (simp add: polled_def)
qed (simp_all add: announces_def on_imu_frame)

lemma loop_run_announces:
  "loop_run l ins outs l' \<Longrightarrow> list_all polled ins \<Longrightarrow>
     announces (sm_state (fu_fsm (l_fusion l))) (sm_state (fu_fsm (l_fusion l'))) outs"
  by (induction rule: loop_run.induct) (auto simp: announces_def [of _ _ "[]"] intro: announces_append loop_step_announces)

text \<open>
  The dashboard shows the detector: along every run of a started task, as long as no
  background dump reports, the state the watcher displays after reading the log is the state
  of the detector, and it displays none only while the detector has reported nothing and is
  Normal.
\<close>

theorem dashboard_tracks_detector:
  assumes "spawn_all cfg mp fc boot = Some (Inr l0)" and "loop_run l0 ins outs l" and "list_all polled ins"
  shows "w_fsm_state (watched payload outs) =
      (if events_of outs = [] then [] else state_name (sm_state (fu_fsm (l_fusion l))))
    \<and> (events_of outs = [] \<longrightarrow> sm_state (fu_fsm (l_fusion l)) = Normal)"
  using loop_run_announces [OF assms(2,3)] spawn_all_inv(3) [OF assms(1)]
  by (auto simp: watched_def fold_apply_state snapshot_default_def announces_def)

text \<open>
  The events of the watchdog as the watcher reads them: they carry the state \<open>Normal\<close>, whatever
  the detector's state is.
\<close>

definition logged_link :: "(u32 \<Rightarrow> json_detail) \<Rightarrow> nat \<Rightarrow> wd_event \<Rightarrow> watch_event" where
  "logged_link payload ns e = (case e of (k, st, m) \<Rightarrow>
     \<lparr>we_mono_ns = ns, we_kind = kind_name k, we_state = state_name st, we_residual_m = FNum 0, we_detail = payload m\<rparr>)"

lemma watchdog_events_normal:
  assumes "watchdog_tick boot st k w = (es, w')" and "e \<in> set es"
  shows "fst (snd e) = Normal"
  using assms by (auto simp: watchdog_tick_def emit_link_event_def emit_mode_change_event_def Let_def split: if_splits)

lemma fold_logged_link:
  assumes "\<forall>e\<in>set es. fst (snd e) = Normal" and "es \<noteq> []"
  shows "w_fsm_state (fold (\<lambda>e. apply_to_snapshot (logged_link payload ns e)) es s) = ''Normal''"
  using assms by (induction es rule: rev_induct) (auto simp: logged_link_def state_name_def split: prod.splits)

text \<open>
  C39. The alarm disappears from the dashboard when the autopilot obeys: the return to base that
  the detector commands changes the autopilot's mode, the watchdog reports the change in an
  event that says \<open>Normal\<close>, and the watcher then shows the detector as Normal, in green,
  whatever it showed before.
\<close>

theorem mode_change_masks_alarm:
  assumes "have_seen_heartbeat w" and "last_mode_change_ns w < mode_changed_at_ns (wd_changed k)"
    and "watchdog_tick boot st k w = (es, w')"
  shows "w_fsm_state (fold (\<lambda>e. apply_to_snapshot (logged_link payload ns e)) es s) = ''Normal''
    \<and> fsm_colour (w_fsm_state (fold (\<lambda>e. apply_to_snapshot (logged_link payload ns e)) es s)) = Green"
proof -
  have "es \<noteq> []" using assms by (auto simp: watchdog_tick_def Let_def split: if_splits)
  then show ?thesis using fold_logged_link watchdog_events_normal [OF assms(3)] by (simp add: fsm_colour_def)
qed

section \<open>Reading and scrolling\<close>

lemma read_lines_plain: "newline \<notin> set a \<Longrightarrow> read_lines a = (if a = [] then [] else [a])"
  by (induction a) auto

lemma read_lines_newline: "newline \<notin> set a \<Longrightarrow> read_lines (a @ newline # rest) = (a @ [newline]) # read_lines rest"
  by (induction a) auto

lemma on_log_line_bad:
  "trim_end l \<noteq> [] \<Longrightarrow> parse (trim_end l) = None \<Longrightarrow>
     on_log_line cli parse l w = w\<lparr>w_snap := (w_snap w)\<lparr>w_parse_errors := saturating_add (w_parse_errors (w_snap w)) 1\<rparr>\<rparr>"
  by (simp add: on_log_line_def Let_def)

text \<open>
  A line that is read while it is being written is lost: when the watcher polls between two
  halves of a line, each half counts as a parse error and the event never shows, though the
  same line read in one piece does.
\<close>

theorem torn_line_lost:
  assumes "newline \<notin> set a" and "newline \<notin> set b" and "valid_utf8 a" and "valid_utf8 (b @ [newline])"
    and "trim_end a \<noteq> []" and "trim_end (b @ [newline]) \<noteq> []"
    and "parse (trim_end a) = None" and "parse (trim_end (b @ [newline])) = None"
    and "valid_utf8 (a @ b @ [newline])" and "trim_end (a @ b @ [newline]) \<noteq> []" and "parse (trim_end (a @ b @ [newline])) = Some e"
  shows "drain_lines cli parse (read_lines (a @ b @ [newline])) w = Some (show_event cli e w)
    \<and> (\<exists>w1 w2. drain_lines cli parse (read_lines a) w = Some w1
        \<and> drain_lines cli parse (read_lines (b @ [newline])) w1 = Some w2
        \<and> w_events w2 = w_events w \<and> w_fsm_state (w_snap w2) = w_fsm_state (w_snap w)
        \<and> w_spoofed_count (w_snap w2) = w_spoofed_count (w_snap w)
        \<and> w_parse_errors (w_snap w2) = saturating_add (saturating_add (w_parse_errors (w_snap w)) 1) 1)"
proof
  have ab: "read_lines (a @ b @ [newline]) = [a @ b @ [newline]]"
    using read_lines_newline [of "a @ b" "[]"] assms(1,2) by simp
  show "drain_lines cli parse (read_lines (a @ b @ [newline])) w = Some (show_event cli e w)"
    using assms by (simp add: ab on_log_line_def)
  have "trim_end [] = []" by (simp add: trim_end_def drop_space.simps space_width_def)
  then have "a \<noteq> []" using assms(5) by auto
  then have a: "read_lines a = [a]" using read_lines_plain [OF assms(1)] by simp
  have b: "read_lines (b @ [newline]) = [b @ [newline]]" using read_lines_newline [OF assms(2), of "[]"] by simp
  show "\<exists>w1 w2. drain_lines cli parse (read_lines a) w = Some w1
        \<and> drain_lines cli parse (read_lines (b @ [newline])) w1 = Some w2
        \<and> w_events w2 = w_events w \<and> w_fsm_state (w_snap w2) = w_fsm_state (w_snap w)
        \<and> w_spoofed_count (w_snap w2) = w_spoofed_count (w_snap w)
        \<and> w_parse_errors (w_snap w2) = saturating_add (saturating_add (w_parse_errors (w_snap w)) 1) 1"
    using assms by (simp add: a b on_log_line_bad)
qed

text \<open>The run of the program, turn after turn; \<open>None\<close>: it has ended.\<close>

fun watch_run ::
    "watch_cli \<Rightarrow> (u8 list \<Rightarrow> watch_event option) \<Rightarrow> (nat \<Rightarrow> nat option \<Rightarrow> nat option)
     \<Rightarrow> (u8 list \<times> key option) list \<Rightarrow> watcher \<Rightarrow> watcher option" where
  "watch_run cli parse rs [] w = Some w"
| "watch_run cli parse rs ((data, key) # ts) w =
     (case watch_turn cli parse rs data key w of GoesOn w' \<Rightarrow> watch_run cli parse rs ts w' | _ \<Rightarrow> None)"

definition watch_inv :: "watch_cli \<Rightarrow> watcher \<Rightarrow> bool" where
  "watch_inv cli w \<longleftrightarrow> length (w_events w) \<le> max 1 (wc_buffer cli)
     \<and> (\<forall>i. w_selected w = Some i \<longrightarrow> i < max 1 (length (w_events w)))"

lemma show_event_inv: "watch_inv cli w \<Longrightarrow> watch_inv cli (show_event cli e w)"
  by (auto simp: watch_inv_def show_event_def Let_def)

lemma on_log_line_inv: "watch_inv cli w \<Longrightarrow> watch_inv cli (on_log_line cli parse l w)"
  by (auto simp: on_log_line_def Let_def show_event_inv split: option.split) (simp add: watch_inv_def)

lemma drain_lines_inv: "watch_inv cli w \<Longrightarrow> drain_lines cli parse ls w = Some w' \<Longrightarrow> watch_inv cli w'"
  by (induction ls arbitrary: w) (auto split: if_splits dest: on_log_line_inv)

lemma handle_key_inv: "watch_inv cli w \<Longrightarrow> handle_key k w = (go, w') \<Longrightarrow> watch_inv cli w'"
  by (auto simp: watch_inv_def handle_key_def Let_def split: key.splits if_splits option.splits)

text \<open>
  The dashboard stays bounded: whatever the log contains, however it is cut into reads and
  whatever keys are pressed, no more events than the buffer size (at least one) are held, and a
  selected line exists or is the first of an empty list.
\<close>

theorem watcher_stays_bounded:
  assumes "\<And>n s i. rs n s = Some i \<Longrightarrow> i < max 1 n" and "watch_run cli parse rs ts watcher_start = Some w"
  shows "length (w_events w) \<le> max 1 (wc_buffer cli) \<and> (\<forall>i. w_selected w = Some i \<longrightarrow> i < max 1 (length (w_events w)))"
proof -
  have "watch_inv cli w0 \<Longrightarrow> watch_run cli parse rs ts w0 = Some w \<Longrightarrow> watch_inv cli w" for w0
  proof (induction ts arbitrary: w0)
    case (Cons t ts)
    obtain data key where t: "t = (data, key)" by force
    then obtain w1 where w1: "watch_turn cli parse rs data key w0 = GoesOn w1" "watch_run cli parse rs ts w1 = Some w"
      using Cons.prems(2) by (auto split: turn_result.splits)
    then obtain w2 where w2: "drain_lines cli parse (read_lines data) w0 = Some w2"
      and k: "w1 = w2\<lparr>w_selected := rs (length (w_events w2)) (w_selected w2)\<rparr>
        \<or> (\<exists>k. handle_key k (w2\<lparr>w_selected := rs (length (w_events w2)) (w_selected w2)\<rparr>) = (True, w1))"
      by (auto simp: watch_turn_def Let_def split: option.splits prod.splits if_splits)
    have "watch_inv cli (w2\<lparr>w_selected := rs (length (w_events w2)) (w_selected w2)\<rparr>)"
      using drain_lines_inv [OF Cons.prems(1) w2] assms(1) by (auto simp: watch_inv_def)
    then have "watch_inv cli w1" using k handle_key_inv by auto
    then show ?case using Cons.IH w1(2) by blast
  qed simp
  moreover have "watch_inv cli watcher_start" by (simp add: watch_inv_def watcher_start_def)
  ultimately show ?thesis using assms(2) by (simp add: watch_inv_def)
qed

text \<open>
  Paused, the selection does not stay on its event: with a full buffer every new event moves the
  highlight to the event after it.
\<close>

lemma paused_selection_slides:
  assumes "w_paused w" and "w_selected w = Some i" and "length (w_events w) = wc_buffer cli" and "i + 1 < wc_buffer cli"
  shows "w_selected (show_event cli e w) = Some i \<and> w_events (show_event cli e w) ! i = w_events w ! (i + 1)"
  using assms by (cases "w_events w") (auto simp: show_event_def Let_def nth_append)

text \<open>A line that is not UTF-8 ends the program instead of being counted.\<close>

lemma non_utf8_line_ends_watcher:
  assumes "newline \<notin> set l" and "\<not> valid_utf8 (l @ [newline])"
  shows "watch_turn cli parse rs (l @ [newline]) key w = ReadFails"
  using read_lines_newline [OF assms(1), of "[]"] assms(2) by (simp add: watch_turn_def)

section \<open>Witnesses\<close>

definition no_payload :: json_detail where
  "no_payload = \<lparr>detail_u64 = \<lambda>_. None, detail_f64 = \<lambda>_. None, detail_str = \<lambda>_. None\<rparr>"

theorem dashboard_tracks_detector_witness:
  "\<exists>l0 outs l. spawn_all fusion_config_default None None 0 = Some (Inr l0)
    \<and> loop_run l0 (map (imu_in bench_env) (replicate 100 level_sample)
        @ [gps_in bench_env toy_fix, imu_in bench_env nan_sample, gps_in bench_env toy_fix, gps_in bench_env bench_fix]) outs l
    \<and> w_fsm_state (watched (\<lambda>_. no_payload) outs) = state_name (sm_state (fu_fsm (l_fusion l)))"
proof -
  obtain l0 outs x l where r: "spawn_all fusion_config_default None None 0 = Some (Inr l0)"
    "loop_run l0 (map (imu_in bench_env) (replicate 100 level_sample)
       @ [gps_in bench_env toy_fix, imu_in bench_env nan_sample, gps_in bench_env toy_fix, gps_in bench_env bench_fix]) (outs @ [x]) l"
    "\<not> preflight_output x" by (rule armed_run)
  obtain y where "y \<in> set outs" "passed_output y"
    using gated_run [OF r(2)] spawn_all_inv(2) [OF r(1)] r(3) by auto
  then have "events_of outs \<noteq> []" by (auto simp: passed_output_def events_of_def List.map_filter_def filter_empty_conv split: fusion_out.splits)
  moreover have "list_all polled (map (imu_in bench_env) (replicate 100 level_sample)
       @ [gps_in bench_env toy_fix, imu_in bench_env nan_sample, gps_in bench_env toy_fix, gps_in bench_env bench_fix])"
    by (simp add: list_all_iff polled_def imu_in_def gps_in_def)
  ultimately have "w_fsm_state (watched (\<lambda>_. no_payload) (outs @ [x])) = state_name (sm_state (fu_fsm (l_fusion l)))"
    using dashboard_tracks_detector [OF r(1,2), of "\<lambda>_. no_payload"] by simp
  with r(1,2) show ?thesis by blast
qed

text \<open>A watchdog that knows the autopilot, and the tick after the mode became RTL (6).\<close>

definition rtl_tick :: wd_tick where
  "rtl_tick = \<lparr>wd_now = 10, wd_fresh = monitor_new, wd_changed = monitor_new\<lparr>mode_changed_at_ns := 9, current_custom_mode := 6\<rparr>,
     wd_mode = monitor_new\<lparr>mode_changed_at_ns := 9, current_custom_mode := 6\<rparr>, wd_link_mode = monitor_new\<rparr>"

definition alarm_snapshot :: snapshot where
  "alarm_snapshot = snapshot_default\<lparr>w_fsm_state := ''Spoofed'', w_spoofed_count := 1\<rparr>"

theorem mode_change_masks_alarm_witness:
  "fsm_colour (w_fsm_state alarm_snapshot) = Red
   \<and> (\<exists>es w'. watchdog_tick 0 3000000000 rtl_tick \<lparr>last_state_up = True, have_seen_heartbeat = True, last_mode_change_ns = 5\<rparr> = (es, w')
      \<and> w_fsm_state (fold (\<lambda>e. apply_to_snapshot (logged_link (\<lambda>_. no_payload) 10 e)) es alarm_snapshot) = ''Normal'')"
proof -
  let ?w = "\<lparr>last_state_up = True, have_seen_heartbeat = True, last_mode_change_ns = 5\<rparr>"
  obtain es w' where t: "watchdog_tick 0 3000000000 rtl_tick ?w = (es, w')" by (metis surj_pair)
  have "have_seen_heartbeat ?w" "last_mode_change_ns ?w < mode_changed_at_ns (wd_changed rtl_tick)"
    by (simp_all add: rtl_tick_def)
  from mode_change_masks_alarm [OF this t] t show ?thesis
    by (auto simp: alarm_snapshot_def fsm_colour_def)
qed

definition ab_event :: watch_event where
  "ab_event = \<lparr>we_mono_ns = 0, we_kind = ''StateTransition'', we_state = ''Spoofed'', we_residual_m = FNum 25, we_detail = no_payload\<rparr>"

definition parse_ab :: "u8 list \<Rightarrow> watch_event option" where
  "parse_ab l = (if l = [97, 98] then Some ab_event else None)"

lemma trimmed_ab: "trim_end [97] = [97]" "trim_end [98, newline] = [98]" "trim_end [97, 98, newline] = [97, 98]"
  by code_simp+

lemma ab_bytes:
  "(97 :: u8) \<noteq> newline" "(98 :: u8) \<noteq> newline" "valid_utf8 [97]" "valid_utf8 [98, newline]" "valid_utf8 [97, 98, newline]"
  "parse_ab [97] = None" "parse_ab [98] = None" "parse_ab [97, 98] = Some ab_event"
  by (simp_all add: newline_def parse_ab_def)

lemma ab_lines: "read_lines [98, newline] = [[98, newline]]"
  using read_lines_newline [of "[98]" "[]"] ab_bytes(2) by simp

theorem torn_line_lost_witness:
  "drain_lines \<lparr>wc_replay = False, wc_speed = FNum 1, wc_buffer = 500\<rparr> parse_ab (read_lines [97, 98, newline]) watcher_start
      = Some (show_event \<lparr>wc_replay = False, wc_speed = FNum 1, wc_buffer = 500\<rparr> ab_event watcher_start)
   \<and> (\<exists>w1 w2. drain_lines \<lparr>wc_replay = False, wc_speed = FNum 1, wc_buffer = 500\<rparr> parse_ab (read_lines [97]) watcher_start = Some w1
      \<and> drain_lines \<lparr>wc_replay = False, wc_speed = FNum 1, wc_buffer = 500\<rparr> parse_ab (read_lines [98, newline]) w1 = Some w2
      \<and> w_events w2 = [])"
proof -
  have "w_events watcher_start = []" by (simp add: watcher_start_def)
  with torn_line_lost [of "[97]" "[98]" parse_ab ab_event "\<lparr>wc_replay = False, wc_speed = FNum 1, wc_buffer = 500\<rparr>" watcher_start]
  show ?thesis
    by (simp add: trimmed_ab ab_bytes ab_bytes(1,2) [symmetric] del: valid_utf8.simps read_lines.simps drain_lines.simps) blast
qed

theorem watcher_stays_bounded_witness:
  "\<exists>w. watch_run \<lparr>wc_replay = False, wc_speed = FNum 1, wc_buffer = 500\<rparr> (\<lambda>_. Some ab_event)
      (\<lambda>n s. case s of None \<Rightarrow> None | Some i \<Rightarrow> Some (min i (n - 1))) [([98, newline], Some KeyPageDown), ([], Some KeyUp)] watcher_start
      = Some w \<and> length (w_events w) \<le> 500"
proof -
  let ?cli = "\<lparr>wc_replay = False, wc_speed = FNum 1, wc_buffer = 500\<rparr>"
  let ?rs = "\<lambda>(n :: nat) s. case s of None \<Rightarrow> None | Some i \<Rightarrow> Some (min i (n - 1))"
  have "\<exists>w. watch_run ?cli (\<lambda>_. Some ab_event) ?rs [([98, newline], Some KeyPageDown), ([], Some KeyUp)] watcher_start = Some w"
    by (simp add: watch_turn_def on_log_line_def trimmed_ab ab_lines ab_bytes show_event_def handle_key_def Let_def
        del: valid_utf8.simps read_lines.simps(2))
  then obtain w where w: "watch_run ?cli (\<lambda>_. Some ab_event) ?rs [([98, newline], Some KeyPageDown), ([], Some KeyUp)] watcher_start = Some w" by blast
  have b: "min i (n - 1) < max 1 n" for i n :: nat by (cases n) (simp_all add: min_less_iff_disj less_max_iff_disj)
  have "\<And>n s i. ?rs n s = Some i \<Longrightarrow> i < max 1 n"
  proof -
    fix n s i assume "?rs n s = Some i"
    then obtain j where "i = min j (n - 1)" by (cases s) auto
    then show "i < max 1 n" by (simp only: b)
  qed
  from watcher_stays_bounded [of ?rs, OF this w] w show ?thesis by auto
qed

end
