(* ===== verification/Event_Log.thy ===== *)
theory Event_Log
  imports Watch "HOL-Library.Sublist"
begin

text \<open>
  How events reach the log: the broadcast channel of capacity 32 between the producers and the
  action task of \<open>spawn_all\<close> (\<open>src/src/runtime.rs\<close>), which hands every event it receives to
  \<open>on_event\<close>. A receiver that is 32 events behind loses the oldest for every new one and is told
  so by its next \<open>recv\<close>; \<open>recv\<close> reports the end once every sender is gone and nothing is left.
\<close>

section \<open>The channel and its reader\<close>

definition EVENT_CHANNEL_CAP :: nat where "EVENT_CHANNEL_CAP = 32"

text \<open>What the reader has still to receive, how many it was overrun by, and what it has logged.\<close>

record action_task =
  ac_unread :: "spoofing_event list"
  ac_skipped :: nat
  ac_logged :: "spoofing_event list"
  ac_lost :: nat
  ac_ended :: bool

definition action_start :: action_task where
  "action_start = \<lparr>ac_unread = [], ac_skipped = 0, ac_logged = [], ac_lost = 0, ac_ended = False\<rparr>"

definition broadcast :: "spoofing_event \<Rightarrow> action_task \<Rightarrow> action_task" where
  "broadcast ev a =
     (if length (ac_unread a) < EVENT_CHANNEL_CAP then a\<lparr>ac_unread := ac_unread a @ [ev]\<rparr>
      else a\<lparr>ac_unread := tl (ac_unread a) @ [ev], ac_skipped := ac_skipped a + 1, ac_lost := ac_lost a + 1\<rparr>)"

text \<open>One turn of the task: \<open>gone\<close> says that every sender is gone.\<close>

definition action_turn :: "bool \<Rightarrow> action_task \<Rightarrow> action_task" where
  "action_turn gone a =
     (if ac_ended a then a
      else if ac_skipped a > 0 then a\<lparr>ac_skipped := 0\<rparr>
      else case ac_unread a of
        ev # rest \<Rightarrow> a\<lparr>ac_unread := rest, ac_logged := ac_logged a @ [ev]\<rparr>
      | [] \<Rightarrow> if gone then a\<lparr>ac_ended := True\<rparr> else a)"

datatype log_input = Sent spoofing_event | Turn

definition log_step :: "log_input \<Rightarrow> action_task \<Rightarrow> action_task" where
  "log_step i a = (case i of Sent ev \<Rightarrow> broadcast ev a | Turn \<Rightarrow> action_turn False a)"

definition sent_of :: "log_input list \<Rightarrow> spoofing_event list" where
  "sent_of is = List.map_filter (\<lambda>i. case i of Sent ev \<Rightarrow> Some ev | Turn \<Rightarrow> None) is"

lemma sent_of_simps [simp]:
  "sent_of [] = []" "sent_of (xs @ ys) = sent_of xs @ sent_of ys" "sent_of (Sent ev # xs) = ev # sent_of xs"
  "sent_of (Turn # xs) = sent_of xs"
  by (simp_all add: sent_of_def List.map_filter_def)

section \<open>The log is faithful\<close>

text \<open>The state of the reader after the events \<open>sent\<close> were broadcast.\<close>

definition log_inv :: "spoofing_event list \<Rightarrow> action_task \<Rightarrow> bool" where
  "log_inv sent a \<longleftrightarrow>
     subseq (ac_logged a @ ac_unread a) sent \<and> length sent = length (ac_logged a) + length (ac_unread a) + ac_lost a
     \<and> length (ac_unread a) \<le> EVENT_CHANNEL_CAP \<and> ac_skipped a \<le> ac_lost a"

lemma log_inv_start [simp]: "log_inv [] action_start"
  by (simp add: log_inv_def action_start_def)

lemma log_inv_broadcast: "log_inv sent a \<Longrightarrow> log_inv (sent @ [ev]) (broadcast ev a)"
proof (cases "length (ac_unread a) < EVENT_CHANNEL_CAP")
  case False
  assume inv: "log_inv sent a"
  then obtain u us where u: "ac_unread a = u # us"
    using False by (cases "ac_unread a") (auto simp: log_inv_def EVENT_CHANNEL_CAP_def)
  have "subseq (ac_logged a @ us) (ac_logged a @ u # us)"
    using list_emb_append_mono [OF subseq_order.refl list_emb_Cons [OF subseq_order.refl]] .
  then have "subseq (ac_logged a @ us) sent"
    using inv subseq_order.trans by (auto simp: log_inv_def u)
  then have "subseq ((ac_logged a @ us) @ [ev]) (sent @ [ev])"
    by (intro list_emb_append_mono) simp_all
  then show ?thesis
    using inv False by (simp add: log_inv_def broadcast_def u EVENT_CHANNEL_CAP_def)
next
  case True
  assume inv: "log_inv sent a"
  then have "subseq ((ac_logged a @ ac_unread a) @ [ev]) (sent @ [ev])"
    by (intro list_emb_append_mono) (simp_all add: log_inv_def)
  then show ?thesis using inv True by (simp add: log_inv_def broadcast_def)
qed

lemma log_inv_turn: "log_inv sent a \<Longrightarrow> log_inv sent (action_turn gone a)"
  by (auto simp: log_inv_def action_turn_def split: list.split)

lemma log_inv_run: "log_inv sent a \<Longrightarrow> log_inv (sent @ sent_of is) (fold log_step is a)"
proof (induction "is" arbitrary: sent a)
  case (Cons i "is")
  show ?case
  proof (cases i)
    case (Sent ev)
    with Cons.IH [OF log_inv_broadcast [OF Cons.prems, of ev]] show ?thesis by (simp add: log_step_def)
  next
    case Turn
    with Cons.IH [OF log_inv_turn [OF Cons.prems]] show ?thesis by (simp add: log_step_def)
  qed
qed simp

lemma log_inv_complete:
  assumes "log_inv sent a" and "ac_lost a = 0"
  shows "sent = ac_logged a @ ac_unread a"
proof -
  have "length (ac_logged a @ ac_unread a) = length sent" using assms by (simp add: log_inv_def)
  moreover have "subseq (ac_logged a @ ac_unread a) sent" using assms(1) by (simp add: log_inv_def)
  ultimately show ?thesis using subseq_same_length by metis
qed

text \<open>
  The log never lies: whatever is broadcast and however slowly it is written, the log is a
  part of what was broadcast, in order; every event is logged, waiting or counted as lost, at
  most 32 wait, and if none was lost the log and what waits are exactly what was broadcast.
\<close>

theorem event_log_faithful:
  "subseq (ac_logged (fold log_step is action_start)) (sent_of is)
   \<and> length (sent_of is) = length (ac_logged (fold log_step is action_start))
       + length (ac_unread (fold log_step is action_start)) + ac_lost (fold log_step is action_start)
   \<and> length (ac_unread (fold log_step is action_start)) \<le> 32
   \<and> (ac_lost (fold log_step is action_start) = 0
        \<longrightarrow> sent_of is = ac_logged (fold log_step is action_start) @ ac_unread (fold log_step is action_start))"
proof -
  have inv: "log_inv (sent_of is) (fold log_step is action_start)"
    using log_inv_run [OF log_inv_start] by simp
  then have "subseq (ac_logged (fold log_step is action_start)) (sent_of is)"
    using subseq_order.trans [OF list_emb_prefix [OF subseq_order.refl]] unfolding log_inv_def by blast
  with inv log_inv_complete [OF inv] show ?thesis by (simp add: log_inv_def EVENT_CHANNEL_CAP_def)
qed

theorem event_log_faithful_witness:
  "\<forall>ev. sent_of [Sent ev, Turn] = ac_logged (fold log_step [Sent ev, Turn] action_start)"
proof
  fix ev
  show "sent_of [Sent ev, Turn] = ac_logged (fold log_step [Sent ev, Turn] action_start)"
    using event_log_faithful [of "[Sent ev, Turn]"]
    by (simp add: log_step_def broadcast_def action_turn_def action_start_def EVENT_CHANNEL_CAP_def)
qed

text \<open>Once the channel is closed the reader ends after one turn per event and two more.\<close>

lemma action_turns_flush:
  assumes "\<not> ac_ended a" and "length (ac_unread a) + 1 < n"
  shows "ac_ended ((action_turn True ^^ n) a) \<and> ac_unread ((action_turn True ^^ n) a) = []
    \<and> ac_logged ((action_turn True ^^ n) a) = ac_logged a @ ac_unread a"
proof -
  have stop: "ac_ended a \<Longrightarrow> (action_turn True ^^ k) a = a" for k a
    by (induction k) (simp_all add: action_turn_def)
  have clean: "ac_ended ((action_turn True ^^ n) a) \<and> ac_unread ((action_turn True ^^ n) a) = []
      \<and> ac_logged ((action_turn True ^^ n) a) = ac_logged a @ ac_unread a"
    if "\<not> ac_ended a" "ac_skipped a = 0" "length (ac_unread a) < n" for a n
    using that
  proof (induction n arbitrary: a)
    case (Suc n)
    show ?case
    proof (cases "ac_unread a")
      case Nil
      then have "action_turn True a = a\<lparr>ac_ended := True\<rparr>" using Suc.prems by (simp add: action_turn_def)
      then show ?thesis using Nil by (simp add: funpow_Suc_right stop del: funpow.simps)
    next
      case (Cons ev rest)
      then have "action_turn True a = a\<lparr>ac_unread := rest, ac_logged := ac_logged a @ [ev]\<rparr>"
        using Suc.prems by (simp add: action_turn_def)
      with Suc.IH [of "a\<lparr>ac_unread := rest, ac_logged := ac_logged a @ [ev]\<rparr>"] Suc.prems Cons show ?thesis
        by (simp add: funpow_Suc_right del: funpow.simps)
    qed
  qed simp
  show ?thesis
  proof (cases "ac_skipped a = 0")
    case True
    then show ?thesis using clean assms by simp
  next
    case False
    obtain m where m: "n = Suc m" using assms(2) by (cases n) simp_all
    have "action_turn True a = a\<lparr>ac_skipped := 0\<rparr>" using False assms(1) by (simp add: action_turn_def)
    with clean [of "a\<lparr>ac_skipped := 0\<rparr>" m] assms show ?thesis
      by (simp add: m funpow_Suc_right del: funpow.simps)
  qed
qed

section \<open>How much one turn of the detector broadcasts\<close>

lemma events_of_event [simp]: "events_of (event_of fu t k r d # xs) = spoofing_event_new t k (sm_state (fu_fsm fu)) r d (fu_boot fu) # events_of xs"
  by (simp add: event_of_def)

lemma fsm_events_le: "fsm_evaluate r t hp sn sm = (evs, sm') \<Longrightarrow> length (filter is_transition evs) \<le> 1 \<and> length evs \<le> 2 + length (filter is_transition evs)"
proof (cases rule: fsm_evaluate_cases [of sm r t hp sn])
  case (step j d sm3 sm4 es firing)
  assume "fsm_evaluate r t hp sn sm = (evs, sm')"
  then have "evs = detector_events j d @ es" using step(5) by simp
  moreover have "length (detector_events j d) \<le> 2 \<and> filter is_transition (detector_events j d) = []"
    by (simp add: detector_events_def is_transition_def split: option.split)
  moreover have "length es \<le> 1 \<and> filter is_transition es = es"
    using step(4) by (cases rule: transition_cases) (simp_all add: is_transition_def)
  ultimately show ?thesis by simp
qed simp

lemma action_events_le: "length (events_of (snd (try_action_result env fx which fu))) \<le> 1"
  by (simp add: try_action_result_def split: option.split sum.split)

lemma dump_events_le: "length (events_of (snd (maybe_trigger_forensic_dump env from r ev fu))) \<le> 1"
  by (simp add: maybe_trigger_forensic_dump_def Let_def case_prod_beta split: option.split)

lemma spoofed_events_le: "length (events_of (snd (spoofed_actions env fx from r ev fu))) \<le> 4"
proof -
  let ?fu = "fst (maybe_trigger_forensic_dump env from r ev fu)"
  show ?thesis
    using dump_events_le [of env "from" r ev fu] action_events_le [of env fx "''sever_gps''" ?fu]
      action_events_le [of env fx "''engage_rtb''" ?fu]
    by (simp add: spoofed_actions_def Let_def case_prod_beta)
qed

lemma handle_event_le: "length (events_of (snd (handle_event env fx t g r pre ev fu))) \<le> (if is_transition ev then 5 else 1)"
proof (cases ev)
  case (EvTransition a b)
  then show ?thesis
    using spoofed_events_le [of env fx a r ev "fu\<lparr>fu_nav := set_state b (fu_nav fu)\<rparr>"]
    by (auto simp: handle_event_def is_transition_def emit_def Let_def case_prod_beta split: sum.split)
qed (auto simp: handle_event_def is_transition_def emit_def Let_def case_prod_beta split: sum.split)

lemma handle_events_le:
  "length (events_of (snd (handle_events env fx t g r pre evs fu))) \<le> length evs + 4 * length (filter is_transition evs)"
proof (induction evs arbitrary: fu)
  case (Cons ev evs)
  show ?case
    using handle_event_le [of env fx t g r pre ev fu] Cons.IH [of "fst (handle_event env fx t g r pre ev fu)"]
    by (auto simp: Let_def case_prod_beta split: if_splits)
qed simp

lemma evaluate_events_le: "length (events_of (snd (evaluate_fix env fx t g r fu))) \<le> 7"
proof -
  obtain evs fsm2 where ev: "fsm_evaluate r t (hdop fx) (sats fx) (gated_fsm r fu) = (evs, fsm2)" by (metis surj_pair)
  then show ?thesis
    using fsm_events_le [OF ev] handle_events_le [of env fx t g r "suspicious_since (fu_fsm fu)" evs "fu\<lparr>fu_fsm := fsm2\<rparr>"]
    by (simp add: evaluate_fix_def gated_fsm_def [symmetric] Let_def case_prod_beta)
qed

lemma stage_events_le:
  "length (events_of (snd (note_dropout fx t fu))) \<le> 1" "length (events_of (snd (vertical_check fx t r fu))) \<le> 1"
  "length (events_of (snd (doppler_streak fx r fu))) \<le> 1"
  "frozen_decision fx gap v r fu = Some (fu', outs) \<Longrightarrow> length (events_of outs) \<le> 1"
  "length (events_of (snd (refresh_preflight env s stamp fu))) \<le> 1"
  by (auto simp: note_dropout_def vertical_check_def doppler_streak_def frozen_decision_def refresh_preflight_def Let_def
      split: if_splits option.splits)

lemma ready_events_le:
  assumes "ready_fix env fx g fu = Some (fu', outs)"
  shows "length (events_of outs) \<le> 11"
proof -
  let ?t = "fu_secs fu (mono (fix_t fx))"
  obtain fu1 o1 where nd: "note_dropout fx ?t fu = (fu1, o1)" by (metis surj_pair)
  define fu2 where "fu2 = (if frozen_candidate env fx fu1 then fu1 else restart_frozen fx fu1)"
  have o1: "length (events_of o1) \<le> 1" using stage_events_le(1) [of fx ?t fu] nd by simp
  note eq = assms [unfolded ready_fix_def Let_def nd, simplified, folded fu2_def]
  show ?thesis
  proof (cases "interpolate (fu_buffer fu2) ?t")
    case (Inl e)
    then show ?thesis using eq o1 by auto
  next
    case (Inr pv)
    obtain p v where pv: "pv = (p, v)" by force
    define r where "r = residual_of env fx g p v (fu_nav fu2)"
    define dec where "dec = (if frozen_candidate env fx fu1
        then frozen_decision fx (dropout_gap ?t fu) v r (forensic_fix fx ?t r fu2)
        else Some (forensic_fix fx ?t r fu2, []))"
    note eq2 = eq [unfolded Inr pv sum.case prod.case, folded r_def, folded dec_def]
    then obtain fu4 o2 where d: "dec = Some (fu4, o2)" by (cases dec) auto
    then have o2: "length (events_of o2) \<le> 1"
      using stage_events_le(4) by (auto simp: dec_def split: if_splits)
    obtain fu5 o3 where v: "vertical_check fx ?t r fu4 = (fu5, o3)" by (metis surj_pair)
    obtain fu6 o4 where dp: "doppler_streak fx r fu5 = (fu6, o4)" by (metis surj_pair)
    obtain fu7 o5 where e: "evaluate_fix env fx ?t g r fu6 = (fu7, o5)" by (metis surj_pair)
    have "outs = o1 @ o2 @ o3 @ o4 @ o5" using eq2 d v dp e by auto
    then show ?thesis
      using o1 o2 stage_events_le(2) [of fx ?t r fu4] stage_events_le(3) [of fx r fu5] evaluate_events_le [of env fx ?t g r fu6]
      by (simp add: v dp e)
  qed
qed

lemma turn_events_le:
  assumes "loop_step l i outs l'"
  shows "length (events_of outs) \<le> 11"
  using assms
proof (cases rule: loop_step_cases)
  case (gps env fx)
  then show ?thesis
  proof (cases rule: on_gps_cases)
    case first
    then show ?thesis using stage_events_le(5) [of env "fu_secs (l_fusion l) (mono (fix_t fx))" "fix_t fx"] by (metis le_trans numeral_One one_le_numeral snd_conv)
  next
    case (gated g)
    then show ?thesis using stage_events_le(5) [of env "fu_secs (l_fusion l) (mono (fix_t fx))" "fix_t fx" "l_fusion l"]
      by (auto simp: preflight_fix_def Let_def split: prod.splits if_splits)
  next
    case (ready g)
    then show ?thesis using ready_events_le by blast
  qed simp
next
  case (reset env)
  then show ?thesis by (auto simp: operator_reset_def Let_def)
qed simp_all

section \<open>The log of a run\<close>

text \<open>
  A run of the detector with its log: before each turn the log is at most 21 events behind;
  while the turn broadcasts its events, and afterwards, the action task takes any turns.
\<close>

inductive logged_run :: "fusion_loop \<Rightarrow> loop_input list \<Rightarrow> fusion_out list \<Rightarrow> fusion_loop \<Rightarrow> action_task \<Rightarrow> bool" where
  start: "logged_run l [] [] l action_start"
| turn: "logged_run l ins outs l' a \<Longrightarrow> loop_step l' i o' l'' \<Longrightarrow> length (ac_unread a) \<le> 21 \<Longrightarrow> sent_of is = events_of o'
    \<Longrightarrow> logged_run l (ins @ [i]) (outs @ o') l'' (fold log_step is a)"
| idle: "logged_run l ins outs l' a \<Longrightarrow> logged_run l ins outs l' (action_turn False a)"

lemma roomy_run:
  "length (ac_unread a) + length (sent_of is) \<le> 32 \<Longrightarrow> ac_lost (fold log_step is a) = ac_lost a"
proof (induction "is" arbitrary: a)
  case (Cons i "is")
  show ?case
  proof (cases i)
    case (Sent ev)
    then show ?thesis using Cons.prems Cons.IH [of "broadcast ev a"]
      by (simp add: log_step_def broadcast_def EVENT_CHANNEL_CAP_def)
  next
    case Turn
    have "length (ac_unread (action_turn False a)) \<le> length (ac_unread a)" "ac_lost (action_turn False a) = ac_lost a"
      by (auto simp: action_turn_def split: list.split)
    then show ?thesis using Turn Cons.prems Cons.IH [of "action_turn False a"] by (simp add: log_step_def)
  qed
qed simp

lemma logged_run_inv:
  "logged_run l ins outs l' a \<Longrightarrow> loop_run l ins outs l' \<and> log_inv (events_of outs) a \<and> ac_lost a = 0"
proof (induction rule: logged_run.induct)
  case (turn l ins outs l' a i o' l'' "is")
  then have "ac_lost (fold log_step is a) = 0"
    using roomy_run [of a "is"] turn_events_le [OF turn(2)] by simp
  with turn log_inv_run [of "events_of outs" a "is"] loop_run.more show ?case by auto
next
  case (idle l ins outs l' a)
  moreover have "ac_lost (action_turn False a) = ac_lost a" by (auto simp: action_turn_def split: list.split)
  ultimately show ?case using log_inv_turn by auto
qed (simp_all add: loop_run.start, simp add: action_start_def)

text \<open>
  C24. The channel is large enough for the detector: a turn of the loop broadcasts at most 11
  events, so a log that is at most 21 events behind at the start of every turn loses none,
  however the turns interleave: what is logged and what waits are, in order, exactly the events
  of the run.
\<close>

theorem detector_log_complete:
  assumes "logged_run l0 ins outs l a"
  shows "ac_logged a @ ac_unread a = events_of outs \<and> loop_run l0 ins outs l
    \<and> (\<forall>i o' l'. loop_step l i o' l' \<longrightarrow> length (events_of o') \<le> 11)"
  using logged_run_inv [OF assms] log_inv_complete turn_events_le by metis


theorem detector_log_complete_witness:
  "\<exists>l0 l outs a. logged_run l0 [LPoll bench_env Pending Pending (Item ())] outs l a
     \<and> ac_logged a = events_of outs \<and> length (events_of outs) = 1"
proof -
  obtain l0 where s: "spawn_all fusion_config_default None None 0 = Some (Inr l0)" using default_starts by blast
  obtain fu outs where r: "operator_reset bench_env (l_fusion l0) = (fu, outs)" by (metis surj_pair)
  then obtain ev where ev: "outs = [OEvent ev]" by (rule operator_reset_shape)
  have "loop_step l0 (LPoll bench_env Pending Pending (Item ())) outs (l0\<lparr>l_fusion := fu\<rparr>)"
    using spawn_all_inv(5) [OF s] r by (auto intro: loop_step.poll simp: select_step_def loop_running_def)
  from logged_run.turn [OF logged_run.start this, of "[Sent ev, Turn]"] ev
  have run: "logged_run l0 [LPoll bench_env Pending Pending (Item ())] outs (l0\<lparr>l_fusion := fu\<rparr>)
      (fold log_step [Sent ev, Turn] action_start)"
    by (simp add: action_start_def)
  moreover have "ac_unread (fold log_step [Sent ev, Turn] action_start) = []"
    by (simp add: log_step_def broadcast_def action_turn_def action_start_def EVENT_CHANNEL_CAP_def)
  ultimately show ?thesis
    using detector_log_complete [OF run] ev by (intro exI [of _ l0] exI) auto
qed

end
