(* ===== verification/Startup.thy ===== *)
theory Startup
  imports Runtime Mav_Link Imu_Driver Nmea_Link
begin

text \<open>
  From the command line to a running detector: \<open>src/src/config.rs\<close> and the start-up and
  exit logic of \<open>src/src/bin/flyingsquirrel.rs\<close>. The command-line parser and the TOML
  parser are third-party crates: the parsed command line, which of its arguments were given
  explicitly, and the parsed file are inputs. Parsing a socket address and a decimal number
  are the parameters \<open>parse_addr\<close> and \<open>parse_f64\<close>. Opening sockets and files and the
  creation of the log are I/O and taken to succeed.
\<close>

section \<open>The configuration file\<close>

record sources_cfg =
  sc_gps_source :: string
  sc_imu_source :: string
  sc_controller :: string

record scenario_cfg =
  sn_scenario :: string
  sn_seed :: u64

record serial_cfg =
  se_gps_port :: string
  se_gps_baud :: u32

record i2c_cfg =
  ic_imu_bus :: string
  ic_imu_addr :: u8
  ic_imu_rate :: f32
  ic_axis_map :: string

record mav_cfg =
  mc_bind :: string
  mc_target :: string
  mc_target_system :: u8
  mc_target_component :: u8
  mc_no_source_filter :: bool
  mc_no_sysid_filter :: bool
  mc_allow_any_source_port :: bool
  mc_vehicle :: "string option"

record forensic_toml =
  ft_dir :: "string option"
  ft_window_s :: "f64 option"

record boot_anchor_cfg =
  ba_expected_home :: "string option"
  ba_max_home_distance_m :: "f64 option"
  ba_allow_no_check :: bool

record process_cfg =
  pr_duration :: "u32 option"
  pr_json_log :: "string option"
  pr_log_level :: string
  pr_allow_synth_to_mav :: bool

record app_config =
  ac_sources :: sources_cfg
  ac_scenario :: scenario_cfg
  ac_serial :: serial_cfg
  ac_i2c :: i2c_cfg
  ac_mav :: mav_cfg
  ac_boot :: boot_anchor_cfg
  ac_forensic :: forensic_toml
  ac_process :: process_cfg

definition app_config_default :: app_config where
  "app_config_default =
     \<lparr>ac_sources = \<lparr>sc_gps_source = ''synth'', sc_imu_source = ''synth'', sc_controller = ''console''\<rparr>,
      ac_scenario = \<lparr>sn_scenario = ''gradual-drift'', sn_seed = 0x7F1F518400000000\<rparr>,
      ac_serial = \<lparr>se_gps_port = ''/dev/ttyUSB0'', se_gps_baud = 9600\<rparr>,
      ac_i2c = \<lparr>ic_imu_bus = ''/dev/i2c-1'', ic_imu_addr = 0x68, ic_imu_rate = FNum 100, ic_axis_map = ''X,Y,Z''\<rparr>,
      ac_mav = \<lparr>mc_bind = ''127.0.0.1:14551'', mc_target = ''127.0.0.1:14550'', mc_target_system = 1,
        mc_target_component = 1, mc_no_source_filter = False, mc_no_sysid_filter = False,
        mc_allow_any_source_port = False, mc_vehicle = None\<rparr>,
      ac_boot = \<lparr>ba_expected_home = None, ba_max_home_distance_m = None, ba_allow_no_check = False\<rparr>,
      ac_forensic = \<lparr>ft_dir = None, ft_window_s = None\<rparr>,
      ac_process = \<lparr>pr_duration = None, pr_json_log = None, pr_log_level = ''info'', pr_allow_synth_to_mav = False\<rparr>\<rparr>"

text \<open>The names of the bypasses a file tries to switch on, in the order of the table.\<close>

definition bypass_table :: "app_config \<Rightarrow> (string \<times> bool) list" where
  "bypass_table c =
     [(''process.allow_synth_to_mav'', pr_allow_synth_to_mav (ac_process c)),
      (''boot_anchor.allow_no_boot_anchor_check'', ba_allow_no_check (ac_boot c)),
      (''mav.no_source_filter'', mc_no_source_filter (ac_mav c)),
      (''mav.no_sysid_filter'', mc_no_sysid_filter (ac_mav c)),
      (''mav.allow_any_source_port'', mc_allow_any_source_port (ac_mav c))]"

datatype load_error = ReadFailed string | ParseFailed string | BypassInFile "string list"

definition reject_toml_safety_bypasses :: "app_config \<Rightarrow> load_error + unit" where
  "reject_toml_safety_bypasses c =
     (let offenders = map fst (filter snd (bypass_table c))
      in if offenders \<noteq> [] then Inl (BypassInFile offenders) else Inr ())"

text \<open>What reading and parsing the file gives, when a path was given.\<close>

datatype file_result = NoPath | Unreadable string | Unparsable string | Parsed app_config

definition load_config :: "file_result \<Rightarrow> load_error + app_config" where
  "load_config f =
     (case f of
        NoPath \<Rightarrow> Inr app_config_default
      | Unreadable e \<Rightarrow> Inl (ReadFailed e)
      | Unparsable e \<Rightarrow> Inl (ParseFailed e)
      | Parsed c \<Rightarrow> (case reject_toml_safety_bypasses c of Inl e \<Rightarrow> Inl e | Inr _ \<Rightarrow> Inr c))"

section \<open>The command line\<close>

datatype gps_source_kind = GpsSynth | GpsMav | GpsSerial
datatype imu_source_kind = ImuSynth | ImuMav | ImuI2c
datatype controller_kind = ConsoleControl | MavControl
datatype scenario = ScnClean | ScnSuddenJump | ScnGradualDrift

record cli =
  print_config :: bool
  gps_source :: gps_source_kind
  imu_source :: imu_source_kind
  controller :: controller_kind
  scenario_kind :: scenario
  seed :: u64
  gps_port :: string
  gps_baud :: u32
  imu_bus :: string
  imu_addr :: u8
  imu_rate :: f32
  imu_axis_map :: string
  mav_bind :: socket_addr
  mav_target :: socket_addr
  mav_target_system :: u8
  mav_target_component :: u8
  mav_no_source_filter :: bool
  mav_no_sysid_filter :: bool
  mav_allow_any_source_port :: bool
  allow_synth_to_mav :: bool
  allow_no_boot_anchor_check :: bool
  cli_forensic_dir :: "string option"
  forensic_window_s :: f64
  vehicle :: "vehicle_profile option"
  expected_home_arg :: "string option"
  max_home_distance_arg :: f64
  duration_s :: u32
  json_log :: "string option"
  log_level :: string

text \<open>The arguments \<open>cli_explicit\<close> is asked about.\<close>

datatype arg =
    AGpsSource | AImuSource | AController | AScenario | ASeed | AGpsPort | AGpsBaud | AImuBus | AImuAddr
  | AImuRate | AImuAxisMap | AMavBind | AMavTarget | AMavTargetSystem | AMavTargetComponent
  | AMavNoSourceFilter | AMavNoSysidFilter | AMavAllowAnySourcePort | AVehicle | AExpectedHome
  | AMaxHomeDistance | AAllowNoBootAnchorCheck | AForensicDir | AForensicWindow | ADuration | AJsonLog
  | ALogLevel | AAllowSynthToMav

datatype start_error =
    LoadError load_error | UnknownValue string string | BadAddress string string | BadVehicle string
  | SynthToMav | NoDuration | NoVehicle | NoBootAnchor | BadAxisMap axis_error | BadHome string
  | SpawnError startup_error

definition parse_gps_source :: "string \<Rightarrow> start_error + gps_source_kind" where
  "parse_gps_source s =
     (if s = ''synth'' then Inr GpsSynth else if s = ''mav'' then Inr GpsMav
      else if s = ''serial'' then Inr GpsSerial else Inl (UnknownValue ''gps_source'' s))"

definition parse_imu_source :: "string \<Rightarrow> start_error + imu_source_kind" where
  "parse_imu_source s =
     (if s = ''synth'' then Inr ImuSynth else if s = ''mav'' then Inr ImuMav
      else if s = ''i2c'' then Inr ImuI2c else Inl (UnknownValue ''imu_source'' s))"

definition parse_controller :: "string \<Rightarrow> start_error + controller_kind" where
  "parse_controller s =
     (if s = ''console'' then Inr ConsoleControl else if s = ''mav'' then Inr MavControl
      else Inl (UnknownValue ''controller'' s))"

definition parse_scenario :: "string \<Rightarrow> start_error + scenario" where
  "parse_scenario s =
     (if s = ''clean'' then Inr ScnClean
      else if s \<in> {''sudden-jump'', ''sudden_jump''} then Inr ScnSuddenJump
      else if s \<in> {''gradual-drift'', ''gradual_drift''} then Inr ScnGradualDrift
      else Inl (UnknownValue ''scenario'' s))"

section \<open>Merging\<close>

text \<open>One field: an explicit argument wins, otherwise the file's value is taken.\<close>

definition when_unset :: "(arg \<Rightarrow> bool) \<Rightarrow> arg \<Rightarrow> (cli \<Rightarrow> start_error + cli) \<Rightarrow> cli \<Rightarrow> start_error + cli" where
  "when_unset ex a f c = (if ex a then Inr c else f c)"

fun run_steps :: "(cli \<Rightarrow> start_error + cli) list \<Rightarrow> cli \<Rightarrow> start_error + cli" where
  "run_steps [] c = Inr c"
| "run_steps (f # fs) c = (case f c of Inl e \<Rightarrow> Inl e | Inr c' \<Rightarrow> run_steps fs c')"

definition merge_steps ::
    "(string \<Rightarrow> string + socket_addr) \<Rightarrow> (arg \<Rightarrow> bool) \<Rightarrow> app_config \<Rightarrow> (cli \<Rightarrow> start_error + cli) list" where
  "merge_steps parse_addr ex cfg =
     [when_unset ex AGpsSource (\<lambda>c. map_sum id (\<lambda>v. c\<lparr>gps_source := v\<rparr>) (parse_gps_source (sc_gps_source (ac_sources cfg)))),
      when_unset ex AImuSource (\<lambda>c. map_sum id (\<lambda>v. c\<lparr>imu_source := v\<rparr>) (parse_imu_source (sc_imu_source (ac_sources cfg)))),
      when_unset ex AController (\<lambda>c. map_sum id (\<lambda>v. c\<lparr>controller := v\<rparr>) (parse_controller (sc_controller (ac_sources cfg)))),
      when_unset ex AScenario (\<lambda>c. map_sum id (\<lambda>v. c\<lparr>scenario_kind := v\<rparr>) (parse_scenario (sn_scenario (ac_scenario cfg)))),
      when_unset ex ASeed (\<lambda>c. Inr (c\<lparr>seed := sn_seed (ac_scenario cfg)\<rparr>)),
      when_unset ex AGpsPort (\<lambda>c. Inr (c\<lparr>gps_port := se_gps_port (ac_serial cfg)\<rparr>)),
      when_unset ex AGpsBaud (\<lambda>c. Inr (c\<lparr>gps_baud := se_gps_baud (ac_serial cfg)\<rparr>)),
      when_unset ex AImuBus (\<lambda>c. Inr (c\<lparr>imu_bus := ic_imu_bus (ac_i2c cfg)\<rparr>)),
      when_unset ex AImuAddr (\<lambda>c. Inr (c\<lparr>imu_addr := ic_imu_addr (ac_i2c cfg)\<rparr>)),
      when_unset ex AImuRate (\<lambda>c. Inr (c\<lparr>imu_rate := ic_imu_rate (ac_i2c cfg)\<rparr>)),
      when_unset ex AImuAxisMap (\<lambda>c. Inr (c\<lparr>imu_axis_map := ic_axis_map (ac_i2c cfg)\<rparr>)),
      when_unset ex AMavBind (\<lambda>c. case parse_addr (mc_bind (ac_mav cfg)) of
          Inl e \<Rightarrow> Inl (BadAddress ''mav.bind'' e) | Inr a \<Rightarrow> Inr (c\<lparr>mav_bind := a\<rparr>)),
      when_unset ex AMavTarget (\<lambda>c. case parse_addr (mc_target (ac_mav cfg)) of
          Inl e \<Rightarrow> Inl (BadAddress ''mav.target'' e) | Inr a \<Rightarrow> Inr (c\<lparr>mav_target := a\<rparr>)),
      when_unset ex AMavTargetSystem (\<lambda>c. Inr (c\<lparr>mav_target_system := mc_target_system (ac_mav cfg)\<rparr>)),
      when_unset ex AMavTargetComponent (\<lambda>c. Inr (c\<lparr>mav_target_component := mc_target_component (ac_mav cfg)\<rparr>)),
      when_unset ex AMavNoSourceFilter (\<lambda>c. Inr (c\<lparr>mav_no_source_filter := mc_no_source_filter (ac_mav cfg)\<rparr>)),
      when_unset ex AMavNoSysidFilter (\<lambda>c. Inr (c\<lparr>mav_no_sysid_filter := mc_no_sysid_filter (ac_mav cfg)\<rparr>)),
      when_unset ex AMavAllowAnySourcePort (\<lambda>c. Inr (c\<lparr>mav_allow_any_source_port := mc_allow_any_source_port (ac_mav cfg)\<rparr>)),
      when_unset ex AVehicle (\<lambda>c.
          if vehicle c = None then
            (case mc_vehicle (ac_mav cfg) of
               None \<Rightarrow> Inr c
             | Some v \<Rightarrow>
                 (case profile_from_str v of Inl e \<Rightarrow> Inl (BadVehicle e) | Inr p \<Rightarrow> Inr (c\<lparr>vehicle := Some p\<rparr>)))
          else Inr c),
      when_unset ex AExpectedHome (\<lambda>c. Inr (if expected_home_arg c = None then c\<lparr>expected_home_arg := ba_expected_home (ac_boot cfg)\<rparr> else c)),
      when_unset ex AMaxHomeDistance (\<lambda>c. Inr (case ba_max_home_distance_m (ac_boot cfg) of None \<Rightarrow> c | Some v \<Rightarrow> c\<lparr>max_home_distance_arg := v\<rparr>)),
      when_unset ex AAllowNoBootAnchorCheck (\<lambda>c. Inr (c\<lparr>allow_no_boot_anchor_check := ba_allow_no_check (ac_boot cfg)\<rparr>)),
      when_unset ex AForensicDir (\<lambda>c. Inr (if cli_forensic_dir c = None then c\<lparr>cli_forensic_dir := ft_dir (ac_forensic cfg)\<rparr> else c)),
      when_unset ex AForensicWindow (\<lambda>c. Inr (case ft_window_s (ac_forensic cfg) of None \<Rightarrow> c | Some v \<Rightarrow> c\<lparr>forensic_window_s := v\<rparr>)),
      when_unset ex ADuration (\<lambda>c. Inr (case pr_duration (ac_process cfg) of None \<Rightarrow> c | Some v \<Rightarrow> c\<lparr>duration_s := v\<rparr>)),
      when_unset ex AJsonLog (\<lambda>c. Inr (if json_log c = None then c\<lparr>json_log := pr_json_log (ac_process cfg)\<rparr> else c)),
      when_unset ex ALogLevel (\<lambda>c. Inr (c\<lparr>log_level := pr_log_level (ac_process cfg)\<rparr>)),
      when_unset ex AAllowSynthToMav (\<lambda>c. Inr (c\<lparr>allow_synth_to_mav := pr_allow_synth_to_mav (ac_process cfg)\<rparr>))]"

definition merge_config_into_cli ::
    "(string \<Rightarrow> string + socket_addr) \<Rightarrow> (arg \<Rightarrow> bool) \<Rightarrow> app_config \<Rightarrow> cli \<Rightarrow> start_error + cli" where
  "merge_config_into_cli parse_addr ex cfg c = run_steps (merge_steps parse_addr ex cfg) c"

section \<open>Printing the resolved configuration\<close>

definition gps_source_name :: "gps_source_kind \<Rightarrow> string" where
  "gps_source_name k = (case k of GpsSynth \<Rightarrow> ''synth'' | GpsMav \<Rightarrow> ''mav'' | GpsSerial \<Rightarrow> ''serial'')"

definition imu_source_name :: "imu_source_kind \<Rightarrow> string" where
  "imu_source_name k = (case k of ImuSynth \<Rightarrow> ''synth'' | ImuMav \<Rightarrow> ''mav'' | ImuI2c \<Rightarrow> ''i2c'')"

definition controller_name :: "controller_kind \<Rightarrow> string" where
  "controller_name k = (case k of ConsoleControl \<Rightarrow> ''console'' | MavControl \<Rightarrow> ''mav'')"

definition scenario_name :: "scenario \<Rightarrow> string" where
  "scenario_name k = (case k of ScnClean \<Rightarrow> ''clean'' | ScnSuddenJump \<Rightarrow> ''sudden-jump'' | ScnGradualDrift \<Rightarrow> ''gradual-drift'')"

definition cli_to_app_config :: "(socket_addr \<Rightarrow> string) \<Rightarrow> cli \<Rightarrow> app_config" where
  "cli_to_app_config show_addr c =
     \<lparr>ac_sources = \<lparr>sc_gps_source = gps_source_name (gps_source c), sc_imu_source = imu_source_name (imu_source c),
        sc_controller = controller_name (controller c)\<rparr>,
      ac_scenario = \<lparr>sn_scenario = scenario_name (scenario_kind c), sn_seed = seed c\<rparr>,
      ac_serial = \<lparr>se_gps_port = gps_port c, se_gps_baud = gps_baud c\<rparr>,
      ac_i2c = \<lparr>ic_imu_bus = imu_bus c, ic_imu_addr = imu_addr c, ic_imu_rate = imu_rate c, ic_axis_map = imu_axis_map c\<rparr>,
      ac_mav = \<lparr>mc_bind = show_addr (mav_bind c), mc_target = show_addr (mav_target c),
        mc_target_system = mav_target_system c, mc_target_component = mav_target_component c,
        mc_no_source_filter = mav_no_source_filter c, mc_no_sysid_filter = mav_no_sysid_filter c,
        mc_allow_any_source_port = mav_allow_any_source_port c, mc_vehicle = map_option profile_display (vehicle c)\<rparr>,
      ac_boot = \<lparr>ba_expected_home = expected_home_arg c, ba_max_home_distance_m = Some (max_home_distance_arg c),
        ba_allow_no_check = allow_no_boot_anchor_check c\<rparr>,
      ac_forensic = \<lparr>ft_dir = cli_forensic_dir c, ft_window_s = Some (forensic_window_s c)\<rparr>,
      ac_process = \<lparr>pr_duration = Some (duration_s c), pr_json_log = json_log c, pr_log_level = log_level c,
        pr_allow_synth_to_mav = allow_synth_to_mav c\<rparr>\<rparr>"

section \<open>The guards and the plan\<close>

definition synth_source :: "cli \<Rightarrow> bool" where
  "synth_source c \<longleftrightarrow> gps_source c = GpsSynth \<or> imu_source c = ImuSynth"

definition needs_mav :: "cli \<Rightarrow> bool" where
  "needs_mav c \<longleftrightarrow> gps_source c = GpsMav \<or> imu_source c = ImuMav \<or> controller c = MavControl"

text \<open>The refusals in program order; the result is the vehicle profile.\<close>

definition startup_guards :: "bool \<Rightarrow> cli \<Rightarrow> start_error + vehicle_profile option" where
  "startup_guards duration_explicit c =
     (if synth_source c \<and> controller c = MavControl \<and> \<not> allow_synth_to_mav c then Inl SynthToMav
      else if \<not> synth_source c \<and> \<not> duration_explicit then Inl NoDuration
      else case (if needs_mav c then (case vehicle c of Some v \<Rightarrow> Inr (Some v) | None \<Rightarrow> Inl NoVehicle) else Inr None) of
        Inl e \<Rightarrow> Inl e
      | Inr prof \<Rightarrow>
          if needs_mav c \<and> expected_home_arg c = None \<and> \<not> allow_no_boot_anchor_check c then Inl NoBootAnchor
          else Inr prof)"

definition mav_filter_of :: "cli \<Rightarrow> mav_filter" where
  "mav_filter_of c =
     \<lparr>allowed_source_ip = (if mav_no_source_filter c then None else Some (sa_ip (mav_target c))),
      autopilot_sysid = (if mav_no_sysid_filter c then None else Some (mav_target_system c)),
      allow_any_source_port = mav_allow_any_source_port c\<rparr>"

definition build_i2c_imu :: "cli \<Rightarrow> start_error + i2c_imu_config" where
  "build_i2c_imu c =
     (case axis_parse (imu_axis_map c) of
        Inl e \<Rightarrow> Inl (BadAxisMap e)
      | Inr m \<Rightarrow> Inr \<lparr>bus_path = imu_bus c, addr = imu_addr c, rate_hz = imu_rate c, cfg_axis_map = m\<rparr>)"

definition parse_home :: "(string \<Rightarrow> f64 option) \<Rightarrow> string \<Rightarrow> (f64 \<times> f64) option" where
  "parse_home parse_f64 h =
     (case split_on (CHR '','') h of
        a # b # _ \<Rightarrow>
          (case (parse_f64 (trim a), parse_f64 (trim b)) of
             (Some lat, Some lon) \<Rightarrow>
               if fle (fabs lat) (FNum 90) \<and> fle (fabs lon) (FNum 180) then Some (lat, lon) else None
           | _ \<Rightarrow> None)
      | _ \<Rightarrow> None)"

definition size_imu_gate :: "f32 \<Rightarrow> nav_config" where
  "size_imu_gate rate =
     (let period = (if fgt rate (FNum 0) then fdiv B32 (FNum 1) rate else FNum 0)
      in nav_config_default\<lparr>max_imu_dt_s :=
           fmax (fmul B32 (FNum (5 / 2)) period) (max_imu_dt_s nav_config_default)\<rparr>)"

definition nav_of_cli :: "(string \<Rightarrow> f64 option) \<Rightarrow> cli \<Rightarrow> start_error + nav_config" where
  "nav_of_cli parse_f64 c =
     (let nav = size_imu_gate (imu_rate c)
      in case expected_home_arg c of
           None \<Rightarrow> Inr nav
         | Some h \<Rightarrow>
             (case parse_home parse_f64 h of
                None \<Rightarrow> Inl (BadHome h)
              | Some home \<Rightarrow>
                  Inr (nav\<lparr>expected_home := Some home, max_home_distance_m := max_home_distance_arg c\<rparr>)))"

record launch_plan =
  lp_cli :: cli
  lp_filter :: "mav_filter option"
  lp_i2c :: "i2c_imu_config option"
  lp_fusion_cfg :: fusion_config
  lp_preflight :: "mav_preflight option"
  lp_forensic :: "forensic_cfg option"
  lp_duration_limit :: "duration option"

definition plan_launch :: "(string \<Rightarrow> f64 option) \<Rightarrow> bool \<Rightarrow> cli \<Rightarrow> start_error + launch_plan" where
  "plan_launch parse_f64 duration_explicit c =
     (case startup_guards duration_explicit c of
        Inl e \<Rightarrow> Inl e
      | Inr prof \<Rightarrow>
          (case (if imu_source c = ImuI2c then map_sum id Some (build_i2c_imu c) else Inr None) of
             Inl e \<Rightarrow> Inl e
           | Inr i2c \<Rightarrow>
               (case nav_of_cli parse_f64 c of
                  Inl e \<Rightarrow> Inl e
                | Inr nav \<Rightarrow>
                    Inr \<lparr>lp_cli = c,
                      lp_filter = (if needs_mav c then Some (mav_filter_of c) else None),
                      lp_i2c = i2c,
                      lp_fusion_cfg = fusion_config_default\<lparr>fc_nav := nav\<rparr>,
                      lp_preflight = (if needs_mav c
                        then map_option (\<lambda>p. \<lparr>mp_expected_autopilot = expected_autopilot_byte p\<rparr>) prof else None),
                      lp_forensic = map_option (\<lambda>d. \<lparr>fcfg_dir = d, fcfg_window_s = forensic_window_s c\<rparr>) (cli_forensic_dir c),
                      lp_duration_limit = (if duration_s c > 0 then Some (nanos_of_secs (unat (duration_s c) + 2)) else None)\<rparr>)))"

datatype start_outcome = Printed app_config | Launch launch_plan

definition start_up ::
    "(string \<Rightarrow> string + socket_addr) \<Rightarrow> (socket_addr \<Rightarrow> string) \<Rightarrow> (string \<Rightarrow> f64 option)
     \<Rightarrow> (arg \<Rightarrow> bool) \<Rightarrow> file_result \<Rightarrow> cli \<Rightarrow> start_error + start_outcome" where
  "start_up parse_addr show_addr parse_f64 ex f c =
     (case load_config f of
        Inl e \<Rightarrow> Inl (LoadError e)
      | Inr cfg \<Rightarrow>
          (case merge_config_into_cli parse_addr ex cfg c of
             Inl e \<Rightarrow> Inl e
           | Inr c \<Rightarrow>
               (let duration_explicit = (ex ADuration \<or> pr_duration (ac_process cfg) \<noteq> None)
                in if print_config c then Inr (Printed (cli_to_app_config show_addr c))
                   else map_sum id Launch (plan_launch parse_f64 duration_explicit c))))"

text \<open>What \<open>spawn_all\<close> makes of a plan; \<open>None\<close> is a panic.\<close>

definition launch :: "launch_plan \<Rightarrow> instant \<Rightarrow> (start_error + fusion_loop) option" where
  "launch p boot = map_option (map_sum SpawnError id) (spawn_all (lp_fusion_cfg p) (lp_preflight p) (lp_forensic p) boot)"

section \<open>The end of a run\<close>

datatype join_result = JoinOk | JoinError

datatype exit_reason =
    ExitCtrlC | ExitSigterm | ExitDurationElapsed | ExitSourceExhausted | ExitTaskDied string

definition classify_ingest_exit :: "string \<Rightarrow> join_result \<Rightarrow> bool \<Rightarrow> exit_reason" where
  "classify_ingest_exit task r synth =
     (if r = JoinOk \<and> synth then ExitSourceExhausted
      else if task = ''gps_ingest'' then ExitTaskDied ''gps_ingest''
      else if task = ''imu_ingest'' then ExitTaskDied ''imu_ingest''
      else ExitTaskDied ''unknown'')"

text \<open>What ends the supervisor's \<open>select!\<close>.\<close>

datatype end_event =
    CtrlCReceived | SigtermReceived | DurationReached | GpsIngestEnded join_result | ImuIngestEnded join_result
  | FusionEnded join_result | ActionEnded join_result | ListenerEnded join_result | WatchdogEnded join_result

definition exit_reason_of :: "bool \<Rightarrow> end_event \<Rightarrow> exit_reason" where
  "exit_reason_of synth e =
     (case e of
        CtrlCReceived \<Rightarrow> ExitCtrlC
      | SigtermReceived \<Rightarrow> ExitSigterm
      | DurationReached \<Rightarrow> ExitDurationElapsed
      | GpsIngestEnded r \<Rightarrow> classify_ingest_exit ''gps_ingest'' r synth
      | ImuIngestEnded r \<Rightarrow> classify_ingest_exit ''imu_ingest'' r synth
      | FusionEnded _ \<Rightarrow> ExitTaskDied ''fusion''
      | ActionEnded _ \<Rightarrow> ExitTaskDied ''action''
      | ListenerEnded _ \<Rightarrow> ExitTaskDied ''mav_listener''
      | WatchdogEnded _ \<Rightarrow> ExitTaskDied ''watchdog'')"

definition exit_code :: "exit_reason \<Rightarrow> nat" where
  "exit_code r = (case r of ExitTaskDied _ \<Rightarrow> 2 | _ \<Rightarrow> 0)"

section \<open>Bypasses come from the command line\<close>

lemma run_steps_append:
  "run_steps (xs @ ys) c = (case run_steps xs c of Inl e \<Rightarrow> Inl e | Inr c' \<Rightarrow> run_steps ys c')"
  by (induction xs arbitrary: c) (simp_all split: sum.splits)

definition keeps :: "(cli \<Rightarrow> 'a) \<Rightarrow> (cli \<Rightarrow> start_error + cli) \<Rightarrow> bool" where
  "keeps get f \<longleftrightarrow> (\<forall>c c'. f c = Inr c' \<longrightarrow> get c' = get c)"

lemma run_steps_keeps: "list_all (keeps get) fs \<Longrightarrow> run_steps fs c = Inr c' \<Longrightarrow> get c' = get c"
  by (induction fs arbitrary: c) (auto simp: keeps_def split: sum.splits)

lemma keeps_when_unset: "(\<And>c c'. f c = Inr c' \<Longrightarrow> get c' = get c) \<Longrightarrow> keeps get (when_unset ex a f)"
  by (simp add: keeps_def when_unset_def)

lemma keepsI [intro]:
  "(\<And>c c'. f c = Inr c' \<Longrightarrow> get c' = get c) \<Longrightarrow> keeps get (when_unset ex a f)"
  by (simp add: keeps_def when_unset_def)

lemma keeps_upd: "(\<And>c. get (upd c) = get c) \<Longrightarrow> keeps get (when_unset ex a (\<lambda>c. Inr (upd c)))"
  by (auto simp: keeps_def when_unset_def)

lemma keeps_if: "(\<And>c. get (upd c) = get c) \<Longrightarrow> keeps get (when_unset ex a (\<lambda>c. Inr (if P c then upd c else c)))"
  by (auto simp: keeps_def when_unset_def)

lemma keeps_opt:
  "(\<And>c v. get (upd c v) = get c) \<Longrightarrow> keeps get (when_unset ex a (\<lambda>c. Inr (case o' of None \<Rightarrow> c | Some v \<Rightarrow> upd c v)))"
  by (auto simp: keeps_def when_unset_def split: option.splits)

lemma merge_steps_length: "length (merge_steps pa ex cfg) = 28"
  by (simp add: merge_steps_def)

lemma merged_flag:
  assumes "merge_steps pa ex cfg ! n = when_unset ex a (\<lambda>c. Inr (upd c))" and "n < 28"
    and "list_all (keeps get) (drop (Suc n) (merge_steps pa ex cfg))" and "\<And>c. get (upd c) = v"
    and "merge_config_into_cli pa ex cfg c = Inr c'" and "\<not> v" and "get c'"
  shows "ex a"
proof (rule ccontr)
  assume n: "\<not> ex a"
  have "merge_steps pa ex cfg = take n (merge_steps pa ex cfg) @ merge_steps pa ex cfg ! n # drop (Suc n) (merge_steps pa ex cfg)"
    using assms(2) by (intro id_take_nth_drop) (simp add: merge_steps_length)
  with assms(1,5) obtain xs where "run_steps (xs @ when_unset ex a (\<lambda>c. Inr (upd c)) # drop (Suc n) (merge_steps pa ex cfg)) c = Inr c'"
    by (metis merge_config_into_cli_def)
  with n obtain c1 where c1: "run_steps (drop (Suc n) (merge_steps pa ex cfg)) (upd c1) = Inr c'"
    by (auto simp: run_steps_append when_unset_def split: sum.splits)
  from run_steps_keeps [OF assms(3) c1] assms(4,6,7) show False by simp
qed

lemma file_has_no_bypass:
  assumes "load_config f = Inr cfg"
  shows "\<not> pr_allow_synth_to_mav (ac_process cfg)" "\<not> ba_allow_no_check (ac_boot cfg)"
    "\<not> mc_no_source_filter (ac_mav cfg)" "\<not> mc_no_sysid_filter (ac_mav cfg)" "\<not> mc_allow_any_source_port (ac_mav cfg)"
  using assms
  by (auto simp: load_config_def app_config_default_def reject_toml_safety_bypasses_def bypass_table_def Let_def
      split: file_result.splits sum.splits if_splits)


lemmas merge_step_simps = merge_steps_def keeps_def when_unset_def

lemma merged_bypasses:
  assumes load: "load_config f = Inr cfg" and merge: "merge_config_into_cli pa ex cfg c = Inr c'"
  shows "allow_synth_to_mav c' \<Longrightarrow> ex AAllowSynthToMav"
    and "allow_no_boot_anchor_check c' \<Longrightarrow> ex AAllowNoBootAnchorCheck"
    and "mav_no_source_filter c' \<Longrightarrow> ex AMavNoSourceFilter"
    and "mav_no_sysid_filter c' \<Longrightarrow> ex AMavNoSysidFilter"
    and "mav_allow_any_source_port c' \<Longrightarrow> ex AMavAllowAnySourcePort"
proof -
  note none = file_has_no_bypass [OF load]
  note splits = option.splits sum.splits if_splits
  show "ex AAllowSynthToMav" if "allow_synth_to_mav c'"
    by (rule merged_flag [where get = allow_synth_to_mav and n = 27 and upd = "\<lambda>c. c\<lparr>allow_synth_to_mav := pr_allow_synth_to_mav (ac_process cfg)\<rparr>",
        OF _ _ _ _ merge none(1) that])
      (simp_all add: merge_steps_def)
  show "ex AAllowNoBootAnchorCheck" if "allow_no_boot_anchor_check c'"
    by (rule merged_flag [where get = allow_no_boot_anchor_check and n = 21 and upd = "\<lambda>c. c\<lparr>allow_no_boot_anchor_check := ba_allow_no_check (ac_boot cfg)\<rparr>",
        OF _ _ _ _ merge none(2) that])
      (simp_all add: merge_step_simps split: splits)
  show "ex AMavNoSourceFilter" if "mav_no_source_filter c'"
    by (rule merged_flag [where get = mav_no_source_filter and n = 15 and upd = "\<lambda>c. c\<lparr>mav_no_source_filter := mc_no_source_filter (ac_mav cfg)\<rparr>",
        OF _ _ _ _ merge none(3) that])
      (simp_all add: merge_step_simps split: splits)
  show "ex AMavNoSysidFilter" if "mav_no_sysid_filter c'"
    by (rule merged_flag [where get = mav_no_sysid_filter and n = 16 and upd = "\<lambda>c. c\<lparr>mav_no_sysid_filter := mc_no_sysid_filter (ac_mav cfg)\<rparr>",
        OF _ _ _ _ merge none(4) that])
      (simp_all add: merge_step_simps split: splits)
  show "ex AMavAllowAnySourcePort" if "mav_allow_any_source_port c'"
    by (rule merged_flag [where get = mav_allow_any_source_port and n = 17 and upd = "\<lambda>c. c\<lparr>mav_allow_any_source_port := mc_allow_any_source_port (ac_mav cfg)\<rparr>",
        OF _ _ _ _ merge none(5) that])
      (simp_all add: merge_step_simps split: splits)
qed

text \<open>What the guards and the plan let through.\<close>

lemma startup_guards_passed:
  assumes "startup_guards de c = Inr prof"
  shows "\<not> (synth_source c \<and> controller c = MavControl) \<or> allow_synth_to_mav c"
    "synth_source c \<or> de" "needs_mav c \<Longrightarrow> vehicle c \<noteq> None \<and> prof = vehicle c"
    "needs_mav c \<Longrightarrow> expected_home_arg c \<noteq> None \<or> allow_no_boot_anchor_check c" "\<not> needs_mav c \<Longrightarrow> prof = None"
  using assms by (auto simp: startup_guards_def split: if_splits option.splits sum.splits)

lemma plan_launch_shape:
  assumes "plan_launch pf de c = Inr p"
  obtains prof i2c nav where "startup_guards de c = Inr prof" "nav_of_cli pf c = Inr nav"
    "(if imu_source c = ImuI2c then map_sum id Some (build_i2c_imu c) else Inr None) = Inr i2c"
    "p = \<lparr>lp_cli = c, lp_filter = (if needs_mav c then Some (mav_filter_of c) else None), lp_i2c = i2c,
       lp_fusion_cfg = fusion_config_default\<lparr>fc_nav := nav\<rparr>,
       lp_preflight = (if needs_mav c then map_option (\<lambda>p. \<lparr>mp_expected_autopilot = expected_autopilot_byte p\<rparr>) prof else None),
       lp_forensic = map_option (\<lambda>d. \<lparr>fcfg_dir = d, fcfg_window_s = forensic_window_s c\<rparr>) (cli_forensic_dir c),
       lp_duration_limit = (if duration_s c > 0 then Some (nanos_of_secs (unat (duration_s c) + 2)) else None)\<rparr>"
  using assms unfolding plan_launch_def by (auto split: sum.splits)

lemma nav_of_cli_home:
  assumes "nav_of_cli pf c = Inr nav"
  shows "expected_home nav = None \<longleftrightarrow> expected_home_arg c = None"
    "expected_home nav = Some (lat, lon) \<Longrightarrow> fle (fabs lat) (FNum 90) \<and> fle (fabs lon) (FNum 180)
       \<and> max_home_distance_m nav = max_home_distance_arg c"
  using assms by (auto simp: nav_of_cli_def Let_def size_imu_gate_def nav_config_default_def parse_home_def
      split: option.splits list.splits if_splits)

lemma start_up_launched:
  assumes "start_up pa sa pf ex f c = Inr (Launch p)"
  obtains cfg c' where "load_config f = Inr cfg" "merge_config_into_cli pa ex cfg c = Inr c'"
    "plan_launch pf (ex ADuration \<or> pr_duration (ac_process cfg) \<noteq> None) c' = Inr p" "lp_cli p = c'"
proof -
  obtain cfg c' where "load_config f = Inr cfg" "merge_config_into_cli pa ex cfg c = Inr c'"
    "plan_launch pf (ex ADuration \<or> pr_duration (ac_process cfg) \<noteq> None) c' = Inr p"
    using assms unfolding start_up_def by (auto simp: Let_def map_sum_def split: sum.splits if_splits)
  then show ?thesis using that plan_launch_shape by (metis launch_plan.select_convs(1))
qed

end
