(* ===== verification/Launch.thy ===== *)
theory Launch
  imports Startup Simulator
begin

text \<open>
  What starting the program guarantees: that no configuration file weakens a defence, that the
  printed configuration reproduces the settings, what a launched detector needs before it
  arms, and what the exit status says.
\<close>

section \<open>Bypasses come from the command line\<close>

text \<open>
  C5. No configuration file weakens the detector: when the program gets as far as launching,
  every relaxed defence was an argument of this command line. A synthetic source next to
  the autopilot controller, an ingress filter that does not pin the target's address or
  system id, a source lock that ignores the port and a MAVLink deployment without a home
  check all need their flag; with MAVLink in use the autopilot of the declared vehicle
  is checked before arming; and two real sources run only with a duration chosen in the file
  or on the command line.
\<close>

theorem bypass_needs_command_line:
  assumes "start_up pa sa pf ex f c = Inr (Launch p)"
  shows "(synth_source (lp_cli p) \<and> controller (lp_cli p) = MavControl \<longrightarrow> ex AAllowSynthToMav)
    \<and> (needs_mav (lp_cli p) \<longrightarrow>
        (\<exists>flt prof. lp_filter p = Some flt
          \<and> (allowed_source_ip flt = Some (sa_ip (mav_target (lp_cli p))) \<or> ex AMavNoSourceFilter)
          \<and> (autopilot_sysid flt = Some (mav_target_system (lp_cli p)) \<or> ex AMavNoSysidFilter)
          \<and> (allow_any_source_port flt \<longrightarrow> ex AMavAllowAnySourcePort)
          \<and> vehicle (lp_cli p) = Some prof
          \<and> lp_preflight p = Some \<lparr>mp_expected_autopilot = expected_autopilot_byte prof\<rparr>
          \<and> (expected_home (fc_nav (lp_fusion_cfg p)) \<noteq> None \<or> ex AAllowNoBootAnchorCheck)))
    \<and> (\<not> synth_source (lp_cli p) \<longrightarrow>
        ex ADuration \<or> (\<exists>cfg. load_config f = Inr cfg \<and> pr_duration (ac_process cfg) \<noteq> None))"
proof -
  obtain cfg c' where c: "load_config f = Inr cfg" "merge_config_into_cli pa ex cfg c = Inr c'"
    "plan_launch pf (ex ADuration \<or> pr_duration (ac_process cfg) \<noteq> None) c' = Inr p" "lp_cli p = c'"
    using assms by (rule start_up_launched)
  obtain prof i2c nav where g: "startup_guards (ex ADuration \<or> pr_duration (ac_process cfg) \<noteq> None) c' = Inr prof"
      "nav_of_cli pf c' = Inr nav"
    and p: "lp_filter p = (if needs_mav c' then Some (mav_filter_of c') else None)" "fc_nav (lp_fusion_cfg p) = nav"
      "lp_preflight p = (if needs_mav c' then map_option (\<lambda>p. \<lparr>mp_expected_autopilot = expected_autopilot_byte p\<rparr>) prof else None)"
    using c(3) by (rule plan_launch_shape) simp
  note passed = startup_guards_passed [OF g(1)]
  note bypass = merged_bypasses [OF c(1,2)]
  show ?thesis
  proof (intro conjI impI)
    show "ex AAllowSynthToMav" if "synth_source (lp_cli p) \<and> controller (lp_cli p) = MavControl"
      using that passed(1) bypass(1) c(4) by blast
    show "ex ADuration \<or> (\<exists>cfg. load_config f = Inr cfg \<and> pr_duration (ac_process cfg) \<noteq> None)" if "\<not> synth_source (lp_cli p)"
      using that passed(2) c(1,4) by blast
    assume n: "needs_mav (lp_cli p)"
    then obtain v where "vehicle c' = Some v" "prof = Some v" using passed(3) c(4) by auto
    with n passed(4) bypass(2-5) p c(4) nav_of_cli_home(1) [OF g(2)]
    show "\<exists>flt prof. lp_filter p = Some flt
          \<and> (allowed_source_ip flt = Some (sa_ip (mav_target (lp_cli p))) \<or> ex AMavNoSourceFilter)
          \<and> (autopilot_sysid flt = Some (mav_target_system (lp_cli p)) \<or> ex AMavNoSysidFilter)
          \<and> (allow_any_source_port flt \<longrightarrow> ex AMavAllowAnySourcePort)
          \<and> vehicle (lp_cli p) = Some prof
          \<and> lp_preflight p = Some \<lparr>mp_expected_autopilot = expected_autopilot_byte prof\<rparr>
          \<and> (expected_home (fc_nav (lp_fusion_cfg p)) \<noteq> None \<or> ex AAllowNoBootAnchorCheck)"
      by (auto simp: mav_filter_of_def)
  qed
qed

section \<open>A launched detector\<close>

lemma map_sum_Inr: "map_sum f id z = Inr x \<longleftrightarrow> z = Inr x"
  by (cases z) simp_all

lemma launch_spawned:
  assumes "launch p boot = Some (Inr l0)"
  shows "spawn_all (lp_fusion_cfg p) (lp_preflight p) (lp_forensic p) boot = Some (Inr l0)"
  using assms by (auto simp: launch_def map_sum_Inr)

text \<open>
  C6. A launched detector arms only for its own autopilot and anchors first at its own site. With
  MAVLink in use, the fix that makes it Ready was handled while the link showed a heartbeat of at
  most three seconds' age with the autopilot byte of the vehicle declared at start-up. With a home
  declared, the first fix it accepts, before which it had accepted none and had no origin, is
  within the declared distance of the home and becomes the origin. Only this first fix is
  checked: \<open>later_fix_unchecked\<close> is what the code does with the fixes after it until the
  anchor is locked.
\<close>

theorem launched_detector_arms_at_home:
  assumes "start_up pa sa pf ex f c = Inr (Launch p)" and "launch p boot = Some (Inr l0)"
    and "loop_run l0 ins outs l" and "preflight (l_fusion l) = Ready"
  shows "(needs_mav (lp_cli p) \<longrightarrow> (\<exists>prof l1 env fx l2. vehicle (lp_cli p) = Some prof
        \<and> handles_fix l0 ins l l1 env fx l2
        \<and> preflight (l_fusion l1) \<noteq> Ready \<and> preflight (l_fusion l2) = Ready
        \<and> link_shows (expected_autopilot_byte prof) env boot))
    \<and> (\<forall>hlat hlon. expected_home (fc_nav (lp_fusion_cfg p)) = Some (hlat, hlon) \<longrightarrow>
        fle (fabs hlat) (FNum 90) \<and> fle (fabs hlon) (FNum 180)
        \<and> (\<exists>l1 env fx l2. handles_fix l0 ins l l1 env fx l2
            \<and> \<not> first_fix_accepted (checklist (l_fusion l1)) \<and> origin (fu_nav (l_fusion l1)) = None
            \<and> first_fix_accepted (checklist (l_fusion l2))
            \<and> origin (fu_nav (l_fusion l2)) = Some (lat_deg fx, lon_deg fx, alt_m fx)
            \<and> fle (horizontal_norm (lla_to_ned (e_math env) (lat_deg fx) (lon_deg fx) (FNum 0) hlat hlon))
                (max_home_distance_arg (lp_cli p))))"
proof -
  obtain cfg c' where "load_config f = Inr cfg" "merge_config_into_cli pa ex cfg c = Inr c'"
    and c: "plan_launch pf (ex ADuration \<or> pr_duration (ac_process cfg) \<noteq> None) c' = Inr p" "lp_cli p = c'"
    using assms(1) by (rule start_up_launched)
  obtain prof i2c nav where g: "startup_guards (ex ADuration \<or> pr_duration (ac_process cfg) \<noteq> None) c' = Inr prof"
      "nav_of_cli pf c' = Inr nav"
    and p: "fc_nav (lp_fusion_cfg p) = nav"
      "lp_preflight p = (if needs_mav c' then map_option (\<lambda>p. \<lparr>mp_expected_autopilot = expected_autopilot_byte p\<rparr>) prof else None)"
    using c(1) by (rule plan_launch_shape) simp
  note start = launch_spawned [OF assms(2)]
  note i = spawn_unarmed [OF start] spawn_all_inv [OF start]
  have boot: "fu_boot (l_fusion l0) = boot" "snd (snd (wiring (l_fusion l0))) = (expected_home nav, max_home_distance_m nav)"
    using i(4) p(1) by (simp_all add: wiring_def home_of_def dr_new_def)
  show ?thesis
  proof (intro conjI impI allI)
    assume n: "needs_mav (lp_cli p)"
    then obtain v where v: "vehicle c' = Some v" "prof = Some v" using startup_guards_passed(3) [OF g(1)] c(2) by auto
    then have "fst (wiring (l_fusion l0)) = (True, Some (expected_autopilot_byte v))" using i(4) p(2) n c(2) by simp
    from armed_run_shows_link [OF assms(3) this] assms(4) i(8) boot(1) v(1) c(2)
    show "\<exists>prof l1 env fx l2. vehicle (lp_cli p) = Some prof \<and> handles_fix l0 ins l l1 env fx l2
        \<and> preflight (l_fusion l1) \<noteq> Ready \<and> preflight (l_fusion l2) = Ready
        \<and> link_shows (expected_autopilot_byte prof) env boot" by fastforce
  next
    fix hlat hlon assume h: "expected_home (fc_nav (lp_fusion_cfg p)) = Some (hlat, hlon)"
    note n = nav_of_cli_home(2) [OF g(2), of hlat hlon]
    show "fle (fabs hlat) (FNum 90)" "fle (fabs hlon) (FNum 180)" using n h p(1) by auto
    have "origin (fu_nav (l_fusion l0)) = None" using i(3) by (simp add: dr_new_def)
    moreover have "origin (fu_nav (l_fusion l)) \<noteq> None"
      using fusion_inv_run [OF assms(3) i(7)] assms(4) by (auto simp: fusion_inv_def)
    ultimately show "\<exists>l1 env fx l2. handles_fix l0 ins l l1 env fx l2
            \<and> \<not> first_fix_accepted (checklist (l_fusion l1)) \<and> origin (fu_nav (l_fusion l1)) = None
            \<and> first_fix_accepted (checklist (l_fusion l2))
            \<and> origin (fu_nav (l_fusion l2)) = Some (lat_deg fx, lon_deg fx, alt_m fx)
            \<and> fle (horizontal_norm (lla_to_ned (e_math env) (lat_deg fx) (lon_deg fx) (FNum 0) hlat hlon))
                (max_home_distance_arg (lp_cli p))"
      using first_accepted_near_home [OF assms(3) _ i(7), of hlat hlon "max_home_distance_m nav"] boot(2) n h p(1) c(2) by simp
  qed
qed

section \<open>The printed configuration\<close>

text \<open>The command line without arguments: every default of the \<open>Cli\<close> structure.\<close>

definition cli_default :: cli where
  "cli_default =
     \<lparr>print_config = False, gps_source = GpsSynth, imu_source = ImuSynth, controller = ConsoleControl,
      scenario_kind = ScnGradualDrift, seed = 0x7F1F518400000000,
      gps_port = ''/dev/ttyUSB0'', gps_baud = 9600, imu_bus = ''/dev/i2c-1'', imu_addr = 0x68,
      imu_rate = FNum 100, imu_axis_map = ''X,Y,Z'',
      mav_bind = \<lparr>sa_ip = 0x7F000001, sa_scope = 0, sa_port = 14551\<rparr>,
      mav_target = \<lparr>sa_ip = 0x7F000001, sa_scope = 0, sa_port = 14550\<rparr>,
      mav_target_system = 1, mav_target_component = 1, mav_no_source_filter = False, mav_no_sysid_filter = False,
      mav_allow_any_source_port = False, allow_synth_to_mav = False, allow_no_boot_anchor_check = False,
      cli_forensic_dir = None, forensic_window_s = FNum 30, vehicle = None, expected_home_arg = None,
      max_home_distance_arg = FNum 1000, duration_s = 60, json_log = None, log_level = ''info''\<rparr>"

definition any_bypass :: "cli \<Rightarrow> bool" where
  "any_bypass c \<longleftrightarrow> allow_synth_to_mav c \<or> allow_no_boot_anchor_check c \<or> mav_no_source_filter c
     \<or> mav_no_sysid_filter c \<or> mav_allow_any_source_port c"

lemma parse_names [simp]:
  "parse_gps_source (gps_source_name g) = Inr g" "parse_imu_source (imu_source_name i) = Inr i"
  "parse_controller (controller_name k) = Inr k" "parse_scenario (scenario_name s) = Inr s"
  by (cases g; cases i; cases k; cases s; simp add: parse_gps_source_def gps_source_name_def parse_imu_source_def
      imu_source_name_def parse_controller_def controller_name_def parse_scenario_def scenario_name_def)+

lemma printed_accepted:
  "load_config (Parsed (cli_to_app_config sa c)) = Inr (cli_to_app_config sa c) \<longleftrightarrow> \<not> any_bypass c"
  by (auto simp: load_config_def reject_toml_safety_bypasses_def bypass_table_def cli_to_app_config_def any_bypass_def Let_def)

text \<open>
  C30. The printed configuration reproduces the settings: loaded by a command line without
  arguments, what \<open>--print-config\<close> printed resolves to the very settings it was printed from,
  and the loader accepts it exactly when no bypass was in force.
\<close>

theorem print_config_roundtrip:
  assumes "pa (sa (mav_bind c)) = Inr (mav_bind c)" and "pa (sa (mav_target c)) = Inr (mav_target c)"
  shows "merge_config_into_cli pa (\<lambda>_. False) (cli_to_app_config sa c) cli_default = Inr (c\<lparr>print_config := False\<rparr>)
    \<and> (load_config (Parsed (cli_to_app_config sa c)) = Inr (cli_to_app_config sa c) \<longleftrightarrow> \<not> any_bypass c)"
proof
  show "merge_config_into_cli pa (\<lambda>_. False) (cli_to_app_config sa c) cli_default = Inr (c\<lparr>print_config := False\<rparr>)"
    using assms
    by (cases "vehicle c"; cases c)
      (simp_all add: merge_config_into_cli_def merge_steps_def when_unset_def cli_to_app_config_def cli_default_def profile_roundtrip)
  show "load_config (Parsed (cli_to_app_config sa c)) = Inr (cli_to_app_config sa c) \<longleftrightarrow> \<not> any_bypass c"
    by (rule printed_accepted)
qed

text \<open>The start of the program on a printed configuration without bypasses.\<close>

lemma start_from_printed:
  assumes "pa (sa (mav_bind c)) = Inr (mav_bind c)" and "pa (sa (mav_target c)) = Inr (mav_target c)"
    and "\<not> any_bypass c" and "\<not> print_config c"
  shows "start_up pa sa pf (\<lambda>_. False) (Parsed (cli_to_app_config sa c)) cli_default = map_sum id Launch (plan_launch pf True c)"
proof -
  let ?cfg = "cli_to_app_config sa c"
  have m: "merge_config_into_cli pa (\<lambda>_. False) ?cfg cli_default = Inr c"
    using assms by (cases "vehicle c"; cases c)
      (simp_all add: merge_config_into_cli_def merge_steps_def when_unset_def cli_to_app_config_def cli_default_def profile_roundtrip)
  moreover have "pr_duration (ac_process ?cfg) \<noteq> None" by (simp add: cli_to_app_config_def)
  ultimately show ?thesis
    using assms(4) printed_accepted [of sa c] assms(3) by (simp add: start_up_def Let_def)
qed

text \<open>
  Pinning the printed configuration defeats the duration guard: two real sources whose
  duration nobody chose are refused, but the configuration printed for the same settings
  always carries a duration, so starting from it is never refused for that reason and the
  detector stops after that duration.
\<close>

theorem pinned_config_defeats_duration_guard:
  assumes "\<not> synth_source c" and "\<not> any_bypass c" and "\<not> print_config c"
    and "pa (sa (mav_bind c)) = Inr (mav_bind c)" and "pa (sa (mav_target c)) = Inr (mav_target c)"
  shows "plan_launch pf False c = Inl NoDuration
    \<and> start_up pa sa pf (\<lambda>_. False) (Parsed (cli_to_app_config sa c)) cli_default = map_sum id Launch (plan_launch pf True c)
    \<and> plan_launch pf True c \<noteq> Inl NoDuration
    \<and> (\<forall>p. plan_launch pf True c = Inr p \<longrightarrow> duration_s c > 0 \<longrightarrow>
         lp_duration_limit p = Some (nanos_of_secs (unat (duration_s c) + 2)))"
proof (intro conjI allI impI)
  show "plan_launch pf False c = Inl NoDuration" using assms(1) by (simp add: plan_launch_def startup_guards_def)
  show "start_up pa sa pf (\<lambda>_. False) (Parsed (cli_to_app_config sa c)) cli_default = map_sum id Launch (plan_launch pf True c)"
    using assms by (intro start_from_printed)
  show "plan_launch pf True c \<noteq> Inl NoDuration"
    using assms(1) by (auto simp: plan_launch_def startup_guards_def nav_of_cli_def build_i2c_imu_def Let_def
        split: sum.splits option.splits if_splits)
  show "lp_duration_limit p = Some (nanos_of_secs (unat (duration_s c) + 2))"
    if "plan_launch pf True c = Inr p" "duration_s c > 0" for p
    using that by (elim plan_launch_shape) simp
qed

section \<open>The end of a run\<close>

text \<open>
  The exit status is a failure exactly when the detector stopped defending: only a signal, the
  chosen duration and, with a synthetic source, the orderly end of a stream exit with 0.
\<close>

theorem exit_status_of_ending:
  "(exit_code (exit_reason_of synth e) = 0 \<longleftrightarrow>
      e \<in> {CtrlCReceived, SigtermReceived, DurationReached} \<or> (synth \<and> e \<in> {GpsIngestEnded JoinOk, ImuIngestEnded JoinOk}))
   \<and> (exit_code (exit_reason_of synth e) = 0 \<or> exit_code (exit_reason_of synth e) = 2)"
  by (auto simp: exit_code_def exit_reason_of_def classify_ingest_exit_def split: end_event.splits exit_reason.splits)

text \<open>
  One synthetic source switches the protection of the real one off: a receiver or an
  inertial unit paired with a synthetic counterpart starts without a chosen duration, and when
  the stream of the real sensor closes the program exits with the status of success.
\<close>

theorem one_synthetic_source_waives_guards:
  assumes "gps_source c \<noteq> GpsSynth \<and> imu_source c = ImuSynth \<or> gps_source c = GpsSynth \<and> imu_source c \<noteq> ImuSynth"
  shows "startup_guards de c \<noteq> Inl NoDuration
    \<and> exit_code (exit_reason_of (synth_source c) (if gps_source c = GpsSynth then ImuIngestEnded JoinOk else GpsIngestEnded JoinOk)) = 0"
  using assms by (auto simp: startup_guards_def synth_source_def exit_reason_of_def classify_ingest_exit_def exit_code_def
      split: if_splits option.splits sum.splits)

section \<open>Witnesses\<close>

definition show_addr_ex :: "socket_addr \<Rightarrow> string" where
  "show_addr_ex a = (if sa_port a = 14551 then ''127.0.0.1:14551'' else ''127.0.0.1:14550'')"

definition parse_addr_ex :: "string \<Rightarrow> string + socket_addr" where
  "parse_addr_ex s =
     (if s = ''127.0.0.1:14551'' then Inr \<lparr>sa_ip = 0x7F000001, sa_scope = 0, sa_port = 14551\<rparr>
      else if s = ''127.0.0.1:14550'' then Inr \<lparr>sa_ip = 0x7F000001, sa_scope = 0, sa_port = 14550\<rparr>
      else Inl s)"

definition parse_f64_ex :: "string \<Rightarrow> f64 option" where
  "parse_f64_ex s = (if s = ''47'' then Some (FNum 47) else if s = ''8'' then Some (FNum 8) else None)"

text \<open>A receiver on a serial line, an inertial unit on a bus, and the autopilot over MAVLink.\<close>

definition sidecar_cli :: cli where
  "sidecar_cli = cli_default\<lparr>gps_source := GpsSerial, imu_source := ImuI2c, controller := MavControl,
     vehicle := Some ArduCopter, expected_home_arg := Some ''47,8'',
     imu_axis_map := ''Y,-X,Z''\<rparr>"

lemma home_ex: "parse_home parse_f64_ex ''47,8'' = Some (FNum 47, FNum 8)"
  by (simp add: parse_home_def trim_def parse_f64_ex_def is_whitespace_def char_code_def)

lemma sidecar_plan: "\<exists>p. plan_launch parse_f64_ex True sidecar_cli = Inr p \<and> lp_cli p = sidecar_cli \<and> needs_mav sidecar_cli"
  by (simp add: plan_launch_def startup_guards_def needs_mav_def synth_source_def sidecar_cli_def cli_default_def
      build_i2c_imu_def yaw90_parses nav_of_cli_def home_ex Let_def)

lemma sidecar_settings:
  "parse_addr_ex (show_addr_ex (mav_bind sidecar_cli)) = Inr (mav_bind sidecar_cli)"
  "parse_addr_ex (show_addr_ex (mav_target sidecar_cli)) = Inr (mav_target sidecar_cli)"
  "\<not> any_bypass sidecar_cli" "\<not> print_config sidecar_cli" "\<not> synth_source sidecar_cli" "duration_s sidecar_cli = 60"
  by (simp_all add: sidecar_cli_def cli_default_def parse_addr_ex_def show_addr_ex_def any_bypass_def synth_source_def)

lemma sidecar_starts:
  "\<exists>p. start_up parse_addr_ex show_addr_ex parse_f64_ex (\<lambda>_. False)
      (Parsed (cli_to_app_config show_addr_ex sidecar_cli)) cli_default = Inr (Launch p) \<and> lp_cli p = sidecar_cli"
  using sidecar_plan start_from_printed [OF sidecar_settings(1-4)] by fastforce

theorem bypass_needs_command_line_witness:
  "\<exists>p flt. start_up parse_addr_ex show_addr_ex parse_f64_ex (\<lambda>_. False)
      (Parsed (cli_to_app_config show_addr_ex sidecar_cli)) cli_default = Inr (Launch p)
    \<and> needs_mav (lp_cli p) \<and> lp_filter p = Some flt \<and> allowed_source_ip flt = Some 0x7F000001"
proof -
  obtain p where p: "start_up parse_addr_ex show_addr_ex parse_f64_ex (\<lambda>_. False)
      (Parsed (cli_to_app_config show_addr_ex sidecar_cli)) cli_default = Inr (Launch p)" "lp_cli p = sidecar_cli"
    using sidecar_starts by blast
  have n: "needs_mav (lp_cli p)" "sa_ip (mav_target (lp_cli p)) = 0x7F000001"
    using p(2) by (simp_all add: needs_mav_def sidecar_cli_def cli_default_def)
  with bypass_needs_command_line [OF p(1)] p(1) show ?thesis by auto
qed

theorem print_config_roundtrip_witness:
  "merge_config_into_cli parse_addr_ex (\<lambda>_. False) (cli_to_app_config show_addr_ex sidecar_cli) cli_default = Inr sidecar_cli"
proof -
  have "sidecar_cli\<lparr>print_config := False\<rparr> = sidecar_cli" by (simp add: sidecar_cli_def cli_default_def)
  with print_config_roundtrip [of parse_addr_ex show_addr_ex, OF sidecar_settings(1,2)] show ?thesis by simp
qed

theorem pinned_config_defeats_duration_guard_witness:
  "\<exists>p. plan_launch parse_f64_ex False sidecar_cli = Inl NoDuration
    \<and> start_up parse_addr_ex show_addr_ex parse_f64_ex (\<lambda>_. False)
        (Parsed (cli_to_app_config show_addr_ex sidecar_cli)) cli_default = Inr (Launch p)
    \<and> lp_duration_limit p = Some (nanos_of_secs 62)"
proof -
  obtain p where p: "plan_launch parse_f64_ex True sidecar_cli = Inr p" using sidecar_plan by blast
  with pinned_config_defeats_duration_guard [of sidecar_cli parse_addr_ex show_addr_ex parse_f64_ex,
      OF sidecar_settings(5,3,4,1,2)] sidecar_settings(6)
  show ?thesis by auto
qed

theorem one_synthetic_source_waives_guards_witness:
  "startup_guards False (cli_default\<lparr>gps_source := GpsSerial\<rparr>) = Inr None
   \<and> exit_code (exit_reason_of (synth_source (cli_default\<lparr>gps_source := GpsSerial\<rparr>)) (GpsIngestEnded JoinOk)) = 0"
  using one_synthetic_source_waives_guards [of "cli_default\<lparr>gps_source := GpsSerial\<rparr>" False]
  by (simp add: cli_default_def startup_guards_def synth_source_def needs_mav_def)

text \<open>The launched sidecar, armed at its home with the heartbeat of its autopilot on the link.\<close>

lemma sidecar_nav: "nav_of_cli parse_f64_ex sidecar_cli
  = Inr ((size_imu_gate (FNum 100))\<lparr>expected_home := Some (FNum 47, FNum 8), max_home_distance_m := FNum 1000\<rparr>)"
  by (simp add: nav_of_cli_def sidecar_cli_def cli_default_def home_ex Let_def)

definition sidecar_cfg :: fusion_config where
  "sidecar_cfg = fusion_config_default\<lparr>fc_nav := (size_imu_gate (FNum 100))\<lparr>expected_home := Some (FNum 47, FNum 8),
     max_home_distance_m := FNum 1000\<rparr>\<rparr>"

lemma sidecar_task:
  assumes "plan_launch parse_f64_ex True sidecar_cli = Inr p"
  shows "lp_fusion_cfg p = sidecar_cfg"
    and "lp_preflight p = Some \<lparr>mp_expected_autopilot = MAV_AUTOPILOT_ARDUPILOTMEGA\<rparr>" and "lp_forensic p = None"
    and "validate sidecar_cfg = Inr ()" and "init_target (fc_nav sidecar_cfg) = 100"
    and "is_first_fix_plausible toy_math toy_fix (dr_new (fc_nav sidecar_cfg) 0) = Inr ()"
proof -
  obtain prof i2c nav where g: "startup_guards True sidecar_cli = Inr prof" "nav_of_cli parse_f64_ex sidecar_cli = Inr nav"
    and p: "lp_fusion_cfg p = fusion_config_default\<lparr>fc_nav := nav\<rparr>"
      "lp_preflight p = (if needs_mav sidecar_cli then map_option (\<lambda>p. \<lparr>mp_expected_autopilot = expected_autopilot_byte p\<rparr>) prof else None)"
      "lp_forensic p = map_option (\<lambda>d. \<lparr>fcfg_dir = d, fcfg_window_s = forensic_window_s sidecar_cli\<rparr>) (cli_forensic_dir sidecar_cli)"
    using assms by (rule plan_launch_shape) simp
  have n: "needs_mav sidecar_cli" "vehicle sidecar_cli = Some ArduCopter" "cli_forensic_dir sidecar_cli = None"
    by (simp_all add: needs_mav_def sidecar_cli_def cli_default_def)
  show "lp_fusion_cfg p = sidecar_cfg" using p(1) g(2) sidecar_nav by (simp add: sidecar_cfg_def)
  show "lp_preflight p = Some \<lparr>mp_expected_autopilot = MAV_AUTOPILOT_ARDUPILOTMEGA\<rparr>" "lp_forensic p = None"
    using p(2,3) n startup_guards_passed(3) [OF g(1)] by (simp_all add: expected_autopilot_byte_def)
  have "validate_checks sidecar_cfg = validate_checks fusion_config_default"
    by (simp add: validate_checks_def fusion_config_default_def sidecar_cfg_def size_imu_gate_def nav_config_default_def Let_def)
  then show "validate sidecar_cfg = Inr ()" using default_validates by (simp add: validate_def)
  have "static_init_s (fc_nav sidecar_cfg) = static_init_s (fc_nav fusion_config_default)"
    by (simp add: sidecar_cfg_def size_imu_gate_def fusion_config_default_def Let_def)
  then show "init_target (fc_nav sidecar_cfg) = 100" using default_target by (simp add: init_target_def)
  show "is_first_fix_plausible toy_math toy_fix (dr_new (fc_nav sidecar_cfg) 0) = Inr ()"
    by (simp add: sidecar_cfg_def is_first_fix_plausible_def dr_new_def toy_fix_def lla_to_ned_def horizontal_norm_def toy_math_def fsub_FNum
        fmul_FNum fadd_FNum fsqrt_def to_radians_zero R_EARTH_M_def Let_def)
qed

lemma sidecar_arms:
  obtains p l0 outs l where "plan_launch parse_f64_ex True sidecar_cli = Inr p" "launch p 0 = Some (Inr l0)"
    "loop_run l0 (map (imu_in linked_env) (replicate 100 level_sample)
        @ [gps_in linked_env toy_fix, imu_in linked_env level_sample, gps_in linked_env toy_fix]) outs l"
    "preflight (l_fusion l) = Ready"
proof -
  obtain p where p: "plan_launch parse_f64_ex True sidecar_cli = Inr p" using sidecar_plan by blast
  note t = sidecar_task [OF p]
  obtain b where "buffer_new (FNum 2) (FNum 100) = Some b" using default_buffer by blast
  then have "\<exists>fu. fusion_new (lp_fusion_cfg p) 0 = Some fu" by (simp add: fusion_new_def t(1) sidecar_cfg_def fusion_config_default_def)
  then obtain l0 where s: "spawn_all (lp_fusion_cfg p) (lp_preflight p) (lp_forensic p) 0 = Some (Inr l0)"
    using t(4) by (auto simp: spawn_all_def t(1-3))
  have "\<forall>s\<in>set (replicate 100 level_sample). finite_sample s"
    "init_target (fc_nav (lp_fusion_cfg p)) \<le> length (replicate 100 level_sample)"
    "is_first_fix_plausible (e_math linked_env) toy_fix (dr_new (fc_nav (lp_fusion_cfg p)) 0) = Inr ()"
    "\<forall>m. lp_preflight p = Some m \<longrightarrow> link_shows (mp_expected_autopilot m) linked_env 0"
    using samples_finite(1) t linked_env_shows by (simp_all add: linked_env_def bench_env_def)
  from arming_run [OF s this] obtain outs l where "loop_run l0 (map (imu_in linked_env) (replicate 100 level_sample)
        @ [gps_in linked_env toy_fix, imu_in linked_env level_sample, gps_in linked_env toy_fix]) outs l"
    "preflight (l_fusion l) = Ready" by blast
  then show ?thesis by (intro that [OF p, of l0]) (simp_all add: launch_def s)
qed

theorem launched_detector_arms_at_home_witness:
  "\<exists>p l0 ins outs l. start_up parse_addr_ex show_addr_ex parse_f64_ex (\<lambda>_. False)
      (Parsed (cli_to_app_config show_addr_ex sidecar_cli)) cli_default = Inr (Launch p)
    \<and> launch p 0 = Some (Inr l0) \<and> loop_run l0 ins outs l
    \<and> (\<exists>l1 env fx l2. handles_fix l0 ins l l1 env fx l2 \<and> preflight (l_fusion l1) \<noteq> Ready
        \<and> preflight (l_fusion l2) = Ready \<and> link_shows MAV_AUTOPILOT_ARDUPILOTMEGA env 0)
    \<and> (\<exists>l1 env fx l2. handles_fix l0 ins l l1 env fx l2 \<and> \<not> first_fix_accepted (checklist (l_fusion l1))
        \<and> first_fix_accepted (checklist (l_fusion l2))
        \<and> origin (fu_nav (l_fusion l2)) = Some (lat_deg fx, lon_deg fx, alt_m fx)
        \<and> fle (horizontal_norm (lla_to_ned (e_math env) (lat_deg fx) (lon_deg fx) (FNum 0) (FNum 47) (FNum 8))) (FNum 1000))"
proof -
  define ins where "ins = map (imu_in linked_env) (replicate 100 level_sample)
    @ [gps_in linked_env toy_fix, imu_in linked_env level_sample, gps_in linked_env toy_fix]"
  obtain p l0 outs l where r: "plan_launch parse_f64_ex True sidecar_cli = Inr p" "launch p 0 = Some (Inr l0)"
    "loop_run l0 ins outs l" "preflight (l_fusion l) = Ready" unfolding ins_def by (rule sidecar_arms)
  have s: "start_up parse_addr_ex show_addr_ex parse_f64_ex (\<lambda>_. False)
      (Parsed (cli_to_app_config show_addr_ex sidecar_cli)) cli_default = Inr (Launch p)"
    using start_from_printed [OF sidecar_settings(1-4)] r(1) by fastforce
  have "lp_cli p = sidecar_cli" using sidecar_plan r(1) by auto
  then have n: "needs_mav (lp_cli p)" "vehicle (lp_cli p) = Some ArduCopter" "max_home_distance_arg (lp_cli p) = FNum 1000"
    by (simp_all add: needs_mav_def sidecar_cli_def cli_default_def)
  have h: "expected_home (fc_nav (lp_fusion_cfg p)) = Some (FNum 47, FNum 8)"
    using sidecar_task(1) [OF r(1)] by (simp add: sidecar_cfg_def)
  note armed = launched_detector_arms_at_home [OF s r(2-4)]
  have link: "\<exists>l1 env fx l2. handles_fix l0 ins l l1 env fx l2 \<and> preflight (l_fusion l1) \<noteq> Ready
        \<and> preflight (l_fusion l2) = Ready \<and> link_shows MAV_AUTOPILOT_ARDUPILOTMEGA env 0"
    using conjunct1 [OF armed] n by (auto simp: expected_autopilot_byte_def)
  have "\<exists>l1 env fx l2. handles_fix l0 ins l l1 env fx l2 \<and> \<not> first_fix_accepted (checklist (l_fusion l1))
        \<and> first_fix_accepted (checklist (l_fusion l2))
        \<and> origin (fu_nav (l_fusion l2)) = Some (lat_deg fx, lon_deg fx, alt_m fx)
        \<and> fle (horizontal_norm (lla_to_ned (e_math env) (lat_deg fx) (lon_deg fx) (FNum 0) (FNum 47) (FNum 8))) (FNum 1000)"
    using conjunct2 [OF armed, THEN spec, THEN spec, THEN mp, OF h] unfolding n(3) by blast
  with s r(2,3) link show ?thesis by blast
qed

section \<open>The simulated sensors of the program\<close>

text \<open>The seed only selects the stream of random draws.\<close>

definition spoof_pattern_of :: "scenario \<Rightarrow> spoof_pattern" where
  "spoof_pattern_of s =
     (case s of
        ScnClean \<Rightarrow> SpClean
      | ScnSuddenJump \<Rightarrow> SpSuddenJump (FNum 30) (FNum 0) (FNum 200)
      | ScnGradualDrift \<Rightarrow> SpGradualDrift (FNum 20) (FNum 0) (FNum 1))"

definition build_synth_gps :: "cli \<Rightarrow> synthetic_gps \<times> spoof_pattern" where
  "build_synth_gps c =
     (\<lparr>sg_traj = LinearNorth (FNum 8), sg_rate_hz = FNum 1, sg_pos_sigma_m = lit B32 (3 / 10),
       sg_vel_sigma_mps = lit B32 (5 / 100), sg_origin = (FNum 40, FNum (- 100), FNum 0),
       sg_duration_s = of_int_fl B32 (int (unat (duration_s c))), sg_start_after_s = FNum (1 / 2)\<rparr>,
      spoof_pattern_of (scenario_kind c))"

definition build_synth_imu :: "cli \<Rightarrow> synthetic_imu" where
  "build_synth_imu c =
     \<lparr>si_traj = LinearNorth (FNum 8), si_rate_hz = FNum 100, si_accel_sigma = lit B32 (1 / 1000),
      si_gyro_sigma = lit B32 (1 / 10000), si_gyro_bias = vec3_zero, si_accel_bias = vec3_zero,
      si_duration_s = add32 (of_int_fl B32 (int (unat (duration_s c)))) (FNum 2)\<rparr>"

text \<open>The GPS stream of a synthetic run: the injector over the source, fix by fix.\<close>

definition synth_gps_items ::
    "nat \<Rightarrow> sim_math \<Rightarrow> (nat \<Rightarrow> timestamp) \<Rightarrow> (nat \<Rightarrow> f64 \<times> f64) \<Rightarrow> cli \<Rightarrow> (fs_error + gps_fix) list \<times> stream_end" where
  "synth_gps_items fuel sm stamps us c =
     (let (g, p) = build_synth_gps c; (fxs, e) = synth_gps_stream fuel sm g stamps us
      in (inject_stream sm p (map (\<lambda>fx. (mono (fix_t fx), Inr fx)) fxs) injector_new, e))"

lemma inject_stream_length: "length (inject_stream sm p xs st) = length xs"
  by (induction sm p xs st rule: inject_stream.induct) (auto split: prod.splits)

lemma synth_gps_items_length:
  assumes "unat (duration_s c) < 2 ^ 22" and "unat (duration_s c) < fuel"
  shows "\<exists>items. synth_gps_items fuel sm stamps us c = (items, StreamEnded) \<and> length items = unat (duration_s c)"
proof -
  let ?g = "fst (build_synth_gps c)" and ?D = "unat (duration_s c)"
  have "fround B32 False (of_int (int n)) = FNum (of_nat n)" if "n < 2 ^ 22" for n
    using fround_int [of B32 "int n" False] that by simp
  then have "sg_duration_s ?g = FNum (of_nat ?D)"
    unfolding build_synth_gps_def of_int_fl_def using assms(1) by (simp only: fst_conv synthetic_gps.select_convs)
  then obtain fxs where "synth_gps_stream fuel sm ?g stamps us = (fxs, StreamEnded)" "length fxs = ?D"
    using synth_gps_loop_length [of ?g ?D 0 fuel sm stamps us] assms
    by (auto simp: synth_gps_stream_def build_synth_gps_def sleep_ok_def fle_def flt_def fix_time_def)
  then show ?thesis by (simp add: synth_gps_items_def case_prod_beta inject_stream_length)
qed

text \<open>
  A duration of zero does not mean "until stopped" for a synthetic source: the plan has no time
  limit, but the source yields no fix and ends at once, and the program exits with the status
  of success. With any other duration D below 2^22 the source yields exactly D fixes.
\<close>

theorem synthetic_run_of_program:
  assumes "plan_launch pf de c = Inr p" and "gps_source c = GpsSynth" and "unat (duration_s c) < 2 ^ 22" and "unat (duration_s c) < fuel"
  shows "(\<exists>items. synth_gps_items fuel sm stamps us c = (items, StreamEnded) \<and> length items = unat (duration_s c))
    \<and> exit_code (exit_reason_of (synth_source c) (GpsIngestEnded JoinOk)) = 0
    \<and> (duration_s c = 0 \<longrightarrow> lp_duration_limit p = None \<and> fst (synth_gps_items fuel sm stamps us c) = [])"
proof -
  obtain items where i: "synth_gps_items fuel sm stamps us c = (items, StreamEnded)" "length items = unat (duration_s c)"
    using synth_gps_items_length [OF assms(3,4)] by blast
  moreover have "exit_code (exit_reason_of (synth_source c) (GpsIngestEnded JoinOk)) = 0"
    using assms(2) by (simp add: exit_code_def exit_reason_of_def classify_ingest_exit_def synth_source_def)
  moreover have "duration_s c = 0 \<Longrightarrow> lp_duration_limit p = None"
    using assms(1) by (elim plan_launch_shape) simp
  moreover have "duration_s c = 0 \<Longrightarrow> items = []" using i(2) by simp
  ultimately show ?thesis by simp
qed

theorem synthetic_run_of_program_witness:
  "\<exists>p. plan_launch parse_f64_ex True (cli_default\<lparr>duration_s := 0\<rparr>) = Inr p \<and> lp_duration_limit p = None
    \<and> fst (synth_gps_items 1 toy_sim (\<lambda>_. at_mono 0) (\<lambda>_. (FNum 1, FNum 0)) (cli_default\<lparr>duration_s := 0\<rparr>)) = []"
proof -
  let ?c = "cli_default\<lparr>duration_s := 0\<rparr>"
  obtain p where p: "plan_launch parse_f64_ex True ?c = Inr p"
    by (simp add: plan_launch_def startup_guards_def needs_mav_def synth_source_def cli_default_def nav_of_cli_def Let_def)
  from synthetic_run_of_program [OF p, of 1 toy_sim "\<lambda>_. at_mono 0" "\<lambda>_. (FNum 1, FNum 0)"] p
  show ?thesis by (auto simp: cli_default_def)
qed

end
