(* ===== verification/Shutdown.thy ===== *)
theory Shutdown
  imports Event_Log Launch
begin

text \<open>
  The end of a run, the second half of \<open>run\<close> in \<open>src/src/bin/flyingsquirrel.rs\<close>: after the
  supervisor's \<open>select!\<close> has returned, the tasks are stopped in an order that loses neither the
  pending work of the detector nor the events it still causes. The shutdown is a list of
  instructions that the main task executes while the other tasks go on: they end, are torn down,
  broadcast events and take turns in any order.
\<close>

section \<open>The fusion task after its sources are gone\<close>

text \<open>
  Aborting the ingest tasks closes their channels: the loop still takes what waits in them, then
  sees each closed. \<open>envs\<close> and \<open>rsts\<close> are what the turns find around them.
\<close>

definition next_item :: "'a list \<Rightarrow> 'a poll" where
  "next_item q = (case q of [] \<Rightarrow> Closed | x # _ \<Rightarrow> Item x)"

fun closing_turns ::
    "(nat \<Rightarrow> fusion_env) \<Rightarrow> (nat \<Rightarrow> unit poll) \<Rightarrow> nat \<Rightarrow> imu_sample list \<Rightarrow> gps_fix list \<Rightarrow> fusion_loop
     \<Rightarrow> (fusion_loop \<times> fusion_out list) option" where
  "closing_turns envs rsts 0 imus gpss l = Some (l, [])"
| "closing_turns envs rsts (Suc n) imus gpss l =
     (case select_step (envs n) (next_item imus) (next_item gpss) (rsts n) l of
        None \<Rightarrow> None
      | Some (l1, o1) \<Rightarrow>
          map_option (\<lambda>(l2, o2). (l2, o1 @ o2))
            (closing_turns envs rsts n (if imu_open l then tl imus else imus) (if imu_open l then gpss else tl gpss) l1))"

section \<open>The shutdown sequence\<close>

datatype handle = HGpsIngest | HImuIngest | HFusion | HAction | HListener | HWatchdog

text \<open>\<open>UnlessFinished\<close> is the guard \<open>if !h.is_finished()\<close>; \<open>AwaitAtMost\<close> is \<open>timeout(..., h).await\<close>.\<close>

datatype instr =
    Abort handle | UnlessFinished handle "instr list" | Await handle | AwaitAtMost handle
  | Drain | DropSender | Exit nat

definition stop_producer :: "handle \<Rightarrow> instr" where
  "stop_producer h = UnlessFinished h [Abort h, Await h]"

definition shutdown_program :: "bool \<Rightarrow> bool \<Rightarrow> exit_reason \<Rightarrow> instr list" where
  "shutdown_program listener watchdog reason =
     [Abort HGpsIngest, Abort HImuIngest, UnlessFinished HFusion [Await HFusion], Drain]
     @ (if listener then [stop_producer HListener] else [])
     @ (if watchdog then [stop_producer HWatchdog] else [])
     @ [DropSender, UnlessFinished HAction [AwaitAtMost HAction], Exit (exit_code reason)]"

text \<open>The handle whose result the \<open>select!\<close> took.\<close>

definition polled_by :: "end_event \<Rightarrow> handle option" where
  "polled_by e = (case e of
     CtrlCReceived \<Rightarrow> None | SigtermReceived \<Rightarrow> None | DurationReached \<Rightarrow> None
   | GpsIngestEnded _ \<Rightarrow> Some HGpsIngest | ImuIngestEnded _ \<Rightarrow> Some HImuIngest | FusionEnded _ \<Rightarrow> Some HFusion
   | ActionEnded _ \<Rightarrow> Some HAction | ListenerEnded _ \<Rightarrow> Some HListener | WatchdogEnded _ \<Rightarrow> Some HWatchdog)"

text \<open>
  The process: what the main task has still to do, which tasks have ended, whose results were
  taken, the background tasks (dumps and read-backs, each with a sender of the event channel),
  whether \<open>main\<close> still holds its sender, the action task, and everything broadcast so far.
\<close>

record process =
  todo :: "instr list"
  finished :: "handle set"
  results_taken :: "handle set"
  bg_tasks :: nat
  deadline_passed :: bool
  own_sender :: bool
  log_task :: action_task
  sent :: "spoofing_event list"
  panicked :: bool
  exit_status :: "nat option"

definition senders_gone :: "process \<Rightarrow> bool" where
  "senders_gone p \<longleftrightarrow> HFusion \<in> finished p \<and> HWatchdog \<in> finished p \<and> bg_tasks p = 0 \<and> \<not> own_sender p"

definition take_result :: "handle \<Rightarrow> instr list \<Rightarrow> process \<Rightarrow> process" where
  "take_result h is p =
     (if h \<in> results_taken p then p\<lparr>panicked := True, todo := []\<rparr>
      else p\<lparr>results_taken := insert h (results_taken p), todo := is\<rparr>)"

inductive shut_step :: "process \<Rightarrow> process \<Rightarrow> bool" where
  ends: "h \<notin> finished p \<Longrightarrow> shut_step p (p\<lparr>finished := insert h (finished p)\<rparr>)"
| logs: "HAction \<notin> finished p \<Longrightarrow> a = action_turn (senders_gone p) (log_task p) \<Longrightarrow>
    shut_step p (p\<lparr>log_task := a, finished := (if ac_ended a then insert HAction (finished p) else finished p)\<rparr>)"
| sends: "HFusion \<notin> finished p \<or> HWatchdog \<notin> finished p \<or> bg_tasks p > 0 \<Longrightarrow>
    shut_step p (p\<lparr>log_task := (if HAction \<in> finished p then log_task p else broadcast ev (log_task p)), sent := sent p @ [ev]\<rparr>)"
| spawns: "HFusion \<notin> finished p \<Longrightarrow> shut_step p (p\<lparr>bg_tasks := bg_tasks p + 1\<rparr>)"
| bg_ends: "bg_tasks p > 0 \<Longrightarrow> shut_step p (p\<lparr>bg_tasks := bg_tasks p - 1\<rparr>)"
| aborts: "todo p = Abort h # is \<Longrightarrow> shut_step p (p\<lparr>todo := is\<rparr>)"
| guard: "todo p = UnlessFinished h b # is \<Longrightarrow> shut_step p (p\<lparr>todo := (if h \<in> finished p then is else b @ is)\<rparr>)"
| awaits: "todo p = Await h # is \<Longrightarrow> h \<in> finished p \<Longrightarrow> shut_step p (take_result h is p)"
| in_time: "todo p = AwaitAtMost h # is \<Longrightarrow> h \<in> finished p \<Longrightarrow> shut_step p (take_result h is p)"
| timed_out: "todo p = AwaitAtMost h # is \<Longrightarrow> h \<notin> finished p \<Longrightarrow> shut_step p (p\<lparr>todo := Abort h # is\<rparr>)"
| drained: "todo p = Drain # is \<Longrightarrow> bg_tasks p = 0 \<Longrightarrow> shut_step p (p\<lparr>todo := is\<rparr>)"
| deadline: "todo p = Drain # is \<Longrightarrow> bg_tasks p > 0 \<Longrightarrow> shut_step p (p\<lparr>todo := is, deadline_passed := True\<rparr>)"
| drops: "todo p = DropSender # is \<Longrightarrow> shut_step p (p\<lparr>todo := is, own_sender := False\<rparr>)"
| exits: "todo p = Exit c # is \<Longrightarrow> shut_step p (p\<lparr>todo := [], exit_status := Some c\<rparr>)"

text \<open>What holds when the supervisor's \<open>select!\<close> has returned with \<open>ev\<close>.\<close>

definition shutdown_begins :: "bool \<Rightarrow> bool \<Rightarrow> bool \<Rightarrow> end_event \<Rightarrow> process \<Rightarrow> bool" where
  "shutdown_begins synth listener watchdog ev p \<longleftrightarrow>
     todo p = shutdown_program listener watchdog (exit_reason_of synth ev)
     \<and> results_taken p = set_option (polled_by ev) \<and> results_taken p \<subseteq> finished p
     \<and> (\<not> watchdog \<longrightarrow> HWatchdog \<in> finished p) \<and> own_sender p \<and> \<not> deadline_passed p
     \<and> \<not> panicked p \<and> exit_status p = None
     \<and> log_inv (sent p) (log_task p) \<and> \<not> ac_ended (log_task p)"

section \<open>A check of the remaining instructions\<close>

text \<open>
  What can be said before the instructions run: \<open>F\<close> are tasks known to have ended, \<open>N\<close> handles
  known not to have been taken, \<open>d\<close> says that the drain is over and \<open>s\<close> that \<open>main\<close> has
  dropped its sender. The check asks of each wait that its handle is untaken and stops of itself or was
  aborted, of the drain that
  nothing more can be spawned, of the wait for the log that no producer is left.
\<close>

fun instr_weight :: "instr \<Rightarrow> nat" and instrs_weight :: "instr list \<Rightarrow> nat" where
  "instr_weight (UnlessFinished h b) = Suc (instrs_weight b)"
| "instr_weight (Abort h) = 1" | "instr_weight (Await h) = 1" | "instr_weight (AwaitAtMost h) = 2"
| "instr_weight Drain = 1" | "instr_weight DropSender = 1" | "instr_weight (Exit c) = 1"
| "instrs_weight [] = 0"
| "instrs_weight (i # is) = instr_weight i + instrs_weight is"

lemma instrs_weight_append [simp]: "instrs_weight (xs @ ys) = instrs_weight xs + instrs_weight ys"
  by (induction xs) simp_all

function checked :: "nat \<Rightarrow> instr list \<Rightarrow> handle set \<Rightarrow> handle set \<Rightarrow> bool \<Rightarrow> bool \<Rightarrow> bool" where
  "checked c [] F N d s \<longleftrightarrow> True"
| "checked c (Abort h # is) F N d s \<longleftrightarrow> checked c is F N d s"
| "checked c (UnlessFinished h b # is) F N d s \<longleftrightarrow>
     checked c is (insert h F) N d s \<and> checked c (b @ is) F (insert h N) d s"
| "checked c (Await h # is) F N d s \<longleftrightarrow>
     h \<in> N \<and> h \<in> {HFusion, HListener, HWatchdog} \<and> checked c is (insert h F) (N - {h}) d s"
| "checked c (AwaitAtMost h # is) F N d s \<longleftrightarrow>
     h \<in> N \<and> HFusion \<in> F \<and> HWatchdog \<in> F \<and> d \<and> s \<and> checked c is F (N - {h}) d s"
| "checked c (Drain # is) F N d s \<longleftrightarrow> HFusion \<in> F \<and> checked c is F N True s"
| "checked c (DropSender # is) F N d s \<longleftrightarrow> checked c is F N d True"
| "checked c (Exit e # is) F N d s \<longleftrightarrow> e = c"
  by pat_completeness auto
termination by (relation "measure (\<lambda>(c, is, F, N, d, s). instrs_weight is)") simp_all

lemma program_checked:
  "checked (exit_code r) (shutdown_program l w r) (if w then {} else {HWatchdog}) {} False False"
  by (cases l; cases w) (simp_all add: shutdown_program_def stop_producer_def)

definition main_inv :: "nat \<Rightarrow> process \<Rightarrow> bool" where
  "main_inv c p \<longleftrightarrow>
     (\<exists>F N d s. checked c (todo p) F N d s \<and> F \<subseteq> finished p \<and> N \<inter> results_taken p = {}
        \<and> (d \<longrightarrow> HFusion \<in> F \<and> (bg_tasks p = 0 \<or> deadline_passed p)) \<and> (s \<longrightarrow> \<not> own_sender p))
     \<and> results_taken p \<subseteq> finished p \<and> \<not> panicked p \<and> (exit_status p = None \<or> exit_status p = Some c)"

lemma main_invI:
  "checked c (todo p) F N d s \<Longrightarrow> F \<subseteq> finished p \<Longrightarrow> N \<inter> results_taken p = {}
   \<Longrightarrow> (d \<Longrightarrow> HFusion \<in> F \<and> (bg_tasks p = 0 \<or> deadline_passed p)) \<Longrightarrow> (s \<Longrightarrow> \<not> own_sender p)
   \<Longrightarrow> results_taken p \<subseteq> finished p \<Longrightarrow> \<not> panicked p \<Longrightarrow> exit_status p = None \<or> exit_status p = Some c
   \<Longrightarrow> main_inv c p"
  unfolding main_inv_def by blast

lemma main_invE:
  assumes "main_inv c p"
  obtains F N d s where "checked c (todo p) F N d s" "F \<subseteq> finished p" "N \<inter> results_taken p = {}"
    "d \<Longrightarrow> HFusion \<in> F \<and> (bg_tasks p = 0 \<or> deadline_passed p)" "s \<Longrightarrow> \<not> own_sender p"
    "results_taken p \<subseteq> finished p" "\<not> panicked p" "exit_status p = None \<or> exit_status p = Some c"
  using assms unfolding main_inv_def by blast

lemma main_inv_step:
  assumes "shut_step p q" and "main_inv c p"
  shows "main_inv c q"
  using assms(2)
proof (cases rule: main_invE)
  case (1 F N d s)
  note inv = 1
  from assms(1) show ?thesis
  proof cases
    case (guard h b "is")
    show ?thesis
    proof (cases "h \<in> finished p")
      case True
      then show ?thesis using inv guard by (intro main_invI [of c q "insert h F" N d s]) auto
    next
      case False
      then show ?thesis using inv guard by (intro main_invI [of c q F "insert h N" d s]) auto
    qed
  next
    case (awaits h "is")
    then show ?thesis using inv by (intro main_invI [of c q "insert h F" "N - {h}" d s]) (auto simp: take_result_def)
  next
    case (in_time h "is")
    then show ?thesis using inv by (intro main_invI [of c q F "N - {h}" d s]) (auto simp: take_result_def)
  next
    case (timed_out h "is")
    then show ?thesis using inv by (intro main_invI [of c q F "N - {h}" d s]) auto
  next
    case (drained "is")
    then show ?thesis using inv by (intro main_invI [of c q F N True s]) auto
  next
    case (deadline "is")
    then show ?thesis using inv by (intro main_invI [of c q F N True s]) auto
  next
    case (drops "is")
    then show ?thesis using inv by (intro main_invI [of c q F N d True]) auto
  next
    case (exits e "is")
    then show ?thesis using inv by (intro main_invI [of c q F N d s]) auto
  next
    case (spawns)
    then show ?thesis using inv by (intro main_invI [of c q F N d s]) auto
  qed (use inv in \<open>intro main_invI [of c q F N d s]; auto\<close>)+
qed

lemma main_inv_begin:
  "shutdown_begins synth listener watchdog ev p \<Longrightarrow> main_inv (exit_code (exit_reason_of synth ev)) p"
  using program_checked [of "exit_reason_of synth ev" listener watchdog]
  by (intro main_invI [of _ p "if watchdog then {} else {HWatchdog}" "{}" False False]) (auto simp: shutdown_begins_def)

lemma main_inv_run:
  "shut_step\<^sup>*\<^sup>* p0 p \<Longrightarrow> main_inv c p0 \<Longrightarrow> main_inv c p"
  by (induction rule: rtranclp_induct) (auto intro: main_inv_step)

section \<open>The log at shutdown\<close>

definition log_ok :: "process \<Rightarrow> bool" where
  "log_ok p \<longleftrightarrow>
     (HAction \<notin> finished p \<longrightarrow> log_inv (sent p) (log_task p) \<and> \<not> ac_ended (log_task p))
     \<and> (ac_ended (log_task p) \<longrightarrow> senders_gone p \<and> ac_unread (log_task p) = [] \<and> log_inv (sent p) (log_task p))"

lemma take_result_frame [simp]:
  "finished (take_result h is p) = finished p" "bg_tasks (take_result h is p) = bg_tasks p"
  "own_sender (take_result h is p) = own_sender p" "log_task (take_result h is p) = log_task p"
  "sent (take_result h is p) = sent p"
  by (simp_all add: take_result_def)

lemma senders_gone_stays: "shut_step p q \<Longrightarrow> senders_gone p \<Longrightarrow> senders_gone q"
  by (cases rule: shut_step.cases) (auto simp: senders_gone_def)

lemma action_turn_ends: "ac_ended (action_turn gone a) \<Longrightarrow> ac_ended a \<or> gone \<and> ac_unread (action_turn gone a) = []"
  by (auto simp: action_turn_def split: if_splits list.splits)

lemma log_ok_step:
  assumes "shut_step p q" and "log_ok p"
  shows "log_ok q"
  using assms(1)
proof cases
  case (logs a)
  have "log_inv (sent q) (log_task q)" using logs assms(2) log_inv_turn by (simp add: log_ok_def)
  moreover have "ac_ended a \<Longrightarrow> senders_gone q \<and> ac_unread a = []"
    using action_turn_ends [of "senders_gone p" "log_task p"] logs assms(2) senders_gone_stays [OF assms(1)]
    by (auto simp: log_ok_def)
  ultimately show ?thesis using logs by (auto simp: log_ok_def)
next
  case (sends ev)
  then show ?thesis using assms(2) log_inv_broadcast senders_gone_stays [OF assms(1)]
    by (auto simp: log_ok_def broadcast_def senders_gone_def)
qed (use assms(2) senders_gone_stays [OF assms(1)] in \<open>auto simp: log_ok_def\<close>)

lemma log_ok_run: "shut_step\<^sup>*\<^sup>* p0 p \<Longrightarrow> log_ok p0 \<Longrightarrow> log_ok p"
  by (induction rule: rtranclp_induct) (auto intro: log_ok_step)

section \<open>Properties\<close>

text \<open>
  C20. The shutdown never waits for a handle twice: whatever ended the run and however the other
  tasks behave meanwhile, the main task does not panic on its way to the exit, so that the
  drain of the forensic dump is always reached, and the status it exits with is that of the
  reason the run ended for.
\<close>

theorem shutdown_never_panics:
  assumes "shutdown_begins synth listener watchdog ev p0" and "shut_step\<^sup>*\<^sup>* p0 p"
  shows "\<not> panicked p \<and> results_taken p \<subseteq> finished p
    \<and> (exit_status p = None \<or> exit_status p = Some (exit_code (exit_reason_of synth ev)))"
  using main_inv_run [OF assms(2) main_inv_begin [OF assms(1)]] unfolding main_inv_def by blast

text \<open>
  C19. The shutdown keeps the event trail: when the main task waits for the log, every producer is
  gone (unless the drain ran into its deadline), so no event can follow, and a log task that is
  still alive ends after one turn per waiting event and two more, with all of them logged. When
  it has ended that way and was never overrun, the log is everything that was broadcast, during
  the shutdown too.
\<close>

theorem shutdown_keeps_trail:
  assumes "shutdown_begins synth listener watchdog ev p0" and "shut_step\<^sup>*\<^sup>* p0 p"
    and "todo p = AwaitAtMost HAction # is" and "\<not> deadline_passed p"
  shows "senders_gone p
    \<and> (HAction \<notin> finished p \<longrightarrow>
        (\<forall>n > length (ac_unread (log_task p)) + 1.
           ac_ended ((action_turn True ^^ n) (log_task p))
           \<and> ac_logged ((action_turn True ^^ n) (log_task p)) = ac_logged (log_task p) @ ac_unread (log_task p)
           \<and> (ac_lost (log_task p) = 0 \<longrightarrow> ac_logged ((action_turn True ^^ n) (log_task p)) = sent p)))
    \<and> (ac_ended (log_task p) \<and> ac_lost (log_task p) = 0 \<longrightarrow> ac_logged (log_task p) = sent p)"
proof -
  from main_inv_run [OF assms(2) main_inv_begin [OF assms(1)]]
  have gone: "senders_gone p"
  proof (cases rule: main_invE)
    case (1 F N d s)
    then show ?thesis using assms(3,4) by (auto simp: senders_gone_def)
  qed
  have "log_ok p0" using assms(1) by (auto simp: shutdown_begins_def log_ok_def)
  then have ok: "log_ok p" using log_ok_run [OF assms(2)] by blast
  then have "HAction \<notin> finished p \<Longrightarrow> ac_lost (log_task p) = 0 \<Longrightarrow> sent p = ac_logged (log_task p) @ ac_unread (log_task p)"
    "ac_ended (log_task p) \<Longrightarrow> ac_lost (log_task p) = 0 \<Longrightarrow> sent p = ac_logged (log_task p)"
    using log_inv_complete by (fastforce simp: log_ok_def)+
  then show ?thesis using gone action_turns_flush [of "log_task p"] ok by (auto simp: log_ok_def)
qed


text \<open>
  The shutdown goes on: the main task is finished, or can do its next instruction at once, or
  waits for a task it has aborted or for the fusion task; what it does makes the rest smaller, and
  what the others do leaves the rest alone.
\<close>

theorem shutdown_progress:
  assumes "shutdown_begins synth listener watchdog ev p0" and "shut_step\<^sup>*\<^sup>* p0 p"
  shows "todo p = [] \<or> (\<exists>q. shut_step p q \<and> instrs_weight (todo q) < instrs_weight (todo p))
    \<or> (\<exists>h is. todo p = Await h # is \<and> h \<notin> finished p \<and> h \<in> {HFusion, HListener, HWatchdog})"
proof (cases "todo p")
  case (Cons i "is")
  from main_inv_run [OF assms(2) main_inv_begin [OF assms(1)]] show ?thesis
  proof (cases rule: main_invE)
    case (1 F N d s)
    show ?thesis
    proof (cases i)
      case (Abort h)
      then show ?thesis using shut_step.aborts [of p h "is"] Cons by force
    next
      case (UnlessFinished h b)
      then show ?thesis using shut_step.guard [of p h b "is"] Cons by (intro disjI2 disjI1 exI conjI) auto
    next
      case (Await h)
      then show ?thesis using shut_step.awaits [of p h "is"] Cons 1(1)
        by (cases "h \<in> finished p") (force simp: take_result_def, simp)
    next
      case (AwaitAtMost h)
      then show ?thesis using shut_step.in_time [of p h "is"] shut_step.timed_out [of p h "is"] Cons
        by (cases "h \<in> finished p") (force simp: take_result_def)+
    next
      case Drain
      then show ?thesis using shut_step.drained [of p "is"] shut_step.deadline [of p "is"] Cons
        by (cases "bg_tasks p = 0") force+
    next
      case DropSender
      then show ?thesis using shut_step.drops [of p "is"] Cons by force
    next
      case (Exit c)
      then show ?thesis using shut_step.exits [of p c "is"] Cons by force
    qed
  qed
qed simp

section \<open>The last turns of the detector\<close>

lemma closing_step:
  assumes "fle (FNum 0) (fu_gps_dropout_freeze_s (l_fusion l))" and "loop_running l"
  obtains l' outs where "select_step env (next_item imus) (next_item gpss) rst l = Some (l', outs)"
    "fu_gps_dropout_freeze_s (l_fusion l') = fu_gps_dropout_freeze_s (l_fusion l)"
    "if imu_open l then gps_open l' = gps_open l \<and> imu_open l' = (imus \<noteq> [])
     else \<not> imu_open l' \<and> gps_open l' = (gpss \<noteq> [])"
    "sm_state (fu_fsm (l_fusion l)) = Spoofed \<Longrightarrow> sm_state (fu_fsm (l_fusion l')) = Spoofed"
proof -
  have "on_gps env fx (l_fusion l) \<noteq> None" for fx using on_gps_total [OF assms(1)] .
  then have "select_step env (next_item imus) (next_item gpss) rst l \<noteq> None"
    by (simp add: select_step_def Let_def case_prod_beta split: poll.splits del: not_None_eq)
  then obtain l' outs where s: "select_step env (next_item imus) (next_item gpss) rst l = Some (l', outs)" by auto
  have shape: "if imu_open l then gps_open l' = gps_open l \<and> imu_open l' = (imus \<noteq> [])
     else \<not> imu_open l' \<and> gps_open l' = (gpss \<noteq> [])"
    using s assms(2) by (auto simp: select_step_def loop_running_def next_item_def split: if_splits list.splits)
  have "sm_state (fu_fsm (l_fusion l')) = Spoofed" if "sm_state (fu_fsm (l_fusion l)) = Spoofed"
    using s assms(2) that on_gps_spoofed
    by (auto simp: select_step_def loop_running_def next_item_def on_imu_frame split: if_splits list.splits)
  then show thesis using that [OF s loop_step_freeze [OF loop_step.poll [OF s]] shape] by blast
qed

lemma closing_turns_end:
  assumes "fle (FNum 0) (fu_gps_dropout_freeze_s (l_fusion l))"
    and "(if imu_open l then length imus + 1 else 0) + (if gps_open l then length gpss + 1 else 0) \<le> n"
  shows "\<exists>l' outs. closing_turns envs rsts n imus gpss l = Some (l', outs) \<and> \<not> loop_running l'
    \<and> (sm_state (fu_fsm (l_fusion l)) = Spoofed \<longrightarrow> sm_state (fu_fsm (l_fusion l')) = Spoofed)"
  using assms
proof (induction n arbitrary: imus gpss l)
  case 0
  then show ?case by (simp add: loop_running_def split: if_splits)
next
  case (Suc n)
  show ?case
  proof (cases "loop_running l")
    case True
    obtain l1 o1 where s: "select_step (envs n) (next_item imus) (next_item gpss) (rsts n) l = Some (l1, o1)"
      "fu_gps_dropout_freeze_s (l_fusion l1) = fu_gps_dropout_freeze_s (l_fusion l)"
      "if imu_open l then gps_open l1 = gps_open l \<and> imu_open l1 = (imus \<noteq> [])
       else \<not> imu_open l1 \<and> gps_open l1 = (gpss \<noteq> [])"
      "sm_state (fu_fsm (l_fusion l)) = Spoofed \<Longrightarrow> sm_state (fu_fsm (l_fusion l1)) = Spoofed"
      using closing_step [OF Suc.prems(1) True] by metis
    have "(if imu_open l1 then length (if imu_open l then tl imus else imus) + 1 else 0)
        + (if gps_open l1 then length (if imu_open l then gpss else tl gpss) + 1 else 0) \<le> n"
      using s(3) Suc.prems(2) True by (cases imus; cases gpss) (auto simp: loop_running_def split: if_splits)
    from Suc.IH [OF _ this] s(1,2,4) Suc.prems(1) show ?thesis by auto
  next
    case False
    then have "select_step (envs n) (next_item imus) (next_item gpss) (rsts n) l = Some (l, [])" by (simp add: select_step_def)
    with Suc.IH [of l "if imu_open l then tl imus else imus" "if imu_open l then gpss else tl gpss"] Suc.prems False
    show ?thesis by (auto simp: loop_running_def)
  qed
qed

text \<open>
  C18. The fusion task ends when its sources do: whatever state a started task has reached (with a
  dropout threshold that is not negative), once its channels are closed it takes what waits in
  them, at most 256 samples and 64 fixes, and returns within 322 turns; an alarm raised before or
  during these turns stays raised, whatever becomes of the reset channel.
\<close>

theorem fusion_ends_with_sources:
  assumes "spawn_all cfg mp fc boot = Some (Inr l0)" and "fle (FNum 0) (gps_dropout_freeze_s (fc_detect cfg))"
    and "loop_run l0 ins outs l" and "length imus \<le> 256" and "length gpss \<le> 64"
  shows "\<exists>l' outs'. closing_turns envs rsts 322 imus gpss l = Some (l', outs') \<and> \<not> loop_running l'
    \<and> (sm_state (fu_fsm (l_fusion l)) = Spoofed \<longrightarrow> sm_state (fu_fsm (l_fusion l')) = Spoofed)"
proof -
  have "fu_gps_dropout_freeze_s (l_fusion l) = fu_gps_dropout_freeze_s (l_fusion l0)"
    using assms(3) by induction (auto dest: loop_step_freeze)
  then have "fle (FNum 0) (fu_gps_dropout_freeze_s (l_fusion l))" using spawn_freeze [OF assms(1)] assms(2) by simp
  from closing_turns_end [OF this, of imus gpss 322] assms(4,5) show ?thesis by auto
qed

section \<open>A shutdown\<close>

text \<open>The detector of a serial receiver is stopped by SIGTERM while one event waits to be logged.\<close>

definition stopping :: "spoofing_event \<Rightarrow> process" where
  "stopping ev = \<lparr>todo = shutdown_program False False (exit_reason_of False SigtermReceived),
     finished = {HWatchdog, HListener}, results_taken = {}, bg_tasks = 0, deadline_passed = False, own_sender = True,
     log_task = broadcast ev action_start, sent = [ev], panicked = False, exit_status = None\<rparr>"

definition flushing :: "spoofing_event \<Rightarrow> process" where
  "flushing ev = (stopping ev)\<lparr>todo := [AwaitAtMost HAction, Exit 0], finished := {HFusion, HWatchdog, HListener}, own_sender := False\<rparr>"

lemma stopping_begins: "shutdown_begins False False False SigtermReceived (stopping ev)"
  using log_inv_broadcast [OF log_inv_start, of ev]
  by (simp add: shutdown_begins_def stopping_def polled_by_def broadcast_def action_start_def)

lemma stopping_flushes: "shut_step\<^sup>*\<^sup>* (stopping ev) (flushing ev)"
proof -
  let ?rest = "[DropSender, UnlessFinished HAction [AwaitAtMost HAction], Exit 0]"
  let ?F = "{HWatchdog, HListener}" and ?G = "{HFusion, HWatchdog, HListener}"
  define q where "q is F own = (stopping ev)\<lparr>todo := is, finished := F, own_sender := own\<rparr>" for "is" F own
  have q [simp]: "todo (q is F own) = is" "finished (q is F own) = F" "bg_tasks (q is F own) = 0"
    "(q is F own)\<lparr>todo := is'\<rparr> = q is' F own" "(q is F own)\<lparr>finished := F'\<rparr> = q is F' own"
    "(q is F own)\<lparr>todo := is', own_sender := own'\<rparr> = q is' F own'"
    "(q is F own)\<lparr>own_sender := own'\<rparr> = q is F own'" for "is" is' F F' own own'
    by (simp_all add: q_def stopping_def)
  have "stopping ev = q (Abort HGpsIngest # Abort HImuIngest # UnlessFinished HFusion [Await HFusion] # Drain # ?rest) ?F True"
    by (simp add: q_def stopping_def shutdown_program_def exit_reason_of_def exit_code_def)
  also have "shut_step\<^sup>*\<^sup>* \<dots> (q (UnlessFinished HFusion [Await HFusion] # Drain # ?rest) ?F True)"
    using shut_step.aborts [of "q (Abort HGpsIngest # Abort HImuIngest # UnlessFinished HFusion [Await HFusion] # Drain # ?rest) ?F True"]
      shut_step.aborts [of "q (Abort HImuIngest # UnlessFinished HFusion [Await HFusion] # Drain # ?rest) ?F True"]
    by (simp add: rtranclp.rtrancl_into_rtrancl)
  also have "shut_step\<^sup>*\<^sup>* \<dots> (q (Drain # ?rest) ?G True)"
    using shut_step.ends [of HFusion "q (UnlessFinished HFusion [Await HFusion] # Drain # ?rest) ?F True"]
      shut_step.guard [of "q (UnlessFinished HFusion [Await HFusion] # Drain # ?rest) ?G True"]
    by (simp add: rtranclp.rtrancl_into_rtrancl)
  also have "shut_step\<^sup>*\<^sup>* \<dots> (q (tl ?rest) ?G False)"
    using shut_step.drained [of "q (Drain # ?rest) ?G True"] shut_step.drops [of "q ?rest ?G True"]
    by (simp add: rtranclp.rtrancl_into_rtrancl)
  also have "shut_step\<^sup>*\<^sup>* \<dots> (flushing ev)"
    using shut_step.guard [of "q (tl ?rest) ?G False"]
    by (simp add: flushing_def q_def stopping_def r_into_rtranclp)
  finally show ?thesis .
qed

theorem shutdown_never_panics_witness:
  "\<forall>ev. \<not> panicked (flushing ev)
     \<and> (exit_status (flushing ev) = None \<or> exit_status (flushing ev) = Some (exit_code (exit_reason_of False SigtermReceived)))"
  using shutdown_never_panics [OF stopping_begins stopping_flushes] by blast

theorem shutdown_keeps_trail_witness:
  "\<forall>ev. senders_gone (flushing ev) \<and> ac_logged ((action_turn True ^^ 3) (log_task (flushing ev))) = [ev]"
proof
  fix ev
  have f: "todo (flushing ev) = AwaitAtMost HAction # [Exit 0]" "\<not> deadline_passed (flushing ev)" "HAction \<notin> finished (flushing ev)"
    "length (ac_unread (log_task (flushing ev))) + 1 < 3" "ac_lost (log_task (flushing ev)) = 0" "sent (flushing ev) = [ev]"
    by (simp_all add: flushing_def stopping_def broadcast_def action_start_def EVENT_CHANNEL_CAP_def)
  note trail = shutdown_keeps_trail [OF stopping_begins stopping_flushes f(1,2)]
  from trail [THEN conjunct2, THEN conjunct1, rule_format, OF f(3,4)] f(5,6) trail [THEN conjunct1]
  show "senders_gone (flushing ev) \<and> ac_logged ((action_turn True ^^ 3) (log_task (flushing ev))) = [ev]" by metis
qed

theorem shutdown_progress_witness:
  "\<forall>ev. \<exists>q. shut_step (flushing ev) q \<and> instrs_weight (todo q) < instrs_weight (todo (flushing ev))"
proof
  fix ev
  have "todo (flushing ev) = AwaitAtMost HAction # [Exit 0]" by (simp add: flushing_def)
  with shutdown_progress [OF stopping_begins stopping_flushes, of ev]
  show "\<exists>q. shut_step (flushing ev) q \<and> instrs_weight (todo q) < instrs_weight (todo (flushing ev))" by auto
qed

theorem fusion_ends_with_sources_witness:
  "\<exists>l0 l' outs'. spawn_all fusion_config_default None None 0 = Some (Inr l0)
     \<and> closing_turns (\<lambda>_. bench_env) (\<lambda>_. Closed) 322 [level_sample] [toy_fix] l0 = Some (l', outs') \<and> \<not> loop_running l'"
proof -
  obtain l0 where s: "spawn_all fusion_config_default None None 0 = Some (Inr l0)" using default_starts by blast
  from fusion_ends_with_sources [OF s default_freeze loop_run.start, of "[level_sample]" "[toy_fix]" "\<lambda>_. bench_env" "\<lambda>_. Closed"] s
  show ?thesis by fastforce
qed

end
