(* ===== verification/Event_Json.thy ===== *)
theory Event_Json
  imports Event_Log "HOL-Library.List_Lexorder" "HOL-Library.Char_ord"
begin

text \<open>
  The JSON form of an event: what \<open>SpoofingEvent\<close> (\<open>src/src/types.rs\<close>) and the payloads built in
  \<open>src/src/fusion.rs\<close> and \<open>src/src/mav/mod.rs\<close> serialise to, and what the watcher
  (\<open>src/watch/src/main.rs\<close>) reads back. A JSON text is the tree it denotes, the fields of an
  object in the order of the text; a number printed from a float is that float, since it is printed
  with enough digits to be read back. Printing and parsing the text itself are parameters.
\<close>

section \<open>Values\<close>

datatype json = JNull | JBool bool | JInt int | JFloat fl | JStr string | JArr "json list" | JObj "(string \<times> json) list"

text \<open>A number that is not finite is printed as \<open>null\<close>.\<close>

definition json_float :: "fl \<Rightarrow> json" where
  "json_float x = (if is_finite x then JFloat x else JNull)"

definition json_opt :: "('a \<Rightarrow> json) \<Rightarrow> 'a option \<Rightarrow> json" where
  "json_opt f x = (case x of Some v \<Rightarrow> f v | None \<Rightarrow> JNull)"

text \<open>An object built by \<open>json!\<close> is a sorted map.\<close>

definition json_map :: "(string \<times> json) list \<Rightarrow> json" where
  "json_map kvs = JObj (sort_key fst kvs)"

section \<open>Error texts\<close>

definition signed_decimal :: "int \<Rightarrow> string" where
  "signed_decimal i = (if i < 0 then ''-'' @ decimal (nat (- i)) else decimal (nat i))"

definition detect_error_text :: "detect_error \<Rightarrow> string" where
  "detect_error_text e = (case e of
     BufferEmpty \<Rightarrow> ''imu buffer empty''
   | GpsOutsideBuffer gap \<Rightarrow> ''gps timestamp outside imu buffer (gap='' @ signed_decimal gap @ '' ms)'')"

definition ingest_error_text :: "ingest_error \<Rightarrow> string" where
  "ingest_error_text e = (case e of NmeaParse s \<Rightarrow> ''nmea parse: '' @ s | I2c s \<Rightarrow> ''i2c: '' @ s | SourceEnded \<Rightarrow> ''source ended'')"

definition nav_error_text :: "nav_error \<Rightarrow> string" where
  "nav_error_text e = (case e of NotInitialized \<Rightarrow> ''not initialized'' | NonFinite s \<Rightarrow> ''non-finite math: '' @ s)"

definition action_error_text :: "action_error \<Rightarrow> string" where
  "action_error_text e = (case e of AlreadyEngaged \<Rightarrow> ''controller already engaged'' | SinkWrite s \<Rightarrow> ''sink write: '' @ s)"

definition fs_error_text :: "fs_error \<Rightarrow> string" where
  "fs_error_text e = (case e of
     FsIngest x \<Rightarrow> ''ingest: '' @ ingest_error_text x
   | FsNav x \<Rightarrow> ''nav: '' @ nav_error_text x
   | FsDetect x \<Rightarrow> ''detect: '' @ detect_error_text x
   | FsAction x \<Rightarrow> ''action: '' @ action_error_text x
   | ChannelClosed \<Rightarrow> ''channel closed''
   | FsConfig s \<Rightarrow> s
   | FsIo s \<Rightarrow> ''io: '' @ s
   | FsJson s \<Rightarrow> ''json: '' @ s)"

section \<open>Payloads\<close>

definition jump_reason_debug :: "jump_reason \<Rightarrow> string" where
  "jump_reason_debug j = (case j of VelocityMismatch \<Rightarrow> ''VelocityMismatch'' | HardResidual \<Rightarrow> ''HardResidual'')"

definition drift_reason_debug :: "drift_reason \<Rightarrow> string" where
  "drift_reason_debug d = (case d of
     NorthPositive \<Rightarrow> ''NorthPositive'' | NorthNegative \<Rightarrow> ''NorthNegative'' | EastPositive \<Rightarrow> ''EastPositive''
   | EastNegative \<Rightarrow> ''EastNegative'' | Magnitude \<Rightarrow> ''Magnitude'' | VelocityAiding \<Rightarrow> ''VelocityAiding'')"

definition fsm_event_debug :: "fsm_event \<Rightarrow> string" where
  "fsm_event_debug e = (case e of
     EvJump j \<Rightarrow> ''Jump('' @ jump_reason_debug j @ '')''
   | EvDrift d \<Rightarrow> ''Drift('' @ drift_reason_debug d @ '')''
   | EvTransition from to \<Rightarrow> ''Transition { from: '' @ state_name from @ '', to: '' @ state_name to @ '' }'')"

definition cusum_to_json :: "cusum_state \<Rightarrow> json" where
  "cusum_to_json s = json_map
     [(''s_pos_n'', json_float (s_pos_n s)), (''s_neg_n'', json_float (s_neg_n s)), (''s_pos_e'', json_float (s_pos_e s)),
      (''s_neg_e'', json_float (s_neg_e s)), (''s_mag'', json_float (s_mag s)), (''s_vel_aiding'', json_float (s_vel_aiding s))]"

definition checklist_json :: "preflight_checklist \<Rightarrow> json" where
  "checklist_json c = json_map
     [(''static_init_done'', JBool (static_init_done c)), (''first_fix_accepted'', JBool (first_fix_accepted c)),
      (''heartbeat_seen'', JBool (heartbeat_seen c)), (''autopilot_matches'', JBool (autopilot_matches c))]"

definition detail_json :: "detail \<Rightarrow> json" where
  "detail_json d = json_map (case d of
     DOperatorReset prev \<Rightarrow> [(''from'', JStr (state_name prev)), (''to'', JStr ''Normal''), (''reason'', JStr ''operator_reset'')]
   | DForensicSuppressed \<Rightarrow> [(''reason'', JStr ''forensic dump already written for this process; restart to re-arm'')]
   | DForensicWritten path n \<Rightarrow> [(''path'', JStr path), (''bytes_estimated'', JInt (int n))]
   | DForensicFailed e \<Rightarrow> [(''error'', JStr (fs_error_text e))]
   | DChecklist c \<Rightarrow> [(''checklist'', checklist_json c)]
   | DBootRejected lat lon far \<Rightarrow>
       [(''lat_deg'', json_float lat), (''lon_deg'', json_float lon), (''distance_from_expected_home_m'', json_float far)]
   | DDwellPause n s \<Rightarrow>
       [(''consecutive_dropouts'', JInt (uint n)), (''paused_cumulative_s'', json_float s),
        (''reason'', JStr ''GPS dropout pause cap exceeded (consecutive streak or cumulative per-episode budget); dwell timer resuming'')]
   | DSync e \<Rightarrow> [(''reason'', JStr (detect_error_text e))]
   | DFrozen n disp v lat lon \<Rightarrow>
       [(''streak'', JInt (uint n)), (''imu_displacement_m'', json_float disp), (''v_imu_horizontal_mps'', json_float v),
        (''lat_deg'', json_float lat), (''lon_deg'', json_float lon),
        (''reason'', JStr ''GPS pinned within 0.5 m of a fixed point while inertial dead-reckoning shows the vehicle moving (stuck module or replay)'')]
   | DVerticalRate rate mx alt prev \<Rightarrow>
       [(''reason'', JStr ''VerticalRate''), (''alt_rate_mps'', json_float rate), (''max_vertical_rate_mps'', json_float mx),
        (''alt_m'', json_float alt), (''prev_alt_m'', json_float prev),
        (''detail'', JStr (''GPS altitude changed faster than physically plausible '' @ em_dash
           @ '' vertical-spoof indicator (horizontal residual unaffected)''))]
   | DNoDoppler \<Rightarrow>
       [(''reason'', JStr (''GPS missing Doppler (speed/course) for 10+ consecutive fixes '' @ em_dash
           @ '' velocity-mismatch detection inactive; using tightened position-clean gate''))]
   | DReAnchorRejected far mx \<Rightarrow>
       [(''phase'', JStr ''susp_to_normal_re_anchor''), (''distance_from_dr_m'', json_float far), (''max_m'', json_float mx),
        (''reason'', JStr ''post-jam fix too far from dead-reckoned position'')]
   | DSeverCritical \<Rightarrow>
       [(''action'', JStr ''sever_gps''), (''severity'', JStr ''CRITICAL''),
        (''consequence'', JStr ''engage_rtb will fire next but the autopilot is still using the (spoofed) GPS to navigate. Operator should assume RTL is compromised and take manual control.'')]
   | DSeverReadback \<Rightarrow>
       [(''action'', JStr ''sever_gps''), (''phase'', JStr ''readback''), (''severity'', JStr ''CRITICAL''),
        (''consequence'', JStr ''autopilot did NOT confirm the GPS-disable parameter (no causal PARAM_VALUE=0 echo). The drone may still be navigating on the spoofed GPS while in RTL. Take manual control.'')]
   | DRtbConfirmed \<Rightarrow> [(''action'', JStr ''engage_rtb''), (''confirmed'', JBool True)]
   | DRtbUnconfirmed \<Rightarrow>
       [(''action'', JStr ''engage_rtb''), (''reason'', JStr ''autopilot mode did not transition to RTL within verification window'')]
   | DRtbVerifyError e \<Rightarrow> [(''action'', JStr ''engage_rtb''), (''verify_error'', JStr (fs_error_text e))]
   | DActionError which e \<Rightarrow> [(''action'', JStr which), (''error'', JStr (fs_error_text e))]
   | DJump j pn pe vn ve \<Rightarrow>
       [(''reason'', JStr (jump_reason_debug j)), (''dpos_n_m'', json_float pn), (''dpos_e_m'', json_float pe),
        (''dvel_n_mps'', json_float vn), (''dvel_e_mps'', json_float ve)]
   | DDrift dr pn pe mvf cs \<Rightarrow>
       [(''reason'', JStr (drift_reason_debug dr)), (''dpos_n_m'', json_float pn), (''dpos_e_m'', json_float pe),
        (''mag_vel_free_mps'', json_float mvf), (''cusum'', cusum_to_json cs)]
   | DTransition from to \<Rightarrow> [(''from'', JStr (state_name from)), (''to'', JStr (state_name to))])"

section \<open>Events\<close>

text \<open>A UTC time is in nanoseconds; the event holds its milliseconds.\<close>

definition event_fields :: "nat \<Rightarrow> int option \<Rightarrow> spoof_kind \<Rightarrow> nav_state_kind \<Rightarrow> f32 \<Rightarrow> json \<Rightarrow> json" where
  "event_fields ns u k st res d = JObj
     [(''mono_ns'', JInt (int ns)), (''utc'', json_opt (\<lambda>t. JInt (t div 10 ^ 6)) u), (''kind'', JStr (kind_name k)),
      (''state'', JStr (state_name st)), (''residual_m'', json_float res), (''detail'', d)]"

definition event_json :: "spoofing_event \<Rightarrow> json" where
  "event_json ev = event_fields (ev_mono_ns ev) (ev_utc ev) (ev_kind ev) (ev_state ev) (ev_residual_m ev) (detail_json (ev_detail ev))"

text \<open>The payload of a watchdog event: the mode, under a key that depends on the kind.\<close>

definition wd_detail_json :: "spoof_kind \<Rightarrow> u32 \<Rightarrow> json" where
  "wd_detail_json k m =
     (if k = KPilotModeChange then json_map [(''new_custom_mode'', JInt (uint m))]
      else json_map [(''current_custom_mode'', JInt (uint m))])"

definition wd_event_json :: "nat \<Rightarrow> wd_event \<Rightarrow> json" where
  "wd_event_json ns e = (case e of (k, st, m) \<Rightarrow> event_fields ns None k st (FNum 0) (wd_detail_json k m))"

section \<open>Reading an event\<close>

definition read_u128 :: "json \<Rightarrow> nat option" where
  "read_u128 j = (case j of JInt i \<Rightarrow> if 0 \<le> i \<and> i < 2 ^ 128 then Some (nat i) else None | _ \<Rightarrow> None)"

definition read_str :: "json \<Rightarrow> string option" where
  "read_str j = (case j of JStr s \<Rightarrow> Some s | _ \<Rightarrow> None)"

text \<open>An integer within 64 bits becomes a float directly, a longer one by way of \<open>f64\<close>.\<close>

definition read_f32 :: "json \<Rightarrow> f32 option" where
  "read_f32 j = (case j of
     JInt i \<Rightarrow> Some (if - (2 ^ 63) \<le> i \<and> i < 2 ^ 64 then of_int_fl B32 i else to_f32 (of_int_fl B64 i))
   | JFloat x \<Rightarrow> Some (to_f32 x)
   | _ \<Rightarrow> None)"

text \<open>A field of an object: the default when it is missing, an error when it comes twice.\<close>

definition obj_field :: "(string \<times> json) list \<Rightarrow> string \<Rightarrow> (json \<Rightarrow> 'a option) \<Rightarrow> 'a \<Rightarrow> 'a option" where
  "obj_field kvs k rd dflt = (case filter (\<lambda>p. fst p = k) kvs of [] \<Rightarrow> Some dflt | [p] \<Rightarrow> rd (snd p) | _ \<Rightarrow> None)"

definition arr_field :: "json list \<Rightarrow> nat \<Rightarrow> (json \<Rightarrow> 'a option) \<Rightarrow> 'a \<Rightarrow> 'a option" where
  "arr_field vs i rd dflt = (if i < length vs then rd (vs ! i) else Some dflt)"

text \<open>What the watcher asks of a payload; of a key that comes twice the later value counts.\<close>

definition json_get :: "json \<Rightarrow> string \<Rightarrow> json option" where
  "json_get j k = (case j of JObj kvs \<Rightarrow> map_of (rev kvs) k | _ \<Rightarrow> None)"

definition as_u64 :: "json \<Rightarrow> nat option" where
  "as_u64 j = (case j of JInt i \<Rightarrow> if 0 \<le> i \<and> i < 2 ^ 64 then Some (nat i) else None | _ \<Rightarrow> None)"

definition as_f64 :: "json \<Rightarrow> f64 option" where
  "as_f64 j = (case j of JInt i \<Rightarrow> Some (of_int_fl B64 i) | JFloat x \<Rightarrow> Some x | _ \<Rightarrow> None)"

definition detail_of_json :: "json \<Rightarrow> json_detail" where
  "detail_of_json j = \<lparr>detail_u64 = (\<lambda>k. Option.bind (json_get j k) as_u64),
     detail_f64 = (\<lambda>k. Option.bind (json_get j k) as_f64), detail_str = (\<lambda>k. Option.bind (json_get j k) read_str)\<rparr>"

definition watch_event_of ::
    "nat option \<Rightarrow> string option \<Rightarrow> string option \<Rightarrow> f32 option \<Rightarrow> json option \<Rightarrow> watch_event option" where
  "watch_event_of ns k st res d =
     (case (ns, k, st, res, d) of
        (Some ns, Some k, Some st, Some res, Some d) \<Rightarrow>
          Some \<lparr>we_mono_ns = ns, we_kind = k, we_state = st, we_residual_m = res, we_detail = detail_of_json d\<rparr>
      | _ \<Rightarrow> None)"

text \<open>A struct is read from an object, whose other fields are ignored, or from an array of its fields.\<close>

definition event_of_json :: "json \<Rightarrow> watch_event option" where
  "event_of_json j = (case j of
     JObj kvs \<Rightarrow> watch_event_of (obj_field kvs ''mono_ns'' read_u128 0) (obj_field kvs ''kind'' read_str [])
       (obj_field kvs ''state'' read_str []) (obj_field kvs ''residual_m'' read_f32 (FNum 0)) (obj_field kvs ''detail'' Some JNull)
   | JArr vs \<Rightarrow>
       if length vs \<le> 5
       then watch_event_of (arr_field vs 0 read_u128 0) (arr_field vs 1 read_str []) (arr_field vs 2 read_str [])
              (arr_field vs 3 read_f32 (FNum 0)) (arr_field vs 4 Some JNull)
       else None
   | _ \<Rightarrow> None)"

definition watch_parse :: "(u8 list \<Rightarrow> json option) \<Rightarrow> u8 list \<Rightarrow> watch_event option" where
  "watch_parse parse bs = Option.bind (parse bs) event_of_json"

section \<open>Events read back\<close>

text \<open>The numbers of an event that the JSON form keeps.\<close>

definition loggable :: "spoofing_event \<Rightarrow> bool" where
  "loggable ev \<longleftrightarrow> is_finite (ev_residual_m ev) \<and> to_f32 (ev_residual_m ev) = ev_residual_m ev \<and> ev_mono_ns ev < 2 ^ 128"

definition payload :: "detail \<Rightarrow> json_detail" where
  "payload d = detail_of_json (detail_json d)"

lemma event_fields_read:
  assumes "is_finite res" and "to_f32 res = res" and "ns < 2 ^ 128"
  shows "event_of_json (event_fields ns u k st res d)
    = Some \<lparr>we_mono_ns = ns, we_kind = kind_name k, we_state = state_name st, we_residual_m = res, we_detail = detail_of_json d\<rparr>"
proof -
  have "int ns < 2 ^ 128" using assms(3) by (metis of_nat_less_iff of_nat_numeral of_nat_power)
  then show ?thesis
    using assms(1,2)
    by (simp add: event_of_json_def event_fields_def obj_field_def watch_event_of_def read_u128_def read_str_def read_f32_def json_float_def)
qed

lemma event_json_read: "loggable ev \<Longrightarrow> event_of_json (event_json ev) = Some (logged payload ev)"
  by (simp add: event_json_def loggable_def event_fields_read logged_def payload_def)

text \<open>An event whose residual is not finite cannot be read back.\<close>

lemma nonfinite_event_unread: "\<not> is_finite (ev_residual_m ev) \<Longrightarrow> event_of_json (event_json ev) = None"
  by (simp add: event_of_json_def event_json_def event_fields_def obj_field_def watch_event_of_def read_f32_def json_float_def split: option.split)

lemma wd_event_json_read:
  assumes "ns < 2 ^ 128"
  shows "event_of_json (wd_event_json ns e) = Some (logged_link (\<lambda>m. detail_of_json (wd_detail_json (fst e) m)) ns e)"
  using event_fields_read [OF _ _ assms, of "FNum 0"]
  by (simp add: to_f32_def wd_event_json_def logged_link_def split: prod.split)

lemma mode_change_read: "detail_u64 (detail_of_json (wd_detail_json KPilotModeChange m)) ''new_custom_mode'' = Some (unat m)"
proof -
  have "uint m < 2 ^ 64" using uint_lt2p [of m] by simp
  then show ?thesis by (simp add: wd_detail_json_def detail_of_json_def json_map_def json_get_def as_u64_def)
qed

end
