(* ===== verification/Attestation.thy ===== *)
theory Attestation
  imports Types
begin

text \<open>
  The identity of the running binary, \<open>src/src/attestation.rs\<close>: which program, where it lies and
  the SHA-256 of its file, read once at start-up for the log. The hash is a third-party crate: its
  state, its update by a chunk and its digest are parameters.
\<close>

record attestation =
  at_crate_version :: string
  at_build_profile :: string
  at_host_os :: string
  at_host_arch :: string
  at_binary_path :: "string option"
  at_binary_sha256 :: "string option"
  at_git_commit :: "string option"

section \<open>The hash of a file\<close>

definition nibble_char :: "nat \<Rightarrow> char" where
  "nibble_char n = (if n < 10 then char_of (48 + n) else char_of (87 + n))"

definition hex_encode :: "u8 list \<Rightarrow> string" where
  "hex_encode bs = concat (map (\<lambda>b. [nibble_char (unat b div 16), nibble_char (unat b mod 16)]) bs)"

text \<open>The read loop, over what the reads return: an error, a chunk, or nothing at the end of the file.\<close>

fun hash_reads :: "('h \<Rightarrow> u8 list \<Rightarrow> 'h) \<Rightarrow> (fs_error + u8 list) list \<Rightarrow> 'h \<Rightarrow> fs_error + 'h" where
  "hash_reads upd [] h = Inr h"
| "hash_reads upd (Inl e # reads) h = Inl e"
| "hash_reads upd (Inr [] # reads) h = Inr h"
| "hash_reads upd (Inr (b # bs) # reads) h = hash_reads upd reads (upd h (b # bs))"

definition sha256_of_file ::
    "'h \<Rightarrow> ('h \<Rightarrow> u8 list \<Rightarrow> 'h) \<Rightarrow> ('h \<Rightarrow> u8 list) \<Rightarrow> (fs_error + (fs_error + u8 list) list) \<Rightarrow> fs_error + string" where
  "sha256_of_file h0 upd digest file =
     (case file of
        Inl e \<Rightarrow> Inl e
      | Inr reads \<Rightarrow> (case hash_reads upd reads h0 of Inl e \<Rightarrow> Inl e | Inr h \<Rightarrow> Inr (hex_encode (digest h))))"

text \<open>What the build and the host supply, and the file behind the executable's path.\<close>

record at_env =
  env_version :: string
  env_debug :: bool
  env_os :: string
  env_arch :: string
  env_git :: "string option"
  env_exe :: "(string \<times> (fs_error + (fs_error + u8 list) list)) option"

definition capture :: "'h \<Rightarrow> ('h \<Rightarrow> u8 list \<Rightarrow> 'h) \<Rightarrow> ('h \<Rightarrow> u8 list) \<Rightarrow> at_env \<Rightarrow> attestation" where
  "capture h0 upd digest env =
     \<lparr>at_crate_version = env_version env,
      at_build_profile = (if env_debug env then ''debug'' else ''release''),
      at_host_os = env_os env, at_host_arch = env_arch env,
      at_binary_path = map_option fst (env_exe env),
      at_binary_sha256 = (case env_exe env of
         None \<Rightarrow> None
       | Some (_, file) \<Rightarrow> (case sha256_of_file h0 upd digest file of Inr s \<Rightarrow> Some s | Inl _ \<Rightarrow> None)),
      at_git_commit = env_git env\<rparr>"

text \<open>The fields of the line that \<open>write_to_jsonl\<close> appends to the event log; \<open>None\<close> is JSON's null.\<close>

definition log_line :: "attestation \<Rightarrow> (string \<times> string option) list" where
  "log_line a =
     [(''kind'', Some ''Attestation''), (''version'', Some (at_crate_version a)), (''profile'', Some (at_build_profile a)),
      (''os'', Some (at_host_os a)), (''arch'', Some (at_host_arch a)), (''binary'', at_binary_path a),
      (''sha256'', at_binary_sha256 a), (''git'', at_git_commit a)]"

section \<open>Properties\<close>

lemma nibble_char_inj: "a < 16 \<Longrightarrow> b < 16 \<Longrightarrow> nibble_char a = nibble_char b \<Longrightarrow> a = b"
  by (auto simp: nibble_char_def split: if_splits)

lemma hex_encode_length: "length (hex_encode bs) = 2 * length bs"
  by (induction bs) (simp_all add: hex_encode_def)

lemma hex_encode_inj: "hex_encode a = hex_encode b \<Longrightarrow> a = b"
proof (induction a arbitrary: b)
  case Nil
  then show ?case by (cases b) (simp_all add: hex_encode_def)
next
  case (Cons x a)
  then obtain y b' where b: "b = y # b'" by (cases b) (simp_all add: hex_encode_def)
  then have "nibble_char (unat x div 16) = nibble_char (unat y div 16)" "nibble_char (unat x mod 16) = nibble_char (unat y mod 16)"
    "hex_encode a = hex_encode b'" using Cons.prems by (simp_all add: hex_encode_def)
  moreover have "unat x < 256" "unat y < 256" using unsigned_less [of x] unsigned_less [of y] by simp_all
  ultimately have "unat x div 16 = unat y div 16" "unat x mod 16 = unat y mod 16" "a = b'"
    using Cons.IH by (auto intro!: nibble_char_inj)
  then have "unat x = unat y" by (metis div_mult_mod_eq)
  then have "x = y" by (simp add: unsigned_word_eqI)
  with \<open>a = b'\<close> b show ?case by simp
qed

text \<open>The chunks of the file up to its end, if no read fails.\<close>

fun file_bytes :: "(fs_error + u8 list) list \<Rightarrow> u8 list option" where
  "file_bytes [] = Some []"
| "file_bytes (Inl e # reads) = None"
| "file_bytes (Inr [] # reads) = Some []"
| "file_bytes (Inr (b # bs) # reads) = map_option (\<lambda>r. (b # bs) @ r) (file_bytes reads)"

lemma hash_reads_bytes:
  assumes "\<And>h a b. upd (upd h a) b = upd h (a @ b)" and "\<And>h. upd h [] = h"
  shows "(case file_bytes reads of Some bs \<Rightarrow> hash_reads upd reads h = Inr (upd h bs) | None \<Rightarrow> isl (hash_reads upd reads h))"
  using assms by (induction upd reads h rule: hash_reads.induct) (auto split: option.splits)

text \<open>
  The recorded hash speaks of the file alone: for a hash that takes its input in chunks, two
  successful captures of the same path record the same hash if and only if the bytes of the
  two files have the same digest, however the reads cut them; and no hash is recorded when a read
  fails.
\<close>

theorem attestation_identifies_file:
  assumes "\<And>h a b. upd (upd h a) b = upd h (a @ b)" and "\<And>h. upd h [] = h"
    and "env_exe e1 = Some (p, Inr r1)" and "env_exe e2 = Some (p, Inr r2)"
    and "file_bytes r1 = Some b1"
  shows "at_binary_sha256 (capture h0 upd digest e1) = at_binary_sha256 (capture h0 upd digest e2)
    \<longleftrightarrow> (\<exists>b2. file_bytes r2 = Some b2 \<and> digest (upd h0 b1) = digest (upd h0 b2))"
proof -
  have r1: "hash_reads upd r1 h0 = Inr (upd h0 b1)"
    using hash_reads_bytes [OF assms(1,2), of r1 h0] assms(5) by simp
  show ?thesis
  proof (cases "file_bytes r2")
    case None
    then have "isl (hash_reads upd r2 h0)" using hash_reads_bytes [OF assms(1,2), of r2 h0] by simp
    then show ?thesis using None r1 assms(3,4) by (auto simp: capture_def sha256_of_file_def isl_def)
  next
    case (Some b2)
    then have "hash_reads upd r2 h0 = Inr (upd h0 b2)" using hash_reads_bytes [OF assms(1,2), of r2 h0] by simp
    then show ?thesis using Some r1 assms(3,4) by (auto simp: capture_def sha256_of_file_def dest: hex_encode_inj)
  qed
qed

theorem attestation_identifies_file_witness:
  "\<exists>e1 e2. env_exe e1 \<noteq> env_exe e2 \<and> at_binary_sha256 (capture [] (@) id e1) = at_binary_sha256 (capture [] (@) id e2)"
proof -
  define e where "e rs = \<lparr>env_version = [], env_debug = False, env_os = [], env_arch = [], env_git = None, env_exe = Some ([], Inr rs)\<rparr>"
    for rs :: "(fs_error + u8 list) list"
  have "at_binary_sha256 (capture [] (@) id (e [Inr [1, 2]])) = at_binary_sha256 (capture [] (@) id (e [Inr [1], Inr [2]]))"
    by (subst attestation_identifies_file [of "(@)" "e [Inr [1, 2]]" "[]" "[Inr [1, 2]]" "e [Inr [1], Inr [2]]" "[Inr [1], Inr [2]]" "[1, 2]"])
      (simp_all add: e_def)
  moreover have "env_exe (e [Inr [1, 2]]) \<noteq> env_exe (e [Inr [1], Inr [2]])" by (simp add: e_def)
  ultimately show ?thesis by blast
qed

end
