(* ===== verification/Log_File.thy ===== *)
theory Log_File
  imports Event_Json Attestation Controller
begin

text \<open>
  The event log as a file: \<open>on_event\<close> of the console and of the MAVLink controller
  (\<open>src/src/action/console.rs\<close>, \<open>src/src/mav/controller.rs\<close>) and the attestation line
  (\<open>src/src/attestation.rs\<close>) put to it, the watcher reads it. \<open>print\<close> and \<open>parse\<close> are the JSON
  crate. A write call may fail and may have put a part of its bytes into the file: its outcome is
  the number of bytes that reach the file and whether the call answers \<open>Ok\<close>. The locale
  \<open>event_sink\<close> is what the action task asks of \<open>on_event\<close>.
\<close>

section \<open>Appending to the log\<close>

type_synonym write_outcome = "nat \<times> bool"

record log_writes =
  lw_line :: write_outcome
  lw_newline :: write_outcome
  lw_flush :: write_outcome

definition write_all :: "u8 list \<Rightarrow> write_outcome \<Rightarrow> u8 list \<Rightarrow> u8 list \<times> bool" where
  "write_all bs r f0 = (f0 @ take (fst r) bs, snd r)"

text \<open>The console controller does not look at the results of its writes.\<close>

definition console_on_event :: "(json \<Rightarrow> string + u8 list) \<Rightarrow> log_writes \<Rightarrow> spoofing_event \<Rightarrow> u8 list \<Rightarrow> u8 list" where
  "console_on_event print w ev f0 =
     (case print (event_json ev) of
        Inl e \<Rightarrow> f0
      | Inr line \<Rightarrow>
          (let (f1, _) = write_all line (lw_line w) f0;
               (f2, _) = write_all [newline] (lw_newline w) f1;
               (f3, _) = write_all [] (lw_flush w) f2
           in f3))"

text \<open>The MAVLink controller stops at the first write that fails.\<close>

definition mav_on_event :: "(json \<Rightarrow> string + u8 list) \<Rightarrow> log_writes \<Rightarrow> spoofing_event \<Rightarrow> u8 list \<Rightarrow> u8 list" where
  "mav_on_event print w ev f0 =
     (case print (event_json ev) of
        Inl e \<Rightarrow> f0
      | Inr line \<Rightarrow>
          (let (f1, ok1) = write_all line (lw_line w) f0
           in if \<not> ok1 then f1
              else let (f2, ok2) = write_all [newline] (lw_newline w) f1
                   in if \<not> ok2 then f2 else fst (write_all [] (lw_flush w) f2)))"

text \<open>The log is optional.\<close>

definition on_log :: "(u8 list \<Rightarrow> u8 list) \<Rightarrow> u8 list option \<Rightarrow> u8 list option" where
  "on_log put json_log = map_option put json_log"

definition attestation_json :: "attestation \<Rightarrow> json" where
  "attestation_json a = JObj (map (\<lambda>(k, v). (k, json_opt JStr v)) (log_line a))"

text \<open>\<open>write_to_jsonl\<close>: the file may fail to open; every failure ends it.\<close>

definition write_to_jsonl ::
    "(json \<Rightarrow> string + u8 list) \<Rightarrow> bool \<Rightarrow> log_writes \<Rightarrow> attestation \<Rightarrow> u8 list \<Rightarrow> u8 list \<times> bool" where
  "write_to_jsonl print opens w a f0 =
     (case print (attestation_json a) of
        Inl e \<Rightarrow> (f0, False)
      | Inr line \<Rightarrow>
          if \<not> opens then (f0, False)
          else let (f1, ok1) = write_all line (lw_line w) f0
               in if \<not> ok1 then (f1, False)
                  else let (f2, ok2) = write_all [newline] (lw_newline w) f1
                       in if \<not> ok2 then (f2, False) else write_all [] (lw_flush w) f2)"

text \<open>\<open>emit\<close> writes the line only with a log path, and carries on whatever happens.\<close>

definition attestation_emit ::
    "(json \<Rightarrow> string + u8 list) \<Rightarrow> bool \<Rightarrow> log_writes \<Rightarrow> attestation \<Rightarrow> u8 list option \<Rightarrow> u8 list option" where
  "attestation_emit print opens w a = on_log (\<lambda>f0. fst (write_to_jsonl print opens w a f0))"

section \<open>The contract of \<open>on_event\<close>\<close>

definition writes_ok :: "u8 list \<Rightarrow> log_writes \<Rightarrow> bool" where
  "writes_ok line w \<longleftrightarrow> length line \<le> fst (lw_line w) \<and> snd (lw_line w) \<and> 0 < fst (lw_newline w) \<and> snd (lw_newline w)"

locale event_sink =
  fixes print :: "json \<Rightarrow> string + u8 list" and put :: "log_writes \<Rightarrow> spoofing_event \<Rightarrow> u8 list \<Rightarrow> u8 list"
  assumes append_line: "print (event_json ev) = Inr line \<Longrightarrow> writes_ok line w \<Longrightarrow> put w ev f0 = f0 @ line @ [newline]"
    and append_extends: "\<exists>more. put w ev f0 = f0 @ more"
begin

lemma append_events:
  assumes "length ws = length evs" and "\<forall>(w, ev)\<in>set (zip ws evs). \<exists>line. print (event_json ev) = Inr line \<and> writes_ok line w"
  shows "fold (\<lambda>(w, ev). put w ev) (zip ws evs) f0
    = f0 @ concat (map (\<lambda>ev. projr (print (event_json ev)) @ [newline]) evs)"
  using assms
proof (induction ws evs arbitrary: f0 rule: list_induct2)
  case (Cons w ws ev evs)
  then obtain line where "print (event_json ev) = Inr line" "writes_ok line w" by auto
  with Cons append_line [OF this] show ?case by simp
qed simp

lemma append_keeps: "\<exists>more. fold (\<lambda>(w, ev). put w ev) wes f0 = f0 @ more"
proof (induction wes arbitrary: f0)
  case (Cons p wes)
  obtain w ev where p: "p = (w, ev)" by force
  obtain m where "put w ev f0 = f0 @ m" using append_extends by blast
  moreover obtain m' where "fold (\<lambda>(w, ev). put w ev) wes (f0 @ m) = (f0 @ m) @ m'" using Cons by blast
  ultimately show ?case by (simp add: p)
qed simp

end

interpretation console_log: event_sink print "console_on_event print" for print
  by unfold_locales (auto simp: console_on_event_def write_all_def writes_ok_def split: sum.split)

interpretation mav_log: event_sink print "mav_on_event print" for print
  by unfold_locales (auto simp: mav_on_event_def write_all_def writes_ok_def split: sum.split)

section \<open>Reading the log back\<close>

text \<open>What the JSON crate promises of the text of an object: one line that parses back.\<close>

definition text_ok :: "(json \<Rightarrow> string + u8 list) \<Rightarrow> (u8 list \<Rightarrow> json option) \<Rightarrow> json \<Rightarrow> bool" where
  "text_ok print parse j \<longleftrightarrow>
     (case print j of
        Inl e \<Rightarrow> False
      | Inr bs \<Rightarrow> parse bs = Some j \<and> newline \<notin> set bs \<and> bs \<noteq> [] \<and> List.last bs = 0x7D \<and> valid_utf8 (bs @ [newline]))"

lemma trim_end_newline: "bs \<noteq> [] \<Longrightarrow> List.last bs = 0x7D \<Longrightarrow> trim_end (bs @ [newline]) = bs"
proof (induction bs rule: rev_induct)
  case (snoc b bs)
  have "drop_space (0x7D # r) = 0x7D # r" for r
    by (subst drop_space.simps) (simp add: space_width_def split: list.split)
  moreover have "drop_space (newline # 0x7D # r) = drop_space (0x7D # r)" for r
    by (subst drop_space.simps) (simp add: space_width_def newline_def)
  ultimately show ?case using snoc by (simp add: trim_end_def)
qed simp

text \<open>A line that the watcher takes for the event \<open>e\<close>.\<close>

definition line_of :: "(u8 list \<Rightarrow> json option) \<Rightarrow> u8 list \<Rightarrow> watch_event \<Rightarrow> bool" where
  "line_of parse bs e \<longleftrightarrow> newline \<notin> set bs \<and> bs \<noteq> [] \<and> List.last bs = 0x7D \<and> valid_utf8 (bs @ [newline]) \<and> watch_parse parse bs = Some e"

text \<open>What a line that is no event does to the watcher.\<close>

definition bump :: "watcher \<Rightarrow> watcher" where
  "bump w = w\<lparr>w_snap := (w_snap w)\<lparr>w_parse_errors := saturating_add (w_parse_errors (w_snap w)) 1\<rparr>\<rparr>"

lemma show_event_snap: "show_event cli e (w\<lparr>w_snap := s\<rparr>) = (show_event cli e w)\<lparr>w_snap := apply_to_snapshot e s\<rparr>"
  by (simp add: show_event_def Let_def)

lemma fold_show_event_snap:
  "fold (show_event cli) es (w\<lparr>w_snap := s\<rparr>) = (fold (show_event cli) es w)\<lparr>w_snap := fold apply_to_snapshot es s\<rparr>"
  by (induction es arbitrary: w s) (simp_all add: show_event_snap)

lemma fold_apply_parse_errors: "w_parse_errors (fold apply_to_snapshot es s) = w_parse_errors s"
  by (induction es arbitrary: s) (simp_all add: apply_to_snapshot_def Let_def split: option.split)

lemma after_bump:
  "w_events (fold (show_event cli) es (bump w)) = w_events (fold (show_event cli) es w)"
  "w_parse_errors (w_snap (fold (show_event cli) es (bump w))) = saturating_add (w_parse_errors (w_snap w)) 1"
  by (simp_all add: bump_def fold_show_event_snap fold_apply_parse_errors)

lemma line_of_json:
  assumes "text_ok print parse j" and "event_of_json j = Some e"
  shows "print j = Inr (projr (print j)) \<and> line_of parse (projr (print j)) e"
  using assms by (auto simp: text_ok_def line_of_def watch_parse_def split: sum.splits)

lemma drain_line:
  assumes "line_of parse bs e"
  shows "drain_lines cli (watch_parse parse) (read_lines (bs @ newline # rest)) w
    = drain_lines cli (watch_parse parse) (read_lines rest) (show_event cli e w)"
  using assms read_lines_newline [of bs rest] trim_end_newline [of bs] by (simp add: line_of_def on_log_line_def)

lemma drain_log:
  assumes "list_all2 (line_of parse) ls es"
  shows "drain_lines cli (watch_parse parse) (read_lines (concat (map (\<lambda>l. l @ [newline]) ls) @ rest)) w
    = drain_lines cli (watch_parse parse) (read_lines rest) (fold (show_event cli) es w)"
  using assms
proof (induction ls es arbitrary: w rule: list_all2_induct)
  case (Cons l ls e es)
  then show ?case using drain_line [OF Cons(1)] by simp
qed simp








section \<open>A write that fails half way\<close>

lemma torn_appends:
  assumes "print (event_json ev) = Inr line" and "\<not> snd (lw_line w)" and "0 < fst (lw_newline w)"
  shows "console_on_event print w ev f0 = f0 @ take (fst (lw_line w)) line @ [newline]"
    and "mav_on_event print w ev f0 = f0 @ take (fst (lw_line w)) line"
  using assms by (simp_all add: console_on_event_def mav_on_event_def write_all_def)

text \<open>
  C40. What a torn line costs: when the line of an event reaches the log only in part, the console
  controller, which ends the line all the same, loses that event; the MAVLink controller leaves
  the line open, the next event is glued to the fragment and is lost with it. The watcher counts
  one parse error in both cases and takes up again with the next line.
\<close>

theorem torn_write_costs:
  assumes "\<forall>ev\<in>{e1, e2, e3}. loggable ev \<and> text_ok print parse (event_json ev)"
    and torn: "frag = take n (projr (print (event_json e1)))" "\<not> snd (lw_line w1)" "fst (lw_line w1) = n"
      "0 < fst (lw_newline w1)"
    and whole: "\<forall>ev\<in>{e2, e3}. writes_ok (projr (print (event_json ev))) w"
    and junk: "\<forall>l\<in>{frag, frag @ projr (print (event_json e2))}. valid_utf8 (l @ [newline]) \<and> trim_end (l @ [newline]) \<noteq> []
      \<and> parse (trim_end (l @ [newline])) = None"
  shows "\<exists>wc wm. drain_lines cli (watch_parse parse)
        (read_lines (fold (\<lambda>(w, ev). console_on_event print w ev) [(w1, e1), (w, e2), (w, e3)] [])) watcher_start = Some wc
      \<and> w_parse_errors (w_snap wc) = 1
      \<and> w_events wc = w_events (fold (show_event cli) (map (logged payload) [e2, e3]) watcher_start)
    \<and> drain_lines cli (watch_parse parse)
        (read_lines (fold (\<lambda>(w, ev). mav_on_event print w ev) [(w1, e1), (w, e2), (w, e3)] [])) watcher_start = Some wm
      \<and> w_parse_errors (w_snap wm) = 1
      \<and> w_events wm = w_events (fold (show_event cli) (map (logged payload) [e3]) watcher_start)"
proof -
  let ?line = "\<lambda>ev. projr (print (event_json ev))"
  have lines: "print (event_json ev) = Inr (?line ev) \<and> line_of parse (?line ev) (logged payload ev)" if "ev \<in> {e1, e2, e3}" for ev
    using line_of_json [OF _ event_json_read] assms(1) that by blast
  have bad: "drain_lines cli (watch_parse parse) (read_lines (l @ newline # rest)) watcher_start
      = drain_lines cli (watch_parse parse) (read_lines rest) (bump watcher_start)"
    if "l \<in> {frag, frag @ ?line e2}" and "newline \<notin> set l" for l rest
  proof -
    have "on_log_line cli (watch_parse parse) (l @ [newline]) watcher_start = bump watcher_start"
      using on_log_line_bad [of "l @ [newline]" "watch_parse parse" cli watcher_start] junk that(1)
      by (auto simp: watch_parse_def bump_def)
    then show ?thesis using read_lines_newline [OF that(2), of rest] junk that(1) by auto
  qed
  have clean: "newline \<notin> set frag" "newline \<notin> set (frag @ ?line e2)"
    using lines [of e1] lines [of e2] by (auto simp: torn(1) line_of_def dest: in_set_takeD)
  have go: "drain_lines cli (watch_parse parse) (read_lines (concat (map (\<lambda>ev. ?line ev @ [newline]) evs))) w0
      = Some (fold (show_event cli) (map (logged payload) evs) w0)" if "set evs \<subseteq> {e2, e3}" for evs w0
  proof -
    have "list_all2 (line_of parse) (map ?line evs) (map (logged payload) evs)"
      using lines that by (auto simp: list.rel_map intro!: list.rel_refl_strong)
    from drain_log [OF this, of cli "[]" w0] show ?thesis by (simp add: comp_def)
  qed
  have one: "saturating_add (w_parse_errors (w_snap watcher_start)) 1 = 1"
    by (simp add: watcher_start_def snapshot_default_def saturating_add_def)
  note p1 = conjunct1 [OF lines [of e1], simplified] and p2 = conjunct1 [OF lines [of e2], simplified]
    and p3 = conjunct1 [OF lines [of e3], simplified]
  have ok: "writes_ok (?line e2) w" "writes_ok (?line e3) w" using whole by simp_all
  have "fold (\<lambda>(w, ev). console_on_event print w ev) [(w1, e1), (w, e2), (w, e3)] []
      = frag @ newline # concat (map (\<lambda>ev. ?line ev @ [newline]) [e2, e3])"
    using torn_appends(1) [of print e1 "?line e1" w1 "[]", OF p1] torn
    by (simp add: console_log.append_line [of print e2 "?line e2", OF p2 ok(1)] console_log.append_line [of print e3 "?line e3", OF p3 ok(2)])
  moreover have "fold (\<lambda>(w, ev). mav_on_event print w ev) [(w1, e1), (w, e2), (w, e3)] []
      = (frag @ ?line e2) @ newline # concat (map (\<lambda>ev. ?line ev @ [newline]) [e3])"
    using torn_appends(2) [of print e1 "?line e1" w1 "[]", OF p1] torn
    by (simp add: mav_log.append_line [of print e2 "?line e2", OF p2 ok(1)] mav_log.append_line [of print e3 "?line e3", OF p3 ok(2)])
  ultimately show ?thesis
    using bad [OF _ clean(1)] bad [OF _ clean(2)] go [of "[e2, e3]"] go [of "[e3]"] one
      after_bump [of cli "map (logged payload) [e2, e3]" watcher_start] after_bump [of cli "map (logged payload) [e3]" watcher_start]
    by simp
qed

section \<open>Witnesses\<close>

text \<open>An operator reset on the bench, its attestation, and a JSON crate that knows their two texts.\<close>

definition reset_event :: spoofing_event where
  "reset_event = spoofing_event_new (at_mono (12 * 10 ^ 9)) KStateTransition Normal (FNum 0) (DOperatorReset Normal) 0"

definition bench_attestation :: attestation where
  "bench_attestation = \<lparr>at_crate_version = ''0.1.0'', at_build_profile = ''release'', at_host_os = ''linux'',
     at_host_arch = ''aarch64'', at_binary_path = None, at_binary_sha256 = None, at_git_commit = None\<rparr>"

definition bench_print :: "json \<Rightarrow> string + u8 list" where
  "bench_print j = Inr (if j = event_json reset_event then [0x31, 0x7D] else [0x30, 0x7D])"

definition bench_parse :: "u8 list \<Rightarrow> json option" where
  "bench_parse bs = (if bs = [0x31, 0x7D] then Some (event_json reset_event)
     else if bs = [0x30, 0x7D] then Some (attestation_json bench_attestation) else None)"

definition bench_cli :: watch_cli where
  "bench_cli = \<lparr>wc_replay = True, wc_speed = FNum 0, wc_buffer = 500\<rparr>"

definition bench_writes :: "bool \<Rightarrow> log_writes" where
  "bench_writes ok = \<lparr>lw_line = (if ok then (2, True) else (1, False)), lw_newline = (1, True), lw_flush = (0, True)\<rparr>"

lemma bench_text: "text_ok bench_print bench_parse (event_json reset_event)" "text_ok bench_print bench_parse (attestation_json bench_attestation)"
  by (simp_all add: text_ok_def bench_print_def bench_parse_def newline_def attestation_json_def event_json_def event_fields_def log_line_def)

lemma reset_loggable: "loggable reset_event"
  by (simp add: loggable_def reset_event_def spoofing_event_new_def at_mono_def saturating_duration_since_def to_f32_def)

lemma bench_writes_ok: "writes_ok (projr (bench_print j)) (bench_writes True)"
  by (simp add: writes_ok_def bench_print_def bench_writes_def)


theorem torn_write_costs_witness:
  "\<exists>wc wm. drain_lines bench_cli (watch_parse bench_parse) (read_lines (fold (\<lambda>(w, ev). console_on_event bench_print w ev)
        [(bench_writes False, reset_event), (bench_writes True, reset_event), (bench_writes True, reset_event)] [])) watcher_start = Some wc
    \<and> length (w_events wc) = 2
    \<and> drain_lines bench_cli (watch_parse bench_parse) (read_lines (fold (\<lambda>(w, ev). mav_on_event bench_print w ev)
        [(bench_writes False, reset_event), (bench_writes True, reset_event), (bench_writes True, reset_event)] [])) watcher_start = Some wm
    \<and> length (w_events wm) = 1"
proof -
  have trim: "trim_end [0x31, newline] = [0x31]" "trim_end [0x31, 0x31, 0x7D, newline] = [0x31, 0x31, 0x7D]"
    by (simp_all add: trim_end_def newline_def drop_space.simps [of "_ # _"] space_width_def)
  have line: "projr (bench_print (event_json reset_event)) = [0x31, 0x7D]" by (simp add: bench_print_def)
  have "\<forall>ev\<in>{reset_event, reset_event, reset_event}. loggable ev \<and> text_ok bench_print bench_parse (event_json ev)"
    by (simp add: bench_text reset_loggable)
  moreover have "[0x31] = take 1 (projr (bench_print (event_json reset_event)))" "\<not> snd (lw_line (bench_writes False))"
    "fst (lw_line (bench_writes False)) = 1" "0 < fst (lw_newline (bench_writes False))"
    by (simp_all add: line bench_writes_def)
  moreover have "\<forall>ev\<in>{reset_event, reset_event}. writes_ok (projr (bench_print (event_json ev))) (bench_writes True)"
    by (simp add: bench_writes_ok)
  moreover have "\<forall>l\<in>{[0x31], [0x31] @ projr (bench_print (event_json reset_event))}. valid_utf8 (l @ [newline])
      \<and> trim_end (l @ [newline]) \<noteq> [] \<and> bench_parse (trim_end (l @ [newline])) = None"
    using trim by (simp add: line bench_parse_def newline_def)
  moreover have "length (w_events (fold (show_event bench_cli) (map (logged payload) [reset_event, reset_event]) watcher_start)) = 2"
    "length (w_events (fold (show_event bench_cli) (map (logged payload) [reset_event]) watcher_start)) = 1"
    by (simp_all add: show_event_def bench_cli_def watcher_start_def Let_def)
  ultimately show ?thesis
    using torn_write_costs [of reset_event reset_event reset_event bench_print bench_parse "[0x31]" 1 "bench_writes False" "bench_writes True" bench_cli]
    by metis
qed

end
