(* ===== verification/Forensic_File.thy ===== *)
theory Forensic_File
  imports Event_Json
begin

text \<open>
  The forensic dump on disk, \<open>dump_to_disk\<close> of \<open>src/src/forensic.rs\<close>, and the background task of
  \<open>src/src/fusion.rs\<close> that runs it. A file system maps paths to contents and permissions; that
  the directory exists is only the outcome of creating it. Every call may fail, with the bytes it
  got to write; the dump is the list of the file systems it passes through, so a crash or an abort
  is the end of the list at any point. Printing JSON and formatting UTC times are parameters.
\<close>

section \<open>The JSON form of a snapshot\<close>

definition json_vec3 :: "vec3 \<Rightarrow> json" where
  "json_vec3 v = JArr [json_float (v0 v), json_float (v1 v), json_float (v2 v)]"

definition gps_record_json :: "gps_fix_record \<Rightarrow> json" where
  "gps_record_json r = JObj
     [(''t_secs'', json_float (gps_fix_record.gr_t_secs r)), (''lat_deg'', json_float (gps_fix_record.gr_lat_deg r)), (''lon_deg'', json_float (gps_fix_record.gr_lon_deg r)),
      (''alt_m'', json_float (gps_fix_record.gr_alt_m r)), (''speed_mps'', json_opt json_float (gps_fix_record.gr_speed_mps r)),
      (''course_deg'', json_opt json_float (gps_fix_record.gr_course_deg r)), (''hdop'', json_opt json_float (gps_fix_record.gr_hdop r)),
      (''sats'', json_opt (\<lambda>n. JInt (uint n)) (gps_fix_record.gr_sats r))]"

definition imu_record_json :: "imu_sample_record \<Rightarrow> json" where
  "imu_record_json r = JObj
     [(''t_secs'', json_float (ir_t_secs r)), (''accel_mps2'', json_vec3 (ir_accel_mps2 r)), (''gyro_rps'', json_vec3 (ir_gyro_rps r))]"

definition residual_record_json :: "residual_record \<Rightarrow> json" where
  "residual_record_json r = JObj
     [(''t_secs'', json_float (rr_t_secs r)), (''dpos_n'', json_float (rr_dpos_n r)), (''dpos_e'', json_float (rr_dpos_e r)),
      (''mag_pos'', json_float (rr_mag_pos r)), (''mag_vel'', json_float (rr_mag_vel r)),
      (''dvel_known'', JBool (rr_dvel_known r)), (''fsm_state'', JStr (state_name (rr_fsm_state r)))]"

text \<open>The trigger keeps the event; its detail is the event's debug text.\<close>

definition trigger_json :: "fsm_event forensic_trigger \<Rightarrow> json" where
  "trigger_json t = (case t of SpoofedTransition from to res ev \<Rightarrow> JObj
     [(''kind'', JStr ''spoofed_transition''), (''from'', JStr (state_name from)), (''to'', JStr (state_name to)),
      (''residual_m'', json_float res), (''event_detail'', json_map [(''event'', JStr (fsm_event_debug ev))])])"

definition summary_json :: "attestation_summary \<Rightarrow> json" where
  "summary_json a = JObj
     [(''crate_version'', JStr (crate_version a)), (''binary_sha256'', json_opt JStr (binary_sha256 a)),
      (''host_os'', JStr (host_os a)), (''host_arch'', JStr (host_arch a))]"

definition snapshot_json :: "(int \<Rightarrow> string) \<Rightarrow> fsm_event forensic_snapshot \<Rightarrow> json" where
  "snapshot_json rfc3339 s = JObj
     [(''schema_version'', JInt (uint (schema_version s))), (''captured_at_utc'', JStr (rfc3339 (captured_at_utc s))),
      (''captured_at_mono_ns'', JInt (int (captured_at_mono_ns s))), (''window_s'', json_float (sn_window_s s)),
      (''attestation'', summary_json (sn_attestation s)), (''trigger'', trigger_json (sn_trigger s)),
      (''residuals'', JArr (map residual_record_json (sn_residuals s))),
      (''gps_fixes'', JArr (map gps_record_json (sn_gps_fixes s))), (''imu_samples'', JArr (map imu_record_json (sn_imu_samples s)))]"

section \<open>Writing the dump\<close>

type_synonym file_system = "string \<rightharpoonup> (u8 list \<times> nat)"

text \<open>The outcome of each call: an error, or nothing; a failed write with the bytes that reached the file.\<close>

record dump_io =
  io_mkdir :: "string option"
  io_open :: "string option"
  io_write :: "(nat \<times> string) option"
  io_sync :: "string option"
  io_rename :: "string option"
  io_removes :: bool

record dump_env =
  de_rfc3339 :: "int \<Rightarrow> string"
  de_stamp :: "int \<Rightarrow> string"
  de_pid :: nat
  de_pretty :: "json \<Rightarrow> string + u8 list"
  de_compact :: "json \<Rightarrow> string + u8 list"

definition path_join :: "string \<Rightarrow> string \<Rightarrow> string" where
  "path_join dir name = (if dir = [] \<or> List.last dir = CHR ''/'' then dir @ name else dir @ ''/'' @ name)"

definition dump_path :: "dump_env \<Rightarrow> 'e forensic_snapshot \<Rightarrow> string \<Rightarrow> string" where
  "dump_path env s dir = path_join dir (''spoof-'' @ de_stamp env (captured_at_utc s) @ ''-'' @ decimal (de_pid env) @ ''.json'')"

definition dump_tmp_path :: "dump_env \<Rightarrow> 'e forensic_snapshot \<Rightarrow> string \<Rightarrow> string" where
  "dump_tmp_path env s dir = path_join dir (''spoof-'' @ de_stamp env (captured_at_utc s) @ ''-'' @ decimal (de_pid env) @ ''.json.tmp'')"

definition FILE_MODE :: nat where "FILE_MODE = 6 * 8 * 8"

definition file_exists :: string where "file_exists = ''file exists''"

text \<open>The file systems of a write that gets \<open>n\<close> bytes into the file.\<close>

definition write_states :: "string \<Rightarrow> u8 list \<Rightarrow> nat \<Rightarrow> file_system \<Rightarrow> file_system list" where
  "write_states tmp body n fs = map (\<lambda>k. fs(tmp \<mapsto> (take k body, FILE_MODE))) [0..<Suc n]"

definition remove_best_effort :: "bool \<Rightarrow> string \<Rightarrow> file_system \<Rightarrow> file_system" where
  "remove_best_effort ok p fs = (if ok then fs(p := None) else fs)"

text \<open>
  \<open>dump_to_disk\<close>: the result and the file systems it passes through. What follows a successful
  rename, the sync of the directory, has no effect on the result.
\<close>

definition dump_to_disk ::
    "dump_env \<Rightarrow> dump_io \<Rightarrow> fsm_event forensic_snapshot \<Rightarrow> string \<Rightarrow> file_system \<Rightarrow> (fs_error + string) \<times> file_system list" where
  "dump_to_disk env io snap dir fs =
     (case de_pretty env (snapshot_json (de_rfc3339 env) snap) of
        Inl e \<Rightarrow> (Inl (FsIo (''forensic serialize: '' @ e)), [])
      | Inr body \<Rightarrow>
          (let final = dump_path env snap dir; tmp = dump_tmp_path env snap dir
           in case io_mkdir io of
                Some e \<Rightarrow> (Inl (FsIo (''forensic mkdir '' @ dir @ '': '' @ e)), [])
              | None \<Rightarrow>
                  if fs tmp \<noteq> None then (Inl (FsIo (''forensic open '' @ tmp @ '': '' @ file_exists)), [])
                  else case io_open io of
                    Some e \<Rightarrow> (Inl (FsIo (''forensic open '' @ tmp @ '': '' @ e)), [])
                  | None \<Rightarrow>
                      (case io_write io of
                         Some (n, e) \<Rightarrow>
                           let written = write_states tmp body n fs
                           in (Inl (FsIo e), written @ [remove_best_effort (io_removes io) tmp (List.last written)])
                       | None \<Rightarrow>
                           let written = write_states tmp body (length body) fs; full = fs(tmp \<mapsto> (body, FILE_MODE))
                           in case io_sync io of
                                Some e \<Rightarrow> (Inl (FsIo e), written)
                              | None \<Rightarrow>
                                  (case io_rename io of
                                     Some e \<Rightarrow>
                                       (Inl (FsIo (''forensic rename '' @ tmp @ '' '' @ map char_of [0xE2, 0x86, 0x92 :: nat] @ '' '' @ final @ '': '' @ e)),
                                        written @ [remove_best_effort (io_removes io) tmp full])
                                   | None \<Rightarrow> (Inr final, written @ [full(tmp := None, final \<mapsto> (body, FILE_MODE))])))))"

text \<open>
  The background task: the dump, then what \<open>dump_ended\<close> is told, with the size of the compact
  text (0 when that fails to print).
\<close>

definition dump_task ::
    "dump_env \<Rightarrow> dump_io \<Rightarrow> fsm_event forensic_snapshot \<Rightarrow> string \<Rightarrow> file_system \<Rightarrow> (fs_error + string \<times> nat) \<times> file_system list" where
  "dump_task env io snap dir fs =
     (let (res, fss) = dump_to_disk env io snap dir fs
      in (map_sum id (\<lambda>p. (p, case de_compact env (snapshot_json (de_rfc3339 env) snap) of Inr v \<Rightarrow> length v | Inl _ \<Rightarrow> 0)) res, fss))"

section \<open>The dump is atomic\<close>

lemma dump_paths_differ [simp]: "dump_tmp_path env s dir \<noteq> dump_path env s dir"
  by (simp add: dump_tmp_path_def dump_path_def path_join_def)

lemma write_states_other: "s \<in> set (write_states tmp body n fs) \<Longrightarrow> p \<noteq> tmp \<Longrightarrow> s p = fs p"
  by (auto simp: write_states_def)

lemma write_states_last: "List.last (write_states tmp body n fs) = fs(tmp \<mapsto> (take n body, FILE_MODE))"
  by (simp add: write_states_def)

lemma write_states_nonempty [simp]: "write_states tmp body n fs \<noteq> []"
  by (simp add: write_states_def)

text \<open>What a dump leaves behind: the last file system, the one it started from if it did nothing.\<close>

definition left_behind :: "file_system \<Rightarrow> file_system list \<Rightarrow> file_system" where
  "left_behind fs fss = (if fss = [] then fs else List.last fss)"

lemma dump_to_disk_frame:
  assumes "dump_to_disk env io snap dir fs = (res, fss)" and "s \<in> set fss" and "p \<noteq> dump_tmp_path env snap dir"
  shows "s p = fs p \<or> p = dump_path env snap dir \<and> res = Inr p \<and> s = List.last fss
    \<and> (\<exists>body. de_pretty env (snapshot_json (de_rfc3339 env) snap) = Inr body \<and> s p = Some (body, FILE_MODE))"
  using assms
  by (auto simp: dump_to_disk_def Let_def write_states_other write_states_last remove_best_effort_def
      split: sum.splits option.splits if_splits prod.splits)

lemma dump_to_disk_done:
  assumes "dump_to_disk env io snap dir fs = (Inr p, fss)"
  shows "p = dump_path env snap dir \<and> left_behind fs fss (dump_tmp_path env snap dir) = None
    \<and> (\<exists>body. de_pretty env (snapshot_json (de_rfc3339 env) snap) = Inr body \<and> left_behind fs fss p = Some (body, FILE_MODE))"
  using assms
  by (auto simp: dump_paths_differ dump_to_disk_def Let_def left_behind_def split: sum.splits option.splits if_splits prod.splits)

text \<open>
  C21. The dump is all or nothing: whichever calls fail and wherever the task is cut off, every other
  file is untouched, and the file under the name of the dump is what was there before until the
  very last step puts the whole snapshot there, readable by its owner only. The task reports the
  dump as written exactly in that case; otherwise it reports a failure and gives the claim back, so
  the next alarm dumps again.
\<close>

theorem forensic_dump_atomic:
  assumes "dump_task env io snap dir fs = (res, fss)" and "dump_result now boot res fb = (fb', ev)"
  shows "(\<forall>s\<in>set fss. \<forall>p. p \<noteq> dump_tmp_path env snap dir \<longrightarrow>
      s p = fs p \<or> p = dump_path env snap dir \<and> ev_kind ev = KForensicDumpWritten \<and> s = List.last fss
        \<and> map_option fst (s p) = Some (projr (de_pretty env (snapshot_json (de_rfc3339 env) snap))))
    \<and> (case res of
        Inr (p, n) \<Rightarrow> p = dump_path env snap dir \<and> ev_kind ev = KForensicDumpWritten \<and> ev_detail ev = DForensicWritten p n \<and> fb' = fb
          \<and> left_behind fs fss p = Some (projr (de_pretty env (snapshot_json (de_rfc3339 env) snap)), FILE_MODE)
          \<and> left_behind fs fss (dump_tmp_path env snap dir) = None
      | Inl e \<Rightarrow> ev_kind ev = KForensicDumpFailed \<and> ev_detail ev = DForensicFailed e \<and> fst (try_claim_dump fb')
          \<and> left_behind fs fss (dump_path env snap dir) = fs (dump_path env snap dir))"
proof -
  obtain r where d: "dump_to_disk env io snap dir fs = (r, fss)"
    and res: "res = map_sum id (\<lambda>p. (p, case de_compact env (snapshot_json (de_rfc3339 env) snap) of Inr v \<Rightarrow> length v | Inl _ \<Rightarrow> 0)) r"
    using assms(1) by (auto simp: dump_task_def split: prod.splits)
  have frame: "s p = fs p \<or> p = dump_path env snap dir \<and> r = Inr p \<and> s = List.last fss
      \<and> (\<exists>body. de_pretty env (snapshot_json (de_rfc3339 env) snap) = Inr body \<and> s p = Some (body, FILE_MODE))"
    if "s \<in> set fss" "p \<noteq> dump_tmp_path env snap dir" for s p
    using dump_to_disk_frame [OF d that] .
  show ?thesis
  proof (cases r)
    case (Inl e)
    have "left_behind fs fss (dump_path env snap dir) = fs (dump_path env snap dir)"
      using frame [of "List.last fss" "dump_path env snap dir"] dump_paths_differ [of env snap dir] Inl
      by (cases "fss = []") (simp_all add: left_behind_def)
    then show ?thesis using frame Inl res assms(2)
      by (auto simp: dump_result_def spoofing_event_new_def try_claim_dump_def release_dump_claim_def)
  next
    case (Inr p)
    have "ev_kind ev = KForensicDumpWritten" "fb' = fb"
      using assms(2) Inr res by (auto simp: dump_result_def spoofing_event_new_def)
    moreover have "\<exists>n. res = Inr (p, n) \<and> ev_detail ev = DForensicWritten p n"
      using assms(2) Inr res by (auto simp: dump_result_def spoofing_event_new_def)
    ultimately show ?thesis using frame dump_to_disk_done [OF d [unfolded Inr]] by fastforce
  qed
qed

text \<open>
  A dump of another process under the same name is lost: only the temporary file is opened
  exclusively, the rename replaces what is there.
\<close>

lemma dump_replaces_older:
  assumes "dump_to_disk env io snap dir fs = (Inr p, fss)" and "fs p = Some (old, m)"
    and "old \<noteq> projr (de_pretty env (snapshot_json (de_rfc3339 env) snap))"
  shows "left_behind fs fss p \<noteq> Some (old, m)"
  using dump_to_disk_done [OF assms(1)] assms(3) by auto

text \<open>A temporary file left by a failed sync stops every dump of that process in the same second.\<close>

lemma stale_tmp_blocks_dump:
  assumes "fs (dump_tmp_path env snap dir) \<noteq> None"
  shows "\<exists>e. dump_to_disk env io snap dir fs = (Inl e, [])"
  using assms by (auto simp: dump_to_disk_def Let_def split: sum.split option.split)

section \<open>Witness\<close>

definition bench_dump_env :: dump_env where
  "bench_dump_env = \<lparr>de_rfc3339 = \<lambda>_. ''1970-01-01T00:00:00Z'', de_stamp = \<lambda>_. ''19700101T000000Z'', de_pid = 7,
     de_pretty = \<lambda>_. Inr [0x7B, 0x7D], de_compact = \<lambda>_. Inr [0x7B, 0x7D]\<rparr>"

definition dump_io_ok :: dump_io where
  "dump_io_ok = \<lparr>io_mkdir = None, io_open = None, io_write = None, io_sync = None, io_rename = None, io_removes = True\<rparr>"

definition bench_snapshot :: "forensic_buffer \<Rightarrow> fsm_event forensic_snapshot" where
  "bench_snapshot fb = forensic_snapshot_of 0 0 (SpoofedTransition Suspicious Spoofed (FNum 0) (EvTransition Suspicious Spoofed))
     (e_attestation bench_env) fb"

theorem forensic_dump_atomic_witness:
  "\<exists>fb fss p. forensic_new (FNum 0) (FNum 0) = Some fb
     \<and> dump_task bench_dump_env dump_io_ok (bench_snapshot fb) ''/var/fs'' Map.empty = (Inr (p, 2), fss)
     \<and> left_behind Map.empty fss p = Some ([0x7B, 0x7D], FILE_MODE)"
proof -
  obtain fb where fb: "forensic_new (FNum 0) (FNum 0) = Some fb" using forensic_new_zero by blast
  obtain p fss where t: "dump_task bench_dump_env dump_io_ok (bench_snapshot fb) ''/var/fs'' Map.empty = (Inr (p, 2), fss)"
    by (simp add: dump_task_def dump_to_disk_def bench_dump_env_def dump_io_ok_def Let_def)
  obtain fb' ev where r: "dump_result (at_mono 0) 0 (Inr (p, 2)) fb = (fb', ev)" by (metis surj_pair)
  have "left_behind Map.empty fss p = Some ([0x7B, 0x7D], FILE_MODE)"
    using conjunct2 [OF forensic_dump_atomic [OF t r]] by (auto simp: bench_dump_env_def)
  with fb t show ?thesis by blast
qed

end
