(* ===== verification/Ingest.thy ===== *)
theory Ingest
  imports Mav_Link Runtime
begin

text \<open>
  From a source to the fusion task: the two ingest tasks of \<open>spawn_all\<close> (\<open>src/src/runtime.rs\<close>) with
  their bounded channels, the sources that read a channel of the MAVLink listener
  (\<open>src/src/mav/source.rs\<close>), and the signal handler that asks for an operator reset
  (\<open>src/src/bin/flyingsquirrel.rs\<close>). The tasks of the runtime interleave as they like; a task that
  waits for room or for an item takes turns that change nothing.
\<close>

section \<open>The ingest tasks\<close>

definition INGEST_GPS_CAP :: nat where "INGEST_GPS_CAP = 64"
definition INGEST_IMU_CAP :: nat where "INGEST_IMU_CAP = 256"

text \<open>
  One path: what the stream of the source has ready, at most \<open>pi_up_cap\<close>, and whether it will end
  then; the item the task waits to send; the channel to the fusion task.
\<close>

record 'a pipe =
  pi_up :: "(fs_error + 'a) list"
  pi_up_cap :: nat
  pi_up_ended :: bool
  pi_held :: "'a option"
  pi_down :: "'a list"
  pi_down_cap :: nat
  pi_rx_gone :: bool
  pi_ended :: bool

text \<open>\<open>send().await\<close> of the item held: it fails once the receiver is gone, else it waits for room.\<close>

definition send_held :: "'a \<Rightarrow> 'a pipe \<Rightarrow> 'a pipe" where
  "send_held x p =
     (if pi_rx_gone p then p\<lparr>pi_held := None, pi_ended := True\<rparr>
      else if length (pi_down p) < pi_down_cap p then p\<lparr>pi_held := None, pi_down := pi_down p @ [x]\<rparr>
      else p)"

text \<open>A turn of the GPS task: errors are logged and skipped.\<close>

definition gps_ingest_turn :: "'a pipe \<Rightarrow> 'a pipe" where
  "gps_ingest_turn p =
     (if pi_ended p then p
      else case pi_held p of
        Some x \<Rightarrow> send_held x p
      | None \<Rightarrow>
          (case pi_up p of
             [] \<Rightarrow> if pi_up_ended p then p\<lparr>pi_ended := True\<rparr> else p
           | Inl e # u \<Rightarrow> p\<lparr>pi_up := u\<rparr>
           | Inr x # u \<Rightarrow> p\<lparr>pi_up := u, pi_held := Some x\<rparr>))"

text \<open>A turn of the IMU task: it tries to send at once and waits only when the channel is full.\<close>

definition imu_ingest_turn :: "'a pipe \<Rightarrow> 'a pipe" where
  "imu_ingest_turn p =
     (if pi_ended p then p
      else case pi_held p of
        Some x \<Rightarrow> send_held x p
      | None \<Rightarrow>
          (case pi_up p of
             [] \<Rightarrow> if pi_up_ended p then p\<lparr>pi_ended := True\<rparr> else p
           | Inl e # u \<Rightarrow> p\<lparr>pi_up := u\<rparr>
           | Inr x # u \<Rightarrow>
               if pi_rx_gone p then p\<lparr>pi_up := u, pi_ended := True\<rparr>
               else if length (pi_down p) < pi_down_cap p then p\<lparr>pi_up := u, pi_down := pi_down p @ [x]\<rparr>
               else p\<lparr>pi_up := u, pi_held := Some x\<rparr>))"

text \<open>
  The stream of \<open>MavGpsSource\<close> and \<open>MavImuSource\<close> yields what the channel of the listener
  holds, so that channel is what the stream has ready; any other source has one item ready.
\<close>

definition pipe_start :: "nat \<Rightarrow> nat \<Rightarrow> 'a pipe" where
  "pipe_start up_cap down_cap = \<lparr>pi_up = [], pi_up_cap = up_cap, pi_up_ended = False, pi_held = None, pi_down = [],
     pi_down_cap = down_cap, pi_rx_gone = False, pi_ended = False\<rparr>"

definition gps_path :: "bool \<Rightarrow> 'a pipe" where
  "gps_path mav = pipe_start (if mav then GPS_CHANNEL_CAP else 1) INGEST_GPS_CAP"

definition imu_path :: "bool \<Rightarrow> 'a pipe" where
  "imu_path mav = pipe_start (if mav then IMU_CHANNEL_CAP else 1) INGEST_IMU_CAP"

text \<open>What happens on a path: the source has a result, ends, the task gets a turn, the fusion task receives.\<close>

datatype 'a pipe_act = Feed "fs_error + 'a" | SourceEnds | TaskTurn | Receive 'a

inductive pipe_step :: "('a pipe \<Rightarrow> 'a pipe) \<Rightarrow> 'a pipe_act \<Rightarrow> 'a pipe \<Rightarrow> 'a pipe \<Rightarrow> bool" for turn where
  feed: "\<not> pi_up_ended p \<Longrightarrow> length (pi_up p) < pi_up_cap p \<Longrightarrow> pipe_step turn (Feed i) p (p\<lparr>pi_up := pi_up p @ [i]\<rparr>)"
| ends: "pipe_step turn SourceEnds p (p\<lparr>pi_up_ended := True\<rparr>)"
| task: "pipe_step turn TaskTurn p (turn p)"
| recv: "pi_down p = x # r \<Longrightarrow> pipe_step turn (Receive x) p (p\<lparr>pi_down := r\<rparr>)"

inductive_cases pipe_stepE: "pipe_step turn a p p'"

inductive pipe_run :: "('a pipe \<Rightarrow> 'a pipe) \<Rightarrow> 'a pipe \<Rightarrow> 'a pipe_act list \<Rightarrow> 'a pipe \<Rightarrow> bool" for turn p0 where
  start: "pipe_run turn p0 [] p0"
| act: "pipe_run turn p0 as p \<Longrightarrow> pipe_step turn a p p' \<Longrightarrow> pipe_run turn p0 (as @ [a]) p'"

section \<open>A path is one queue\<close>

definition oks :: "(fs_error + 'a) list \<Rightarrow> 'a list" where
  "oks xs = List.map_filter (\<lambda>i. case i of Inr x \<Rightarrow> Some x | Inl _ \<Rightarrow> None) xs"

lemma oks_simps [simp]: "oks [] = []" "oks (xs @ ys) = oks xs @ oks ys" "oks (Inr x # xs) = x # oks xs" "oks (Inl e # xs) = oks xs"
  by (simp_all add: oks_def List.map_filter_def)

lemma oks_length: "length (oks xs) \<le> length xs"
  by (simp add: oks_def List.map_filter_def)

definition fed :: "'a pipe_act list \<Rightarrow> 'a list" where
  "fed as = oks (List.map_filter (\<lambda>a. case a of Feed i \<Rightarrow> Some i | _ \<Rightarrow> None) as)"

definition received :: "'a pipe_act list \<Rightarrow> 'a list" where
  "received as = List.map_filter (\<lambda>a. case a of Receive x \<Rightarrow> Some x | _ \<Rightarrow> None) as"

lemma fed_received_simps [simp]:
  "fed [] = []" "received [] = []" "fed (as @ [Feed i]) = fed as @ oks [i]" "received (as @ [Receive x]) = received as @ [x]"
  "fed (as @ [SourceEnds]) = fed as" "fed (as @ [TaskTurn]) = fed as" "fed (as @ [Receive x]) = fed as"
  "received (as @ [Feed i]) = received as" "received (as @ [SourceEnds]) = received as" "received (as @ [TaskTurn]) = received as"
  by (simp_all add: fed_def received_def List.map_filter_def)

text \<open>The abstract queue: everything on its way, oldest first.\<close>

definition on_the_way :: "'a pipe \<Rightarrow> 'a list" where
  "on_the_way p = pi_down p @ (case pi_held p of Some x \<Rightarrow> [x] | None \<Rightarrow> []) @ oks (pi_up p)"

fun queue_step :: "'a pipe_act \<Rightarrow> 'a list \<Rightarrow> 'a list \<Rightarrow> bool" where
  "queue_step (Feed (Inr x)) q q' = (q' = q @ [x])"
| "queue_step (Receive x) q q' = (q = x # q')"
| "queue_step _ q q' = (q' = q)"

definition pipe_ok :: "'a pipe \<Rightarrow> bool" where
  "pipe_ok p \<longleftrightarrow> length (pi_up p) \<le> pi_up_cap p \<and> length (pi_down p) \<le> pi_down_cap p \<and> 0 < pi_down_cap p
     \<and> \<not> pi_rx_gone p \<and> (pi_ended p \<longrightarrow> pi_up_ended p \<and> pi_up p = [] \<and> pi_held p = None)"

text \<open>
  What a path asks of the turn of its task: it keeps the queue and the bounds, and it never idles
  while something is on the way and the channel to the fusion task is empty.
\<close>

definition work :: "'a pipe \<Rightarrow> nat" where
  "work p = 2 * length (pi_up p) + (case pi_held p of Some _ \<Rightarrow> 1 | None \<Rightarrow> 0)"

locale ingest_turn =
  fixes turn :: "'a pipe \<Rightarrow> 'a pipe"
  assumes turn_queue: "pipe_ok p \<Longrightarrow> on_the_way (turn p) = on_the_way p"
    and turn_ok: "pipe_ok p \<Longrightarrow> pipe_ok (turn p)"
    and turn_caps: "pi_up_cap (turn p) = pi_up_cap p" "pi_down_cap (turn p) = pi_down_cap p"
    and turn_ended: "pi_up_ended (turn p) = pi_up_ended p"
    and turn_works: "pipe_ok p \<Longrightarrow> pi_down p = [] \<Longrightarrow> work p \<noteq> 0 \<Longrightarrow> work (turn p) < work p"
    and turn_stops: "pipe_ok p \<Longrightarrow> work p = 0 \<Longrightarrow> pi_up_ended p \<Longrightarrow> pi_ended (turn p)"
begin

lemma step_refines:
  assumes "pipe_step turn a p p'" and "pipe_ok p"
  shows "queue_step a (on_the_way p) (on_the_way p')"
  using assms(1)
proof cases
  case (feed i)
  then show ?thesis by (cases i) (simp_all add: on_the_way_def split: option.split)
next
  case (recv x r)
  then show ?thesis by (simp add: on_the_way_def)
next
  case task
  then show ?thesis using turn_queue [OF assms(2)] by simp
qed (simp add: on_the_way_def)

lemma step_ok: "pipe_step turn a p p' \<Longrightarrow> pipe_ok p \<Longrightarrow> pipe_ok p' \<and> pi_up_cap p' = pi_up_cap p \<and> pi_down_cap p' = pi_down_cap p"
  by (erule pipe_stepE) (use turn_ok turn_caps in \<open>auto simp: pipe_ok_def\<close>)

lemma run_refines:
  assumes "pipe_run turn p0 as p" and "pipe_ok p0" and "on_the_way p0 = []"
  shows "pipe_ok p \<and> pi_up_cap p = pi_up_cap p0 \<and> pi_down_cap p = pi_down_cap p0
    \<and> fed as = received as @ on_the_way p"
  using assms
proof (induction rule: pipe_run.induct)
  case (act as p a p')
  then have "queue_step a (on_the_way p) (on_the_way p')" using step_refines by blast
  with act step_ok [OF act.hyps(2)] show ?case
    by (cases "(a, on_the_way p, on_the_way p')" rule: queue_step.cases) simp_all
qed simp

lemma turns_deliver:
  assumes "pipe_ok p" and "on_the_way p \<noteq> []"
  shows "\<exists>n\<le>work p. pi_down ((turn ^^ n) p) \<noteq> []"
  using assms
proof (induction "work p" arbitrary: p rule: less_induct)
  case less
  show ?case
  proof (cases "pi_down p = []")
    case True
    then have "work p \<noteq> 0" using less.prems by (auto simp: on_the_way_def work_def split: option.splits)
    then have w: "work (turn p) < work p" using turn_works less.prems(1) True by blast
    moreover have "on_the_way (turn p) \<noteq> []" using turn_queue less.prems by simp
    ultimately obtain n where "n \<le> work (turn p)" "pi_down ((turn ^^ n) (turn p)) \<noteq> []"
      using less.hyps turn_ok [OF less.prems(1)] by blast
    then show ?thesis using w by (intro exI [of _ "Suc n"]) (simp add: funpow_Suc_right del: funpow.simps)
  qed (use exI [of _ 0] in auto)
qed

end

lemma turn_laws:
  assumes "t = gps_ingest_turn \<or> t = imu_ingest_turn"
  shows "ingest_turn t"
proof
  show "on_the_way (t p) = on_the_way p" "pipe_ok (t p)" if "pipe_ok p" for p
    using assms that
    by (auto simp: gps_ingest_turn_def imu_ingest_turn_def send_held_def on_the_way_def pipe_ok_def
        split: option.splits list.splits sum.splits if_splits)
  show "pi_up_cap (t p) = pi_up_cap p" "pi_down_cap (t p) = pi_down_cap p" "pi_up_ended (t p) = pi_up_ended p" for p
    using assms by (auto simp: gps_ingest_turn_def imu_ingest_turn_def send_held_def split: option.splits list.splits sum.splits if_splits)
  show "work (t p) < work p" if "pipe_ok p" "pi_down p = []" "work p \<noteq> 0" for p
    using assms that
    by (auto simp: gps_ingest_turn_def imu_ingest_turn_def send_held_def work_def pipe_ok_def
        split: option.splits list.splits sum.splits if_splits)
  show "pi_ended (t p)" if "pipe_ok p" "work p = 0" "pi_up_ended p" for p
    using assms that
    by (auto simp: gps_ingest_turn_def imu_ingest_turn_def work_def split: option.splits list.splits)
qed

interpretation gps_ingest: ingest_turn gps_ingest_turn
  by (rule turn_laws) simp

interpretation imu_ingest: ingest_turn imu_ingest_turn
  by (rule turn_laws) simp

lemma on_the_way_bound: "pipe_ok p \<Longrightarrow> length (on_the_way p) \<le> pi_down_cap p + 1 + pi_up_cap p"
  using oks_length [of "pi_up p"] by (auto simp: on_the_way_def pipe_ok_def split: option.split)

lemma paths_ok [simp]:
  "pipe_ok (gps_path mav)" "pipe_ok (imu_path mav)" "on_the_way (gps_path mav) = []" "on_the_way (imu_path mav) = []"
  by (simp_all add: gps_path_def imu_path_def pipe_start_def pipe_ok_def on_the_way_def INGEST_GPS_CAP_def INGEST_IMU_CAP_def)

text \<open>
  C25. Nothing is lost, doubled or reordered between a source and the fusion task: whatever the
  interleaving, what the source delivered is what the fusion task received followed by what is on
  the way; at most 129 fixes and 513 samples are on the way, the listener's channel included; and
  whatever is on the way reaches the fusion task's channel after finitely many turns of the task.
  The comment on the send of a sample in \<open>runtime.rs\<close> says that a full channel drops its oldest
  sample; the code waits for room, and that is what is modelled and shown.
\<close>

theorem ingest_path_is_bounded_queue:
  assumes "(turn, p0, bound) \<in> {(gps_ingest_turn, gps_path mav, 129), (imu_ingest_turn, imu_path mav, 513)}"
    and "pipe_run turn p0 as p"
  shows "fed as = received as @ on_the_way p \<and> length (on_the_way p) \<le> bound
    \<and> (on_the_way p \<noteq> [] \<longrightarrow> (\<exists>n\<le>2 * pi_up_cap p0 + 1. pi_down ((turn ^^ n) p) \<noteq> []))"
proof -
  have p0: "p0 = gps_path mav \<and> bound = 129 \<or> p0 = imu_path mav \<and> bound = 513" and t: "turn = gps_ingest_turn \<or> turn = imu_ingest_turn"
    using assms(1) by auto
  have laws: "ingest_turn turn" "pipe_ok p0" "on_the_way p0 = []" using turn_laws [OF t] p0 by auto
  have bound: "pi_down_cap p0 + 1 + pi_up_cap p0 \<le> bound" using p0
    by (auto simp: gps_path_def imu_path_def pipe_start_def INGEST_GPS_CAP_def INGEST_IMU_CAP_def GPS_CHANNEL_CAP_def IMU_CHANNEL_CAP_def)
  note run = ingest_turn.run_refines [OF laws(1) assms(2) laws(2,3)]
  have "work p \<le> 2 * pi_up_cap p0 + 1" using run by (auto simp: work_def pipe_ok_def split: option.split)
  then have "on_the_way p \<noteq> [] \<longrightarrow> (\<exists>n\<le>2 * pi_up_cap p0 + 1. pi_down ((turn ^^ n) p) \<noteq> [])"
    using ingest_turn.turns_deliver [OF laws(1)] run by (meson le_trans)
  then show ?thesis using run on_the_way_bound [of p] bound by simp
qed

theorem ingest_path_is_bounded_queue_witness:
  "\<exists>p. pipe_run imu_ingest_turn (imu_path True) [Feed (Inl (FsIngest SourceEnded)), Feed (Inr level_sample), TaskTurn, TaskTurn] p
     \<and> pi_down ((imu_ingest_turn ^^ 0) p) = [level_sample] \<and> length (on_the_way p) \<le> 513"
proof -
  let ?turn = "imu_ingest_turn :: imu_sample pipe \<Rightarrow> imu_sample pipe" and ?e = "Inl (FsIngest SourceEnded)"
  let ?init = "imu_path True :: imu_sample pipe"
  have cap: "0 < INGEST_IMU_CAP" "2 \<le> IMU_CHANNEL_CAP" by (simp_all add: INGEST_IMU_CAP_def IMU_CHANNEL_CAP_def)
  let ?fin = "(?init\<lparr>pi_down := [level_sample]\<rparr>)"
  have "pipe_step ?turn (Feed ?e) ?init (?init\<lparr>pi_up := [?e]\<rparr>)"
    using pipe_step.feed [of ?init ?turn ?e] cap by (simp add: imu_path_def pipe_start_def)
  note r1 = pipe_run.act [OF pipe_run.start this]
  have "pipe_step ?turn (Feed (Inr level_sample)) (?init\<lparr>pi_up := [?e]\<rparr>) (?init\<lparr>pi_up := [?e, Inr level_sample]\<rparr>)"
    using pipe_step.feed [of "?init\<lparr>pi_up := [?e]\<rparr>" ?turn "Inr level_sample"] cap by (simp add: imu_path_def pipe_start_def)
  note r2 = pipe_run.act [OF r1 this]
  have "pipe_step ?turn TaskTurn (?init\<lparr>pi_up := [?e, Inr level_sample]\<rparr>) (?init\<lparr>pi_up := [Inr level_sample]\<rparr>)"
    using pipe_step.task [of ?turn "?init\<lparr>pi_up := [?e, Inr level_sample]\<rparr>"] by (simp add: imu_path_def pipe_start_def imu_ingest_turn_def)
  note r3 = pipe_run.act [OF r2 this]
  have "pipe_step ?turn TaskTurn (?init\<lparr>pi_up := [Inr level_sample]\<rparr>) ?fin"
    using pipe_step.task [of ?turn "?init\<lparr>pi_up := [Inr level_sample]\<rparr>"] cap by (simp add: imu_path_def pipe_start_def imu_ingest_turn_def)
  note r4 = pipe_run.act [OF r3 this]
  then have run: "pipe_run ?turn ?init [Feed ?e, Feed (Inr level_sample), TaskTurn, TaskTurn] ?fin" by simp
  moreover have "length (on_the_way ?fin) \<le> 513"
    using ingest_path_is_bounded_queue [OF _ run, of 513 True] by simp
  ultimately show ?thesis by (intro exI [of _ ?fin]) simp
qed

section \<open>The operator's reset signal\<close>

definition RESET_CAP :: nat where "RESET_CAP = 4"

text \<open>
  The handler of SIGHUP: the runtime keeps one pending signal, further ones merge with it; the
  handler takes it and waits to send a reset to the fusion task.
\<close>

record reset_path =
  rs_signalled :: bool
  rs_sending :: bool
  rs_queue :: nat
  rs_rx_gone :: bool
  rs_ended :: bool

definition reset_start :: reset_path where
  "reset_start = \<lparr>rs_signalled = False, rs_sending = False, rs_queue = 0, rs_rx_gone = False, rs_ended = False\<rparr>"

definition reset_handler_turn :: "reset_path \<Rightarrow> reset_path" where
  "reset_handler_turn r =
     (if rs_ended r then r
      else if rs_sending r then
        (if rs_rx_gone r then r\<lparr>rs_sending := False, rs_ended := True\<rparr>
         else if rs_queue r < RESET_CAP then r\<lparr>rs_sending := False, rs_queue := rs_queue r + 1\<rparr>
         else r)
      else if rs_signalled r then r\<lparr>rs_signalled := False, rs_sending := True\<rparr>
      else r)"

datatype reset_act = Signal | HandlerTurn | ResetTaken

definition reset_act :: "reset_act \<Rightarrow> reset_path \<Rightarrow> reset_path" where
  "reset_act a r = (case a of
     Signal \<Rightarrow> r\<lparr>rs_signalled := True\<rparr>
   | HandlerTurn \<Rightarrow> reset_handler_turn r
   | ResetTaken \<Rightarrow> r\<lparr>rs_queue := rs_queue r - 1\<rparr>)"

text \<open>A reset can only be taken while one waits.\<close>

fun resets_possible :: "reset_act list \<Rightarrow> reset_path \<Rightarrow> bool" where
  "resets_possible [] r = True"
| "resets_possible (a # as) r = ((a = ResetTaken \<longrightarrow> 0 < rs_queue r) \<and> resets_possible as (reset_act a r))"

definition resets_due :: "reset_path \<Rightarrow> nat" where
  "resets_due r = rs_queue r + (if rs_sending r then 1 else 0) + (if rs_signalled r then 1 else 0)"

lemma reset_act_due:
  assumes "\<not> rs_ended r" and "\<not> rs_rx_gone r" and "rs_queue r \<le> RESET_CAP" and "a = ResetTaken \<longrightarrow> 0 < rs_queue r"
  shows "\<not> rs_ended (reset_act a r) \<and> \<not> rs_rx_gone (reset_act a r) \<and> rs_queue (reset_act a r) \<le> RESET_CAP
    \<and> (case a of Signal \<Rightarrow> 0 < resets_due (reset_act a r) \<and> resets_due (reset_act a r) \<le> resets_due r + 1
         | HandlerTurn \<Rightarrow> resets_due (reset_act a r) = resets_due r
         | ResetTaken \<Rightarrow> resets_due (reset_act a r) + 1 = resets_due r)"
  using assms by (auto simp: reset_act_def reset_handler_turn_def resets_due_def split: reset_act.split)

lemma resets_counted:
  assumes "\<not> rs_ended r" and "\<not> rs_rx_gone r" and "rs_queue r \<le> RESET_CAP" and "resets_possible as r"
  shows "resets_due (fold reset_act as r) + count_list as ResetTaken \<le> resets_due r + count_list as Signal
    \<and> (Signal \<notin> set as \<longrightarrow> resets_due (fold reset_act as r) + count_list as ResetTaken = resets_due r)
    \<and> rs_queue (fold reset_act as r) \<le> RESET_CAP \<and> \<not> rs_ended (fold reset_act as r) \<and> \<not> rs_rx_gone (fold reset_act as r)"
  using assms
proof (induction as arbitrary: r)
  case (Cons a as)
  have poss: "a = ResetTaken \<longrightarrow> 0 < rs_queue r" "resets_possible as (reset_act a r)" using Cons.prems(4) by auto
  note step = reset_act_due [OF Cons.prems(1-3) poss(1)]
  note IH = Cons.IH [OF conjunct1 [OF step] conjunct1 [OF conjunct2 [OF step]] conjunct1 [OF conjunct2 [OF conjunct2 [OF step]]] poss(2)]
  show ?case using step IH by (cases a) simp_all
qed simp

lemma resets_possible_append: "resets_possible (as @ bs) r \<longleftrightarrow> resets_possible as r \<and> resets_possible bs (fold reset_act as r)"
  by (induction as arbitrary: r) auto

text \<open>
  A signal is never lost, however the tasks interleave and however many signals merge: after the
  last signal either a reset has been taken or one is still due, there are never more resets than
  signals, and at most six are due.
\<close>

theorem reset_signal_not_lost:
  assumes "resets_possible (as @ Signal # bs) reset_start" and "Signal \<notin> set bs"
  shows "0 < count_list bs ResetTaken + resets_due (fold reset_act (as @ Signal # bs) reset_start)
    \<and> count_list (as @ Signal # bs) ResetTaken \<le> count_list (as @ Signal # bs) Signal
    \<and> resets_due (fold reset_act (as @ Signal # bs) reset_start) \<le> 6"
proof -
  let ?r = "fold reset_act as reset_start" and ?s = "reset_act Signal (fold reset_act as reset_start)"
  have s: "\<not> rs_ended reset_start" "\<not> rs_rx_gone reset_start" "rs_queue reset_start \<le> RESET_CAP" "resets_due reset_start = 0"
    by (simp_all add: reset_start_def resets_due_def)
  have p: "resets_possible as reset_start" "resets_possible bs ?s"
    using assms(1) by (simp_all add: resets_possible_append)
  have r: "\<not> rs_ended ?r" "\<not> rs_rx_gone ?r" "rs_queue ?r \<le> RESET_CAP"
    using resets_counted [OF s(1-3) p(1)] by auto
  have "0 < resets_due ?s" "\<not> rs_ended ?s" "\<not> rs_rx_gone ?s" "rs_queue ?s \<le> RESET_CAP"
    using reset_act_due [OF r, of Signal] by simp_all
  with resets_counted [OF this(2-4) p(2)] assms(2) have "0 < count_list bs ResetTaken + resets_due (fold reset_act bs ?s)"
    "rs_queue (fold reset_act bs ?s) \<le> RESET_CAP" by auto
  moreover have "count_list (as @ Signal # bs) ResetTaken \<le> count_list (as @ Signal # bs) Signal"
    using resets_counted [OF s(1-3) assms(1)] s(4) by simp
  ultimately show ?thesis by (auto simp: resets_due_def RESET_CAP_def)
qed

end
