(* ===== verification/Float_Eval.thy ===== *)
theory Float_Eval
  imports Floats
begin

text \<open>
  Evaluation of the IEEE operations on concrete numbers by rewriting. Rounding is split into
  stages that take their arguments by value, so that the simplifier computes every exponent and
  every quotient once; the collection \<open>float_eval\<close> then reduces an operation on literals to a
  literal.
\<close>

named_theorems float_eval \<open>staged evaluation of rounding on literals\<close>

definition fcheck :: "format \<Rightarrow> bool \<Rightarrow> rat \<Rightarrow> fl" where
  "fcheck F neg r =
     (if pow2 (emax F) \<le> r then FPInf else if r \<le> - pow2 (emax F) then FNInf
      else if r = 0 then (if neg then FNegZero else FNum 0) else FNum r)"

definition rnd_stage1 :: "format \<Rightarrow> rat \<Rightarrow> int \<Rightarrow> rat" where
  "rnd_stage1 F x e = (let q = max (e - int (prec F) + 1) (qmin F) in of_int (rne (x / pow2 q)) * pow2 q)"

definition rnd_stage2 :: "rat \<Rightarrow> int \<Rightarrow> rat" where
  "rnd_stage2 x q = of_int (rne (x / pow2 q)) * pow2 q"

definition rnd_stage3 :: "rat \<Rightarrow> rat \<Rightarrow> rat" where
  "rnd_stage3 x p = of_int (rne (x / p)) * p"

definition rne_stage1 :: "rat \<Rightarrow> int \<Rightarrow> int" where
  "rne_stage1 x f = (let r = x - of_int f in if r < 1 / 2 then f else if 1 / 2 < r then f + 1 else if even f then f else f + 1)"

definition rne_stage2 :: "int \<Rightarrow> rat \<Rightarrow> int" where
  "rne_stage2 f r = (if r < 1 / 2 then f else if 1 / 2 < r then f + 1 else if even f then f else f + 1)"

lemma fround_stages [float_eval]:
  "fround F s x = fcheck F s (rnd F x)"
  "x \<noteq> 0 \<Longrightarrow> rnd F x = rnd_stage1 F x (ilog2 \<bar>x\<bar>)"
  "rnd_stage1 B64 x e = rnd_stage2 x (max (e - 52) (- 1074))"
  "rnd_stage1 B32 x e = rnd_stage2 x (max (e - 23) (- 149))"
  "rnd_stage2 x q = rnd_stage3 x (pow2 q)"
  "rnd_stage3 x p = of_int (rne (x / p)) * p"
  "rne x = rne_stage1 x \<lfloor>x\<rfloor>"
  "rne_stage1 x f = rne_stage2 f (x - of_int f)"
  by (simp_all add: fround_def fcheck_def rnd_def qexp_def rnd_stage1_def rnd_stage2_def rnd_stage3_def rne_def
      rne_stage1_def rne_stage2_def Let_def B64_def B32_def)

lemma rne_stage2_eval [float_eval]:
  "r < 1 / 2 \<Longrightarrow> rne_stage2 f r = f"
  "1 / 2 < r \<Longrightarrow> rne_stage2 f r = f + 1"
  "rne_stage2 f (1 / 2) = (if even f then f else f + 1)"
  by (auto simp: rne_stage2_def)

lemma fcheck_eval [float_eval]:
  "\<bar>r\<bar> < 2 ^ 127 \<Longrightarrow> r \<noteq> 0 \<Longrightarrow> fcheck B64 s r = FNum r"
  "\<bar>r\<bar> < 2 ^ 127 \<Longrightarrow> r \<noteq> 0 \<Longrightarrow> fcheck B32 s r = FNum r"
  "fcheck B64 s 0 = (if s then FNegZero else FNum 0)"
  "fcheck B32 s 0 = (if s then FNegZero else FNum 0)"
proof -
  have big: "(2 :: rat) ^ 127 \<le> pow2 (emax B64)" "(2 :: rat) ^ 127 \<le> pow2 (emax B32)"
    by (simp_all add: B64_def B32_def pow2_nat)
  then show "\<bar>r\<bar> < 2 ^ 127 \<Longrightarrow> r \<noteq> 0 \<Longrightarrow> fcheck B64 s r = FNum r"
    "\<bar>r\<bar> < 2 ^ 127 \<Longrightarrow> r \<noteq> 0 \<Longrightarrow> fcheck B32 s r = FNum r"
    by (auto simp: fcheck_def abs_less_iff)
  have "\<not> pow2 e \<le> 0" for e using pow2_pos [of e] by linarith
  then show "fcheck B64 s 0 = (if s then FNegZero else FNum 0)" "fcheck B32 s 0 = (if s then FNegZero else FNum 0)"
    by (simp_all add: fcheck_def)
qed

lemma bitlen_literal [float_eval]:
  "bitlen 0 = 0" "bitlen 1 = 1" "bitlen (numeral num.One) = 1"
  "bitlen (numeral (num.Bit0 n)) = bitlen (numeral n) + 1"
  "bitlen (numeral (num.Bit1 n)) = bitlen (numeral n) + 1"
  by (simp_all add: bitlen_def compute_floorlog)

lemma ilog2_literal [float_eval]:
  "1 \<le> x \<Longrightarrow> ilog2 x = bitlen \<lfloor>x\<rfloor> - 1"
  "x < 1 \<Longrightarrow> ilog2 x = - bitlen (\<lceil>1 / x\<rceil> - 1)"
  by (simp_all add: ilog2_def)

lemma pow2_literal [float_eval]:
  "pow2 (numeral k) = 2 ^ numeral k" "pow2 (- numeral k) = 1 / 2 ^ numeral k" "pow2 1 = 2" "pow2 (- 1) = 1 / 2"
  by (simp_all only: pow2_minus) (simp_all add: pow2_def)

lemma floor_quotient: "\<lfloor>of_int a / of_int b :: rat\<rfloor> = a div b" "\<lceil>of_int a / of_int b :: rat\<rceil> = - (- a div b)"
proof -
  show "\<lfloor>of_int a / of_int b :: rat\<rfloor> = a div b" by (rule floor_divide_of_int_eq)
  have "\<lfloor>of_int (- a) / of_int b :: rat\<rfloor> = - a div b" by (rule floor_divide_of_int_eq)
  then show "\<lceil>of_int a / of_int b :: rat\<rceil> = - (- a div b)" by (simp add: ceiling_def)
qed

lemma floor_literal [float_eval]:
  "\<lfloor>numeral a / numeral b :: rat\<rfloor> = numeral a div numeral b"
  "\<lfloor>- (numeral a / numeral b) :: rat\<rfloor> = - numeral a div numeral b"
  "\<lfloor>1 / numeral b :: rat\<rfloor> = 1 div numeral b"
  "\<lfloor>- (1 / numeral b) :: rat\<rfloor> = - 1 div numeral b"
  "\<lceil>numeral a / numeral b :: rat\<rceil> = - (- numeral a div numeral b)"
  "\<lceil>1 / numeral b :: rat\<rceil> = - (- 1 div numeral b)"
  using floor_quotient(1) [of "numeral a" "numeral b"] floor_quotient(1) [of "- numeral a" "numeral b"]
    floor_quotient(1) [of 1 "numeral b"] floor_quotient(1) [of "- 1" "numeral b"]
    floor_quotient(2) [of "numeral a" "numeral b"] floor_quotient(2) [of 1 "numeral b"]
  by simp_all

lemmas [float_eval] = lit_def of_int_fl_def to_f32_def fl_ops_FNum

text \<open>Sums and differences of values that include a negative zero.\<close>

lemma fl_ops_NegZero [float_eval]:
  "fadd F FNegZero (FNum b) = fround F (b < 0) b" "fadd F (FNum a) FNegZero = fround F (a < 0) a"
  "fmul F FNegZero (FNum b) = fround F (\<not> b < 0) 0" "fmul F (FNum a) FNegZero = fround F (\<not> a < 0) 0"
  "0 < b \<Longrightarrow> fsub F FNegZero (FNum b) = fround F True (- b)"
  "fsub F (FNum a) FNegZero = fround F (a < 0) a"
  by (auto simp: fadd_def fsub_def fmul_def Let_def)

text \<open>Square roots.\<close>

definition isqrt_step :: "int \<Rightarrow> int \<Rightarrow> int \<Rightarrow> int \<Rightarrow> int" where
  "isqrt_step n lo hi m = (if m * m \<le> n then isqrt_search n m hi else isqrt_search n lo m)"

definition sqrt_stage1 :: "rat \<Rightarrow> nat \<Rightarrow> rat" where
  "sqrt_stage1 x k = (let y = x * 4 ^ k; s = isqrt \<lfloor>y\<rfloor>
     in (if of_int (s * s) = y then of_int s else of_int s + 1 / 2) / 2 ^ k)"

definition sqrt_stage2 :: "nat \<Rightarrow> rat \<Rightarrow> rat" where
  "sqrt_stage2 k y = (let s = isqrt \<lfloor>y\<rfloor> in (if of_int (s * s) = y then of_int s else of_int s + 1 / 2) / 2 ^ k)"

definition sqrt_stage3 :: "nat \<Rightarrow> rat \<Rightarrow> int \<Rightarrow> rat" where
  "sqrt_stage3 k y s = (if of_int (s * s) = y then of_int s else of_int s + 1 / 2) / 2 ^ k"

lemma sqrt_stages [float_eval]:
  "0 < r \<Longrightarrow> fsqrt F (FNum r) = fround F False (sqrt_approx F r)"
  "fsqrt F (FNum 0) = FNum 0" "fsqrt F FNegZero = FNegZero"
  "sqrt_approx F x = sqrt_stage1 x (sqrt_shift F x)"
  "sqrt_stage1 x k = sqrt_stage2 k (x * 4 ^ k)"
  "sqrt_stage2 k y = sqrt_stage3 k y (isqrt \<lfloor>y\<rfloor>)"
  "of_int (s * s) = y \<Longrightarrow> sqrt_stage3 k y s = of_int s / 2 ^ k"
  "of_int (s * s) \<noteq> y \<Longrightarrow> sqrt_stage3 k y s = (of_int s + 1 / 2) / 2 ^ k"
  "sqrt_shift B64 x = nat (55 - ilog2 x div 2)" "sqrt_shift B32 x = nat (26 - ilog2 x div 2)"
  "isqrt n = isqrt_search n 0 (n + 1)"
  "hi \<le> lo + 1 \<Longrightarrow> isqrt_search n lo hi = lo"
  "\<not> hi \<le> lo + 1 \<Longrightarrow> isqrt_search n lo hi = isqrt_step n lo hi ((lo + hi) div 2)"
  "m * m \<le> n \<Longrightarrow> isqrt_step n lo hi m = isqrt_search n m hi"
  "\<not> m * m \<le> n \<Longrightarrow> isqrt_step n lo hi m = isqrt_search n lo m"
  by (simp_all add: fsqrt_def sqrt_approx_def sqrt_stage1_def sqrt_stage2_def sqrt_stage3_def sqrt_shift_def isqrt_def
      isqrt_step_def Let_def B64_def B32_def isqrt_search.simps [of n lo hi])

end
