(* ===== verification/Conformance_Detect.thy ===== *)
theory Conformance_Detect
  imports State_Machine Residual_Buffer Float_Eval
begin

text \<open>
  The unit tests of the jump detector and of the residual buffer (the test modules of
  \<open>src/src/detect/jump.rs\<close> and \<open>src/src/detect/residual.rs\<close>), run on the model with its
  IEEE arithmetic: every test is a definition that makes its calls in its order and is true when
  all its assertions hold, and a lemma that it is.
\<close>

section \<open>Evaluation by value\<close>

lemmas by_value = let_weak_cong prod.case_cong_weak option.case_cong_weak

lemma replicate_literal: "replicate (numeral k) x = x # replicate (pred_numeral k) x"
  by (simp add: numeral_eq_Suc)

lemma u8_le_one: "(numeral k :: u8) \<le> 1 \<longleftrightarrow> unat (numeral k :: u8) \<le> 1"
  by (simp add: word_le_nat_alt)

section \<open>Residuals of the tests\<close>

abbreviation ned_of :: "fl \<Rightarrow> fl \<Rightarrow> ned" where
  "ned_of n e \<equiv> \<lparr>ned_n = n, ned_e = e, ned_d = FNum 0\<rparr>"

definition norm2 :: "fl \<Rightarrow> fl \<Rightarrow> fl" where
  "norm2 n e = fsqrt B64 (fadd B64 (fmul B64 n n) (fmul B64 e e))"

definition r_pos_vel :: "fl \<Rightarrow> fl \<Rightarrow> fl \<Rightarrow> fl \<Rightarrow> residual" where
  "r_pos_vel n e vn ve = \<lparr>dpos = ned_of n e, dvel = ned_of vn ve, mag_pos = norm2 n e, mag_vel = norm2 vn ve,
     dvel_known = True, dvel_free = ned_default, mag_vel_free = FNum 0, maneuvering = False\<rparr>"

definition r_no_vel :: "fl \<Rightarrow> fl \<Rightarrow> residual" where
  "r_no_vel n e = \<lparr>dpos = ned_of n e, dvel = ned_default, mag_pos = norm2 n e, mag_vel = FNum 0,
     dvel_known = False, dvel_free = ned_default, mag_vel_free = FNum 0, maneuvering = False\<rparr>"

section \<open>Jump detector\<close>

lemmas jump_eval = jump_evaluate_def jump_scale_def jump_hard_def hdop_bad_def sats_bad_def jump_new_def
  detect_config_default_def r_pos_vel_def r_no_vel_def norm2_def saturating_add_def saturating_sub_def u8_le_one Let_def

definition jump0 :: jump_detector where
  "jump0 = jump_new detect_config_default"

text \<open>The verdicts of a detector over a list of residuals without quality fields.\<close>

fun jump_verdicts :: "residual list \<Rightarrow> jump_detector \<Rightarrow> jump_reason option list" where
  "jump_verdicts [] d = []"
| "jump_verdicts (x # xs) d = (let (v, d) = jump_evaluate d x None None in v # jump_verdicts xs d)"

definition missing_gps_velocity_does_not_fire_vmismatch :: bool where
  "missing_gps_velocity_does_not_fire_vmismatch =
     list_all (\<lambda>v. v = None) (jump_verdicts (replicate 20 (r_no_vel (FNum 2) (lit B64 (1 / 2)))) jump0)"

lemma missing_gps_velocity_does_not_fire_vmismatch_passes: "missing_gps_velocity_does_not_fire_vmismatch"
  by (simp add: missing_gps_velocity_does_not_fire_vmismatch_def jump0_def jump_eval float_eval replicate_literal cong: by_value)

definition fires_on_hard_residual :: bool where
  "fires_on_hard_residual =
     (fst (jump_evaluate jump0 (r_pos_vel (FNum 100) (FNum 0) (FNum 0) (FNum 0)) None None) = Some HardResidual)"

lemma fires_on_hard_residual_passes: "fires_on_hard_residual"
  by (simp add: fires_on_hard_residual_def jump0_def jump_eval float_eval cong: by_value)

definition vmismatch_requires_persistence :: bool where
  "vmismatch_requires_persistence =
     (jump_verdicts (replicate 2 (r_pos_vel (FNum 0) (FNum 0) (FNum 20) (FNum 0))) jump0
      = [None, Some VelocityMismatch])"

lemma vmismatch_requires_persistence_passes: "vmismatch_requires_persistence"
  by (simp add: vmismatch_requires_persistence_def jump0_def jump_eval float_eval replicate_literal cong: by_value)

definition quiet_doesnt_fire :: bool where
  "quiet_doesnt_fire =
     list_all (\<lambda>v. v = None) (jump_verdicts (replicate 10
       (r_pos_vel (FNum 1) (lit B64 (5 / 10)) (lit B64 (5 / 10)) (lit B64 (2 / 10)))) jump0)"

lemma quiet_doesnt_fire_passes: "quiet_doesnt_fire"
  by (simp add: quiet_doesnt_fire_def jump0_def jump_eval float_eval replicate_literal cong: by_value)

definition r80 :: residual where
  "r80 = r_pos_vel (FNum 80) (FNum 0) (FNum 0) (FNum 0)"

definition high_hdop_alone_does_not_widen_thresholds :: bool where
  "high_hdop_alone_does_not_widen_thresholds =
     (fst (jump_evaluate jump0 r80 (Some (FNum 10)) None) \<noteq> None)"

definition high_hdop_alone_with_good_sats_does_not_widen :: bool where
  "high_hdop_alone_with_good_sats_does_not_widen =
     (fst (jump_evaluate jump0 r80 (Some (FNum 10)) (Some 12)) \<noteq> None)"

definition both_quality_indicators_bad_widens_thresholds :: bool where
  "both_quality_indicators_bad_widens_thresholds =
     (fst (jump_evaluate jump0 r80 (Some (FNum 10)) (Some 4)) = None)"

definition unknown_quality_does_not_widen :: bool where
  "unknown_quality_does_not_widen = (fst (jump_evaluate jump0 r80 None None) \<noteq> None)"

lemma quality_tests_pass:
  "high_hdop_alone_does_not_widen_thresholds" "high_hdop_alone_with_good_sats_does_not_widen"
  "both_quality_indicators_bad_widens_thresholds" "unknown_quality_does_not_widen"
  by (simp_all add: high_hdop_alone_does_not_widen_thresholds_def high_hdop_alone_with_good_sats_does_not_widen_def
      both_quality_indicators_bad_widens_thresholds_def unknown_quality_does_not_widen_def
      r80_def jump0_def jump_eval float_eval cong: by_value)

definition no_doppler_gap_decays_persistence_counter :: bool where
  "no_doppler_gap_decays_persistence_counter =
     (let fire = r_pos_vel (FNum 0) (FNum 0) (FNum 20) (FNum 0)
      in jump_verdicts [fire, r_no_vel (FNum 0) (FNum 0), fire, fire] jump0
         = [None, None, None, Some VelocityMismatch])"

lemma no_doppler_gap_decays_persistence_counter_passes: "no_doppler_gap_decays_persistence_counter"
  by (simp add: no_doppler_gap_decays_persistence_counter_def jump0_def jump_eval float_eval cong: by_value)

section \<open>Residual buffer\<close>

definition snap_v :: "fl \<Rightarrow> fl \<Rightarrow> fl \<Rightarrow> fl \<Rightarrow> fl \<Rightarrow> nav_snapshot" where
  "snap_v t n e vn ve = \<lparr>mono_secs = t, snap_pos = ned_of n e, snap_vel = ned_of vn ve\<rparr>"

definition snap :: "fl \<Rightarrow> fl \<Rightarrow> fl \<Rightarrow> nav_snapshot" where
  "snap t n e = \<lparr>mono_secs = t, snap_pos = ned_of n e, snap_vel = ned_default\<rparr>"

text \<open>\<open>(a - b).abs() < eps\<close>\<close>

definition close_to :: "fl \<Rightarrow> fl \<Rightarrow> fl \<Rightarrow> bool" where
  "close_to eps a b = flt (fabs (fsub B64 a b)) eps"

definition interp_midpoint :: bool where
  "interp_midpoint =
     (case buffer_new (FNum 2) (FNum 100) of None \<Rightarrow> False | Some b \<Rightarrow>
        (let b = buffer_push (buffer_push b (snap (FNum 1) (FNum 0) (FNum 0))) (snap (FNum 2) (FNum 10) (FNum 0))
         in case interpolate b (lit B64 (15 / 10)) of
              Inr (p, _) \<Rightarrow> close_to (lit B64 (1 / 10 ^ 9)) (ned_n p) (FNum 5)
            | Inl _ \<Rightarrow> False))"

lemmas buffer_eval = buffer_new_def buffer_capacity_def cast_usize_def cast_int_def fceil_def ftrunc_def
  DEFAULT_MAX_EXTRAPOLATION_S_def buffer_push_def trim_window_def trim_capacity_def snap_def snap_v_def
  interpolate_def outside_def back_tolerance_def extrapolate_def interpolate_in_def bracket_def fclampv_def
  ned_lerp_def lerp_def gap_ms_def cast_i64_def close_to_def ned_default_def with_max_extrapolation_s_def Let_def

lemma interp_midpoint_passes: "interp_midpoint"
  by (simp add: interp_midpoint_def buffer_eval float_eval cong: by_value)

definition interp_outside_errors :: bool where
  "interp_outside_errors =
     (case buffer_new (FNum 2) (FNum 100) of None \<Rightarrow> False | Some b \<Rightarrow>
        (let b = buffer_push (buffer_push b (snap (FNum 1) (FNum 0) (FNum 0))) (snap (FNum 2) (FNum 10) (FNum 0))
         in isl (interpolate b (FNum 0)) \<and> isl (interpolate b (FNum 10)) \<and> \<not> isl (interpolate b (lit B64 (99 / 100)))))"

lemma interp_outside_errors_passes: "interp_outside_errors"
  by (simp add: interp_outside_errors_def buffer_eval float_eval cong: by_value)

definition extrapolates_forward_within_horizon :: bool where
  "extrapolates_forward_within_horizon =
     (case buffer_new (FNum 2) (FNum 10) of None \<Rightarrow> False | Some b \<Rightarrow>
        (let b = buffer_push (buffer_push b (snap_v (FNum 1) (FNum 2) (FNum 0) (FNum 8) (FNum 0)))
                   (snap_v (FNum 2) (FNum 10) (FNum 0) (FNum 8) (FNum 0))
         in (case interpolate b (lit B64 (21 / 10)) of
               Inr (p, v) \<Rightarrow> close_to (lit B64 (1 / 10 ^ 9)) (ned_n p) (lit B64 (108 / 10))
                 \<and> close_to (lit B64 (1 / 10 ^ 9)) (ned_n v) (FNum 8)
             | Inl _ \<Rightarrow> False)
            \<and> (case interpolate b (lit B64 (224 / 100)) of
                 Inr (p2, _) \<Rightarrow> close_to (lit B64 (1 / 10 ^ 9)) (ned_n p2) (lit B64 (1192 / 100))
               | Inl _ \<Rightarrow> False)
            \<and> isl (interpolate b (lit B64 (230 / 100)))))"

lemma extrapolates_forward_within_horizon_passes: "extrapolates_forward_within_horizon"
  by (simp add: extrapolates_forward_within_horizon_def buffer_eval float_eval cong: by_value)

definition extrapolation_horizon_is_configurable :: bool where
  "extrapolation_horizon_is_configurable =
     (case buffer_new (FNum 2) (FNum 10) of None \<Rightarrow> False | Some b \<Rightarrow>
        (let b = with_max_extrapolation_s b (lit B64 (5 / 10));
             b = buffer_push (buffer_push b (snap_v (FNum 1) (FNum 0) (FNum 0) (FNum 0) (FNum 0)))
                   (snap_v (FNum 2) (FNum 0) (FNum 0) (FNum 0) (FNum 0))
         in \<not> isl (interpolate b (lit B64 (24 / 10))) \<and> isl (interpolate b (lit B64 (26 / 10)))))"

lemma extrapolation_horizon_is_configurable_passes: "extrapolation_horizon_is_configurable"
  by (simp add: extrapolation_horizon_is_configurable_def buffer_eval float_eval cong: by_value)

text \<open>The time of the \<open>i\<close>-th push of the last test, \<open>i as f64 * 0.01\<close>, and the buffer after \<open>n\<close> of them.\<close>

definition tick :: "nat \<Rightarrow> fl" where
  "tick i = fmul B64 (FNum (of_nat i)) (lit B64 (1 / 100))"

fun ticked :: "nat \<Rightarrow> residual_buffer \<Rightarrow> residual_buffer" where
  "ticked 0 b = b"
| "ticked (Suc i) b = buffer_push (ticked i b) (snap (tick i) (FNum (of_nat i)) (FNum 0))"

definition buffer_trims_old :: bool where
  "buffer_trims_old =
     (case buffer_new (FNum 1) (FNum 100) of None \<Rightarrow> False | Some b \<Rightarrow>
        (let b = ticked 300 b
         in case (latest b, earliest b) of
              (Some l, Some e) \<Rightarrow> fle (fsub B64 l e) (fadd B64 (FNum 1) (lit B64 (1 / 10 ^ 6)))
            | _ \<Rightarrow> False))"

lemma tick_mono: "i \<le> j \<Longrightarrow> fle (tick i) (tick j)"
proof -
  assume "i \<le> j"
  moreover have "lit B64 (1 / 100) = FNum (5764607523034235 / 576460752303423488)" by (simp add: float_eval)
  ultimately show ?thesis by (simp add: tick_def fmul_FNum fround_mono)
qed

lemma tick_finite: "i \<le> 300 \<Longrightarrow> is_finite (tick i)"
proof (rule finite_between)
  show "i \<le> 300 \<Longrightarrow> fle (tick i) (tick 300)" by (rule tick_mono)
  have "tick 0 = FNum 0" by (simp add: tick_def float_eval)
  then show "fle (FNum 0) (tick i)" using tick_mono [of 0 i] by simp
  show "is_finite (tick 300)" by (simp add: tick_def float_eval)
qed

definition window_ok :: "fl \<Rightarrow> residual_buffer \<Rightarrow> bool" where
  "window_ok t b \<longleftrightarrow> times_ok (buf b) \<and> buf b \<noteq> [] \<and> mono_secs (last (buf b)) = t
     \<and> list_all (\<lambda>x. fle (mono_secs x) t \<and> \<not> fgt (fsub B64 t (mono_secs x)) (FNum 1)) (buf b)"

lemma window_step:
  assumes "times_ok (buf b)" and "list_all (\<lambda>x. fle (mono_secs x) (mono_secs s)) (buf b)"
    and "is_finite (mono_secs s)" and "1 \<le> capacity b" and "window_secs b = FNum 1"
  shows "window_ok (mono_secs s) (buffer_push b s)"
proof -
  have "times_ok (buf b @ [s])"
    using assms(1-3) by (auto simp: times_ok_def sorted_wrt_append list_all_iff)
  from buffer_push_window [OF this assms(4)] assms(5)
  have *: "\<exists>ys. buf b @ [s] = ys @ buf (buffer_push b s)" "buf (buffer_push b s) \<noteq> []"
    "last (buf (buffer_push b s)) = s" "times_ok (buf (buffer_push b s))"
    "list_all (\<lambda>x. \<not> fgt (fsub B64 (mono_secs s) (mono_secs x)) (FNum 1)) (buf (buffer_push b s))"
    by auto
  obtain ys where "buf b @ [s] = ys @ buf (buffer_push b s)" using *(1) by blast
  then have "set (buf (buffer_push b s)) \<subseteq> set (buf b @ [s])" by simp
  moreover have "fle (mono_secs s) (mono_secs s)" using assms(3) is_finite_not_nan by simp
  ultimately have "list_all (\<lambda>x. fle (mono_secs x) (mono_secs s)) (buf (buffer_push b s))"
    using assms(2) by (auto simp: list_all_iff)
  with * show ?thesis by (simp add: window_ok_def list_all_iff)
qed

lemma ticked_window:
  assumes "1 \<le> capacity b" and "window_secs b = FNum 1" and "buf b = []" and "n < 300"
  shows "window_ok (tick n) (ticked (Suc n) b) \<and> capacity (ticked (Suc n) b) = capacity b
    \<and> window_secs (ticked (Suc n) b) = FNum 1"
  using assms(4)
proof (induction n)
  case 0
  then show ?case
    using window_step [of b "snap (tick 0) (FNum 0) (FNum 0)"] assms(1-3) tick_finite [of 0]
    by (simp add: times_ok_def snap_def buffer_push_def)
next
  case (Suc n)
  let ?b = "ticked (Suc n) b" and ?s = "snap (tick (Suc n)) (FNum (of_nat (Suc n))) (FNum 0)"
  have IH: "window_ok (tick n) ?b" "capacity ?b = capacity b" "window_secs ?b = FNum 1" using Suc by auto
  have "fle v (tick n) \<Longrightarrow> fle v (tick (Suc n))" for v by (erule fle_trans) (simp add: tick_mono)
  with IH have "list_all (\<lambda>x. fle (mono_secs x) (tick (Suc n))) (buf ?b)"
    by (simp add: window_ok_def list_all_iff)
  then have "window_ok (mono_secs ?s) (buffer_push ?b ?s)"
    using IH tick_finite [of "Suc n"] Suc.prems assms(1)
    by (intro window_step) (simp_all add: window_ok_def snap_def)
  with IH show ?case by (simp add: snap_def buffer_push_def)
qed

lemma buffer_trims_old_passes: "buffer_trims_old"
proof -
  obtain b where b: "buffer_new (FNum 1) (FNum 100) = Some b" "1 \<le> capacity b" "window_secs b = FNum 1" "buf b = []"
    by (simp add: buffer_eval float_eval cong: by_value)
  let ?b = "ticked (Suc 299) b"
  obtain x xs where x: "buf ?b = x # xs" "\<not> fgt (fsub B64 (tick 299) (mono_secs x)) (FNum 1)" "fle (mono_secs x) (tick 299)"
    "mono_secs (last (buf ?b)) = tick 299" "is_finite (mono_secs x)"
    using ticked_window [OF b(2-4), of 299] by (cases "buf ?b") (auto simp: window_ok_def times_ok_def)
  then have "fle (fsub B64 (tick 299) (mono_secs x)) (FNum 1)"
    using tick_finite [of 299] fsub_not_nan [of "tick 299" "mono_secs x" B64] by (subst not_flt [symmetric]) auto
  then have "fle (fsub B64 (tick 299) (mono_secs x)) (fadd B64 (FNum 1) (lit B64 (1 / 10 ^ 6)))"
    by (rule fle_trans) (simp add: float_eval)
  moreover have "latest ?b = Some (tick 299)" "earliest ?b = Some (mono_secs x)"
    using x by (simp_all add: latest_def earliest_def del: ticked.simps)
  moreover have "ticked 300 b = ?b" by (rule arg_cong [of _ _ "\<lambda>n. ticked n b"]) simp
  ultimately show ?thesis
    by (simp only: buffer_trims_old_def b(1) option.case Let_def case_prod_conv)
qed

end
