(* ===== verification/Conformance_Fsm.thy ===== *)
theory Conformance_Fsm
  imports Conformance_Detect
begin

text \<open>
  The unit tests of \<open>src/src/detect/state_machine.rs\<close>, run on the model: whole episodes of the
  machine, with both detectors and their arithmetic. The two tests that draw Gaussian noise
  (\<open>ln\<close>, \<open>cos\<close>, \<open>sin\<close>) are left out.
\<close>

definition clean :: residual where
  "clean = \<lparr>dpos = ned_default, dvel = ned_default, mag_pos = FNum 0, mag_vel = FNum 0,
     dvel_known = True, dvel_free = ned_default, mag_vel_free = FNum 0, maneuvering = False\<rparr>"

definition big_jump :: residual where
  "big_jump = \<lparr>dpos = ned_of (FNum 100) (FNum 0), dvel = ned_default, mag_pos = FNum 100, mag_vel = FNum 0,
     dvel_known = True, dvel_free = ned_default, mag_vel_free = FNum 0, maneuvering = False\<rparr>"

definition fsm0 :: state_machine where
  "fsm0 = fsm_new detect_config_default"

text \<open>\<open>for s in ts { sm.evaluate(&r, s as f64, None, None); }\<close>, and the loop that marks a recovery first.\<close>

fun feed_at :: "residual \<Rightarrow> nat list \<Rightarrow> state_machine \<Rightarrow> state_machine" where
  "feed_at r [] sm = sm"
| "feed_at r (t # ts) sm = feed_at r ts (snd (fsm_evaluate r (FNum (of_nat t)) None None sm))"

fun feed_recovering :: "residual \<Rightarrow> nat list \<Rightarrow> state_machine \<Rightarrow> state_machine" where
  "feed_recovering r [] sm = sm"
| "feed_recovering r (t # ts) sm =
     feed_recovering r ts (snd (fsm_evaluate r (FNum (of_nat t)) None None (note_dropout_recovery sm)))"

definition to_suspicious :: "fsm_event \<Rightarrow> bool" where
  "to_suspicious e = (case e of EvTransition _ k \<Rightarrow> k = Suspicious | _ \<Rightarrow> False)"

lemmas fsm_eval = jump_eval fsm_evaluate_def drain_flags_def dropout_stage_def count_dropout_def pause_or_warn_def
  absorb_gap_def budget_ok_def run_detectors_def cusum_peak_def pos_thresh_def sample_clean_def transition_def
  transition_normal_def transition_suspicious_def detector_events_def drift_state_def mag_noise_floor_def
  drift_evaluate_def drift_thresholds_def drift_finite_def welford_def drift_warmup_def fsm_new_def drift_new_def
  WARMUP_FIXES_def cusum_default_def ned_default_def CLEAR_NOISE_FACTOR_def CLEAR_QUIESCENT_FRACTION_def fmax_def
  MAX_CONSECUTIVE_DROPOUT_def note_dropout_recovery_def note_external_anomaly_def paused_cumulative_secs_def
  manual_reset_to_normal_def force_back_to_suspicious_def commit_susp_to_normal_def set_pos_detectors_enabled_def
  drift_reset_def jump_reset_def clean_def big_jump_def fsm0_def to_suspicious_def upt_conv_Cons

definition jump_takes_us_to_suspicious_then_spoofed :: bool where
  "jump_takes_us_to_suspicious_then_spoofed =
     (let first = fsm_evaluate big_jump (FNum 0) None None fsm0
      in list_ex to_suspicious (fst first) \<and> sm_state (feed_at big_jump [1..<13] (snd first)) = Spoofed)"

lemma jump_takes_us_to_suspicious_then_spoofed_passes: "jump_takes_us_to_suspicious_then_spoofed"
  by (simp add: jump_takes_us_to_suspicious_then_spoofed_def fsm_eval float_eval cong: by_value)

definition clearing_clean_returns_to_normal :: bool where
  "clearing_clean_returns_to_normal =
     (let sm1 = feed_at big_jump [0] fsm0
      in sm_state sm1 = Suspicious \<and> sm_state (feed_at clean [1..<7] sm1) = Normal)"

lemma clearing_clean_returns_to_normal_passes: "clearing_clean_returns_to_normal"
  by (simp add: clearing_clean_returns_to_normal_def fsm_eval float_eval cong: by_value)

text \<open>A latched machine stays latched through any fixes.\<close>

lemma feed_spoofed: "sm_state sm = Spoofed \<Longrightarrow> sm_state (feed_at r ts sm) = Spoofed"
proof (induction ts arbitrary: sm)
  case (Cons t ts)
  then have "sm_state (snd (fsm_evaluate r (FNum (of_nat t)) None None sm)) = Spoofed"
    by (simp add: fsm_evaluate_def Let_def)
  with Cons.IH show ?case by simp
qed simp

lemma feed_append: "feed_at r (xs @ ys) sm = feed_at r ys (feed_at r xs sm)"
  by (induction xs arbitrary: sm) simp_all

text \<open>Sixteen jumps, one a second, latch a fresh machine.\<close>

definition latched :: state_machine where
  "latched = feed_at big_jump [0..<16] fsm0"

lemma latched_spoofed: "sm_state latched = Spoofed"
  by (simp add: latched_def fsm_eval float_eval cong: by_value)

definition spoofed_latches :: bool where
  "spoofed_latches =
     (sm_state latched = Spoofed \<and> sm_state (feed_at clean [16..<101] latched) = Spoofed)"

lemma spoofed_latches_passes: "spoofed_latches"
  by (simp only: spoofed_latches_def latched_spoofed feed_spoofed simp_thms)

definition force_back_to_suspicious_preserves_drift_state :: bool where
  "force_back_to_suspicious_preserves_drift_state =
     (let sm1 = feed_at big_jump [0] fsm0;
          sm2 = feed_at clean [1..<7] sm1;
          sm3 = force_back_to_suspicious (FNum 7) None sm2;
          sm4 = force_back_to_suspicious (FNum 8) None sm3
      in sm_state sm1 = Suspicious \<and> sm_state sm2 = Normal \<and> sm_state sm3 = Suspicious \<and> sm_state sm4 = Suspicious
         \<and> sm_state latched = Spoofed
         \<and> sm_state (force_back_to_suspicious (FNum 20) None latched) = Spoofed)"

lemma force_back_to_suspicious_preserves_drift_state_passes: "force_back_to_suspicious_preserves_drift_state"
proof -
  have "sm_state (force_back_to_suspicious (FNum 20) None latched) = Spoofed"
    by (simp add: force_back_to_suspicious_def latched_spoofed)
  then show ?thesis
    by (simp add: force_back_to_suspicious_preserves_drift_state_def latched_spoofed fsm_eval float_eval cong: by_value)
qed

definition force_back_to_suspicious_preserves_original_dwell :: bool where
  "force_back_to_suspicious_preserves_original_dwell =
     (let sm1 = feed_at big_jump [0] fsm0;
          original = suspicious_since sm1;
          sm2 = feed_at big_jump [1..<10] sm1;
          sm3 = feed_at clean [10..<16] sm2;
          sm4 = force_back_to_suspicious (FNum 16) original sm3;
          sm5 = feed_at big_jump [16] sm4
      in sm_state sm1 = Suspicious \<and> original = Some (FNum 0) \<and> sm_state sm2 = Suspicious \<and> sm_state sm3 = Normal
         \<and> sm_state sm4 = Suspicious \<and> sm_state sm5 = Spoofed)"

lemma force_back_to_suspicious_preserves_original_dwell_passes: "force_back_to_suspicious_preserves_original_dwell"
  by (simp add: force_back_to_suspicious_preserves_original_dwell_def fsm_eval float_eval cong: by_value)

definition force_back_to_suspicious_falls_back_to_now_when_no_original :: bool where
  "force_back_to_suspicious_falls_back_to_now_when_no_original =
     (let sm2 = feed_at clean [1..<7] (feed_at big_jump [0] fsm0);
          sm3 = force_back_to_suspicious (FNum 7) None sm2
      in sm_state sm2 = Normal \<and> sm_state sm3 = Suspicious \<and> suspicious_since sm3 = Some (FNum 7))"

lemma force_back_to_suspicious_falls_back_to_now_when_no_original_passes:
  "force_back_to_suspicious_falls_back_to_now_when_no_original"
  by (simp add: force_back_to_suspicious_falls_back_to_now_when_no_original_def fsm_eval float_eval cong: by_value)

definition dropout_recovery_does_not_advance_dwell :: bool where
  "dropout_recovery_does_not_advance_dwell =
     (let sm1 = feed_at big_jump [0] fsm0;
          sm2 = feed_recovering big_jump [1..<12] sm1;
          sm3 = feed_at big_jump [12..<24] sm2
      in sm_state sm1 = Suspicious \<and> sm_state sm2 = Suspicious \<and> sm_state sm3 = Spoofed
         \<and> dropout_recovery_count sm3 \<ge> 11)"

lemma dropout_recovery_does_not_advance_dwell_passes: "dropout_recovery_does_not_advance_dwell"
  by (simp add: dropout_recovery_does_not_advance_dwell_def fsm_eval float_eval cong: by_value)

text \<open>
  The modulated cadence: five recovery fixes three seconds apart, then a plain one after a second,
  until the machine latches. The loop carries the time and whether the notice was ever raised.
\<close>

fun modulate :: "(nat \<times> bool) list \<Rightarrow> fl \<Rightarrow> bool \<Rightarrow> state_machine \<Rightarrow> bool \<times> state_machine" where
  "modulate [] t fired sm = (fired, sm)"
| "modulate ((gap, recovering) # rest) t fired sm =
     (let t = fadd B64 t (FNum (of_nat gap));
          sm = (if recovering then note_dropout_recovery sm else sm);
          sm = snd (fsm_evaluate big_jump t None None sm);
          fired = (fired \<or> dwell_pause_exceeded_pending sm)
      in if sm_state sm = Spoofed then (fired, sm) else modulate rest t fired sm)"

definition cadence :: "(nat \<times> bool) list" where
  "cadence = concat (replicate 10 (replicate 5 (3, True) @ [(1, False)]))"

definition cadence_modulation_cannot_freeze_dwell_forever :: bool where
  "cadence_modulation_cannot_freeze_dwell_forever =
     (let sm1 = feed_at big_jump [0] fsm0;
          (fired, sm2) = modulate cadence (FNum 0) False sm1
      in sm_state sm1 = Suspicious \<and> sm_state sm2 = Spoofed \<and> fired
         \<and> fge (paused_cumulative_secs sm2) (max_dwell_pause_s detect_config_default))"

lemma cadence_modulation_cannot_freeze_dwell_forever_passes: "cadence_modulation_cannot_freeze_dwell_forever"
  by (simp add: cadence_modulation_cannot_freeze_dwell_forever_def cadence_def replicate_literal fsm_eval float_eval
      cong: by_value)

definition pause_budget_renews_on_committed_clear_but_not_on_veto :: bool where
  "pause_budget_renews_on_committed_clear_but_not_on_veto =
     (let sm1 = feed_recovering big_jump [3, 6, 9, 12, 15, 18] (feed_at big_jump [0] fsm0);
          consumed = paused_cumulative_secs sm1;
          original = suspicious_since sm1;
          sm2 = feed_at clean [19..<25] sm1;
          sm3 = force_back_to_suspicious (FNum 25) original sm2
      in fgt consumed (FNum 0) \<and> sm_state sm2 = Normal \<and> sm_state sm3 = Suspicious
         \<and> feq (paused_cumulative_secs sm3) consumed
         \<and> feq (paused_cumulative_secs (commit_susp_to_normal sm3)) (FNum 0))"

lemma pause_budget_renews_on_committed_clear_but_not_on_veto_passes:
  "pause_budget_renews_on_committed_clear_but_not_on_veto"
  by (simp add: pause_budget_renews_on_committed_clear_but_not_on_veto_def fsm_eval float_eval cong: by_value)

fun recovering_clean :: "nat \<Rightarrow> fl \<times> state_machine \<times> bool \<Rightarrow> fl \<times> state_machine \<times> bool" where
  "recovering_clean _ (t, sm, ok) =
     (let t = fadd B64 t (FNum 3);
          sm = snd (fsm_evaluate clean t None None (note_dropout_recovery sm))
      in (t, sm, ok \<and> sm_state sm = Normal \<and> \<not> dwell_pause_exceeded_pending sm))"

definition dropouts_in_normal_do_not_raise_dwell_pause_event :: bool where
  "dropouts_in_normal_do_not_raise_dwell_pause_event =
     snd (snd (fold recovering_clean [0..<20] (FNum 0, fsm0, True)))"

lemma dropouts_in_normal_do_not_raise_dwell_pause_event_passes: "dropouts_in_normal_do_not_raise_dwell_pause_event"
  by (simp add: dropouts_in_normal_do_not_raise_dwell_pause_event_def fsm_eval float_eval cong: by_value)

definition gated :: state_machine where
  "gated = feed_at big_jump [0..<16] (set_pos_detectors_enabled False fsm0)"

definition pos_detectors_gate_blocks_drift_jump_but_not_external :: bool where
  "pos_detectors_gate_blocks_drift_jump_but_not_external =
     (sm_state gated = Normal
      \<and> list_ex to_suspicious (fst (fsm_evaluate big_jump (FNum 16) None None (note_external_anomaly gated)))
      \<and> sm_state (feed_at big_jump [0] (set_pos_detectors_enabled True (set_pos_detectors_enabled False fsm0)))
        = Suspicious)"

lemma pos_detectors_gate_blocks_drift_jump_but_not_external_passes:
  "pos_detectors_gate_blocks_drift_jump_but_not_external"
  by (simp add: pos_detectors_gate_blocks_drift_jump_but_not_external_def gated_def fsm_eval float_eval cong: by_value)

definition manual_reset_clears_spoofed_and_resumes_detection :: bool where
  "manual_reset_clears_spoofed_and_resumes_detection =
     (let sm2 = manual_reset_to_normal latched
      in sm_state latched = Spoofed \<and> sm_state sm2 = Normal \<and> sm_state (feed_at big_jump [200] sm2) = Suspicious)"

lemma manual_reset_clears_spoofed_and_resumes_detection_passes: "manual_reset_clears_spoofed_and_resumes_detection"
  by (simp add: manual_reset_clears_spoofed_and_resumes_detection_def latched_def fsm_eval float_eval cong: by_value)

end
