(* ===== verification/Conformance_Drift.thy ===== *)
theory Conformance_Drift
  imports Conformance_Detect
begin

text \<open>
  The unit tests of \<open>src/src/detect/drift.rs\<close>, run on the model, except the six that need
  \<open>ln\<close>, \<open>cos\<close> and \<open>sin\<close> (Gaussian noise and the circular drift). The tests that fire are
  evaluated fix by fix; those that must stay quiet for hundreds of fixes follow from one lemma:
  a residual below every base threshold keeps all accumulators at zero.
\<close>

definition r_en :: "fl \<Rightarrow> fl \<Rightarrow> residual" where
  "r_en n e = \<lparr>dpos = ned_of n e, dvel = ned_default, mag_pos = norm2 n e, mag_vel = FNum 0,
     dvel_known = True, dvel_free = ned_default, mag_vel_free = FNum 0, maneuvering = False\<rparr>"

definition r_vel_free :: "fl \<Rightarrow> residual" where
  "r_vel_free v = \<lparr>dpos = ned_of (lit B64 (3 / 10)) (lit B64 (2 / 10)), dvel = ned_default,
     mag_pos = norm2 (lit B64 (3 / 10)) (lit B64 (2 / 10)), mag_vel = FNum 0, dvel_known = True,
     dvel_free = ned_of v (FNum 0), mag_vel_free = v, maneuvering = False\<rparr>"

definition drift0 :: drift_detector where
  "drift0 = drift_new detect_config_default"

text \<open>The verdicts over a list of residuals without quality fields, and the detector after them.\<close>

fun drift_verdicts :: "residual list \<Rightarrow> drift_detector \<Rightarrow> drift_reason option list \<times> drift_detector" where
  "drift_verdicts [] d = ([], d)"
| "drift_verdicts (x # xs) d =
     (let (v, d) = drift_evaluate d x None None; (vs, d) = drift_verdicts xs d in (v # vs, d))"

text \<open>\<open>for _ in 0..n { if let Some(r) = d.evaluate(..) { found = Some(r); break; } }\<close>\<close>

fun first_verdict :: "residual list \<Rightarrow> drift_detector \<Rightarrow> drift_reason option" where
  "first_verdict [] d = None"
| "first_verdict (x # xs) d =
     (let (v, d) = drift_evaluate d x None None in case v of None \<Rightarrow> first_verdict xs d | Some y \<Rightarrow> Some y)"

definition all_quiet :: "drift_reason option list \<Rightarrow> bool" where
  "all_quiet vs = list_all (\<lambda>v. v = None) vs"

text \<open>The detector after its warm-up on zero residuals.\<close>

definition warm :: "drift_reason option list \<times> drift_detector" where
  "warm = drift_verdicts (replicate WARMUP_FIXES (r_en (FNum 0) (FNum 0))) drift0"

definition warmed :: drift_detector where
  "warmed = drift0\<lparr>warmup := 20\<rparr>"

lemmas drift_eval = drift_evaluate_def drift_thresholds_def drift_finite_def welford_def drift_warmup_def drift_floors_def
  ewma_def cusum_up_def cusum_down_def eff_k_n_def eff_k_e_def eff_k_mag_def eff_k_vel_def drift_accumulate_def
  drift_decide_def drift_new_def WARMUP_FIXES_def cusum_default_def ned_default_def fmax_def hdop_bad_def sats_bad_def
  MAG_NOISE_ALPHA_def MAG_NOISE_FACTOR_def AXIS_NOISE_ALPHA_def AXIS_NOISE_FACTOR_def VEL_AIDING_NOISE_ALPHA_def
  VEL_AIDING_NOISE_FACTOR_def detect_config_default_def drift0_def warmed_def r_en_def r_vel_free_def norm2_def
  drift_state_def mag_noise_floor_def drift_reset_def Let_def

lemma all_quiet_none [simp]: "all_quiet (replicate n None)"
  by (simp add: all_quiet_def list_all_iff)

lemma warm_eq: "warm = (replicate 20 None, warmed)"
  by (simp add: warm_def drift_eval replicate_literal float_eval cong: by_value)

definition persistent_north_drift_fires :: bool where
  "persistent_north_drift_fires =
     (let (vs, d) = warm;
          (ws, d) = drift_verdicts (replicate 24 (r_en (FNum 2) (FNum 0))) d;
          (us, d) = drift_verdicts [r_en (FNum 2) (FNum 0)] d
      in all_quiet vs \<and> all_quiet ws \<and> us = [Some NorthPositive])"

lemma persistent_north_drift_fires_passes: "persistent_north_drift_fires"
  by (simp add: persistent_north_drift_fires_def warm_eq all_quiet_def drift_eval replicate_literal float_eval cong: by_value)

definition reset_clears_cusum :: bool where
  "reset_clears_cusum =
     (let d = drift_reset (snd (drift_verdicts (replicate 30 (r_en (FNum 2) (FNum 0))) drift0))
      in feq (s_pos_n (drift_state d)) (FNum 0) \<and> feq (s_mag (drift_state d)) (FNum 0))"

lemma reset_clears_cusum_passes: "reset_clears_cusum"
  by (simp add: reset_clears_cusum_def drift_reset_def drift_state_def cusum_default_def Let_def)

definition non_finite_residual_preserves_accumulated_evidence :: bool where
  "non_finite_residual_preserves_accumulated_evidence =
     (let (vs, d) = warm;
          (ws, d1) = drift_verdicts (replicate 20 (r_en (FNum 2) (FNum 0))) d;
          (us, d2) = drift_verdicts [r_en FNaN (FNum 0), r_en FPInf (FNum 2)] d1;
          (ts, d3) = drift_verdicts (replicate 5 (r_en (FNum 2) (FNum 0))) d2
      in all_quiet vs \<and> all_quiet ws \<and> fgt (s_pos_n (drift_state d1)) (FNum 0) \<and> all_quiet us
         \<and> feq (s_pos_n (drift_state d2)) (s_pos_n (drift_state d1))
         \<and> is_finite (mag_noise_floor d2) \<and> feq (mag_noise_floor d2) (mag_noise_floor d1)
         \<and> list_ex (\<lambda>v. v = Some NorthPositive) ts)"

lemma non_finite_quiet:
  "drift_evaluate d (r_en FNaN (FNum 0)) None None = (None, d)"
  "drift_evaluate d (r_en FPInf (FNum 2)) None None = (None, d)"
  by (simp_all add: drift_evaluate_def drift_finite_def r_en_def to_f32_def split: prod.splits)

lemma non_finite_residual_preserves_accumulated_evidence_passes: "non_finite_residual_preserves_accumulated_evidence"
  by (simp add: non_finite_residual_preserves_accumulated_evidence_def warm_eq all_quiet_def non_finite_quiet
      drift_eval replicate_literal float_eval cong: by_value)

definition linear_drift_still_caught_by_per_axis_first :: bool where
  "linear_drift_still_caught_by_per_axis_first =
     (let (vs, d) = warm
      in all_quiet vs \<and> first_verdict (replicate 50 (r_en (FNum 2) (FNum 0))) d = Some NorthPositive)"

lemma linear_drift_still_caught_by_per_axis_first_passes: "linear_drift_still_caught_by_per_axis_first"
  by (simp add: linear_drift_still_caught_by_per_axis_first_def warm_eq all_quiet_def drift_eval replicate_literal
      float_eval cong: by_value)

section \<open>Residuals below every base threshold\<close>

text \<open>An accumulator at zero stays there, however the noise floor has raised its threshold.\<close>

lemma cusum_stays:
  assumes "is_finite t" and "is_finite b" and "flt (fsub B32 t b) (FNum 0)"
  shows "fmax (fsub B32 t (fmax b z)) (FNum 0) = FNum 0"
proof -
  have "fle b (fmax b z)" using assms(2) is_finite_not_nan by (intro fmax_ge_left) auto
  then have "fle (fsub B32 t (fmax b z)) (fsub B32 t b)" using assms by (intro fsub_antimono) simp_all
  then have "flt (fsub B32 t (fmax b z)) (FNum 0)" using assms(3) by (rule fle_flt_trans)
  then show ?thesis using flt_not_nan by (fastforce simp: fmax_def)
qed

definition lane_quiet :: "fl \<Rightarrow> fl \<Rightarrow> bool" where
  "lane_quiet t b \<longleftrightarrow> is_finite t \<and> is_finite b \<and> flt (fsub B32 t b) (FNum 0)"

definition pos_quiet :: "residual \<Rightarrow> bool" where
  "pos_quiet r \<longleftrightarrow> drift_finite r
     \<and> lane_quiet (fadd B32 (FNum 0) (to_f32 (ned_n (dpos r)))) (FNum 1)
     \<and> lane_quiet (fsub B32 (FNum 0) (to_f32 (ned_n (dpos r)))) (FNum 1)
     \<and> lane_quiet (fadd B32 (FNum 0) (to_f32 (ned_e (dpos r)))) (FNum 1)
     \<and> lane_quiet (fsub B32 (FNum 0) (to_f32 (ned_e (dpos r)))) (FNum 1)
     \<and> lane_quiet (fadd B32 (FNum 0) (to_f32 (mag_pos r))) (FNum 1)"

definition quiet_residual :: "residual \<Rightarrow> bool" where
  "quiet_residual r \<longleftrightarrow> pos_quiet r
     \<and> (dvel_known r \<and> \<not> maneuvering r \<longrightarrow>
        lane_quiet (fadd B32 (FNum 0) (to_f32 (mag_vel_free r))) (lit B32 (55 / 100)))"

definition pos_zero :: "drift_detector \<Rightarrow> bool" where
  "pos_zero d \<longleftrightarrow> dd_cfg d = detect_config_default \<and> s_pos_n (dd_state d) = FNum 0 \<and> s_neg_n (dd_state d) = FNum 0
     \<and> s_pos_e (dd_state d) = FNum 0 \<and> s_neg_e (dd_state d) = FNum 0 \<and> s_mag (dd_state d) = FNum 0"

lemma default_k: "cusum_k_m detect_config_default = FNum 1" "mag_cusum_k_m detect_config_default = FNum 1"
  "vel_aiding_cusum_k_mps detect_config_default = lit B32 (55 / 100)" "vel_aiding_cusum_h detect_config_default = FNum 8"
  "mag_cusum_h_m detect_config_default = FNum 30"
  by (simp_all add: detect_config_default_def)

lemma pos_zero_accumulate:
  assumes "pos_zero d" and "pos_quiet r"
  shows "pos_zero (drift_accumulate (drift_floors d r) r)"
  using assms
  by (simp add: pos_zero_def pos_quiet_def lane_quiet_def drift_accumulate_def cusum_up_def cusum_down_def cusum_stays
      eff_k_n_def eff_k_e_def eff_k_mag_def default_k Let_def)

lemma pos_zero_warmup: "pos_zero d \<Longrightarrow> pos_zero (drift_warmup d r)"
  by (simp add: pos_zero_def cusum_default_def)

text \<open>With the position lanes at zero, only the velocity-aiding lane can answer.\<close>

lemma pos_zero_evaluate:
  assumes "pos_zero d" and "pos_quiet r" and "WARMUP_FIXES \<le> warmup d"
  defines "d' \<equiv> drift_accumulate (drift_floors d r) r"
  shows "drift_evaluate d r None None = (if fge (s_vel_aiding (dd_state d')) (FNum 8) then Some VelocityAiding else None, d')"
  using assms(2,3) pos_zero_accumulate [OF assms(1,2)] assms(1) unfolding d'_def
  by (simp add: drift_evaluate_def drift_thresholds_def hdop_bad_def pos_quiet_def pos_zero_def drift_decide_def
      default_k Let_def)

lemma quiet_residual_step:
  assumes "pos_zero d" and "s_vel_aiding (dd_state d) = FNum 0" and "quiet_residual r"
  shows "fst (drift_evaluate d r None None) = None \<and> pos_zero (snd (drift_evaluate d r None None))
    \<and> s_vel_aiding (dd_state (snd (drift_evaluate d r None None))) = FNum 0"
proof (cases "warmup d < WARMUP_FIXES")
  case True
  then show ?thesis
    using assms(1,3) pos_zero_warmup [OF assms(1)]
    by (simp add: drift_evaluate_def drift_thresholds_def hdop_bad_def quiet_residual_def pos_quiet_def cusum_default_def Let_def)
next
  case False
  have "s_vel_aiding (dd_state (drift_accumulate (drift_floors d r) r)) = FNum 0"
    using assms
    by (simp add: drift_accumulate_def cusum_up_def eff_k_vel_def quiet_residual_def lane_quiet_def pos_zero_def default_k
        cusum_stays Let_def)
  then show ?thesis
    using pos_zero_evaluate [OF assms(1), of r] pos_zero_accumulate [OF assms(1), of r] False assms(3)
    by (simp add: quiet_residual_def)
qed

lemma quiet_verdicts:
  assumes "pos_zero d" and "s_vel_aiding (dd_state d) = FNum 0" and "quiet_residual r"
  shows "all_quiet (fst (drift_verdicts (replicate n r) d)) \<and> pos_zero (snd (drift_verdicts (replicate n r) d))
    \<and> s_vel_aiding (dd_state (snd (drift_verdicts (replicate n r) d))) = FNum 0"
  using assms(1,2)
proof (induction n arbitrary: d)
  case (Suc n)
  with quiet_residual_step [OF Suc.prems assms(3)] show ?case
    by (simp add: all_quiet_def case_prod_beta Let_def)
qed (simp add: all_quiet_def)

lemma starts_zero:
  "pos_zero drift0" "s_vel_aiding (dd_state drift0) = FNum 0" "pos_zero warmed" "s_vel_aiding (dd_state warmed) = FNum 0"
  "WARMUP_FIXES \<le> warmup warmed" "vel_aiding_noise warmed = FNum 0"
  by (simp_all add: pos_zero_def warmed_def drift0_def drift_new_def cusum_default_def WARMUP_FIXES_def)

lemmas quiet_eval = quiet_residual_def pos_quiet_def lane_quiet_def drift_finite_def r_en_def r_vel_free_def norm2_def

definition quiet_residuals_dont_fire :: bool where
  "quiet_residuals_dont_fire =
     all_quiet (fst (drift_verdicts (replicate 1000 (r_en (lit B64 (5 / 10)) (lit B64 (3 / 10)))) drift0))"

lemma quiet_residuals_dont_fire_passes: "quiet_residuals_dont_fire"
proof -
  have "quiet_residual (r_en (lit B64 (5 / 10)) (lit B64 (3 / 10)))" by (simp add: quiet_eval float_eval)
  from quiet_verdicts [OF starts_zero(1,2) this] show ?thesis by (simp add: quiet_residuals_dont_fire_def)
qed

definition velocity_aiding_quiet_on_small_residual :: bool where
  "velocity_aiding_quiet_on_small_residual =
     (let (vs, d) = warm
      in all_quiet vs \<and> all_quiet (fst (drift_verdicts (replicate 3000 (r_vel_free (lit B64 (15 / 100)))) d)))"

lemma velocity_aiding_quiet_on_small_residual_passes: "velocity_aiding_quiet_on_small_residual"
proof -
  have "quiet_residual (r_vel_free (lit B64 (15 / 100)))" by (simp add: quiet_eval float_eval)
  from quiet_verdicts [OF starts_zero(3,4) this] show ?thesis
    by (simp add: velocity_aiding_quiet_on_small_residual_def warm_eq)
qed

definition velocity_aiding_requires_doppler :: bool where
  "velocity_aiding_requires_doppler =
     (let (vs, d) = warm
      in all_quiet vs
         \<and> all_quiet (fst (drift_verdicts (replicate 200 ((r_vel_free (FNum 5))\<lparr>dvel_known := False\<rparr>)) d)))"

lemma velocity_aiding_requires_doppler_passes: "velocity_aiding_requires_doppler"
proof -
  have "quiet_residual ((r_vel_free (FNum 5))\<lparr>dvel_known := False\<rparr>)" by (simp add: quiet_eval float_eval)
  from quiet_verdicts [OF starts_zero(3,4) this] show ?thesis
    by (simp add: velocity_aiding_requires_doppler_def warm_eq)
qed

section \<open>The velocity-aiding lane alone\<close>

text \<open>
  On \<open>r_vel_free 1\<close> the position lanes stay at zero and the lane's floor, learned on nothing,
  stays at zero, so the verdicts are those of the lane's own accumulator.
\<close>

fun vel_verdicts :: "nat \<Rightarrow> fl \<Rightarrow> drift_reason option list" where
  "vel_verdicts 0 s = []"
| "vel_verdicts (Suc n) s =
     (let s = cusum_up s (FNum 1) (lit B32 (55 / 100))
      in (if fge s (FNum 8) then Some VelocityAiding else None) # vel_verdicts n s)"

definition vel_lane :: "fl \<Rightarrow> drift_detector \<Rightarrow> bool" where
  "vel_lane s d \<longleftrightarrow> pos_zero d \<and> WARMUP_FIXES \<le> warmup d \<and> vel_aiding_noise d = FNum 0 \<and> s_vel_aiding (dd_state d) = s"

lemma biased_quiet: "pos_quiet (r_vel_free (FNum 1))" "to_f32 (FNum 1) = FNum 1"
  "\<not> flt (FNum 1) (lit B32 (55 / 100))" "fmax (lit B32 (55 / 100)) (fmul B32 (FNum 0) (lit B32 2)) = lit B32 (55 / 100)"
  by (simp_all add: quiet_eval fmax_def float_eval)

lemma vel_lane_step:
  assumes "vel_lane s d"
  defines "s' \<equiv> cusum_up s (FNum 1) (lit B32 (55 / 100))"
  shows "\<exists>d'. drift_evaluate d (r_vel_free (FNum 1)) None None = (if fge s' (FNum 8) then Some VelocityAiding else None, d')
    \<and> vel_lane s' d'"
proof -
  let ?r = "r_vel_free (FNum 1)"
  let ?d = "drift_accumulate (drift_floors d ?r) ?r"
  have d: "pos_zero d" "WARMUP_FIXES \<le> warmup d" "vel_aiding_noise d = FNum 0" "s_vel_aiding (dd_state d) = s"
    using assms(1) by (simp_all add: vel_lane_def)
  have r: "dvel_known ?r" "\<not> maneuvering ?r" "mag_vel_free ?r = FNum 1" by (simp_all add: r_vel_free_def)
  have k: "vel_aiding_cusum_k_mps (dd_cfg d) = lit B32 (55 / 100)" using d(1) by (simp add: pos_zero_def default_k)
  have n: "vel_aiding_noise (drift_floors d ?r) = FNum 0"
    using d(3) biased_quiet(2,3) k r by (simp add: drift_floors_def Let_def)
  then have "s_vel_aiding (dd_state ?d) = s'"
    using d(4) biased_quiet(2,4) k r
    by (simp add: drift_accumulate_def eff_k_vel_def VEL_AIDING_NOISE_FACTOR_def s'_def Let_def)
  then show ?thesis
    using pos_zero_evaluate [OF d(1) biased_quiet(1) d(2)] pos_zero_accumulate [OF d(1) biased_quiet(1)] d(2) n
    by (intro exI [of _ ?d]) (simp add: vel_lane_def)
qed

lemma vel_lane_verdicts: "vel_lane s d \<Longrightarrow> fst (drift_verdicts (replicate n (r_vel_free (FNum 1))) d) = vel_verdicts n s"
proof (induction n arbitrary: s d)
  case (Suc n)
  from vel_lane_step [OF Suc.prems] obtain d' where
    "drift_evaluate d (r_vel_free (FNum 1)) None None =
       (if fge (cusum_up s (FNum 1) (lit B32 (55 / 100))) (FNum 8) then Some VelocityAiding else None, d')"
    "vel_lane (cusum_up s (FNum 1) (lit B32 (55 / 100))) d'" by blast
  with Suc.IH show ?case by (simp add: case_prod_beta Let_def)
qed simp

lemma first_verdict_eq:
  "first_verdict xs d = (case dropWhile (\<lambda>v. v = None) (fst (drift_verdicts xs d)) of [] \<Rightarrow> None | v # _ \<Rightarrow> v)"
  by (induction xs arbitrary: d) (simp_all add: case_prod_beta Let_def split: option.split)

lemma vel_fires: "vel_verdicts 40 (FNum 0) = replicate 17 None @ replicate 23 (Some VelocityAiding)"
proof -
  have "vel_verdicts (numeral k) s = vel_verdicts (Suc (pred_numeral k)) s" for k s
    by (simp add: numeral_eq_Suc)
  then show ?thesis
    by (simp add: cusum_up_def fmax_def float_eval replicate_literal cong: by_value)
qed

definition velocity_aiding_fires_on_sustained_masked_bias :: bool where
  "velocity_aiding_fires_on_sustained_masked_bias =
     (let (vs, d) = warm
      in all_quiet vs \<and> first_verdict (replicate 40 (r_vel_free (FNum 1))) d = Some VelocityAiding)"

lemma warmed_lane: "vel_lane (FNum 0) warmed"
  by (simp add: vel_lane_def starts_zero)

lemma velocity_aiding_fires_on_sustained_masked_bias_passes: "velocity_aiding_fires_on_sustained_masked_bias"
proof -
  have "dropWhile (\<lambda>v. v = None) (vel_verdicts 40 (FNum 0)) = Some VelocityAiding # replicate 22 (Some VelocityAiding)"
    unfolding vel_fires by (simp add: replicate_literal)
  then show ?thesis
    by (simp add: velocity_aiding_fires_on_sustained_masked_bias_def warm_eq first_verdict_eq
        vel_lane_verdicts [OF warmed_lane])
qed

definition turning :: residual where
  "turning = (r_vel_free (FNum 2))\<lparr>maneuvering := True\<rparr>"

definition velocity_aiding_suspended_while_maneuvering :: bool where
  "velocity_aiding_suspended_while_maneuvering =
     (let (vs, d) = warm;
          (ws, d) = drift_verdicts (replicate 200 turning) d
      in all_quiet vs \<and> all_quiet ws
         \<and> list_ex (\<lambda>v. v = Some VelocityAiding) (fst (drift_verdicts (replicate 40 (r_vel_free (FNum 1))) d)))"

lemma turning_quiet: "quiet_residual turning"
  by (simp add: turning_def quiet_eval float_eval)

lemma turning_frozen:
  assumes "vel_lane (FNum 0) d"
  shows "vel_lane (FNum 0) (snd (drift_evaluate d turning None None))"
proof -
  have "pos_quiet turning" using turning_quiet by (simp add: quiet_residual_def)
  then have "snd (drift_evaluate d turning None None) = drift_accumulate (drift_floors d turning) turning"
    using pos_zero_evaluate [of d turning] assms by (simp add: vel_lane_def)
  moreover have "vel_aiding_noise (drift_floors d turning) = vel_aiding_noise d"
    by (simp add: drift_floors_def turning_def Let_def)
  ultimately show ?thesis
    using quiet_residual_step [of d turning] turning_quiet assms by (simp add: vel_lane_def)
qed

lemma turning_verdicts: "vel_lane (FNum 0) d \<Longrightarrow> vel_lane (FNum 0) (snd (drift_verdicts (replicate n turning) d))"
  by (induction n arbitrary: d) (simp_all add: turning_frozen case_prod_beta Let_def)

lemma velocity_aiding_suspended_while_maneuvering_passes: "velocity_aiding_suspended_while_maneuvering"
  using quiet_verdicts [OF starts_zero(3,4) turning_quiet, of 200]
    vel_lane_verdicts [OF turning_verdicts [OF warmed_lane, of 200], of 40]
  by (simp add: velocity_aiding_suspended_while_maneuvering_def warm_eq vel_fires list_ex_iff case_prod_beta Let_def)

end
