(* ===== verification/Conformance_Monitor.thy ===== *)
theory Conformance_Monitor
  imports Controller Watch
begin

text \<open>
  The unit tests of \<open>src/src/mav/monitor.rs\<close>, run on the model: every test of the file's test
  module is a definition that makes its calls in its order and is true when all of its
  assertions hold, and a lemma that it is. \<open>Instant::now()\<close> is the parameter \<open>boot\<close>, so a
  test holds at every reading of the clock.
\<close>

section \<open>Vocabulary of the tests\<close>

definition millis :: "nat \<Rightarrow> duration" where
  "millis n = n * 1000000"

definition hb_at :: "instant \<Rightarrow> u32 \<Rightarrow> u8 \<Rightarrow> u8 \<Rightarrow> u8 \<Rightarrow> heartbeat" where
  "hb_at now mode base status ap =
     \<lparr>hb_now = now, hb_custom_mode = mode, hb_base_mode = base, hb_system_status = status, hb_autopilot = ap\<rparr>"

text \<open>A 16-byte parameter id: the name followed by NUL bytes.\<close>

definition param_field :: "string \<Rightarrow> u8 list" where
  "param_field s = bytes s @ replicate (16 - length s) 0"

definition ipv4 :: "nat \<Rightarrow> nat \<Rightarrow> nat \<Rightarrow> nat \<Rightarrow> u16 \<Rightarrow> socket_addr" where
  "ipv4 a b c d port = \<lparr>sa_ip = ((a * 256 + b) * 256 + c) * 256 + d, sa_scope = 0, sa_port = port\<rparr>"

lemma since_boot_plus [simp]:
  "since_boot_ns (boot + d) boot = word_of_nat d" "since_boot_ns boot boot = 0"
  by (simp_all add: since_boot_ns_def saturating_duration_since_def nanos_u64_def)

lemma record_ack_shift: "record_ack (boot + d) boot = record_ack d 0"
  by (simp add: fun_eq_iff record_ack_def since_boot_ns_def saturating_duration_since_def)

lemma record_param_value_shift: "record_param_value (boot + d) boot = record_param_value d 0"
  by (simp add: fun_eq_iff record_param_value_def since_boot_ns_def saturating_duration_since_def)

lemmas monitor_eval = monitor_new_def hb_at_def millis_def record_heartbeat_def heartbeat_stores_def
  heartbeat_fresh_def is_armed_def saturating_sub_def MAV_MODE_FLAG_SAFETY_ARMED_def Let_def

lemmas mode_eval = is_rtl_mode_def px4_split_mode_def px4_encode_mode_def
  ARDUCOPTER_MODE_RTL_def ARDUCOPTER_MODE_SMART_RTL_def ARDUCOPTER_MODE_LAND_def
  PX4_MAIN_MODE_AUTO_def PX4_SUB_MODE_AUTO_RTL_def PX4_SUB_MODE_AUTO_LAND_def
  PX4_SUB_MODE_AUTO_RTGS_def PX4_SUB_MODE_AUTO_DESCEND_def

section \<open>Heartbeats\<close>

definition heartbeat_recorded_and_freshness_check :: "instant \<Rightarrow> bool" where
  "heartbeat_recorded_and_freshness_check boot =
     (let m = monitor_new;
          m' = snd (record_heartbeat boot (hb_at (boot + millis 50) 6 0x80 4 3) m)
      in \<not> heartbeat_fresh m boot boot 1000000000
         \<and> heartbeat_fresh m' (boot + millis 100) boot 1000000000
         \<and> \<not> heartbeat_fresh m' (boot + nanos_of_secs 5) boot 1000000000
         \<and> current_custom_mode m' = 6 \<and> is_armed m' \<and> current_autopilot m' = 3)"

lemma heartbeat_recorded_and_freshness_check_passes: "heartbeat_recorded_and_freshness_check boot"
  by (simp add: heartbeat_recorded_and_freshness_check_def monitor_eval nanos_of_secs_def)

definition mode_change_returns_true_only_on_actual_change :: "instant \<Rightarrow> bool" where
  "mode_change_returns_true_only_on_actual_change boot =
     (let (c1, m) = record_heartbeat boot (hb_at (boot + millis 10) 4 1 4 3) monitor_new;
          (c2, m) = record_heartbeat boot (hb_at (boot + millis 20) 4 1 4 3) m;
          (c3, m) = record_heartbeat boot (hb_at (boot + millis 30) 6 1 4 3) m
      in c1 \<and> \<not> c2 \<and> c3)"

lemma mode_change_returns_true_only_on_actual_change_passes: "mode_change_returns_true_only_on_actual_change boot"
  by (simp add: mode_change_returns_true_only_on_actual_change_def monitor_eval)

definition mode_changed_at_ns_advances_only_on_change :: "instant \<Rightarrow> bool" where
  "mode_changed_at_ns_advances_only_on_change boot =
     (let m1 = snd (record_heartbeat boot (hb_at (boot + millis 10) 4 1 4 3) monitor_new);
          m2 = snd (record_heartbeat boot (hb_at (boot + millis 20) 4 1 4 3) m1);
          m3 = snd (record_heartbeat boot (hb_at (boot + millis 30) 6 1 4 3) m2)
      in mode_changed_at_ns m1 = mode_changed_at_ns m2 \<and> mode_changed_at_ns m3 > mode_changed_at_ns m2)"

lemma mode_changed_at_ns_advances_only_on_change_passes: "mode_changed_at_ns_advances_only_on_change boot"
  by (simp add: mode_changed_at_ns_advances_only_on_change_def monitor_eval)

definition arming_flag_recognized :: "instant \<Rightarrow> bool" where
  "arming_flag_recognized boot =
     (let m1 = snd (record_heartbeat boot (hb_at (boot + millis 1) 6 0x80 4 3) monitor_new);
          m2 = snd (record_heartbeat boot (hb_at (boot + millis 2) 6 0x01 4 3) m1)
      in is_armed m1 \<and> \<not> is_armed m2)"

lemma arming_flag_recognized_passes: "arming_flag_recognized boot"
  by (simp add: arming_flag_recognized_def monitor_eval)

section \<open>Acknowledgements and parameters\<close>

definition ack_round_trip :: "instant \<Rightarrow> bool" where
  "ack_round_trip boot =
     (let m = monitor_new; m' = record_ack boot boot 20 0 m
      in last_ack m = None \<and> last_ack m' = Some (20, 0))"

lemma ack_round_trip_passes: "ack_round_trip boot"
  by (simp add: ack_round_trip_def record_ack_def last_ack_def monitor_new_def Let_def push_bit_eq_mult drop_bit_eq_div)

definition param_value_round_trip_and_name_trim :: "instant \<Rightarrow> bool" where
  "param_value_round_trip_and_name_trim boot =
     (let m = monitor_new; m' = record_param_value (boot + millis 5) boot (param_field ''GPS_TYPE'') (FNum 0) 2 m
      in last_param_value m (bytes ''GPS_TYPE'') = None
         \<and> (case last_param_value m' (bytes ''GPS_TYPE'') of
              None \<Rightarrow> False
            | Some e \<Rightarrow> feq (echo_value e) (FNum 0) \<and> param_type e = 2 \<and> recv_ns e > 0 \<and> recv_count e = 1)
         \<and> last_param_value m' (bytes ''EKF2_GPS_CTRL'') = None)"

lemma unat_small: "n < 2 ^ LENGTH('a) \<Longrightarrow> unat (word_of_nat n :: 'a::len word) = n"
  by (simp add: unat_of_nat)

lemma unat_byte: "unat (word_of_nat (of_char c) :: u8) = of_char c"
  by (rule unat_small) (cases c, simp add: of_char_def)

lemma bytes_inj: "bytes s = bytes t \<Longrightarrow> s = t"
proof -
  assume "bytes s = bytes t"
  then have "map unat (bytes s) = map unat (bytes t)" by simp
  then have "map (of_char :: char \<Rightarrow> nat) s = map of_char t" by (simp add: bytes_def comp_def unat_byte)
  then show "s = t" by (rule map_injective) (simp add: inj_on_def)
qed

lemma param_name_field:
  assumes "\<forall>c \<in> set s. (of_char c :: nat) \<noteq> 0"
  shows "param_name (param_field s) = bytes s"
proof -
  have "\<forall>b \<in> set (bytes s). b \<noteq> 0"
    using assms unat_byte by (fastforce simp: bytes_def unat_eq_0 [symmetric])
  then show ?thesis by (simp add: param_name_def param_field_def takeWhile_append2)
qed

lemma param_value_round_trip_and_name_trim_passes: "param_value_round_trip_and_name_trim boot"
proof -
  have "bytes ''EKF2_GPS_CTRL'' \<noteq> bytes ''GPS_TYPE''" "bytes ''GPS_TYPE'' \<noteq> []"
    using bytes_inj [of "''EKF2_GPS_CTRL''"] by (auto simp: bytes_def)
  moreover have "param_name (param_field ''GPS_TYPE'') = bytes ''GPS_TYPE''"
    by (rule param_name_field) (simp add: of_char_def)
  ultimately show ?thesis
    by (simp add: param_value_round_trip_and_name_trim_def record_param_value_def last_param_value_def
      receipt_put_def evict_oldest_def RECEIPT_CAP_def saturating_add_def monitor_new_def millis_def Let_def)
qed

text \<open>The flood of the next test, with the parameter \<open>PARAM_i\<close> received \<open>1 + i\<close> milliseconds after boot.\<close>

definition param_flood :: "instant \<Rightarrow> nat \<Rightarrow> mav_monitor" where
  "param_flood boot n =
     fold (\<lambda>i. record_param_value (boot + millis (1 + i)) boot (param_field (''PARAM_'' @ decimal i)) (FNum (rat_of_nat i)) 9)
       [0..<n] monitor_new"

definition param_value_not_stomped_by_unrelated_params :: "instant \<Rightarrow> bool" where
  "param_value_not_stomped_by_unrelated_params boot =
     (let m = record_param_value (boot + millis 500) boot (param_field ''GPS_TYPE'') (FNum 0) 2 (param_flood boot 100)
      in case last_param_value m (bytes ''GPS_TYPE'') of
           None \<Rightarrow> False
         | Some e \<Rightarrow> feq (echo_value e) (FNum 0) \<and> param_type e = 2 \<and> recv_ns e > 0 \<and> recv_count e = 1)"

definition flood_name :: "nat \<Rightarrow> u8 list" where
  "flood_name i = bytes (''PARAM_'' @ decimal i)"

abbreviation flood_entry :: "nat \<Rightarrow> u8 list \<times> param_echo" where
  "flood_entry i \<equiv> (flood_name i,
     \<lparr>echo_value = FNum (rat_of_nat i), param_type = 9, recv_ns = word_of_nat (millis (1 + i)), recv_count = 1\<rparr>)"

lemma decimal_codes:
  "i < 100 \<Longrightarrow> map of_char (decimal i) = (if i < 10 then [48 + i] else [48 + i div 10, 48 + i mod 10])"
  by (cases "i < 10") (simp_all add: decimal.simps [of i] decimal.simps [of "i div 10"] less_mult_imp_div_less)

lemma decimal_inj:
  assumes "i < 100" and "j < 100" and "decimal i = decimal j"
  shows "i = j"
proof -
  have "map (of_char :: char \<Rightarrow> nat) (decimal i) = map of_char (decimal j)" using assms(3) by simp
  then have "i div 10 = j div 10 \<and> i mod 10 = j mod 10"
    using assms(1,2) by (auto simp: decimal_codes split: if_splits)
  then show ?thesis by (metis div_mult_mod_eq)
qed

lemma flood_names: "distinct (map flood_name [0..<100])"
  by (auto simp: distinct_map flood_name_def intro!: inj_onI dest!: bytes_inj decimal_inj [rotated 2])

lemma flood_name_ok:
  assumes "i < 100"
  shows "param_name (param_field (''PARAM_'' @ decimal i)) = flood_name i"
  unfolding flood_name_def
proof (rule param_name_field)
  have "set (map (of_char :: char \<Rightarrow> nat) (decimal i)) \<subseteq> {48..}"
    unfolding decimal_codes [OF assms] by auto
  then have "\<forall>c \<in> set (decimal i). (of_char c :: nat) \<noteq> 0" by auto
  moreover have "\<forall>c \<in> set ''PARAM_''. (of_char c :: nat) \<noteq> 0" by (simp add: of_char_def)
  ultimately show "\<forall>c \<in> set (''PARAM_'' @ decimal i). (of_char c :: nat) \<noteq> 0"
    unfolding set_append ball_Un by blast
qed

lemma flood_nonempty: "flood_name i \<noteq> []"
  by (simp add: flood_name_def bytes_def)

lemma millis_mono: "i < j \<Longrightarrow> j \<le> 1000 \<Longrightarrow> (word_of_nat (millis i) :: u64) < word_of_nat (millis j)"
  unfolding word_less_nat_alt by (subst (1 2) unat_small) (simp_all add: millis_def)

lemma stamps_rise:
  assumes "\<And>i j. i < j \<Longrightarrow> j \<le> n \<Longrightarrow> (stamp (f i) :: u64) < stamp (f j)"
  shows "sorted_wrt (<) (map stamp (map f [0..<n] @ [f n]))"
  using assms by (auto simp: sorted_wrt_iff_nth_less nth_append)

lemma param_flood_newest: "n \<le> 100 \<Longrightarrow> params_by_name (param_flood boot n) = newest (map flood_entry [0..<n])"
proof (induction n)
  case (Suc n)
  let ?m = "newest (map flood_entry [0..<n])"
  have "distinct (take (Suc n) (map flood_name [0..<100]))" using flood_names by (rule distinct_take)
  then have names: "distinct (map flood_name [0..<Suc n])" using Suc.prems by (simp add: take_map)
  then have d: "distinct (map fst (map flood_entry [0..<n] @ [flood_entry n]))"
    by (simp add: comp_def)
  have "sorted_wrt (<) (map (recv_ns \<circ> snd) (map flood_entry [0..<n] @ [flood_entry n]))"
    using Suc.prems by (intro stamps_rise) (simp_all add: comp_def millis_mono)
  from receipt_put_newest [OF d this]
  have put: "receipt_put recv_ns (fst (flood_entry n)) (snd (flood_entry n)) ?m = newest (map flood_entry [0..<Suc n])"
    by simp
  have "map_of ?m (flood_name n) = None"
    using d by (intro newest_none) auto
  with put Suc flood_name_ok [of n] show ?case
    by (simp add: param_flood_def record_param_value_def Let_def saturating_add_def flood_nonempty)
qed (simp add: param_flood_def monitor_new_def newest_def)

lemma param_value_not_stomped_by_unrelated_params_passes: "param_value_not_stomped_by_unrelated_params boot"
proof -
  let ?es = "map flood_entry [0..<100]" and ?k = "bytes ''GPS_TYPE''"
  let ?v = "\<lparr>echo_value = FNum 0, param_type = 2, recv_ns = word_of_nat (millis 500), recv_count = 1\<rparr>"
  have new: "?k \<notin> fst ` set ?es" using bytes_inj [of "''GPS_TYPE''"] by (fastforce simp: flood_name_def)
  have "map_of (newest ?es) ?k = None"
    using new by (rule newest_none)
  moreover have "receipt_put recv_ns ?k ?v (newest ?es) = newest (?es @ [(?k, ?v)])"
    using new flood_names by (intro receipt_put_newest)
      (auto simp: image_image sorted_wrt_iff_nth_less nth_append comp_def intro!: millis_mono)
  moreover have "map_of (newest (?es @ [(?k, ?v)])) ?k = Some ?v"
    using new by (rule newest_last)
  moreover have "param_name (param_field ''GPS_TYPE'') = ?k" "?k \<noteq> []"
    by (rule param_name_field) (simp_all add: of_char_def bytes_def)
  moreover have "(0 :: u64) < word_of_nat (millis 500)" by (simp add: millis_def)
  ultimately show ?thesis
    by (simp add: param_value_not_stomped_by_unrelated_params_def record_param_value_def last_param_value_def
      param_flood_newest [OF order_refl] Let_def saturating_add_def)
qed

definition ack_by_cmd_is_not_stomped_by_other_acks :: "instant \<Rightarrow> bool" where
  "ack_by_cmd_is_not_stomped_by_other_acks boot =
     (let m = record_ack (boot + millis 100) boot 20 0 monitor_new;
          m = record_ack (boot + millis 150) boot 400 0 m
      in last_ack m = Some (400, 0)
         \<and> (case last_ack_for_cmd m 20 of None \<Rightarrow> False | Some (result, ns) \<Rightarrow> result = 0 \<and> ns > 0)
         \<and> last_ack_for_cmd m 400 \<noteq> None
         \<and> last_ack_for_cmd m 176 = None)"

lemma ack_by_cmd_is_not_stomped_by_other_acks_passes: "ack_by_cmd_is_not_stomped_by_other_acks boot"
  by (simp add: ack_by_cmd_is_not_stomped_by_other_acks_def record_ack_def last_ack_def last_ack_for_cmd_def
      receipt_put_def evict_oldest_def RECEIPT_CAP_def monitor_new_def millis_def Let_def push_bit_eq_mult drop_bit_eq_div)

definition ack_map_evicts_oldest_when_capped :: "instant \<Rightarrow> bool" where
  "ack_map_evicts_oldest_when_capped boot =
     (let m = fold (\<lambda>i. record_ack (boot + millis i) boot (word_of_nat i) 0) [0..<70] monitor_new
      in length (acks_by_cmd m) \<le> 64
         \<and> map_of (acks_by_cmd m) 0 = None
         \<and> map_of (acks_by_cmd m) 69 \<noteq> None)"

abbreviation ack_receipt :: "nat \<Rightarrow> u16 \<times> (u16 \<times> u64)" where
  "ack_receipt i \<equiv> (word_of_nat i, (0, word_of_nat (millis i)))"

lemma ack_flood_newest:
  "n \<le> 70 \<Longrightarrow> acks_by_cmd (fold (\<lambda>i. record_ack (boot + millis i) boot (word_of_nat i) 0) [0..<n] monitor_new)
     = newest (map ack_receipt [0..<n])"
proof (induction n)
  case (Suc n)
  have "inj_on (word_of_nat :: nat \<Rightarrow> u16) {0..<Suc n}"
    using Suc.prems by (intro inj_on_inverseI [where g = unat] unat_small) simp
  then have "distinct (map (word_of_nat :: nat \<Rightarrow> u16) [0..<Suc n])" by (simp only: distinct_map distinct_upt set_upt simp_thms)
  then have d: "distinct (map fst (map ack_receipt [0..<n] @ [ack_receipt n]))"
    by (simp add: comp_def)
  have "sorted_wrt (<) (map (snd \<circ> snd) (map ack_receipt [0..<n] @ [ack_receipt n]))"
    using Suc.prems by (intro stamps_rise) (simp_all add: comp_def millis_mono)
  from receipt_put_newest [OF d this] Suc show ?case by simp
qed (simp add: monitor_new_def newest_def)

lemma ack_map_evicts_oldest_when_capped_passes: "ack_map_evicts_oldest_when_capped boot"
proof -
  have "word_of_nat i \<noteq> (0 :: u16)" if "6 \<le> i" "i < 70" for i
    using that unat_small [of i, where 'a = 16] by auto
  moreover have "(69 :: u16) = word_of_nat 69" by simp
  ultimately show ?thesis
    unfolding ack_map_evicts_oldest_when_capped_def Let_def ack_flood_newest [OF order_refl]
    by (auto simp: newest_def RECEIPT_CAP_def drop_map drop_upt map_of_eq_None_iff)
qed

section \<open>Modes and profiles\<close>

definition rtl_mode_recognition_arducopter :: bool where
  "rtl_mode_recognition_arducopter =
     (let p = ArduCopter
      in is_rtl_mode p ARDUCOPTER_MODE_RTL \<and> is_rtl_mode p ARDUCOPTER_MODE_SMART_RTL
         \<and> is_rtl_mode p ARDUCOPTER_MODE_LAND \<and> \<not> is_rtl_mode p 0 \<and> \<not> is_rtl_mode p 4)"

lemma rtl_mode_recognition_arducopter_passes: "rtl_mode_recognition_arducopter"
  by (simp add: rtl_mode_recognition_arducopter_def mode_eval)

definition rtl_mode_recognition_px4 :: bool where
  "rtl_mode_recognition_px4 =
     (let p = Px4
      in is_rtl_mode p (px4_encode_mode PX4_MAIN_MODE_AUTO PX4_SUB_MODE_AUTO_RTL)
         \<and> is_rtl_mode p (px4_encode_mode PX4_MAIN_MODE_AUTO PX4_SUB_MODE_AUTO_LAND)
         \<and> is_rtl_mode p (px4_encode_mode PX4_MAIN_MODE_AUTO PX4_SUB_MODE_AUTO_RTGS)
         \<and> is_rtl_mode p (px4_encode_mode PX4_MAIN_MODE_AUTO PX4_SUB_MODE_AUTO_DESCEND)
         \<and> \<not> is_rtl_mode p (px4_encode_mode PX4_MAIN_MODE_AUTO 3)
         \<and> \<not> is_rtl_mode p (px4_encode_mode 3 PX4_SUB_MODE_AUTO_RTL)
         \<and> \<not> is_rtl_mode p 0 \<and> \<not> is_rtl_mode p ARDUCOPTER_MODE_RTL)"

lemma rtl_mode_recognition_px4_passes: "rtl_mode_recognition_px4"
  by code_simp

definition px4_split_mode_matches_real_sitl_wire_values :: bool where
  "px4_split_mode_matches_real_sitl_wire_values =
     (px4_split_mode 0x03040000 = (PX4_MAIN_MODE_AUTO, 3)
      \<and> px4_split_mode 0x02040000 = (PX4_MAIN_MODE_AUTO, 2)
      \<and> px4_split_mode 0x05040000 = (PX4_MAIN_MODE_AUTO, PX4_SUB_MODE_AUTO_RTL)
      \<and> is_rtl_mode Px4 0x05040000
      \<and> px4_encode_mode PX4_MAIN_MODE_AUTO PX4_SUB_MODE_AUTO_RTL = 0x05040000
      \<and> px4_split_mode 0x14040000 = (PX4_MAIN_MODE_AUTO, PX4_SUB_MODE_AUTO_DESCEND)
      \<and> is_rtl_mode Px4 0x14040000)"

lemma px4_split_mode_matches_real_sitl_wire_values_passes: "px4_split_mode_matches_real_sitl_wire_values"
  by code_simp

definition px4_mode_encoding_round_trips :: bool where
  "px4_mode_encoding_round_trips =
     list_all (\<lambda>(main, sub). px4_split_mode (px4_encode_mode main sub) = (main, sub))
       [(4, 5), (4, 6), (4, 7), (1, 0), (3, 0)]"

lemma px4_mode_encoding_round_trips_passes: "px4_mode_encoding_round_trips"
  by code_simp

definition vehicle_profile_parses_aliases :: bool where
  "vehicle_profile_parses_aliases =
     (list_all (\<lambda>s. profile_from_str s = Inr ArduCopter) [''ardu-copter'', ''ardu_copter'', ''arducopter'']
      \<and> list_all (\<lambda>s. profile_from_str s = Inr Px4) [''px4'', ''px4-copter'', ''px4-fixed-wing'', ''px4-rover'']
      \<and> isl (profile_from_str ''ardurover'') \<and> isl (profile_from_str ''paparazzi''))"

lemma vehicle_profile_parses_aliases_passes: "vehicle_profile_parses_aliases"
  by (simp add: vehicle_profile_parses_aliases_def profile_from_str_def)

definition expected_autopilot_byte_per_profile :: bool where
  "expected_autopilot_byte_per_profile =
     (expected_autopilot_byte ArduCopter = 3 \<and> expected_autopilot_byte Px4 = 12)"

lemma expected_autopilot_byte_per_profile_passes: "expected_autopilot_byte_per_profile"
  by code_simp

section \<open>The source lock\<close>

lemmas lock_eval = check_or_lock_source_def ipv4_def monitor_new_def Let_def upt_rec

definition source_lock_pins_first_caller :: bool where
  "source_lock_pins_first_caller =
     (let a = ipv4 192 168 1 10 14550; b = ipv4 192 168 1 11 14550;
          (r1, m) = check_or_lock_source a None monitor_new;
          (r2, m) = check_or_lock_source a None m;
          (r3, m) = check_or_lock_source b None m;
          (rs, m) = fold (\<lambda>_ (rs, m). let (r, m) = check_or_lock_source b None m in (r # rs, m)) [0..<5] ([], m);
          (r4, m) = check_or_lock_source a None m
      in r1 \<and> r2 \<and> \<not> r3 \<and> list_all Not rs \<and> r4)"

lemma source_lock_pins_first_caller_passes: "source_lock_pins_first_caller"
  by (simp add: source_lock_pins_first_caller_def lock_eval)

definition source_lock_rejects_same_ip_different_port :: bool where
  "source_lock_rejects_same_ip_different_port =
     (let a = ipv4 127 0 0 1 14550; b = ipv4 127 0 0 1 14551;
          (r1, m) = check_or_lock_source a None monitor_new;
          (r2, m) = check_or_lock_source b None m
      in r1 \<and> \<not> r2)"

lemma source_lock_rejects_same_ip_different_port_passes: "source_lock_rejects_same_ip_different_port"
  by (simp add: source_lock_rejects_same_ip_different_port_def lock_eval)

definition source_lock_rejects_wrong_port_at_bootstrap :: bool where
  "source_lock_rejects_wrong_port_at_bootstrap =
     (let attacker = ipv4 127 0 0 1 31337; autopilot = ipv4 127 0 0 1 14550;
          (r1, m1) = check_or_lock_source attacker (Some 14550) monitor_new;
          (r2, m2) = check_or_lock_source autopilot (Some 14550) m1;
          (r3, m3) = check_or_lock_source attacker (Some 14550) m2
      in \<not> r1 \<and> locked_source m1 = None \<and> r2 \<and> \<not> r3)"

lemma source_lock_rejects_wrong_port_at_bootstrap_passes: "source_lock_rejects_wrong_port_at_bootstrap"
  by (simp add: source_lock_rejects_wrong_port_at_bootstrap_def lock_eval)

definition source_lock_any_port_accepts_ephemeral_bridge :: bool where
  "source_lock_any_port_accepts_ephemeral_bridge =
     (let bridge = ipv4 127 0 0 1 54321; other = ipv4 127 0 0 1 54322;
          (r1, m) = check_or_lock_source bridge None monitor_new;
          (r2, m) = check_or_lock_source bridge None m;
          (r3, m) = check_or_lock_source other None m
      in r1 \<and> r2 \<and> \<not> r3)"

lemma source_lock_any_port_accepts_ephemeral_bridge_passes: "source_lock_any_port_accepts_ephemeral_bridge"
  by (simp add: source_lock_any_port_accepts_ephemeral_bridge_def lock_eval)

end
