(* ===== verification/Conformance_Link.thy ===== *)
theory Conformance_Link
  imports Conformance_Monitor "HOL-Library.Sublist"
begin

text \<open>
  The unit tests of \<open>src/src/hw/nmea_link.rs\<close>, run on the model: the framing tests on the codec
  and its driver \<open>feed\<close>, the policy tests on the link health. A test that loops is a fold over
  the ticks of its loop that carries the link and the assertions so far; the loops are proved
  by the invariant of the healthy link or tick by tick.
\<close>

section \<open>The texts of a diagnosis\<close>

definition advice :: "link_state \<Rightarrow> string" where
  "advice st = (case st of
     Healthy \<Rightarrow> ''link healthy''
   | NoBytes \<Rightarrow>
       ''no bytes at all on the port. Check power to the module, the TX/RX pair '' @
       ''(swapped TX/RX is the classic wiring error and looks exactly like this), '' @
       ''and that --gps-port names the right device''
   | NoSentences \<Rightarrow>
       ''bytes are arriving but none of them frame as NMEA sentences. Two usual '' @
       ''causes: (a) baud mismatch '' @ em_dash @ '' check --gps-baud against the module (9600 is '' @
       ''the common default, u-blox at higher rates often ship 38400); (b) the '' @
       ''module is emitting BINARY, e.g. a u-blox left in UBX-only mode, which '' @
       ''persists across power cycles '' @ em_dash @ '' re-enable NMEA output on it''
   | NoFix \<Rightarrow>
       ''NMEA sentences are arriving but carry no position fix. Normal for the '' @
       ''first 30-60 s of a cold start; past that, suspect the antenna (connected? '' @
       ''sky view?) or an indoor bench run''
   | FixesRejected \<Rightarrow>
       ''position fixes are decoding but EVERY one is being rejected by the '' @
       ''plausibility gate (non-finite or out-of-range coordinates). A live module '' @
       ''should never do this '' @ em_dash @ '' suspect a faulty receiver or a tampered stream'')"

definition contains :: "string \<Rightarrow> string \<Rightarrow> bool" where
  "contains s part = sublist part s"

section \<open>The codec\<close>

definition fresh :: "nmea_line_codec \<times> u8 list" where
  "fresh = (codec_new, [])"

definition splits_lines_and_strips_cr :: bool where
  "splits_lines_and_strips_cr =
     (let (out, _) = feed fresh (bytes ''$GPGGA,1'' @ [0x0D, 0x0A] @ bytes ''$GPRMC,2'' @ [0x0A])
      in out = [Line (bytes ''$GPGGA,1''), Line (bytes ''$GPRMC,2'')])"

lemma splits_lines_and_strips_cr_passes: "splits_lines_and_strips_cr"
  by code_simp

definition partial_line_is_buffered_until_terminated :: bool where
  "partial_line_is_buffered_until_terminated =
     (let (out1, st) = feed fresh (bytes ''$GPGGA,partial'');
          (out2, st) = feed st (bytes ''-rest'' @ [0x0A])
      in out1 = [] \<and> out2 = [Line (bytes ''$GPGGA,partial-rest'')])"

lemma partial_line_is_buffered_until_terminated_passes: "partial_line_is_buffered_until_terminated"
  by code_simp

definition counts_bytes_still_sitting_in_a_partial_line :: bool where
  "counts_bytes_still_sitting_in_a_partial_line =
     (let (out1, st1) = feed fresh (bytes ''$GPGGA,no-terminator'');
          (out2, st2) = feed st1 [0x0A]
      in out1 = [] \<and> bytes_seen (fst st1) = 20 \<and> bytes_seen (fst st2) = 21)"

lemma counts_bytes_still_sitting_in_a_partial_line_passes: "counts_bytes_still_sitting_in_a_partial_line"
  by code_simp

definition non_utf8_line_is_reported_not_silently_dropped :: bool where
  "non_utf8_line_is_reported_not_silently_dropped =
     (let (out, _) = feed fresh ([0xFF, 0xFE, 0x0A] @ bytes ''$ok'' @ [0x0A])
      in out = [NonUtf8 2, Line (bytes ''$ok'')])"

lemma non_utf8_line_is_reported_not_silently_dropped_passes: "non_utf8_line_is_reported_not_silently_dropped"
  by code_simp

definition overlong_buffer_is_discarded_and_framing_resyncs :: bool where
  "overlong_buffer_is_discarded_and_framing_resyncs =
     (let (out1, st) = feed fresh (replicate (NMEA_MAX_LINE_BYTES + 1) 0x78);
          (out2, st) = feed st (bytes ''$GPGGA,back'' @ [0x0A])
      in out1 = [Overlong (NMEA_MAX_LINE_BYTES + 1)] \<and> out2 = [Line (bytes ''$GPGGA,back'')])"

lemma overlong_buffer_is_discarded_and_framing_resyncs_passes: "overlong_buffer_is_discarded_and_framing_resyncs"
  by code_simp

definition eof_drains_complete_lines_then_drops_an_unterminated_tail :: bool where
  "eof_drains_complete_lines_then_drops_an_unterminated_tail =
     (let (r1, c, b) = decode_eof codec_new (bytes ''$GPGGA,done'' @ [0x0A] @ bytes ''$GPRMC,trunc'');
          (r2, c, b) = decode_eof c b
      in r1 = Some (Line (bytes ''$GPGGA,done'')) \<and> r2 = None \<and> b = [] \<and> bytes_seen c = 24)"

lemma eof_drains_complete_lines_then_drops_an_unterminated_tail_passes:
  "eof_drains_complete_lines_then_drops_an_unterminated_tail"
  by code_simp

fun flood_feed :: "(nmea_line_codec \<times> u8 list) \<times> bool \<Rightarrow> (nmea_line_codec \<times> u8 list) \<times> bool" where
  "flood_feed (st, ok) =
     (let (_, st) = feed st (replicate 256 0x78) in (st, ok \<and> length (snd st) \<le> NMEA_MAX_LINE_BYTES))"

definition buffer_never_grows_past_the_cap_under_a_newline_less_flood :: bool where
  "buffer_never_grows_past_the_cap_under_a_newline_less_flood =
     (let (st, ok) = (flood_feed ^^ 64) (fresh, True)
      in ok \<and> bytes_seen (fst st) = 64 * 256)"

lemma flood_step:
  assumes "link_inv st"
  shows "link_inv (snd (feed st ch))"
    and "bytes_seen (fst (snd (feed st ch))) = bytes_seen (fst st) + word_of_nat (length ch)"
  using assms decode_all_counts [of "fst st" "snd st @ ch"] by (auto simp: feed_def link_inv_def)

lemma flood_steps:
  "\<exists>st. (flood_feed ^^ n) (fresh, True) = (st, True) \<and> link_inv st \<and> bytes_seen (fst st) = word_of_nat n * 256"
proof (induction n)
  case 0
  then show ?case by (simp add: fresh_def link_inv_def codec_new_def)
next
  case (Suc n)
  then obtain st where "(flood_feed ^^ n) (fresh, True) = (st, True)" "link_inv st"
    "bytes_seen (fst st) = word_of_nat n * 256" by blast
  with flood_step [of st "replicate 256 0x78"] show ?case
    by (auto simp: case_prod_beta link_inv_def algebra_simps)
qed

lemma buffer_never_grows_past_the_cap_under_a_newline_less_flood_passes:
  "buffer_never_grows_past_the_cap_under_a_newline_less_flood"
  unfolding buffer_never_grows_past_the_cap_under_a_newline_less_flood_def using flood_steps [of 64] by auto

section \<open>The health policy\<close>

abbreviation secs :: "nat \<Rightarrow> duration" where "secs \<equiv> nanos_of_secs"

definition as_secs :: "duration \<Rightarrow> nat" where "as_secs d = d div 10 ^ 9"

abbreviation gga :: "string \<Rightarrow> nmea_line" where "gga s \<equiv> Line (bytes (''$GPGGA,'' @ s))"

definition healthy_tick :: "duration \<Rightarrow> u64 \<Rightarrow> link_health \<Rightarrow> link_health" where
  "healthy_tick t total_bytes h = on_fix t (on_event (gga ''x'') t (observe_bytes total_bytes t h))"

definition healthy_link_never_reports :: bool where
  "healthy_link_never_reports =
     snd (fold (\<lambda>i (h, ok). let (r, h) = poll (secs i) (healthy_tick (secs i) ((word_of_nat i + 1) * 100) h)
                             in (h, ok \<and> r = None))
            [0..<300] (link_health_new, True))"

lemma poll_healthy:
  "reported h = None \<Longrightarrow> poll t (healthy_tick t n h) = (None, healthy_tick t n h)"
  "reported h = Some s \<Longrightarrow> \<exists>c. poll t (healthy_tick t n h)
     = (Some (Recovered s c), (healthy_tick t n h)\<lparr>reported := None, last_report_at := None\<rparr>)"
  by (auto simp: poll_def classify_def recent_def ACTIVITY_WINDOW_def nanos_of_secs_def healthy_tick_def on_fix_def
      on_event_def observe_bytes_def Let_def)

lemma reported_healthy_tick [simp]: "reported (healthy_tick t n h) = reported h"
  by (simp add: healthy_tick_def on_fix_def on_event_def observe_bytes_def Let_def)

lemma healthy_link_never_reports_passes: "healthy_link_never_reports"
proof -
  have "(\<lambda>(h, ok). ok \<and> reported h = None)
      (fold (\<lambda>i (h, ok). let (r, h) = poll (secs i) (healthy_tick (secs i) ((word_of_nat i + 1) * 100) h)
                          in (h, ok \<and> r = None)) [0..<300] (link_health_new, True))"
    by (rule fold_preserves) (auto simp: link_health_new_def poll_healthy)
  then show ?thesis by (simp add: healthy_link_never_reports_def case_prod_beta)
qed

lemmas health_eval = poll_def classify_def recent_def on_event_def observe_bytes_def on_fix_rejected_def
  on_fix_def on_parse_error_def link_health_new_def link_counts_default_def
  ACTIVITY_WINDOW_def QUIET_LINK_GRACE_def NO_FIX_GRACE_def REPEAT_INTERVAL_def nanos_of_secs_def
  as_secs_def fixes_stopped_def Let_def

lemma dollar [simp]: "starts_with_dollar (bytes (CHR ''$'' # s))"
  by (simp add: starts_with_dollar_def bytes_def of_char_def)

definition dead_wire_is_diagnosed_as_no_bytes_after_the_grace :: bool where
  "dead_wire_is_diagnosed_as_no_bytes_after_the_grace =
     (let (r1, h) = poll (secs 9) link_health_new;
          (r2, h) = poll QUIET_LINK_GRACE h
      in r1 = None
         \<and> (case r2 of
              Some (Trouble d) \<Rightarrow> ld_state d = NoBytes \<and> lc_bytes (ld_counts d) = 0 \<and> \<not> fixes_stopped d
                \<and> contains (advice (ld_state d)) ''TX/RX''
            | _ \<Rightarrow> False))"

lemma sublist_at: "xs = p @ ys @ s \<Longrightarrow> sublist ys xs"
  by (auto simp: sublist_def)

lemma advice_texts:
  "contains (advice NoBytes) ''TX/RX''" "contains (advice NoSentences) ''UBX''"
  "contains (advice NoSentences) ''baud''" "contains (advice NoFix) ''antenna''"
  unfolding contains_def by code_simp+

lemma dead_wire_is_diagnosed_as_no_bytes_after_the_grace_passes: "dead_wire_is_diagnosed_as_no_bytes_after_the_grace"
  using advice_texts(1) by (simp add: dead_wire_is_diagnosed_as_no_bytes_after_the_grace_def health_eval)

fun binary_tick :: "nat \<Rightarrow> link_health \<times> u64 \<Rightarrow> link_health \<times> u64" where
  "binary_tick i (h, seen) =
     (let seen = seen + 600
      in (on_event (Overlong 600) (secs i) (observe_bytes seen (secs i) h), seen))"

definition binary_module_is_diagnosed_as_no_sentences_not_no_bytes :: bool where
  "binary_module_is_diagnosed_as_no_sentences_not_no_bytes =
     (let (h, seen) = fold binary_tick [0..<as_secs QUIET_LINK_GRACE + 1] (link_health_new, 0);
          (r, h) = poll QUIET_LINK_GRACE h
      in case r of
           Some (Trouble d) \<Rightarrow> ld_state d = NoSentences \<and> overlong_discards (ld_counts d) > 0
             \<and> contains (advice (ld_state d)) ''UBX'' \<and> contains (advice (ld_state d)) ''baud''
         | _ \<Rightarrow> False)"

lemma binary_module_is_diagnosed_as_no_sentences_not_no_bytes_passes:
  "binary_module_is_diagnosed_as_no_sentences_not_no_bytes"
  using advice_texts(2,3)
  by (simp add: binary_module_is_diagnosed_as_no_sentences_not_no_bytes_def health_eval upt_conv_Cons)

definition baud_tick :: "nat \<Rightarrow> link_health \<Rightarrow> link_health" where
  "baud_tick i h = on_event (NonUtf8 40) (secs i) (observe_bytes ((word_of_nat i + 1) * 200) (secs i) h)"

definition baud_mismatch_shows_up_as_non_utf8_evidence :: bool where
  "baud_mismatch_shows_up_as_non_utf8_evidence =
     (let (r, h) = poll QUIET_LINK_GRACE (fold baud_tick [0..<as_secs QUIET_LINK_GRACE + 1] link_health_new)
      in case r of
           Some (Trouble d) \<Rightarrow> ld_state d = NoSentences \<and> non_utf8_lines (ld_counts d) > 0
         | _ \<Rightarrow> False)"

lemma baud_mismatch_shows_up_as_non_utf8_evidence_passes: "baud_mismatch_shows_up_as_non_utf8_evidence"
  by (simp add: baud_mismatch_shows_up_as_non_utf8_evidence_def baud_tick_def health_eval upt_conv_Cons)

text \<open>The closure \<open>check\<close> of the cold-start test.\<close>

definition cold_check :: "nat \<Rightarrow> link_health \<Rightarrow> link_report option \<times> link_health" where
  "cold_check t h =
     poll (secs t) (on_event (gga ''no-fix'') (secs t) (observe_bytes (word_of_nat t * 500 + 500) (secs t) h))"

definition cold_start_is_tolerated_then_diagnosed_as_no_fix :: bool where
  "cold_start_is_tolerated_then_diagnosed_as_no_fix =
     (let (h, ok) = fold (\<lambda>t (h, ok). let (r, h) = cold_check t h in (h, ok \<and> r = None))
                      [0..<as_secs NO_FIX_GRACE] (link_health_new, True);
          (r, h) = cold_check (as_secs NO_FIX_GRACE) h
      in ok \<and> (case r of
                 Some (Trouble d) \<Rightarrow> ld_state d = NoFix \<and> \<not> fixes_stopped d \<and> contains (advice (ld_state d)) ''antenna''
               | _ \<Rightarrow> False))"

definition acquiring :: "link_health \<Rightarrow> bool" where
  "acquiring h \<longleftrightarrow> last_fix_at h = None \<and> rejected_since_fix h = 0 \<and> reported h = None
     \<and> last_report_at h = None \<and> lc_fixes (lh_counts h) = 0"

lemma cold_check_quiet:
  "acquiring h \<Longrightarrow> t < 60 \<Longrightarrow> fst (cold_check t h) = None \<and> acquiring (snd (cold_check t h))"
  by (simp add: acquiring_def cold_check_def health_eval)

lemma cold_check_grace:
  "acquiring h \<Longrightarrow> \<exists>d h'. cold_check 60 h = (Some (Trouble d), h') \<and> ld_state d = NoFix \<and> \<not> fixes_stopped d"
  by (simp add: acquiring_def cold_check_def health_eval)

lemma cold_start_is_tolerated_then_diagnosed_as_no_fix_passes: "cold_start_is_tolerated_then_diagnosed_as_no_fix"
proof -
  have "(\<lambda>(h, ok). ok \<and> acquiring h)
      (fold (\<lambda>t (h, ok). let (r, h) = cold_check t h in (h, ok \<and> r = None)) [0..<60] (link_health_new, True))"
    by (rule fold_preserves)
      (use cold_check_quiet in \<open>force simp: acquiring_def link_health_new_def link_counts_default_def Let_def split: prod.splits\<close>)+
  moreover have "as_secs NO_FIX_GRACE = 60" by (simp add: health_eval)
  ultimately show ?thesis
    using advice_texts(4)
    by (auto simp: cold_start_is_tolerated_then_diagnosed_as_no_fix_def dest!: cold_check_grace split: prod.splits)
qed

definition reject_tick :: "nat \<Rightarrow> link_health \<Rightarrow> link_health" where
  "reject_tick i h =
     on_fix_rejected (on_event (gga ''x'') (secs i) (observe_bytes ((word_of_nat i + 1) * 500) (secs i) h))"

definition gate_rejecting_everything_is_reported_promptly :: bool where
  "gate_rejecting_everything_is_reported_promptly =
     (let (r, h) = poll QUIET_LINK_GRACE (fold reject_tick [0..<as_secs QUIET_LINK_GRACE + 1] link_health_new)
      in case r of
           Some (Trouble d) \<Rightarrow> ld_state d = FixesRejected
             \<and> rejected_fixes (ld_counts d) = word_of_nat (as_secs QUIET_LINK_GRACE + 1)
         | _ \<Rightarrow> False)"

lemma gate_rejecting_everything_is_reported_promptly_passes: "gate_rejecting_everything_is_reported_promptly"
  by (simp add: gate_rejecting_everything_is_reported_promptly_def reject_tick_def health_eval upt_conv_Cons)

definition silent_tick :: "nat \<Rightarrow> link_health \<Rightarrow> link_health" where
  "silent_tick i h = on_event (gga ''x'') (secs i) (observe_bytes (100 + word_of_nat i * 100) (secs i) h)"

definition a_fix_clears_stale_rejections :: bool where
  "a_fix_clears_stale_rejections =
     (let h = on_fix (secs 1) (on_fix_rejected (on_event (gga ''x'') (secs 0) (observe_bytes 100 (secs 0) link_health_new)));
          h = fold silent_tick [2..<as_secs NO_FIX_GRACE + 2] h;
          (r, h) = poll (secs (as_secs NO_FIX_GRACE + 1)) h
      in case r of
           Some (Trouble d) \<Rightarrow> ld_state d = NoFix \<and> fixes_stopped d
         | _ \<Rightarrow> False)"

definition stopped_at_one :: "link_health \<Rightarrow> bool" where
  "stopped_at_one h \<longleftrightarrow> last_fix_at h = Some (secs 1) \<and> rejected_since_fix h = 0 \<and> last_report_at h = None
     \<and> lc_fixes (lh_counts h) = 1"

lemma stopped_silent_tick: "stopped_at_one h \<Longrightarrow> stopped_at_one (silent_tick i h)"
  by (simp add: stopped_at_one_def silent_tick_def health_eval)

lemma stopped_poll:
  "stopped_at_one h \<Longrightarrow> \<exists>d h'. poll (secs 61) (silent_tick 61 h) = (Some (Trouble d), h') \<and> ld_state d = NoFix \<and> fixes_stopped d"
  by (simp add: stopped_at_one_def silent_tick_def health_eval)

lemma a_fix_clears_stale_rejections_passes: "a_fix_clears_stale_rejections"
proof -
  define h where "h = on_fix (secs 1) (on_fix_rejected (on_event (gga ''x'') (secs 0) (observe_bytes 100 (secs 0) link_health_new)))"
  define h2 where "h2 = fold silent_tick [2..<61] h"
  have "stopped_at_one h" by (simp add: h_def stopped_at_one_def health_eval)
  then have "stopped_at_one h2" unfolding h2_def by (rule fold_preserves) (rule stopped_silent_tick)
  from stopped_poll [OF this] obtain d h' where d: "ld_state d = NoFix \<and> fixes_stopped d"
    and p: "poll (secs 61) (silent_tick 61 h2) = (Some (Trouble d), h')" by blast
  have "[2..<62] = [2..<61] @ [61 :: nat]" by simp
  moreover have "as_secs NO_FIX_GRACE + 2 = 62" "as_secs NO_FIX_GRACE + 1 = 61" by (simp_all add: health_eval)
  ultimately have "fold silent_tick [2..<as_secs NO_FIX_GRACE + 2] h = silent_tick 61 h2"
    and "secs (as_secs NO_FIX_GRACE + 1) = secs 61"
    by (simp_all only: fold_append fold.simps comp_apply id_apply h2_def)
  then show ?thesis
    by (simp only: a_fix_clears_stale_rejections_def h_def [symmetric] Let_def p case_prod_conv d
        option.case link_report.case simp_thms)
qed

definition is_trouble :: "link_report option \<Rightarrow> bool" where
  "is_trouble r = (case r of Some (Trouble _) \<Rightarrow> True | _ \<Rightarrow> False)"

text \<open>The loop moves the clock on before each poll, so its \<open>i\<close>-th poll is \<open>i + 1\<close> seconds after the report.\<close>

definition repeats_are_rate_limited_then_recovery_closes_the_episode :: bool where
  "repeats_are_rate_limited_then_recovery_closes_the_episode =
     (let (r1, h) = poll QUIET_LINK_GRACE link_health_new;
          (h, quiet) = fold (\<lambda>i (h, ok). let (r, h) = poll (QUIET_LINK_GRACE + secs (i + 1)) h in (h, ok \<and> r = None))
                         [0..<as_secs REPEAT_INTERVAL - 1] (h, True);
          t = QUIET_LINK_GRACE + secs (as_secs REPEAT_INTERVAL);
          (r2, h) = poll t h;
          t = t + secs 1;
          (r3, h) = poll t (healthy_tick t 10000 h);
          t = t + secs 1;
          (r4, h) = poll t (healthy_tick t 11000 h)
      in is_trouble r1 \<and> quiet \<and> is_trouble r2
         \<and> (case r3 of Some (Recovered was _) \<Rightarrow> was = NoBytes | _ \<Rightarrow> False)
         \<and> r4 = None)"

definition reported_dead :: "duration \<Rightarrow> link_health" where
  "reported_dead t = link_health_new\<lparr>last_report_at := Some t, reported := Some NoBytes\<rparr>"

lemma dead_polls:
  "\<exists>d. poll QUIET_LINK_GRACE link_health_new = (Some (Trouble d), reported_dead QUIET_LINK_GRACE)"
  "i < 59 \<Longrightarrow> poll (QUIET_LINK_GRACE + secs (Suc i)) (reported_dead QUIET_LINK_GRACE) = (None, reported_dead QUIET_LINK_GRACE)"
  "\<exists>d. poll (QUIET_LINK_GRACE + secs 60) (reported_dead QUIET_LINK_GRACE)
     = (Some (Trouble d), reported_dead (QUIET_LINK_GRACE + secs 60))"
  by (simp_all add: reported_dead_def health_eval)

lemma quiet_polls:
  "n \<le> 59 \<Longrightarrow> fold (\<lambda>i (h, ok). let (r, h) = poll (QUIET_LINK_GRACE + secs (i + 1)) h in (h, ok \<and> r = None)) [0..<n]
     (reported_dead QUIET_LINK_GRACE, True) = (reported_dead QUIET_LINK_GRACE, True)"
  by (induction n) (simp_all add: dead_polls)

lemma poll_recovered:
  "reported (reported_dead u) = Some NoBytes"
  "\<exists>c h'. poll t (healthy_tick t n (reported_dead u)) = (Some (Recovered NoBytes c), h') \<and> reported h' = None"
  using poll_healthy(2) [of "reported_dead u" NoBytes t n] by (auto simp: reported_dead_def)

lemma repeats_are_rate_limited_then_recovery_closes_the_episode_passes:
  "repeats_are_rate_limited_then_recovery_closes_the_episode"
proof -
  have g: "as_secs REPEAT_INTERVAL = 60" by (simp add: health_eval)
  obtain d1 where 1: "poll QUIET_LINK_GRACE link_health_new = (Some (Trouble d1), reported_dead QUIET_LINK_GRACE)"
    using dead_polls(1) by blast
  obtain d2 where 2: "poll (QUIET_LINK_GRACE + secs 60) (reported_dead QUIET_LINK_GRACE)
     = (Some (Trouble d2), reported_dead (QUIET_LINK_GRACE + secs 60))"
    using dead_polls(3) by blast
  let ?t = "QUIET_LINK_GRACE + secs 60 + secs 1"
  obtain c h where 3: "poll ?t (healthy_tick ?t 10000 (reported_dead (QUIET_LINK_GRACE + secs 60)))
      = (Some (Recovered NoBytes c), h)" "reported h = None"
    using poll_recovered(2) by blast
  show ?thesis
    using quiet_polls [of 59]
    by (simp add: repeats_are_rate_limited_then_recovery_closes_the_episode_def g 1 2 3 poll_healthy(1) is_trouble_def Let_def del: One_nat_def)
qed

definition a_new_episode_reports_without_waiting_out_the_old_repeat_timer :: bool where
  "a_new_episode_reports_without_waiting_out_the_old_repeat_timer =
     (let (r1, h) = poll QUIET_LINK_GRACE link_health_new;
          t = QUIET_LINK_GRACE + secs 1;
          (r2, h) = poll t (healthy_tick t 5000 h);
          (r3, h) = poll (t + QUIET_LINK_GRACE) h
      in is_trouble r1
         \<and> (case r2 of Some (Recovered _ _) \<Rightarrow> True | _ \<Rightarrow> False)
         \<and> (case r3 of Some (Trouble d) \<Rightarrow> ld_state d = NoBytes \<and> fixes_stopped d | _ \<Rightarrow> False))"

lemma a_new_episode_reports_without_waiting_out_the_old_repeat_timer_passes:
  "a_new_episode_reports_without_waiting_out_the_old_repeat_timer"
  by (simp add: a_new_episode_reports_without_waiting_out_the_old_repeat_timer_def is_trouble_def healthy_tick_def health_eval)

end
