(* ===== verification/Conformance_Mav.thy ===== *)
theory Conformance_Mav
  imports Mav_Link Conformance_Detect Conformance_Monitor
begin

text \<open>
  The unit tests of \<open>src/src/mav/mod.rs\<close>, run on the model: the plausibility gates, the
  conversion of messages with their sentinels and scalings, the magic byte and the clock
  aligner. The time of a test's own \<open>Instant::now()\<close> is a parameter.
\<close>

section \<open>Plausibility\<close>

definition fix_at :: "fl \<Rightarrow> fl \<Rightarrow> fl \<Rightarrow> gps_fix" where
  "fix_at la lo al = \<lparr>fix_t = at_mono 0, lat_deg = la, lon_deg = lo, alt_m = al, speed_mps = Some (FNum 5),
     course_deg = Some (FNum 90), hdop = Some (FNum 1), sats = Some 10\<rparr>"

definition rejects_nan_lat :: bool where
  "rejects_nan_lat = (\<not> gps_fix_is_plausible (fix_at FNaN (FNum 0) (FNum 0)))"

definition rejects_inf_alt :: bool where
  "rejects_inf_alt = (\<not> gps_fix_is_plausible (fix_at (FNum 0) (FNum 0) FPInf))"

definition rejects_out_of_range_lat :: bool where
  "rejects_out_of_range_lat = (\<not> gps_fix_is_plausible (fix_at (FNum 95) (FNum 0) (FNum 0)))"

definition rejects_out_of_range_lon :: bool where
  "rejects_out_of_range_lon = (\<not> gps_fix_is_plausible (fix_at (FNum 0) (FNum 200) (FNum 0)))"

definition rejects_absurd_altitude :: bool where
  "rejects_absurd_altitude = (\<not> gps_fix_is_plausible (fix_at (FNum 0) (FNum 0) (FNum 200000)))"

definition accepts_normal_fix :: bool where
  "accepts_normal_fix = gps_fix_is_plausible (fix_at (FNum 40) (FNum (- 100)) (FNum 500))"

definition imu_xg :: "fl \<Rightarrow> fl \<Rightarrow> imu_sample" where
  "imu_xg ax gx = \<lparr>imu_t = at_mono 0,
     accel_mps2 = \<lparr>v0 = ax, v1 = FNum 0, v2 = lit B32 (981 / 100)\<rparr>,
     gyro_rps = \<lparr>v0 = gx, v1 = FNum 0, v2 = FNum 0\<rparr>\<rparr>"

definition rejects_nan_accel :: bool where
  "rejects_nan_accel = (\<not> imu_sample_is_plausible (imu_xg FNaN (FNum 0)))"

definition rejects_saturated_accel :: bool where
  "rejects_saturated_accel = (\<not> imu_sample_is_plausible (imu_xg (FNum 300) (FNum 0)))"

definition rejects_saturated_gyro :: bool where
  "rejects_saturated_gyro = (\<not> imu_sample_is_plausible (imu_xg (FNum 0) (FNum 40)))"

definition accepts_normal_imu :: bool where
  "accepts_normal_imu = imu_sample_is_plausible (imu_xg (lit B32 (5 / 10)) (lit B32 (1 / 10)))"

lemma plausibility_tests_pass:
  "rejects_nan_lat" "rejects_inf_alt" "rejects_out_of_range_lat" "rejects_out_of_range_lon" "rejects_absurd_altitude"
  "accepts_normal_fix" "rejects_nan_accel" "rejects_saturated_accel" "rejects_saturated_gyro" "accepts_normal_imu"
  by (simp_all add: rejects_nan_lat_def rejects_inf_alt_def rejects_out_of_range_lat_def rejects_out_of_range_lon_def
      rejects_absurd_altitude_def accepts_normal_fix_def rejects_nan_accel_def rejects_saturated_accel_def
      rejects_saturated_gyro_def accepts_normal_imu_def fix_at_def imu_xg_def gps_fix_is_plausible_def
      imu_sample_is_plausible_def axis_plausible_def float_eval)

section \<open>Sentinels\<close>

definition raw_int :: "u16 \<Rightarrow> u16 \<Rightarrow> u16 \<Rightarrow> u8 \<Rightarrow> mav_msg" where
  "raw_int vel cog eph sn = MsgGpsRawInt \<lparr>gr_time_usec = 0, gr_fix_type = 3, gr_lat = 400000000,
     gr_lon = - 1000000000, gr_alt = 500000, gr_eph = eph, gr_vel = vel, gr_cog = cog, gr_sats = sn\<rparr>"

definition fix_with :: "mav_msg \<Rightarrow> (gps_fix \<Rightarrow> bool) \<Rightarrow> bool" where
  "fix_with m p = (case gps_from_msg 0 m of None \<Rightarrow> False | Some f \<Rightarrow> p f)"

definition gps_from_msg_translates_velocity_sentinel_to_none :: bool where
  "gps_from_msg_translates_velocity_sentinel_to_none = fix_with (raw_int (- 1) 9000 100 10) (\<lambda>f. speed_mps f = None)"

definition gps_from_msg_translates_course_sentinel_to_none :: bool where
  "gps_from_msg_translates_course_sentinel_to_none = fix_with (raw_int 500 (- 1) 100 10) (\<lambda>f. course_deg f = None)"

definition gps_from_msg_rejects_out_of_range_course_as_none :: bool where
  "gps_from_msg_rejects_out_of_range_course_as_none = fix_with (raw_int 500 50000 100 10) (\<lambda>f. course_deg f = None)"

definition gps_from_msg_translates_hdop_sentinel_to_none :: bool where
  "gps_from_msg_translates_hdop_sentinel_to_none = fix_with (raw_int 500 9000 (- 1) 10) (\<lambda>f. hdop f = None)"

definition gps_from_msg_translates_sats_sentinel_to_none :: bool where
  "gps_from_msg_translates_sats_sentinel_to_none = fix_with (raw_int 500 9000 100 (- 1)) (\<lambda>f. sats f = None)"

lemmas msg_eval = fix_with_def raw_int_def gps_from_msg_def GPS_U16_UNKNOWN_def GPS_U8_UNKNOWN_def u16_f_def i32_f64_def

lemma sentinel_tests_pass:
  "gps_from_msg_translates_velocity_sentinel_to_none" "gps_from_msg_translates_course_sentinel_to_none"
  "gps_from_msg_rejects_out_of_range_course_as_none" "gps_from_msg_translates_hdop_sentinel_to_none"
  "gps_from_msg_translates_sats_sentinel_to_none"
  by (simp_all add: gps_from_msg_translates_velocity_sentinel_to_none_def gps_from_msg_translates_course_sentinel_to_none_def
      gps_from_msg_rejects_out_of_range_course_as_none_def gps_from_msg_translates_hdop_sentinel_to_none_def
      gps_from_msg_translates_sats_sentinel_to_none_def msg_eval)

text \<open>\<open>x.unwrap()\<close> compared with a tolerance, in the type of the field.\<close>

definition some_close :: "format \<Rightarrow> fl \<Rightarrow> fl option \<Rightarrow> fl \<Rightarrow> bool" where
  "some_close F eps a b = (case a of None \<Rightarrow> False | Some x \<Rightarrow> flt (fabs (fsub F x b)) eps)"

definition gps_from_msg_passes_real_values_through_unchanged :: bool where
  "gps_from_msg_passes_real_values_through_unchanged =
     fix_with (raw_int 523 9012 145 8) (\<lambda>f.
       some_close B64 (lit B64 (1 / 10 ^ 9)) (speed_mps f) (lit B64 (523 / 100))
       \<and> some_close B64 (lit B64 (1 / 10 ^ 9)) (course_deg f) (lit B64 (9012 / 100))
       \<and> some_close B32 (lit B32 (1 / 10 ^ 3)) (hdop f) (lit B32 (145 / 100))
       \<and> sats f = Some 8)"

lemma gps_from_msg_passes_real_values_through_unchanged_passes: "gps_from_msg_passes_real_values_through_unchanged"
  by (simp add: gps_from_msg_passes_real_values_through_unchanged_def msg_eval some_close_def float_eval)

section \<open>Inertial messages and the magic byte\<close>

definition near :: "fl \<Rightarrow> fl \<Rightarrow> fl \<Rightarrow> bool" where
  "near eps a b = flt (fabs (fsub B32 a b)) eps"

definition imu_from_scaled_imu_converts_units :: bool where
  "imu_from_scaled_imu_converts_units =
     (case imu_from_msg 0 (MsgScaledImu \<lparr>si_time_boot_ms = 0, si_xacc = 1000, si_yacc = 0, si_zacc = - 1000,
        si_xgyro = 500, si_ygyro = - 250, si_zgyro = 0\<rparr>) of
        None \<Rightarrow> False
      | Some s \<Rightarrow>
          near (lit B32 (1 / 10 ^ 3)) (v0 (accel_mps2 s)) (lit B32 (980665 / 100000))
          \<and> flt (fabs (v1 (accel_mps2 s))) (lit B32 (1 / 10 ^ 6))
          \<and> flt (fabs (fadd B32 (v2 (accel_mps2 s)) (lit B32 (980665 / 100000)))) (lit B32 (1 / 10 ^ 3))
          \<and> near (lit B32 (1 / 10 ^ 6)) (v0 (gyro_rps s)) (lit B32 (5 / 10))
          \<and> flt (fabs (fadd B32 (v1 (gyro_rps s)) (lit B32 (25 / 100)))) (lit B32 (1 / 10 ^ 6)))"

lemma sint_literals: "sint (1000 :: u16) = 1000" "sint (0 :: u16) = 0" "sint (- 1000 :: u16) = - 1000"
  "sint (500 :: u16) = 500" "sint (- 250 :: u16) = - 250"
  by code_simp+

lemma imu_from_scaled_imu_converts_units_passes: "imu_from_scaled_imu_converts_units"
  by (simp add: imu_from_scaled_imu_converts_units_def imu_from_msg_def scaled_sample_def mg_to_mps2_def mrad_to_rps_def
      i16_f32_def G_MPS2_def sint_literals near_def float_eval)

definition mavlink_version_picked_from_magic_byte :: bool where
  "mavlink_version_picked_from_magic_byte =
     (mavlink_version_of 0xFD = V2 \<and> mavlink_version_of 0xFE = V1
      \<and> mavlink_version_of 0x00 = V2 \<and> mavlink_version_of 0xAB = V2)"

lemma mavlink_version_picked_from_magic_byte_passes: "mavlink_version_picked_from_magic_byte"
  by (simp add: mavlink_version_picked_from_magic_byte_def mavlink_version_of_def)


definition imu_from_highres_imu_is_direct :: bool where
  "imu_from_highres_imu_is_direct =
     (case imu_from_msg 0 (MsgHighresImu \<lparr>hr_time_usec = 0,
        hr_acc = vec3_zero\<lparr>v0 := lit B32 (15 / 10), v2 := lit B32 (980665 / 100000)\<rparr>,
        hr_gyro = vec3_zero\<lparr>v1 := lit B32 (1 / 10)\<rparr>\<rparr>) of
        None \<Rightarrow> False
      | Some s \<Rightarrow> near (lit B32 (1 / 10 ^ 6)) (v0 (accel_mps2 s)) (lit B32 (15 / 10))
          \<and> near (lit B32 (1 / 10 ^ 5)) (v2 (accel_mps2 s)) (lit B32 (980665 / 100000))
          \<and> near (lit B32 (1 / 10 ^ 6)) (v1 (gyro_rps s)) (lit B32 (1 / 10)))"

lemma imu_from_highres_imu_is_direct_passes: "imu_from_highres_imu_is_direct"
  by (simp add: imu_from_highres_imu_is_direct_def imu_from_msg_def vec3_zero_def near_def float_eval)

section \<open>The clock aligner\<close>

definition aligner_first_message_uses_arrival_and_anchors :: "instant \<Rightarrow> bool" where
  "aligner_first_message_uses_arrival_and_anchors t0 = (fst (align (Some 1000000) t0 None) = t0)"

definition aligner_removes_arrival_jitter :: "instant \<Rightarrow> bool" where
  "aligner_removes_arrival_jitter t0 =
     (let (a1, a) = align (Some 1000000) t0 None;
          arrival = t0 + millis 130;
          (aligned, a) = align (Some 1100000) arrival a
      in a1 = t0 \<and> aligned = t0 + millis 100 \<and> aligned \<noteq> arrival)"

definition aligner_tolerates_latency_spike_within_bound :: "instant \<Rightarrow> bool" where
  "aligner_tolerates_latency_spike_within_bound t0 =
     (let (_, a) = align (Some 1000000) t0 None;
          (aligned, a) = align (Some 1500000) (t0 + millis 1500) a
      in aligned = t0 + millis 500)"

definition aligner_missing_sensor_ts_uses_arrival_without_disturbing_anchor :: "instant \<Rightarrow> bool" where
  "aligner_missing_sensor_ts_uses_arrival_without_disturbing_anchor t0 =
     (let (_, a) = align (Some 1000000) t0 None;
          arrival = t0 + millis 100;
          (a2, a) = align None arrival a;
          (aligned, a) = align (Some 1200000) (t0 + millis 999) a
      in a2 = arrival \<and> aligned = t0 + millis 200)"

definition aligner_re_anchors_on_sensor_regression :: "instant \<Rightarrow> bool" where
  "aligner_re_anchors_on_sensor_regression t0 =
     (let (_, a) = align (Some 5000000) t0 None;
          arrival = t0 + millis 100;
          (a2, a) = align (Some 1000000) arrival a;
          (aligned, a) = align (Some 1050000) (t0 + millis 900) a
      in a2 = arrival \<and> aligned = arrival + millis 50)"

definition aligner_re_anchors_on_implausible_skew :: "instant \<Rightarrow> bool" where
  "aligner_re_anchors_on_implausible_skew t0 =
     (let (_, a) = align (Some 1000000) t0 None;
          arrival = t0 + millis 100
      in fst (align (Some 11000000) arrival a) = arrival)"

definition aligner_huge_sensor_timestamp_does_not_panic :: "instant \<Rightarrow> instant \<Rightarrow> bool" where
  "aligner_huge_sensor_timestamp_does_not_panic t0 s0 =
     (let (_, a) = align (Some 1000) t0 None;
          arrival = t0 + millis 50;
          (a2, a) = align (Some (- 1)) arrival a;
          (_, b) = align (Some 10000000) s0 None;
          (aligned, b) = align (Some 11000000) (s0 + millis 1000) b
      in a2 = arrival \<and> aligned = s0 + millis 1000)"

lemma aligner_tests_pass:
  "aligner_first_message_uses_arrival_and_anchors t0" "aligner_removes_arrival_jitter t0"
  "aligner_tolerates_latency_spike_within_bound t0"
  "aligner_missing_sensor_ts_uses_arrival_without_disturbing_anchor t0"
  "aligner_re_anchors_on_sensor_regression t0" "aligner_re_anchors_on_implausible_skew t0"
  "aligner_huge_sensor_timestamp_does_not_panic t0 s0"
  by (simp_all add: aligner_first_message_uses_arrival_and_anchors_def aligner_removes_arrival_jitter_def
      aligner_tolerates_latency_spike_within_bound_def aligner_missing_sensor_ts_uses_arrival_without_disturbing_anchor_def
      aligner_re_anchors_on_sensor_regression_def aligner_re_anchors_on_implausible_skew_def
      aligner_huge_sensor_timestamp_does_not_panic_def align_def from_micros_def saturating_duration_since_def
      CLOCK_ALIGN_MAX_SKEW_def millis_def Let_def)

definition gps_sensor_us_reads_time_usec :: bool where
  "gps_sensor_us_reads_time_usec =
     (let g = \<lparr>gr_time_usec = 7000000, gr_fix_type = 0, gr_lat = 0, gr_lon = 0, gr_alt = 0, gr_eph = 0, gr_vel = 0,
               gr_cog = 0, gr_sats = 0\<rparr>
      in gps_sensor_us (MsgGpsRawInt g) = Some 7000000
         \<and> gps_sensor_us (MsgGpsRawInt (g\<lparr>gr_time_usec := 0\<rparr>)) = None)"

definition imu_sensor_us_reads_per_message_type :: bool where
  "imu_sensor_us_reads_per_message_type =
     (let si = \<lparr>si_time_boot_ms = 5000, si_xacc = 0, si_yacc = 0, si_zacc = 0, si_xgyro = 0, si_ygyro = 0, si_zgyro = 0\<rparr>
      in imu_sensor_us (MsgHighresImu \<lparr>hr_time_usec = 4200000, hr_acc = vec3_zero, hr_gyro = vec3_zero\<rparr>) = Some 4200000
         \<and> imu_sensor_us (MsgScaledImu si) = Some 5000000
         \<and> imu_sensor_us (MsgScaledImu (si\<lparr>si_time_boot_ms := 0\<rparr>)) = None)"

lemma sensor_us_tests_pass: "gps_sensor_us_reads_time_usec" "imu_sensor_us_reads_per_message_type"
  by (simp_all add: gps_sensor_us_reads_time_usec_def imu_sensor_us_reads_per_message_type_def gps_sensor_us_def
      imu_sensor_us_def boot_ms_us_def)

end
