(* ===== verification/Conformance_Hw.thy ===== *)
theory Conformance_Hw
  imports Imu_Driver Conformance_Detect Conformance_Link
begin

text \<open>
  The unit tests of \<open>src/src/hw/mpu6050.rs\<close> and \<open>src/src/hw/axis_map.rs\<close>, run on the model.
  The loops of the read-health tests, up to a thousand reads, follow from the exact effect of one
  read on a state given by its streak, its repeat count and its last frame.
\<close>

section \<open>The MPU-6050\<close>

definition chip_frame :: "u8 \<Rightarrow> u8 list" where
  "chip_frame seed = (replicate RAW_FRAME_LEN 0)[0 := seed, 7 := seed + 1]"

lemma chip_frame_inj: "chip_frame a = chip_frame b \<longleftrightarrow> a = b"
  by (simp add: chip_frame_def RAW_FRAME_LEN_def replicate_literal)

definition who_am_i_accepts_mpu6050 :: bool where
  "who_am_i_accepts_mpu6050 = (\<not> isl (check_who_am_i 0x68))"

definition who_am_i_rejects_substitutes_with_actionable_message :: bool where
  "who_am_i_rejects_substitutes_with_actionable_message =
     ((case check_who_am_i 0x71 of
         Inl r \<Rightarrow> contains (who_am_i_text r) ''0x71'' \<and> contains (who_am_i_text r) ''MPU-9250''
       | Inr _ \<Rightarrow> False)
      \<and> isl (check_who_am_i 0x70) \<and> isl (check_who_am_i 0x12) \<and> isl (check_who_am_i 0x00))"

lemma who_am_i_accepts_mpu6050_passes: "who_am_i_accepts_mpu6050"
  by code_simp

lemma who_am_i_rejects_substitutes_with_actionable_message_passes: "who_am_i_rejects_substitutes_with_actionable_message"
  unfolding who_am_i_rejects_substitutes_with_actionable_message_def contains_def by code_simp

definition sample_decode_known_bytes :: bool where
  "sample_decode_known_bytes =
     (let raw = (replicate RAW_FRAME_LEN 0)[0 := 0x40, 1 := 0x00, 12 := 0x00, 13 := 0x83];
          s = sample_from_raw 0 raw axis_identity
      in flt (fabs (fsub B32 (v0 (accel_mps2 s)) G_TO_MPS2)) (lit B32 (1 / 10 ^ 4))
         \<and> feq (v1 (accel_mps2 s)) (FNum 0) \<and> feq (v2 (accel_mps2 s)) (FNum 0)
         \<and> flt (fabs (fsub B32 (v2 (gyro_rps s)) (to_radians B32 (FNum 1)))) (lit B32 (1 / 10 ^ 6)))"

lemma be_literals:
  "signed (from_be_bytes 0x40 0) = (16384 :: rat)" "signed (from_be_bytes 0 0x83) = (131 :: rat)"
  "signed (from_be_bytes 0 0) = (0 :: rat)"
proof -
  have "sint (from_be_bytes 0x40 0) = 16384" "sint (from_be_bytes 0 0x83) = 131" "sint (from_be_bytes 0 0) = 0"
    by code_simp+
  then have "(of_int (sint (from_be_bytes 0x40 0)) :: rat) = of_int 16384"
    "(of_int (sint (from_be_bytes 0 0x83)) :: rat) = of_int 131" "(of_int (sint (from_be_bytes 0 0)) :: rat) = of_int 0"
    by (simp_all only:)
  then show "signed (from_be_bytes 0x40 0) = (16384 :: rat)" "signed (from_be_bytes 0 0x83) = (131 :: rat)"
    "signed (from_be_bytes 0 0) = (0 :: rat)"
    by simp_all
qed

lemma sample_decode_known_bytes_passes: "sample_decode_known_bytes"
  by (simp add: sample_decode_known_bytes_def sample_from_raw_def axis_apply_def axis_identity_def vec3_get_def
      raw_accel_def raw_gyro_def raw_f32_def be_literals G_PER_LSB_def G_TO_MPS2_def DEG_S_PER_LSB_def RAW_FRAME_LEN_def
      to_radians_def pi_fl_def replicate_literal float_eval)

section \<open>Read health\<close>

definition health_at :: "nat \<Rightarrow> u8 list option \<Rightarrow> nat \<Rightarrow> read_health" where
  "health_at c r j = \<lparr>consecutive_errors = word_of_nat c, last_raw = r, frozen_run = word_of_nat j\<rparr>"

definition trouble_at :: "trouble_kind \<Rightarrow> nat \<Rightarrow> trouble" where
  "trouble_at kind n = \<lparr>tr_kind = kind, tr_consecutive_errors = word_of_nat n, warn_degraded = (n = 100),
     reinit = (n < 1000 \<and> n mod 200 = 0), end_stream = (1000 \<le> n)\<rparr>"

lemma health_at_sel:
  "consecutive_errors (health_at c r j) = word_of_nat c" "last_raw (health_at c r j) = r"
  "frozen_run (health_at c r j) = word_of_nat j" "(health_at c r j)\<lparr>consecutive_errors := 0\<rparr> = health_at 0 r j"
  by (simp_all add: health_at_def)

lemma new_health: "read_health_new = health_at 0 None 0"
  by (simp add: read_health_new_def health_at_def)

lemma u32_small: "n < 10000 \<Longrightarrow> unat (word_of_nat n :: u32) = n"
  by (rule unat_small) simp

lemma u32_succ:
  assumes "n < 9999"
  shows "saturating_add (word_of_nat n) 1 = (word_of_nat (Suc n) :: u32)"
proof -
  have "unat (saturating_add (word_of_nat n) 1 :: u32) = unat (word_of_nat (Suc n) :: u32)"
    using assms u32_small [of n] u32_small [of "Suc n"] by (simp add: unat_saturating_add del: of_nat_Suc)
  then show ?thesis by (simp only: word_unat_eq_iff)
qed

lemma escalate_at:
  assumes "c < 9999"
  shows "escalate kind (health_at c r j) = (trouble_at kind (Suc c), health_at (Suc c) r j)"
proof -
  have u: "unat (word_of_nat (Suc c) :: u32) = Suc c" using assms by (intro u32_small) simp
  have m: "unat ((word_of_nat (Suc c) :: u32) mod 200) = Suc c mod 200" by (simp only: unat_mod u) simp
  have 1: "(word_of_nat (Suc c) :: u32) = 100 \<longleftrightarrow> Suc c = 100" unfolding word_unat_eq_iff u by simp
  have 2: "(word_of_nat (Suc c) :: u32) \<ge> 1000 \<longleftrightarrow> Suc c \<ge> 1000" unfolding word_le_nat_alt u by simp
  have 3: "(word_of_nat (Suc c) :: u32) mod 200 = 0 \<longleftrightarrow> Suc c mod 200 = 0" unfolding unat_eq_0 [symmetric] m ..
  have 4: "Suc c < 1000 \<longleftrightarrow> \<not> Suc c \<ge> 1000" by auto
  show ?thesis
    unfolding escalate_def health_at_def trouble_at_def DEGRADED_THRESHOLD_def REINIT_INTERVAL_def BUS_DOWN_THRESHOLD_def
      Let_def read_health.select_convs u32_succ [OF assms] 1 2 3 4 by simp
qed

lemma repeat_at:
  assumes "c < 9999" and "j < 9999"
  shows "on_read_ok f (health_at c (Some f) j) =
    (if Suc j < 100 then (Fresh (if c = 0 then None else Some (word_of_nat c)), health_at 0 (Some f) (Suc j))
     else (Frozen (trouble_at FrozenOutput (Suc c)), health_at (Suc c) (Some f) (Suc j)))"
proof -
  have "(health_at c (Some f) j)\<lparr>frozen_run := saturating_add (word_of_nat j) 1\<rparr> = health_at c (Some f) (Suc j)"
    by (simp add: health_at_def u32_succ [OF assms(2)] del: of_nat_Suc)
  moreover have "(100 :: u32) \<le> word_of_nat (Suc j) \<longleftrightarrow> \<not> Suc j < 100"
    using assms(2) u32_small [of "Suc j"] by (auto simp: word_le_nat_alt simp del: of_nat_Suc)
  moreover have "(word_of_nat c :: u32) > 0 \<longleftrightarrow> c \<noteq> 0"
    using assms(1) u32_small [of c] by (auto simp: word_less_nat_alt)
  ultimately show ?thesis
    by (auto simp: on_read_ok_def escalate_at [OF assms(1)] fresh_read_def FROZEN_OUTPUT_THRESHOLD_def Let_def
        health_at_sel simp del: of_nat_Suc)
qed

lemma change_at:
  assumes "c < 9999" and "r \<noteq> Some f"
  shows "on_read_ok f (health_at c r j) = (Fresh (if c = 0 then None else Some (word_of_nat c)), health_at 0 (Some f) 0)"
proof -
  have "(word_of_nat c :: u32) > 0 \<longleftrightarrow> c \<noteq> 0"
    using assms(1) u32_small [of c] by (auto simp: word_less_nat_alt)
  then show ?thesis using assms(2) by (auto simp: on_read_ok_def fresh_read_def health_at_def)
qed

lemma error_at: "c < 9999 \<Longrightarrow> on_read_err (health_at c r j) = (trouble_at ReadError (Suc c), health_at (Suc c) r j)"
  by (simp add: on_read_err_def escalate_at)

text \<open>Runs of reads: failures, and repeats of one frame.\<close>

fun err_run :: "nat \<Rightarrow> read_health \<Rightarrow> trouble list \<times> read_health" where
  "err_run 0 h = ([], h)"
| "err_run (Suc n) h = (let (t, h) = on_read_err h; (ts, h) = err_run n h in (t # ts, h))"

fun ok_run :: "u8 list list \<Rightarrow> read_health \<Rightarrow> verdict list \<times> read_health" where
  "ok_run [] h = ([], h)"
| "ok_run (f # fs) h = (let (v, h) = on_read_ok f h; (vs, h) = ok_run fs h in (v # vs, h))"

lemma err_run_at:
  "c + n < 9999 \<Longrightarrow> err_run n (health_at c r j) = (map (trouble_at ReadError) [Suc c..<Suc (c + n)], health_at (c + n) r j)"
proof (induction n arbitrary: c)
  case (Suc n)
  from Suc.prems have "[Suc c..<Suc (c + Suc n)] = Suc c # [Suc (Suc c)..<Suc (Suc c + n)]"
    by (subst upt_conv_Cons) simp_all
  with Suc.IH [of "Suc c"] Suc.prems show ?case by (simp add: error_at del: upt_Suc)
qed simp

text \<open>Repeats below the threshold are fresh, and those from it on escalate.\<close>

lemma ok_run_fresh:
  "j + n < 100 \<Longrightarrow> ok_run (replicate n f) (health_at 0 (Some f) j)
     = (replicate n (Fresh None), health_at 0 (Some f) (j + n))"
  by (induction n arbitrary: j) (simp_all add: repeat_at)

lemma ok_run_frozen:
  "99 \<le> j \<Longrightarrow> j + n < 9999 \<Longrightarrow> c + n < 9999 \<Longrightarrow> ok_run (replicate n f) (health_at c (Some f) j)
     = (map (\<lambda>k. Frozen (trouble_at FrozenOutput k)) [Suc c..<Suc (c + n)], health_at (c + n) (Some f) (j + n))"
proof (induction n arbitrary: c j)
  case (Suc n)
  from Suc.prems have "[Suc c..<Suc (c + Suc n)] = Suc c # [Suc (Suc c)..<Suc (Suc c + n)]"
    by (subst upt_conv_Cons) simp_all
  with Suc.IH [of "Suc j" "Suc c"] Suc.prems show ?case by (simp add: repeat_at del: upt_Suc)
qed simp

definition is_quiet :: "verdict \<Rightarrow> bool" where "is_quiet v = (v = Fresh None)"
definition is_fresh :: "verdict \<Rightarrow> bool" where "is_fresh v = (case v of Fresh _ \<Rightarrow> True | _ \<Rightarrow> False)"
definition is_frozen :: "verdict \<Rightarrow> bool" where "is_frozen v = (case v of Frozen _ \<Rightarrow> True | _ \<Rightarrow> False)"

definition fresh_reads_stay_quiet :: bool where
  "fresh_reads_stay_quiet =
     list_all is_quiet (fst (ok_run (map (\<lambda>i. chip_frame (word_of_nat i)) [0..<1000]) read_health_new))"

lemma changing_frames:
  "r \<noteq> Some (chip_frame (word_of_nat a)) \<Longrightarrow>
     list_all is_quiet (fst (ok_run (map (\<lambda>i. chip_frame (word_of_nat i)) [a..<a + n]) (health_at 0 r j)))"
proof (induction n arbitrary: a r j)
  case (Suc n)
  have "(word_of_nat a :: u8) \<noteq> word_of_nat (Suc a)" by simp
  then have "Some (chip_frame (word_of_nat a)) \<noteq> Some (chip_frame (word_of_nat (Suc a)))"
    by (simp add: chip_frame_inj del: of_nat_Suc)
  moreover have "[a..<a + Suc n] = a # [Suc a..<Suc a + n]" by (subst upt_conv_Cons) simp_all
  ultimately show ?case
    using Suc.IH [of "Some (chip_frame (word_of_nat a))" "Suc a" 0] Suc.prems
    by (simp add: change_at is_quiet_def case_prod_beta Let_def del: upt_Suc of_nat_Suc)
qed simp

lemma fresh_reads_stay_quiet_passes: "fresh_reads_stay_quiet"
  using changing_frames [of None 0 1000 0] by (simp add: fresh_reads_stay_quiet_def new_health)

definition error_streak_warns_once_at_degraded :: bool where
  "error_streak_warns_once_at_degraded =
     (let (ts, h) = err_run (unat DEGRADED_THRESHOLD - 1) read_health_new;
          (t1, h) = on_read_err h;
          (t2, h) = on_read_err h
      in list_all (\<lambda>t. \<not> warn_degraded t \<and> \<not> end_stream t) ts \<and> warn_degraded t1 \<and> \<not> warn_degraded t2)"

lemma error_streak_warns_once_at_degraded_passes: "error_streak_warns_once_at_degraded"
  by (simp add: error_streak_warns_once_at_degraded_def DEGRADED_THRESHOLD_def new_health err_run_at error_at trouble_at_def
      list_all_iff del: upt_Suc)

text \<open>The numbers of the reads that asked for a re-initialisation.\<close>

definition reinits :: "trouble list \<Rightarrow> nat list" where
  "reinits ts = map fst (filter (\<lambda>(i, t). reinit t) (zip [1..<Suc (length ts)] ts))"

definition reinit_requested_on_interval_but_not_at_bus_down :: bool where
  "reinit_requested_on_interval_but_not_at_bus_down =
     (let (ts, h) = err_run (unat BUS_DOWN_THRESHOLD) read_health_new
      in list_all (\<lambda>(i, t). end_stream t = (unat BUS_DOWN_THRESHOLD \<le> i)) (zip [1..<Suc (length ts)] ts)
         \<and> reinits ts = [200, 400, 600, 800])"

lemma zip_same_map: "zip xs (map f xs) = map (\<lambda>x. (x, f x)) xs"
  by (induction xs) simp_all

lemma sorted_filter_upt: "sorted (filter P [a..<b])"
  by (simp add: sorted_wrt_filter)

lemma distinct_filter_upt: "distinct (filter P [a..<b])"
  by simp

lemma reinit_requested_on_interval_but_not_at_bus_down_passes: "reinit_requested_on_interval_but_not_at_bus_down"
proof -
  have "err_run 1000 read_health_new = (map (trouble_at ReadError) [1..<1001], health_at 1000 None 0)"
    using err_run_at [of 0 1000 None 0] by (simp add: new_health)
  moreover have "filter (\<lambda>n. n < 1000 \<and> n mod 200 = 0) [1..<1001] = [200, 400, 600, 800]"
  proof (rule sorted_distinct_set_unique)
    have "n = 200 \<or> n = 400 \<or> n = 600 \<or> n = 800" if "n < 1000" "n mod 200 = 0" "1 \<le> n" for n :: nat
      using that by presburger
    then show "set (filter (\<lambda>n. n < 1000 \<and> n mod 200 = 0) [1..<1001]) = set [200, 400, 600, 800]" by auto
  qed (rule sorted_filter_upt distinct_filter_upt | simp)+
  ultimately show ?thesis
    by (simp add: reinit_requested_on_interval_but_not_at_bus_down_def BUS_DOWN_THRESHOLD_def reinits_def zip_same_map
        list_all_iff filter_map comp_def trouble_at_def del: upt_Suc)
qed

definition recovery_resets_the_ladder_and_reports_streak :: bool where
  "recovery_resets_the_ladder_and_reports_streak =
     (let (_, h) = err_run 50 read_health_new;
          (v, h) = on_read_ok (chip_frame 1) h;
          (ts, h) = err_run (unat DEGRADED_THRESHOLD - 1) h;
          (t, h) = on_read_err h
      in v = Fresh (Some 50) \<and> list_all (\<lambda>t. \<not> warn_degraded t) ts \<and> warn_degraded t)"

lemma recovery_resets_the_ladder_and_reports_streak_passes: "recovery_resets_the_ladder_and_reports_streak"
  by (simp add: recovery_resets_the_ladder_and_reports_streak_def DEGRADED_THRESHOLD_def new_health err_run_at change_at
      error_at trouble_at_def list_all_iff del: upt_Suc)

text \<open>A fresh link that has seen one frame a hundred times, the first included.\<close>

lemma seen_hundred:
  "on_read_ok f read_health_new = (Fresh None, health_at 0 (Some f) 0)"
  "ok_run (replicate 99 f) (health_at 0 (Some f) 0)
     = (replicate 99 (Fresh None), health_at 0 (Some f) 99)"
  by (simp_all add: new_health change_at ok_run_fresh)

definition frozen_output_detected_at_threshold_and_not_yielded :: bool where
  "frozen_output_detected_at_threshold_and_not_yielded =
     (let f = chip_frame 7;
          (v1, h) = on_read_ok f read_health_new;
          (vs, h) = ok_run (replicate (unat FROZEN_OUTPUT_THRESHOLD - 1) f) h;
          (v2, h) = on_read_ok f h;
          (ws, h) = ok_run (replicate (unat REINIT_INTERVAL - 1) f) h;
          (v3, h) = on_read_ok (chip_frame 8) h
      in is_fresh v1 \<and> list_all is_fresh vs
         \<and> (case v2 of Frozen t \<Rightarrow> tr_kind t = FrozenOutput \<and> tr_consecutive_errors t = 1 | _ \<Rightarrow> False)
         \<and> list_all is_frozen ws
         \<and> (case v3 of Fresh (Some n) \<Rightarrow> n = REINIT_INTERVAL | _ \<Rightarrow> False))"

lemma frozen_output_detected_at_threshold_and_not_yielded_passes: "frozen_output_detected_at_threshold_and_not_yielded"
  by (simp add: frozen_output_detected_at_threshold_and_not_yielded_def seen_hundred FROZEN_OUTPUT_THRESHOLD_def Let_def repeat_at ok_run_frozen change_at
      chip_frame_inj REINIT_INTERVAL_def list_all_iff is_fresh_def is_frozen_def trouble_at_def del: upt_Suc)

definition frozen_run_survives_interleaved_read_errors :: bool where
  "frozen_run_survives_interleaved_read_errors =
     (let f = chip_frame 3;
          (_, h) = on_read_ok f read_health_new;
          (_, h) = ok_run (replicate (unat FROZEN_OUTPUT_THRESHOLD - 1) f) h;
          (t, h) = on_read_err h;
          (v, h) = on_read_ok f h
      in tr_consecutive_errors t = 1 \<and> (case v of Frozen t \<Rightarrow> tr_consecutive_errors t = 2 | _ \<Rightarrow> False))"

lemma frozen_run_survives_interleaved_read_errors_passes: "frozen_run_survives_interleaved_read_errors"
  by (simp add: frozen_run_survives_interleaved_read_errors_def seen_hundred FROZEN_OUTPUT_THRESHOLD_def Let_def repeat_at error_at trouble_at_def)

definition frozen_and_errors_reach_reinit_together :: bool where
  "frozen_and_errors_reach_reinit_together =
     (let f = chip_frame 9;
          (_, h) = on_read_ok f read_health_new;
          (_, h) = ok_run (replicate (unat FROZEN_OUTPUT_THRESHOLD - 1) f) h;
          (vs, h) = ok_run (replicate (unat REINIT_INTERVAL) f) h
      in list_all is_frozen vs
         \<and> list_all (\<lambda>v. case v of Frozen t \<Rightarrow> reinit t \<longrightarrow> tr_consecutive_errors t = REINIT_INTERVAL | _ \<Rightarrow> False) vs
         \<and> list_ex (\<lambda>v. case v of Frozen t \<Rightarrow> reinit t | _ \<Rightarrow> False) vs)"

lemma frozen_and_errors_reach_reinit_together_passes: "frozen_and_errors_reach_reinit_together"
proof -
  have only: "200 dvd n \<Longrightarrow> Suc 0 \<le> n \<Longrightarrow> n < 201 \<Longrightarrow> n = 200" for n :: nat by presburger
  show ?thesis
    by (auto simp: frozen_and_errors_reach_reinit_together_def seen_hundred FROZEN_OUTPUT_THRESHOLD_def Let_def ok_run_frozen REINIT_INTERVAL_def list_all_iff
        list_ex_iff is_frozen_def trouble_at_def dest!: only intro!: bexI [of _ 200] simp del: upt_Suc)
qed

definition frozen_streak_eventually_ends_stream :: bool where
  "frozen_streak_eventually_ends_stream =
     (let f = chip_frame 4;
          (_, h) = on_read_ok f read_health_new;
          (_, h) = ok_run (replicate (unat FROZEN_OUTPUT_THRESHOLD - 1) f) h;
          (vs, h) = ok_run (replicate (unat BUS_DOWN_THRESHOLD) f) h
      in list_ex (\<lambda>v. case v of Frozen t \<Rightarrow> end_stream t | _ \<Rightarrow> False) vs)"

lemma frozen_streak_eventually_ends_stream_passes: "frozen_streak_eventually_ends_stream"
  by (auto simp: frozen_streak_eventually_ends_stream_def seen_hundred FROZEN_OUTPUT_THRESHOLD_def Let_def ok_run_frozen BUS_DOWN_THRESHOLD_def list_ex_iff
      trouble_at_def intro!: bexI [of _ 1000] simp del: upt_Suc)

section \<open>The axis map\<close>

abbreviation vec :: "rat \<Rightarrow> rat \<Rightarrow> rat \<Rightarrow> vec3" where
  "vec a b c \<equiv> \<lparr>v0 = FNum a, v1 = FNum b, v2 = FNum c\<rparr>"

definition vec_eq :: "vec3 \<Rightarrow> vec3 \<Rightarrow> bool" where
  "vec_eq a b \<longleftrightarrow> feq (v0 a) (v0 b) \<and> feq (v1 a) (v1 b) \<and> feq (v2 a) (v2 b)"

definition map_eq :: "axis_map \<Rightarrow> axis_map \<Rightarrow> bool" where
  "map_eq a b \<longleftrightarrow> entry_eq (am0 a) (am0 b) \<and> entry_eq (am1 a) (am1 b) \<and> entry_eq (am2 a) (am2 b)"

definition parsed :: "string \<Rightarrow> (axis_map \<Rightarrow> bool) \<Rightarrow> bool" where
  "parsed s p = (case axis_parse s of Inl _ \<Rightarrow> False | Inr m \<Rightarrow> p m)"

definition identity_is_passthrough :: bool where
  "identity_is_passthrough =
     (is_identity axis_identity \<and> vec_eq (axis_apply axis_identity (vec 1 2 3)) (vec 1 2 3)
      \<and> parsed ''X,Y,Z'' (\<lambda>m. map_eq m axis_identity))"

definition yaw_90_rotation_parses_and_applies :: bool where
  "yaw_90_rotation_parses_and_applies =
     parsed ''Y,-X,Z'' (\<lambda>m. \<not> is_identity m \<and> vec_eq (axis_apply m (vec 1 2 3)) (vec 2 (- 1) 3))"

definition yaw_180_and_cyclic_are_proper_rotations :: bool where
  "yaw_180_and_cyclic_are_proper_rotations =
     (parsed ''-X,-Y,Z'' (\<lambda>m. vec_eq (axis_apply m (vec 1 2 3)) (vec (- 1) (- 2) 3))
      \<and> parsed ''Y,Z,X'' (\<lambda>m. vec_eq (axis_apply m (vec 1 2 3)) (vec 2 3 1)))"

definition reflections_are_rejected :: bool where
  "reflections_are_rejected =
     (isl (axis_parse ''X,Y,-Z'') \<and> isl (axis_parse ''-X,Y,Z'') \<and> isl (axis_parse ''Y,X,Z''))"

definition non_permutations_and_bad_tokens_rejected :: bool where
  "non_permutations_and_bad_tokens_rejected =
     (isl (axis_parse ''X,X,Z'') \<and> isl (axis_parse ''X,Q,Z'') \<and> isl (axis_parse ''X,Y'') \<and> isl (axis_parse ''X,Y,Z,W''))"

definition whitespace_case_and_plus_tolerated :: bool where
  "whitespace_case_and_plus_tolerated =
     parsed '' +y , -x , +z '' (\<lambda>m. parsed ''Y,-X,Z'' (\<lambda>m'. map_eq m m'))"

definition all_documented_valid_maps_have_determinant_plus_one :: bool where
  "all_documented_valid_maps_have_determinant_plus_one =
     list_all (\<lambda>s. parsed s (\<lambda>m. flt (fabs (fsub B32 (axis_determinant m) (FNum 1))) (lit B32 (1 / 10 ^ 6))))
       [''X,Y,Z'', ''Y,-X,Z'', ''-X,-Y,Z'', ''Y,Z,X'', ''Z,X,Y'', ''-Y,X,Z'']"

definition gyro_and_accel_use_the_same_map :: bool where
  "gyro_and_accel_use_the_same_map =
     parsed ''Y,-X,Z'' (\<lambda>m.
       vec_eq (axis_apply m \<lparr>v0 = lit B32 (1 / 10), v1 = lit B32 (2 / 10), v2 = lit B32 (98 / 10)\<rparr>)
         \<lparr>v0 = lit B32 (2 / 10), v1 = lit B32 (- (1 / 10)), v2 = lit B32 (98 / 10)\<rparr>
       \<and> vec_eq (axis_apply m \<lparr>v0 = lit B32 (1 / 100), v1 = lit B32 (- (2 / 100)), v2 = lit B32 (3 / 100)\<rparr>)
         \<lparr>v0 = lit B32 (- (2 / 100)), v1 = lit B32 (- (1 / 100)), v2 = lit B32 (3 / 100)\<rparr>)"

lemma token_literals:
  "parse_token ''X'' = Inr (0, FNum 1)"
  "parse_token ''Y'' = Inr (1, FNum 1)"
  "parse_token ''Z'' = Inr (2, FNum 1)"
  "parse_token ''-X'' = Inr (0, FNum (- 1))"
  "parse_token ''-Y'' = Inr (1, FNum (- 1))"
  "parse_token ''-Z'' = Inr (2, FNum (- 1))"
  "parse_token ''Q'' = Inl (BadToken ''Q'')"
  "parse_token ''+y'' = Inr (1, FNum 1)"
  "parse_token ''-x'' = Inr (0, FNum (- 1))"
  "parse_token ''+z'' = Inr (2, FNum 1)"
  by code_simp+

lemma tokens_literals:
  "axis_tokens ''X,Y,Z'' = [''X'', ''Y'', ''Z'']"
  "axis_tokens ''Y,-X,Z'' = [''Y'', ''-X'', ''Z'']"
  "axis_tokens ''-X,-Y,Z'' = [''-X'', ''-Y'', ''Z'']"
  "axis_tokens ''Y,Z,X'' = [''Y'', ''Z'', ''X'']"
  "axis_tokens ''Z,X,Y'' = [''Z'', ''X'', ''Y'']"
  "axis_tokens ''-Y,X,Z'' = [''-Y'', ''X'', ''Z'']"
  "axis_tokens ''X,Y,-Z'' = [''X'', ''Y'', ''-Z'']"
  "axis_tokens ''-X,Y,Z'' = [''-X'', ''Y'', ''Z'']"
  "axis_tokens ''Y,X,Z'' = [''Y'', ''X'', ''Z'']"
  "axis_tokens ''X,X,Z'' = [''X'', ''X'', ''Z'']"
  "axis_tokens ''X,Q,Z'' = [''X'', ''Q'', ''Z'']"
  "axis_tokens ''X,Y'' = [''X'', ''Y'']"
  "axis_tokens ''X,Y,Z,W'' = [''X'', ''Y'', ''Z'', ''W'']"
  "axis_tokens '' +y , -x , +z '' = [''+y'', ''-x'', ''+z'']"
  by code_simp+

lemmas axis_eval = parsed_def axis_parse_def token_literals tokens_literals axis_validate_def axis_determinant_def
  matrix_entry_def unit_arith entry_eq_def is_identity_def axis_identity_def vec_eq_def map_eq_def axis_apply_def
  vec3_get_def Let_def

lemma identity_is_passthrough_passes: "identity_is_passthrough"
  by (simp add: identity_is_passthrough_def axis_eval float_eval)

lemma axis_tests_pass:
  "yaw_90_rotation_parses_and_applies" "yaw_180_and_cyclic_are_proper_rotations" "reflections_are_rejected"
  "non_permutations_and_bad_tokens_rejected" "whitespace_case_and_plus_tolerated"
  by (simp_all add: yaw_90_rotation_parses_and_applies_def yaw_180_and_cyclic_are_proper_rotations_def
      reflections_are_rejected_def non_permutations_and_bad_tokens_rejected_def whitespace_case_and_plus_tolerated_def
      axis_eval float_eval)

lemma all_documented_valid_maps_have_determinant_plus_one_passes: "all_documented_valid_maps_have_determinant_plus_one"
  by (simp add: all_documented_valid_maps_have_determinant_plus_one_def axis_eval float_eval)

lemma gyro_and_accel_use_the_same_map_passes: "gyro_and_accel_use_the_same_map"
  by (simp add: gyro_and_accel_use_the_same_map_def axis_eval float_eval)

end
