(* ===== verification/Conformance_System.thy ===== *)
theory Conformance_System
  imports Conformance_Detect Controller Watch Simulator Startup Runtime
begin

text \<open>
  Unit tests of the remaining modules run on the model, as in \<open>Conformance_Detect\<close>: the
  validation of the configuration (\<open>fusion.rs\<close>), the bypass check of the file (\<open>config.rs\<close>, the
  parsed file in place of its text, and the bypass error in place of its message), the controller's read-back, the forensic buffer, the drain
  at shutdown, the dead reckoner's checks and integration, the simulator and the dashboard's
  summary. What a test reads from the clock is a variable.
\<close>

section \<open>Configuration\<close>

definition rejected :: "fusion_config \<Rightarrow> bool" where
  "rejected c = isl (validate c)"

lemmas validate_eval = rejected_def validate_def validate_checks_def fusion_config_default_def nav_config_default_def
  detect_config_default_def pos_finite_def Let_def

definition default_validates_ok :: bool where
  "default_validates_ok = (validate fusion_config_default = Inr ())"

lemma default_validates_ok_passes: "default_validates_ok"
  by (simp add: default_validates_ok_def validate_eval float_eval)

definition rejects_zero_residual_window :: bool where
  "rejects_zero_residual_window = rejected (fusion_config_default\<lparr>residual_window_s := FNum 0\<rparr>)"

lemma rejects_zero_residual_window_passes: "rejects_zero_residual_window"
  by (simp add: rejects_zero_residual_window_def validate_eval)

definition with_detect :: "(detect_config \<Rightarrow> detect_config) \<Rightarrow> fusion_config" where
  "with_detect f = fusion_config_default\<lparr>fc_detect := f (fc_detect fusion_config_default)\<rparr>"

definition with_nav :: "(nav_config \<Rightarrow> nav_config) \<Rightarrow> fusion_config" where
  "with_nav f = fusion_config_default\<lparr>fc_nav := f (fc_nav fusion_config_default)\<rparr>"

lemmas with_eval = with_detect_def with_nav_def validate_eval

definition rejects_inverted_cusum_bounds :: bool where
  "rejects_inverted_cusum_bounds = rejected (with_detect (\<lambda>d. d\<lparr>cusum_k_m := FNum 10, cusum_h_m := FNum 5\<rparr>))"

lemma rejects_inverted_cusum_bounds_passes: "rejects_inverted_cusum_bounds"
  by (simp add: rejects_inverted_cusum_bounds_def with_eval float_eval)

definition rejects_zero_jump_persist :: bool where
  "rejects_zero_jump_persist = rejected (with_detect (\<lambda>d. d\<lparr>jump_persist_fixes := 0\<rparr>))"

lemma rejects_zero_jump_persist_passes: "rejects_zero_jump_persist"
  by (simp add: rejects_zero_jump_persist_def with_eval float_eval)

definition rejects_nan_alpha :: bool where
  "rejects_nan_alpha = rejected (with_nav (\<lambda>n. n\<lparr>bias_ema_alpha := FNaN\<rparr>))"

lemma rejects_nan_alpha_passes: "rejects_nan_alpha"
  by (simp add: rejects_nan_alpha_def with_eval float_eval)

definition rejects_zero_dwell :: bool where
  "rejects_zero_dwell = rejected (with_detect (\<lambda>d. d\<lparr>suspicious_to_spoofed_dwell_s := FNum 0\<rparr>))"

lemma rejects_zero_dwell_passes: "rejects_zero_dwell"
  by (simp add: rejects_zero_dwell_def with_eval float_eval)

definition rejects_non_finite_or_huge_max_home_distance :: bool where
  "rejects_non_finite_or_huge_max_home_distance =
     (list_all (\<lambda>bad. rejected (with_nav (\<lambda>n. nav_config_default\<lparr>max_home_distance_m := bad\<rparr>)))
        [FPInf, FNaN, FNum 0, FNum (- 1), FNum 2000000]
      \<and> validate (with_nav (\<lambda>n. nav_config_default\<lparr>max_home_distance_m := FNum 5000\<rparr>)) = Inr ())"

lemma rejects_non_finite_or_huge_max_home_distance_passes: "rejects_non_finite_or_huge_max_home_distance"
  by (simp add: rejects_non_finite_or_huge_max_home_distance_def with_eval float_eval)

text \<open>The five files, each with one bypass switched on, and the file that switches all of them off.\<close>

definition toml_safety_bypasses_are_rejected_at_load_time :: bool where
  "toml_safety_bypasses_are_rejected_at_load_time =
     list_all (\<lambda>c. case load_config (Parsed c) of Inl (BypassInFile offenders) \<Rightarrow> offenders \<noteq> [] | _ \<Rightarrow> False)
       (let c = app_config_default
        in [c\<lparr>ac_process := (ac_process c)\<lparr>pr_allow_synth_to_mav := True\<rparr>\<rparr>,
            c\<lparr>ac_boot := (ac_boot c)\<lparr>ba_allow_no_check := True\<rparr>\<rparr>,
            c\<lparr>ac_mav := (ac_mav c)\<lparr>mc_no_source_filter := True\<rparr>\<rparr>,
            c\<lparr>ac_mav := (ac_mav c)\<lparr>mc_no_sysid_filter := True\<rparr>\<rparr>,
            c\<lparr>ac_mav := (ac_mav c)\<lparr>mc_allow_any_source_port := True\<rparr>\<rparr>])"

lemmas load_eval = load_config_def reject_toml_safety_bypasses_def bypass_table_def app_config_default_def Let_def

lemma toml_safety_bypasses_are_rejected_at_load_time_passes: "toml_safety_bypasses_are_rejected_at_load_time"
  by (simp add: toml_safety_bypasses_are_rejected_at_load_time_def load_eval)

definition toml_safety_bypasses_false_load_ok :: bool where
  "toml_safety_bypasses_false_load_ok =
     (let c = app_config_default;
          c = c\<lparr>ac_process := (ac_process c)\<lparr>pr_allow_synth_to_mav := False\<rparr>,
                ac_boot := (ac_boot c)\<lparr>ba_allow_no_check := False\<rparr>,
                ac_mav := (ac_mav c)\<lparr>mc_no_source_filter := False, mc_no_sysid_filter := False,
                  mc_allow_any_source_port := False\<rparr>\<rparr>
      in \<not> isl (load_config (Parsed c)))"

lemma toml_safety_bypasses_false_load_ok_passes: "toml_safety_bypasses_false_load_ok"
  by (simp add: toml_safety_bypasses_false_load_ok_def load_eval)

section \<open>Controller\<close>

definition sever_param_is_profile_specific :: bool where
  "sever_param_is_profile_specific =
     (sever_gps_param ArduCopter = (bytes ''GPS_TYPE'', MAV_PARAM_TYPE_INT8)
      \<and> sever_gps_param Px4 = (bytes ''EKF2_GPS_CTRL'', MAV_PARAM_TYPE_INT32)
      \<and> length (fst (sever_gps_param ArduCopter)) \<le> 16
      \<and> length (fst (sever_gps_param Px4)) \<le> 16)"

lemma sever_param_is_profile_specific_passes: "sever_param_is_profile_specific"
  by (simp add: sever_param_is_profile_specific_def sever_gps_param_def bytes_def)

definition sever_echo_confirms_requires_all_gates :: bool where
  "sever_echo_confirms_requires_all_gates =
     (let ty = 2; wrong_ty = 9; sent_at = 1000; baseline = 5;
          confirms = (\<lambda>v t ns n. sever_echo_confirms
            \<lparr>echo_value = v, param_type = t, recv_ns = ns, recv_count = n\<rparr> sent_at baseline ty)
      in confirms (FNum 0) ty (sent_at + 1) (baseline + 2)
         \<and> confirms (lit B32 (1 / 100)) ty (sent_at + 1) (baseline + 2)
         \<and> confirms (FNum 0) ty (sent_at + 9) (baseline + 3)
         \<and> \<not> confirms (FNum 0) ty (sent_at + 1) (baseline + 1)
         \<and> \<not> confirms (FNum 0) ty sent_at (baseline + 5)
         \<and> \<not> confirms (FNum 0) wrong_ty (sent_at + 1) (baseline + 2)
         \<and> \<not> confirms (FNum 1) ty (sent_at + 1) (baseline + 2))"

lemma sever_echo_confirms_requires_all_gates_passes: "sever_echo_confirms_requires_all_gates"
  by (simp add: sever_echo_confirms_requires_all_gates_def sever_echo_confirms_def SEVER_VERIFY_DWELL_ECHOES_def
      SEVER_CONFIRMED_EPS_def saturating_sub_def float_eval word_le_nat_alt Let_def)

section \<open>Forensic buffer\<close>

definition make_gps :: "timestamp \<Rightarrow> f64 \<Rightarrow> f64 \<Rightarrow> f64 \<Rightarrow> f64 \<times> gps_fix" where
  "make_gps now t la lo = (t, \<lparr>fix_t = now, lat_deg = la, lon_deg = lo, alt_m = FNum 0, speed_mps = Some (FNum 8),
     course_deg = Some (FNum 0), hdop = Some (FNum 1), sats = Some 10\<rparr>)"

fun pushed :: "timestamp \<Rightarrow> nat list \<Rightarrow> forensic_buffer \<Rightarrow> forensic_buffer" where
  "pushed now [] b = b"
| "pushed now (t # ts) b =
     (let (ts', fx) = make_gps now (fmul B64 (FNum (of_nat t)) (lit B64 (1 / 10))) (FNum 40) (FNum (- 100))
      in pushed now ts (push_gps ts' fx b))"

definition buffer_trims_by_window :: "timestamp \<Rightarrow> bool" where
  "buffer_trims_by_window now =
     (case forensic_new (FNum 2) (FNum 100) of
        None \<Rightarrow> False
      | Some b \<Rightarrow> (case f_gps (pushed now [0..<30] b) of
          [] \<Rightarrow> False
        | r # _ \<Rightarrow> fge (gr_t_secs r) (fsub B64 (lit B64 (9 / 10)) (lit B64 (1 / 10 ^ 9)))))"

definition dump_fired_flag_is_shared :: bool where
  "dump_fired_flag_is_shared =
     (case forensic_new (FNum 5) (FNum 100) of
        None \<Rightarrow> False
      | Some b \<Rightarrow> \<not> already_dumped b \<and> already_dumped (b\<lparr>dump_fired := True\<rparr>))"

definition try_claim_dump_is_exclusive_and_releasable :: bool where
  "try_claim_dump_is_exclusive_and_releasable =
     (case forensic_new (FNum 5) (FNum 100) of
        None \<Rightarrow> False
      | Some b \<Rightarrow>
          (let (first, b) = try_claim_dump b;
               (second, b) = try_claim_dump b;
               dumped = already_dumped b;
               b = release_dump_claim b;
               (again, _) = try_claim_dump b
           in first \<and> \<not> second \<and> dumped \<and> \<not> already_dumped b \<and> again))"

lemmas forensic_eval = forensic_new_def cast_usize_def cast_int_def fceil_def ftrunc_def push_gps_def push_imu_def
  ring_trim_def trim_capacity_def Let_def gps_record_from_def make_gps_def already_dumped_def try_claim_dump_def release_dump_claim_def

lemma buffer_trims_by_window_passes: "buffer_trims_by_window now"
  by (simp add: buffer_trims_by_window_def forensic_eval upt_conv_Cons float_eval del: upt_Suc cong: by_value)

lemma dump_fired_flag_is_shared_passes: "dump_fired_flag_is_shared"
  by (simp add: dump_fired_flag_is_shared_def forensic_eval float_eval)

lemma try_claim_dump_is_exclusive_and_releasable_passes: "try_claim_dump_is_exclusive_and_releasable"
  by (simp add: try_claim_dump_is_exclusive_and_releasable_def forensic_eval float_eval Let_def)

definition make_imu :: "timestamp \<Rightarrow> f64 \<Rightarrow> f64 \<times> imu_sample" where
  "make_imu now t =
     (t, \<lparr>imu_t = now, accel_mps2 = vec3_zero\<lparr>v2 := lit B32 (981 / 100)\<rparr>, gyro_rps = vec3_zero\<rparr>)"

definition imu_buffer_caps_count_when_rate_estimate_blown :: "timestamp \<Rightarrow> bool" where
  "imu_buffer_caps_count_when_rate_estimate_blown now =
     (case forensic_new (FNum 1) (FNum 100) of
        None \<Rightarrow> False
      | Some b \<Rightarrow> length (f_imu ((push_imu (FNum 0) (snd (make_imu now (FNum 0))) ^^ 1000) b)) \<le> 400)"

lemma pushed_imu_bound:
  "0 < n \<Longrightarrow> length (f_imu ((push_imu t s ^^ n) b)) \<le> max_imu b"
  "max_imu ((push_imu t s ^^ n) b) = max_imu b"
proof -
  show cap: "max_imu ((push_imu t s ^^ n) b) = max_imu b" for n by (induction n) (simp_all add: push_imu_def)
  show "0 < n \<Longrightarrow> length (f_imu ((push_imu t s ^^ n) b)) \<le> max_imu b"
    using ring_trim_bound cap by (cases n) (simp_all add: push_imu_def)
qed

lemma imu_buffer_caps_count_when_rate_estimate_blown_passes: "imu_buffer_caps_count_when_rate_estimate_blown now"
proof -
  obtain b where "forensic_new (FNum 1) (FNum 100) = Some b" "max_imu b = 400"
    by (simp add: forensic_eval float_eval Let_def)
  then show ?thesis
    using pushed_imu_bound(1) [of 1000 "FNum 0" "snd (make_imu now (FNum 0))" b]
    by (simp add: imu_buffer_caps_count_when_rate_estimate_blown_def)
qed

section \<open>Drain at shutdown\<close>

text \<open>Three tasks that end before each look at the clock; two that never do; none.\<close>

definition drains_completed_tasks :: "instant \<Rightarrow> bool" where
  "drains_completed_tasks now =
     (drain_pending_bg 3 now (nanos_of_secs 1) [(now, True), (now, True), (now, True)] = (3, 0))"

lemma drains_completed_tasks_passes: "drains_completed_tasks now"
  by (simp add: drains_completed_tasks_def drain_pending_bg_def saturating_duration_since_def nanos_of_secs_def)

definition drain_aborts_runaway_tasks_past_timeout :: "instant \<Rightarrow> bool" where
  "drain_aborts_runaway_tasks_past_timeout now =
     (drain_pending_bg 2 now 100000000 [(now, False)] = (0, 2))"

lemma drain_aborts_runaway_tasks_past_timeout_passes: "drain_aborts_runaway_tasks_past_timeout now"
  by (simp add: drain_aborts_runaway_tasks_past_timeout_def drain_pending_bg_def saturating_duration_since_def)

definition drain_empty_returns_immediately :: "instant \<Rightarrow> bool" where
  "drain_empty_returns_immediately now = (drain_pending_bg 0 now (nanos_of_secs 5) [] = (0, 0))"

lemma drain_empty_returns_immediately_passes: "drain_empty_returns_immediately now"
  by (simp add: drain_empty_returns_immediately_def drain_pending_bg_def)

section \<open>Dashboard\<close>

definition test_event :: "nat \<Rightarrow> string \<Rightarrow> string \<Rightarrow> f32 \<Rightarrow> watch_event" where
  "test_event ns kind state residual = \<lparr>we_mono_ns = ns, we_kind = kind, we_state = state, we_residual_m = residual,
     we_detail = \<lparr>detail_u64 = (\<lambda>_. None), detail_f64 = (\<lambda>_. None), detail_str = (\<lambda>_. None)\<rparr>\<rparr>"

definition apply_snapshot_link_and_state :: bool where
  "apply_snapshot_link_and_state =
     (let s = apply_to_snapshot (test_event 0 ''LinkRestored'' ''Normal'' (FNum 0)) snapshot_default;
          s' = apply_to_snapshot (test_event 1000000000 ''PreflightPassed'' ''Normal'' (FNum 0)) s
      in w_link s = ''Up'' \<and> w_fsm_state s = ''Normal'' \<and> w_preflight s' = ''Passed'')"

lemma apply_snapshot_link_and_state_passes: "apply_snapshot_link_and_state"
  by (simp add: apply_snapshot_link_and_state_def apply_to_snapshot_def test_event_def snapshot_default_def Let_def)

definition apply_snapshot_spoofed_increments_counter :: bool where
  "apply_snapshot_spoofed_increments_counter =
     (let s = apply_to_snapshot (test_event 0 ''StateTransition'' ''Spoofed'' (FNum 25)) snapshot_default
      in w_spoofed_count s = 1 \<and> w_fsm_state s = ''Spoofed'')"

lemma apply_snapshot_spoofed_increments_counter_passes: "apply_snapshot_spoofed_increments_counter"
  by (simp add: apply_snapshot_spoofed_increments_counter_def apply_to_snapshot_def test_event_def snapshot_default_def Let_def)

section \<open>Dead reckoner\<close>

definition validate_fix_against_reference_basic :: bool where
  "validate_fix_against_reference_basic =
     (validate_fix_against_reference (ned_of (FNum 10) (FNum 5)) (ned_of (FNum 0) (FNum 0)) (FNum 50) = Inr ()
      \<and> (case validate_fix_against_reference (ned_of (FNum 100) (FNum 0)) (ned_of (FNum 0) (FNum 0)) (FNum 50) of
            Inl d \<Rightarrow> close_to (lit B64 (1 / 10 ^ 6)) d (FNum 100)
          | Inr _ \<Rightarrow> False))"

lemma validate_fix_against_reference_basic_passes: "validate_fix_against_reference_basic"
  by (simp add: validate_fix_against_reference_basic_def validate_fix_against_reference_def close_to_def float_eval
      cong: by_value)

text \<open>The cosine is a parameter; of it the tests need that it is finite.\<close>

definition fix_of :: "timestamp \<Rightarrow> f64 \<Rightarrow> f64 \<Rightarrow> gps_fix" where
  "fix_of now la lo = \<lparr>fix_t = now, lat_deg = la, lon_deg = lo, alt_m = FNum 0, speed_mps = Some (FNum 0),
     course_deg = Some (FNum 0), hdop = Some (FNum 1), sats = Some 10\<rparr>"

definition home_cfg :: nav_config where
  "home_cfg = nav_config_default\<lparr>expected_home := Some (FNum 40, FNum (- 100)), max_home_distance_m := FNum 500\<rparr>"

definition lla_to_ned_zero_at_origin :: "nav_math \<Rightarrow> bool" where
  "lla_to_ned_zero_at_origin mm =
     (let p = lla_to_ned mm (FNum 40) (FNum (- 100)) (FNum 0) (FNum 40) (FNum (- 100)); eps = lit B64 (1 / 10 ^ 9)
      in flt (fabs (ned_n p)) eps \<and> flt (fabs (ned_e p)) eps)"

definition lla_to_ned_one_degree_north_is_circa_111km :: "nav_math \<Rightarrow> bool" where
  "lla_to_ned_one_degree_north_is_circa_111km mm =
     (let p = lla_to_ned mm (FNum 41) (FNum (- 100)) (FNum 0) (FNum 40) (FNum (- 100))
      in close_to (FNum 10) (ned_n p) (lit B64 (11131949 / 100)) \<and> flt (fabs (ned_e p)) (FNum 1))"

definition boot_anchor_rejects_far_first_fix :: "nav_math \<Rightarrow> instant \<Rightarrow> timestamp \<Rightarrow> bool" where
  "boot_anchor_rejects_far_first_fix mm boot now =
     (case is_first_fix_plausible mm (fix_of now (lit B64 (4001 / 100)) (FNum (- 100))) (dr_new home_cfg boot) of
        Inl d \<Rightarrow> fgt d (FNum 500)
      | Inr _ \<Rightarrow> False)"

definition boot_anchor_accepts_nearby_first_fix :: "nav_math \<Rightarrow> instant \<Rightarrow> timestamp \<Rightarrow> bool" where
  "boot_anchor_accepts_nearby_first_fix mm boot now =
     (is_first_fix_plausible mm (fix_of now (FNum 40) (FNum (- 100))) (dr_new home_cfg boot) = Inr ())"

definition boot_anchor_check_skipped_when_no_expected_home :: "nav_math \<Rightarrow> instant \<Rightarrow> timestamp \<Rightarrow> bool" where
  "boot_anchor_check_skipped_when_no_expected_home mm boot now =
     (is_first_fix_plausible mm
        \<lparr>fix_t = now, lat_deg = lit B64 (8999 / 100), lon_deg = lit B64 (17999 / 100), alt_m = FNum 0,
         speed_mps = None, course_deg = None, hdop = None, sats = None\<rparr> (dr_new nav_config_default boot) = Inr ())"

lemma boot_anchor_check_skipped_when_no_expected_home_passes:
  "boot_anchor_check_skipped_when_no_expected_home mm boot now"
  by (simp add: boot_anchor_check_skipped_when_no_expected_home_def is_first_fix_plausible_def dr_new_def
      nav_config_default_def)

text \<open>A point on the meridian of the origin: its east coordinate is a zero of either sign.\<close>

lemma zero_squares [float_eval]: "fmul F FNegZero FNegZero = fround F False 0"
  by (simp add: fmul_def)

lemma zero_times_finite: "is_finite c \<Longrightarrow> fmul B64 (FNum 0) c = FNum 0 \<or> fmul B64 (FNum 0) c = FNegZero"
  by (cases c) (simp_all add: fmul_def Let_def float_eval)

lemmas nav_eval = lla_to_ned_def to_radians_def pi_fl_def R_EARTH_M_def close_to_def is_first_fix_plausible_def
  fix_of_def home_cfg_def dr_new_def nav_config_default_def horizontal_norm_def fdiv_FNum Let_def

lemma home_tests_pass:
  assumes "\<And>x. is_finite (cos64 mm x)"
  shows "lla_to_ned_zero_at_origin mm" "lla_to_ned_one_degree_north_is_circa_111km mm"
    "boot_anchor_rejects_far_first_fix mm boot now" "boot_anchor_accepts_nearby_first_fix mm boot now"
proof -
  note z = zero_times_finite [OF assms [of "to_radians B64 (FNum 40)"]]
  show "lla_to_ned_zero_at_origin mm"
    using z by (elim disjE) (simp_all add: lla_to_ned_zero_at_origin_def nav_eval float_eval cong: by_value)
  show "lla_to_ned_one_degree_north_is_circa_111km mm"
    using z by (elim disjE) (simp_all add: lla_to_ned_one_degree_north_is_circa_111km_def nav_eval float_eval cong: by_value)
  show "boot_anchor_rejects_far_first_fix mm boot now"
    using z by (elim disjE) (simp_all add: boot_anchor_rejects_far_first_fix_def nav_eval float_eval cong: by_value)
  show "boot_anchor_accepts_nearby_first_fix mm boot now"
    using z by (elim disjE) (simp_all add: boot_anchor_accepts_nearby_first_fix_def nav_eval float_eval cong: by_value)
qed

section \<open>Integration and bias\<close>

definition constant_accel_matches_kinematics :: bool where
  "constant_accel_matches_kinematics =
     (let s = (integrate (vec3_zero\<lparr>v0 := FNum 1\<rparr>) (lit B32 (1 / 100)) ^^ 100) strapdown_new
      in flt (fabs (fsub B64 (ned_n (sd_vel s)) (FNum 1))) (lit B64 (1 / 10 ^ 5))
         \<and> flt (fabs (fsub B64 (ned_n (sd_pos s)) (lit B64 (1 / 2)))) (lit B64 (5 / 100)))"

lemma funpow_literal: "(f ^^ numeral k) x = (f ^^ pred_numeral k) (f x)"
  by (simp add: numeral_eq_Suc funpow_swap1)

lemma constant_accel_matches_kinematics_passes: "constant_accel_matches_kinematics"
  by (simp add: constant_accel_matches_kinematics_def funpow_literal integrate_def half64_def vec3_zero_def
      ned_default_def strapdown_new_def float_eval cong: by_value)

definition zero_accel_keeps_state :: bool where
  "zero_accel_keeps_state =
     (let s = (integrate vec3_zero (lit B32 (1 / 100)) ^^ 1000) strapdown_new; eps = lit B64 (1 / 10 ^ 9)
      in flt (fabs (ned_n (sd_pos s))) eps \<and> flt (fabs (ned_n (sd_vel s))) eps)"

lemma integrate_zero:
  assumes "sd_pos s = ned_default" "sd_vel s = ned_default" "last_a s = None \<or> last_a s = Some vec3_zero"
  shows "integrate vec3_zero (lit B32 (1 / 100)) s = s\<lparr>last_a := Some vec3_zero\<rparr>"
  using assms by (auto simp: integrate_def half64_def vec3_zero_def ned_default_def Let_def float_eval)

lemma integrate_zero_many:
  "sd_pos ((integrate vec3_zero (lit B32 (1 / 100)) ^^ n) strapdown_new) = ned_default
   \<and> sd_vel ((integrate vec3_zero (lit B32 (1 / 100)) ^^ n) strapdown_new) = ned_default
   \<and> (let a = last_a ((integrate vec3_zero (lit B32 (1 / 100)) ^^ n) strapdown_new) in a = None \<or> a = Some vec3_zero)"
  by (induction n) (auto simp: strapdown_new_def integrate_zero Let_def)

lemma zero_accel_keeps_state_passes: "zero_accel_keeps_state"
  using integrate_zero_many [of 1000] by (simp add: zero_accel_keeps_state_def ned_default_def float_eval Let_def)

definition bias_estimator_skips_when_disallowed :: bool where
  "bias_estimator_skips_when_disallowed =
     (let b = (observe (vec3_zero\<lparr>v2 := lit B32 (- 981 / 100)\<rparr>) (vec3_zero\<lparr>v0 := FNum 1\<rparr>) (lit B32 (1 / 100)) False ^^ 1000)
                (bias_new (lit B32 (1 / 2)) (lit B32 (1 / 10)))
      in flt (fabs (v0 (be_gyro b))) (lit B32 (1 / 10 ^ 9)))"

lemma bias_estimator_skips_when_disallowed_passes: "bias_estimator_skips_when_disallowed"
proof -
  have "be_gyro ((observe a g dt False ^^ n) b) = be_gyro b" for a g dt n b
    by (induction n) (simp_all add: observe_def)
  then show ?thesis
    by (simp add: bias_estimator_skips_when_disallowed_def bias_new_def vec3_zero_def float_eval Let_def)
qed

section \<open>Simulator\<close>

definition clean_is_identity :: "sim_math \<Rightarrow> timestamp \<Rightarrow> bool" where
  "clean_is_identity sm now =
     (let fx = apply_spoof sm SpClean (FNum 100) ((fix_of now (FNum 40) (FNum (- 100)))\<lparr>hdop := None, sats := None\<rparr>)
      in close_to (lit B64 (1 / 10 ^ 12)) (lat_deg fx) (FNum 40))"

lemma clean_is_identity_passes: "clean_is_identity sm now"
  by (simp add: clean_is_identity_def apply_spoof_def horizontal_offset_def fix_of_def close_to_def float_eval Let_def)

definition gradual_drift_accumulates :: "sim_math \<Rightarrow> timestamp \<Rightarrow> bool" where
  "gradual_drift_accumulates sm now =
     (let fx = apply_spoof sm (SpGradualDrift (FNum 0) (FNum 1) (FNum 0)) (FNum 100)
                 ((fix_of now (FNum 40) (FNum (- 100)))\<lparr>hdop := None, sats := None\<rparr>);
          dlat = to_degrees (fdiv B64 (FNum 100) R_EARTH_M)
      in close_to (lit B64 (1 / 10 ^ 9)) (lat_deg fx) (fadd B64 (FNum 40) dlat))"

lemma gradual_drift_accumulates_passes: "gradual_drift_accumulates sm now"
  by (simp add: gradual_drift_accumulates_def apply_spoof_def horizontal_offset_def drift_time_def fmax_def
      translate_fix_def to_degrees_def pi_fl_def R_EARTH_M_def fix_of_def close_to_def float_eval Let_def)

definition linear_north_advances :: bool where
  "linear_north_advances =
     (let a = LinearNorth (FNum 10) (FNum 0); b = LinearNorth (FNum 10) (FNum 1)
      in flt (fabs (fsub B64 (fsub B64 (ned_n (gt_pos b)) (ned_n (gt_pos a))) (FNum 10))) (lit B64 (1 / 10 ^ 9)))"

lemma linear_north_advances_passes: "linear_north_advances"
  by (simp add: linear_north_advances_def LinearNorth_def float_eval Let_def)

end
