(* ===== verification/Spec2Isabelle.thy ===== *)
theory Spec2Isabelle
  imports Controller Runtime Serial_Gps Mav_Link Imu_Driver Mavsim Shutdown Log_File Forensic_File Ingest
    Conformance_Fsm Conformance_Drift Conformance_Link Conformance_Mav Conformance_Hw Conformance_System
begin

text \<open>
  Verification of flyingsquirrel, a detector of GPS spoofing for drones.

  \<^bold>\<open>The program.\<close> A receiver and an inertial unit feed a fusion task. It integrates the
  inertial samples into a dead-reckoned track, compares every GPS fix with it, and runs the
  residual through a state machine: Normal, Suspicious, Spoofed. On the transition to Spoofed
  it dumps a forensic record, disables GPS aiding on the autopilot, commands the return to base
  and reads both back. Around it: the sensor drivers, the MAVLink link that also
  records what the autopilot says, the event channel with the log, the command line and the
  configuration file that wire it all, the supervisor that ends the process, a simulator, and a
  dashboard that follows the log.

  \<^bold>\<open>Theories, bottom up.\<close> Paths are below \<open>src/src/\<close> unless they say otherwise. A record models
  the struct of the same name, a datatype the enum, a definition the function of the same name;
  where a function is long its stages are definitions of their own, composed in its order.

  \<^item> \<open>Prelude\<close>: saturating machine integers, durations and the monotonic clock, generic lemmas.
  \<^item> \<open>Floats\<close>: executable IEEE binary32 and binary64 (the values the Rust code computes with,
    rounded to nearest even, with infinities, NaN and signed zero), and enclosures of results.
  \<^item> \<open>Types\<close>: \<open>types.rs\<close>, \<open>error.rs\<close>. \<open>Sensor_Gate\<close>: the plausibility gates of \<open>mav/mod.rs\<close>.
    \<open>Bounded_Map\<close>: the two bounded receipt maps, as an interface and its list of entries.
  \<^item> \<open>Residual_Buffer\<close>, \<open>Jump\<close>, \<open>Drift\<close>, \<open>State_Machine\<close>, \<open>Detect_Config\<close>: \<open>detect/\<close>.
  \<^item> \<open>Strapdown\<close>, \<open>Attitude\<close>, \<open>Nav\<close>: \<open>nav/\<close>, the dead reckoner.
  \<^item> \<open>Monitor\<close>: \<open>mav/monitor.rs\<close>, with a heartbeat as the list of its atomic stores.
    \<open>Controller\<close>: \<open>action/\<close> and \<open>mav/controller.rs\<close>; the trait is the locale
    \<open>flight_controller\<close>, both controllers interpret it.
  \<^item> \<open>Mav_Link\<close>: \<open>mav/mod.rs\<close>, \<open>mav/source.rs\<close>: filter, source lock, conversion, clock aligner,
    listener, bounded channels, heartbeat watchdog.
  \<^item> \<open>Nmea_Link\<close>, \<open>Serial_Gps\<close>: \<open>hw/nmea_link.rs\<close>, \<open>ingest/nmea.rs\<close>, \<open>hw/serial_gps.rs\<close>.
    \<open>Axis_Map\<close>, \<open>Imu_Driver\<close>: \<open>hw/axis_map.rs\<close>, \<open>hw/mpu6050.rs\<close>, \<open>hw/i2c_imu.rs\<close>.
  \<^item> \<open>Forensic\<close>: the records and rings of \<open>forensic.rs\<close>; \<open>Forensic_File\<close>: its writing of a dump.
    \<open>Attestation\<close>: \<open>attestation.rs\<close>.
  \<^item> \<open>Fusion\<close>: \<open>fusion.rs\<close>; \<open>Fusion_Trace\<close> has its case rules, \<open>Fusion_Safety\<close> the step relation
    \<open>loop_run\<close> and what holds along it, \<open>Fusion_Wiring\<close> what a task never changes.
  \<^item> \<open>Runtime\<close>: \<open>runtime.rs\<close>, the task \<open>spawn_all\<close> starts. \<open>Event_Log\<close>: its event channel and
    the action task that logs from it. \<open>Ingest\<close>: its ingest tasks and channels, the sources of
    \<open>mav/source.rs\<close> and the reset signal. \<open>Event_Json\<close>: the JSON form of an event, written and
    read; \<open>Log_File\<close>: \<open>on_event\<close> of both controllers and the log as a file.
  \<^item> \<open>Startup\<close>, \<open>Launch\<close>: \<open>config.rs\<close> and the first half of \<open>run\<close> in \<open>bin/flyingsquirrel.rs\<close>;
    \<open>Shutdown\<close>: its second half. \<open>Simulator\<close>: \<open>sim/\<close>. \<open>Autopilot\<close>, \<open>Mavsim\<close>:
    reactions and sensor messages of \<open>bin/mavsim.rs\<close>. \<open>Watch\<close>: \<open>src/watch/src/main.rs\<close>.
  \<^item> \<open>Conformance_Detect\<close>, \<open>Conformance_Fsm\<close>, \<open>Conformance_Drift\<close>, \<open>Conformance_Monitor\<close>,
    \<open>Conformance_Link\<close>, \<open>Conformance_Mav\<close>, \<open>Conformance_Hw\<close>, \<open>Conformance_System\<close>: the unit
    tests of the code, run on the model. Each test is a definition that makes the calls of the
    test and is true when its assertions hold, and a lemma, named after it with \<open>_passes\<close>, that it is; they check
    the definitions above against what the authors expect of the code. \<open>Float_Eval\<close> evaluates
    their arithmetic.

  \<^bold>\<open>State and concurrency.\<close> Every operation is a function from its state and what the environment
  supplied to it (clock readings, monitor contents, outcomes of sends and reads) to the new state
  and its outputs in order. \<open>Inl\<close> is an error value of the code, \<open>None\<close> a panic or, where the text
  says so, the end of a stream. Tasks that run concurrently meet in step relations: the fusion
  loop over arbitrary inputs, a reader of the monitor between any two stores of a heartbeat, a
  read-back whose loads see different monitor states, the main task's shutdown while the other
  tasks end, broadcast and log.

  \<^bold>\<open>What the theorems show.\<close>
  The detector: Spoofed is latched, needs two anomalous fixes a dwell apart, is reached when the
  evidence goes on, and is cleared only near the dead-reckoned track. The fusion task: order
  and number of the actions, silence before pre-flight, arming, invariants of every reachable
  state, no panic, return at shutdown. The reckoner: frozen tracks do not depend on fixes. The
  links: single source, exact framing and parsing, exact handling of bad reads, bounded stamps.
  The controller: a confirmation is sound, both read-backs return, and against the simulated
  autopilot they do confirm. The program: no file enables a bypass, the printed configuration
  reads back, a launched detector arms for its own autopilot and anchors first at its home, the paths from the
  sources lose nothing, the log is complete and the shutdown keeps it, a dump is on disk whole
  or not at all. The dashboard that reads the bytes of the log follows the detector as long as
  only its own events are in the log and no write fails. Some theorems record where the code differs from its documentation;
  their text says so.

  \<^bold>\<open>Bounds and fuel.\<close> Loops that end by a clock or a stream take the list of what they read:
  51 and 21 polls are enough for the two read-backs, 322 turns for the closing loop (256 samples,
  64 fixes and the two ends). The synthetic sources have fuel for the number of turns; a scenario
  of D seconds at the program's rate of one fix a second needs D + 1 (\<open>Simulator\<close>, \<open>Launch\<close>).
  Machine integers are words; times are natural numbers of nanoseconds, cut to 64 bits where the
  code casts.

  \<^bold>\<open>Parameters.\<close> Third-party code is an argument: the elementary functions (\<open>nav_math\<close>,
  \<open>sim_math\<close>), the MAVLink frame parser, the NMEA crate, the I2C bus, the hash, the JSON and
  number parsers, the random generator as a stream of pairs. A theorem that needs more of one of
  them states it as a hypothesis and has a witness with a concrete function.

  \<^bold>\<open>Not modelled.\<close> The texts of the tracing subscriber; the installation of signal handlers
  (the signal itself is an input of \<open>Ingest\<close>); opening of files, ports and sockets; the text of
  JSON, of numbers and of UTC times; the variant of the program built without the I2C driver; the
  layout of the dashboard; \<open>lib.rs\<close>; fuzz targets and integration tests; of the unit tests, those
  that draw Gaussian noise, evaluate trigonometric functions, or need a file, a parser of another
  crate or the tokio runtime. The
  channels and task handles of tokio appear only with the behaviour their documentation gives
  (order, capacity, closing, lag, a result that can be taken once).
\<close>

lemma plausible_sample_steps: "imu_sample_is_plausible s \<Longrightarrow> \<exists>snap. fst (step mm s d) = Inr snap"
  using imu_sample_is_plausible_finite [of s]
  by (auto simp: step_def Let_def case_prod_beta split: sum.splits)

text \<open>
  C27. The sources feed the reckoner only values it accepts: no sample that the I2C driver
  yields or the MAVLink listener forwards, whatever the bus, the peer and the attacker sent,
  makes a step of the dead reckoner fail as non-finite; and every fix either GPS source
  yields is finite and on the globe.
\<close>

theorem sources_feed_accepted_values:
  "(Sample s \<in> set (fst (imu_stream B cfg ticks))
      \<or> OutImu s \<in> set (fst (run_source (listener_step lcfg) inputs (Some listener_start)))
    \<longrightarrow> (\<exists>snap. fst (step mm s d) = Inr snap))
   \<and> (Emit (SerialFix fx) \<in> set (fst (conn_run nc cinputs t))
      \<or> OutGps fx \<in> set (fst (run_source (listener_step lcfg) inputs (Some listener_start)))
    \<longrightarrow> is_finite (lat_deg fx) \<and> is_finite (lon_deg fx) \<and> is_finite (alt_m fx)
        \<and> \<bar>fval (lat_deg fx)\<bar> \<le> 90 \<and> \<bar>fval (lon_deg fx)\<bar> \<le> 180)"
proof -
  have rx: "rx_ok x" if "x \<in> set (fst (run_source (listener_step lcfg) inputs (Some listener_start)))" for x
    using mav_rx.run_gate [where cfg = lcfg] that by blast
  have sg: "emitted_ok x" if "x \<in> set (fst (conn_run nc cinputs t))" for x
    using serial.run_gate [where nc = nc] that unfolding conn_run_def by blast
  have "imu_sample_is_plausible s" if "Sample s \<in> set (fst (imu_stream B cfg ticks))
      \<or> OutImu s \<in> set (fst (run_source (listener_step lcfg) inputs (Some listener_start)))"
    using that imu_stream_gated [of "Sample s" B cfg ticks] rx [of "OutImu s"] by (auto simp: imu_ok_def rx_ok_def)
  moreover have "gps_fix_is_plausible fx" if "Emit (SerialFix fx) \<in> set (fst (conn_run nc cinputs t))
      \<or> OutGps fx \<in> set (fst (run_source (listener_step lcfg) inputs (Some listener_start)))"
    using that sg [of "Emit (SerialFix fx)"] rx [of "OutGps fx"] by (auto simp: emitted_ok_def rx_ok_def)
  ultimately show ?thesis
    using plausible_sample_steps [of s mm d] gps_fix_is_plausible_bounds [of fx] by blast
qed

lemma still_run:
  "OutImu (scaled_sample 1 still_imu) \<in> set (fst (run_source (listener_step still_cfg) [demo_datagram 1] (Some listener_start)))"
  using still_plausible [of 1]
  by (simp add: run_source_Some listener_step_def demo_datagram_def demo_cfg_def still_cfg_def accept_msg_def bump_stats_def
      listener_start_def check_or_lock_source_def expected_port_opt_def monitor_new_def dispatch_msg_def
      record_msg_def gps_from_msg_def imu_from_msg_def imu_sensor_us_def boot_ms_us_def align_def demo_env_def Let_def)
    (simp add: scaled_sample_def still_imu_def at_mono_def)

lemma sources_feed_accepted_values_witness:
  "\<forall>mm d. \<exists>snap. fst (step mm (scaled_sample 1 still_imu) d) = Inr snap"
  using sources_feed_accepted_values [where s = "scaled_sample 1 still_imu" and lcfg = still_cfg and inputs = "[demo_datagram 1]"]
    still_run by blast

end
